(* ===== verification/Hbb_Prelude.thy ===== *)
theory Hbb_Prelude
  imports Main "HOL-Library.Word" "HOL-Library.AList"
begin

unbundle bit_operations_syntax

text \<open>
  Shared vocabulary of the development: the machine integer types of the Rust sources, byte
  buffers, little-endian (de)serialisation as \<open>to_le_bytes\<close> / \<open>from_le_bytes\<close> do it, the
  result type of fallible functions, and the generic lemmas on lists, options and words that
  the component theories use.
\<close>

section \<open>Machine types and results\<close>

type_synonym u8 = "8 word"
type_synonym u16 = "16 word"
type_synonym u32 = "32 word"
type_synonym u64 = "64 word"
type_synonym u128 = "128 word"
type_synonym bytes = "u8 list"

text \<open>\<open>usize\<close> is 64 bits wide; lengths of buffers are natural numbers below \<open>2 ^ 64\<close>.\<close>

type_synonym usize = "64 word"

text \<open>\<open>Result<T, E>\<close>: the left injection is the error, as the \<open>?\<close> operator propagates it.\<close>

type_synonym ('e, 'a) rust_result = "'e + 'a"

definition usize_max :: nat where
  "usize_max = 2 ^ 64 - 1"

named_theorems codec_simps \<open>evaluation of the framing codec\<close>
named_theorems inv_intros \<open>preservation of component invariants\<close>
named_theorems guard_simps \<open>unfolding of guards and permission checks\<close>

section \<open>Little-endian byte strings\<close>

text \<open>\<open>le_bytes n w\<close> are the low \<open>n\<close> bytes of \<open>w\<close>, least significant first.\<close>

primrec le_bytes :: "nat \<Rightarrow> 'a::len word \<Rightarrow> bytes" where
  "le_bytes 0 w = []"
| "le_bytes (Suc n) w = ucast w # le_bytes n (drop_bit 8 w)"

primrec of_le_bytes :: "bytes \<Rightarrow> 'a::len word" where
  "of_le_bytes [] = 0"
| "of_le_bytes (b # bs) = ucast b OR push_bit 8 (of_le_bytes bs)"

lemma length_le_bytes [simp]: "length (le_bytes n w) = n"
  by (induction n arbitrary: w) simp_all

lemma nth_le_bytes: "i < n \<Longrightarrow> le_bytes n w ! i = ucast (drop_bit (8 * i) w)"
proof (induction n arbitrary: i w)
  case (Suc n)
  then show ?case
    by (cases i) (simp_all add: drop_bit_drop_bit ac_simps)
qed simp

lemma le_bytes_ucast:
  fixes w :: "'a::len word"
  assumes "8 * n \<le> LENGTH('b::len)"
  shows "le_bytes n (ucast w :: 'b word) = le_bytes n w"
proof (rule nth_equalityI)
  fix i
  assume "i < length (le_bytes n (ucast w :: 'b word))"
  with assms have "8 * i + 8 \<le> LENGTH('b)" and "i < n" by simp_all
  then have "(ucast (drop_bit (8 * i) (ucast w :: 'b word)) :: u8) = ucast (drop_bit (8 * i) w)"
    by (intro bit_word_eqI) (auto simp: bit_simps)
  with \<open>i < n\<close> show "le_bytes n (ucast w :: 'b word) ! i = le_bytes n w ! i"
    by (simp add: nth_le_bytes)
qed simp

lemma of_le_bytes_le_bytes:
  fixes w :: "'a::len word"
  shows "(of_le_bytes (le_bytes n w) :: 'a word) = take_bit (8 * n) w"
proof (induction n arbitrary: w)
  case 0
  show ?case by simp
next
  case (Suc n)
  have "(ucast (ucast w :: u8) :: 'a word) OR push_bit 8 (take_bit (8 * n) (drop_bit 8 w))
      = take_bit (8 * Suc n) w"
    by (rule bit_word_eqI) (auto simp: bit_simps)
  with Suc.IH [of "drop_bit 8 w"] show ?case by simp
qed

lemma of_le_bytes_le_bytes_ucast:
  fixes w :: "'a::len word"
  assumes "LENGTH('a) \<le> 8 * n" and "LENGTH('a) \<le> LENGTH('b::len)"
  shows "(of_le_bytes (le_bytes n w) :: 'b word) = ucast w"
proof -
  have gen: "(of_le_bytes (le_bytes n w) :: 'b word) = take_bit (8 * n) (ucast w)" for w :: "'a word"
  proof (induction n arbitrary: w)
    case 0
    show ?case by simp
  next
    case (Suc n)
    have "(ucast (ucast w :: u8) :: 'b word) OR push_bit 8 (take_bit (8 * n) (ucast (drop_bit 8 w)))
        = take_bit (8 * Suc n) (ucast w)"
      using assms(2) by (intro bit_word_eqI) (auto simp: bit_simps)
    with Suc.IH [of "drop_bit 8 w"] show ?case by simp
  qed
  have "take_bit (8 * n) (ucast w :: 'b word) = ucast w"
    using assms by (intro bit_word_eqI) (auto simp: bit_simps dest: bit_imp_le_length)
  with gen show ?thesis by simp
qed

lemma of_le_bytes_append_zeros: "of_le_bytes (bs @ replicate k 0) = of_le_bytes bs"
proof (induction bs)
  case Nil
  show ?case by (induction k) simp_all
next
  case (Cons b bs)
  then show ?case by simp
qed

lemma bit_of_le_bytes:
  "bit (of_le_bytes bs :: 'a::len word) i \<longleftrightarrow>
     i < LENGTH('a) \<and> i div 8 < length bs \<and> bit (bs ! (i div 8)) (i mod 8)"
proof (induction bs arbitrary: i)
  case (Cons b bs)
  show ?case
  proof (cases "i < 8")
    case False
    then have "i div 8 = Suc ((i - 8) div 8)" and "i mod 8 = (i - 8) mod 8"
      by (simp_all add: le_div_geq le_mod_geq)
    with False Cons.IH [of "i - 8"] show ?thesis
      by (auto simp: bit_simps dest: bit_imp_le_length)
  qed (auto simp: bit_simps)
qed simp

lemma ucast_of_le_bytes:
  "8 * length bs \<le> LENGTH('a) \<Longrightarrow>
   (ucast (of_le_bytes bs :: 'a::len word) :: 'b::len word) = of_le_bytes bs"
  by (rule bit_word_eqI) (auto simp: bit_simps bit_of_le_bytes)

lemma le_bytes_of_le_bytes:
  assumes "8 * length bs \<le> LENGTH('a::len)"
  shows "le_bytes (length bs) (of_le_bytes bs :: 'a word) = bs"
proof (rule nth_equalityI)
  fix i
  assume "i < length (le_bytes (length bs) (of_le_bytes bs :: 'a word))"
  then have i: "i < length bs" by simp
  have "(ucast (drop_bit (8 * i) (of_le_bytes bs :: 'a word)) :: u8) = bs ! i"
    using i assms by (intro bit_word_eqI) (auto simp: bit_simps bit_of_le_bytes)
  with i show "le_bytes (length bs) (of_le_bytes bs :: 'a word) ! i = bs ! i"
    by (simp add: nth_le_bytes)
qed simp

lemma unat_ucast_up:
  fixes w :: "'a::len word"
  assumes "LENGTH('a) \<le> LENGTH('b::len)"
  shows "unat (ucast w :: 'b word) = unat w"
proof -
  have "unat w < 2 ^ LENGTH('b)"
    using assms by (intro less_le_trans [OF unsigned_less [of w]] power_increasing) simp_all
  then show ?thesis by (simp add: unsigned_ucast_eq take_bit_nat_eq_self)
qed

section \<open>Disjoint bit fields\<close>

lemma bit_unat_less_false:
  fixes w :: "'a::len word"
  assumes "unat w < 2 ^ n" and "n \<le> i"
  shows "\<not> bit w i"
proof -
  from assms(1) have "take_bit n w = w"
    by (simp add: word_unat_eq_iff unsigned_take_bit_eq take_bit_nat_eq_self)
  then have "bit w i = bit (take_bit n w) i" by simp
  with assms(2) show ?thesis by (simp add: bit_simps)
qed

lemma bit_three_iff: "bit (3::'a::len word) n \<longleftrightarrow> n < 2 \<and> n < LENGTH('a)"
proof -
  have "(3::'a word) = mask 2"
    by (simp add: mask_eq_exp_minus_1)
  then have "bit (3::'a word) n = bit (mask 2 :: 'a word) n" by (rule arg_cong)
  then show ?thesis by (auto simp only: bit_mask_iff possible_bit_word)
qed

lemma bit_three_nat_iff: "bit (3::nat) n \<longleftrightarrow> n < 2"
proof -
  have "(3::nat) = mask 2" by (simp add: mask_nat_def)
  then have "bit (3::nat) n = bit (mask 2 :: nat) n" by (rule arg_cong)
  then show ?thesis by (auto simp only: bit_mask_iff possible_bit_nat)
qed

lemma bit_three_int_iff: "bit (3::int) n \<longleftrightarrow> n < 2"
proof -
  have "(3::int) = mask 2" by (simp add: mask_int_def)
  then have "bit (3::int) n = bit (mask 2 :: int) n" by (rule arg_cong)
  then show ?thesis by (auto simp only: bit_mask_iff possible_bit_int)
qed

lemmas bit_three_iffs = bit_three_iff bit_three_nat_iff bit_three_int_iff

section \<open>Association lists and filters\<close>

lemma set_update_subset: "set (AList.update k v al) \<subseteq> insert (k, v) (set al)"
  by (induction al) auto

lemma map_filter_set: "y \<in> set (List.map_filter f xs) \<longleftrightarrow> (\<exists>x \<in> set xs. f x = Some y)"
  by (induction xs) (auto simp: List.map_filter_def)

end
