(* ===== verification/Framing.thy ===== *)
theory Framing
  imports Hbb_Prelude
begin

text \<open>
  The interface between a stream and its incremental decoder: the decoder is called on the
  bytes received so far until it asks for more, and again when more have arrived. The locale
  states what the stream relies on; its lemmas show that how the transport cuts the bytes into
  chunks is irrelevant.
\<close>

text \<open>Feeding chunks: each arrival is appended to the buffer, which is then drained.\<close>

fun feed ::
    "('s \<Rightarrow> 'b list \<Rightarrow> 'm list \<times> 'e option \<times> 's \<times> 'b list) \<Rightarrow> 's \<Rightarrow> 'b list \<Rightarrow> 'b list list \<Rightarrow>
     'm list \<times> 'e option \<times> 's \<times> 'b list" where
  "feed d s buf [] = ([], None, s, buf)"
| "feed d s buf (c # cs) =
     (case d s (buf @ c) of
        (ms, Some e, s', b') \<Rightarrow> (ms, Some e, s', b')
      | (ms, None, s', b') \<Rightarrow> (case feed d s' b' cs of (ms', r) \<Rightarrow> (ms @ ms', r)))"

locale incremental_decoder =
  fixes dec :: "'s \<Rightarrow> 'b list \<Rightarrow> ('e + 'm option) \<times> 's \<times> 'b list"
    and drain :: "'s \<Rightarrow> 'b list \<Rightarrow> 'm list \<times> 'e option \<times> 's \<times> 'b list"
    and ok :: "'s \<Rightarrow> bool"
    and sz :: "'s \<Rightarrow> 'b list \<Rightarrow> nat"
  assumes drain_unfold: "drain s buf =
      (case dec s buf of
         (Inl e, s', b') \<Rightarrow> ([], Some e, s', b')
       | (Inr None, s', b') \<Rightarrow> ([], None, s', b')
       | (Inr (Some m), s', b') \<Rightarrow> (case drain s' b' of (ms, r) \<Rightarrow> (m # ms, r)))"
    and dec_ok: "ok s \<Longrightarrow> dec s buf = (r, s', b') \<Longrightarrow> ok s'"
    and dec_progress: "dec s buf = (Inr (Some m), s', b') \<Longrightarrow> sz s' b' < sz s buf"
    and dec_extend: "ok s \<Longrightarrow> dec s buf = (Inr (Some m), s', b') \<Longrightarrow>
      dec s (buf @ x) = (Inr (Some m), s', b' @ x)"
    and dec_resume: "ok s \<Longrightarrow> dec s buf = (Inr None, s', b') \<Longrightarrow> dec s' (b' @ x) = dec s (buf @ x)"
    and dec_fail: "ok s \<Longrightarrow> dec s buf = (Inl e, s', b') \<Longrightarrow>
      \<exists>s'' b''. dec s (buf @ x) = (Inl e, s'', b'')"
begin

lemma drain_ok: "ok s \<Longrightarrow> drain s buf = (ms, e, s', b') \<Longrightarrow> ok s'"
proof (induction "sz s buf" arbitrary: s buf ms rule: less_induct)
  case less
  obtain r s1 b1 where d: "dec s buf = (r, s1, b1)" by (cases "dec s buf")
  show ?case
  proof (cases "\<exists>m. r = Inr (Some m)")
    case True
    with d less show ?thesis
      by (fastforce simp: drain_unfold [of s buf] dest: dec_progress dec_ok split: prod.splits)
  next
    case False
    with d less show ?thesis
      by (auto simp: drain_unfold [of s buf] dest: dec_ok split: sum.splits option.splits)
  qed
qed

lemma drain_append:
  "ok s \<Longrightarrow> drain s xs = (ms, None, s', b') \<Longrightarrow>
   drain s (xs @ ys) = (case drain s' (b' @ ys) of (ms', r) \<Rightarrow> (ms @ ms', r))"
proof (induction "sz s xs" arbitrary: s xs ms rule: less_induct)
  case less
  obtain r s1 b1 where d: "dec s xs = (r, s1, b1)" by (cases "dec s xs")
  consider e where "r = Inl e" | "r = Inr None" | m where "r = Inr (Some m)"
    by (cases r) (auto split: option.splits)
  then show ?case
  proof cases
    case 1
    with d less.prems show ?thesis by (simp add: drain_unfold [of s xs])
  next
    case 2
    with d less.prems have "ms = []" "s' = s1" "b' = b1"
      by (simp_all add: drain_unfold [of s xs])
    moreover from 2 d less.prems(1) have "drain s1 (b1 @ ys) = drain s (xs @ ys)"
      by (simp add: drain_unfold [of s1] drain_unfold [of s] dec_resume)
    ultimately show ?thesis by (simp split: prod.splits)
  next
    case 3
    from less.prems(2) d 3 obtain ms1 where tail: "drain s1 b1 = (ms1, None, s', b')" and "ms = m # ms1"
      by (auto simp: drain_unfold [of s xs] split: prod.splits)
    have "drain s1 (b1 @ ys) = (case drain s' (b' @ ys) of (ms', r) \<Rightarrow> (ms1 @ ms', r))"
      using d 3 less.prems(1) tail by (intro less.hyps) (auto dest: dec_progress dec_ok)
    moreover have "dec s (xs @ ys) = (Inr (Some m), s1, b1 @ ys)"
      using d 3 less.prems(1) by (simp add: dec_extend)
    ultimately show ?thesis
      using \<open>ms = m # ms1\<close> by (simp add: drain_unfold [of s "xs @ ys"] split: prod.splits)
  qed
qed

lemma drain_prefix_no_error:
  "ok s \<Longrightarrow> drain s (xs @ ys) = (ms, None, r) \<Longrightarrow> \<exists>ms' s' b'. drain s xs = (ms', None, s', b')"
proof (induction "sz s xs" arbitrary: s xs ms rule: less_induct)
  case less
  obtain q s1 b1 where d: "dec s xs = (q, s1, b1)" by (cases "dec s xs")
  consider e where "q = Inl e" | "q = Inr None" | m where "q = Inr (Some m)"
    by (cases q) (auto split: option.splits)
  then show ?case
  proof cases
    case 1
    with d less.prems dec_fail [of s xs e s1 b1 ys] show ?thesis
      by (auto simp: drain_unfold [of s "xs @ ys"])
  next
    case 2
    with d show ?thesis by (simp add: drain_unfold [of s xs])
  next
    case 3
    with d less.prems(1) have "dec s (xs @ ys) = (Inr (Some m), s1, b1 @ ys)"
      by (simp add: dec_extend)
    with less.prems(2) obtain ms1 where "drain s1 (b1 @ ys) = (ms1, None, r)"
      by (auto simp: drain_unfold [of s "xs @ ys"] split: prod.splits)
    then obtain ms' s' b' where "drain s1 b1 = (ms', None, s', b')"
      using less.hyps d 3 less.prems(1) by (metis dec_progress dec_ok)
    with d 3 show ?thesis by (simp add: drain_unfold [of s xs])
  qed
qed

text \<open>Any cut of the byte string into chunks yields the messages of the uncut string.\<close>

lemma feed_concat:
  assumes "ok s" and "drain s buf = ([], None, s, buf)"
    and "drain s (buf @ concat cs) = (ms, None, s', b')"
  shows "feed drain s buf cs = (ms, None, s', b')"
  using assms
proof (induction cs arbitrary: s buf ms)
  case Nil
  then show ?case by simp
next
  case (Cons c cs)
  from Cons.prems(3) have whole: "drain s ((buf @ c) @ concat cs) = (ms, None, s', b')" by simp
  from drain_prefix_no_error [OF Cons.prems(1) this] obtain ms1 s1 b1
    where first: "drain s (buf @ c) = (ms1, None, s1, b1)" by blast
  from drain_append [OF Cons.prems(1) first, of "concat cs"] whole obtain ms2
    where rest: "drain s1 (b1 @ concat cs) = (ms2, None, s', b')" and "ms = ms1 @ ms2"
    by (auto split: prod.splits)
  have ok1: "ok s1" using drain_ok [OF Cons.prems(1) first] .
  from drain_append [OF Cons.prems(1) first, of "[]"] first
  have "drain s1 b1 = ([], None, s1, b1)" by (auto split: prod.splits)
  from Cons.IH [OF ok1 this rest] first \<open>ms = ms1 @ ms2\<close> show ?case by simp
qed

end

end
