(* ===== verification/Bytes_Codec.thy ===== *)
theory Bytes_Codec
  imports Framing
begin

unbundle bit_operations_syntax

text \<open>
  The length-prefixed framing of \<open>libs/hbb_common/src/bytes_codec.rs\<close>: the codec record, the
  header encoder and decoder, the \<open>Decoder\<close> and \<open>Encoder\<close> implementations.
\<close>

section \<open>The codec\<close>

datatype decode_state = Head | Data usize

record bytes_codec =
  codec_state :: decode_state
  codec_raw :: bool
  max_packet_length :: usize

datatype io_error = InvalidData_TooBigPacket | InvalidInput_Overflow

definition codec_new :: bytes_codec where
  "codec_new = \<lparr>codec_state = Head, codec_raw = False, max_packet_length = - 1\<rparr>"

definition set_raw :: "bytes_codec \<Rightarrow> bytes_codec" where
  "set_raw c = c\<lparr>codec_raw := True\<rparr>"

definition set_max_packet_length :: "usize \<Rightarrow> bytes_codec \<Rightarrow> bytes_codec" where
  "set_max_packet_length n c = c\<lparr>max_packet_length := n\<rparr>"

text \<open>
  \<open>decode_head\<close> returns the payload length and the buffer after the header was consumed
  (\<open>src.advance\<close>); \<open>None\<close> means that the header is not complete yet.
\<close>

definition decode_head ::
    "bytes_codec \<Rightarrow> bytes \<Rightarrow> (io_error, (usize \<times> bytes) option) rust_result" where
  "decode_head c src =
     (if src = [] then Inr None
      else
        let head_len = unat ((src ! 0 AND 0x3) + 1) in
        if length src < head_len then Inr None
        else
          let n0 = (ucast (src ! 0) :: usize);
              n1 = (if head_len > 1 then n0 OR push_bit 8 (ucast (src ! 1)) else n0);
              n2 = (if head_len > 2 then n1 OR push_bit 16 (ucast (src ! 2)) else n1);
              n3 = (if head_len > 3 then n2 OR push_bit 24 (ucast (src ! 3)) else n2);
              n = drop_bit 2 n3
          in if n > max_packet_length c then Inl InvalidData_TooBigPacket
             else Inr (Some (n, drop head_len src)))"

definition decode_data :: "usize \<Rightarrow> bytes \<Rightarrow> (bytes \<times> bytes) option" where
  "decode_data n src =
     (if length src < unat n then None else Some (take (unat n) src, drop (unat n) src))"

text \<open>\<open>Decoder::decode\<close>: the result, the codec and the buffer afterwards.\<close>

definition decode ::
    "bytes_codec \<Rightarrow> bytes \<Rightarrow> (io_error, bytes option) rust_result \<times> bytes_codec \<times> bytes" where
  "decode c src =
     (if codec_raw c then
        (if src \<noteq> [] then (Inr (Some src), c, []) else (Inr None, c, src))
      else
        let data = (\<lambda>n c src.
              case decode_data n src of
                Some (d, src') \<Rightarrow> (Inr (Some d), c\<lparr>codec_state := Head\<rparr>, src')
              | None \<Rightarrow> (Inr None, c, src))
        in case codec_state c of
             Head \<Rightarrow>
               (case decode_head c src of
                  Inl e \<Rightarrow> (Inl e, c, src)
                | Inr None \<Rightarrow> (Inr None, c, src)
                | Inr (Some (n, src')) \<Rightarrow> data n (c\<lparr>codec_state := Data n\<rparr>) src')
           | Data n \<Rightarrow> data n c src)"

text \<open>\<open>Encoder::encode\<close>: the buffer afterwards.\<close>

definition encode :: "bytes_codec \<Rightarrow> bytes \<Rightarrow> bytes \<Rightarrow> (io_error, bytes) rust_result" where
  "encode c data buf =
     (let len = (of_nat (length data) :: usize) in
      if codec_raw c then Inr (buf @ data)
      else if length data \<le> 0x3F then
        Inr (buf @ [ucast (push_bit 2 len)] @ data)
      else if length data \<le> 0x3FFF then
        Inr (buf @ le_bytes 2 ((ucast (push_bit 2 len) :: u16) OR 0x1) @ data)
      else if length data \<le> 0x3FFFFF then
        (let h = (ucast (push_bit 2 len) :: u32) OR 0x2 in
         Inr (buf @ le_bytes 2 (ucast (h AND 0xFFFF) :: u16) @ [ucast (drop_bit 16 h)] @ data))
      else if length data \<le> 0x3FFFFFFF then
        Inr (buf @ le_bytes 4 ((ucast (push_bit 2 len) :: u32) OR 0x3) @ data)
      else Inl InvalidInput_Overflow)"

text \<open>A sender that encodes a sequence of messages into one buffer.\<close>

fun encode_all :: "bytes_codec \<Rightarrow> bytes list \<Rightarrow> bytes \<Rightarrow> (io_error, bytes) rust_result" where
  "encode_all c [] buf = Inr buf"
| "encode_all c (m # ms) buf =
     (case encode c m buf of Inl e \<Rightarrow> Inl e | Inr buf' \<Rightarrow> encode_all c ms buf')"

text \<open>A receiver that calls \<open>decode\<close> until it asks for more bytes or fails.\<close>

definition codec_size :: "bytes_codec \<Rightarrow> bytes \<Rightarrow> nat" where
  "codec_size c buf = 2 * length buf + (case codec_state c of Head \<Rightarrow> 0 | Data _ \<Rightarrow> 1)"

function drain :: "bytes_codec \<Rightarrow> bytes \<Rightarrow> bytes list \<times> io_error option \<times> bytes_codec \<times> bytes" where
  "drain c buf =
     (case decode c buf of
        (Inl e, c', b') \<Rightarrow> ([], Some e, c', b')
      | (Inr None, c', b') \<Rightarrow> ([], None, c', b')
      | (Inr (Some m), c', b') \<Rightarrow>
          (if codec_size c' b' < codec_size c buf
           then (case drain c' b' of (ms, r) \<Rightarrow> (m # ms, r)) else ([m], None, c', b')))"
  by pat_completeness auto
termination
  by (relation "measure (\<lambda>(c, buf). codec_size c buf)") auto

declare drain.simps [simp del]

section \<open>The header as one little-endian number\<close>

text \<open>
  \<open>frame_head n\<close> is the header of a payload of \<open>n\<close> bytes: the length shifted left by two, the
  number of extra header bytes in the low two bits, in as many bytes as that needs.
\<close>

definition frame_head :: "nat \<Rightarrow> bytes" where
  "frame_head n =
     (let len = push_bit 2 (of_nat n :: usize) in
      if n \<le> 0x3F then le_bytes 1 len
      else if n \<le> 0x3FFF then le_bytes 2 (len OR 0x1)
      else if n \<le> 0x3FFFFF then le_bytes 3 (len OR 0x2)
      else le_bytes 4 (len OR 0x3))"

lemma le_bytes3: "le_bytes 2 (h AND 0xFFFF) @ [ucast (drop_bit 16 h)] = le_bytes 3 (h :: u32)"
proof -
  have "(0xFFFF :: u32) = mask 16" by (simp add: mask_eq_exp_minus_1)
  then have "(h AND 0xFFFF) = take_bit 16 h" by (simp add: take_bit_eq_mask)
  moreover have "ucast (take_bit 16 h) = (ucast h :: u8)"
     "ucast (drop_bit 8 (take_bit 16 h)) = (ucast (drop_bit 8 h) :: u8)"
    by (rule bit_word_eqI; auto simp: bit_simps)+
  ultimately show ?thesis by (simp add: numeral_eq_Suc)
qed

lemma ucast_or_tag:
  "(ucast (w :: usize) :: u16) OR 1 = ucast (w OR 1)"
  "(ucast w :: u32) OR 2 = ucast (w OR 2)"
  "(ucast w :: u32) OR 3 = ucast (w OR 3)"
  by (rule bit_word_eqI; auto simp: bit_simps bit_three_iffs)+

lemma encode_eq:
  "\<not> codec_raw c \<Longrightarrow> encode c data buf =
    (if length data \<le> 0x3FFFFFFF then Inr (buf @ frame_head (length data) @ data) else Inl InvalidInput_Overflow)"
  by (simp add: encode_def frame_head_def Let_def le_bytes3 ucast_or_tag le_bytes_ucast)

lemma decode_head_le_bytes:
  fixes w :: usize
  assumes "k < 4" and "unat n < 2 ^ (8 * k + 6)" and "n \<le> max_packet_length c"
  shows "decode_head c (le_bytes (Suc k) (push_bit 2 n OR of_nat k) @ rest) = Inr (Some (n, rest))"
proof -
  let ?w = "push_bit 2 n OR of_nat k :: usize"
  let ?src = "le_bytes (Suc k) ?w @ rest"
  have nb: "i < 8 * k + 6" if "bit n i" for i
    using assms(2) that bit_unat_less_false [of n "8 * k + 6" i] by (meson not_le)
  have k: "k = 0 \<or> k = 1 \<or> k = 2 \<or> k = 3" using assms(1) by auto
  have nth: "?src ! i = ucast (drop_bit (8 * i) ?w)" if "i \<le> k" for i
    using that by (simp add: nth_append nth_le_bytes del: le_bytes.simps)
  have hd: "?src ! 0 AND 3 = of_nat k"
    unfolding nth [OF le0] using k
    by (elim disjE; intro bit_word_eqI) (auto simp: bit_simps bit_three_iffs)
  have hl: "unat ((?src ! 0 AND 3) + 1) = Suc k"
    unfolding hd using k by (elim disjE) simp_all
  have val: "drop_bit 2 (of_le_bytes (le_bytes (Suc k) ?w)) = n"
    unfolding of_le_bytes_le_bytes using k
    by (elim disjE; intro bit_word_eqI) (auto simp: bit_simps bit_three_iffs dest: nb)
  show ?thesis
    using k hl val nth [of 0] nth [of 1] nth [of 2] nth [of 3] assms(3)
    by (elim disjE) (simp_all add: decode_head_def Let_def push_bit_or push_bit_push_bit
      or.assoc numeral_eq_Suc)
qed

lemma frame_head_tagged:
  assumes "n \<le> 0x3FFFFFFF"
  obtains k where "k < 4" and "n < 2 ^ (8 * k + 6)"
    and "frame_head n = le_bytes (Suc k) (push_bit 2 (of_nat n) OR of_nat k :: usize)"
proof -
  consider "n \<le> 0x3F" | "0x3F < n" "n \<le> 0x3FFF" | "0x3FFF < n" "n \<le> 0x3FFFFF" | "0x3FFFFF < n"
    by linarith
  then show thesis
  proof cases
    case 1 then show ?thesis using that [of 0] by (simp add: frame_head_def Let_def)
  next
    case 2 then show ?thesis using that [of 1]
      by (simp add: frame_head_def Let_def numeral_2_eq_2 [symmetric] del: le_bytes.simps)
  next
    case 3 then show ?thesis using that [of 2] by (simp add: frame_head_def Let_def numeral_3_eq_3)
  next
    case 4 then show ?thesis using assms that [of 3] by (simp add: frame_head_def Let_def)
  qed
qed

lemma decode_head_frame_head:
  assumes "n \<le> 0x3FFFFFFF" and "of_nat n \<le> max_packet_length c"
  shows "decode_head c (frame_head n @ rest) = Inr (Some (of_nat n, rest))"
proof -
  obtain k where "k < 4" and "n < 2 ^ (8 * k + 6)"
    and head: "frame_head n = le_bytes (Suc k) (push_bit 2 (of_nat n) OR of_nat k :: usize)"
    using assms(1) by (rule frame_head_tagged)
  moreover have "unat (of_nat n :: usize) = n"
    using assms(1) by (simp add: unat_of_nat)
  ultimately show ?thesis
    unfolding head using assms(2) by (intro decode_head_le_bytes) simp_all
qed

section \<open>Incremental decoding\<close>

lemma decode_head_progress:
  "decode_head c src = Inr (Some (n, src')) \<Longrightarrow> length src' < length src"
proof -
  have "0 < unat ((b AND 3) + 1 :: u8)" for b
  proof -
    have "unat (b AND 3) \<le> 3"
      using word_and_le1 [of b 3] by (simp add: word_le_nat_alt)
    then show ?thesis by (simp add: unat_word_ariths)
  qed
  then show "decode_head c src = Inr (Some (n, src')) \<Longrightarrow> length src' < length src"
    by (fastforce simp: decode_head_def Let_def split: if_splits)
qed

lemma decode_head_extend:
  "decode_head c src = Inr (Some (n, src')) \<Longrightarrow> decode_head c (src @ x) = Inr (Some (n, src' @ x))"
  by (auto simp: decode_head_def Let_def nth_append split: if_splits)

lemma decode_head_fail: "decode_head c src = Inl e \<Longrightarrow> decode_head c (src @ x) = Inl e"
  by (auto simp: decode_head_def Let_def nth_append split: if_splits)

lemma decode_head_state [simp]: "decode_head (c\<lparr>codec_state := s\<rparr>) src = decode_head c src"
  by (simp add: decode_head_def Let_def)

lemma decode_after_head:
  "\<not> codec_raw c \<Longrightarrow> codec_state c = Head \<Longrightarrow> decode_head c src = Inr (Some (n, src')) \<Longrightarrow>
   decode c src = decode (c\<lparr>codec_state := Data n\<rparr>) src'"
  by (simp add: decode_def Let_def)

lemma decode_None_resume:
  assumes "\<not> codec_raw c" and "decode c src = (Inr None, c', src')"
  shows "(c' = c \<and> src' = src) \<or>
    (\<exists>n. codec_state c = Head \<and> decode_head c src = Inr (Some (n, src')) \<and> c' = c\<lparr>codec_state := Data n\<rparr>)"
  using assms
  by (auto simp: decode_def Let_def split: decode_state.splits sum.splits option.splits prod.splits)

lemma decode_data_extend:
  "decode_data n src = Some (d, src') \<Longrightarrow> decode_data n (src @ x) = Some (d, src' @ x)"
  by (auto simp: decode_data_def split: if_splits)

lemma decode_data_length: "decode_data n src = Some (d, src') \<Longrightarrow> length src' \<le> length src"
  by (auto simp: decode_data_def split: if_splits)

lemma decode_progress:
  assumes "decode c buf = (Inr (Some m), c', b')"
  shows "codec_size c' b' < codec_size c buf"
  using assms
  by (auto simp: decode_def codec_size_def Let_def
      dest!: decode_head_progress decode_data_length
      split: if_splits decode_state.splits sum.splits option.splits prod.splits)

lemma drain_unfold:
  "drain c buf =
     (case decode c buf of
        (Inl e, c', b') \<Rightarrow> ([], Some e, c', b')
      | (Inr None, c', b') \<Rightarrow> ([], None, c', b')
      | (Inr (Some m), c', b') \<Rightarrow> (case drain c' b' of (ms, r) \<Rightarrow> (m # ms, r)))"
  by (simp add: drain.simps [of c buf] decode_progress split: sum.splits option.splits prod.splits)

interpretation framed: incremental_decoder decode drain "\<lambda>c. \<not> codec_raw c" codec_size
proof (unfold_locales, goal_cases)
  case (1 s buf)
  show ?case by (rule drain_unfold)
next
  case (2 s buf r s' b')
  then show ?case
    by (auto simp: decode_def Let_def
        split: if_splits decode_state.splits sum.splits option.splits prod.splits)
next
  case (3 s buf m s' b')
  then show ?case by (rule decode_progress)
next
  case (4 s buf m s' b' x)
  then show ?case
    by (auto simp: decode_def Let_def decode_head_extend decode_data_extend
        split: if_splits decode_state.splits sum.splits option.splits prod.splits)
next
  case (5 s buf s' b' x)
  then show ?case
    using decode_None_resume [of s buf s' b'] decode_after_head [OF _ _ decode_head_extend, of s buf _ b' x]
    by metis
next
  case (6 s buf e s' b' x)
  then show ?case
    by (auto simp: decode_def Let_def decode_head_fail
        split: if_splits decode_state.splits sum.splits option.splits prod.splits)
qed


lemma drain_frame:
  assumes "\<not> codec_raw c" and "codec_state c = Head" and "length m \<le> 0x3FFFFFFF"
    and "of_nat (length m) \<le> max_packet_length c"
  shows "drain c (frame_head (length m) @ m @ rest) = (case drain c rest of (ms, r) \<Rightarrow> (m # ms, r))"
proof -
  have len: "unat (of_nat (length m) :: usize) = length m"
    using assms(3) by (simp add: unat_of_nat)
  have "decode c (frame_head (length m) @ m @ rest)
      = (Inr (Some m), c\<lparr>codec_state := Head\<rparr>, rest)"
    using assms len by (simp add: decode_def decode_head_frame_head decode_data_def)
  moreover have "c\<lparr>codec_state := Head\<rparr> = c"
    using assms(2) by (cases c) simp
  ultimately show ?thesis by (simp add: drain_unfold)
qed

lemma encode_all_frames:
  assumes "\<not> codec_raw c" and "encode_all c ms buf = Inr wire"
  shows "wire = buf @ concat (map (\<lambda>m. frame_head (length m) @ m) ms)
    \<and> (\<forall>m \<in> set ms. length m \<le> 0x3FFFFFFF)"
  using assms
  by (induction ms arbitrary: buf) (fastforce simp: encode_eq split: if_splits)+

lemma drain_frames:
  assumes "\<not> codec_raw c" and "codec_state c = Head"
    and "\<forall>m \<in> set ms. length m \<le> 0x3FFFFFFF \<and> of_nat (length m) \<le> max_packet_length c"
  shows "drain c (concat (map (\<lambda>m. frame_head (length m) @ m) ms)) = (ms, None, c, [])"
  using assms
proof (induction ms)
  case Nil
  then show ?case by (simp add: drain_unfold decode_def decode_head_def)
next
  case (Cons m ms)
  then show ?case by (simp add: drain_frame)
qed

section \<open>Properties of the codec\<close>

text \<open>
  C5. Whatever a sender encodes with the codec into one byte string, and however the transport
  cuts that string into chunks (headers and payloads split anywhere), a receiver that decodes
  after every arrival obtains exactly the sent messages, in order, without an error, and ends
  with an empty buffer and the codec back in its header state.
\<close>

theorem framing_roundtrip:
  assumes "\<not> codec_raw c" and "codec_state c = Head"
    and "\<forall>m \<in> set ms. of_nat (length m) \<le> max_packet_length c"
    and "encode_all c ms [] = Inr (concat chunks)"
  shows "feed drain c [] chunks = (ms, None, c, [])"
proof (rule framed.feed_concat)
  show "\<not> codec_raw c" by fact
  show "drain c [] = ([], None, c, [])"
    using drain_frames [OF assms(1,2), of "[]"] by simp
  show "drain c ([] @ concat chunks) = (ms, None, c, [])"
    using encode_all_frames [OF assms(1,4)] assms(3) by (simp add: drain_frames [OF assms(1,2)])
qed

theorem framing_roundtrip_witness:
  "feed drain codec_new [] [[8], [7], [9, 4], [5]] = ([[7, 9], [5]], None, codec_new, [])"
  by (rule framing_roundtrip) (simp_all add: codec_new_def encode_def)

lemma decode_rejects_oversized:
  assumes "n \<le> 0x3FFFFFFF" and "unat (max_packet_length c) < n"
  shows "decode_head c (frame_head n @ rest) = Inl InvalidData_TooBigPacket"
proof -
  have "decode_head (c\<lparr>max_packet_length := - 1\<rparr>) (frame_head n @ rest) = Inr (Some (of_nat n, rest))"
    using assms(1) by (intro decode_head_frame_head) simp_all
  moreover have "max_packet_length c < (of_nat n :: usize)"
    using assms by (simp add: word_less_nat_alt unat_of_nat)
  ultimately show ?thesis
    by (auto simp: decode_head_def Let_def split: if_splits)
qed

text \<open>The length announced by a header that was accepted is within the limit.\<close>

definition codec_inv :: "bytes_codec \<Rightarrow> bool" where
  "codec_inv c \<longleftrightarrow> (case codec_state c of Head \<Rightarrow> True | Data n \<Rightarrow> n \<le> max_packet_length c)"

lemma decode_head_bounded: "decode_head c src = Inr (Some (n, src')) \<Longrightarrow> n \<le> max_packet_length c"
  by (auto simp: decode_head_def Let_def split: if_splits)

lemma decode_data_size: "decode_data n src = Some (d, src') \<Longrightarrow> length d = unat n"
  by (auto simp: decode_data_def split: if_splits)

text \<open>
  With a packet limit set, decoding keeps the pending length below the limit and never
  delivers a message longer than the limit, in whatever pieces the bytes arrive.
\<close>

theorem decode_bounded:
  assumes "\<not> codec_raw c" and "codec_inv c" and "decode c buf = (r, c', buf')"
  shows "codec_inv c' \<and> max_packet_length c' = max_packet_length c
    \<and> (\<forall>m. r = Inr (Some m) \<longrightarrow> length m \<le> unat (max_packet_length c))"
  using assms
  by (auto simp: decode_def codec_inv_def Let_def word_le_nat_alt
      dest!: decode_head_bounded decode_data_size
      split: decode_state.splits sum.splits option.splits prod.splits)

theorem decode_bounded_witness:
  "codec_inv (set_max_packet_length 2 codec_new)
    \<and> decode (set_max_packet_length 2 codec_new) [8, 7, 9] =
        (Inr (Some [7, 9]), set_max_packet_length 2 codec_new, [])"
proof -
  have d: "decode (set_max_packet_length 2 codec_new) [8, 7, 9] =
      (Inr (Some [7, 9]), set_max_packet_length 2 codec_new, [])"
    by (simp add: decode_def decode_head_def decode_data_def set_max_packet_length_def codec_new_def)
  have "codec_inv (set_max_packet_length 2 codec_new)"
    using decode_bounded [OF _ _ d] by (simp add: set_max_packet_length_def codec_new_def codec_inv_def)
  with d show ?thesis by simp
qed

text \<open>
  The error paths: encoding fails exactly on payloads of more than \<open>0x3FFFFFFF\<close> bytes, and
  decoding a frame longer than the receiver's packet limit reports an error and leaves the
  codec and the buffer as they were.
\<close>

theorem codec_errors:
  assumes "\<not> codec_raw c"
  shows "(encode c data buf = Inl InvalidInput_Overflow \<longleftrightarrow> 0x3FFFFFFF < length data)
    \<and> (codec_state c = Head \<and> unat (max_packet_length c) < length data \<and> encode c data [] = Inr wire
        \<longrightarrow> decode c (wire @ rest) = (Inl InvalidData_TooBigPacket, c, wire @ rest))"
  using assms decode_rejects_oversized [of "length data" c "data @ rest"]
  by (auto simp: encode_eq decode_def split: if_splits)

theorem codec_errors_witness:
  "decode (set_max_packet_length 2 codec_new) ([12, 7, 9, 5] @ []) =
     (Inl InvalidData_TooBigPacket, set_max_packet_length 2 codec_new, [12, 7, 9, 5] @ [])"
  using codec_errors [of "set_max_packet_length 2 codec_new" "[7, 9, 5]" "[]" "[12, 7, 9, 5]" "[]"]
  by (simp add: set_max_packet_length_def codec_new_def encode_def)

end
