(* ===== verification/Addr_Mangle.thy ===== *)
theory Addr_Mangle
  imports Hbb_Prelude
begin

unbundle bit_operations_syntax

text \<open>
  The address mangling of \<open>libs/hbb_common/src/lib.rs\<close>: socket addresses are hidden from
  address-rewriting middleboxes by mixing them with a time stamp. \<open>checks\<close> says whether the
  build has overflow checks; an arithmetic underflow then panics (\<open>None\<close>), otherwise it wraps.
\<close>

section \<open>Addresses\<close>

text \<open>
  An IPv4 address is its four octets, an IPv6 address the 128-bit number of its octets in
  network order; \<open>SocketAddrV6\<close> also carries a flow label and a scope id.
\<close>

type_synonym ipv4_addr = "u8 \<times> u8 \<times> u8 \<times> u8"

datatype socket_addr =
    V4 ipv4_addr u16
  | V6 (v6_ip: u128) (v6_port: u16) (v6_flowinfo: u32) (v6_scope_id: u32)

definition ipv6_octets :: "u128 \<Rightarrow> bytes" where
  "ipv6_octets ip = rev (le_bytes 16 ip)"

definition ipv6_from_octets :: "bytes \<Rightarrow> u128" where
  "ipv6_from_octets bs = of_le_bytes (rev bs)"

definition ipv6_is_loopback :: "u128 \<Rightarrow> bool" where
  "ipv6_is_loopback ip \<longleftrightarrow> ip = 1"

text \<open>\<open>Ipv6Addr::to_ipv4\<close>: IPv4-compatible and IPv4-mapped addresses.\<close>

definition ipv6_to_ipv4 :: "u128 \<Rightarrow> ipv4_addr option" where
  "ipv6_to_ipv4 ip =
     (if drop_bit 32 ip = 0 \<or> drop_bit 32 ip = 0xFFFF
      then Some (ucast (drop_bit 24 ip), ucast (drop_bit 16 ip), ucast (drop_bit 8 ip), ucast ip)
      else None)"

definition try_into_v4 :: "socket_addr \<Rightarrow> socket_addr" where
  "try_into_v4 addr =
     (case addr of
        V6 ip port _ _ \<Rightarrow>
          (if \<not> ipv6_is_loopback ip
           then (case ipv6_to_ipv4 ip of Some v4 \<Rightarrow> V4 v4 port | None \<Rightarrow> addr)
           else addr)
      | V4 _ _ \<Rightarrow> addr)"

text \<open>\<open>Config::get_any_listen_addr(false)\<close> is the unspecified IPv6 address with port 0.\<close>

definition any_listen_addr_v6 :: socket_addr where
  "any_listen_addr_v6 = V6 0 0 0 0"

section \<open>Encoding and decoding\<close>

definition addr_number :: "u32 \<Rightarrow> ipv4_addr \<Rightarrow> u16 \<Rightarrow> u128" where
  "addr_number now ip4 port =
     (case ip4 of (a, b, c, d) \<Rightarrow>
        let tm = (ucast now :: u128);
            ip = (of_le_bytes [a, b, c, d] :: u128);
            port = (ucast port :: u128)
        in push_bit 49 (ip + tm) OR push_bit 17 tm OR (port + (tm AND 0xFFFF)))"

definition n_padding :: "bytes \<Rightarrow> nat" where
  "n_padding bs = length (takeWhile (\<lambda>b. b = 0) (rev bs))"

definition addr_encode :: "u32 \<Rightarrow> socket_addr \<Rightarrow> bytes" where
  "addr_encode now addr =
     (case try_into_v4 addr of
        V4 ip4 port \<Rightarrow>
          let bs = le_bytes 16 (addr_number now ip4 port) in take (16 - n_padding bs) bs
      | V6 ip port _ _ \<Rightarrow> ipv6_octets ip @ le_bytes 2 port)"

definition addr_decode :: "bool \<Rightarrow> bytes \<Rightarrow> socket_addr option" where
  "addr_decode checks bs =
     (if length bs > 16 then
        (if length bs \<noteq> 18 then Some any_listen_addr_v6
         else Some (V6 (ipv6_from_octets (take 16 bs)) (of_le_bytes (drop 16 bs)) 0 0))
      else
        let number = (of_le_bytes (bs @ replicate (16 - length bs) 0) :: u128);
            tm = drop_bit 17 number AND 0xFFFFFFFF
        in if checks \<and> (drop_bit 49 number < tm \<or> number AND 0xFFFFFF < tm AND 0xFFFF) then None
           else
             let ip = le_bytes 4 (ucast (drop_bit 49 number - tm) :: u32);
                 port = (number AND 0xFFFFFF) - (tm AND 0xFFFF)
             in Some (V4 (ip ! 0, ip ! 1, ip ! 2, ip ! 3) (ucast port)))"

section \<open>Bit fields of the mangled number\<close>

lemma n_padding_snoc: "n_padding (bs @ [b]) = (if b = 0 then Suc (n_padding bs) else 0)"
  by (simp add: n_padding_def)

lemma n_padding_le: "n_padding bs \<le> length bs"
  unfolding n_padding_def using length_takeWhile_le [of _ "rev bs"] by simp

lemma take_drop_padding:
  "take (length bs - n_padding bs) bs @ replicate (n_padding bs) 0 = bs"
proof (induction bs rule: rev_induct)
  case Nil
  show ?case by (simp add: n_padding_def)
next
  case (snoc b bs)
  show ?case
  proof (cases "b = 0")
    case True
    with snoc show ?thesis
      by (simp add: n_padding_snoc replicate_append_same [symmetric] flip: append_assoc)
  qed (simp add: n_padding_snoc)
qed

lemma ucast_down_add:
  "LENGTH('b) \<le> LENGTH('a) \<Longrightarrow> (ucast (x + y :: 'a::len word) :: 'b::len word) = ucast x + ucast y"
  by transfer (metis min.absorb2 min.commute take_bit_add take_bit_take_bit)

lemma ucast_down_minus:
  "LENGTH('b) \<le> LENGTH('a) \<Longrightarrow> (ucast (x - y :: 'a::len word) :: 'b::len word) = ucast x - ucast y"
  by transfer (metis min.absorb2 min.commute take_bit_diff take_bit_take_bit)

lemma and_masks:
  "(x :: u128) AND 0xFFFF = take_bit 16 x"
  "(x :: u128) AND 0xFFFFFF = take_bit 24 x"
  "(x :: u128) AND 0xFFFFFFFF = take_bit 32 x"
  by (simp_all add: take_bit_eq_mask mask_eq_exp_minus_1)

text \<open>The three fields of the number do not overlap, so each can be read back.\<close>

lemma mangled_fields:
  fixes s tm p :: u128
  assumes "unat tm < 2 ^ 32" and "unat p < 2 ^ 17" and "unat s < 2 ^ 79"
  defines "number \<equiv> push_bit 49 s OR push_bit 17 tm OR p"
  shows "drop_bit 49 number = s" and "take_bit 32 (drop_bit 17 number) = tm"
    and "take_bit 17 number = p" and "p \<le> take_bit 24 number"
proof -
  have tm: "i < 32" if "bit tm i" for i
    using assms(1) that bit_unat_less_false [of tm 32 i] by (meson not_le)
  have p: "i < 17" if "bit p i" for i
    using assms(2) that bit_unat_less_false [of p 17 i] by (meson not_le)
  have s: "i < 79" if "bit s i" for i
    using assms(3) that bit_unat_less_false [of s 79 i] by (meson not_le)
  show "drop_bit 49 number = s"
    unfolding number_def
    by (rule bit_word_eqI) (auto simp: bit_simps dest: tm p s)
  show "take_bit 32 (drop_bit 17 number) = tm"
    unfolding number_def
    by (rule bit_word_eqI) (auto simp: bit_simps dest: tm p s)
  show low: "take_bit 17 number = p"
    unfolding number_def
    by (rule bit_word_eqI) (auto simp: bit_simps dest: tm p s)
  have "take_bit 17 (take_bit 24 number) \<le> take_bit 24 number"
    using take_bit_nat_less_eq_self [of 17 "take_bit 24 (unat number)"]
    by (simp add: word_le_nat_alt unsigned_take_bit_eq)
  with low show "p \<le> take_bit 24 number" by simp
qed


lemma unat_less_pow: "unat (w :: 'a::len word) < 2 ^ LENGTH('a)"
  by (rule unsigned_less)

lemma ipv4_number: "(of_le_bytes [a, b, c, d] :: u128) = ucast (of_le_bytes [a, b, c, d] :: u32)"
  by (subst ucast_of_le_bytes) simp_all

lemma le_bytes_of_le_bytes4: "le_bytes 4 (of_le_bytes [a, b, c, d] :: u32) = [a, b, c, d]"
  using le_bytes_of_le_bytes [of "[a, b, c, d]", where 'a = 32]
  by (simp add: eval_nat_numeral del: le_bytes.simps of_le_bytes.simps)

lemma addr_decode_number:
  assumes "length bs \<le> 16" and "of_le_bytes bs = addr_number now (a, b, c, d) port"
  shows "addr_decode checks bs = Some (V4 (a, b, c, d) port)"
proof -
  define tm where "tm = (ucast now :: u128)"
  define ip where "ip = (of_le_bytes [a, b, c, d] :: u32)"
  define p where "p = (ucast port :: u128) + take_bit 16 tm"
  have tm: "unat tm < 2 ^ 32"
    using unat_less_pow [of now] by (simp add: tm_def unat_ucast_up)
  have ip: "unat (ucast ip :: u128) < 2 ^ 32"
    using unat_less_pow [of ip] by (simp add: unat_ucast_up)
  have t16: "unat (take_bit 16 tm) < 2 ^ 16"
    unfolding unsigned_take_bit_eq by (rule take_bit_nat_less_exp)
  have pt: "unat (ucast port :: u128) < 2 ^ 16"
    using unat_less_pow [of port] by (simp add: unat_ucast_up)
  have p: "unat p = unat (ucast port :: u128) + unat (take_bit 16 tm)"
    using pt t16 by (simp add: p_def unat_word_ariths)
  have s: "unat (ucast ip + tm) = unat (ucast ip :: u128) + unat tm"
    using ip tm by (simp add: unat_word_ariths)
  note fields = mangled_fields [of tm p "ucast ip + tm"]
  define number where "number = push_bit 49 (ucast ip + tm) OR push_bit 17 tm OR p"
  have num: "of_le_bytes (bs @ replicate (16 - length bs) 0) = number"
    using assms(2)
    by (simp add: of_le_bytes_append_zeros addr_number_def and_masks ipv4_number
        number_def p_def tm_def ip_def Let_def del: of_le_bytes.simps)
  have f: "drop_bit 49 number = ucast ip + tm" "take_bit 32 (drop_bit 17 number) = tm"
    "take_bit 17 number = p" "p \<le> take_bit 24 number"
    using fields tm ip pt t16 p s by (simp_all add: number_def)
  have noborrow: "\<not> ucast ip + tm < tm" "\<not> take_bit 24 number < take_bit 16 tm"
    using s p f(4) by (simp_all add: word_less_nat_alt word_le_nat_alt not_less)
  have t: "take_bit 16 (drop_bit 17 number) = take_bit 16 tm"
    by (simp flip: f(2))
  have "(ucast (take_bit 24 number - take_bit 16 tm) :: u16) = port"
  proof -
    have "(ucast (take_bit 24 number) :: u16) = ucast (take_bit 17 number)"
      by (rule bit_word_eqI) (auto simp: bit_simps)
    then have "(ucast (take_bit 24 number - take_bit 16 tm) :: u16)
        = ucast p - ucast (take_bit 16 tm)"
      by (simp add: ucast_down_minus f(3))
    also have "\<dots> = ucast (ucast port :: u128)"
      by (simp add: p_def ucast_down_add)
    also have "\<dots> = port"
      by (rule bit_word_eqI) (auto simp: bit_simps)
    finally show ?thesis .
  qed
  moreover have "(ucast (ucast ip :: u128) :: u32) = ip"
    by (rule bit_word_eqI) (auto simp: bit_simps)
  ultimately show ?thesis
    using assms(1) noborrow f t
    by (simp add: addr_decode_def num and_masks Let_def ip_def le_bytes_of_le_bytes4
        del: le_bytes.simps of_le_bytes.simps)
qed

section \<open>Properties of the mangling\<close>

lemma roundtrip_as_v4:
  assumes "try_into_v4 addr = V4 ip4 port"
  shows "addr_decode checks (addr_encode now addr) = Some (V4 ip4 port)"
proof -
  obtain a b c d where ip4: "ip4 = (a, b, c, d)" by (cases ip4)
  let ?bs = "le_bytes 16 (addr_number now ip4 port)"
  have enc: "addr_encode now addr = take (16 - n_padding ?bs) ?bs"
    using assms by (simp add: addr_encode_def Let_def del: le_bytes.simps)
  have "of_le_bytes (take (16 - n_padding ?bs) ?bs) = (of_le_bytes ?bs :: u128)"
    using arg_cong [where f = "of_le_bytes :: bytes \<Rightarrow> u128", OF take_drop_padding [of ?bs]]
    by (simp add: of_le_bytes_append_zeros del: le_bytes.simps)
  also have "\<dots> = addr_number now ip4 port"
    unfolding of_le_bytes_le_bytes by (rule bit_word_eqI) (simp add: bit_simps)
  finally show ?thesis
    using ip4 by (simp add: enc addr_decode_number del: le_bytes.simps)
qed

lemma roundtrip_as_v6:
  assumes "try_into_v4 addr = V6 ip port fl sc"
  shows "addr_decode checks (addr_encode now addr) = Some (V6 ip port 0 0)"
proof -
  have "(of_le_bytes (le_bytes 16 ip) :: u128) = ip"
    unfolding of_le_bytes_le_bytes by (rule bit_word_eqI) (simp add: bit_simps)
  moreover have "(of_le_bytes (le_bytes 2 port) :: u16) = port"
    unfolding of_le_bytes_le_bytes by (rule bit_word_eqI) (simp add: bit_simps)
  ultimately show ?thesis
    using assms by (simp add: addr_encode_def addr_decode_def ipv6_octets_def
        ipv6_from_octets_def del: le_bytes.simps)
qed

lemma ipv6_to_ipv4_embedded:
  assumes "hi = 0 \<or> hi = 0xFFFF"
  shows "ipv6_to_ipv4 (push_bit 32 hi OR of_le_bytes [d, c, b, a]) = Some (a, b, c, d)"
proof -
  let ?low = "of_le_bytes [d, c, b, a] :: u128" and ?ip = "push_bit 32 hi OR of_le_bytes [d, c, b, a] :: u128"
  have byte: "\<not> bit (x :: u8) n" if "8 \<le> n" for x n using that bit_imp_le_length [of x n] by fastforce
  have "hi = 0 \<or> hi = mask 16" using assms by (simp add: mask_eq_exp_minus_1)
  then have top: "drop_bit 32 ?ip = hi" by (intro bit_word_eqI) (auto simp: bit_simps byte)
  have "ucast (drop_bit 24 ?ip) = a" "ucast (drop_bit 16 ?ip) = b" "ucast (drop_bit 8 ?ip) = c" "ucast ?ip = d"
    by (auto intro!: bit_word_eqI simp: bit_simps byte)
  with top assms show ?thesis by (simp add: ipv6_to_ipv4_def del: of_le_bytes.simps)
qed

text \<open>
  C6. What the receiver of a mangled address gets, for every time stamp and in both build modes (no
  subtraction underflows, although time stamp and port overlap in the mangled number): an IPv4 address comes
  back as it is; an IPv6 address comes back with its port and without flow label and scope if it is the
  loopback address or its upper 96 bits are neither 0 nor \<open>0xFFFF\<close>; every other IPv6 address, an IPv4-compatible
  or IPv4-mapped one with the octets \<open>a.b.c.d\<close> at its end, comes back as that IPv4 address.
\<close>

theorem addr_mangle_roundtrip:
  "addr_decode checks (addr_encode now (V4 ip4 port)) = Some (V4 ip4 port)
    \<and> (ip = 1 \<or> drop_bit 32 ip \<noteq> 0 \<and> drop_bit 32 ip \<noteq> 0xFFFF \<longrightarrow>
        addr_decode checks (addr_encode now (V6 ip port fl sc)) = Some (V6 ip port 0 0))
    \<and> (hi = 0 \<or> hi = 0xFFFF \<longrightarrow> push_bit 32 hi OR of_le_bytes [d, c, b, a] \<noteq> (1 :: u128) \<longrightarrow>
        addr_decode checks (addr_encode now (V6 (push_bit 32 hi OR of_le_bytes [d, c, b, a]) port fl sc))
          = Some (V4 (a, b, c, d) port))"
proof (intro conjI impI)
  show "addr_decode checks (addr_encode now (V4 ip4 port)) = Some (V4 ip4 port)"
    by (rule roundtrip_as_v4) (simp add: try_into_v4_def)
  show "addr_decode checks (addr_encode now (V6 ip port fl sc)) = Some (V6 ip port 0 0)"
    if "ip = 1 \<or> drop_bit 32 ip \<noteq> 0 \<and> drop_bit 32 ip \<noteq> 0xFFFF"
    by (rule roundtrip_as_v6) (use that in \<open>auto simp: try_into_v4_def ipv6_is_loopback_def ipv6_to_ipv4_def\<close>)
  show "addr_decode checks (addr_encode now (V6 (push_bit 32 hi OR of_le_bytes [d, c, b, a]) port fl sc))
      = Some (V4 (a, b, c, d) port)"
    if "hi = 0 \<or> hi = 0xFFFF" and "push_bit 32 hi OR of_le_bytes [d, c, b, a] \<noteq> (1 :: u128)"
    by (rule roundtrip_as_v4)
      (simp add: try_into_v4_def ipv6_is_loopback_def that(2) ipv6_to_ipv4_embedded [OF that(1)]
        del: of_le_bytes.simps)
qed

theorem addr_mangle_roundtrip_witness:
  "addr_decode True (addr_encode 5 (V6 1 21116 7 9)) = Some (V6 1 21116 0 0)
    \<and> addr_decode True (addr_encode 5 (V6 0xFFFF0A000001 21116 7 9)) = Some (V4 (10, 0, 0, 1) 21116)"
proof -
  have "push_bit 32 0xFFFF OR of_le_bytes [1, 0, 0, 10] = (0xFFFF0A000001 :: u128)" by code_simp
  then show ?thesis
    using addr_mangle_roundtrip [where checks = True and now = 5 and port = 21116 and ip = 1 and fl = 7 and sc = 9 and hi = "0xFFFF"
      and a = 10 and b = 0 and c = 0 and d = 1]
    by (simp del: of_le_bytes.simps)
qed

text \<open>
  Malformed input: a build without overflow checks decodes every byte string to some
  address, and one with overflow checks panics on a string whose time stamp field exceeds its
  address field, as in \<open>[0, 0, 2]\<close>; byte strings longer than 16 bytes never panic, and those
  of another length than 18 give the unspecified address.
\<close>

theorem addr_decode_malformed:
  "addr_decode False bs \<noteq> None \<and> addr_decode True [0, 0, 2] = None
    \<and> (16 < length bs \<and> length bs \<noteq> 18 \<longrightarrow> addr_decode checks bs = Some any_listen_addr_v6)"
proof -
  have "addr_decode True [0, 0, 2] = None" by code_simp
  then show ?thesis by (simp add: addr_decode_def Let_def)
qed

theorem addr_decode_malformed_witness:
  "addr_decode True (replicate 17 0) = Some any_listen_addr_v6"
  using addr_decode_malformed [of "replicate 17 0" True] by simp

end
