(* ===== verification/Secure_Stream.thy ===== *)
theory Secure_Stream
  imports Bytes_Codec
begin

text \<open>
  The encrypted stream of \<open>libs/hbb_common/src/tcp.rs\<close>: the \<open>Encrypt\<close> state with its two
  sequence numbers, the nonce derived from them, and the sending and receiving operations of
  \<open>FramedStream\<close>. The authenticated encryption of libsodium (\<open>secretbox\<close>, \<open>box\<close>) is a
  parameter; \<open>secretbox_ok\<close> is its documented contract.
\<close>

section \<open>The cipher state\<close>

type_synonym seal_fun = "bytes \<Rightarrow> bytes \<Rightarrow> bytes \<Rightarrow> bytes"
type_synonym open_fun = "bytes \<Rightarrow> bytes \<Rightarrow> bytes \<Rightarrow> bytes option"

datatype tcp_error =
    IoErr io_error | Elapsed | DecryptionError
  | HandshakePkLength nat | HandshakeBoxFailure | HandshakeKeyLength

record encrypt =
  enc_key :: bytes
  enc_seq :: u64
  dec_seq :: u64

definition encrypt_new :: "bytes \<Rightarrow> encrypt" where
  "encrypt_new key = \<lparr>enc_key = key, enc_seq = 0, dec_seq = 0\<rparr>"

text \<open>The 24-byte nonce: the sequence number in its first eight bytes, zeros after it.\<close>

definition get_nonce :: "u64 \<Rightarrow> bytes" where
  "get_nonce seqnum = le_bytes 8 seqnum @ replicate 16 0"

definition dec :: "open_fun \<Rightarrow> encrypt \<Rightarrow> bytes \<Rightarrow> (tcp_error, bytes) rust_result \<times> encrypt" where
  "dec sb_open k bs =
     (if length bs \<le> 1 then (Inr bs, k)
      else
        let k' = k\<lparr>dec_seq := dec_seq k + 1\<rparr> in
        case sb_open bs (get_nonce (dec_seq k')) (enc_key k') of
          Some res \<Rightarrow> (Inr res, k')
        | None \<Rightarrow> (Inl DecryptionError, k'))"

definition enc :: "seal_fun \<Rightarrow> encrypt \<Rightarrow> bytes \<Rightarrow> bytes \<times> encrypt" where
  "enc sb_seal k data =
     (let k' = k\<lparr>enc_seq := enc_seq k + 1\<rparr>
      in (sb_seal data (get_nonce (enc_seq k')) (enc_key k'), k'))"

text \<open>
  \<open>Encrypt::decode\<close>, the handshake: the peer's symmetric key, opened with its public key and
  our secret key under the zero nonce.
\<close>

definition handshake_decode ::
    "(bytes \<Rightarrow> bytes \<Rightarrow> bytes \<Rightarrow> bytes \<Rightarrow> bytes option) \<Rightarrow> bytes \<Rightarrow> bytes \<Rightarrow> bytes \<Rightarrow>
     (tcp_error, bytes) rust_result" where
  "handshake_decode box_open symmetric_data their_pk our_sk =
     (if length their_pk \<noteq> 32 then Inl (HandshakePkLength (length their_pk))
      else
        case box_open symmetric_data (replicate 24 0) their_pk our_sk of
          None \<Rightarrow> Inl HandshakeBoxFailure
        | Some symmetric_key \<Rightarrow>
            (if length symmetric_key \<noteq> 32 then Inl HandshakeKeyLength else Inr symmetric_key))"

section \<open>The framed stream\<close>

record framed_stream =
  fs_codec :: bytes_codec
  fs_key :: "encrypt option"
  fs_send_timeout :: u64

definition framed_stream_from :: framed_stream where
  "framed_stream_from = \<lparr>fs_codec = codec_new, fs_key = None, fs_send_timeout = 0\<rparr>"

definition set_send_timeout :: "u64 \<Rightarrow> framed_stream \<Rightarrow> framed_stream" where
  "set_send_timeout ms fs = fs\<lparr>fs_send_timeout := ms\<rparr>"

definition stream_set_raw :: "framed_stream \<Rightarrow> framed_stream" where
  "stream_set_raw fs = fs\<lparr>fs_codec := set_raw (fs_codec fs), fs_key := None\<rparr>"

definition is_secured :: "framed_stream \<Rightarrow> bool" where
  "is_secured fs \<longleftrightarrow> fs_key fs \<noteq> None"

definition set_key :: "bytes \<Rightarrow> framed_stream \<Rightarrow> framed_stream" where
  "set_key key fs = fs\<lparr>fs_key := Some (encrypt_new key)\<rparr>"

text \<open>
  \<open>send_bytes\<close> hands the encoded frame to the transport; \<open>expired\<close> is the outcome of the
  timer that runs when a send timeout is set.
\<close>

definition send_bytes :: "bool \<Rightarrow> framed_stream \<Rightarrow> bytes \<Rightarrow> (tcp_error, bytes) rust_result" where
  "send_bytes expired fs bs =
     (if fs_send_timeout fs > 0 \<and> expired then Inl Elapsed
      else case encode (fs_codec fs) bs [] of Inl e \<Rightarrow> Inl (IoErr e) | Inr wire \<Rightarrow> Inr wire)"

definition send_raw ::
    "seal_fun \<Rightarrow> bool \<Rightarrow> framed_stream \<Rightarrow> bytes \<Rightarrow> (tcp_error, bytes) rust_result \<times> framed_stream" where
  "send_raw sb_seal expired fs msg =
     (case fs_key fs of
        Some key \<Rightarrow>
          let (msg', key') = enc sb_seal key msg; fs' = fs\<lparr>fs_key := Some key'\<rparr>
          in (send_bytes expired fs' msg', fs')
      | None \<Rightarrow> (send_bytes expired fs msg, fs))"

text \<open>\<open>next\<close> post-processes the item the framed transport yields (\<open>None\<close> at its end).\<close>

definition next_item ::
    "open_fun \<Rightarrow> framed_stream \<Rightarrow> (tcp_error, bytes) rust_result option \<Rightarrow>
     (tcp_error, bytes) rust_result option \<times> framed_stream" where
  "next_item sb_open fs res =
     (case res of
        Some (Inr bs) \<Rightarrow>
          (case fs_key fs of
             Some key \<Rightarrow>
               let (r, key') = dec sb_open key bs in (Some r, fs\<lparr>fs_key := Some key'\<rparr>)
           | None \<Rightarrow> (res, fs))
      | _ \<Rightarrow> (res, fs))"

definition next_timeout ::
    "open_fun \<Rightarrow> bool \<Rightarrow> framed_stream \<Rightarrow> (tcp_error, bytes) rust_result option \<Rightarrow>
     (tcp_error, bytes) rust_result option \<times> framed_stream" where
  "next_timeout sb_open expired fs res = (if expired then (None, fs) else next_item sb_open fs res)"

text \<open>A sender of a sequence of messages and a receiver of the frames of a byte string.\<close>

fun send_all ::
    "seal_fun \<Rightarrow> framed_stream \<Rightarrow> bytes list \<Rightarrow> (tcp_error, bytes) rust_result \<times> framed_stream" where
  "send_all sb_seal fs [] = (Inr [], fs)"
| "send_all sb_seal fs (m # ms) =
     (case send_raw sb_seal False fs m of
        (Inl e, fs') \<Rightarrow> (Inl e, fs')
      | (Inr w, fs') \<Rightarrow>
          (case send_all sb_seal fs' ms of
             (Inl e, fs'') \<Rightarrow> (Inl e, fs'')
           | (Inr ws, fs'') \<Rightarrow> (Inr (w @ ws), fs'')))"

fun next_all ::
    "open_fun \<Rightarrow> framed_stream \<Rightarrow> bytes list \<Rightarrow> (tcp_error, bytes) rust_result list \<times> framed_stream" where
  "next_all sb_open fs [] = ([], fs)"
| "next_all sb_open fs (b # bs) =
     (case next_item sb_open fs (Some (Inr b)) of
        (r, fs') \<Rightarrow> (case next_all sb_open fs' bs of
           (rs, fs'') \<Rightarrow> (case r of Some x \<Rightarrow> (x # rs, fs'') | None \<Rightarrow> (rs, fs''))))"

definition receive_all ::
    "open_fun \<Rightarrow> framed_stream \<Rightarrow> bytes list \<Rightarrow> (tcp_error, bytes) rust_result list \<times> framed_stream" where
  "receive_all sb_open fs chunks =
     (case feed drain (fs_codec fs) [] chunks of
        (frames, err, c', buf') \<Rightarrow>
          (case next_all sb_open fs frames of
             (rs, fs') \<Rightarrow> (rs @ (case err of None \<Rightarrow> [] | Some e \<Rightarrow> [Inl (IoErr e)]), fs'\<lparr>fs_codec := c'\<rparr>)))"

text \<open>The cipher texts of a sequence of messages sent on one stream.\<close>

fun enc_all :: "seal_fun \<Rightarrow> encrypt \<Rightarrow> bytes list \<Rightarrow> bytes list \<times> encrypt" where
  "enc_all sb_seal k [] = ([], k)"
| "enc_all sb_seal k (m # ms) =
     (let (c, k') = enc sb_seal k m; (cs, k'') = enc_all sb_seal k' ms in (c # cs, k''))"

section \<open>The contract of the cipher\<close>

text \<open>
  What libsodium documents of \<open>secretbox\<close>: opening inverts sealing under the same nonce and
  key, and a sealed message is longer than the plain one by the 16 bytes of the tag.
\<close>

definition secretbox_ok :: "seal_fun \<Rightarrow> open_fun \<Rightarrow> bool" where
  "secretbox_ok sb_seal sb_open \<longleftrightarrow>
     (\<forall>m n k. sb_open (sb_seal m n k) n k = Some m \<and> length (sb_seal m n k) = length m + 16)"

lemma secretbox_okD:
  assumes "secretbox_ok sb_seal sb_open"
  shows "sb_open (sb_seal m n k) n k = Some m" and "length (sb_seal m n k) = length m + 16"
  using assms by (simp_all add: secretbox_ok_def)

text \<open>The two ends of a direction agree on the key and on the number of messages so far.\<close>

definition in_sync :: "framed_stream \<Rightarrow> framed_stream \<Rightarrow> bool" where
  "in_sync a b \<longleftrightarrow>
     (case (fs_key a, fs_key b) of
        (Some ka, Some kb) \<Rightarrow> enc_key ka = enc_key kb \<and> enc_seq ka = dec_seq kb
      | (None, None) \<Rightarrow> True
      | _ \<Rightarrow> False)"

section \<open>One message\<close>

lemma send_raw_frame:
  assumes "\<not> codec_raw (fs_codec a)" and "send_raw sb_seal expired a m = (Inr w, a')"
  obtains f where "w = frame_head (length f) @ f" and "length f \<le> 0x3FFFFFFF"
    and "fs_codec a' = fs_codec a"
    and "\<And>b. secretbox_ok sb_seal sb_open \<Longrightarrow> in_sync a b \<Longrightarrow>
      \<exists>b'. next_item sb_open b (Some (Inr f)) = (Some (Inr m), b') \<and> in_sync a' b' \<and> fs_codec b' = fs_codec b"
proof (cases "fs_key a")
  case None
  with assms show ?thesis
    by (intro that [of m])
      (auto simp: send_raw_def send_bytes_def encode_eq next_item_def in_sync_def
        split: if_splits sum.splits option.splits)
next
  case (Some k)
  let ?f = "sb_seal m (get_nonce (enc_seq k + 1)) (enc_key k)"
  show ?thesis
  proof (rule that [of ?f])
    show "w = frame_head (length ?f) @ ?f" "length ?f \<le> 0x3FFFFFFF" "fs_codec a' = fs_codec a"
      using assms Some
      by (auto simp: send_raw_def enc_def send_bytes_def encode_eq Let_def split: if_splits sum.splits)
    fix b
    assume sb: "secretbox_ok sb_seal sb_open" and "in_sync a b"
    then obtain kb where kb: "fs_key b = Some kb" "enc_key kb = enc_key k" "dec_seq kb = enc_seq k"
      using Some by (auto simp: in_sync_def split: option.splits)
    show "\<exists>b'. next_item sb_open b (Some (Inr ?f)) = (Some (Inr m), b') \<and> in_sync a' b' \<and> fs_codec b' = fs_codec b"
      using assms(2) Some kb secretbox_okD [OF sb]
      by (auto simp: send_raw_def enc_def next_item_def dec_def Let_def in_sync_def)
  qed
qed

lemma send_all_frames:
  assumes "\<not> codec_raw (fs_codec a)" and "secretbox_ok sb_seal sb_open"
    and "send_all sb_seal a ms = (Inr wire, a')" and "in_sync a b"
  shows "\<exists>frames b'. wire = concat (map (\<lambda>f. frame_head (length f) @ f) frames)
    \<and> (\<forall>f \<in> set frames. length f \<le> 0x3FFFFFFF)
    \<and> next_all sb_open b frames = (map Inr ms, b') \<and> in_sync a' b' \<and> fs_codec b' = fs_codec b"
  using assms(1,3,4)
proof (induction ms arbitrary: a b wire)
  case Nil
  then show ?case by (auto intro!: exI [of _ "[]"])
next
  case (Cons m ms)
  from Cons.prems(2) obtain w a1 ws where
    s1: "send_raw sb_seal False a m = (Inr w, a1)" and
    s2: "send_all sb_seal a1 ms = (Inr ws, a')" and w: "wire = w @ ws"
    by (auto split: prod.splits sum.splits)
  from send_raw_frame [OF Cons.prems(1) s1] obtain f where
    f: "w = frame_head (length f) @ f" "length f \<le> 0x3FFFFFFF" "fs_codec a1 = fs_codec a" and
    nx: "\<exists>b'. next_item sb_open b (Some (Inr f)) = (Some (Inr m), b') \<and> in_sync a1 b' \<and> fs_codec b' = fs_codec b"
    using assms(2) Cons.prems(3) by metis
  from nx obtain b1 where b1: "next_item sb_open b (Some (Inr f)) = (Some (Inr m), b1)"
    "in_sync a1 b1" "fs_codec b1 = fs_codec b" by blast
  from Cons.IH [OF _ s2 b1(2)] Cons.prems(1) f(3) obtain frames b' where
    "ws = concat (map (\<lambda>f. frame_head (length f) @ f) frames)"
    "\<forall>f \<in> set frames. length f \<le> 0x3FFFFFFF"
    "next_all sb_open b1 frames = (map Inr ms, b')" "in_sync a' b'" "fs_codec b' = fs_codec b1"
    by auto
  with w f b1 show ?case
    by (intro exI [of _ "f # frames"] exI [of _ b']) simp
qed

section \<open>Properties of the stream\<close>

text \<open>
  C2. End to end: if both ends hold the same key and agree on the sequence number, whatever the
  sender transmits arrives, in order and unchanged, however the transport cuts the bytes, and
  the two ends still agree afterwards. Without a key the same holds of the plain stream.
\<close>

theorem secure_channel:
  assumes "secretbox_ok sb_seal sb_open" and "in_sync a b"
    and "\<not> codec_raw (fs_codec a)" and "\<not> codec_raw (fs_codec b)" and "codec_state (fs_codec b) = Head"
    and "max_packet_length (fs_codec b) = - 1"
    and "send_all sb_seal a ms = (Inr (concat chunks), a')"
  shows "\<exists>b'. receive_all sb_open b chunks = (map Inr ms, b') \<and> in_sync a' b' \<and> fs_codec b' = fs_codec b"
proof -
  from send_all_frames [OF assms(3,1,7,2)] obtain frames b' where
    fr: "concat chunks = concat (map (\<lambda>f. frame_head (length f) @ f) frames)"
      "\<forall>f \<in> set frames. length f \<le> 0x3FFFFFFF"
      "next_all sb_open b frames = (map Inr ms, b')" "in_sync a' b'" "fs_codec b' = fs_codec b"
    by blast
  have nil: "drain (fs_codec b) [] = ([], None, fs_codec b, [])"
    using drain_frames [OF assms(4,5), of "[]"] by simp
  have "drain (fs_codec b) ([] @ concat chunks) = (frames, None, fs_codec b, [])"
    using fr(1,2) drain_frames [OF assms(4,5), of frames] assms(6) by simp
  from framed.feed_concat [OF assms(4) nil this]
  have "receive_all sb_open b chunks = (map Inr ms, b'\<lparr>fs_codec := fs_codec b\<rparr>)"
    by (simp add: receive_all_def fr(3))
  moreover have "b'\<lparr>fs_codec := fs_codec b\<rparr> = b'"
    using fr(5) by (cases b') simp
  ultimately show ?thesis using fr(4,5) by auto
qed


text \<open>A transparent cipher with a tag of 16 zero bytes satisfies the contract.\<close>

definition plain_seal :: seal_fun where
  "plain_seal m n k = replicate 16 0 @ m"

definition plain_open :: open_fun where
  "plain_open c n k = (if length c < 16 then None else Some (drop 16 c))"

lemma plain_secretbox_ok: "secretbox_ok plain_seal plain_open"
  by (simp add: secretbox_ok_def plain_seal_def plain_open_def)

theorem secure_channel_witness:
  "\<exists>b'. receive_all plain_open (set_key [1] framed_stream_from)
      [[68] @ replicate 10 0, replicate 6 0 @ [7]] = (map Inr [[7]], b')
    \<and> in_sync (set_key [1] framed_stream_from\<lparr>fs_key := Some \<lparr>enc_key = [1], enc_seq = 1, dec_seq = 0\<rparr>\<rparr>) b'
    \<and> fs_codec b' = codec_new"
  using secure_channel [OF plain_secretbox_ok, of "set_key [1] framed_stream_from"
      "set_key [1] framed_stream_from" "[[7]]" "[[68] @ replicate 10 0, replicate 6 0 @ [7]]"
      "set_key [1] framed_stream_from\<lparr>fs_key := Some \<lparr>enc_key = [1], enc_seq = 1, dec_seq = 0\<rparr>\<rparr>"]
  by (simp add: set_key_def framed_stream_from_def codec_new_def in_sync_def encrypt_new_def
      send_raw_def enc_def plain_seal_def send_bytes_def encode_def replicate_add [symmetric])

lemma get_nonce_inject: "get_nonce a = get_nonce b \<longleftrightarrow> a = b"
proof
  assume "get_nonce a = get_nonce b"
  then have "le_bytes 8 a = le_bytes 8 b" by (simp add: get_nonce_def del: le_bytes.simps)
  then have "(of_le_bytes (le_bytes 8 a) :: u64) = of_le_bytes (le_bytes 8 b)" by simp
  moreover have "take_bit 64 w = w" for w :: u64
    by (rule bit_word_eqI) (simp add: bit_simps)
  ultimately show "a = b" by (simp add: of_le_bytes_le_bytes del: le_bytes.simps)
qed simp

lemma enc_all_nonces:
  "fst (enc_all (\<lambda>m n k. n) e ms) =
     map (\<lambda>i. get_nonce (enc_seq e + of_nat (Suc i))) [0..<length ms]"
proof (induction ms arbitrary: e)
  case (Cons m ms)
  have "fst (enc_all (\<lambda>m n k. n) (e\<lparr>enc_seq := enc_seq e + 1\<rparr>) ms) =
      map (\<lambda>i. get_nonce (enc_seq e + of_nat (Suc i))) (map Suc [0..<length ms])"
    by (simp add: Cons.IH ac_simps)
  then show ?case
    by (auto simp: enc_def Let_def map_Suc_upt upt_conv_Cons split: prod.splits simp del: upt_Suc)
qed simp

text \<open>
  C17. No nonce is used twice: over any sequence of at most \<open>2 ^ 64\<close> messages on one stream,
  the nonces that \<open>enc\<close> hands to the cipher (made visible by a cipher that returns its nonce)
  are 24 bytes long and pairwise distinct.
\<close>

theorem nonces_distinct:
  assumes "length ms \<le> 2 ^ 64"
  shows "distinct (fst (enc_all (\<lambda>m n k. n) e ms))
    \<and> (\<forall>n \<in> set (fst (enc_all (\<lambda>m n k. n) e ms)). length n = 24)"
proof -
  have "inj_on (\<lambda>i. get_nonce (enc_seq e + of_nat (Suc i))) {0..<length ms}"
  proof (rule inj_onI)
    fix i j
    assume ij: "i \<in> {0..<length ms}" "j \<in> {0..<length ms}"
      and "get_nonce (enc_seq e + of_nat (Suc i)) = get_nonce (enc_seq e + of_nat (Suc j))"
    then have "(of_nat i :: u64) = of_nat j" by (simp add: get_nonce_inject)
    moreover from ij assms have "i < 2 ^ 64" "j < 2 ^ 64" by simp_all
    ultimately show "i = j" by (simp add: word_of_nat_eq_iff take_bit_nat_eq_self)
  qed
  then show ?thesis by (auto simp: enc_all_nonces distinct_map get_nonce_def simp del: le_bytes.simps)
qed

theorem nonces_distinct_witness:
  "distinct (fst (enc_all (\<lambda>m n k. n) (encrypt_new [1]) [[7], [7], []]))"
  using nonces_distinct [of "[[7], [7], []]" "encrypt_new [1]"] by simp

text \<open>
  Receiving on a secured stream: a frame of more than one byte is delivered only if the
  cipher accepts it under the next sequence number, and a rejected one is an error that still
  consumes the number; a frame of at most one byte is delivered as it is, unauthenticated, and
  consumes no number.
\<close>

theorem next_item_secured:
  assumes "fs_key fs = Some k" and "next_item sb_open fs (Some (Inr bs)) = (r, fs')"
  shows "(length bs \<le> 1 \<longrightarrow> r = Some (Inr bs) \<and> fs' = fs)
    \<and> (1 < length bs \<longrightarrow>
         fs_key fs' = Some (k\<lparr>dec_seq := dec_seq k + 1\<rparr>)
       \<and> (case sb_open bs (get_nonce (dec_seq k + 1)) (enc_key k) of
            Some m \<Rightarrow> r = Some (Inr m) | None \<Rightarrow> r = Some (Inl DecryptionError)))"
proof -
  have "fs\<lparr>fs_key := Some k\<rparr> = fs" using assms(1) by (cases fs) simp
  with assms show ?thesis
    by (auto simp: next_item_def dec_def Let_def split: option.splits)
qed

theorem next_item_secured_witness:
  "next_item plain_open (set_key [1] framed_stream_from) (Some (Inr [9]))
     = (Some (Inr [9]), set_key [1] framed_stream_from)
   \<and> fst (next_item plain_open (set_key [1] framed_stream_from) (Some (Inr [9, 9])))
     = Some (Inl DecryptionError)"
proof -
  let ?fs = "set_key [1] framed_stream_from"
  obtain r fs' where a: "next_item plain_open ?fs (Some (Inr [9])) = (r, fs')" by fastforce
  obtain q fs'' where b: "next_item plain_open ?fs (Some (Inr [9, 9])) = (q, fs'')" by fastforce
  have k: "fs_key ?fs = Some (encrypt_new [1])" by (simp add: set_key_def)
  show ?thesis
    using next_item_secured [OF k a] next_item_secured [OF k b] a b by (simp add: plain_open_def)
qed

end
