(* ===== verification/Rust_Strings.thy ===== *)
theory Rust_Strings
  imports Hbb_Prelude
begin

text \<open>
  What the sources use of Rust's \<open>String\<close> and \<open>str\<close>: a string is the list of its UTF-8 bytes, each
  an 8-bit \<open>char\<close>. Character counts, lossy decoding of byte vectors, prefixes, splitting and
  decimal numerals.
\<close>

section \<open>Bytes and characters\<close>

definition as_bytes :: "string \<Rightarrow> bytes" where
  "as_bytes s = map (\<lambda>c. word_of_nat (of_char c)) s"

definition of_bytes :: "bytes \<Rightarrow> string" where
  "of_bytes bs = map (\<lambda>b. char_of (unat b)) bs"

lemma of_bytes_as_bytes [simp]: "of_bytes (as_bytes s) = s"
proof (induction s)
  case (Cons c s)
  have "unat (word_of_nat (of_char c) :: u8) = (of_char c :: nat)"
    using nat_of_char_less_256 [of c] by (simp add: unat_of_nat take_bit_nat_eq_self)
  with Cons show ?case by (simp add: as_bytes_def of_bytes_def)
qed (simp add: as_bytes_def of_bytes_def)

lemma as_bytes_of_bytes [simp]: "as_bytes (of_bytes bs) = bs"
proof (induction bs)
  case (Cons b bs)
  have "unat b < 2 ^ LENGTH(8)" by (rule unsigned_less)
  then have "of_char (char_of (unat b) :: char) = unat b" by (simp add: of_char_of)
  with Cons show ?case by (simp add: as_bytes_def of_bytes_def)
qed (simp add: as_bytes_def of_bytes_def)

lemma length_as_bytes [simp]: "length (as_bytes s) = length s"
  by (simp add: as_bytes_def)

lemma length_of_bytes [simp]: "length (of_bytes bs) = length bs"
  by (simp add: of_bytes_def)

lemma as_bytes_append: "as_bytes (s @ t) = as_bytes s @ as_bytes t"
  by (simp add: as_bytes_def)

lemma as_bytes_eq_Nil [simp]: "as_bytes s = [] \<longleftrightarrow> s = []"
  by (simp add: as_bytes_def)

text \<open>\<open>s.chars().count()\<close>: the bytes that do not continue a character.\<close>

definition chars_count :: "string \<Rightarrow> nat" where
  "chars_count s = length (filter (\<lambda>b. \<not> (0x80 \<le> b \<and> b < 0xC0)) (as_bytes s))"

section \<open>Lossy UTF-8 decoding\<close>

definition in_range :: "u8 \<Rightarrow> u8 \<Rightarrow> bytes \<Rightarrow> nat \<Rightarrow> bool" where
  "in_range lo hi bs i \<longleftrightarrow> i < length bs \<and> lo \<le> bs ! i \<and> bs ! i \<le> hi"

text \<open>
  The next chunk of a non-empty byte string: whether it is one valid character, and the number of
  bytes of the character or of the maximal invalid prefix, which the replacement character
  stands for.
\<close>

definition utf8_chunk :: "bytes \<Rightarrow> bool \<times> nat" where
  "utf8_chunk bs =
     (let b = hd bs;
          cont = in_range 0x80 0xBF bs;
          three = (\<lambda>lo hi. if \<not> in_range lo hi bs 1 then (False, 1)
                     else if \<not> cont 2 then (False, 2) else (True, 3));
          four = (\<lambda>lo hi. if \<not> in_range lo hi bs 1 then (False, 1)
                     else if \<not> cont 2 then (False, 2)
                     else if \<not> cont 3 then (False, 3) else (True, 4))
      in if b < 0x80 then (True, 1)
         else if 0xC2 \<le> b \<and> b \<le> 0xDF then (if cont 1 then (True, 2) else (False, 1))
         else if b = 0xE0 then three 0xA0 0xBF
         else if b = 0xED then three 0x80 0x9F
         else if 0xE1 \<le> b \<and> b \<le> 0xEF then three 0x80 0xBF
         else if b = 0xF0 then four 0x90 0xBF
         else if 0xF1 \<le> b \<and> b \<le> 0xF3 then four 0x80 0xBF
         else if b = 0xF4 then four 0x80 0x8F
         else (False, 1))"

lemma utf8_chunk_pos: "0 < snd (utf8_chunk bs)"
  by (simp add: utf8_chunk_def Let_def)

lemma utf8_chunk_progress: "bs \<noteq> [] \<Longrightarrow> length bs - snd (utf8_chunk bs) < length bs"
  using utf8_chunk_pos [of bs] by simp

lemma utf8_chunk_length: "(v, n) = utf8_chunk bs \<Longrightarrow> 0 < n"
  using utf8_chunk_pos [of bs] by (metis snd_conv)

function from_utf8_lossy :: "bytes \<Rightarrow> string" where
  "from_utf8_lossy bs =
     (if bs = [] then []
      else case utf8_chunk bs of (valid, n) \<Rightarrow>
        (if valid then of_bytes (take n bs) else of_bytes [0xEF, 0xBF, 0xBD]) @ from_utf8_lossy (drop n bs))"
  by pat_completeness auto
termination
  by (relation "measure length") (auto dest: utf8_chunk_progress simp: utf8_chunk_length)

function valid_utf8 :: "bytes \<Rightarrow> bool" where
  "valid_utf8 bs =
     (if bs = [] then True
      else case utf8_chunk bs of (valid, n) \<Rightarrow> if valid then valid_utf8 (drop n bs) else False)"
  by pat_completeness auto
termination
  by (relation "measure length") (auto dest: utf8_chunk_progress simp: utf8_chunk_length)

declare from_utf8_lossy.simps [simp del] valid_utf8.simps [simp del]

lemma of_bytes_append: "of_bytes (xs @ ys) = of_bytes xs @ of_bytes ys"
  by (simp add: of_bytes_def)

lemma from_utf8_lossy_valid: "valid_utf8 bs \<Longrightarrow> from_utf8_lossy bs = of_bytes bs"
proof (induction bs rule: valid_utf8.induct)
  case (1 bs)
  show ?case
  proof (cases "bs = []")
    case True
    then show ?thesis by (simp add: from_utf8_lossy.simps of_bytes_def)
  next
    case False
    obtain v n where c: "utf8_chunk bs = (v, n)" by (cases "utf8_chunk bs")
    with 1 False have "v" and "from_utf8_lossy (drop n bs) = of_bytes (drop n bs)"
      by (auto simp: valid_utf8.simps [of bs] split: if_splits)
    with False c have "from_utf8_lossy bs = of_bytes (take n bs @ drop n bs)"
      by (simp add: from_utf8_lossy.simps [of bs] of_bytes_append del: append_take_drop_id)
    then show ?thesis by simp
  qed
qed

definition is_str :: "string \<Rightarrow> bool" where
  "is_str s \<longleftrightarrow> valid_utf8 (as_bytes s)"

lemma from_utf8_lossy_as_bytes [simp]: "is_str s \<Longrightarrow> from_utf8_lossy (as_bytes s) = s"
  by (simp add: is_str_def from_utf8_lossy_valid)

text \<open>Strings of ASCII characters are UTF-8.\<close>

lemma valid_utf8_ascii: "list_all (\<lambda>b. b < 0x80) bs \<Longrightarrow> valid_utf8 bs"
proof (induction bs)
  case (Cons b bs)
  then show ?case by (simp add: valid_utf8.simps [of "b # bs"] utf8_chunk_def)
qed (subst valid_utf8.simps, simp)

section \<open>Prefixes, splitting and numerals\<close>

definition starts_with :: "string \<Rightarrow> string \<Rightarrow> bool" where
  "starts_with s p \<longleftrightarrow> take (length p) s = p"

lemma starts_with_append [simp]: "starts_with (p @ s) p"
  by (simp add: starts_with_def)

text \<open>\<open>s.split(c)\<close>: the pieces between the separators, at least one.\<close>

fun split_on :: "char \<Rightarrow> string \<Rightarrow> string list" where
  "split_on c [] = [[]]"
| "split_on c (x # xs) =
     (if x = c then [] # split_on c xs
      else case split_on c xs of p # ps \<Rightarrow> (x # p) # ps | [] \<Rightarrow> [[x]])"

lemma split_on_nonempty [simp]: "split_on c s \<noteq> []"
  by (induction s) (auto split: list.split)

lemma split_on_piece: "c \<notin> set x \<Longrightarrow> split_on c (x @ c # rest) = x # split_on c rest"
  by (induction x) (auto split: list.split)

lemma split_on_pieces:
  "(\<And>x. x \<in> set xs \<Longrightarrow> c \<notin> set (f x)) \<Longrightarrow>
   split_on c (concat (map (\<lambda>x. f x @ [c]) xs)) = map f xs @ [[]]"
  by (induction xs) (simp_all add: split_on_piece)

text \<open>What \<open>format!("{}", n)\<close> prints for an unsigned integer.\<close>

fun show_nat :: "nat \<Rightarrow> string" where
  "show_nat n = (if n < 10 then [char_of (48 + n)] else show_nat (n div 10) @ [char_of (48 + n mod 10)])"

declare show_nat.simps [simp del]

definition read_nat :: "string \<Rightarrow> nat" where
  "read_nat s = foldl (\<lambda>a c. 10 * a + (of_char c - 48)) 0 s"

lemma read_show_nat: "read_nat (show_nat n) = n"
proof (induction n rule: show_nat.induct)
  case (1 n)
  then show ?case
    by (subst show_nat.simps) (auto simp: read_nat_def)
qed

lemma show_nat_inj [simp]: "show_nat a = show_nat b \<longleftrightarrow> a = b"
  by (metis read_show_nat)

definition is_digit :: "char \<Rightarrow> bool" where
  "is_digit c \<longleftrightarrow> 48 \<le> (of_char c :: nat) \<and> (of_char c :: nat) \<le> 57"

lemma is_digit_char_of: "n < 10 \<Longrightarrow> is_digit (char_of (48 + n :: nat))"
  by (simp add: is_digit_def)

lemma show_nat_digits: "list_all is_digit (show_nat n)"
proof (induction n rule: show_nat.induct)
  case (1 n)
  then show ?case by (subst show_nat.simps) (auto simp: is_digit_char_of)
qed

lemma show_nat_nonempty [simp]: "show_nat n \<noteq> []"
  by (subst show_nat.simps) simp

text \<open>\<open>s.parse::<uN>()\<close>: an optional plus sign and decimal digits, below the bound.\<close>

definition parse_unsigned :: "nat \<Rightarrow> string \<Rightarrow> nat option" where
  "parse_unsigned bound s =
     (let d = (if s \<noteq> [] \<and> hd s = CHR ''+'' then tl s else s)
      in if d \<noteq> [] \<and> list_all is_digit d \<and> read_nat d < bound then Some (read_nat d) else None)"

lemma parse_show_nat: "n < bound \<Longrightarrow> parse_unsigned bound (show_nat n) = Some n"
proof -
  have "hd (show_nat n) \<noteq> CHR ''+''"
    using show_nat_digits [of n] by (cases "show_nat n") (auto simp: is_digit_def)
  then show "n < bound \<Longrightarrow> ?thesis"
    by (simp add: parse_unsigned_def Let_def show_nat_digits read_show_nat)
qed

text \<open>Signed numbers: \<open>s.parse::<iN>()\<close> with \<open>- b \<le> value < b\<close>.\<close>

definition parse_signed :: "nat \<Rightarrow> string \<Rightarrow> int option" where
  "parse_signed bound s =
     (if s \<noteq> [] \<and> hd s = CHR ''-''
      then (let d = tl s in
            if d \<noteq> [] \<and> list_all is_digit d \<and> read_nat d \<le> bound then Some (- int (read_nat d)) else None)
      else map_option int (parse_unsigned bound s))"

end
