(* ===== verification/Password_Security.thy ===== *)
theory Password_Security
  imports Secure_Stream Rust_Strings
begin

text \<open>
  \<open>hbb_common/src/password_security.rs\<close>: which passwords are accepted, and the symmetric
  encryption of the secrets in the configuration files. The options of the configuration are a
  function from keys to values; libsodium's secretbox and base64 and the machine's uuid are
  parameters (record \<open>crypto\<close>), \<open>crypto_ok\<close> their documented contract.
\<close>

section \<open>Password policy\<close>

datatype verification_method = OnlyUseTemporaryPassword | OnlyUsePermanentPassword | UseBothPasswords

datatype approve_mode = ApproveBoth | ApprovePassword | ApproveClick

type_synonym options_fun = "string \<Rightarrow> string"

definition get_verification_method :: "options_fun \<Rightarrow> verification_method" where
  "get_verification_method opt =
     (let method = opt ''verification-method'' in
      if method = ''use-temporary-password'' then OnlyUseTemporaryPassword
      else if method = ''use-permanent-password'' then OnlyUsePermanentPassword
      else UseBothPasswords)"

definition temporary_password_length :: "options_fun \<Rightarrow> nat" where
  "temporary_password_length opt =
     (let len = opt ''temporary-password-length'' in
      if len = ''8'' then 8 else if len = ''10'' then 10 else 6)"

definition temporary_enabled :: "options_fun \<Rightarrow> bool" where
  "temporary_enabled opt \<longleftrightarrow> get_verification_method opt \<noteq> OnlyUsePermanentPassword"

definition permanent_enabled :: "options_fun \<Rightarrow> bool" where
  "permanent_enabled opt \<longleftrightarrow> get_verification_method opt \<noteq> OnlyUseTemporaryPassword"

definition has_valid_password :: "options_fun \<Rightarrow> string \<Rightarrow> string \<Rightarrow> bool" where
  "has_valid_password opt temporary permanent \<longleftrightarrow>
     temporary_enabled opt \<and> temporary \<noteq> [] \<or> permanent_enabled opt \<and> permanent \<noteq> []"

definition get_approve_mode :: "options_fun \<Rightarrow> approve_mode" where
  "get_approve_mode opt =
     (let mode = opt ''approve-mode'' in
      if mode = ''password'' then ApprovePassword
      else if mode = ''click'' then ApproveClick
      else ApproveBoth)"

text \<open>\<open>config::option2bool\<close>\<close>

definition option2bool :: "string \<Rightarrow> string \<Rightarrow> bool" where
  "option2bool k v =
     (if starts_with k ''enable-'' then v \<noteq> ''N''
      else if starts_with k ''allow-'' \<or> k = ''stop-service'' \<or> k = ''direct-server''
              \<or> k = ''force-always-relay''
      then v = ''Y''
      else v \<noteq> ''N'')"

definition hide_cm :: "options_fun \<Rightarrow> bool" where
  "hide_cm opt \<longleftrightarrow> get_approve_mode opt = ApprovePassword
     \<and> get_verification_method opt = OnlyUsePermanentPassword
     \<and> option2bool ''allow-hide-cm'' (opt ''allow-hide-cm'')"

section \<open>Generated passwords\<close>

definition num_chars :: string where
  "num_chars = ''0123456789''"

definition pw_chars :: string where
  "pw_chars = ''23456789abcdefghijkmnpqrstuvwxyz''"

text \<open>The random numbers drawn are an argument; one is used for each character.\<close>

definition get_auto_password_with_chars :: "nat list \<Rightarrow> nat \<Rightarrow> string \<Rightarrow> string" where
  "get_auto_password_with_chars rnd len cs = map (\<lambda>i. cs ! (rnd ! i mod length cs)) [0..<len]"

definition get_auto_password :: "options_fun \<Rightarrow> nat list \<Rightarrow> string" where
  "get_auto_password opt rnd =
     (let len = temporary_password_length opt in
      if option2bool ''allow-numeric-one-time-password'' (opt ''allow-numeric-one-time-password'')
      then get_auto_password_with_chars rnd len num_chars
      else get_auto_password_with_chars rnd len pw_chars)"

text \<open>
  A generated temporary password is never empty: it has 6, 8 or 10 characters, digits only if
  numeric passwords are enabled, and otherwise none of the easily confused \<open>0\<close>, \<open>1\<close>, \<open>l\<close> and
  \<open>o\<close>. So with temporary passwords enabled there is always a password to log in with.
\<close>

theorem auto_password_shape:
  "length (get_auto_password opt rnd) \<in> {6, 8, 10}
   \<and> set (get_auto_password opt rnd) \<subseteq>
       (if option2bool ''allow-numeric-one-time-password'' (opt ''allow-numeric-one-time-password'')
        then set ''0123456789'' else set ''23456789abcdefghijkmnpqrstuvwxyz'')
   \<and> (temporary_enabled opt \<longrightarrow> has_valid_password opt (get_auto_password opt rnd) permanent)"
proof -
  have len: "length (get_auto_password opt rnd) \<in> {6, 8, 10}"
    by (simp add: get_auto_password_def get_auto_password_with_chars_def temporary_password_length_def Let_def)
  have "cs \<noteq> [] \<Longrightarrow> set (get_auto_password_with_chars rnd n cs) \<subseteq> set cs" for cs n
    by (auto simp: get_auto_password_with_chars_def)
  then have "set (get_auto_password opt rnd) \<subseteq>
       (if option2bool ''allow-numeric-one-time-password'' (opt ''allow-numeric-one-time-password'')
        then set num_chars else set pw_chars)"
    by (auto simp: get_auto_password_def Let_def num_chars_def pw_chars_def simp del: set_simps
        dest!: subsetD)
  moreover have "get_auto_password opt rnd \<noteq> []" using len by auto
  ultimately show ?thesis
    using len by (simp only: num_chars_def pw_chars_def has_valid_password_def) simp
qed

theorem auto_password_shape_witness:
  "temporary_enabled (\<lambda>_. []) \<and> has_valid_password (\<lambda>_. []) (get_auto_password (\<lambda>_. []) [1, 2, 3, 4, 5, 6]) []"
  using auto_password_shape [of "\<lambda>_. []" "[1, 2, 3, 4, 5, 6]" "[]"]
  by (simp add: temporary_enabled_def get_verification_method_def)

section \<open>Encryption of stored secrets\<close>

record crypto =
  cr_seal :: seal_fun
  cr_open :: open_fun
  b64_encode :: "bytes \<Rightarrow> string"
  b64_decode :: "bytes \<Rightarrow> bytes option"
  uuid :: bytes

definition crypto_ok :: "crypto \<Rightarrow> bool" where
  "crypto_ok C \<longleftrightarrow> secretbox_ok (cr_seal C) (cr_open C)
     \<and> (\<forall>v. b64_decode C (as_bytes (b64_encode C v)) = Some v \<and> (b64_encode C v = [] \<longleftrightarrow> v = []))"

definition resize :: "nat \<Rightarrow> u8 \<Rightarrow> bytes \<Rightarrow> bytes" where
  "resize n b v = take n v @ replicate (n - length v) b"

definition symmetric_crypt :: "crypto \<Rightarrow> bytes \<Rightarrow> bool \<Rightarrow> bytes option" where
  "symmetric_crypt C data encrypting =
     (let key = resize 32 0 (uuid C); nonce = replicate 24 0
      in if encrypting then Some (cr_seal C data nonce key) else cr_open C data nonce key)"

definition encrypt_data :: "crypto \<Rightarrow> bytes \<Rightarrow> string option" where
  "encrypt_data C v = (if v \<noteq> [] then map_option (b64_encode C) (symmetric_crypt C v True) else None)"

definition decrypt_data :: "crypto \<Rightarrow> bytes \<Rightarrow> bytes option" where
  "decrypt_data C v =
     (if v \<noteq> [] then Option.bind (b64_decode C v) (\<lambda>v. symmetric_crypt C v False) else None)"

text \<open>The text, whether it was decrypted, and whether it should be stored again encrypted.\<close>

definition decrypt_str_or_original :: "crypto \<Rightarrow> string \<Rightarrow> string \<Rightarrow> string \<times> bool \<times> bool" where
  "decrypt_str_or_original C s current_version =
     (let original = (s, False, s \<noteq> []) in
      if length s > 2 then
        (if starts_with s ''00'' then
           (case decrypt_data C (as_bytes (drop 2 s)) of
              Some v \<Rightarrow> (from_utf8_lossy v, True, ''00'' \<noteq> current_version)
            | None \<Rightarrow> original)
         else original)
      else original)"

definition encrypt_str_or_original :: "crypto \<Rightarrow> string \<Rightarrow> string \<Rightarrow> nat \<Rightarrow> string" where
  "encrypt_str_or_original C s version max_len =
     (if fst (snd (decrypt_str_or_original C s version)) then s
      else if chars_count s > max_len then []
      else if version = ''00''
      then (case encrypt_data C (as_bytes s) of Some e \<Rightarrow> version @ e | None \<Rightarrow> s)
      else s)"

definition decrypt_vec_or_original :: "crypto \<Rightarrow> bytes \<Rightarrow> string \<Rightarrow> bytes \<times> bool \<times> bool" where
  "decrypt_vec_or_original C v current_version =
     (let original = (v, False, v \<noteq> []) in
      if length v > 2 then
        (let version = from_utf8_lossy (take 2 v) in
         if version = ''00'' then
           (case decrypt_data C (drop 2 v) of
              Some w \<Rightarrow> (w, True, version \<noteq> current_version)
            | None \<Rightarrow> original)
         else original)
      else original)"

definition encrypt_vec_or_original :: "crypto \<Rightarrow> bytes \<Rightarrow> string \<Rightarrow> nat \<Rightarrow> bytes" where
  "encrypt_vec_or_original C v version max_len =
     (if fst (snd (decrypt_vec_or_original C v version)) then v
      else if length v > max_len then []
      else if version = ''00''
      then (case encrypt_data C v of Some e \<Rightarrow> as_bytes version @ as_bytes e | None \<Rightarrow> v)
      else v)"

lemma decrypt_encrypt_data:
  assumes "crypto_ok C" and "encrypt_data C v = Some e"
  shows "decrypt_data C (as_bytes e) = Some v" and "e \<noteq> []"
proof -
  have sb: "secretbox_ok (cr_seal C) (cr_open C)"
    using assms(1) unfolding crypto_ok_def by (rule conjunct1)
  from assms(2) have "v \<noteq> []" and e: "e = b64_encode C (cr_seal C v (replicate 24 0) (resize 32 0 (uuid C)))"
    by (auto simp: encrypt_data_def symmetric_crypt_def Let_def split: if_splits)
  moreover have "cr_seal C v (replicate 24 0) (resize 32 0 (uuid C)) \<noteq> []"
    using secretbox_okD(2) [OF sb, of v "replicate 24 0" "resize 32 0 (uuid C)"] by fastforce
  moreover from assms(1) have "b64_encode C w = [] \<longleftrightarrow> w = []" for w
    unfolding crypto_ok_def by blast
  ultimately show "e \<noteq> []" by metis
  moreover have "b64_decode C (as_bytes e) = Some (cr_seal C v (replicate 24 0) (resize 32 0 (uuid C)))"
    using assms(1) e by (simp add: crypto_ok_def)
  moreover have "cr_open C (cr_seal C v n k) n k = Some v" for n k
    by (rule secretbox_okD(1) [OF sb])
  ultimately show "decrypt_data C (as_bytes e) = Some v"
    by (simp add: decrypt_data_def symmetric_crypt_def Let_def)
qed

lemma encrypt_data_total: "v \<noteq> [] \<Longrightarrow> \<exists>e. encrypt_data C v = Some e"
  by (simp add: encrypt_data_def symmetric_crypt_def Let_def)

lemma decrypt_str_encrypted:
  "crypto_ok C \<Longrightarrow> encrypt_data C v = Some e \<Longrightarrow>
   decrypt_str_or_original C (''00'' @ e) cur = (from_utf8_lossy v, True, ''00'' \<noteq> cur)"
  by (simp add: decrypt_str_or_original_def decrypt_encrypt_data starts_with_def Let_def)

lemma from_utf8_lossy_00 [simp]: "from_utf8_lossy [0x30, 0x30] = ''00''"
proof -
  have "from_utf8_lossy [0x30, 0x30] = of_bytes [0x30, 0x30]"
    by (intro from_utf8_lossy_valid valid_utf8_ascii) simp
  also have "\<dots> = ''00''" by code_simp
  finally show ?thesis .
qed

lemma as_bytes_00: "as_bytes ''00'' = [0x30, 0x30]"
  by (simp add: as_bytes_def)

lemma decrypt_vec_encrypted:
  "crypto_ok C \<Longrightarrow> encrypt_data C v = Some e \<Longrightarrow>
   decrypt_vec_or_original C (as_bytes ''00'' @ as_bytes e) cur = (v, True, ''00'' \<noteq> cur)"
  by (simp add: decrypt_vec_or_original_def decrypt_encrypt_data as_bytes_00 Let_def)

text \<open>The contract is satisfiable: a toy cipher with the lengths of the real one.\<close>

definition plain_crypto :: crypto where
  "plain_crypto = \<lparr>cr_seal = plain_seal, cr_open = plain_open, b64_encode = of_bytes,
     b64_decode = Some, uuid = [1, 2, 3]\<rparr>"

lemma plain_crypto_ok: "crypto_ok plain_crypto"
proof -
  have "of_bytes v = [] \<longleftrightarrow> v = []" for v by (simp add: of_bytes_def)
  then show ?thesis using plain_secretbox_ok by (simp add: crypto_ok_def plain_crypto_def)
qed

text \<open>
  Encrypting a stored secret and decrypting it gives it back, marked as decrypted and current,
  for every text that is not itself an encrypted secret, is not empty and does not exceed the
  length limit; the same holds for byte vectors.
\<close>

theorem stored_secret_roundtrip:
  assumes "crypto_ok C" and "is_str s" and "s \<noteq> []" and "chars_count s \<le> max_len"
    and "\<not> fst (snd (decrypt_str_or_original C s ''00''))"
    and "v \<noteq> []" and "length v \<le> max_len" and "\<not> fst (snd (decrypt_vec_or_original C v ''00''))"
  shows "decrypt_str_or_original C (encrypt_str_or_original C s ''00'' max_len) ''00'' = (s, True, False)
    \<and> decrypt_vec_or_original C (encrypt_vec_or_original C v ''00'' max_len) ''00'' = (v, True, False)"
proof -
  from assms(3) obtain e where e: "encrypt_data C (as_bytes s) = Some e"
    using encrypt_data_total by fastforce
  from assms(6) obtain f where f: "encrypt_data C v = Some f"
    using encrypt_data_total by fastforce
  from e assms have "encrypt_str_or_original C s ''00'' max_len = ''00'' @ e"
    by (simp add: encrypt_str_or_original_def)
  moreover from f assms have "encrypt_vec_or_original C v ''00'' max_len = as_bytes ''00'' @ as_bytes f"
    by (simp add: encrypt_vec_or_original_def)
  ultimately show ?thesis
    using decrypt_str_encrypted [OF assms(1) e, of "''00''"] decrypt_vec_encrypted [OF assms(1) f, of "''00''"] assms(2)
    by simp
qed

theorem stored_secret_roundtrip_witness:
  "decrypt_str_or_original plain_crypto (encrypt_str_or_original plain_crypto ''pw'' ''00'' 128) ''00'' = (''pw'', True, False)"
proof -
  have "is_str ''pw''"
    unfolding is_str_def by (rule valid_utf8_ascii) (simp add: as_bytes_def)
  moreover have "chars_count ''pw'' \<le> 128" by (simp add: chars_count_def as_bytes_def)
  ultimately show ?thesis
    using stored_secret_roundtrip [OF plain_crypto_ok, of "''pw''" 128 "[1]"]
    by (simp add: decrypt_str_or_original_def decrypt_vec_or_original_def Let_def)
qed

lemma encrypt_str_fixed:
  assumes "fst (snd (decrypt_str_or_original C s ver)) \<or> s = []"
  shows "encrypt_str_or_original C s ver max_len = s"
  using assms by (auto simp: encrypt_str_or_original_def encrypt_data_def chars_count_def as_bytes_def)

lemma decrypt_vec_Nil: "decrypt_vec_or_original C [] ver = ([], False, False)"
  by (simp add: decrypt_vec_or_original_def)

text \<open>
  Storing is idempotent: encrypting a secret that is already encrypted leaves it unchanged, so
  repeated stores never encrypt twice; a text above the length limit is replaced by the empty
  text, which is lost on the next load.
\<close>

theorem encrypt_idempotent:
  assumes "crypto_ok C"
  shows "encrypt_str_or_original C (encrypt_str_or_original C s ver n) ver n = encrypt_str_or_original C s ver n
    \<and> encrypt_vec_or_original C (encrypt_vec_or_original C v ver n) ver n = encrypt_vec_or_original C v ver n
    \<and> (\<not> fst (snd (decrypt_str_or_original C s ver)) \<and> n < chars_count s \<longrightarrow>
         fst (decrypt_str_or_original C (encrypt_str_or_original C s ver n) ver) = [])"
proof -
  have "encrypt_str_or_original C (encrypt_str_or_original C s ver n) ver n = encrypt_str_or_original C s ver n"
  proof (cases "\<exists>e. encrypt_data C (as_bytes s) = Some e \<and> encrypt_str_or_original C s ver n = ''00'' @ e")
    case True
    then obtain e where "encrypt_data C (as_bytes s) = Some e" and e: "encrypt_str_or_original C s ver n = ''00'' @ e" by blast
    from decrypt_str_encrypted [OF assms this(1)] show ?thesis
      unfolding e by (intro encrypt_str_fixed) simp
  next
    case False
    then have "encrypt_str_or_original C s ver n \<in> {[], s}"
      by (auto simp: encrypt_str_or_original_def split: if_splits option.splits)
    then show ?thesis by (auto intro: encrypt_str_fixed)
  qed
  moreover have "encrypt_vec_or_original C (encrypt_vec_or_original C v ver n) ver n = encrypt_vec_or_original C v ver n"
  proof (cases "\<exists>e. encrypt_data C v = Some e \<and> encrypt_vec_or_original C v ver n = as_bytes ''00'' @ as_bytes e")
    case True
    then obtain e where "encrypt_data C v = Some e" and e: "encrypt_vec_or_original C v ver n = as_bytes ''00'' @ as_bytes e" by blast
    from decrypt_vec_encrypted [OF assms this(1)] show ?thesis
      unfolding e by (simp add: encrypt_vec_or_original_def)
  next
    case False
    then consider "encrypt_vec_or_original C v ver n = []" | "encrypt_vec_or_original C v ver n = v"
      by (fastforce simp: encrypt_vec_or_original_def split: if_splits option.splits)
    then show ?thesis
      by cases (simp_all add: encrypt_vec_or_original_def encrypt_data_def decrypt_vec_Nil)
  qed
  ultimately show ?thesis
    by (auto simp: encrypt_str_or_original_def decrypt_str_or_original_def Let_def)
qed

theorem encrypt_idempotent_witness:
  "encrypt_str_or_original plain_crypto (encrypt_str_or_original plain_crypto ''pw'' ''00'' 9) ''00'' 9
     = encrypt_str_or_original plain_crypto ''pw'' ''00'' 9"
  using encrypt_idempotent [OF plain_crypto_ok, of "''pw''" "''00''" 9] by simp

end
