(* ===== verification/Config.thy ===== *)
theory Config
  imports Password_Security "HOL-Library.Finite_Map"
begin

text \<open>
  The global configuration of \<open>hbb_common/src/config.rs\<close>: the two configuration structures, the
  settings a custom client fixes (overwrite, default, hard and builtin settings), the options
  they determine together, the encrypted files, the trusted devices and the choice of the
  rendezvous server. The globals are the record \<open>world\<close>; the clock, the outcome of the attempts
  to write a file and the random numbers are part of it or arguments. Hash maps are finite maps;
  serde's JSON conversion is a parameter with contract \<open>json_ok\<close>. The TOML text of a configuration file
  is printed and parsed by the package confy, which is not part of the program: a file is represented by the
  structure confy hands over, so that what is modelled of storing and loading is the encryption of the
  secrets, the retries and the choice of what is written.
\<close>

section \<open>Data\<close>

type_synonym settings = "(string, string) fmap"

datatype network_type = Direct | ProxySocks

record socks5_server =
  proxy :: string
  socks_username :: string
  socks_password :: string

record config =
  cfg_id :: string
  enc_id :: string
  cfg_password :: string
  salt :: string
  key_pair :: "bytes \<times> bytes"
  key_confirmed :: bool
  keys_confirmed :: "(string, bool) fmap"

record config2 =
  rendezvous_server :: string
  nat_type :: int
  serial :: int
  unlock_pin :: string
  trusted_devices_enc :: string
  socks :: "socks5_server option"
  cfg_options :: settings

record provision_config =
  prov_employee_id :: string
  prov_password :: string

record trusted_device =
  hwid :: bytes
  td_time :: int
  td_id :: string
  td_name :: string
  td_platform :: string

definition config_default :: config where
  "config_default = \<lparr>cfg_id = [], enc_id = [], cfg_password = [], salt = [], key_pair = ([], []),
     key_confirmed = False, keys_confirmed = fmempty\<rparr>"

definition config2_default :: config2 where
  "config2_default = \<lparr>rendezvous_server = [], nat_type = 0, serial = 0, unlock_pin = [],
     trusted_devices_enc = [], socks = None, cfg_options = fmempty\<rparr>"

record world =
  CONFIG :: config
  CONFIG2 :: config2
  TRUSTED_DEVICES :: "trusted_device list \<times> bool"
  ONLINE :: "(string, int) fmap"
  OVERWRITE_SETTINGS :: settings
  DEFAULT_SETTINGS :: settings
  HARD_SETTINGS :: settings
  BUILTIN_SETTINGS :: settings
  EXE_RENDEZVOUS_SERVER :: string
  PROD_RENDEZVOUS_SERVER :: string
  config_file :: "config option"
  config2_file :: "config2 option"
  write_ok :: "nat \<Rightarrow> bool"
  now_ms :: int

section \<open>Files\<close>

datatype 'a load_attempt = LoadOk 'a | LoadNotFound | LoadIoError | LoadOtherError

text \<open>
  \<open>load_path\<close>: five attempts, the outcome of attempt \<open>i\<close> being \<open>att i\<close>; only input/output errors
  other than a missing file are retried.
\<close>

function load_attempts :: "nat \<Rightarrow> (nat \<Rightarrow> 'a load_attempt) \<Rightarrow> 'a \<Rightarrow> 'a" where
  "load_attempts i att dflt =
     (if i < 5 then
        (case att i of
           LoadOk cfg \<Rightarrow> cfg
         | LoadNotFound \<Rightarrow> dflt
         | LoadIoError \<Rightarrow> if i < 4 then load_attempts (i + 1) att dflt else dflt
         | LoadOtherError \<Rightarrow> dflt)
      else dflt)"
  by pat_completeness auto
termination
  by (relation "measure (\<lambda>(i, _, _). 5 - i)") auto

declare load_attempts.simps [simp del]

definition load_path :: "(nat \<Rightarrow> 'a load_attempt) \<Rightarrow> 'a \<Rightarrow> 'a" where
  "load_path att dflt = load_attempts 0 att dflt"

text \<open>
  \<open>store_path\<close>: five attempts; attempt \<open>i\<close> writes the file if \<open>ok i\<close>. The result is whether one
  succeeded, and the file afterwards.
\<close>

function store_attempts :: "nat \<Rightarrow> (nat \<Rightarrow> bool) \<Rightarrow> 'a \<Rightarrow> 'a option \<Rightarrow> bool \<times> 'a option" where
  "store_attempts i ok cfg file =
     (if i < 5 then (if ok i then (True, Some cfg) else store_attempts (i + 1) ok cfg file)
      else (False, file))"
  by pat_completeness auto
termination
  by (relation "measure (\<lambda>(i, _, _, _). 5 - i)") auto

declare store_attempts.simps [simp del]

definition store_path :: "(nat \<Rightarrow> bool) \<Rightarrow> 'a \<Rightarrow> 'a option \<Rightarrow> bool \<times> 'a option" where
  "store_path ok cfg file = store_attempts 0 ok cfg file"

lemma store_attempts_result:
  "store_attempts i ok cfg f = (if \<exists>j. i \<le> j \<and> j < 5 \<and> ok j then (True, Some cfg) else (False, f))"
proof (induction "5 - i" arbitrary: i)
  case 0
  then show ?case by (subst store_attempts.simps) auto
next
  case (Suc n)
  then have "store_attempts (i + 1) ok cfg f =
      (if \<exists>j. i + 1 \<le> j \<and> j < 5 \<and> ok j then (True, Some cfg) else (False, f))"
    by (intro Suc.hyps(1)) simp
  with Suc.hyps(2) show ?case
    by (subst store_attempts.simps) (auto simp: Suc_le_eq le_eq_less_or_eq)
qed

lemma store_path_result:
  "store_path ok cfg f = (if \<exists>i<5. ok i then (True, Some cfg) else (False, f))"
  by (simp add: store_path_def store_attempts_result)

lemma store_path_ok: "ok 0 \<Longrightarrow> store_path ok cfg f = (True, Some cfg)"
  by (simp add: store_path_def store_attempts.simps)

definition encrypt_max_len :: nat where
  "encrypt_max_len = 128"

definition config_encrypted :: "crypto \<Rightarrow> config \<Rightarrow> config" where
  "config_encrypted C c =
     c\<lparr>cfg_password := encrypt_str_or_original C (cfg_password c) ''00'' encrypt_max_len,
       enc_id := encrypt_str_or_original C (cfg_id c) ''00'' encrypt_max_len,
       cfg_id := []\<rparr>"

definition config_store :: "crypto \<Rightarrow> config \<Rightarrow> world \<Rightarrow> world" where
  "config_store C c w = w\<lparr>config_file := snd (store_path (write_ok w) (config_encrypted C c) (config_file w))\<rparr>"

definition config_store_at :: "crypto \<Rightarrow> config \<Rightarrow> (nat \<Rightarrow> bool) \<Rightarrow> config option \<Rightarrow> bool \<times> config option" where
  "config_store_at C c ok file = store_path ok (config_encrypted C c) file"

text \<open>\<open>Config::load\<close>, from the structure read from the file; \<open>ids\<close> are the results of \<open>gen_id\<close>.\<close>

definition first_some :: "'a option list \<Rightarrow> 'a option" where
  "first_some xs = (case dropWhile (\<lambda>x. x = None) xs of [] \<Rightarrow> None | x # _ \<Rightarrow> x)"

definition config_load :: "crypto \<Rightarrow> config \<Rightarrow> string option list \<Rightarrow> config \<times> bool" where
  "config_load C file ids =
     (let (password, _, store1) = decrypt_str_or_original C (cfg_password file) ''00'';
          c = file\<lparr>cfg_password := password\<rparr>;
          (i, encrypted, store2) = decrypt_str_or_original C (enc_id c) ''00'';
          (c, id_valid, store) =
            (if encrypted then (c\<lparr>cfg_id := i\<rparr>, True, store1 \<or> store2)
             else if cfg_id c \<noteq> [] \<and> enc_id c = []
                  \<and> \<not> fst (snd (decrypt_str_or_original C (cfg_id c) ''00''))
             then (c, True, True)
             else (c, False, store1))
      in if id_valid then (c, store)
         else (case first_some (take 3 ids) of
                 Some i \<Rightarrow> (c\<lparr>cfg_id := i\<rparr>, True)
               | None \<Rightarrow> (c, store)))"

definition config2_encrypted :: "crypto \<Rightarrow> config2 \<Rightarrow> config2" where
  "config2_encrypted C c =
     c\<lparr>socks := map_option (\<lambda>s. s\<lparr>socks_password :=
           encrypt_str_or_original C (socks_password s) ''00'' encrypt_max_len\<rparr>) (socks c),
       unlock_pin := encrypt_str_or_original C (unlock_pin c) ''00'' encrypt_max_len\<rparr>"

definition config2_store :: "crypto \<Rightarrow> config2 \<Rightarrow> world \<Rightarrow> world" where
  "config2_store C c w = w\<lparr>config2_file := snd (store_path (write_ok w) (config2_encrypted C c) (config2_file w))\<rparr>"

definition config2_store_at :: "crypto \<Rightarrow> config2 \<Rightarrow> (nat \<Rightarrow> bool) \<Rightarrow> config2 option \<Rightarrow> bool \<times> config2 option" where
  "config2_store_at C c ok file = store_path ok (config2_encrypted C c) file"

definition config2_load :: "crypto \<Rightarrow> config2 \<Rightarrow> config2 \<times> bool" where
  "config2_load C file =
     (let (socks', store1) =
            (case socks file of
               None \<Rightarrow> (None, False)
             | Some s \<Rightarrow> (case decrypt_str_or_original C (socks_password s) ''00'' of
                 (p, _, st) \<Rightarrow> (Some (s\<lparr>socks_password := p\<rparr>), st)));
          (pin, _, store2) = decrypt_str_or_original C (unlock_pin file) ''00''
      in (file\<lparr>socks := socks', unlock_pin := pin\<rparr>, store1 \<or> store2))"

text \<open>Replacing a whole structure: \<open>Config::set\<close> and \<open>Config2::set\<close>.\<close>

definition config_set :: "crypto \<Rightarrow> config \<Rightarrow> world \<Rightarrow> bool \<times> world" where
  "config_set C c w = (if CONFIG w = c then (False, w) else (True, config_store C c (w\<lparr>CONFIG := c\<rparr>)))"

definition config2_set :: "crypto \<Rightarrow> config2 \<Rightarrow> world \<Rightarrow> bool \<times> world" where
  "config2_set C c w = (if CONFIG2 w = c then (False, w) else (True, config2_store C c (w\<lparr>CONFIG2 := c\<rparr>)))"

definition config_is_empty :: "config \<Rightarrow> bool" where
  "config_is_empty c \<longleftrightarrow> (cfg_id c = [] \<and> enc_id c = []) \<or> fst (key_pair c) = []"

text \<open>A setter of one field that stores the structure only when the value changes.\<close>

definition update_config :: "crypto \<Rightarrow> (config \<Rightarrow> config) \<Rightarrow> world \<Rightarrow> world" where
  "update_config C f w = (let c = f (CONFIG w) in config_store C c (w\<lparr>CONFIG := c\<rparr>))"

definition update_config2 :: "crypto \<Rightarrow> (config2 \<Rightarrow> config2) \<Rightarrow> world \<Rightarrow> world" where
  "update_config2 C f w = (let c = f (CONFIG2 w) in config2_store C c (w\<lparr>CONFIG2 := c\<rparr>))"

section \<open>Provisioning\<close>

definition check_and_provision :: "crypto \<Rightarrow> provision_config \<Rightarrow> world \<Rightarrow> world" where
  "check_and_provision C p w =
     (if prov_employee_id p = [] \<and> prov_password p = [] then w
      else
        let (changed1, w1) =
              (if (case fmlookup (cfg_options (CONFIG2 w)) ''employee_id'' of Some v \<Rightarrow> v = [] | None \<Rightarrow> True)
               then (True, w\<lparr>CONFIG2 := (CONFIG2 w)\<lparr>cfg_options :=
                       fmupd ''employee_id'' (prov_employee_id p) (cfg_options (CONFIG2 w))\<rparr>\<rparr>)
               else (False, w));
            (changed2, w2) =
              (if cfg_password (CONFIG w1) = [] \<and> prov_password p \<noteq> []
               then (True, w1\<lparr>CONFIG := (CONFIG w1)\<lparr>cfg_password := prov_password p\<rparr>\<rparr>)
               else (changed1, w1))
        in if changed2 then config2_store C (CONFIG2 w2) (config_store C (CONFIG w2) w2) else w2)"

section \<open>Options\<close>

definition get_or :: "settings \<Rightarrow> settings \<Rightarrow> settings \<Rightarrow> string \<Rightarrow> string option" where
  "get_or a b c k =
     (case fmlookup a k of Some v \<Rightarrow> Some v
      | None \<Rightarrow> (case fmlookup b k of Some v \<Rightarrow> Some v | None \<Rightarrow> fmlookup c k))"

definition unwrap_or_default :: "string option \<Rightarrow> string" where
  "unwrap_or_default v = (case v of Some s \<Rightarrow> s | None \<Rightarrow> [])"

definition is_option_can_save :: "settings \<Rightarrow> string \<Rightarrow> settings \<Rightarrow> string \<Rightarrow> bool" where
  "is_option_can_save overwrite k dflts v =
     (if k = ''employee_id'' \<or> k = ''verification-method'' \<or> k = ''access-mode'' \<or> k = ''password'' then True
      else if fmlookup overwrite k \<noteq> None \<or> fmlookup dflts k = Some v then False
      else True)"

definition config_get_option :: "string \<Rightarrow> world \<Rightarrow> string" where
  "config_get_option k w =
     unwrap_or_default (get_or (OVERWRITE_SETTINGS w) (cfg_options (CONFIG2 w)) (DEFAULT_SETTINGS w) k)"

definition config_get_bool_option :: "string \<Rightarrow> world \<Rightarrow> bool" where
  "config_get_bool_option k w = option2bool k (config_get_option k w)"

definition config_get_options :: "world \<Rightarrow> settings" where
  "config_get_options w = DEFAULT_SETTINGS w ++\<^sub>f cfg_options (CONFIG2 w) ++\<^sub>f OVERWRITE_SETTINGS w"

definition purify_options :: "settings \<Rightarrow> world \<Rightarrow> settings" where
  "purify_options v w =
     fmfilter (\<lambda>k. is_option_can_save (OVERWRITE_SETTINGS w) k (DEFAULT_SETTINGS w) (the (fmlookup v k))) v"

definition config_set_options :: "crypto \<Rightarrow> settings \<Rightarrow> world \<Rightarrow> world" where
  "config_set_options C v w =
     (let v = purify_options v w in
      if cfg_options (CONFIG2 w) = v then w else update_config2 C (\<lambda>c. c\<lparr>cfg_options := v\<rparr>) w)"

definition config_set_option :: "crypto \<Rightarrow> string \<Rightarrow> string \<Rightarrow> world \<Rightarrow> world" where
  "config_set_option C k v w =
     (if \<not> is_option_can_save (OVERWRITE_SETTINGS w) k (DEFAULT_SETTINGS w) v then
        (if fmlookup (cfg_options (CONFIG2 w)) k \<noteq> None
         then update_config2 C (\<lambda>c. c\<lparr>cfg_options := fmdrop k (cfg_options c)\<rparr>) w
         else w)
      else
        let v2 = (if v = [] then None else Some v) in
        if v2 \<noteq> fmlookup (cfg_options (CONFIG2 w)) k then
          (if v2 = None
           then update_config2 C (\<lambda>c. c\<lparr>cfg_options := fmdrop k (cfg_options c)\<rparr>) w
           else update_config2 C (\<lambda>c. c\<lparr>cfg_options := fmupd k v (cfg_options c)\<rparr>) w)
        else w)"

text \<open>Settings fixed at build time.\<close>

definition is_setting :: "settings \<Rightarrow> string \<Rightarrow> string \<Rightarrow> bool" where
  "is_setting s k v \<longleftrightarrow> (case fmlookup s k of Some x \<Rightarrow> x = v | None \<Rightarrow> False)"

definition is_incoming_only :: "world \<Rightarrow> bool" where
  "is_incoming_only w \<longleftrightarrow> is_setting (HARD_SETTINGS w) ''conn-type'' ''incoming''"

definition is_outgoing_only :: "world \<Rightarrow> bool" where
  "is_outgoing_only w \<longleftrightarrow> is_setting (HARD_SETTINGS w) ''conn-type'' ''outgoing''"

definition is_some_hard_opton :: "string \<Rightarrow> world \<Rightarrow> bool" where
  "is_some_hard_opton name w \<longleftrightarrow> is_setting (HARD_SETTINGS w) name ''Y''"

definition is_disable_tcp_listen :: "world \<Rightarrow> bool" where
  "is_disable_tcp_listen w \<longleftrightarrow> is_some_hard_opton ''disable-tcp-listen'' w"

definition is_disable_settings :: "world \<Rightarrow> bool" where
  "is_disable_settings w \<longleftrightarrow> is_some_hard_opton ''disable-settings'' w"

definition is_disable_ab :: "world \<Rightarrow> bool" where
  "is_disable_ab w \<longleftrightarrow> is_some_hard_opton ''disable-ab'' w"

definition is_disable_account :: "world \<Rightarrow> bool" where
  "is_disable_account w \<longleftrightarrow> is_some_hard_opton ''disable-account'' w"

definition is_disable_installation :: "world \<Rightarrow> bool" where
  "is_disable_installation w \<longleftrightarrow> is_some_hard_opton ''disable-installation'' w"

definition use_ws :: "world \<Rightarrow> bool" where
  "use_ws w \<longleftrightarrow> option2bool ''allow-websocket'' (config_get_option ''allow-websocket'' w)"

definition allow_insecure_tls_fallback :: "world \<Rightarrow> bool" where
  "allow_insecure_tls_fallback w \<longleftrightarrow>
     option2bool ''allow-insecure-tls-fallback'' (config_get_option ''allow-insecure-tls-fallback'' w)"

definition no_register_device :: "world \<Rightarrow> bool" where
  "no_register_device w \<longleftrightarrow> is_setting (BUILTIN_SETTINGS w) ''register-device'' ''N''"

definition is_disable_change_permanent_password :: "world \<Rightarrow> bool" where
  "is_disable_change_permanent_password w \<longleftrightarrow> is_setting (BUILTIN_SETTINGS w) ''disable-change-permanent-password'' ''Y''"

definition is_disable_change_id :: "world \<Rightarrow> bool" where
  "is_disable_change_id w \<longleftrightarrow> is_setting (BUILTIN_SETTINGS w) ''disable-change-id'' ''Y''"

definition is_disable_unlock_pin :: "world \<Rightarrow> bool" where
  "is_disable_unlock_pin w \<longleftrightarrow> is_setting (BUILTIN_SETTINGS w) ''disable-unlock-pin'' ''Y''"

section \<open>Identity, passwords and keys\<close>

definition set_id :: "crypto \<Rightarrow> string \<Rightarrow> world \<Rightarrow> world" where
  "set_id C i w = (if i = cfg_id (CONFIG w) then w else update_config C (\<lambda>c. c\<lparr>cfg_id := i\<rparr>) w)"

text \<open>\<open>mac\<close> are the six bytes of the network card's address, if it has one.\<close>

definition get_auto_id :: "bytes option \<Rightarrow> string option" where
  "get_auto_id mac =
     (case mac of
        None \<Rightarrow> None
      | Some ma \<Rightarrow>
          let i = fold (\<lambda>x i. push_bit 8 i OR (ucast x :: u32)) (drop 2 ma) 0
          in Some (show_nat (unat (i AND 0x1FFFFFFF))))"

definition gen_id :: "string option \<Rightarrow> bytes option \<Rightarrow> world \<Rightarrow> string option" where
  "gen_id hostname mac w =
     (let hostname_as_id = (case fmlookup (BUILTIN_SETTINGS w) ''allow-hostname-as-id'' of
            Some v \<Rightarrow> option2bool ''allow-hostname-as-id'' v | None \<Rightarrow> False)
      in if hostname_as_id then
           (case hostname of
              Some h \<Rightarrow> Some (map (\<lambda>c. if c = CHR '' '' then CHR ''-'' else c) h)
            | None \<Rightarrow> get_auto_id mac)
         else get_auto_id mac)"

definition get_id :: "crypto \<Rightarrow> string option \<Rightarrow> bytes option \<Rightarrow> world \<Rightarrow> string \<times> world" where
  "get_id C hostname mac w =
     (let i = cfg_id (CONFIG w) in
      if i = [] then
        (case gen_id hostname mac w of
           Some tmp \<Rightarrow> (tmp, set_id C tmp w)
         | None \<Rightarrow> (i, w))
      else (i, w))"

definition get_id_or :: "string \<Rightarrow> world \<Rightarrow> string" where
  "get_id_or b w = (let a = cfg_id (CONFIG w) in if a = [] then b else a)"

definition set_nat_type :: "crypto \<Rightarrow> int \<Rightarrow> world \<Rightarrow> world" where
  "set_nat_type C n w = (if n = nat_type (CONFIG2 w) then w else update_config2 C (\<lambda>c. c\<lparr>nat_type := n\<rparr>) w)"

definition set_serial :: "crypto \<Rightarrow> int \<Rightarrow> world \<Rightarrow> world" where
  "set_serial C n w = (if n = serial (CONFIG2 w) then w else update_config2 C (\<lambda>c. c\<lparr>serial := n\<rparr>) w)"

definition get_serial :: "world \<Rightarrow> int" where
  "get_serial w = max (serial (CONFIG2 w)) 3"

definition set_key_confirmed :: "crypto \<Rightarrow> bool \<Rightarrow> world \<Rightarrow> world" where
  "set_key_confirmed C v w =
     (if key_confirmed (CONFIG w) = v then w
      else update_config C (\<lambda>c. let c = c\<lparr>key_confirmed := v\<rparr>
             in if \<not> v then c\<lparr>keys_confirmed := fmempty\<rparr> else c) w)"

definition get_host_key_confirmed :: "string \<Rightarrow> world \<Rightarrow> bool" where
  "get_host_key_confirmed host w \<longleftrightarrow> fmlookup (keys_confirmed (CONFIG w)) host = Some True"

definition set_host_key_confirmed :: "crypto \<Rightarrow> string \<Rightarrow> bool \<Rightarrow> world \<Rightarrow> world" where
  "set_host_key_confirmed C host v w =
     (if get_host_key_confirmed host w = v then w
      else update_config C (\<lambda>c. c\<lparr>keys_confirmed := fmupd host v (keys_confirmed c)\<rparr>) w)"

definition set_salt :: "crypto \<Rightarrow> string \<Rightarrow> world \<Rightarrow> world" where
  "set_salt C s w = (if s = salt (CONFIG w) then w else update_config C (\<lambda>c. c\<lparr>salt := s\<rparr>) w)"

definition get_salt :: "crypto \<Rightarrow> nat list \<Rightarrow> world \<Rightarrow> string \<times> world" where
  "get_salt C rnd w =
     (let s = salt (CONFIG w) in
      if s = [] then (let s = get_auto_password_with_chars rnd 6 pw_chars in (s, set_salt C s w))
      else (s, w))"

definition get_unlock_pin :: "world \<Rightarrow> string" where
  "get_unlock_pin w = (if is_disable_unlock_pin w then [] else unlock_pin (CONFIG2 w))"

definition set_unlock_pin :: "crypto \<Rightarrow> string \<Rightarrow> world \<Rightarrow> world" where
  "set_unlock_pin C pin w =
     (if is_disable_unlock_pin w then w
      else if pin = unlock_pin (CONFIG2 w) then w
      else update_config2 C (\<lambda>c. c\<lparr>unlock_pin := pin\<rparr>) w)"

section \<open>Trusted devices\<close>

record json =
  to_json :: "trusted_device list \<Rightarrow> string"
  from_json :: "string \<Rightarrow> trusted_device list option"

definition json_ok :: "json \<Rightarrow> bool" where
  "json_ok J \<longleftrightarrow> (\<forall>ds. from_json J (to_json J ds) = Some ds \<and> is_str (to_json J ds)
      \<and> take 1 (to_json J ds) = ''['') \<and> to_json J [] = ''[]''"

definition outdate :: "int \<Rightarrow> trusted_device \<Rightarrow> bool" where
  "outdate now d \<longleftrightarrow> td_time d + 90 * 24 * 60 * 60 * 1000 < now"

definition set_trusted_devices :: "crypto \<Rightarrow> json \<Rightarrow> trusted_device list \<Rightarrow> world \<Rightarrow> world" where
  "set_trusted_devices C J ds w =
     (let ds = filter (\<lambda>d. \<not> outdate (now_ms w) d) ds;
          devices = to_json J ds;
          max_len = 1024 * 1024
      in if length devices > max_len then w
         else (update_config2 C (\<lambda>c. c\<lparr>trusted_devices_enc := encrypt_str_or_original C devices ''00'' max_len\<rparr>) w)
                \<lparr>TRUSTED_DEVICES := (ds, True)\<rparr>)"

definition get_trusted_devices :: "crypto \<Rightarrow> json \<Rightarrow> world \<Rightarrow> trusted_device list \<times> world" where
  "get_trusted_devices C J w =
     (let (devices, synced) = TRUSTED_DEVICES w in
      if synced then (devices, w)
      else
        let (text, succ, store) = decrypt_str_or_original C (trusted_devices_enc (CONFIG2 w)) ''00'' in
        if succ then
          let ds = (case from_json J text of Some ds \<Rightarrow> ds | None \<Rightarrow> []);
              kept = filter (\<lambda>d. \<not> outdate (now_ms w) d) ds;
              w = (if store \<or> length kept \<noteq> length ds then set_trusted_devices C J kept w else w)
          in (kept, w\<lparr>TRUSTED_DEVICES := (kept, True)\<rparr>)
        else ([], w))"

definition add_trusted_device :: "crypto \<Rightarrow> json \<Rightarrow> trusted_device \<Rightarrow> world \<Rightarrow> world" where
  "add_trusted_device C J d w =
     (case get_trusted_devices C J w of (ds, w) \<Rightarrow>
        set_trusted_devices C J (filter (\<lambda>e. hwid e \<noteq> hwid d) ds @ [d]) w)"

definition remove_trusted_devices :: "crypto \<Rightarrow> json \<Rightarrow> bytes list \<Rightarrow> world \<Rightarrow> world" where
  "remove_trusted_devices C J hwids w =
     (case get_trusted_devices C J w of (ds, w) \<Rightarrow>
        set_trusted_devices C J (filter (\<lambda>e. hwid e \<notin> set hwids) ds) w)"

definition clear_trusted_devices :: "crypto \<Rightarrow> json \<Rightarrow> world \<Rightarrow> world" where
  "clear_trusted_devices C J w = set_trusted_devices C J [] w"

definition set_permanent_password :: "crypto \<Rightarrow> json \<Rightarrow> string \<Rightarrow> world \<Rightarrow> world" where
  "set_permanent_password C J password w =
     (if is_disable_change_permanent_password w then w
      else if is_setting (HARD_SETTINGS w) ''password'' password \<and> cfg_password (CONFIG w) = [] then w
      else if password = cfg_password (CONFIG w) then w
      else clear_trusted_devices C J (update_config C (\<lambda>c. c\<lparr>cfg_password := password\<rparr>) w))"

definition get_permanent_password :: "world \<Rightarrow> string" where
  "get_permanent_password w =
     (let password = cfg_password (CONFIG w) in
      if password = [] then (case fmlookup (HARD_SETTINGS w) ''password'' of Some v \<Rightarrow> v | None \<Rightarrow> [])
      else password)"

section \<open>Proxy\<close>

definition get_socks_from_settings :: "settings \<Rightarrow> socks5_server option" where
  "get_socks_from_settings s =
     (case fmlookup s ''proxy-url'' of
        None \<Rightarrow> None
      | Some url \<Rightarrow> Some \<lparr>proxy = url,
          socks_username = unwrap_or_default (fmlookup s ''proxy-username''),
          socks_password = unwrap_or_default (fmlookup s ''proxy-password'')\<rparr>)"

definition set_socks :: "crypto \<Rightarrow> socks5_server option \<Rightarrow> world \<Rightarrow> world" where
  "set_socks C s w =
     (if fmlookup (OVERWRITE_SETTINGS w) ''proxy-url'' \<noteq> None then w
      else if socks (CONFIG2 w) = s then w
      else
        let d = (case s of Some x \<Rightarrow> x | None \<Rightarrow> \<lparr>proxy = [], socks_username = [], socks_password = []\<rparr>);
            eq = (\<lambda>k v. is_setting (DEFAULT_SETTINGS w) k v)
        in if socks (CONFIG2 w) = None \<and> fmlookup (DEFAULT_SETTINGS w) ''proxy-url'' \<noteq> None
              \<and> eq ''proxy-url'' (proxy d) \<and> eq ''proxy-username'' (socks_username d)
              \<and> eq ''proxy-password'' (socks_password d)
           then w
           else update_config2 C (\<lambda>c. c\<lparr>socks := s\<rparr>) w)"

definition get_socks :: "world \<Rightarrow> socks5_server option" where
  "get_socks w =
     (case get_socks_from_settings (OVERWRITE_SETTINGS w) of
        Some s \<Rightarrow> Some s
      | None \<Rightarrow> (case socks (CONFIG2 w) of
          Some s \<Rightarrow> Some s
        | None \<Rightarrow> get_socks_from_settings (DEFAULT_SETTINGS w)))"

definition get_network_type :: "world \<Rightarrow> network_type" where
  "get_network_type w =
     (if fmlookup (OVERWRITE_SETTINGS w) ''proxy-url'' \<noteq> None then ProxySocks
      else if socks (CONFIG2 w) \<noteq> None then ProxySocks
      else if fmlookup (DEFAULT_SETTINGS w) ''proxy-url'' \<noteq> None then ProxySocks
      else Direct)"

definition is_proxy :: "world \<Rightarrow> bool" where
  "is_proxy w \<longleftrightarrow> get_network_type w \<noteq> Direct"

section \<open>Rendezvous servers\<close>

definition get_rendezvous_servers :: "world \<Rightarrow> string list" where
  "get_rendezvous_servers w =
     (if EXE_RENDEZVOUS_SERVER w \<noteq> [] then [EXE_RENDEZVOUS_SERVER w]
      else if config_get_option ''custom-rendezvous-server'' w \<noteq> []
      then [config_get_option ''custom-rendezvous-server'' w]
      else if PROD_RENDEZVOUS_SERVER w \<noteq> [] then [PROD_RENDEZVOUS_SERVER w]
      else
        let ss = (if serial (CONFIG2 w) > 3
                  then filter (\<lambda>x. CHR ''.'' \<in> set x)
                         (split_on (CHR '','') (config_get_option ''rendezvous-servers'' w))
                  else [])
        in if ss \<noteq> [] then ss else [''rs-ny.rustdesk.com''])"

definition get_rendezvous_server :: "world \<Rightarrow> string" where
  "get_rendezvous_server w =
     (let s = EXE_RENDEZVOUS_SERVER w;
          s = (if s = [] then config_get_option ''custom-rendezvous-server'' w else s);
          s = (if s = [] then PROD_RENDEZVOUS_SERVER w else s);
          s = (if s = [] then rendezvous_server (CONFIG2 w) else s);
          s = (if s = [] then (case get_rendezvous_servers w of x # _ \<Rightarrow> x | [] \<Rightarrow> []) else s)
      in if CHR '':'' \<notin> set s then s @ '':21116'' else s)"

text \<open>
  \<open>update_latency\<close>: the latencies are visited in the order \<open>hosts\<close> of the hash map's iteration.
\<close>

definition best_host :: "(string \<times> int) list \<Rightarrow> string \<times> int" where
  "best_host hosts =
     fold (\<lambda>(h, d) (host, delay). if d > 0 \<and> d < delay then (h, d) else (host, delay)) hosts ([], 2 ^ 63 - 1)"

definition update_latency :: "crypto \<Rightarrow> (string \<times> int) list \<Rightarrow> string \<Rightarrow> int \<Rightarrow> world \<Rightarrow> world" where
  "update_latency C hosts host latency w =
     (let w = w\<lparr>ONLINE := fmupd host latency (ONLINE w)\<rparr>;
          best = fst (best_host hosts)
      in if best \<noteq> [] \<and> best \<noteq> rendezvous_server (CONFIG2 w)
         then update_config2 C (\<lambda>c. c\<lparr>rendezvous_server := best\<rparr>) w
         else w)"

definition reset_online :: "world \<Rightarrow> world" where
  "reset_online w = w\<lparr>ONLINE := fmempty\<rparr>"

definition get_online_state :: "int list \<Rightarrow> int" where
  "get_online_state latencies = (case latencies of [] \<Rightarrow> 0 | _ \<Rightarrow> Max (set latencies))"

section \<open>Files: what is stored is what is loaded\<close>

definition storable :: "crypto \<Rightarrow> nat \<Rightarrow> string \<Rightarrow> bool" where
  "storable C n s \<longleftrightarrow> is_str s \<and> chars_count s \<le> n \<and> \<not> fst (snd (decrypt_str_or_original C s ''00''))"

lemma decrypt_empty: "decrypt_str_or_original C [] ver = ([], False, False)"
  by (simp add: decrypt_str_or_original_def)

lemma storable_roundtrip:
  assumes "crypto_ok C" and "storable C n s"
  shows "decrypt_str_or_original C (encrypt_str_or_original C s ''00'' n) ''00'' = (s, s \<noteq> [], False)"
proof (cases "s = []")
  case True
  then show ?thesis by (simp add: encrypt_str_fixed decrypt_empty)
next
  case False
  then obtain e where e: "encrypt_data C (as_bytes s) = Some e"
    using encrypt_data_total by fastforce
  with assms(2) have "encrypt_str_or_original C s ''00'' n = ''00'' @ e"
    by (simp add: encrypt_str_or_original_def storable_def)
  with decrypt_str_encrypted [OF assms(1) e, of "''00''"] False assms(2) show ?thesis
    by (simp add: storable_def)
qed

lemma config_file_store:
  "\<exists>i<5. write_ok w i \<Longrightarrow> config_file (config_store C c w) = Some (config_encrypted C c)"
  by (simp add: config_store_def store_path_result)

lemma config2_file_store:
  "\<exists>i<5. write_ok w i \<Longrightarrow> config2_file (config2_store C c w) = Some (config2_encrypted C c)"
  by (simp add: config2_store_def store_path_result)

text \<open>
  If one of the five write attempts succeeds, loading the stored main configuration gives
  back the id, the password and every other field (the id's ciphertext aside), and asks for no
  further store; so does the second configuration with its proxy password and pin. The secrets
  must be within the length limit and not look encrypted, and the id must not be empty.
\<close>

theorem config_files_roundtrip:
  assumes "crypto_ok C" and "\<exists>i<5. write_ok w i"
    and "storable C 128 (cfg_id c)" and "cfg_id c \<noteq> []" and "storable C 128 (cfg_password c)"
    and "storable C 128 (unlock_pin d)" and "\<forall>s. socks d = Some s \<longrightarrow> storable C 128 (socks_password s)"
  shows "\<exists>f g. config_file (config_store C c w) = Some f
    \<and> config_load C f ids = (c\<lparr>enc_id := enc_id f\<rparr>, False)
    \<and> config2_file (config2_store C d w) = Some g \<and> config2_load C g = (d, False)"
proof -
  note rt = storable_roundtrip [OF assms(1)]
  have "config_load C (config_encrypted C c) ids = (c\<lparr>enc_id := enc_id (config_encrypted C c)\<rparr>, False)"
    using assms(4) rt [OF assms(3)] rt [OF assms(5)]
    by (simp add: config_load_def config_encrypted_def encrypt_max_len_def)
  moreover have "config2_load C (config2_encrypted C d) = (d, False)"
  proof (cases "socks d")
    case None
    with rt [OF assms(6)] show ?thesis
      by (simp add: config2_load_def config2_encrypted_def encrypt_max_len_def)
  next
    case (Some s)
    with assms(7) rt [OF assms(6)] rt [of 128 "socks_password s"] show ?thesis
      by (simp add: config2_load_def config2_encrypted_def encrypt_max_len_def)
  qed
  ultimately show ?thesis
    using config_file_store [OF assms(2)] config2_file_store [OF assms(2)] by blast
qed

definition demo_world :: world where
  "demo_world = \<lparr>CONFIG = config_default, CONFIG2 = config2_default, TRUSTED_DEVICES = ([], False),
     ONLINE = fmempty, OVERWRITE_SETTINGS = fmempty, DEFAULT_SETTINGS = fmempty,
     HARD_SETTINGS = fmempty, BUILTIN_SETTINGS = fmempty, EXE_RENDEZVOUS_SERVER = [],
     PROD_RENDEZVOUS_SERVER = [], config_file = None, config2_file = None,
     write_ok = (\<lambda>i. i = 2), now_ms = 0\<rparr>"

lemma storable_ascii_short:
  assumes "list_all (\<lambda>b. b < 0x80) (as_bytes s)" and "length s \<le> n" and "\<not> starts_with s ''00''"
  shows "storable C n s"
proof -
  have "chars_count s \<le> length s"
    using length_filter_le [of _ "as_bytes s"] by (simp add: chars_count_def)
  with assms show ?thesis
    by (simp add: storable_def is_str_def valid_utf8_ascii decrypt_str_or_original_def Let_def)
qed

theorem config_files_roundtrip_witness:
  "\<exists>f. config_file (config_store plain_crypto (config_default\<lparr>cfg_id := ''12''\<rparr>) demo_world) = Some f
     \<and> config_load plain_crypto f [] = (config_default\<lparr>cfg_id := ''12'', enc_id := enc_id f\<rparr>, False)"
proof -
  have id: "storable plain_crypto 128 ''12''" and empty: "storable plain_crypto 128 []"
    by (intro storable_ascii_short; simp add: as_bytes_def starts_with_def)+
  have w: "\<exists>i<5. write_ok demo_world i" by (simp add: demo_world_def)
  from config_files_roundtrip [OF plain_crypto_ok w, of "config_default\<lparr>cfg_id := ''12''\<rparr>" config2_default "[]"]
    id empty
  show ?thesis by (auto simp: config_default_def config2_default_def)
qed

text \<open>
  A permanent password of more than 128 characters that does not look encrypted is accepted in
  memory but written to the file as the empty password: after the next start it is gone.
\<close>

theorem long_password_lost:
  assumes "\<exists>i<5. write_ok w i" and "128 < chars_count p"
    and "\<not> fst (snd (decrypt_str_or_original C p ''00''))"
    and "\<not> is_disable_change_permanent_password w" and "p \<noteq> cfg_password (CONFIG w)"
    and "\<not> is_setting (HARD_SETTINGS w) ''password'' p"
  shows "cfg_password (CONFIG (set_permanent_password C J p w)) = p
    \<and> map_option cfg_password (config_file (set_permanent_password C J p w)) = Some []"
  using assms
  by (simp add: set_permanent_password_def clear_trusted_devices_def set_trusted_devices_def
      update_config_def update_config2_def config_store_def config2_store_def store_path_result
      config_encrypted_def encrypt_str_or_original_def encrypt_max_len_def Let_def)

lemma chars_count_replicate: "chars_count (replicate n CHR ''x'') = n"
  by (induction n) (simp_all add: chars_count_def as_bytes_def)

theorem long_password_lost_witness:
  "map_option cfg_password (config_file (set_permanent_password plain_crypto \<lparr>to_json = \<lambda>_. ''[]'', from_json = \<lambda>_. None\<rparr>
     (replicate 200 CHR ''x'') demo_world)) = Some []"
proof -
  have ns: "\<not> starts_with (replicate (200::nat) CHR ''x'') ''00''"
    by (simp add: starts_with_def numeral_eq_Suc)
  have "\<not> fst (snd (decrypt_str_or_original plain_crypto (replicate 200 CHR ''x'') ''00''))"
    using ns by (simp add: decrypt_str_or_original_def)
  moreover have "replicate 200 CHR ''x'' \<noteq> ([] :: string)" by simp
  ultimately show ?thesis
    using long_password_lost [of demo_world "replicate 200 CHR ''x''" plain_crypto]
    by (simp add: chars_count_replicate demo_world_def is_disable_change_permanent_password_def is_setting_def
        config_default_def)
qed

section \<open>Option layers\<close>

lemma CONFIG2_update_config2 [simp]: "CONFIG2 (update_config2 C f w) = f (CONFIG2 w)"
  by (simp add: update_config2_def config2_store_def Let_def)

lemma update_config2_frame [simp]:
  "OVERWRITE_SETTINGS (update_config2 C f w) = OVERWRITE_SETTINGS w"
  "DEFAULT_SETTINGS (update_config2 C f w) = DEFAULT_SETTINGS w"
  "HARD_SETTINGS (update_config2 C f w) = HARD_SETTINGS w"
  "CONFIG (update_config2 C f w) = CONFIG w" "now_ms (update_config2 C f w) = now_ms w"
  "TRUSTED_DEVICES (update_config2 C f w) = TRUSTED_DEVICES w"
  by (simp_all add: update_config2_def config2_store_def Let_def)

lemma update_config_frame [simp]:
  "CONFIG (update_config C f w) = f (CONFIG w)" "CONFIG2 (update_config C f w) = CONFIG2 w"
  "HARD_SETTINGS (update_config C f w) = HARD_SETTINGS w" "now_ms (update_config C f w) = now_ms w"
  by (simp_all add: update_config_def config_store_def Let_def)

text \<open>The value a layer above the stored options yields, \<open>own\<close> being the stored one.\<close>

definition layered :: "world \<Rightarrow> string \<Rightarrow> string option \<Rightarrow> string" where
  "layered w k own =
     (case fmlookup (OVERWRITE_SETTINGS w) k of
        Some x \<Rightarrow> x
      | None \<Rightarrow> (case own of Some v \<Rightarrow> v | None \<Rightarrow> unwrap_or_default (fmlookup (DEFAULT_SETTINGS w) k)))"

lemma get_option_layered: "config_get_option k w = layered w k (fmlookup (cfg_options (CONFIG2 w)) k)"
  by (simp add: config_get_option_def layered_def get_or_def unwrap_or_default_def split: option.split)

lemma set_option_stored:
  "fmlookup (cfg_options (CONFIG2 (config_set_option C k v w))) j =
     (if j = k then (if is_option_can_save (OVERWRITE_SETTINGS w) k (DEFAULT_SETTINGS w) v \<and> v \<noteq> [] then Some v else None)
      else fmlookup (cfg_options (CONFIG2 w)) j)"
  by (auto simp: config_set_option_def Let_def)

lemma set_option_frame:
  "OVERWRITE_SETTINGS (config_set_option C k v w) = OVERWRITE_SETTINGS w"
  "DEFAULT_SETTINGS (config_set_option C k v w) = DEFAULT_SETTINGS w"
  by (simp_all add: config_set_option_def Let_def)

text \<open>
  Options have three layers. The value of an option is the overwriting setting if the client
  fixes one, else the stored value, else the default; the map of all options says the same as the
  single lookup. Setting an option makes it read back as set, the empty value meaning the
  default, unless an overwriting setting fixes it, and touches no other option; replacing all
  options at once has the same effect, although values equal to the default are not stored.
\<close>

theorem option_layers:
  "config_get_option k w = unwrap_or_default (fmlookup (config_get_options w) k)
   \<and> config_get_option k (config_set_option C k v w) = layered w k (if v = [] then None else Some v)
   \<and> (j \<noteq> k \<longrightarrow> config_get_option j (config_set_option C k v w) = config_get_option j w)
   \<and> config_get_option k (config_set_options C opts w) = layered w k (fmlookup opts k)"
proof (intro conjI impI)
  show "config_get_option k w = unwrap_or_default (fmlookup (config_get_options w) k)"
    by (auto simp: get_option_layered layered_def config_get_options_def unwrap_or_default_def
        fmlookup_dom_iff split: option.split)
  show "config_get_option k (config_set_option C k v w) = layered w k (if v = [] then None else Some v)"
    by (auto simp: get_option_layered layered_def set_option_stored set_option_frame
        is_option_can_save_def unwrap_or_default_def split: option.split if_splits)
  show "j \<noteq> k \<Longrightarrow> config_get_option j (config_set_option C k v w) = config_get_option j w"
    by (simp add: get_option_layered layered_def set_option_stored set_option_frame split: option.split)
  have "cfg_options (CONFIG2 (config_set_options C opts w)) = purify_options opts w"
    and "OVERWRITE_SETTINGS (config_set_options C opts w) = OVERWRITE_SETTINGS w"
    and "DEFAULT_SETTINGS (config_set_options C opts w) = DEFAULT_SETTINGS w"
    by (auto simp: config_set_options_def Let_def)
  then show "config_get_option k (config_set_options C opts w) = layered w k (fmlookup opts k)"
    by (auto simp: get_option_layered layered_def purify_options_def is_option_can_save_def
        unwrap_or_default_def split: option.split if_splits)
qed

theorem option_layers_witness:
  "config_get_option ''a'' (config_set_option plain_crypto ''b'' ''x'' demo_world) = config_get_option ''a'' demo_world"
  using option_layers [of "''b''" demo_world plain_crypto "''x''" "''a''" fmempty] by simp

section \<open>Permanent password and trusted devices\<close>

lemma set_trusted_CONFIG [simp]:
  "CONFIG (set_trusted_devices C J ds w) = CONFIG w" "HARD_SETTINGS (set_trusted_devices C J ds w) = HARD_SETTINGS w"
  by (simp_all add: set_trusted_devices_def Let_def)

lemma clear_trusted: "json_ok J \<Longrightarrow> TRUSTED_DEVICES (clear_trusted_devices C J w) = ([], True)"
  by (simp add: clear_trusted_devices_def set_trusted_devices_def json_ok_def Let_def)

lemma other_password_changes:
  "TRUSTED_DEVICES (snd (config_set C c w)) = TRUSTED_DEVICES w" "CONFIG (snd (config_set C c w)) = c"
  "HARD_SETTINGS (snd (config_set C c w)) = HARD_SETTINGS w"
  "TRUSTED_DEVICES (check_and_provision C q w) = TRUSTED_DEVICES w"
  "HARD_SETTINGS (check_and_provision C q w) = HARD_SETTINGS w"
  "cfg_password (CONFIG (check_and_provision C q w)) =
     (if cfg_password (CONFIG w) = [] then prov_password q else cfg_password (CONFIG w))"
  by (auto simp: config_set_def check_and_provision_def config_store_def config2_store_def Let_def split: option.split)

text \<open>
  C11. The three ways to change the permanent password. Setting it with \<open>set_permanent_password\<close>: unless the
  client forbids the change, the password in force afterwards is the one set, the empty one meaning the
  client's built-in password; and if that changes the password in force, all trusted devices are forgotten.
  Replacing the whole configuration (\<open>Config::set\<close>) and provisioning an empty password also determine the
  password in force, also where the client forbids the change, and leave the trusted devices as they are.
\<close>

theorem permanent_password_change:
  assumes "json_ok J"
  shows "get_permanent_password (set_permanent_password C J p w) =
      (if is_disable_change_permanent_password w then get_permanent_password w
       else if p = [] then unwrap_or_default (fmlookup (HARD_SETTINGS w) ''password'')
       else p)
    \<and> (get_permanent_password (set_permanent_password C J p w) \<noteq> get_permanent_password w \<longrightarrow>
        TRUSTED_DEVICES (set_permanent_password C J p w) = ([], True))
    \<and> get_permanent_password (snd (config_set C c w)) =
        (if cfg_password c = [] then unwrap_or_default (fmlookup (HARD_SETTINGS w) ''password'') else cfg_password c)
    \<and> TRUSTED_DEVICES (snd (config_set C c w)) = TRUSTED_DEVICES w
    \<and> get_permanent_password (check_and_provision C q w) =
        (if cfg_password (CONFIG w) = [] \<and> prov_password q \<noteq> [] then prov_password q else get_permanent_password w)
    \<and> TRUSTED_DEVICES (check_and_provision C q w) = TRUSTED_DEVICES w"
proof -
  have "CONFIG (clear_trusted_devices C J x) = CONFIG x" "HARD_SETTINGS (clear_trusted_devices C J x) = HARD_SETTINGS x" for x
    by (simp_all add: clear_trusted_devices_def)
  then have "get_permanent_password (set_permanent_password C J p w) =
      (if is_disable_change_permanent_password w then get_permanent_password w
       else if p = [] then unwrap_or_default (fmlookup (HARD_SETTINGS w) ''password'')
       else p)
    \<and> (get_permanent_password (set_permanent_password C J p w) \<noteq> get_permanent_password w \<longrightarrow>
        TRUSTED_DEVICES (set_permanent_password C J p w) = ([], True))"
    using clear_trusted [OF assms]
    by (auto simp: set_permanent_password_def get_permanent_password_def is_setting_def unwrap_or_default_def
        split: option.splits)
  then show ?thesis
    by (simp add: get_permanent_password_def other_password_changes unwrap_or_default_def split: option.split)
qed

text \<open>A conversion that meets the contract: the numbers of every field, in decimal.\<close>

definition fields_text :: "nat list list \<Rightarrow> string" where
  "fields_text fs = concat (map (\<lambda>f. concat (map (\<lambda>n. show_nat n @ '','') f) @ '';'') fs)"

definition text_fields :: "string \<Rightarrow> nat list list" where
  "text_fields s = map (\<lambda>f. map read_nat (butlast (split_on CHR '','' f))) (butlast (split_on CHR '';'' s))"

definition device_fields :: "trusted_device \<Rightarrow> nat list list" where
  "device_fields d = [map unat (hwid d), [if td_time d < 0 then 1 else 0, nat \<bar>td_time d\<bar>],
     map of_char (td_id d), map of_char (td_name d), map of_char (td_platform d)]"

definition fields_device :: "nat list list \<Rightarrow> trusted_device" where
  "fields_device fs = \<lparr>hwid = map word_of_nat (fs ! 0),
     td_time = (if fs ! 1 ! 0 = 1 then - int (fs ! 1 ! 1) else int (fs ! 1 ! 1)),
     td_id = map char_of (fs ! 2), td_name = map char_of (fs ! 3), td_platform = map char_of (fs ! 4)\<rparr>"

definition text_json :: json where
  "text_json =
     \<lparr>to_json = \<lambda>ds. if ds = [] then ''[]''
          else CHR ''['' # concat (map (\<lambda>d. fields_text (device_fields d) @ ''|'') ds),
      from_json = \<lambda>s. if s = ''[]'' then Some []
          else Some (map (\<lambda>t. fields_device (text_fields t)) (butlast (split_on CHR ''|'' (tl s))))\<rparr>"

lemma fields_device_inverse [simp]: "fields_device (device_fields d) = d"
  by (cases d) (simp add: fields_device_def device_fields_def comp_def)

lemma show_nat_chars: "c \<in> set (show_nat n) \<Longrightarrow> is_digit c"
  using show_nat_digits [of n] by (simp add: list_all_iff)

lemma field_separators:
  "CHR '';'' \<notin> set (concat (map (\<lambda>n. show_nat n @ '','') f))"
  "CHR '','' \<notin> set (show_nat n)"
  "CHR ''|'' \<notin> set (fields_text fs)"
  by (auto simp: fields_text_def is_digit_def dest!: show_nat_chars)

lemma text_fields_inverse [simp]: "text_fields (fields_text fs) = fs"
proof -
  have "split_on CHR '';'' (fields_text fs) = map (\<lambda>f. concat (map (\<lambda>n. show_nat n @ '','') f)) fs @ [[]]"
    unfolding fields_text_def by (rule split_on_pieces) (rule field_separators(1))
  moreover have "split_on CHR '','' (concat (map (\<lambda>n. show_nat n @ '','') f)) = map show_nat f @ [[]]" for f
    by (rule split_on_pieces) (rule field_separators(2))
  ultimately show ?thesis by (simp add: text_fields_def comp_def read_show_nat)
qed

lemma text_json_back: "from_json text_json (to_json text_json ds) = Some ds"
proof (cases "ds = []")
  case False
  have "split_on CHR ''|'' (concat (map (\<lambda>d. fields_text (device_fields d) @ ''|'') ds))
      = map (\<lambda>d. fields_text (device_fields d)) ds @ [[]]"
    by (rule split_on_pieces) (rule field_separators(3))
  moreover have "last (concat (map (\<lambda>d. fields_text (device_fields d) @ ''|'') ds)) = CHR ''|''"
    using False by (induction ds rule: rev_induct) simp_all
  then have "concat (map (\<lambda>d. fields_text (device_fields d) @ ''|'') ds) \<noteq> '']''" by auto
  ultimately show ?thesis using False by (simp add: text_json_def comp_def)
qed (simp add: text_json_def)

lemma text_json_ascii: "list_all (\<lambda>b. b < 0x80) (as_bytes (to_json text_json ds))"
proof -
  have "(word_of_nat (of_char c) :: u8) < 0x80" if "is_digit c \<or> c \<in> set ''[],;|''" for c
    using that by (auto simp: is_digit_def word_less_nat_alt unat_of_nat take_bit_nat_eq_self)
  moreover have "\<forall>c \<in> set (to_json text_json ds). is_digit c \<or> c \<in> set ''[],;|''"
    by (auto simp: text_json_def fields_text_def dest!: show_nat_chars)
  ultimately show ?thesis by (auto simp: list_all_iff as_bytes_def)
qed

lemma text_json_ok: "json_ok text_json"
  unfolding json_ok_def
  using text_json_back valid_utf8_ascii [OF text_json_ascii]
  by (simp add: is_str_def) (simp add: text_json_def)

theorem permanent_password_change_witness:
  "TRUSTED_DEVICES (set_permanent_password plain_crypto text_json ''secret'' demo_world) = ([], True)"
  using permanent_password_change [OF text_json_ok, of plain_crypto "''secret''" demo_world]
  by (simp add: get_permanent_password_def demo_world_def config_default_def
      is_disable_change_permanent_password_def is_setting_def)

lemma json_text_storable:
  assumes "json_ok J" and "length (to_json J ds) \<le> n"
  shows "storable C n (to_json J ds)" and "to_json J ds \<noteq> []"
proof -
  from assms(1) have hd: "take 1 (to_json J ds) = ''[''" and "is_str (to_json J ds)"
    by (auto simp: json_ok_def)
  have "\<not> starts_with (to_json J ds) ''00''"
    using hd by (cases "to_json J ds") (auto simp: starts_with_def)
  moreover have "chars_count (to_json J ds) \<le> length (to_json J ds)"
    using length_filter_le [of _ "as_bytes (to_json J ds)"] by (simp add: chars_count_def)
  ultimately show "storable C n (to_json J ds)"
    using \<open>is_str (to_json J ds)\<close> assms(2) by (simp add: storable_def decrypt_str_or_original_def Let_def)
  show "to_json J ds \<noteq> []" using hd by auto
qed

text \<open>
  Trusted devices survive a restart: what \<open>add_trusted_device\<close> leaves, the other devices not
  older than 90 days and the new one exactly once, is what is read at once and also what a
  process that starts afresh decrypts from the stored text.
\<close>

theorem trusted_devices_reload:
  assumes "crypto_ok C" and "json_ok J" and "TRUSTED_DEVICES w = (old, True)" and "\<not> outdate (now_ms w) d"
    and "ds = filter (\<lambda>e. \<not> outdate (now_ms w) e \<and> hwid e \<noteq> hwid d) old @ [d]"
    and "length (to_json J ds) \<le> 1024 * 1024" and "w' = add_trusted_device C J d w"
  shows "fst (get_trusted_devices C J w') = ds
    \<and> fst (get_trusted_devices C J (w'\<lparr>TRUSTED_DEVICES := ([], False)\<rparr>)) = ds
    \<and> [e \<leftarrow> ds. hwid e = hwid d] = [d]"
proof -
  let ?enc = "encrypt_str_or_original C (to_json J ds) ''00'' (1024 * 1024)"
  have fresh: "filter (\<lambda>e. \<not> outdate (now_ms w) e) ds = ds"
    using assms(4) by (auto simp: assms(5) intro!: filter_cong)
  have "filter (\<lambda>e. \<not> outdate (now_ms w) e) (filter (\<lambda>e. hwid e \<noteq> hwid d) old @ [d]) = ds"
    using assms(4) by (simp add: assms(5) conj_commute)
  then have w': "w' = (update_config2 C (\<lambda>c. c\<lparr>trusted_devices_enc := ?enc\<rparr>) w)\<lparr>TRUSTED_DEVICES := (ds, True)\<rparr>"
    using assms(3,6,7) by (simp add: add_trusted_device_def get_trusted_devices_def set_trusted_devices_def Let_def)
  note st = json_text_storable(1) [OF assms(2,6), of C] json_text_storable(2) [OF assms(2,6)]
  have "decrypt_str_or_original C ?enc ''00'' = (to_json J ds, True, False)"
    using storable_roundtrip [OF assms(1) st(1)] st(2) by simp
  moreover have "from_json J (to_json J ds) = Some ds" using assms(2) by (simp add: json_ok_def)
  ultimately have "fst (get_trusted_devices C J (w'\<lparr>TRUSTED_DEVICES := ([], False)\<rparr>)) = ds"
    using fresh by (simp add: w' get_trusted_devices_def Let_def)
  moreover have "[e \<leftarrow> ds. hwid e = hwid d] = [d]" by (simp add: assms(5) filter_empty_conv)
  ultimately show ?thesis by (simp add: w' get_trusted_devices_def)
qed

theorem trusted_devices_reload_witness:
  "let d = \<lparr>hwid = [1], td_time = 5, td_id = [], td_name = [], td_platform = []\<rparr>;
       w = add_trusted_device plain_crypto text_json d (demo_world\<lparr>TRUSTED_DEVICES := ([], True)\<rparr>)
   in fst (get_trusted_devices plain_crypto text_json (w\<lparr>TRUSTED_DEVICES := ([], False)\<rparr>)) = [d]"
proof -
  let ?d = "\<lparr>hwid = [1], td_time = 5, td_id = [], td_name = [], td_platform = []\<rparr>"
  have "\<not> outdate (now_ms (demo_world\<lparr>TRUSTED_DEVICES := ([], True)\<rparr>)) ?d"
    by (simp add: outdate_def demo_world_def)
  moreover have "to_json text_json [?d] = ''[1,;0,5,;;;;|''" by code_simp
  then have "length (to_json text_json [?d]) \<le> 1024 * 1024" by simp
  ultimately show ?thesis
    using trusted_devices_reload [OF plain_crypto_ok text_json_ok, of "demo_world\<lparr>TRUSTED_DEVICES := ([], True)\<rparr>" "[]" ?d "[?d]"]
    by simp
qed

section \<open>Provisioning, proxy and rendezvous server\<close>

text \<open>
  Provisioning heals only what is missing: a set employee id and a non-empty password are kept,
  a missing or empty employee id becomes the provisioned one (also when that is empty, as for a
  file that provides only a password), an empty password becomes the provisioned one; if anything
  was healed and the disk works, both files hold the healed configuration.
\<close>

theorem provisioning_heals:
  assumes "prov_employee_id p \<noteq> [] \<or> prov_password p \<noteq> []" and "write_ok w 0"
    and "w' = check_and_provision C p w"
  shows "cfg_password (CONFIG w') = (if cfg_password (CONFIG w) = [] then prov_password p else cfg_password (CONFIG w))
    \<and> fmlookup (cfg_options (CONFIG2 w')) ''employee_id'' =
        (case fmlookup (cfg_options (CONFIG2 w)) ''employee_id'' of
           Some (x # xs) \<Rightarrow> Some (x # xs) | _ \<Rightarrow> Some (prov_employee_id p))
    \<and> (k \<noteq> ''employee_id'' \<longrightarrow> fmlookup (cfg_options (CONFIG2 w')) k = fmlookup (cfg_options (CONFIG2 w)) k)
    \<and> (CONFIG w' \<noteq> CONFIG w \<or> CONFIG2 w' \<noteq> CONFIG2 w \<longrightarrow>
        config_file w' = Some (config_encrypted C (CONFIG w')) \<and> config2_file w' = Some (config2_encrypted C (CONFIG2 w')))"
  using assms
  by (auto simp: check_and_provision_def Let_def config_store_def config2_store_def store_path_ok
      split: option.split list.split)

theorem provisioning_heals_witness:
  "fmlookup (cfg_options (CONFIG2 (check_and_provision plain_crypto \<lparr>prov_employee_id = [], prov_password = ''pw''\<rparr>
      (demo_world\<lparr>write_ok := \<lambda>_. True\<rparr>)))) ''employee_id'' = Some []"
proof -
  let ?p = "\<lparr>prov_employee_id = [], prov_password = ''pw''\<rparr>" and ?w = "demo_world\<lparr>write_ok := \<lambda>_. True\<rparr>"
  have "prov_employee_id ?p \<noteq> [] \<or> prov_password ?p \<noteq> []" and "write_ok ?w 0"
    and none: "fmlookup (cfg_options (CONFIG2 ?w)) ''employee_id'' = None" and "prov_employee_id ?p = []"
    by (simp_all add: demo_world_def config2_default_def)
  from provisioning_heals [OF this(1,2) refl, of plain_crypto] this(3,4) show ?thesis
    by (simp only: option.case)
qed

text \<open>
  The proxy in force and the network type agree: there is a proxy exactly when the type is not
  direct. Setting the proxy has no effect under an overwriting setting; otherwise the proxy set
  is in force afterwards, the proxy of the default settings replacing a removed one.
\<close>

theorem socks_in_force:
  "(get_socks w = None \<longleftrightarrow> get_network_type w = Direct) \<and> (is_proxy w \<longleftrightarrow> get_socks w \<noteq> None)
   \<and> get_socks (set_socks C s w) =
      (case get_socks_from_settings (OVERWRITE_SETTINGS w) of
         Some x \<Rightarrow> Some x
       | None \<Rightarrow> (case s of Some x \<Rightarrow> Some x | None \<Rightarrow> get_socks_from_settings (DEFAULT_SETTINGS w)))"
proof -
  have "get_socks (set_socks C s w) =
      (case get_socks_from_settings (OVERWRITE_SETTINGS w) of
         Some x \<Rightarrow> Some x
       | None \<Rightarrow> (case s of Some x \<Rightarrow> Some x | None \<Rightarrow> get_socks_from_settings (DEFAULT_SETTINGS w)))"
    by (cases s) (auto simp: set_socks_def get_socks_def get_socks_from_settings_def is_setting_def
        unwrap_or_default_def Let_def split: option.splits)
  then show ?thesis
    by (auto simp: is_proxy_def get_network_type_def get_socks_def get_socks_from_settings_def split: option.split)
qed

text \<open>
  The rendezvous server always comes with a port: the address chosen, the most specific one
  configured, contains a colon; the list of servers is never empty and has no empty entry, and
  every server but the built-in one is one the configuration names.
\<close>

theorem rendezvous_choice:
  "CHR '':'' \<in> set (get_rendezvous_server w) \<and> get_rendezvous_servers w \<noteq> [] \<and> [] \<notin> set (get_rendezvous_servers w)
   \<and> (EXE_RENDEZVOUS_SERVER w \<noteq> [] \<longrightarrow> get_rendezvous_servers w = [EXE_RENDEZVOUS_SERVER w]
        \<and> get_rendezvous_server w \<in> {EXE_RENDEZVOUS_SERVER w, EXE_RENDEZVOUS_SERVER w @ '':21116''})
   \<and> (rendezvous_server (CONFIG2 w) = [] \<longrightarrow> starts_with (get_rendezvous_server w) (hd (get_rendezvous_servers w)))"
proof (intro conjI impI)
  show "CHR '':'' \<in> set (get_rendezvous_server w)"
    by (simp add: get_rendezvous_server_def Let_def)
  show ne: "get_rendezvous_servers w \<noteq> []"
    by (simp add: get_rendezvous_servers_def Let_def)
  have "[] \<notin> set (filter (\<lambda>x. CHR ''.'' \<in> set x) xs)" for xs :: "string list"
    by (induction xs) auto
  then show "[] \<notin> set (get_rendezvous_servers w)"
    by (auto simp: get_rendezvous_servers_def Let_def split: if_splits)
  assume "rendezvous_server (CONFIG2 w) = []"
  with ne show "starts_with (get_rendezvous_server w) (hd (get_rendezvous_servers w))"
    by (simp add: get_rendezvous_server_def Let_def starts_with_def split: list.split)
      (simp add: get_rendezvous_servers_def)
qed (simp_all add: get_rendezvous_servers_def get_rendezvous_server_def Let_def)

theorem rendezvous_choice_witness:
  "starts_with (get_rendezvous_server demo_world) (hd (get_rendezvous_servers demo_world))
   \<and> rendezvous_server (CONFIG2 demo_world) = []"
  using rendezvous_choice [of demo_world] by (simp add: demo_world_def config2_default_def)

definition least_positive :: "(string \<times> int) list \<Rightarrow> string \<times> int \<Rightarrow> bool" where
  "least_positive hosts b \<longleftrightarrow>
     (if \<exists>p \<in> set hosts. 0 < snd p
      then b \<in> set hosts \<and> 0 < snd b \<and> (\<forall>p \<in> set hosts. 0 < snd p \<longrightarrow> snd b \<le> snd p)
      else b = ([], 2 ^ 63 - 1))"

lemma best_host_snoc:
  "best_host (xs @ [x]) = (if snd x > 0 \<and> snd x < snd (best_host xs) then x else best_host xs)"
  by (simp add: best_host_def case_prod_unfold)

text \<open>
  Among the hosts with a positive latency \<open>update_latency\<close> picks one with the least; without
  any, it keeps the stored server.
\<close>

theorem best_host_least:
  assumes "\<forall>p \<in> set hosts. snd p < 2 ^ 63 - 1"
  shows "least_positive hosts (best_host hosts)"
  using assms
proof (induction hosts rule: rev_induct)
  case (snoc x xs)
  then have "least_positive xs (best_host xs)" and "snd x < 2 ^ 63 - 1" by simp_all
  then show ?case
    unfolding best_host_snoc by (auto simp: least_positive_def split: if_splits)
qed (simp add: least_positive_def best_host_def)

theorem best_host_least_witness:
  "least_positive [(''a'', 30), (''b'', 0), (''c'', 12)] (''c'', 12)"
proof -
  have "best_host [(''a'', 30), (''b'', 0), (''c'', 12)] = (''c'', 12)" by (simp add: best_host_def)
  then show ?thesis using best_host_least [of "[(''a'', 30), (''b'', 0), (''c'', 12)]"] by simp
qed

end
