(* ===== verification/Regexp.thy ===== *)
theory Regexp
  imports Main
begin

text \<open>
  Regular expressions over bytes, for the patterns of \<open>hbb_common/src/lib.rs\<close>: a matcher by
  derivatives, its correctness with respect to the language of an expression, and counted
  repetition. Patterns are anchored at both ends; strings are ASCII, where the classes \<open>\d\<close> and
  \<open>\w\<close> are the ASCII ones.
\<close>

section \<open>Expressions and their languages\<close>

datatype rexp = RNone | REmpty | RClass "(nat \<times> nat) list" | RSeq rexp rexp | RAlt rexp rexp | RStar rexp

definition in_class :: "(nat \<times> nat) list \<Rightarrow> char \<Rightarrow> bool" where
  "in_class rs c \<longleftrightarrow> (\<exists>(lo, hi) \<in> set rs. lo \<le> of_char c \<and> of_char c \<le> hi)"

inductive in_lang :: "rexp \<Rightarrow> string \<Rightarrow> bool" where
  empty: "in_lang REmpty []"
| cls: "in_class rs c \<Longrightarrow> in_lang (RClass rs) [c]"
| seq: "in_lang a s \<Longrightarrow> in_lang b t \<Longrightarrow> in_lang (RSeq a b) (s @ t)"
| alt1: "in_lang a s \<Longrightarrow> in_lang (RAlt a b) s"
| alt2: "in_lang b s \<Longrightarrow> in_lang (RAlt a b) s"
| star_nil: "in_lang (RStar a) []"
| star_cons: "in_lang a s \<Longrightarrow> in_lang (RStar a) t \<Longrightarrow> in_lang (RStar a) (s @ t)"

inductive_cases in_lang_NoneE: "in_lang RNone s"
inductive_cases in_lang_EmptyE: "in_lang REmpty s"
inductive_cases in_lang_ClassE: "in_lang (RClass rs) s"
inductive_cases in_lang_SeqE: "in_lang (RSeq a b) s"
inductive_cases in_lang_AltE: "in_lang (RAlt a b) s"

lemma in_lang_simps [simp]:
  "\<not> in_lang RNone s"
  "in_lang REmpty s \<longleftrightarrow> s = []"
  "in_lang (RClass rs) s \<longleftrightarrow> (\<exists>c. s = [c] \<and> in_class rs c)"
  "in_lang (RAlt a b) s \<longleftrightarrow> in_lang a s \<or> in_lang b s"
  by (auto elim: in_lang_NoneE in_lang_EmptyE in_lang_ClassE in_lang_AltE intro: in_lang.intros)

lemma in_lang_seq: "in_lang (RSeq a b) s \<longleftrightarrow> (\<exists>x y. s = x @ y \<and> in_lang a x \<and> in_lang b y)"
  by (metis in_lang_SeqE in_lang.seq)

lemma in_lang_class_seq: "in_lang (RSeq (RClass rs) r) s \<longleftrightarrow> (\<exists>c t. s = c # t \<and> in_class rs c \<and> in_lang r t)"
proof
  assume "\<exists>c t. s = c # t \<and> in_class rs c \<and> in_lang r t"
  then obtain c t where "s = [c] @ t" "in_lang (RClass rs) [c]" "in_lang r t" by auto
  then show "in_lang (RSeq (RClass rs) r) s" unfolding in_lang_seq by blast
qed (auto simp: in_lang_seq)

section \<open>The matcher\<close>

fun nullable :: "rexp \<Rightarrow> bool" where
  "nullable RNone = False"
| "nullable REmpty = True"
| "nullable (RClass _) = False"
| "nullable (RSeq a b) = (nullable a \<and> nullable b)"
| "nullable (RAlt a b) = (nullable a \<or> nullable b)"
| "nullable (RStar _) = True"

fun deriv :: "char \<Rightarrow> rexp \<Rightarrow> rexp" where
  "deriv c RNone = RNone"
| "deriv c REmpty = RNone"
| "deriv c (RClass rs) = (if in_class rs c then REmpty else RNone)"
| "deriv c (RSeq a b) =
     (if nullable a then RAlt (RSeq (deriv c a) b) (deriv c b) else RSeq (deriv c a) b)"
| "deriv c (RAlt a b) = RAlt (deriv c a) (deriv c b)"
| "deriv c (RStar a) = RSeq (deriv c a) (RStar a)"

fun rmatch :: "rexp \<Rightarrow> string \<Rightarrow> bool" where
  "rmatch r [] = nullable r"
| "rmatch r (c # s) = rmatch (deriv c r) s"

lemma nullable_iff: "nullable r \<longleftrightarrow> in_lang r []"
  by (induction r) (auto simp: in_lang_seq intro: in_lang.star_nil)

lemma star_Cons: "in_lang (RStar a) s \<Longrightarrow> s = c # u \<Longrightarrow>
    \<exists>x y. u = x @ y \<and> in_lang a (c # x) \<and> in_lang (RStar a) y"
proof (induction "RStar a" s arbitrary: u rule: in_lang.induct)
  case (star_cons x y)
  then show ?case by (cases x) auto
qed simp

lemma deriv_iff: "in_lang (deriv c r) s \<longleftrightarrow> in_lang r (c # s)"
proof (induction r arbitrary: s)
  case (RSeq a b)
  then show ?case
    by (auto simp: in_lang_seq nullable_iff Cons_eq_append_conv)
next
  case (RStar a)
  show ?case
  proof
    assume "in_lang (deriv c (RStar a)) s"
    then obtain x y where "s = x @ y" "in_lang a (c # x)" "in_lang (RStar a) y"
      using RStar.IH by (auto simp: in_lang_seq)
    then show "in_lang (RStar a) (c # s)" using in_lang.star_cons [of a "c # x" y] by simp
  next
    assume "in_lang (RStar a) (c # s)"
    then obtain x y where "s = x @ y" "in_lang a (c # x)" "in_lang (RStar a) y" using star_Cons by blast
    then show "in_lang (deriv c (RStar a)) s" using RStar.IH by (auto simp: in_lang_seq)
  qed
qed auto

theorem rmatch_iff: "rmatch r s \<longleftrightarrow> in_lang r s"
  by (induction s arbitrary: r) (simp_all add: nullable_iff deriv_iff)

section \<open>Derived forms\<close>

definition ropt :: "rexp \<Rightarrow> rexp" where
  "ropt r = RAlt r REmpty"

definition rplus :: "rexp \<Rightarrow> rexp" where
  "rplus r = RSeq r (RStar r)"

fun rtimes :: "nat \<Rightarrow> rexp \<Rightarrow> rexp" where
  "rtimes 0 r = REmpty"
| "rtimes (Suc n) r = RSeq r (rtimes n r)"

fun rupto :: "nat \<Rightarrow> rexp \<Rightarrow> rexp" where
  "rupto 0 r = REmpty"
| "rupto (Suc n) r = RAlt (RSeq r (rupto n r)) REmpty"

text \<open>\<open>r{lo,hi}\<close>\<close>

definition rrange :: "nat \<Rightarrow> nat \<Rightarrow> rexp \<Rightarrow> rexp" where
  "rrange lo hi r = RSeq (rtimes lo r) (rupto (hi - lo) r)"

definition rchar :: "char \<Rightarrow> rexp" where
  "rchar c = RClass [(of_char c, of_char c)]"

fun rseq :: "rexp list \<Rightarrow> rexp" where
  "rseq [] = REmpty"
| "rseq (r # rs) = RSeq r (rseq rs)"

lemma in_lang_rchar [simp]: "in_lang (rchar c) s \<longleftrightarrow> s = [c]"
  by (auto simp: rchar_def in_class_def)

lemma in_lang_rtimes_class:
  "in_lang (rtimes n (RClass rs)) s \<longleftrightarrow> length s = n \<and> list_all (in_class rs) s"
proof (induction n arbitrary: s)
  case (Suc n)
  then show ?case by (cases s) (auto simp: in_lang_class_seq)
qed auto

lemma in_lang_rupto_class:
  "in_lang (rupto n (RClass rs)) s \<longleftrightarrow> length s \<le> n \<and> list_all (in_class rs) s"
proof (induction n arbitrary: s)
  case (Suc n)
  then show ?case by (cases s) (auto simp: in_lang_class_seq)
qed auto

lemma in_lang_rrange_class:
  assumes "lo \<le> hi"
  shows "in_lang (rrange lo hi (RClass rs)) s \<longleftrightarrow> lo \<le> length s \<and> length s \<le> hi \<and> list_all (in_class rs) s"
proof
  assume "in_lang (rrange lo hi (RClass rs)) s"
  with assms show "lo \<le> length s \<and> length s \<le> hi \<and> list_all (in_class rs) s"
    by (auto simp: rrange_def in_lang_seq in_lang_rtimes_class in_lang_rupto_class)
next
  assume r: "lo \<le> length s \<and> length s \<le> hi \<and> list_all (in_class rs) s"
  then have "list_all (in_class rs) (take lo s)" "list_all (in_class rs) (drop lo s)"
    by (auto simp: list_all_iff dest: in_set_takeD in_set_dropD)
  with r show "in_lang (rrange lo hi (RClass rs)) s"
    unfolding rrange_def in_lang_seq in_lang_rtimes_class in_lang_rupto_class
    using append_take_drop_id [of lo s] by (metis diff_le_mono length_drop length_take min.absorb2)
qed

text \<open>The characters a word of the language can contain.\<close>

fun rchars :: "rexp \<Rightarrow> char \<Rightarrow> bool" where
  "rchars RNone c = False"
| "rchars REmpty c = False"
| "rchars (RClass rs) c = in_class rs c"
| "rchars (RSeq a b) c = (rchars a c \<or> rchars b c)"
| "rchars (RAlt a b) c = (rchars a c \<or> rchars b c)"
| "rchars (RStar a) c = rchars a c"

lemma in_lang_chars: "in_lang r s \<Longrightarrow> c \<in> set s \<Longrightarrow> rchars r c"
  by (induction rule: in_lang.induct) auto

lemma in_lang_star_class: "list_all (in_class rs) s \<Longrightarrow> in_lang (RStar (RClass rs)) s"
proof (induction s)
  case (Cons c s)
  then show ?case using in_lang.star_cons [of "RClass rs" "[c]" s] by simp
qed (simp add: in_lang.star_nil)

lemma in_lang_plus_class: "s \<noteq> [] \<Longrightarrow> list_all (in_class rs) s \<Longrightarrow> in_lang (rplus (RClass rs)) s"
  by (cases s) (auto simp: rplus_def in_lang_class_seq in_lang_star_class)

end
