(* ===== verification/Host_Version.thy ===== *)
theory Host_Version
  imports Rust_Strings Regexp
begin

text \<open>
  Host names, ports, ids and version numbers: the string functions of \<open>hbb_common/src/lib.rs\<close>
  and \<open>hbb_common/src/socket_client.rs\<close>, and the colour and permission helpers of
  \<open>src/common.rs\<close>. Strings are ASCII here.
\<close>

section \<open>Address patterns\<close>

definition r_digit :: rexp where "r_digit = RClass [(48, 57)]"
definition r_hex :: rexp where "r_hex = RClass [(97, 102), (65, 70), (48, 57)]"

text \<open>\<open>25[0-5]|2[0-4][0-9]|[01]?[0-9][0-9]?\<close>\<close>

definition r_octet :: rexp where
  "r_octet = RAlt (rseq [rchar CHR ''2'', rchar CHR ''5'', RClass [(48, 53)]])
     (RAlt (rseq [rchar CHR ''2'', RClass [(48, 52)], r_digit])
       (rseq [ropt (RClass [(48, 49)]), r_digit, ropt r_digit]))"

definition is_ipv4_str :: "string \<Rightarrow> bool" where
  "is_ipv4_str s = rmatch (rseq [r_octet, rchar CHR ''.'', r_octet, rchar CHR ''.'', r_octet,
     rchar CHR ''.'', r_octet, ropt (rseq [rchar CHR '':'', rplus r_digit])]) s"

text \<open>\<open>([a-fA-F0-9]{1,4}:{1,2})+[a-fA-F0-9]{1,4}\<close>\<close>

definition r_ipv6 :: rexp where
  "r_ipv6 = RSeq (rplus (RSeq (rrange 1 4 r_hex) (rrange 1 2 (rchar CHR '':'')))) (rrange 1 4 r_hex)"

definition r_ipv6_port :: rexp where
  "r_ipv6_port = rseq [rchar CHR ''['', r_ipv6, rchar CHR '']'', rchar CHR '':'', rplus r_digit]"

definition is_ipv6_str :: "string \<Rightarrow> bool" where
  "is_ipv6_str s = rmatch (RAlt r_ipv6 r_ipv6_port) s"

definition is_ip_str :: "string \<Rightarrow> bool" where
  "is_ip_str s \<longleftrightarrow> is_ipv4_str s \<or> is_ipv6_str s"

text \<open>\<open>(?i)^([a-z0-9]([a-z0-9-]{0,61}[a-z0-9])?\.)+[a-z][a-z-]{0,61}[a-z]:\d{1,5}$\<close>\<close>

definition is_domain_port_str :: "string \<Rightarrow> bool" where
  "is_domain_port_str s =
     (let alpha = RClass [(97, 122), (65, 90)];
          alnum = RClass [(97, 122), (65, 90), (48, 57)];
          alnum_dash = RClass [(97, 122), (65, 90), (48, 57), (45, 45)];
          alpha_dash = RClass [(97, 122), (65, 90), (45, 45)]
      in rmatch (rseq [rplus (rseq [alnum, ropt (rseq [rrange 0 61 alnum_dash, alnum]), rchar CHR ''.'']),
           alpha, rrange 0 61 alpha_dash, alpha, rchar CHR '':'', rrange 1 5 r_digit]) s)"

text \<open>\<open>^[a-zA-Z][\w-]{5,15}$\<close>\<close>

definition is_valid_custom_id :: "string \<Rightarrow> bool" where
  "is_valid_custom_id s =
     rmatch (RSeq (RClass [(97, 122), (65, 90)])
       (rrange 5 15 (RClass [(97, 122), (65, 90), (48, 57), (95, 95), (45, 45)]))) s"

section \<open>Hosts and ports\<close>

definition show_int :: "int \<Rightarrow> string" where
  "show_int i = (if i < 0 then CHR ''-'' # show_nat (nat (- i)) else show_nat (nat i))"

text \<open>\<open>s.split("]:")\<close>\<close>

fun split_bracket :: "string \<Rightarrow> string list" where
  "split_bracket [] = [[]]"
| "split_bracket [x] = [[x]]"
| "split_bracket (x # y # r) =
     (if x = CHR '']'' \<and> y = CHR '':'' then [] # split_bracket r
      else case split_bracket (y # r) of p # ps \<Rightarrow> (x # p) # ps | [] \<Rightarrow> [[x]])"

definition check_port :: "string \<Rightarrow> int \<Rightarrow> string" where
  "check_port host port =
     (if is_ipv6_str host then
        (if starts_with host ''['' then host else ''['' @ host @ '']:'' @ show_int port)
      else if CHR '':'' \<notin> set host then host @ '':'' @ show_int port
      else host)"

text \<open>The port of the pieces of a split, if there are two and the port is positive.\<close>

definition port_of :: "string list \<Rightarrow> (string \<times> int) option" where
  "port_of tmp =
     (case tmp of
        [a, b] \<Rightarrow>
          (let port = (case parse_signed (2 ^ 31) b of Some p \<Rightarrow> p | None \<Rightarrow> 0)
           in if port > 0 then Some (a, port) else None)
      | _ \<Rightarrow> None)"

text \<open>The sum of ports is an \<open>i32\<close>, which wraps in release builds.\<close>

definition i32_add :: "int \<Rightarrow> int \<Rightarrow> int" where
  "i32_add a b = (a + b + 2 ^ 31) mod 2 ^ 32 - 2 ^ 31"

definition increase_port :: "string \<Rightarrow> int \<Rightarrow> string" where
  "increase_port host offset =
     (if is_ipv6_str host then
        (if starts_with host ''['' then
           (case port_of (split_bracket host) of
              Some (a, port) \<Rightarrow> a @ '']:'' @ show_int (i32_add port offset)
            | None \<Rightarrow> host)
         else host)
      else if CHR '':'' \<in> set host then
        (case port_of (split_on CHR '':'' host) of
           Some (a, port) \<Rightarrow> a @ '':'' @ show_int (i32_add port offset)
         | None \<Rightarrow> host)
      else host)"

definition split_host_port :: "string \<Rightarrow> (string \<times> int) option" where
  "split_host_port host =
     (if is_ipv6_str host then
        (if starts_with host ''['' then
           map_option (\<lambda>(a, port). (a @ '']'', port)) (port_of (split_bracket host))
         else None)
      else if CHR '':'' \<in> set host then port_of (split_on CHR '':'' host)
      else None)"

section \<open>Versions\<close>

definition parse_i64_or_0 :: "string \<Rightarrow> int" where
  "parse_i64_or_0 s = (case parse_signed (2 ^ 63) s of Some n \<Rightarrow> n | None \<Rightarrow> 0)"

text \<open>\<open>i64\<close> arithmetic of release builds.\<close>

definition i64 :: "int \<Rightarrow> int" where
  "i64 x = (x + 2 ^ 63) mod 2 ^ 64 - 2 ^ 63"

definition get_version_number :: "string \<Rightarrow> int" where
  "get_version_number v =
     (let versions = split_on CHR ''-'' v;
          (n, last) = (case versions of
            [] \<Rightarrow> (0, 0)
          | v # _ \<Rightarrow> fold (\<lambda>x (n, _). let last = parse_i64_or_0 x in (i64 (i64 (n * 1000) + last), last))
              (split_on CHR ''.'' v) (0, 0));
          n = i64 (i64 (n - last) + i64 (last * 10))
      in case versions of _ # w # _ \<Rightarrow> i64 (n + parse_i64_or_0 w) | _ \<Rightarrow> n)"

definition is_support_remote_print :: "string \<Rightarrow> bool" where
  "is_support_remote_print ver \<longleftrightarrow> get_version_number ver \<ge> get_version_number ''1.3.9''"

definition is_support_file_paste_if_macos :: "string \<Rightarrow> bool" where
  "is_support_file_paste_if_macos ver \<longleftrightarrow> get_version_number ver \<ge> get_version_number ''1.3.9''"

text \<open>The position of a character from the end.\<close>

fun position :: "char \<Rightarrow> string \<Rightarrow> nat option" where
  "position c [] = None"
| "position c (x # xs) = (if x = c then Some 0 else map_option Suc (position c xs))"

definition get_version_from_url :: "string \<Rightarrow> string" where
  "get_version_from_url url =
     (let n = length url in
      case position CHR ''-'' (rev url) of
        None \<Rightarrow> []
      | Some a \<Rightarrow>
          (case position CHR ''.'' (rev url) of
             None \<Rightarrow> []
           | Some b \<Rightarrow>
               if a > b then
                 (if parse_signed (2 ^ 31) (drop (n - b) url) \<noteq> None then drop (n - a) url
                  else take (a - b - 1) (drop (n - a) url))
               else drop (n - a) url))"

section \<open>Small helpers\<close>

definition time_based_rand :: "nat \<Rightarrow> u32" where
  "time_based_rand nanos =
     (let x = word_of_nat nanos :: u64;
          x = x XOR push_bit 13 x;
          x = x XOR drop_bit 7 x;
          x = x XOR push_bit 17 x
      in ucast (x mod 32768))"

definition str2color :: "string \<Rightarrow> u8 \<Rightarrow> u32" where
  "str2color s alpha =
     (let hash = foldl (\<lambda>hash byte. ucast byte + (push_bit 5 hash - hash)) (0 :: u32) (as_bytes s);
          hash = hash mod 16777216;
          rgb = hash AND 0xFF7FFF
      in push_bit 24 (ucast alpha) OR rgb)"

section \<open>Splitting and joining host and port\<close>

definition ipv6_char :: "char \<Rightarrow> bool" where
  "ipv6_char c \<longleftrightarrow> in_class [(97, 102), (65, 70), (48, 57)] c \<or> c = CHR '':''"

lemma rchars_rchar [simp]: "rchars (rchar d) c \<longleftrightarrow> c = d"
  by (auto simp: rchar_def in_class_def)

lemma ipv6_chars:
  "rchars r_ipv6 c \<Longrightarrow> ipv6_char c"
  "rchars r_ipv6_port c \<Longrightarrow> ipv6_char c \<or> c = CHR ''['' \<or> c = CHR '']''"
proof -
  have six: "rchars r_ipv6 c \<Longrightarrow> ipv6_char c" for c
    by (auto simp: r_ipv6_def rplus_def rrange_def r_hex_def ipv6_char_def numeral_eq_Suc)
  then show "rchars r_ipv6 c \<Longrightarrow> ipv6_char c" .
  show "rchars r_ipv6_port c \<Longrightarrow> ipv6_char c \<or> c = CHR ''['' \<or> c = CHR '']''"
    using six [of c]
    by (auto simp: r_ipv6_port_def rplus_def r_digit_def ipv6_char_def in_class_def)
qed

lemma is_ipv6_chars: "is_ipv6_str s \<Longrightarrow> c \<in> set s \<Longrightarrow> ipv6_char c \<or> c = CHR ''['' \<or> c = CHR '']''"
  unfolding is_ipv6_str_def rmatch_iff
  using in_lang_chars [of r_ipv6 s c] in_lang_chars [of r_ipv6_port s c] ipv6_chars by auto

lemma parse_signed_show: "0 < p \<Longrightarrow> p < 2 ^ 31 \<Longrightarrow> parse_signed (2 ^ 31) (show_int p) = Some p"
proof -
  assume p: "0 < p" "p < 2 ^ 31"
  have "hd (show_nat (nat p)) \<noteq> CHR ''-''"
    using show_nat_digits [of "nat p"] by (cases "show_nat (nat p)") (auto simp: is_digit_def)
  with p parse_show_nat [of "nat p" "2 ^ 31"] show ?thesis
    by (simp add: parse_signed_def show_int_def)
qed

lemma port_of_two: "0 < p \<Longrightarrow> p < 2 ^ 31 \<Longrightarrow> port_of [a, show_int p] = Some (a, p)"
  using parse_signed_show [of p] by (simp add: port_of_def)

lemma show_int_no_sep: "0 < p \<Longrightarrow> c \<in> set (show_int p) \<Longrightarrow> is_digit c"
  using show_nat_digits [of "nat p"] by (auto simp: show_int_def list_all_iff)

lemma show_int_seps: "0 < p \<Longrightarrow> CHR '']'' \<notin> set (show_int p) \<and> CHR '':'' \<notin> set (show_int p)"
  using show_int_no_sep [of p "CHR '']''"] show_int_no_sep [of p "CHR '':''"] by (auto simp: is_digit_def)

lemma split_on_absent: "c \<notin> set s \<Longrightarrow> split_on c s = [s]"
  by (induction s) auto

lemma split_bracket_absent: "CHR '']'' \<notin> set s \<Longrightarrow> split_bracket s = [s]"
  by (induction s rule: split_bracket.induct) auto

lemma split_bracket_piece:
  "CHR '']'' \<notin> set x \<Longrightarrow> split_bracket (x @ '']:'' @ r) = x # split_bracket r"
proof (induction x)
  case (Cons a x)
  then obtain b y where "x @ '']:'' @ r = b # y" and "split_bracket (x @ '']:'' @ r) = x # split_bracket r"
    by (cases x) auto
  with Cons.prems show ?case by auto
qed simp

lemma ipv6_literal_port:
  assumes "is_ipv6_str h" and "\<not> starts_with h ''[''" and "0 < p"
  shows "is_ipv6_str (''['' @ h @ '']:'' @ show_int p)" and "CHR '']'' \<notin> set h"
proof -
  have "\<not> in_lang r_ipv6_port h"
    using assms(2) by (auto simp: r_ipv6_port_def in_lang_seq starts_with_def)
  with assms(1) have h: "in_lang r_ipv6 h" by (simp add: is_ipv6_str_def rmatch_iff)
  have "in_lang (rplus r_digit) (show_int p)"
    unfolding r_digit_def using assms(3) show_int_no_sep [OF assms(3)]
    by (intro in_lang_plus_class) (auto simp: show_int_def list_all_iff in_class_def is_digit_def)
  then have "in_lang r_ipv6_port ([CHR ''[''] @ h @ [CHR '']''] @ [CHR '':''] @ show_int p @ [])"
    unfolding r_ipv6_port_def rseq.simps
    by (intro in_lang.seq h) (simp_all add: in_lang.empty)
  then show "is_ipv6_str (''['' @ h @ '']:'' @ show_int p)"
    by (simp add: is_ipv6_str_def rmatch_iff)
  show "CHR '']'' \<notin> set h"
    using in_lang_chars [OF h] ipv6_chars(1) by (fastforce simp: ipv6_char_def in_class_def)
qed

text \<open>
  A port added to a host is found again: for a host name without a colon that has a character
  no IPv6 address can have, and for every bare IPv6 literal, which is put into brackets, adding a
  port and splitting gives back the host and the port; and increasing the port changes just it.
\<close>

theorem host_port_roundtrip:
  assumes "0 < p" and "p < 2 ^ 31" and "0 < p + d" and "p + d < 2 ^ 31"
    and "if is_ipv6_str h then \<not> starts_with h ''[''
         else CHR '':'' \<notin> set h \<and> (\<exists>c \<in> set h. \<not> ipv6_char c \<and> c \<noteq> CHR ''['' \<and> c \<noteq> CHR '']'')"
  shows "split_host_port (check_port h p) = Some (if is_ipv6_str h then ''['' @ h @ '']'' else h, p)
    \<and> increase_port (check_port h p) d = check_port h (p + d)"
proof -
  have add: "i32_add p d = p + d" using assms by (simp add: i32_add_def)
  show ?thesis
  proof (cases "is_ipv6_str h")
    case True
    with assms(5) have nb: "\<not> starts_with h ''[''" by simp
    have ck: "check_port h q = ''['' @ h @ '']:'' @ show_int q" for q
      using True nb by (simp add: check_port_def)
    note lit = ipv6_literal_port [OF True nb assms(1)]
    have "CHR '']'' \<notin> set (show_int p)" using show_int_seps [OF assms(1)] by simp
    with lit(2) have "split_bracket (''['' @ h @ '']:'' @ show_int p) = [''['' @ h, show_int p]"
      using split_bracket_piece [of "''['' @ h" "show_int p"] by (simp add: split_bracket_absent)
    with True lit(1) assms(1,2) add show ?thesis
      by (simp add: ck split_host_port_def increase_port_def port_of_two starts_with_def)
  next
    case False
    with assms(5) obtain c where c: "c \<in> set h" "\<not> ipv6_char c" "c \<noteq> CHR ''[''" "c \<noteq> CHR '']''"
      and nocolon: "CHR '':'' \<notin> set h" by auto
    have ck: "check_port h q = h @ '':'' @ show_int q" for q using False nocolon by (simp add: check_port_def)
    have "\<not> is_ipv6_str (h @ '':'' @ show_int p)"
      using c is_ipv6_chars [of "h @ '':'' @ show_int p" c] by auto
    moreover have "CHR '':'' \<notin> set (show_int p)" using show_int_seps [OF assms(1)] by simp
    then have "split_on CHR '':'' (h @ '':'' @ show_int p) = [h, show_int p]"
      using split_on_piece [OF nocolon, of "show_int p"] by (simp add: split_on_absent)
    ultimately show ?thesis
      using False assms(1,2) add by (simp add: ck split_host_port_def increase_port_def port_of_two)
  qed
qed

theorem host_port_roundtrip_witness:
  "split_host_port (check_port ''example.com'' 21116) = Some (''example.com'', 21116)"
proof -
  have "\<not> is_ipv6_str ''example.com''"
    using is_ipv6_chars [of "''example.com''" "CHR ''x''"] by (auto simp: ipv6_char_def in_class_def)
  then show ?thesis
    using host_port_roundtrip [of 21116 1 "''example.com''"]
    by (auto simp: ipv6_char_def in_class_def)
qed

lemma is_ipv6_colon: "is_ipv6_str s \<Longrightarrow> CHR '':'' \<in> set s"
proof -
  have one: "in_lang (RSeq (rrange 1 4 r_hex) (rrange 1 2 (rchar CHR '':''))) x \<Longrightarrow> CHR '':'' \<in> set x" for x
  proof -
    have "in_class [(of_char c, of_char c)] d \<longleftrightarrow> d = c" for c d
      by (auto simp: in_class_def)
    then have "in_lang (rrange 1 2 (rchar c)) y \<Longrightarrow> c \<in> set y" for c y
      by (cases y) (auto simp: rchar_def in_lang_rrange_class simp del: One_nat_def)
    then show "in_lang (RSeq (rrange 1 4 r_hex) (rrange 1 2 (rchar CHR '':''))) x \<Longrightarrow> ?thesis"
      by (auto simp: in_lang_seq simp del: One_nat_def)
  qed
  have "in_lang r_ipv6 x \<Longrightarrow> CHR '':'' \<in> set x" for x
  proof -
    assume "in_lang r_ipv6 x"
    then obtain u v w where "x = (u @ v) @ w" and "in_lang (RSeq (rrange 1 4 r_hex) (rrange 1 2 (rchar CHR '':''))) u"
      unfolding r_ipv6_def rplus_def by (elim in_lang_SeqE [of "RSeq _ (RStar _)"] in_lang_SeqE [of _ "RStar _"]) blast
    with one show ?thesis by auto
  qed
  moreover have "in_lang r_ipv6_port x \<Longrightarrow> CHR '':'' \<in> set x" for x
    by (auto simp: r_ipv6_port_def in_lang_seq)
  ultimately show "is_ipv6_str s \<Longrightarrow> ?thesis" by (auto simp: is_ipv6_str_def rmatch_iff)
qed

lemma cafe_is_ipv6: "is_ipv6_str ''cafe:80''"
proof -
  have hex: "in_lang (rrange 1 4 r_hex) ''cafe''" "in_lang (rrange 1 4 r_hex) ''80''"
    by (simp_all add: r_hex_def in_lang_rrange_class in_class_def)
  have "in_lang (rrange 1 2 (rchar CHR '':'')) '':''"
    by (simp add: rchar_def in_lang_rrange_class in_class_def)
  with hex(1) have "in_lang (RSeq (rrange 1 4 r_hex) (rrange 1 2 (rchar CHR '':''))) (''cafe'' @ '':'')"
    by (rule in_lang.seq)
  from in_lang.seq [OF in_lang.seq [OF this in_lang.star_nil] hex(2)]
  show ?thesis by (simp add: is_ipv6_str_def rmatch_iff r_ipv6_def rplus_def)
qed

text \<open>
  A short host name of hexadecimal letters with a port of at most four digits is taken for an
  IPv6 address: its port is neither found nor increased, and a second port is appended to it.
\<close>

theorem hex_host_is_ipv6:
  "is_ipv6_str ''cafe:80'' \<and> check_port ''cafe'' 80 = ''cafe:80'' \<and> split_host_port ''cafe:80'' = None
   \<and> increase_port ''cafe:80'' 1 = ''cafe:80'' \<and> check_port ''cafe:80'' 21 = ''[cafe:80]:21''"
proof -
  have six: "is_ipv6_str ''cafe:80''" by (rule cafe_is_ipv6)
  have "\<not> is_ipv6_str ''cafe''" using is_ipv6_colon by fastforce
  moreover have "show_int 80 = ''80''" and "show_int 21 = ''21''" by code_simp+
  ultimately show ?thesis
    using six by (simp add: check_port_def split_host_port_def increase_port_def starts_with_def)
qed

section \<open>Version numbers and ids\<close>

definition version_text :: "nat \<Rightarrow> nat \<Rightarrow> nat \<Rightarrow> string" where
  "version_text a b c = show_nat a @ ''.'' @ show_nat b @ ''.'' @ show_nat c"

lemma show_nat_no: "\<not> is_digit x \<Longrightarrow> x \<notin> set (show_nat n)"
  using show_nat_digits [of n] by (auto simp: list_all_iff)

lemma parse_i64_show: "n < 2 ^ 63 \<Longrightarrow> parse_i64_or_0 (show_nat n) = int n"
proof -
  assume n: "n < 2 ^ 63"
  have "hd (show_nat n) \<noteq> CHR ''-''"
    using show_nat_digits [of n] by (cases "show_nat n") (auto simp: is_digit_def)
  with parse_show_nat [OF n] show ?thesis
    by (simp add: parse_i64_or_0_def parse_signed_def)
qed

lemma i64_id: "0 \<le> x \<Longrightarrow> x < 2 ^ 63 \<Longrightarrow> i64 x = x"
  by (simp add: i64_def)

lemma get_version_number_text:
  assumes "a < 1000" and "b < 1000" and "c < 1000"
  shows "get_version_number (version_text a b c) = int (a * 1000000 + b * 1000 + c * 10)"
proof -
  have dots: "CHR ''.'' \<notin> set (show_nat n)" and dash: "CHR ''-'' \<notin> set (show_nat n)" for n
    by (simp_all add: show_nat_no is_digit_def)
  have "split_on CHR ''-'' (version_text a b c) = [version_text a b c]"
    by (rule split_on_absent) (simp add: version_text_def dash)
  moreover have "split_on CHR ''.'' (version_text a b c) = [show_nat a, show_nat b, show_nat c]"
    using split_on_piece [OF dots, of a "show_nat b @ ''.'' @ show_nat c"]
      split_on_piece [OF dots, of b "show_nat c"] split_on_absent [OF dots, of c]
    by (simp add: version_text_def)
  moreover have "parse_i64_or_0 (show_nat n) = int n" if "n < 1000" for n
    using that by (intro parse_i64_show) simp
  ultimately show ?thesis
    using assms by (simp add: get_version_number_def i64_id Let_def)
qed

text \<open>
  Version numbers are ordered as versions: for major, minor and patch numbers below 1000, 1000
  and 100, \<open>get_version_number\<close> of one text is at most that of another exactly when the first
  version is lexicographically at most the second.
\<close>

theorem version_order:
  assumes "a < 1000" and "b < 1000" and "c < 100" and "a' < 1000" and "b' < 1000" and "c' < 100"
  shows "get_version_number (version_text a b c) \<le> get_version_number (version_text a' b' c')
    \<longleftrightarrow> a < a' \<or> a = a' \<and> (b < b' \<or> b = b' \<and> c \<le> c')"
  using assms by (simp add: get_version_number_text) arith

theorem version_order_witness:
  "get_version_number (version_text 1 1 10) \<le> get_version_number (version_text 1 2 0)"
  using version_order [of 1 1 10 1 2 0] by simp

text \<open>
  A custom id is valid exactly when it has 6 to 16 characters, begins with a letter and
  continues with letters, digits, underscores and dashes.
\<close>

theorem valid_custom_id:
  "is_valid_custom_id s \<longleftrightarrow>
     6 \<le> length s \<and> length s \<le> 16 \<and> in_class [(97, 122), (65, 90)] (hd s)
     \<and> list_all (in_class [(97, 122), (65, 90), (48, 57), (95, 95), (45, 45)]) (tl s)"
proof (cases s)
  case Nil
  then show ?thesis by (simp add: is_valid_custom_id_def rmatch_iff in_lang_class_seq)
next
  case (Cons c t)
  then show ?thesis
    by (auto simp: is_valid_custom_id_def rmatch_iff in_lang_class_seq in_lang_rrange_class)
qed


end
