(* ===== verification/Sessions.thy ===== *)
theory Sessions
  imports Config Host_Version
begin

text \<open>
  The session bookkeeping of \<open>src/server/connection.rs\<close> (module \<open>raii\<close>): which connections are
  alive and authorized, the sessions that spare a reconnecting peer a second login, and the
  control permissions the rendezvous server sends with a connection.
\<close>

section \<open>Control permissions\<close>

datatype permission = PKeyboard | PRemotePrinter | PClipboard | PFile | PAudio | PCamera | PTerminal
  | PTunnel | PRestart | PRecording | PBlockInput | PRemoteModify

fun permission_value :: "permission \<Rightarrow> nat" where
  "permission_value PKeyboard = 0"
| "permission_value PRemotePrinter = 1"
| "permission_value PClipboard = 2"
| "permission_value PFile = 3"
| "permission_value PAudio = 4"
| "permission_value PCamera = 5"
| "permission_value PTerminal = 6"
| "permission_value PTunnel = 7"
| "permission_value PRestart = 8"
| "permission_value PRecording = 9"
| "permission_value PBlockInput = 10"
| "permission_value PRemoteModify = 11"

definition get_control_permission :: "u64 \<Rightarrow> permission \<Rightarrow> bool option" where
  "get_control_permission permissions p =
     (let index = permission_value p in
      if index < 32 then
        let v = drop_bit (index * 2) permissions AND 3
        in if v = 1 then Some False else if v = 2 then Some True else None
      else None)"

definition get_control_permission_state :: "(int \<times> u64) list \<Rightarrow> permission \<Rightarrow> bool \<Rightarrow> bool option" where
  "get_control_permission_state array p disable_if_has_disabled =
     (let (has_enable, has_disable) =
        fold (\<lambda>(_, cp) (en, dis).
          case get_control_permission cp p of
            Some False \<Rightarrow> (en, True)
          | Some True \<Rightarrow> (True, dis)
          | None \<Rightarrow> (en, dis)) array (False, False)
      in if disable_if_has_disabled then
           (if has_disable then Some False else if has_enable then Some True else None)
         else
           (if has_enable then Some True else if has_disable then Some False else None))"

definition is_permission_enabled_locally :: "string \<Rightarrow> world \<Rightarrow> bool" where
  "is_permission_enabled_locally opt w =
     (let access_mode = config_get_option ''access-mode'' w in
      if access_mode = ''full'' then True
      else if access_mode = ''view'' then False
      else option2bool opt (config_get_option opt w))"

definition option_permission :: "string \<Rightarrow> permission option" where
  "option_permission opt =
     map_of [(''enable-keyboard'', PKeyboard), (''enable-remote-printer'', PRemotePrinter),
       (''enable-clipboard'', PClipboard), (''enable-file-transfer'', PFile), (''enable-audio'', PAudio),
       (''enable-camera'', PCamera), (''enable-terminal'', PTerminal), (''enable-tunnel'', PTunnel),
       (''enable-remote-restart'', PRestart), (''enable-record-session'', PRecording),
       (''enable-block-input'', PBlockInput)] opt"

definition permission_enabled :: "string \<Rightarrow> u64 option \<Rightarrow> world \<Rightarrow> bool" where
  "permission_enabled opt control_permissions w =
     (let fallback = is_permission_enabled_locally opt w in
      case control_permissions of
        None \<Rightarrow> fallback
      | Some cp \<Rightarrow>
          (case option_permission opt of
             None \<Rightarrow> fallback
           | Some p \<Rightarrow> (case get_control_permission cp p of Some enabled \<Rightarrow> enabled | None \<Rightarrow> fallback)))"

section \<open>Sessions and authorized connections\<close>

datatype auth_conn_type = ConnRemote | ConnFileTransfer | ConnPortForward | ConnViewCamera | ConnTerminal

record session_key =
  peer_id :: string
  peer_name :: string
  session_id :: u64

record session =
  last_recv_time :: int
  random_password :: string
  tfa :: bool

record authed_conn =
  ac_conn_id :: int
  ac_conn_type :: auth_conn_type
  ac_session_key :: session_key
  ac_printer :: bool

record tables =
  SESSIONS :: "(session_key, session) fmap"
  ALIVE_CONNS :: "int list"
  AUTHED_CONNS :: "authed_conn list"
  CONTROL_PERMISSIONS_ARRAY :: "(int \<times> u64) list"
  WAKELOCK :: "(nat \<times> nat) list"

definition connection_id_new :: "int \<Rightarrow> tables \<Rightarrow> tables" where
  "connection_id_new i t = t\<lparr>ALIVE_CONNS := ALIVE_CONNS t @ [i]\<rparr>"

definition connection_id_drop :: "int \<Rightarrow> tables \<Rightarrow> tables" where
  "connection_id_drop i t = t\<lparr>ALIVE_CONNS := filter (\<lambda>c. c \<noteq> i) (ALIVE_CONNS t)\<rparr>"

definition control_permissions_id_new :: "int \<Rightarrow> u64 option \<Rightarrow> tables \<Rightarrow> tables" where
  "control_permissions_id_new i cp t =
     (case cp of
        Some s \<Rightarrow> t\<lparr>CONTROL_PERMISSIONS_ARRAY := CONTROL_PERMISSIONS_ARRAY t @ [(i, s)]\<rparr>
      | None \<Rightarrow> t)"

definition control_permissions_id_drop :: "int \<Rightarrow> u64 option \<Rightarrow> tables \<Rightarrow> tables" where
  "control_permissions_id_drop i cp t =
     (if cp \<noteq> None
      then t\<lparr>CONTROL_PERMISSIONS_ARRAY := filter (\<lambda>(c, _). c \<noteq> i) (CONTROL_PERMISSIONS_ARRAY t)\<rparr>
      else t)"

text \<open>The wake lock thread is told the numbers of connections and of remote controls.\<close>

definition check_wake_lock :: "tables \<Rightarrow> tables" where
  "check_wake_lock t =
     t\<lparr>WAKELOCK := WAKELOCK t @ [(length (AUTHED_CONNS t),
         length (filter (\<lambda>c. ac_conn_type c = ConnRemote) (AUTHED_CONNS t)))]\<rparr>"

definition authed_conn_id_new ::
    "int \<Rightarrow> auth_conn_type \<Rightarrow> session_key \<Rightarrow> string \<Rightarrow> string \<Rightarrow> tables \<Rightarrow> tables" where
  "authed_conn_id_new i ty key version platform t =
     check_wake_lock (t\<lparr>AUTHED_CONNS := AUTHED_CONNS t @ [\<lparr>ac_conn_id = i, ac_conn_type = ty,
        ac_session_key = key,
        ac_printer = (ty = ConnRemote \<and> is_support_remote_print version \<and> platform = ''Windows'')\<rparr>]\<rparr>)"

definition authed_conn_id_drop :: "int \<Rightarrow> tables \<Rightarrow> tables" where
  "authed_conn_id_drop i t =
     check_wake_lock (t\<lparr>AUTHED_CONNS := filter (\<lambda>c. ac_conn_id c \<noteq> i) (AUTHED_CONNS t)\<rparr>)"

definition non_port_forward_conn_count :: "tables \<Rightarrow> nat" where
  "non_port_forward_conn_count t =
     length (filter (\<lambda>c. ac_conn_type c \<noteq> ConnPortForward) (AUTHED_CONNS t))"

definition check_remove_session :: "int \<Rightarrow> session_key \<Rightarrow> tables \<Rightarrow> tables" where
  "check_remove_session i key t =
     (if fmlookup (SESSIONS t) key \<noteq> None then
        let is_remote = (\<exists>c \<in> set (AUTHED_CONNS t). ac_conn_id c = i \<and> ac_conn_type c = ConnRemote);
            another_remote = (\<exists>c \<in> set (AUTHED_CONNS t). ac_conn_id c \<noteq> i \<and> ac_session_key c = key
                                \<and> ac_conn_type c = ConnRemote)
        in if is_remote \<or> \<not> another_remote then t\<lparr>SESSIONS := fmdrop key (SESSIONS t)\<rparr> else t
      else t)"

definition update_or_insert_session ::
    "int \<Rightarrow> session_key \<Rightarrow> string option \<Rightarrow> bool option \<Rightarrow> tables \<Rightarrow> tables" where
  "update_or_insert_session now key password tfa' t =
     (case fmlookup (SESSIONS t) key of
        Some s \<Rightarrow>
          let s = (case password of Some p \<Rightarrow> s\<lparr>random_password := p\<rparr> | None \<Rightarrow> s);
              s = (case tfa' of Some b \<Rightarrow> s\<lparr>tfa := b\<rparr> | None \<Rightarrow> s)
          in t\<lparr>SESSIONS := fmupd key s (SESSIONS t)\<rparr>
      | None \<Rightarrow>
          t\<lparr>SESSIONS := fmupd key \<lparr>last_recv_time = now,
               random_password = (case password of Some p \<Rightarrow> p | None \<Rightarrow> []),
               tfa = (case tfa' of Some b \<Rightarrow> b | None \<Rightarrow> False)\<rparr> (SESSIONS t)\<rparr>)"

definition set_session_2fa :: "int \<Rightarrow> session_key \<Rightarrow> tables \<Rightarrow> tables" where
  "set_session_2fa now key t =
     (case fmlookup (SESSIONS t) key of
        Some s \<Rightarrow> t\<lparr>SESSIONS := fmupd key (s\<lparr>tfa := True\<rparr>) (SESSIONS t)\<rparr>
      | None \<Rightarrow> t\<lparr>SESSIONS := fmupd key \<lparr>last_recv_time = now, random_password = [], tfa = True\<rparr> (SESSIONS t)\<rparr>)"

text \<open>\<open>SESSION_TIMEOUT\<close> is 30 seconds; older sessions are dropped before every lookup.\<close>

definition retain_sessions :: "int \<Rightarrow> tables \<Rightarrow> tables" where
  "retain_sessions now t =
     t\<lparr>SESSIONS := fmfilter (\<lambda>k. now - last_recv_time (the (fmlookup (SESSIONS t) k)) < 30000) (SESSIONS t)\<rparr>"

section \<open>Properties\<close>

text \<open>
  A control permission sent by the rendezvous server decides alone where it is set; the pairs
  0 and 3 leave the decision to the local access mode, and that to the local option. Over all
  connections, one disabled permission wins if asked so, otherwise one enabled permission wins.
\<close>

theorem permission_precedence:
  "permission_enabled opt cp w =
     (case Option.bind cp (\<lambda>c. Option.bind (option_permission opt) (get_control_permission c)) of
        Some b \<Rightarrow> b
      | None \<Rightarrow> config_get_option ''access-mode'' w = ''full''
          \<or> (config_get_option ''access-mode'' w \<noteq> ''view'' \<and> option2bool opt (config_get_option opt w)))
   \<and> get_control_permission_state array p d =
     (let votes = (\<lambda>c. get_control_permission (snd c) p) ` set array in
      if Some (\<not> d) \<in> votes then Some (\<not> d) else if Some d \<in> votes then Some d else None)"
proof -
  have fold: "fold (\<lambda>(_, cp) (en, dis).
          case get_control_permission cp p of
            Some False \<Rightarrow> (en, True) | Some True \<Rightarrow> (True, dis) | None \<Rightarrow> (en, dis)) xs (e, f)
      = (e \<or> Some True \<in> (\<lambda>c. get_control_permission (snd c) p) ` set xs,
         f \<or> Some False \<in> (\<lambda>c. get_control_permission (snd c) p) ` set xs)" for xs e f
    by (induction xs arbitrary: e f) (auto split: option.splits bool.splits)
  have "permission_enabled opt cp w =
     (case Option.bind cp (\<lambda>c. Option.bind (option_permission opt) (get_control_permission c)) of
        Some b \<Rightarrow> b
      | None \<Rightarrow> config_get_option ''access-mode'' w = ''full''
          \<or> (config_get_option ''access-mode'' w \<noteq> ''view'' \<and> option2bool opt (config_get_option opt w)))"
    by (cases cp) (auto simp: permission_enabled_def is_permission_enabled_locally_def Let_def split: option.split)
  then show ?thesis
    by (auto simp: get_control_permission_state_def fold Let_def)
qed

lemma fmlookup_retain:
  "fmlookup (SESSIONS (retain_sessions now t)) k =
     (case fmlookup (SESSIONS t) k of
        Some s \<Rightarrow> if now - last_recv_time s < 30000 then Some s else None | None \<Rightarrow> None)"
  by (simp add: retain_sessions_def split: option.split)

text \<open>
  Closing a session without retry: the session is removed unless another remote control
  connection still uses it, and dropping an authorized connection removes exactly its entry and
  reports the remaining numbers to the wake lock.
\<close>

theorem session_close:
  "fmlookup (SESSIONS (check_remove_session i key t)) k =
     (if k = key \<and> ((\<exists>c \<in> set (AUTHED_CONNS t). ac_conn_id c = i \<and> ac_conn_type c = ConnRemote)
                   \<or> (\<forall>c \<in> set (AUTHED_CONNS t). ac_conn_id c = i \<or> ac_session_key c \<noteq> key \<or> ac_conn_type c \<noteq> ConnRemote))
      then None else fmlookup (SESSIONS t) k)
   \<and> set (AUTHED_CONNS (authed_conn_id_drop i t)) = {c \<in> set (AUTHED_CONNS t). ac_conn_id c \<noteq> i}
   \<and> last (WAKELOCK (authed_conn_id_drop i t)) =
       (length (AUTHED_CONNS (authed_conn_id_drop i t)),
        length (filter (\<lambda>c. ac_conn_type c = ConnRemote) (AUTHED_CONNS (authed_conn_id_drop i t))))"
  by (auto simp: check_remove_session_def authed_conn_id_drop_def check_wake_lock_def Let_def)

definition demo_key :: session_key where
  "demo_key = \<lparr>peer_id = ''p'', peer_name = ''n'', session_id = 1\<rparr>"

definition empty_tables :: tables where
  "empty_tables = \<lparr>SESSIONS = fmempty, ALIVE_CONNS = [], AUTHED_CONNS = [],
     CONTROL_PERMISSIONS_ARRAY = [], WAKELOCK = []\<rparr>"

theorem session_close_witness:
  "fmlookup (SESSIONS (check_remove_session 1 demo_key
     (set_session_2fa 0 demo_key (authed_conn_id_new 2 ConnFileTransfer demo_key ''1.4.0'' ''Linux'' empty_tables)))) demo_key = None"
  using session_close [of 1 demo_key "set_session_2fa 0 demo_key (authed_conn_id_new 2 ConnFileTransfer demo_key ''1.4.0'' ''Linux'' empty_tables)" demo_key]
  by (simp add: set_session_2fa_def authed_conn_id_new_def check_wake_lock_def empty_tables_def)

end
