(* ===== verification/Login_Guard.thy ===== *)
theory Login_Guard
  imports Hbb_Prelude "HOL-Library.Finite_Map"
begin

text \<open>
  The limits on failed logins of \<open>src/server/connection.rs\<close> (\<open>get_ipv6_prefixes\<close>,
  \<open>update_failure\<close>, \<open>check_failure\<close>). The table keys of the program are the printed forms of
  addresses and of address prefixes; since printing is injective, a key is the address or the
  prefix itself. A failure record is (minute of the last failure, failures in that minute,
  failures in all).
\<close>

section \<open>Addresses and prefixes\<close>

datatype ip_addr = IpV4 u32 | IpV6 u128

datatype fail_key = KeyIp ip_addr | KeyPrefix u128 nat

type_synonym failure = "int \<times> int \<times> int"
type_synonym failures = "(fail_key, failure) fmap"

definition mask_u128 :: "u128 \<Rightarrow> nat \<Rightarrow> u128" where
  "mask_u128 addr prefix =
     (let m = (if prefix = 0 \<or> prefix > 128 then 0 else push_bit (128 - prefix) (NOT 0)) in addr AND m)"

definition get_ipv6_prefixes :: "ip_addr \<Rightarrow> (fail_key \<times> fail_key \<times> fail_key) option" where
  "get_ipv6_prefixes ip =
     (case ip of
        IpV4 _ \<Rightarrow> None
      | IpV6 a \<Rightarrow> Some (KeyPrefix (mask_u128 a 64) 64, KeyPrefix (mask_u128 a 56) 56, KeyPrefix (mask_u128 a 48) 48))"

text \<open>Two addresses share a prefix exactly when they agree on its bits.\<close>

lemma bit_mask_u128: "0 < p \<Longrightarrow> p \<le> 128 \<Longrightarrow> bit (mask_u128 a p) i \<longleftrightarrow> 128 - p \<le> i \<and> bit a i"
  by (auto simp: mask_u128_def bit_simps dest: bit_imp_le_length)

lemma mask_u128_eq_iff:
  assumes "0 < p" and "p \<le> 128"
  shows "mask_u128 a p = mask_u128 b p \<longleftrightarrow> (\<forall>i. 128 - p \<le> i \<longrightarrow> bit a i = bit b i)"
proof
  assume eq: "mask_u128 a p = mask_u128 b p"
  show "\<forall>i. 128 - p \<le> i \<longrightarrow> bit a i = bit b i"
  proof (intro allI impI)
    fix i
    assume "128 - p \<le> i"
    moreover from eq have "bit (mask_u128 a p) i = bit (mask_u128 b p) i" by simp
    ultimately show "bit a i = bit b i" by (simp add: bit_mask_u128 [OF assms])
  qed
qed (rule bit_word_eqI, auto simp: bit_mask_u128 [OF assms])

section \<open>The failure table\<close>

definition failure_of :: "fail_key \<Rightarrow> failures \<Rightarrow> failure" where
  "failure_of k m = (case fmlookup m k of Some f \<Rightarrow> f | None \<Rightarrow> (0, 0, 0))"

fun bump :: "failure \<Rightarrow> int \<Rightarrow> failure" where
  "bump (m, n, k) time = (if m = time then (m, n + 1, k + 1) else (time, 1, k + 1))"

definition update_failure :: "ip_addr \<Rightarrow> failure \<times> int \<Rightarrow> bool \<Rightarrow> failures \<Rightarrow> failures" where
  "update_failure ip ft remove m =
     (case ft of (failure, time) \<Rightarrow>
        if remove then
          (if fst failure \<noteq> 0 then
             (case get_ipv6_prefixes ip of
                Some (p64, p56, p48) \<Rightarrow> fmdrop (KeyIp ip) (fmdrop p48 (fmdrop p56 (fmdrop p64 m)))
              | None \<Rightarrow> fmdrop (KeyIp ip) m)
           else m)
        else
          (case get_ipv6_prefixes ip of
             Some (p64, p56, p48) \<Rightarrow>
               fmupd (KeyIp ip) (bump failure time)
                 (fold (\<lambda>key m. fmupd key (bump (failure_of key m) time) m) [p64, p56, p48] m)
           | None \<Rightarrow> fmupd (KeyIp ip) (bump failure time) m))"

datatype alarm = TooManyPrefix nat | TooMany | OneMinuteLater

definition check_failure_ipv6_prefix ::
    "int \<Rightarrow> fail_key \<Rightarrow> nat \<Rightarrow> int \<Rightarrow> failures \<Rightarrow> ((failure \<times> int) \<times> alarm) option" where
  "check_failure_ipv6_prefix time key num thresh m =
     (let f = failure_of key m in
      if snd (snd f) > thresh then Some ((f, time), TooManyPrefix num) else None)"

text \<open>The record to be updated later, and the alarm if the attempt is refused.\<close>

definition check_failure :: "ip_addr \<Rightarrow> int \<Rightarrow> failures \<Rightarrow> (failure \<times> int) \<times> alarm option" where
  "check_failure ip time m =
     (let direct =
        (let failure = failure_of (KeyIp ip) m in
         if snd (snd failure) > 30 then ((failure, time), Some TooMany)
         else if time = fst failure \<and> fst (snd failure) > 6 then ((failure, time), Some OneMinuteLater)
         else ((failure, time), None))
      in case get_ipv6_prefixes ip of
           None \<Rightarrow> direct
         | Some (p64, p56, p48) \<Rightarrow>
             (case check_failure_ipv6_prefix time p64 64 60 m of
                Some (r, a) \<Rightarrow> (r, Some a)
              | None \<Rightarrow>
                  (case check_failure_ipv6_prefix time p56 56 80 m of
                     Some (r, a) \<Rightarrow> (r, Some a)
                   | None \<Rightarrow>
                       (case check_failure_ipv6_prefix time p48 48 100 m of
                          Some (r, a) \<Rightarrow> (r, Some a)
                        | None \<Rightarrow> direct))))"

section \<open>Attempts of many connections\<close>

text \<open>
  A login handler checks the address, validates the secret if the check passes, and then records the
  outcome with the failure record the check returned. The lock of the table is held in the check and
  in the record only, so the steps of different connections interleave; a connection handles one
  message at a time. \<open>in_flight\<close> are the attempts between the two steps, with the connection and the
  record read, and \<open>tried\<close> the address and minute of every attempt whose secret was validated. Passwords
  and second-factor codes have tables of their own; this is one of the two.
\<close>

datatype guard_event = Check int ip_addr int | Outcome int bool

record guard =
  fail_table :: failures
  in_flight :: "(int \<times> ip_addr \<times> failure \<times> int) list"
  tried :: "(ip_addr \<times> int) list"

definition guard_init :: guard where
  "guard_init = \<lparr>fail_table = fmempty, in_flight = [], tried = []\<rparr>"

definition busy :: "int \<Rightarrow> guard \<Rightarrow> bool" where
  "busy conn g \<longleftrightarrow> map_of (in_flight g) conn \<noteq> None"

fun guard_step :: "guard_event \<Rightarrow> guard \<Rightarrow> guard" where
  "guard_step (Check conn ip time) g =
     (if busy conn g then g
      else (case check_failure ip time (fail_table g) of
              (ft, None) \<Rightarrow> g\<lparr>in_flight := (conn, ip, ft) # in_flight g, tried := (ip, time) # tried g\<rparr>
            | (ft, Some _) \<Rightarrow> g))"
| "guard_step (Outcome conn good) g =
     (case map_of (in_flight g) conn of
        Some (ip, ft) \<Rightarrow>
          g\<lparr>fail_table := update_failure ip ft good (fail_table g),
            in_flight := filter (\<lambda>p. fst p \<noteq> conn) (in_flight g)\<rparr>
      | None \<Rightarrow> g)"

definition flying :: "(ip_addr \<Rightarrow> bool) \<Rightarrow> guard \<Rightarrow> nat" where
  "flying P g = length (filter (\<lambda>p. P (fst (snd p))) (in_flight g))"

definition tries :: "(ip_addr \<Rightarrow> bool) \<Rightarrow> guard \<Rightarrow> nat" where
  "tries P g = length (filter (\<lambda>p. P (fst p)) (tried g))"

definition tries_in :: "ip_addr \<Rightarrow> int \<Rightarrow> guard \<Rightarrow> nat" where
  "tries_in ip t g = length (filter (\<lambda>p. p = (ip, t)) (tried g))"

text \<open>
  The event is possible when the addresses in \<open>P\<close> have at most \<open>k\<close> attempts between check and record,
  and it is not a success of one of them.
\<close>

definition admits :: "(ip_addr \<Rightarrow> bool) \<Rightarrow> nat \<Rightarrow> guard_event \<Rightarrow> guard \<Rightarrow> bool" where
  "admits P k e g \<longleftrightarrow>
     (case e of
        Check _ ip _ \<Rightarrow> P ip \<longrightarrow> flying P g < k
      | Outcome conn good \<Rightarrow> good \<longrightarrow> (case map_of (in_flight g) conn of Some (ip, _) \<Rightarrow> \<not> P ip | None \<Rightarrow> True))"

fun failing_run :: "(ip_addr \<Rightarrow> bool) \<Rightarrow> nat \<Rightarrow> guard_event list \<Rightarrow> guard \<Rightarrow> bool" where
  "failing_run P k [] g \<longleftrightarrow> True"
| "failing_run P k (e # es) g \<longleftrightarrow> admits P k e g \<and> failing_run P k es (guard_step e g)"

lemma failing_run_inv:
  assumes "I g" and "\<And>e g. I g \<Longrightarrow> admits P k e g \<Longrightarrow> I (guard_step e g)" and "failing_run P k es g"
  shows "I (fold guard_step es g)"
  using assms(1,3) by (induction es arbitrary: g) (simp_all add: assms(2))

section \<open>The failure table\<close>

lemma failure_of_upd: "failure_of k (fmupd j v m) = (if j = k then v else failure_of k m)"
  by (simp add: failure_of_def)

lemma failure_of_drop: "failure_of k (fmdrop j m) = (if j = k then (0, 0, 0) else failure_of k m)"
  by (simp add: failure_of_def)

lemma check_failure_direct:
  assumes "check_failure ip time m = (ft, None)"
  shows "ft = (failure_of (KeyIp ip) m, time)" and "snd (snd (failure_of (KeyIp ip) m)) \<le> 30"
    and "time = fst (failure_of (KeyIp ip) m) \<Longrightarrow> fst (snd (failure_of (KeyIp ip) m)) \<le> 6"
  using assms by (auto simp: check_failure_def Let_def split: option.splits prod.splits if_splits)

lemma update_failure_own: "failure_of (KeyIp ip) (update_failure ip ft False m) = bump (fst ft) (snd ft)"
  by (simp add: update_failure_def failure_of_upd split: prod.split option.split)

lemma update_failure_other:
  "ip' \<noteq> ip \<Longrightarrow> failure_of (KeyIp ip) (update_failure ip' ft good m) = failure_of (KeyIp ip) m"
  by (auto simp: update_failure_def failure_of_upd failure_of_drop get_ipv6_prefixes_def
      split: prod.splits option.splits if_splits ip_addr.splits)

lemma bump_total: "snd (snd (bump f t)) = snd (snd f) + 1"
  by (cases f) simp

lemma length_filter_drop:
  assumes "distinct (map fst xs)" and "map_of xs c = Some y"
  shows "length (filter Q xs) = length (filter Q (filter (\<lambda>p. fst p \<noteq> c) xs)) + (if Q (c, y) then 1 else 0)"
  using assms
proof (induction xs)
  case (Cons x xs)
  show ?case
  proof (cases "fst x = c")
    case True
    then have "c \<notin> fst ` set xs" using Cons.prems(1) by auto
    then have "filter (\<lambda>p. fst p \<noteq> c) xs = xs" by (intro filter_True ballI) (metis imageI)
    with True Cons.prems(2) show ?thesis by (cases x) (simp del: filter_filter)
  next
    case False
    with Cons show ?thesis by (cases x) (simp del: filter_filter)
  qed
qed simp

lemma guard_distinct: "distinct (map fst (in_flight g)) \<Longrightarrow> distinct (map fst (in_flight (guard_step e g)))"
  by (cases e) (auto simp: busy_def map_of_eq_None_iff distinct_map_filter split: prod.splits option.splits)

section \<open>One address\<close>

definition in_minute :: "int \<Rightarrow> failure \<Rightarrow> int" where
  "in_minute t f = (if fst f = t then fst (snd f) else 0)"

lemma in_minute_bump: "in_minute t (bump f s) = (if t = s then in_minute t f + 1 else 0)"
  by (cases f) (auto simp: in_minute_def)

text \<open>
  What holds while no two attempts of the address overlap: the attempt in flight has read the current
  record of the address, and the record counts the attempts whose outcome is recorded.
\<close>

definition lone_inv :: "ip_addr \<Rightarrow> guard \<Rightarrow> bool" where
  "lone_inv ip g \<longleftrightarrow> distinct (map fst (in_flight g)) \<and> flying (\<lambda>i. i = ip) g \<le> 1
     \<and> (\<forall>conn ft. (conn, ip, ft) \<in> set (in_flight g) \<longrightarrow>
          fst ft = failure_of (KeyIp ip) (fail_table g) \<and> snd (snd (fst ft)) \<le> 30)
     \<and> int (tries (\<lambda>i. i = ip) g) = snd (snd (failure_of (KeyIp ip) (fail_table g))) + int (flying (\<lambda>i. i = ip) g)
     \<and> tries (\<lambda>i. i = ip) g \<le> 31"

lemma lone_pending:
  assumes "lone_inv ip g" and "map_of (in_flight g) conn = Some (ip, ft)"
  shows "fst ft = failure_of (KeyIp ip) (fail_table g)" and "snd (snd (fst ft)) \<le> 30"
    and "flying (\<lambda>i. i = ip) g = 1" and "filter (\<lambda>p. fst (snd p) = ip) (in_flight g) = [(conn, ip, ft)]"
proof -
  have m: "(conn, ip, ft) \<in> set (in_flight g)" using assms(2) by (rule map_of_SomeD)
  with assms(1) show "fst ft = failure_of (KeyIp ip) (fail_table g)" "snd (snd (fst ft)) \<le> 30"
    unfolding lone_inv_def by blast+
  have f: "(conn, ip, ft) \<in> set (filter (\<lambda>p. fst (snd p) = ip) (in_flight g))" using m by simp
  moreover have "length (filter (\<lambda>p. fst (snd p) = ip) (in_flight g)) \<le> 1"
    using assms(1) by (simp add: lone_inv_def flying_def)
  ultimately show "filter (\<lambda>p. fst (snd p) = ip) (in_flight g) = [(conn, ip, ft)]"
    by (cases "filter (\<lambda>p. fst (snd p) = ip) (in_flight g)") auto
  then show "flying (\<lambda>i. i = ip) g = 1" by (simp add: flying_def)
qed

lemma lone_check:
  assumes "lone_inv ip g" and "admits (\<lambda>i. i = ip) 1 (Check conn ip' time) g"
  shows "lone_inv ip (guard_step (Check conn ip' time) g)"
proof (cases "\<exists>ft. \<not> busy conn g \<and> check_failure ip' time (fail_table g) = (ft, None)")
  case True
  then obtain ft where b: "\<not> busy conn g" and c: "check_failure ip' time (fail_table g) = (ft, None)" by blast
  note d = check_failure_direct [OF c]
  have dist: "distinct (map fst ((conn, ip', ft) # in_flight g))"
    using assms(1) b by (auto simp: lone_inv_def busy_def map_of_eq_None_iff)
  show ?thesis
  proof (cases "ip' = ip")
    case True
    then have z: "flying (\<lambda>i. i = ip) g = 0" using assms(2) by (simp add: admits_def)
    then have "(c', ip, f) \<notin> set (in_flight g)" for c' f by (auto simp: flying_def filter_empty_conv)
    with assms(1) True b c d z dist show ?thesis
      by (auto simp: lone_inv_def flying_def tries_def)
  qed (use assms(1) b c dist in \<open>auto simp: lone_inv_def flying_def tries_def\<close>)
next
  case False
  then have "guard_step (Check conn ip' time) g = g" by (auto split: prod.split option.split)
  with assms(1) show ?thesis by simp
qed

lemma lone_outcome:
  assumes "lone_inv ip g" and "admits (\<lambda>i. i = ip) 1 (Outcome conn good) g"
  shows "lone_inv ip (guard_step (Outcome conn good) g)"
proof (cases "map_of (in_flight g) conn")
  case (Some x)
  obtain ip' ft where x: "x = (ip', ft)" by (cases x)
  let ?fl = "filter (\<lambda>p. fst p \<noteq> conn) (in_flight g)"
  have dist: "distinct (map fst (in_flight g))" using assms(1) by (simp add: lone_inv_def)
  have fly: "flying (\<lambda>i. i = ip) g = length (filter (\<lambda>p. fst (snd p) = ip) ?fl) + (if ip' = ip then 1 else 0)"
    using length_filter_drop [OF dist Some, of "\<lambda>p. fst (snd p) = ip"] by (simp add: flying_def x)
  have "lone_inv ip (g\<lparr>fail_table := update_failure ip' ft good (fail_table g), in_flight := ?fl\<rparr>)"
    unfolding lone_inv_def
  proof (intro conjI allI impI)
    let ?t = "update_failure ip' ft good (fail_table g)"
    let ?g = "g\<lparr>fail_table := ?t, in_flight := ?fl\<rparr>"
    show "distinct (map fst (in_flight ?g))" using dist by (simp add: distinct_map_filter)
    have fl: "flying (\<lambda>i. i = ip) ?g = flying (\<lambda>i. i = ip) g - (if ip' = ip then 1 else 0)"
      using fly by (simp add: flying_def)
    then show "flying (\<lambda>i. i = ip) ?g \<le> 1" using assms(1) by (simp add: lone_inv_def)
    have rec: "failure_of (KeyIp ip) ?t = (if ip' = ip then bump (failure_of (KeyIp ip) (fail_table g)) (snd ft)
        else failure_of (KeyIp ip) (fail_table g))"
      using lone_pending(1) [OF assms(1), of conn ft] assms(2) Some x
      by (auto simp: admits_def update_failure_own update_failure_other)
    have one: "ip' = ip \<Longrightarrow> flying (\<lambda>i. i = ip) g = 1"
      using lone_pending(3) [OF assms(1), of conn ft] Some x by simp
    have tr: "tries (\<lambda>i. i = ip) ?g = tries (\<lambda>i. i = ip) g" by (simp add: tries_def)
    show "int (tries (\<lambda>i. i = ip) ?g)
        = snd (snd (failure_of (KeyIp ip) (fail_table ?g))) + int (flying (\<lambda>i. i = ip) ?g)"
      using assms(1) one by (simp add: tr fl rec bump_total lone_inv_def)
    show "tries (\<lambda>i. i = ip) ?g \<le> 31" using assms(1) by (simp add: tr lone_inv_def)
    fix c' f
    assume m: "(c', ip, f) \<in> set (in_flight ?g)"
    then have "flying (\<lambda>i. i = ip) ?g \<noteq> 0" by (force simp: flying_def filter_empty_conv)
    then have n: "ip' \<noteq> ip" using fl one by auto
    from m have "(c', ip, f) \<in> set (in_flight g)" by simp
    then show "fst f = failure_of (KeyIp ip) (fail_table ?g)" "snd (snd (fst f)) \<le> 30"
      using assms(1) n unfolding lone_inv_def rec by (simp_all add: rec, blast+)
  qed
  then show ?thesis by (simp add: Some x)
qed (use assms(1) in simp)

lemma lone_step: "lone_inv ip g \<Longrightarrow> admits (\<lambda>i. i = ip) 1 e g \<Longrightarrow> lone_inv ip (guard_step e g)"
  by (cases e) (simp_all only: lone_check lone_outcome)

section \<open>One minute of one address\<close>

text \<open>The clock did not go back between the tries of the address (\<open>tried\<close> holds the newest first).\<close>

definition clock_steady :: "ip_addr \<Rightarrow> guard \<Rightarrow> bool" where
  "clock_steady ip g \<longleftrightarrow> sorted (rev (map snd (filter (\<lambda>p. fst p = ip) (tried g))))"

definition flying_in :: "ip_addr \<Rightarrow> int \<Rightarrow> guard \<Rightarrow> nat" where
  "flying_in ip t g = length (filter (\<lambda>p. fst (snd p) = ip \<and> snd (snd (snd p)) = t) (in_flight g))"

definition newest :: "ip_addr \<Rightarrow> int \<Rightarrow> guard \<Rightarrow> bool" where
  "newest ip t g \<longleftrightarrow> (\<forall>s. (ip, s) \<in> set (tried g) \<longrightarrow> s \<le> t)"

text \<open>
  The record of the address counts the recorded tries of the newest minute, and an attempt in flight
  belongs to that minute.
\<close>

definition minute_inv :: "ip_addr \<Rightarrow> guard \<Rightarrow> bool" where
  "minute_inv ip g \<longleftrightarrow>
     (\<forall>t. tries_in ip t g \<le> 7
        \<and> (newest ip t g \<longrightarrow>
             int (tries_in ip t g) = in_minute t (failure_of (KeyIp ip) (fail_table g)) + int (flying_in ip t g)))
     \<and> (\<forall>conn ft. (conn, ip, ft) \<in> set (in_flight g) \<longrightarrow>
          newest ip (snd ft) g \<and> (ip, snd ft) \<in> set (tried g))"

lemma clock_steady_step: "clock_steady ip (guard_step e g) \<Longrightarrow> clock_steady ip g"
  by (cases e) (auto simp: clock_steady_def sorted_append split: prod.splits option.splits if_splits)

lemma newest_upd [simp]:
  "newest ip t (g\<lparr>in_flight := fl\<rparr>) = newest ip t g"
  "newest ip t (g\<lparr>fail_table := m\<rparr>) = newest ip t g"
  "newest ip t (g\<lparr>in_flight := fl, tried := (ip', s) # tried g\<rparr>) \<longleftrightarrow> newest ip t g \<and> (ip' = ip \<longrightarrow> s \<le> t)"
  by (auto simp: newest_def)

lemma tries_in_upd [simp]:
  "tries_in ip t (g\<lparr>in_flight := fl\<rparr>) = tries_in ip t g"
  "tries_in ip t (g\<lparr>fail_table := m\<rparr>) = tries_in ip t g"
  "tries_in ip t (g\<lparr>in_flight := fl, tried := (ip', s) # tried g\<rparr>) = tries_in ip t g + (if ip' = ip \<and> s = t then 1 else 0)"
  by (auto simp: tries_in_def)

lemma tries_in_zero: "newest ip s g \<Longrightarrow> s < t \<Longrightarrow> tries_in ip t g = 0"
  by (auto simp: newest_def tries_in_def filter_empty_conv)

lemma minute_check:
  assumes "lone_inv ip g" and "admits (\<lambda>i. i = ip) 1 (Check conn ip' time) g" and "minute_inv ip g"
    and "clock_steady ip (guard_step (Check conn ip' time) g)"
  shows "minute_inv ip (guard_step (Check conn ip' time) g)"
proof (cases "\<exists>ft. \<not> busy conn g \<and> check_failure ip' time (fail_table g) = (ft, None)")
  case True
  then obtain ft where b: "\<not> busy conn g" and c: "check_failure ip' time (fail_table g) = (ft, None)" by blast
  note d = check_failure_direct [OF c]
  let ?g = "g\<lparr>in_flight := (conn, ip', ft) # in_flight g, tried := (ip', time) # tried g\<rparr>"
  have st: "guard_step (Check conn ip' time) g = ?g" using b c by simp
  show ?thesis
  proof (cases "ip' = ip")
    case True
    have z: "(c', ip, f) \<notin> set (in_flight g)" for c' f
      using assms(2) True by (force simp: admits_def flying_def filter_empty_conv)
    then have fz: "flying_in ip t g = 0" for t by (auto simp: flying_in_def filter_empty_conv)
    have new: "newest ip time g"
      using assms(4) unfolding st by (auto simp: clock_steady_def newest_def sorted_append True)
    then have "int (tries_in ip time g) = in_minute time (failure_of (KeyIp ip) (fail_table g))"
      using assms(3) by (simp add: minute_inv_def fz)
    with d(3) True have "tries_in ip time g \<le> 6" by (auto simp: in_minute_def split: if_splits)
    moreover have "flying_in ip t ?g = (if t = time then 1 else 0)" for t
      using fz [of t] d(1) True by (auto simp: flying_in_def)
    moreover have "newest ip (snd f) ?g \<and> (ip, snd f) \<in> set (tried ?g)" if "(c', ip, f) \<in> set (in_flight ?g)" for c' f
      using that z new d(1) by auto
    ultimately show ?thesis
      using assms(3) True fz unfolding st minute_inv_def by (auto simp del: split_paired_All)
  next
    case False
    then show ?thesis
      using assms(3) unfolding st minute_inv_def by (auto simp: flying_in_def simp del: split_paired_All)
  qed
next
  case False
  then have "guard_step (Check conn ip' time) g = g" by (auto split: prod.split option.split)
  with assms(3) show ?thesis by simp
qed

lemma minute_outcome:
  assumes "lone_inv ip g" and "admits (\<lambda>i. i = ip) 1 (Outcome conn good) g" and "minute_inv ip g"
  shows "minute_inv ip (guard_step (Outcome conn good) g)"
proof (cases "map_of (in_flight g) conn")
  case (Some x)
  obtain ip' ft where x: "x = (ip', ft)" by (cases x)
  let ?fl = "filter (\<lambda>p. fst p \<noteq> conn) (in_flight g)"
  let ?t = "update_failure ip' ft good (fail_table g)"
  let ?g = "g\<lparr>fail_table := ?t, in_flight := ?fl\<rparr>"
  have dist: "distinct (map fst (in_flight g))" using assms(1) by (simp add: lone_inv_def)
  have fly: "flying_in ip t g = flying_in ip t ?g + (if ip' = ip \<and> snd ft = t then 1 else 0)" for t
    using length_filter_drop [OF dist Some, of "\<lambda>p. fst (snd p) = ip \<and> snd (snd (snd p)) = t"]
    by (simp add: flying_in_def x)
  have count: "int (tries_in ip t g) = in_minute t (failure_of (KeyIp ip) ?t) + int (flying_in ip t ?g)"
    if n: "newest ip t g" for t
  proof (cases "ip' = ip")
    case True
    have ft: "fst ft = failure_of (KeyIp ip) (fail_table g)"
      using lone_pending(1) [OF assms(1), of conn ft] Some x True by simp
    have "\<not> good" using assms(2) Some x True by (auto simp: admits_def)
    then have u: "failure_of (KeyIp ip) ?t = bump (failure_of (KeyIp ip) (fail_table g)) (snd ft)"
      using ft True by (simp add: update_failure_own)
    have m: "newest ip (snd ft) g \<and> (ip, snd ft) \<in> set (tried g)"
      using map_of_SomeD [OF Some] assms(3) unfolding minute_inv_def x True by blast
    have e: "int (tries_in ip t g) = in_minute t (failure_of (KeyIp ip) (fail_table g)) + int (flying_in ip t g)"
      using assms(3) n unfolding minute_inv_def by blast
    have "snd ft \<le> t" using m n by (auto simp: newest_def)
    then consider "snd ft = t" | "snd ft < t" by linarith
    then show ?thesis
    proof cases
      case 1
      with e fly [of t] True u show ?thesis by (simp add: in_minute_bump)
    next
      case 2
      have "flying (\<lambda>i. i = ip) g = 1" using lone_pending(3) [OF assms(1), of conn ft] Some x True by simp
      have f: "filter (\<lambda>p. fst (snd p) = ip) (in_flight g) = [(conn, ip, ft)]"
        using lone_pending(4) [OF assms(1), of conn ft] Some x True by simp
      have "flying_in ip t g = length (filter (\<lambda>p. snd (snd (snd p)) = t) (filter (\<lambda>p. fst (snd p) = ip) (in_flight g)))"
        by (simp add: flying_in_def conj_commute)
      with f 2 have "flying_in ip t g = 0" by simp
      with 2 fly [of t] m u show ?thesis by (simp add: in_minute_bump tries_in_zero [of ip "snd ft" g t])
    qed
  next
    case False
    with assms(3) n fly [of t] show ?thesis unfolding minute_inv_def by (simp add: update_failure_other del: split_paired_All)
  qed
  have "minute_inv ip ?g"
    unfolding minute_inv_def
  proof (intro conjI allI impI)
    show "tries_in ip t ?g \<le> 7" for t using assms(3) unfolding minute_inv_def by simp
    show "newest ip t ?g \<Longrightarrow> int (tries_in ip t ?g)
        = in_minute t (failure_of (KeyIp ip) (fail_table ?g)) + int (flying_in ip t ?g)" for t
      using count [of t] by simp
    fix c' f
    assume "(c', ip, f) \<in> set (in_flight ?g)"
    then have "(c', ip, f) \<in> set (in_flight g)" by simp
    then show "newest ip (snd f) ?g" "(ip, snd f) \<in> set (tried ?g)"
      using assms(3) unfolding minute_inv_def by (simp_all del: split_paired_All)
  qed
  then show ?thesis by (simp add: Some x)
qed (use assms(3) in simp)

lemma minute_step:
  assumes "lone_inv ip g \<and> (clock_steady ip g \<longrightarrow> minute_inv ip g)" and "admits (\<lambda>i. i = ip) 1 e g"
  shows "lone_inv ip (guard_step e g) \<and> (clock_steady ip (guard_step e g) \<longrightarrow> minute_inv ip (guard_step e g))"
proof (intro conjI impI)
  show "lone_inv ip (guard_step e g)" using assms lone_step by blast
  assume c: "clock_steady ip (guard_step e g)"
  with assms(1) have m: "minute_inv ip g" using clock_steady_step by blast
  show "minute_inv ip (guard_step e g)"
    using assms c m by (cases e) (blast intro: minute_check minute_outcome)+
qed

text \<open>
  C7. Let an address make failing attempts only, no two of them overlapping, while the checks and
  outcomes of any number of other addresses and connections interleave with them in any order. Then at
  most 31 of its secrets are validated for as long as the process runs, and if the clock does not go back
  between its attempts, at most 7 of them in any one minute.
\<close>

theorem brute_force_bounded:
  assumes "failing_run (\<lambda>i. i = ip) 1 es guard_init"
  shows "tries (\<lambda>i. i = ip) (fold guard_step es guard_init) \<le> 31
    \<and> (clock_steady ip (fold guard_step es guard_init) \<longrightarrow>
        (\<forall>t. tries_in ip t (fold guard_step es guard_init) \<le> 7))"
proof -
  let ?I = "\<lambda>g. lone_inv ip g \<and> (clock_steady ip g \<longrightarrow> minute_inv ip g)"
  have "?I guard_init"
    by (simp add: guard_init_def lone_inv_def minute_inv_def flying_def flying_in_def tries_def tries_in_def
        failure_of_def in_minute_def)
  then have "?I (fold guard_step es guard_init)" by (rule failing_run_inv [where I = ?I, OF _ minute_step assms])
  then show ?thesis by (auto simp: lone_inv_def minute_inv_def)
qed

theorem brute_force_bounded_witness:
  "tries_in (IpV4 9) 17 (fold guard_step [Check 1 (IpV4 9) 17, Check 2 (IpV4 8) 17, Outcome 1 False,
     Outcome 2 True, Check 1 (IpV4 9) 17] guard_init) \<le> 7"
  using brute_force_bounded [of "IpV4 9" "[Check 1 (IpV4 9) 17, Check 2 (IpV4 8) 17, Outcome 1 False,
     Outcome 2 True, Check 1 (IpV4 9) 17]"]
  by (simp add: guard_init_def busy_def admits_def flying_def check_failure_def get_ipv6_prefixes_def Let_def
      failure_of_def update_failure_def clock_steady_def)

section \<open>IPv6 prefixes\<close>

fun prefix_limit :: "nat \<Rightarrow> int" where
  "prefix_limit p = (if p = 64 then 60 else if p = 56 then 80 else 100)"

definition within :: "nat \<Rightarrow> u128 \<Rightarrow> ip_addr \<Rightarrow> bool" where
  "within p q ip \<longleftrightarrow> (case ip of IpV4 _ \<Rightarrow> False | IpV6 a \<Rightarrow> mask_u128 a p = q)"

lemma check_failure_prefix:
  assumes "check_failure ip time m = (ft, None)" and "within p q ip" and "p \<in> {64, 56, 48}"
  shows "snd (snd (failure_of (KeyPrefix q p) m)) \<le> prefix_limit p"
  using assms
  by (auto simp: check_failure_def check_failure_ipv6_prefix_def get_ipv6_prefixes_def within_def Let_def
      split: option.splits prod.splits if_splits ip_addr.splits)

lemma update_failure_within:
  assumes "within p q ip" and "p \<in> {64, 56, 48}"
  shows "failure_of (KeyPrefix q p) (update_failure ip ft False m) = bump (failure_of (KeyPrefix q p) m) (snd ft)"
proof -
  obtain a where ip: "ip = IpV6 a" and q: "q = mask_u128 a p"
    using assms(1) by (auto simp: within_def split: ip_addr.splits)
  obtain f t where ft: "ft = (f, t)" by (cases ft)
  from assms(2) consider "p = 64" | "p = 56" | "p = 48" by auto
  then show ?thesis
    by cases (simp_all add: update_failure_def failure_of_upd get_ipv6_prefixes_def ip q ft)
qed

lemma update_failure_outside:
  "\<not> within p q ip \<Longrightarrow> failure_of (KeyPrefix q p) (update_failure ip ft good m) = failure_of (KeyPrefix q p) m"
  by (auto simp: update_failure_def failure_of_upd failure_of_drop get_ipv6_prefixes_def within_def
      split: prod.splits option.splits if_splits ip_addr.splits)

text \<open>
  The counters of a prefix are read again when an outcome is recorded, so no failure is lost: a counter is
  always the number of recorded tries.
\<close>

definition prefix_inv :: "nat \<Rightarrow> u128 \<Rightarrow> nat \<Rightarrow> guard \<Rightarrow> bool" where
  "prefix_inv p q k g \<longleftrightarrow> distinct (map fst (in_flight g))
     \<and> int (tries (within p q) g) = snd (snd (failure_of (KeyPrefix q p) (fail_table g))) + int (flying (within p q) g)
     \<and> int (tries (within p q) g) \<le> prefix_limit p + int k"

lemma prefix_check:
  assumes "prefix_inv p q k g" and "admits (within p q) k (Check conn ip time) g" and "p \<in> {64, 56, 48}"
  shows "prefix_inv p q k (guard_step (Check conn ip time) g)"
proof (cases "\<exists>ft. \<not> busy conn g \<and> check_failure ip time (fail_table g) = (ft, None)")
  case True
  then obtain ft where b: "\<not> busy conn g" and c: "check_failure ip time (fail_table g) = (ft, None)" by blast
  have "within p q ip \<Longrightarrow> snd (snd (failure_of (KeyPrefix q p) (fail_table g))) \<le> prefix_limit p"
    by (rule check_failure_prefix [OF c _ assms(3)])
  moreover have "distinct (map fst ((conn, ip, ft) # in_flight g))"
    using assms(1) b by (auto simp: prefix_inv_def busy_def map_of_eq_None_iff)
  ultimately show ?thesis
    using assms(1,2) b c by (cases "within p q ip") (simp_all add: prefix_inv_def admits_def flying_def tries_def)
next
  case False
  then have "guard_step (Check conn ip time) g = g" by (auto split: prod.split option.split)
  with assms(1) show ?thesis by simp
qed

lemma prefix_outcome:
  assumes "prefix_inv p q k g" and "admits (within p q) k (Outcome conn good) g" and "p \<in> {64, 56, 48}"
  shows "prefix_inv p q k (guard_step (Outcome conn good) g)"
proof (cases "map_of (in_flight g) conn")
  case (Some x)
  obtain ip ft where x: "x = (ip, ft)" by (cases x)
  let ?fl = "filter (\<lambda>p. fst p \<noteq> conn) (in_flight g)"
  let ?t = "update_failure ip ft good (fail_table g)"
  have dist: "distinct (map fst (in_flight g))" using assms(1) by (simp add: prefix_inv_def)
  have fly: "flying (within p q) g
      = flying (within p q) (g\<lparr>fail_table := ?t, in_flight := ?fl\<rparr>) + (if within p q ip then 1 else 0)"
    using length_filter_drop [OF dist Some, of "\<lambda>e. within p q (fst (snd e))"] by (simp add: flying_def x)
  have tr: "tries (within p q) (g\<lparr>fail_table := ?t, in_flight := ?fl\<rparr>) = tries (within p q) g"
    by (simp add: tries_def)
  have "within p q ip \<Longrightarrow> \<not> good" using assms(2) Some x by (auto simp: admits_def)
  then have "snd (snd (failure_of (KeyPrefix q p) ?t))
      = snd (snd (failure_of (KeyPrefix q p) (fail_table g))) + (if within p q ip then 1 else 0)"
    using assms(3) by (simp add: update_failure_within update_failure_outside bump_total)
  with assms(1) fly tr dist have "prefix_inv p q k (g\<lparr>fail_table := ?t, in_flight := ?fl\<rparr>)"
    by (simp add: prefix_inv_def distinct_map_filter)
  then show ?thesis by (simp add: Some x)
qed (use assms(1) in simp)

lemma prefix_step:
  "p \<in> {64, 56, 48} \<Longrightarrow> prefix_inv p q k g \<Longrightarrow> admits (within p q) k e g \<Longrightarrow> prefix_inv p q k (guard_step e g)"
  by (cases e) (simp_all only: prefix_check prefix_outcome)

text \<open>
  Changing the address inside one IPv6 network does not help, and neither do parallel connections: if none
  of the addresses that agree on the first 64 (56, 48) bits succeeds and never more than \<open>k\<close> of their attempts
  are under way at a time, then together they get at most 60 (80, 100) + \<open>k\<close> secrets validated; two addresses
  share the counter exactly when they agree on those bits.
\<close>

theorem ipv6_prefix_bounded:
  assumes "p \<in> {64, 56, 48}" and "failing_run (within p (mask_u128 x p)) k es guard_init"
  shows "int (tries (within p (mask_u128 x p)) (fold guard_step es guard_init)) \<le> prefix_limit p + int k
    \<and> (within p (mask_u128 x p) (IpV6 y) \<longleftrightarrow> (\<forall>i \<ge> 128 - p. bit y i = bit x i))"
proof -
  have "0 < p" "p \<le> 128" using assms(1) by auto
  then have "within p (mask_u128 x p) (IpV6 y) \<longleftrightarrow> (\<forall>i \<ge> 128 - p. bit y i = bit x i)"
    by (simp add: within_def mask_u128_eq_iff)
  moreover have "prefix_inv p (mask_u128 x p) k guard_init"
    by (simp add: prefix_inv_def guard_init_def tries_def flying_def failure_of_def)
  then have "prefix_inv p (mask_u128 x p) k (fold guard_step es guard_init)"
    by (rule failing_run_inv [where I = "prefix_inv p (mask_u128 x p) k", OF _ prefix_step [OF assms(1)] assms(2)])
  ultimately show ?thesis by (simp add: prefix_inv_def)
qed

theorem ipv6_prefix_bounded_witness:
  "int (tries (within 64 (mask_u128 0 64)) (fold guard_step [Check 1 (IpV6 5) 3, Check 2 (IpV6 6) 3,
     Outcome 1 False] guard_init)) \<le> 62"
proof -
  have "failing_run (within 64 (mask_u128 0 64)) 2 [Check 1 (IpV6 5) 3, Check 2 (IpV6 6) 3, Outcome 1 False] guard_init"
    by (simp add: guard_init_def busy_def admits_def flying_def split: prod.split option.split)
  from ipv6_prefix_bounded [OF _ this] show ?thesis by simp
qed

section \<open>Overlapping attempts\<close>

text \<open>
  The record to update is read by \<open>check_failure\<close> and written back by \<open>update_failure\<close> after
  the secret has been validated, without holding the lock in between: any number of attempts of
  an address that have all passed the check before the first outcome is recorded count as one
  failure of the address. Its limits do not bound attempts over parallel connections.
\<close>

theorem overlapping_failures_lost:
  assumes "check_failure ip time m = (ft, None)"
  shows "failure_of (KeyIp ip) ((update_failure ip ft False ^^ Suc n) m) = bump (failure_of (KeyIp ip) m) time
    \<and> (\<forall>w. ip = IpV4 w \<longrightarrow> (update_failure ip ft False ^^ Suc n) m = update_failure ip ft False m)"
proof -
  have "failure_of (KeyIp ip) (update_failure ip ft False x) = bump (failure_of (KeyIp ip) m) time" for x
    using check_failure_direct(1) [OF assms] by (simp add: update_failure_def failure_of_upd split: option.split prod.split)
  moreover have "(update_failure (IpV4 w) ft False ^^ Suc n) m = update_failure (IpV4 w) ft False m" for w
    by (induction n) (simp_all add: update_failure_def get_ipv6_prefixes_def split: prod.splits)
  ultimately show ?thesis by simp
qed

theorem overlapping_failures_lost_witness:
  "failure_of (KeyIp (IpV4 7)) ((update_failure (IpV4 7) ((0, 0, 0), 4) False ^^ Suc 999) fmempty) = (4, 1, 1)"
proof -
  have "check_failure (IpV4 7) 4 fmempty = (((0, 0, 0), 4), None)"
    by (simp add: check_failure_def failure_of_def get_ipv6_prefixes_def Let_def)
  from overlapping_failures_lost [OF this, of 999]
  have "failure_of (KeyIp (IpV4 7)) ((update_failure (IpV4 7) ((0, 0, 0), 4) False ^^ Suc 999) fmempty)
      = bump (failure_of (KeyIp (IpV4 7)) fmempty) 4" by (rule conjunct1)
  also have "\<dots> = (4, 1, 1)" by (simp add: failure_of_def)
  finally show ?thesis .
qed

end
