(* ===== verification/Service.thy ===== *)
theory Service
  imports Hbb_Prelude "HOL-Library.AList"
begin

text \<open>
  The publish/subscribe template of \<open>src/server/service.rs\<close> and the per-connection channels of
  \<open>ConnInner\<close> (\<open>src/server/connection.rs\<close>). Hash maps are association lists whose order
  stands for the arbitrary iteration order of the program; a channel is the list of messages
  sent on it. Every operation runs under the service's lock, so a run is a sequence of
  operations.
\<close>

section \<open>Connections as subscribers\<close>

datatype message =
    VideoFrame nat
  | MiscSwitchDisplay nat
  | OtherMessage nat

record conn_inner =
  conn_id :: int
  tx :: "message list option"
  tx_video :: "message list option"

definition conn_new :: "int \<Rightarrow> message list option \<Rightarrow> message list option \<Rightarrow> conn_inner" where
  "conn_new i t v = \<lparr>conn_id = i, tx = t, tx_video = v\<rparr>"

text \<open>\<open>Subscriber::send\<close>: video frames and display switches share one channel.\<close>

definition conn_send :: "message \<Rightarrow> conn_inner \<Rightarrow> conn_inner" where
  "conn_send msg c =
     (let tx_by_video = (case msg of VideoFrame _ \<Rightarrow> True | MiscSwitchDisplay _ \<Rightarrow> True | _ \<Rightarrow> False)
      in if tx_by_video then c\<lparr>tx_video := map_option (\<lambda>q. q @ [msg]) (tx_video c)\<rparr>
         else c\<lparr>tx := map_option (\<lambda>q. q @ [msg]) (tx c)\<rparr>)"

section \<open>The service state\<close>

type_synonym subscribers = "(int \<times> conn_inner) list"

record service_inner =
  svc_name :: string
  svc_handle :: bool
  subscribes :: subscribers
  new_subscribes :: subscribers
  active :: bool
  need_snapshot :: bool
  options :: "(string \<times> string) list"

definition service_new :: "string \<Rightarrow> bool \<Rightarrow> service_inner" where
  "service_new name snap =
     \<lparr>svc_name = name, svc_handle = False, subscribes = [], new_subscribes = [], active = True,
      need_snapshot = snap, options = []\<rparr>"

definition send_subs :: "message \<Rightarrow> subscribers \<Rightarrow> subscribers" where
  "send_subs msg ss = map (\<lambda>(i, s). (i, conn_send msg s)) ss"

definition send_new_subscribes :: "message \<Rightarrow> service_inner \<Rightarrow> service_inner" where
  "send_new_subscribes msg sv = sv\<lparr>new_subscribes := send_subs msg (new_subscribes sv)\<rparr>"

definition swap_new_subscribes :: "service_inner \<Rightarrow> service_inner" where
  "swap_new_subscribes sv =
     sv\<lparr>subscribes := fold (\<lambda>(_, s) m. AList.update (conn_id s) s m) (new_subscribes sv) (subscribes sv),
        new_subscribes := []\<rparr>"

definition has_subscribes :: "service_inner \<Rightarrow> bool" where
  "has_subscribes sv \<longleftrightarrow> length (subscribes sv) > 0 \<or> length (new_subscribes sv) > 0"

definition is_subed :: "int \<Rightarrow> service_inner \<Rightarrow> bool" where
  "is_subed i sv \<longleftrightarrow> map_of (subscribes sv) i \<noteq> None \<or> map_of (new_subscribes sv) i \<noteq> None"

definition on_subscribe :: "conn_inner \<Rightarrow> service_inner \<Rightarrow> service_inner" where
  "on_subscribe sub sv =
     (if map_of (subscribes sv) (conn_id sub) \<noteq> None then sv
      else if need_snapshot sv
      then sv\<lparr>new_subscribes := AList.update (conn_id sub) sub (new_subscribes sv)\<rparr>
      else sv\<lparr>subscribes := AList.update (conn_id sub) sub (subscribes sv)\<rparr>)"

definition on_unsubscribe :: "int \<Rightarrow> service_inner \<Rightarrow> service_inner" where
  "on_unsubscribe i sv =
     (if map_of (subscribes sv) i = None
      then sv\<lparr>new_subscribes := AList.delete i (new_subscribes sv)\<rparr>
      else sv\<lparr>subscribes := AList.delete i (subscribes sv)\<rparr>)"

definition service_join :: "service_inner \<Rightarrow> service_inner" where
  "service_join sv = sv\<lparr>active := False, svc_handle := False\<rparr>"

definition get_option :: "string \<Rightarrow> service_inner \<Rightarrow> string option" where
  "get_option opt sv = map_of (options sv) opt"

definition set_option :: "string \<Rightarrow> string \<Rightarrow> service_inner \<Rightarrow> string option \<times> service_inner" where
  "set_option opt val sv =
     (map_of (options sv) opt, sv\<lparr>options := AList.update opt val (options sv)\<rparr>)"

definition service_ok :: "service_inner \<Rightarrow> bool" where
  "service_ok sv \<longleftrightarrow> active sv \<and> has_subscribes sv"

definition is_option_true :: "string \<Rightarrow> service_inner \<Rightarrow> bool" where
  "is_option_true opt sv \<longleftrightarrow> (case get_option opt sv of None \<Rightarrow> False | Some v \<Rightarrow> v = ''1'')"

definition set_option_bool :: "string \<Rightarrow> bool \<Rightarrow> service_inner \<Rightarrow> service_inner" where
  "set_option_bool opt val sv =
     (if val then snd (set_option opt ''1'' sv) else snd (set_option opt ''0'' sv))"

section \<open>Sending\<close>

definition send_shared :: "message \<Rightarrow> service_inner \<Rightarrow> service_inner" where
  "send_shared msg sv = sv\<lparr>subscribes := send_subs msg (subscribes sv)\<rparr>"

definition send_to :: "message \<Rightarrow> int \<Rightarrow> service_inner \<Rightarrow> service_inner" where
  "send_to msg i sv =
     (case map_of (subscribes sv) i of
        Some s \<Rightarrow> sv\<lparr>subscribes := AList.update i (conn_send msg s) (subscribes sv)\<rparr>
      | None \<Rightarrow> sv)"

definition send_to_others :: "message \<Rightarrow> int \<Rightarrow> service_inner \<Rightarrow> service_inner" where
  "send_to_others msg i sv =
     sv\<lparr>subscribes := map (\<lambda>(sid, s). if sid \<noteq> i then (sid, conn_send msg s) else (sid, s)) (subscribes sv)\<rparr>"

definition send_without :: "message \<Rightarrow> int \<Rightarrow> service_inner \<Rightarrow> service_inner" where
  "send_without msg sub sv =
     sv\<lparr>subscribes := map (\<lambda>(sid, s). if sub \<noteq> conn_id s then (sid, conn_send msg s) else (sid, s)) (subscribes sv)\<rparr>"

definition send_video_frame_shared :: "message \<Rightarrow> service_inner \<Rightarrow> int set \<times> service_inner" where
  "send_video_frame_shared msg sv =
     (set (map (\<lambda>(_, s). conn_id s) (subscribes sv)), send_shared msg sv)"

text \<open>
  \<open>snapshot\<close>: the callback gets a \<open>ServiceSwap\<close>, through which it may send to the new
  subscribers only; when it is dropped, at the end of the callback and also when that fails,
  the new subscribers become ordinary ones.
\<close>

definition snapshot ::
    "(service_inner \<Rightarrow> ('e, unit) rust_result \<times> service_inner) \<Rightarrow> service_inner \<Rightarrow>
     ('e, unit) rust_result \<times> service_inner" where
  "snapshot callback sv =
     (if length (new_subscribes sv) > 0
      then (case callback sv of (r, sv') \<Rightarrow> (r, swap_new_subscribes sv'))
      else (Inr (), sv))"

definition swap_send_shared :: "message \<Rightarrow> service_inner \<Rightarrow> service_inner" where
  "swap_send_shared msg sv = send_new_subscribes msg sv"

definition swap_has_subscribes :: "service_inner \<Rightarrow> bool" where
  "swap_has_subscribes sv \<longleftrightarrow> length (subscribes sv) > 0"

section \<open>The service threads\<close>

text \<open>
  What a service thread does to its callback and for how many milliseconds it sleeps. An
  observation of one iteration is the state of the service, whether the callback fails and the
  milliseconds the iteration took.
\<close>

datatype thread_action = CallInit | Callback | CallReset | Sleep u64

type_synonym observation = "service_inner \<times> bool \<times> nat"

text \<open>One iteration of the loop of \<open>run\<close>, from the error timeout to the new one.\<close>

definition run_iter :: "u64 \<Rightarrow> observation \<Rightarrow> thread_action list \<times> u64" where
  "run_iter error_timeout obs =
     (case obs of (sv, failed, elapsed) \<Rightarrow>
        if has_subscribes sv then
          (if failed then
             let t = (if elapsed > 1000 then 30 else error_timeout * 2);
                 t' = (if t > 1000 then 1000 else t)
             in ([Callback, Sleep t', Sleep 30], t')
           else ([Callback, Sleep 30], error_timeout))
        else ([Sleep 30], error_timeout))"

fun run_loop :: "u64 \<Rightarrow> observation list \<Rightarrow> thread_action list" where
  "run_loop t [] = []"
| "run_loop t (obs # os) =
     (if \<not> active (fst obs) then []
      else case run_iter t obs of (acts, t') \<Rightarrow> acts @ run_loop t' os)"

text \<open>One iteration of the loop of \<open>repeat\<close>, from the \<open>may_reset\<close> flag to the new one.\<close>

definition repeat_iter :: "nat \<Rightarrow> bool \<Rightarrow> observation \<Rightarrow> thread_action list \<times> bool" where
  "repeat_iter interval may_reset obs =
     (case obs of (sv, failed, elapsed) \<Rightarrow>
        let (acts, may_reset') =
              (if has_subscribes sv
               then ((if \<not> may_reset then [CallInit] else []) @ [Callback] @ (if failed then [Sleep 1000] else []), True)
               else if may_reset then ([CallReset], False)
               else ([], False))
        in (acts @ (if elapsed < interval then [Sleep (word_of_nat (interval - elapsed))] else []), may_reset'))"

fun repeat_loop :: "nat \<Rightarrow> bool \<Rightarrow> observation list \<Rightarrow> thread_action list" where
  "repeat_loop interval m [] = []"
| "repeat_loop interval m (obs # os) =
     (if \<not> active (fst obs) then []
      else case repeat_iter interval m obs of (acts, m') \<Rightarrow> acts @ repeat_loop interval m' os)"

section \<open>Runs of a service\<close>

datatype service_op =
    Subscribe conn_inner | Unsubscribe int | SendShared message | SendTo message int
  | SendToOthers message int | SendWithout message int | SendVideoFrame message
  | SwapSend message | SwapDrop | SetOption string string | Join

text \<open>
  Each operation is one critical section of the service's lock. A snapshot is not: its sends to
  the new subscribers and the final swap are separate operations, between which those of other
  threads may come.
\<close>

fun service_step :: "service_op \<Rightarrow> service_inner \<Rightarrow> service_inner" where
  "service_step (Subscribe c) sv = on_subscribe c sv"
| "service_step (Unsubscribe i) sv = on_unsubscribe i sv"
| "service_step (SendShared m) sv = send_shared m sv"
| "service_step (SendTo m i) sv = send_to m i sv"
| "service_step (SendToOthers m i) sv = send_to_others m i sv"
| "service_step (SendWithout m i) sv = send_without m i sv"
| "service_step (SendVideoFrame m) sv = snd (send_video_frame_shared m sv)"
| "service_step (SwapSend m) sv = swap_send_shared m sv"
| "service_step SwapDrop sv = swap_new_subscribes sv"
| "service_step (SetOption k v) sv = snd (set_option k v sv)"
| "service_step Join sv = service_join sv"

fun service_run :: "service_op list \<Rightarrow> service_inner \<Rightarrow> service_inner" where
  "service_run [] sv = sv"
| "service_run (e # es) sv = service_run es (service_step e sv)"

section \<open>The subscription invariant\<close>

text \<open>
  Keys are the ids of their subscribers, no id occurs twice, and nobody is an ordinary and a
  new subscriber at once; only services with snapshots have new subscribers.
\<close>

definition subs_ok :: "subscribers \<Rightarrow> bool" where
  "subs_ok ss \<longleftrightarrow> distinct (map fst ss) \<and> (\<forall>(i, s) \<in> set ss. conn_id s = i)"

definition service_inv :: "service_inner \<Rightarrow> bool" where
  "service_inv sv \<longleftrightarrow> subs_ok (subscribes sv) \<and> subs_ok (new_subscribes sv)
     \<and> fst ` set (subscribes sv) \<inter> fst ` set (new_subscribes sv) = {}
     \<and> (need_snapshot sv \<or> new_subscribes sv = [])"

lemma conn_id_send [simp]: "conn_id (conn_send m s) = conn_id s"
  by (simp add: conn_send_def Let_def split: message.splits)


text \<open>A map over the subscribers that keeps key and identity, as every kind of send is.\<close>

definition keeps_ids :: "(int \<times> conn_inner \<Rightarrow> int \<times> conn_inner) \<Rightarrow> bool" where
  "keeps_ids f \<longleftrightarrow> (\<forall>p. fst (f p) = fst p \<and> conn_id (snd (f p)) = conn_id (snd p))"

lemma keeps_idsD: "keeps_ids f \<Longrightarrow> fst (f p) = fst p" "keeps_ids f \<Longrightarrow> conn_id (snd (f p)) = conn_id (snd p)"
  by (cases p, simp add: keeps_ids_def)+

lemma keys_map: "keeps_ids f \<Longrightarrow> map fst (map f ss) = map fst ss"
  by (simp add: keeps_idsD)

lemma keys_set_map: "keeps_ids f \<Longrightarrow> fst ` set (map f ss) = fst ` set ss"
  by (metis keys_map list.set_map)

lemma subs_ok_alt: "subs_ok ss \<longleftrightarrow> distinct (map fst ss) \<and> (\<forall>p \<in> set ss. conn_id (snd p) = fst p)"
  by (auto simp: subs_ok_def)

lemma subs_ok_map: "keeps_ids f \<Longrightarrow> subs_ok ss \<Longrightarrow> subs_ok (map f ss)"
  unfolding subs_ok_alt using keys_map [of f ss] by (simp add: keeps_idsD del: map_map)

lemma keeps_ids_send [simp]:
  "keeps_ids (\<lambda>(i, s). (i, conn_send m s))"
  "keeps_ids (\<lambda>(sid, s). if sid \<noteq> i then (sid, conn_send m s) else (sid, s))"
  "keeps_ids (\<lambda>(sid, s). if j \<noteq> conn_id s then (sid, conn_send m s) else (sid, s))"
  by (simp_all add: keeps_ids_def case_prod_unfold)

lemma subs_ok_update: "subs_ok ss \<Longrightarrow> conn_id s = i \<Longrightarrow> subs_ok (AList.update i s ss)"
  using set_update_subset [of i s ss] by (auto simp: subs_ok_alt distinct_update)

lemma subs_ok_delete: "subs_ok ss \<Longrightarrow> subs_ok (AList.delete i ss)"
  using distinct_delete [of ss i] by (auto simp: subs_ok_alt AList.delete_eq)

lemma subs_ok_lookup: "subs_ok ss \<Longrightarrow> map_of ss i = Some s \<Longrightarrow> conn_id s = i"
  by (auto simp: subs_ok_alt dest: map_of_SomeD)

lemma map_of_None_keys: "map_of ss i = None \<longleftrightarrow> i \<notin> fst ` set ss"
  by (rule map_of_eq_None_iff)

lemma swap_fold:
  "subs_ok ss \<Longrightarrow> subs_ok ns \<Longrightarrow>
   subs_ok (fold (\<lambda>(_, s) m. AList.update (conn_id s) s m) ns ss)
   \<and> fst ` set (fold (\<lambda>(_, s) m. AList.update (conn_id s) s m) ns ss) = fst ` set ss \<union> fst ` set ns"
proof (induction ns arbitrary: ss)
  case (Cons p ns)
  obtain i s where p: "p = (i, s)" by (cases p)
  with Cons.prems have "conn_id s = i" and "subs_ok ns" by (auto simp: subs_ok_alt)
  with Cons.IH [of "AList.update i s ss"] Cons.prems(1) p show ?case
    by (simp add: subs_ok_update dom_update)
qed simp

lemma swap_lookup:
  "subs_ok ns \<Longrightarrow> map_of (fold (\<lambda>(_, s) m. AList.update (conn_id s) s m) ns ss) i =
     (case map_of ns i of Some s \<Rightarrow> Some s | None \<Rightarrow> map_of ss i)"
proof (induction ns arbitrary: ss)
  case (Cons p ns)
  obtain j s where p: "p = (j, s)" by (cases p)
  with Cons.prems have "conn_id s = j" and "subs_ok ns" and "map_of ns j = None"
    by (auto simp: subs_ok_alt map_of_None_keys)
  with Cons.IH [of "AList.update j s ss"] p show ?case
    by (cases "i = j") (simp_all add: update_conv split: option.split)
qed simp

section \<open>The subscription contract\<close>

text \<open>
  What the clients of a service (the server's registry) rely on: subscribing and unsubscribing
  keep the invariant and change the subscription of exactly the connection concerned.
\<close>

locale subscription =
  fixes sub :: "'c \<Rightarrow> 's \<Rightarrow> 's"
    and unsub :: "'i \<Rightarrow> 's \<Rightarrow> 's"
    and subed :: "'i \<Rightarrow> 's \<Rightarrow> bool"
    and ident :: "'c \<Rightarrow> 'i"
    and inv :: "'s \<Rightarrow> bool"
  assumes sub_inv: "inv s \<Longrightarrow> inv (sub c s)"
    and unsub_inv: "inv s \<Longrightarrow> inv (unsub i s)"
    and subed_sub: "inv s \<Longrightarrow> subed j (sub c s) \<longleftrightarrow> j = ident c \<or> subed j s"
    and subed_unsub: "inv s \<Longrightarrow> subed j (unsub i s) \<longleftrightarrow> j \<noteq> i \<and> subed j s"
begin

text \<open>What a client does to the services of a registry, keyed by name.\<close>

definition everywhere_unsub :: "'i \<Rightarrow> ('n \<times> 's) list \<Rightarrow> ('n \<times> 's) list" where
  "everywhere_unsub i reg = map (\<lambda>(n, s). (n, unsub i s)) reg"

definition subs_where :: "('n \<times> 's \<Rightarrow> bool) \<Rightarrow> 'c \<Rightarrow> ('n \<times> 's) list \<Rightarrow> ('n \<times> 's) list" where
  "subs_where P c reg = map (\<lambda>(n, s). (n, if P (n, s) then sub c s else s)) reg"

definition reg_inv :: "('n \<times> 's) list \<Rightarrow> bool" where
  "reg_inv reg \<longleftrightarrow> (\<forall>(n, s) \<in> set reg. inv s)"

lemma reg_inv_unsub: "reg_inv reg \<Longrightarrow> reg_inv (everywhere_unsub i reg)"
  by (auto simp: reg_inv_def everywhere_unsub_def unsub_inv)

lemma reg_inv_subs_where: "reg_inv reg \<Longrightarrow> reg_inv (subs_where P c reg)"
  by (auto simp: reg_inv_def subs_where_def sub_inv)

lemma unsub_everywhere:
  "reg_inv reg \<Longrightarrow> (n, s) \<in> set (everywhere_unsub i reg) \<Longrightarrow> \<not> subed i s"
  by (auto simp: everywhere_unsub_def reg_inv_def subed_unsub)

lemma subs_where_exact:
  "reg_inv reg \<Longrightarrow> (n, s) \<in> set reg \<Longrightarrow>
   subed j (if P (n, s) then sub c s else s) \<longleftrightarrow> subed j s \<or> (P (n, s) \<and> j = ident c)"
  by (auto simp: reg_inv_def subed_sub)

lemma resub_idem: "inv s \<Longrightarrow> subed j (sub c (sub c s)) \<longleftrightarrow> subed j (sub c s)"
  by (auto simp: subed_sub sub_inv)

lemma sub_unsub_other:
  "inv s \<Longrightarrow> ident c \<noteq> i \<Longrightarrow> subed j (unsub i (sub c s)) \<longleftrightarrow> subed j (sub c (unsub i s))"
  by (auto simp: subed_sub subed_unsub sub_inv unsub_inv)

end

lemma on_subscribe_inv [inv_intros]: "service_inv sv \<Longrightarrow> service_inv (on_subscribe c sv)"
  by (auto simp: service_inv_def on_subscribe_def subs_ok_update dom_update map_of_None_keys)

lemma delete_keys_set: "fst ` set (AList.delete i al) = fst ` set al - {i}"
  by (auto simp: AList.delete_eq)

lemma on_unsubscribe_inv [inv_intros]: "service_inv sv \<Longrightarrow> service_inv (on_unsubscribe i sv)"
proof -
  have "A \<inter> B = {} \<Longrightarrow> (A - {i}) \<inter> B = {} \<and> A \<inter> (B - {i}) = {}" for A B :: "int set" by blast
  then show "service_inv sv \<Longrightarrow> ?thesis"
    by (simp add: service_inv_def on_unsubscribe_def subs_ok_delete delete_keys_set) auto
qed

lemma is_subed_keys: "is_subed i sv \<longleftrightarrow> i \<in> fst ` set (subscribes sv) \<union> fst ` set (new_subscribes sv)"
  by (simp add: is_subed_def map_of_None_keys)

interpretation svc: subscription on_subscribe on_unsubscribe is_subed conn_id service_inv
proof
  fix s c i j
  show "service_inv s \<Longrightarrow> service_inv (on_subscribe c s)" by (rule on_subscribe_inv)
  show "service_inv s \<Longrightarrow> service_inv (on_unsubscribe i s)" by (rule on_unsubscribe_inv)
  show "service_inv s \<Longrightarrow> is_subed j (on_subscribe c s) \<longleftrightarrow> j = conn_id c \<or> is_subed j s"
    by (auto simp: is_subed_keys on_subscribe_def dom_update map_of_None_keys)
  show "service_inv s \<Longrightarrow> is_subed j (on_unsubscribe i s) \<longleftrightarrow> j \<noteq> i \<and> is_subed j s"
    by (auto simp: is_subed_keys on_unsubscribe_def delete_keys_set map_of_None_keys service_inv_def)
qed

section \<open>Every run keeps the invariant\<close>

lemma service_inv_replace:
  "service_inv sv \<Longrightarrow> subs_ok ss \<Longrightarrow> fst ` set ss = fst ` set (subscribes sv) \<Longrightarrow>
     service_inv (sv\<lparr>subscribes := ss\<rparr>)"
  "service_inv sv \<Longrightarrow> subs_ok ns \<Longrightarrow> fst ` set ns = fst ` set (new_subscribes sv) \<Longrightarrow>
     service_inv (sv\<lparr>new_subscribes := ns\<rparr>)"
  by (auto simp: service_inv_def)

lemma service_inv_subs_ok: "service_inv sv \<Longrightarrow> subs_ok (subscribes sv) \<and> subs_ok (new_subscribes sv)"
  by (simp add: service_inv_def)

lemma service_inv_map:
  "keeps_ids f \<Longrightarrow> service_inv sv \<Longrightarrow> service_inv (sv\<lparr>subscribes := map f (subscribes sv)\<rparr>)"
  "keeps_ids f \<Longrightarrow> service_inv sv \<Longrightarrow> service_inv (sv\<lparr>new_subscribes := map f (new_subscribes sv)\<rparr>)"
  by (intro service_inv_replace keys_set_map subs_ok_map; simp add: service_inv_subs_ok)+

lemma service_inv_sends [inv_intros]:
  "service_inv sv \<Longrightarrow> service_inv (send_shared m sv)"
  "service_inv sv \<Longrightarrow> service_inv (send_new_subscribes m sv)"
  "service_inv sv \<Longrightarrow> service_inv (send_to_others m i sv)"
  "service_inv sv \<Longrightarrow> service_inv (send_without m i sv)"
  by (simp_all add: send_shared_def send_new_subscribes_def send_to_others_def send_without_def
      send_subs_def service_inv_map)

lemma send_to_inv [inv_intros]:
  assumes "service_inv sv"
  shows "service_inv (send_to m i sv)"
proof (cases "map_of (subscribes sv) i")
  case (Some s)
  moreover from Some have "i \<in> fst ` set (subscribes sv)" by (force dest: map_of_SomeD)
  moreover from Some assms have "conn_id s = i" by (auto simp: service_inv_def dest: subs_ok_lookup)
  ultimately show ?thesis
    using assms
    by (simp add: send_to_def, intro service_inv_replace)
      (auto simp: subs_ok_update dom_update service_inv_def)
qed (simp add: send_to_def assms)

lemma swap_new_subscribes_inv [inv_intros]: "service_inv sv \<Longrightarrow> service_inv (swap_new_subscribes sv)"
  by (simp add: service_inv_def swap_new_subscribes_def swap_fold) (simp add: subs_ok_def)

lemma service_step_inv: "service_inv sv \<Longrightarrow> service_inv (service_step e sv)"
  by (cases e) (auto intro: inv_intros
      simp: swap_send_shared_def send_video_frame_shared_def set_option_def service_join_def,
    auto simp: service_inv_def)

lemma service_inv_new: "service_inv (service_new name snap)"
  by (simp add: service_inv_def service_new_def subs_ok_def)

lemma service_run_inv: "service_inv sv \<Longrightarrow> service_inv (service_run es sv)"
  by (induction es arbitrary: sv) (simp_all add: service_step_inv)


text \<open>
  Whatever subscriptions, unsubscriptions, sends and snapshot swaps run on a service, in any
  order, its two hash maps stay consistent: keys are subscriber ids, no id is an ordinary and a
  new subscriber at once, and only a service with snapshots has new subscribers; a final
  unsubscribe removes the connection completely.
\<close>

theorem service_consistent:
  "service_inv (service_run es (service_new name snap))
   \<and> \<not> is_subed i (on_unsubscribe i (service_run es (service_new name snap)))
   \<and> is_subed (conn_id c) (on_subscribe c (service_run es (service_new name snap)))"
  by (simp add: service_run_inv service_inv_new svc.subed_unsub svc.subed_sub)

section \<open>Snapshots precede broadcasts\<close>

fun swap_messages :: "service_op list \<Rightarrow> message list" where
  "swap_messages [] = []"
| "swap_messages (SwapSend m # es) = m # swap_messages es"
| "swap_messages (e # es) = swap_messages es"

fun touches :: "int \<Rightarrow> service_op \<Rightarrow> bool" where
  "touches i (Subscribe c) \<longleftrightarrow> conn_id c = i"
| "touches i (Unsubscribe j) \<longleftrightarrow> j = i"
| "touches i SwapDrop \<longleftrightarrow> True"
| "touches i _ \<longleftrightarrow> False"

lemma map_of_send_subs: "map_of (send_subs m ss) i = map_option (conn_send m) (map_of ss i)"
  by (simp add: send_subs_def map_of_map)

lemma new_subscriber_step:
  assumes "service_inv sv" and "map_of (new_subscribes sv) i = Some s" and "\<not> touches i e"
  shows "map_of (new_subscribes (service_step e sv)) i = Some (fold conn_send (swap_messages [e]) s)"
  using assms
proof (cases e)
  case (Unsubscribe j)
  with assms show ?thesis by (simp add: on_unsubscribe_def)
next
  case (SwapSend m)
  with assms show ?thesis
    by (simp add: swap_send_shared_def send_new_subscribes_def map_of_send_subs)
qed (auto simp: on_subscribe_def send_shared_def send_to_def send_to_others_def send_without_def
    send_video_frame_shared_def set_option_def service_join_def update_conv split: option.splits)

lemma swap_messages_Cons: "swap_messages (e # es) = swap_messages [e] @ swap_messages es"
  by (cases e) simp_all

lemma new_subscriber_run:
  "service_inv sv \<Longrightarrow> map_of (new_subscribes sv) i = Some s \<Longrightarrow> list_all (\<lambda>e. \<not> touches i e) es \<Longrightarrow>
   map_of (new_subscribes (service_run es sv)) i = Some (fold conn_send (swap_messages es) s)"
proof (induction es arbitrary: sv s)
  case (Cons e es)
  then have "map_of (new_subscribes (service_step e sv)) i = Some (fold conn_send (swap_messages [e]) s)"
    by (intro new_subscriber_step) simp_all
  with Cons show ?case
    by (simp add: swap_messages_Cons [of e es] service_step_inv)
qed simp

lemma swapped_lookup:
  "service_inv sv \<Longrightarrow> map_of (new_subscribes sv) i = Some s \<Longrightarrow>
   map_of (subscribes (swap_new_subscribes sv)) i = Some s"
  by (simp add: service_inv_def swap_new_subscribes_def swap_lookup)

text \<open>
  A connection that subscribes to a service with snapshots has, when the snapshot is
  swapped in, received exactly the snapshot's messages sent since it subscribed, in their order,
  and none of the broadcasts other threads made meanwhile; from then on it is an ordinary
  subscriber.
\<close>

theorem snapshot_before_broadcast:
  assumes "service_inv sv" and "need_snapshot sv" and "\<not> is_subed (conn_id c) sv"
    and "list_all (\<lambda>e. \<not> touches (conn_id c) e) es"
  shows "map_of (subscribes (service_run (Subscribe c # es @ [SwapDrop]) sv)) (conn_id c)
           = Some (fold conn_send (swap_messages es) c)"
proof -
  let ?s0 = "on_subscribe c sv"
  have run_append: "service_run (xs @ ys) s = service_run ys (service_run xs s)" for xs ys s
    by (induction xs arbitrary: s) simp_all
  from assms have "map_of (new_subscribes ?s0) (conn_id c) = Some c"
    by (simp add: on_subscribe_def is_subed_def update_conv)
  with assms have "map_of (new_subscribes (service_run es ?s0)) (conn_id c)
      = Some (fold conn_send (swap_messages es) c)"
    by (intro new_subscriber_run on_subscribe_inv)
  with assms(1) show ?thesis
    by (simp add: run_append swapped_lookup service_run_inv on_subscribe_inv)
qed

theorem snapshot_before_broadcast_witness:
  "map_of (subscribes (service_run
      (Subscribe (conn_new 7 (Some []) None)
        # [SendShared (OtherMessage 1), SwapSend (OtherMessage 2), SendShared (OtherMessage 3)]
        @ [SwapDrop]) (service_new ''clipboard'' True))) 7
   = Some (conn_new 7 (Some [OtherMessage 2]) None)"
  using snapshot_before_broadcast [of "service_new ''clipboard'' True" "conn_new 7 (Some []) None"
      "[SendShared (OtherMessage 1), SwapSend (OtherMessage 2), SendShared (OtherMessage 3)]"]
  by (simp add: service_inv_new)
    (simp add: conn_new_def service_new_def is_subed_def conn_send_def Let_def del: service_run.simps)

section \<open>Addressed sends\<close>

lemma map_of_map_pred:
  "map_of (map (\<lambda>(k, s). if P k then (k, f s) else (k, s)) ss) i
     = (if P i then map_option f (map_of ss i) else map_of ss i)"
  by (induction ss) auto

text \<open>
  Who receives what: under the invariant \<open>send_to\<close> reaches only its addressee,
  \<open>send_to_others\<close> and \<open>send_without\<close> are the same operation and reach every ordinary subscriber
  except the named one, and a broadcast reaches all ordinary subscribers, whose ids
  \<open>send_video_frame\<close> returns.
\<close>

theorem send_addressing:
  assumes "service_inv sv"
  shows "map_of (subscribes (send_to m i sv)) j
           = (if j = i then map_option (conn_send m) (map_of (subscribes sv) j) else map_of (subscribes sv) j)
    \<and> map_of (subscribes (send_to_others m i sv)) j
           = (if j \<noteq> i then map_option (conn_send m) (map_of (subscribes sv) j) else map_of (subscribes sv) j)
    \<and> send_without m i sv = send_to_others m i sv
    \<and> map_of (subscribes (snd (send_video_frame_shared m sv))) j = map_option (conn_send m) (map_of (subscribes sv) j)
    \<and> fst (send_video_frame_shared m sv) = {j. map_of (subscribes sv) j \<noteq> None}"
proof -
  have ids: "conn_id (snd p) = fst p" if "p \<in> set (subscribes sv)" for p
    using assms that by (simp add: service_inv_def subs_ok_alt)
  have "map_of (subscribes (send_to m i sv)) j
           = (if j = i then map_option (conn_send m) (map_of (subscribes sv) j) else map_of (subscribes sv) j)"
    by (auto simp: send_to_def update_conv split: option.splits)
  moreover have "send_without m i sv = send_to_others m i sv"
    using ids by (auto simp: send_without_def send_to_others_def case_prod_unfold intro!: arg_cong2 [of _ _ _ _ subscribes_update] map_cong)
  moreover have "(\<lambda>p. conn_id (snd p)) ` set (subscribes sv) = fst ` set (subscribes sv)"
    using ids by (intro image_cong) simp_all
  then have "fst (send_video_frame_shared m sv) = {j. map_of (subscribes sv) j \<noteq> None}"
    by (auto simp: send_video_frame_shared_def map_of_eq_None_iff case_prod_unfold)
  ultimately show ?thesis
    by (simp add: send_to_others_def map_of_map_pred [of "\<lambda>k. k \<noteq> i"] send_video_frame_shared_def
        send_shared_def map_of_send_subs)
qed

theorem send_addressing_witness:
  "map_of (subscribes (send_to (OtherMessage 5) 2 (on_subscribe (conn_new 2 (Some []) None) (service_new ''a'' False)))) 2
     = Some (conn_new 2 (Some [OtherMessage 5]) None)"
  using send_addressing [of "on_subscribe (conn_new 2 (Some []) None) (service_new ''a'' False)" "OtherMessage 5" 2 2]
  by (simp add: on_subscribe_inv service_inv_new) (simp add: on_subscribe_def service_new_def conn_new_def conn_send_def)

section \<open>The service loops\<close>

text \<open>Whether a trace runs the callback and \<open>reset\<close> only on an initialised state.\<close>

fun init_discipline :: "bool \<Rightarrow> thread_action list \<Rightarrow> bool" where
  "init_discipline up [] \<longleftrightarrow> True"
| "init_discipline up (CallInit # as) \<longleftrightarrow> \<not> up \<and> init_discipline True as"
| "init_discipline up (Callback # as) \<longleftrightarrow> up \<and> init_discipline True as"
| "init_discipline up (CallReset # as) \<longleftrightarrow> up \<and> init_discipline False as"
| "init_discipline up (Sleep _ # as) \<longleftrightarrow> init_discipline up as"

lemma repeat_iter_discipline:
  "repeat_iter iv m obs = (acts, m') \<Longrightarrow> init_discipline m (acts @ as) \<longleftrightarrow> init_discipline m' as"
  by (cases obs) (auto simp: repeat_iter_def Let_def split: if_splits)

text \<open>
  Whatever a service's thread observes, \<open>repeat\<close> initialises the callback's state before the
  first call, never twice in a row, and resets it only once per idle period: every call and every
  reset finds an initialised state.
\<close>

theorem repeat_init_discipline: "init_discipline m (repeat_loop interval m os)"
  by (induction os arbitrary: m) (auto simp: repeat_iter_discipline split: prod.split)

fun sleeps :: "thread_action list \<Rightarrow> u64 list" where
  "sleeps [] = []"
| "sleeps (Sleep w # as) = w # sleeps as"
| "sleeps (_ # as) = sleeps as"

lemma sleeps_append [simp]: "sleeps (as @ bs) = sleeps as @ sleeps bs"
proof (induction as)
  case (Cons a as)
  then show ?case by (cases a) simp_all
qed simp

lemma run_iter_backoff:
  assumes "30 \<le> t" and "t \<le> 1000" and "run_iter t (sv, failed, elapsed) = (acts, t')"
  shows "30 \<le> t' \<and> t' \<le> 1000 \<and> (\<forall>w \<in> set (sleeps acts). 30 \<le> w \<and> w \<le> 1000)
    \<and> (has_subscribes sv \<and> failed \<and> elapsed \<le> 1000 \<longrightarrow> unat t' = min 1000 (2 * unat t))"
proof -
  from assms(1,2) have u: "30 \<le> unat t" "unat t \<le> 1000" by (simp_all add: word_le_nat_alt)
  then have d: "unat (t * 2) = 2 * unat t"
    by (simp add: unat_word_ariths(2))
  show ?thesis
    using assms(3) u d
    by (auto simp: run_iter_def Let_def word_le_nat_alt word_less_nat_alt split: if_splits)
qed

text \<open>
  The error back-off of \<open>run\<close> never overflows and never starves: starting at 30 milliseconds,
  in every trace of the loop each sleep lasts between 30 and 1000 milliseconds.
\<close>

theorem run_backoff:
  assumes "30 \<le> t" and "t \<le> 1000" and "w \<in> set (sleeps (run_loop t os))"
  shows "30 \<le> w \<and> w \<le> 1000"
  using assms
proof (induction os arbitrary: t)
  case (Cons obs os)
  obtain sv failed elapsed where o: "obs = (sv, failed, elapsed)" by (cases obs)
  obtain acts t' where it: "run_iter t obs = (acts, t')" by fastforce
  note step = run_iter_backoff [OF Cons.prems(1,2) it [unfolded o]]
  with Cons.IH [of t'] Cons.prems(3) it show ?case by (auto split: if_splits)
qed simp

theorem run_backoff_witness:
  "(1000::u64) \<in> set (sleeps (run_loop 640 [(on_subscribe (conn_new 1 None None) (service_new ''v'' False), True, 5)]))
   \<and> (30::u64) \<le> 1000"
  using run_backoff [of 640 1000 "[(on_subscribe (conn_new 1 None None) (service_new ''v'' False), True, 5)]"]
  by (simp add: run_iter_def on_subscribe_def service_new_def has_subscribes_def Let_def)

end
