(* ===== verification/Server_Registry.thy ===== *)
theory Server_Registry
  imports Service Rust_Strings
begin

text \<open>
  The registry of \<open>src/server.rs\<close>: the services by name, the connections by id and the id
  counter. The registry is a client of the subscription contract of theory \<open>Service\<close>; the
  display and camera hardware (\<open>PRIMARY_DISPLAY_IDX\<close>, \<open>primary_camera_exists\<close>) are arguments.
\<close>

section \<open>Video service names\<close>

datatype video_source = Monitor | Camera

fun service_name_prefix :: "video_source \<Rightarrow> string" where
  "service_name_prefix Monitor = ''monitor''"
| "service_name_prefix Camera = ''camera''"

fun is_monitor :: "video_source \<Rightarrow> bool" where
  "is_monitor Monitor = True"
| "is_monitor Camera = False"

fun is_camera :: "video_source \<Rightarrow> bool" where
  "is_camera Monitor = False"
| "is_camera Camera = True"

definition get_service_name :: "video_source \<Rightarrow> nat \<Rightarrow> string" where
  "get_service_name source idx = service_name_prefix source @ show_nat idx"

definition is_video_service_name :: "string \<Rightarrow> bool" where
  "is_video_service_name name \<longleftrightarrow>
     starts_with name (service_name_prefix Monitor) \<or> starts_with name (service_name_prefix Camera)"

lemma get_service_name_inj: "get_service_name s i = get_service_name t j \<longleftrightarrow> s = t \<and> i = j"
  by (cases s; cases t) (auto simp: get_service_name_def)

lemma is_video_get_service_name [simp]: "is_video_service_name (get_service_name s i)"
  by (cases s) (simp_all add: is_video_service_name_def get_service_name_def starts_with_def)

section \<open>The server\<close>

record server =
  connections :: subscribers
  services :: "(string \<times> service_inner) list"
  id_count :: int

text \<open>\<open>i32\<close> arithmetic of release builds.\<close>

definition i32_wrap :: "int \<Rightarrow> int" where
  "i32_wrap x = (x + 2 ^ 31) mod 2 ^ 32 - 2 ^ 31"

text \<open>Rust's \<open>%\<close> has the sign of the dividend.\<close>

definition i32_rem :: "int \<Rightarrow> int \<Rightarrow> int" where
  "i32_rem x y = (if x \<ge> 0 then x mod y else - ((- x) mod y))"

definition add_service :: "service_inner \<Rightarrow> server \<Rightarrow> server" where
  "add_service sv srv = srv\<lparr>services := AList.update (svc_name sv) sv (services srv)\<rparr>"

text \<open>\<open>new\<close>: which services are added depends on the platform; \<open>rnd\<close> is the random number.\<close>

definition server_new :: "int \<Rightarrow> service_inner list \<Rightarrow> server" where
  "server_new rnd svs =
     fold add_service svs \<lparr>connections = [], services = [], id_count = i32_rem rnd 1000 + 1000\<rparr>"

definition contains_service :: "string \<Rightarrow> server \<Rightarrow> bool" where
  "contains_service name srv \<longleftrightarrow> map_of (services srv) name \<noteq> None"

definition video_service_new :: "video_source \<Rightarrow> nat \<Rightarrow> service_inner" where
  "video_service_new source idx = (service_new (get_service_name source idx) True)\<lparr>svc_handle := True\<rparr>"

definition try_add_primary_camera_service :: "bool \<Rightarrow> server \<Rightarrow> server" where
  "try_add_primary_camera_service primary_camera_exists srv =
     (if \<not> primary_camera_exists then srv
      else if \<not> contains_service (get_service_name Camera 0) srv
      then add_service (video_service_new Camera 0) srv
      else srv)"

definition try_add_primay_video_service :: "nat \<Rightarrow> server \<Rightarrow> server" where
  "try_add_primay_video_service primary_display_idx srv =
     (if \<not> contains_service (get_service_name Monitor primary_display_idx) srv
      then add_service (video_service_new Monitor primary_display_idx) srv
      else srv)"

definition insert_connection :: "conn_inner \<Rightarrow> server \<Rightarrow> server" where
  "insert_connection conn srv = srv\<lparr>connections := AList.update (conn_id conn) conn (connections srv)\<rparr>"

definition add_camera_connection :: "bool \<Rightarrow> conn_inner \<Rightarrow> server \<Rightarrow> server" where
  "add_camera_connection primary_camera_exists conn srv =
     insert_connection conn
       (if primary_camera_exists then
          (let name = get_service_name Camera 0 in
           case map_of (services srv) name of
             Some s \<Rightarrow> srv\<lparr>services := AList.update name (on_subscribe conn s) (services srv)\<rparr>
           | None \<Rightarrow> srv)
        else srv)"

definition add_connection :: "nat \<Rightarrow> conn_inner \<Rightarrow> string list \<Rightarrow> server \<Rightarrow> server" where
  "add_connection primary_display_idx conn noperms srv =
     (let primary = get_service_name Monitor primary_display_idx;
          visit = (\<lambda>(k, s). let name = svc_name s in
            if is_video_service_name name \<and> name \<noteq> primary then (k, s)
            else if name \<notin> set noperms then (k, on_subscribe conn s)
            else (k, s))
      in insert_connection conn (srv\<lparr>services := map visit (services srv)\<rparr>))"

definition remove_connection :: "conn_inner \<Rightarrow> server \<Rightarrow> server" where
  "remove_connection conn srv =
     srv\<lparr>services := map (\<lambda>(k, s). (k, on_unsubscribe (conn_id conn) s)) (services srv),
         connections := AList.delete (conn_id conn) (connections srv)\<rparr>"

definition close_connections :: "message \<Rightarrow> server \<Rightarrow> server" where
  "close_connections stop_service srv =
     srv\<lparr>connections := map (\<lambda>(i, c). (i, conn_send stop_service c)) (connections srv)\<rparr>"

definition server_subscribe :: "string \<Rightarrow> conn_inner \<Rightarrow> bool \<Rightarrow> server \<Rightarrow> server" where
  "server_subscribe name conn sub srv =
     (case map_of (services srv) name of
        None \<Rightarrow> srv
      | Some s \<Rightarrow>
          if is_subed (conn_id conn) s = sub then srv
          else srv\<lparr>services := AList.update name
                     (if sub then on_subscribe conn s else on_unsubscribe (conn_id conn) s)
                     (services srv)\<rparr>)"

definition get_new_id :: "server \<Rightarrow> int \<times> server" where
  "get_new_id srv = (let n = i32_wrap (id_count srv + 1) in (n, srv\<lparr>id_count := n\<rparr>))"

definition set_video_service_opt :: "(video_source \<times> nat) option \<Rightarrow> string \<Rightarrow> string \<Rightarrow> server \<Rightarrow> server" where
  "set_video_service_opt display opt val srv =
     srv\<lparr>services := map (\<lambda>(k, v).
        if (case display of Some (source, d) \<Rightarrow> k \<noteq> get_service_name source d | None \<Rightarrow> False) then (k, v)
        else if is_video_service_name k then (k, snd (set_option opt val v))
        else (k, v)) (services srv)\<rparr>"

definition get_subbed_displays_count :: "int \<Rightarrow> server \<Rightarrow> nat" where
  "get_subbed_displays_count i srv =
     length (filter (\<lambda>k. is_video_service_name k \<and>
        (case map_of (services srv) k of Some s \<Rightarrow> is_subed i s | None \<Rightarrow> False)) (map fst (services srv)))"

definition capture_displays :: "conn_inner \<Rightarrow> video_source \<Rightarrow> nat list \<Rightarrow> bool \<Rightarrow> bool \<Rightarrow> server \<Rightarrow> server" where
  "capture_displays conn source displays include exclude srv =
     (let names = map (get_service_name source) displays;
          visit = (\<lambda>name srv.
            if is_video_service_name name then
              (if name \<in> set names
               then (if include then server_subscribe name conn True srv else srv)
               else (if exclude then server_subscribe name conn False srv else srv))
            else srv)
      in fold visit (map fst (services srv)) srv)"

text \<open>\<open>update_enable_retina\<close>: the value stored in \<open>ENABLE_RETINA\<close>.\<close>

definition update_enable_retina :: "server \<Rightarrow> bool" where
  "update_enable_retina srv \<longleftrightarrow>
     length (filter (\<lambda>(name, s). is_video_service_name name \<and> service_ok s) (services srv)) < 2"

definition server_drop :: "server \<Rightarrow> server" where
  "server_drop srv = srv\<lparr>services := map (\<lambda>(k, s). (k, service_join s)) (services srv)\<rparr>"

section \<open>The registry invariant\<close>

definition server_inv :: "server \<Rightarrow> bool" where
  "server_inv srv \<longleftrightarrow> distinct (map fst (services srv))
     \<and> (\<forall>p \<in> set (services srv). svc_name (snd p) = fst p \<and> service_inv (snd p))
     \<and> subs_ok (connections srv)"

lemma server_inv_reg: "server_inv srv \<Longrightarrow> svc.reg_inv (services srv)"
  by (auto simp: server_inv_def svc.reg_inv_def)

lemma svc_name_ops [simp]:
  "svc_name (on_subscribe c s) = svc_name s" "svc_name (on_unsubscribe i s) = svc_name s"
  "svc_name (snd (set_option k v s)) = svc_name s" "svc_name (service_join s) = svc_name s"
  by (simp_all add: on_subscribe_def on_unsubscribe_def set_option_def service_join_def)

lemma service_inv_opts [simp]:
  "service_inv (snd (set_option k v s)) = service_inv s" "service_inv (service_join s) = service_inv s"
  by (simp_all add: service_inv_def set_option_def service_join_def)

lemma server_inv_services:
  "server_inv srv \<Longrightarrow> (\<And>p. fst (f p) = fst p \<and> svc_name (snd (f p)) = svc_name (snd p)
     \<and> (service_inv (snd p) \<longrightarrow> service_inv (snd (f p)))) \<Longrightarrow>
   server_inv (srv\<lparr>services := map f (services srv)\<rparr>)"
  unfolding server_inv_def by (simp add: comp_def del: split_paired_All)

lemma server_inv_update:
  "server_inv srv \<Longrightarrow> svc_name s = k \<Longrightarrow> service_inv s \<Longrightarrow>
   server_inv (srv\<lparr>services := AList.update k s (services srv)\<rparr>)"
  using set_update_subset [of k s "services srv"] by (auto simp: server_inv_def distinct_update)

lemma server_inv_lookup:
  "server_inv srv \<Longrightarrow> map_of (services srv) k = Some s \<Longrightarrow> svc_name s = k \<and> service_inv s"
  by (force simp: server_inv_def dest: map_of_SomeD)

lemma insert_connection_inv: "server_inv srv \<Longrightarrow> server_inv (insert_connection c srv)"
  by (simp add: server_inv_def insert_connection_def subs_ok_update)

lemma add_service_inv [inv_intros]: "server_inv srv \<Longrightarrow> service_inv s \<Longrightarrow> server_inv (add_service s srv)"
  by (simp add: add_service_def server_inv_update)

lemma video_service_new_ok: "service_inv (video_service_new src i)"
  using service_inv_new [of "get_service_name src i" True]
  by (simp add: video_service_new_def service_inv_def)

lemma server_new_inv: "list_all service_inv svs \<Longrightarrow> server_inv (server_new r svs)"
proof -
  have gen: "server_inv s \<Longrightarrow> list_all service_inv svs \<Longrightarrow> server_inv (fold add_service svs s)" for s
    by (induction svs arbitrary: s) (simp_all add: add_service_inv)
  have "server_inv \<lparr>connections = [], services = [], id_count = k\<rparr>" for k
    by (simp add: server_inv_def subs_ok_def)
  then show "list_all service_inv svs \<Longrightarrow> ?thesis"
    unfolding server_new_def by (intro gen)
qed

lemma add_connection_services:
  "services (add_connection d c np srv) =
     svc.subs_where (\<lambda>(n, s). (is_video_service_name (svc_name s) \<longrightarrow> svc_name s = get_service_name Monitor d)
                        \<and> svc_name s \<notin> set np) c (services srv)"
  by (auto simp: add_connection_def insert_connection_def svc.subs_where_def Let_def)

lemma remove_connection_services:
  "services (remove_connection c srv) = svc.everywhere_unsub (conn_id c) (services srv)"
  by (simp add: remove_connection_def svc.everywhere_unsub_def)

lemma add_connection_inv [inv_intros]: "server_inv srv \<Longrightarrow> server_inv (add_connection d c np srv)"
  unfolding add_connection_def Let_def
  by (intro insert_connection_inv server_inv_services) (auto simp: on_subscribe_inv split: if_splits)

lemma remove_connection_inv [inv_intros]:
  assumes "server_inv srv"
  shows "server_inv (remove_connection c srv)"
proof -
  have "server_inv (srv\<lparr>services := map (\<lambda>(k, s). (k, on_unsubscribe (conn_id c) s)) (services srv)\<rparr>)"
    using assms by (intro server_inv_services) (auto simp: on_unsubscribe_inv)
  then show ?thesis by (simp add: remove_connection_def server_inv_def subs_ok_delete)
qed

lemma add_camera_connection_inv [inv_intros]:
  "server_inv srv \<Longrightarrow> server_inv (add_camera_connection e c srv)"
  unfolding add_camera_connection_def Let_def
  by (intro insert_connection_inv) (auto split: option.splits
      intro!: server_inv_update on_subscribe_inv dest: server_inv_lookup)

lemma server_subscribe_inv [inv_intros]: "server_inv srv \<Longrightarrow> server_inv (server_subscribe n c b srv)"
  by (auto simp: server_subscribe_def split: option.splits
      intro!: server_inv_update on_subscribe_inv on_unsubscribe_inv dest: server_inv_lookup)

lemma close_connections_inv [inv_intros]: "server_inv srv \<Longrightarrow> server_inv (close_connections m srv)"
  by (simp add: close_connections_def server_inv_def subs_ok_map)

lemma set_video_service_opt_inv [inv_intros]: "server_inv srv \<Longrightarrow> server_inv (set_video_service_opt d k v srv)"
  unfolding set_video_service_opt_def
  by (intro server_inv_services) (auto split: option.splits if_splits)

lemma server_drop_inv [inv_intros]: "server_inv srv \<Longrightarrow> server_inv (server_drop srv)"
  unfolding server_drop_def by (intro server_inv_services) auto

lemma try_add_inv [inv_intros]:
  "server_inv srv \<Longrightarrow> server_inv (try_add_primary_camera_service e srv)"
  "server_inv srv \<Longrightarrow> server_inv (try_add_primay_video_service d srv)"
  by (simp_all add: try_add_primary_camera_service_def try_add_primay_video_service_def
      add_service_inv video_service_new_ok)

lemma fold_inv: "P s \<Longrightarrow> (\<And>x s. P s \<Longrightarrow> P (f x s)) \<Longrightarrow> P (fold f xs s)"
  by (induction xs arbitrary: s) simp_all

lemma capture_displays_inv [inv_intros]: "server_inv srv \<Longrightarrow> server_inv (capture_displays c src ds i e srv)"
  unfolding capture_displays_def Let_def
  by (rule fold_inv) (simp_all add: server_subscribe_inv)

lemma get_new_id_inv [inv_intros]: "server_inv srv \<Longrightarrow> server_inv (snd (get_new_id srv))"
  by (simp add: get_new_id_def server_inv_def Let_def)

section \<open>Who is subscribed where\<close>

definition subed_at :: "int \<Rightarrow> string \<Rightarrow> server \<Rightarrow> bool" where
  "subed_at i n srv \<longleftrightarrow> (case map_of (services srv) n of Some s \<Rightarrow> is_subed i s | None \<Rightarrow> False)"

lemma subed_at_subscribe:
  "server_inv srv \<Longrightarrow>
   subed_at i n (server_subscribe m c b srv) \<longleftrightarrow>
     (if n = m \<and> contains_service m srv \<and> i = conn_id c then b else subed_at i n srv)"
  by (auto simp: subed_at_def server_subscribe_def contains_service_def update_conv
      svc.subed_sub svc.subed_unsub split: option.splits dest: server_inv_lookup)

lemma contains_subscribe [simp]: "contains_service k (server_subscribe m c b srv) = contains_service k srv"
  by (auto simp: contains_service_def server_subscribe_def update_conv split: option.splits)

text \<open>The wanted subscription of one service after \<open>capture_displays\<close>, \<open>None\<close> for no change.\<close>

definition captured :: "string list \<Rightarrow> bool \<Rightarrow> bool \<Rightarrow> string \<Rightarrow> bool option" where
  "captured names include exclude n =
     (if is_video_service_name n
      then (if n \<in> set names then (if include then Some True else None)
            else (if exclude then Some False else None))
      else None)"

lemma capture_fold:
  assumes "server_inv srv" and "\<And>k. k \<in> set ks \<Longrightarrow> contains_service k srv"
  shows "subed_at i n (fold (\<lambda>name srv. case want name of None \<Rightarrow> srv | Some b \<Rightarrow> server_subscribe name c b srv) ks srv)
    \<longleftrightarrow> (case want n of Some b \<Rightarrow> if n \<in> set ks \<and> i = conn_id c then b else subed_at i n srv
                      | None \<Rightarrow> subed_at i n srv)"
  using assms
proof (induction ks arbitrary: srv)
  case (Cons k ks)
  then show ?case
    by (cases "want k") (auto simp: subed_at_subscribe server_subscribe_inv split: option.splits)
qed (simp split: option.split)

lemma capture_displays_captured:
  "capture_displays c src ds inc exc srv =
     fold (\<lambda>name srv. case captured (map (get_service_name src) ds) inc exc name of
             None \<Rightarrow> srv | Some b \<Rightarrow> server_subscribe name c b srv) (map fst (services srv)) srv"
  unfolding capture_displays_def Let_def
  by (intro fold_cong) (auto simp: captured_def)

lemma contains_service_keys: "contains_service k srv \<longleftrightarrow> k \<in> set (map fst (services srv))"
  by (simp add: contains_service_def map_of_eq_None_iff)

text \<open>
  C10. After \<open>capture_displays\<close> with inclusion and exclusion a connection is subscribed, among the
  video services, to exactly the requested displays that have a service; its other subscriptions
  and those of all other connections are untouched. With inclusion or exclusion alone, only the
  requested, respectively only the other, video services change.
\<close>

theorem capture_displays_exact:
  assumes "server_inv srv"
  shows "subed_at i n (capture_displays c src ds inc exc srv) \<longleftrightarrow>
     (if i = conn_id c \<and> is_video_service_name n \<and> contains_service n srv
      then (if n \<in> set (map (get_service_name src) ds)
            then inc \<or> subed_at i n srv
            else \<not> exc \<and> subed_at i n srv)
      else subed_at i n srv)"
proof -
  have "\<not> contains_service n srv \<Longrightarrow> \<not> subed_at i n srv"
    by (auto simp: contains_service_def subed_at_def split: option.splits)
  with capture_fold [of srv "map fst (services srv)" i n c "captured (map (get_service_name src) ds) inc exc"] assms
  show ?thesis
    by (auto simp: capture_displays_captured contains_service_keys captured_def)
qed

theorem capture_displays_exact_witness:
  "\<not> subed_at 3 ''monitor0'' (capture_displays (conn_new 3 None None) Monitor [1] True True
      (server_subscribe ''monitor0'' (conn_new 3 None None) True
        (server_new 5 [video_service_new Monitor 0, video_service_new Monitor 1])))"
proof -
  let ?c = "conn_new 3 None None"
  let ?srv = "server_subscribe ''monitor0'' ?c True
        (server_new 5 [video_service_new Monitor 0, video_service_new Monitor 1])"
  have inv: "server_inv ?srv"
    by (intro server_subscribe_inv server_new_inv) (simp add: video_service_new_ok)
  have n: "''monitor0'' = get_service_name Monitor 0"
    by code_simp
  have "get_service_name Monitor 0 \<noteq> get_service_name Monitor 1" by (simp add: get_service_name_inj)
  moreover have "contains_service (get_service_name Monitor 0) (server_new 5 [video_service_new Monitor 0, video_service_new Monitor 1])"
    by (simp add: server_new_def add_service_def contains_service_def video_service_new_def service_new_def get_service_name_inj)
  ultimately show ?thesis
    unfolding n using capture_displays_exact [OF inv, unfolded n, of 3 "get_service_name Monitor 0" ?c Monitor "[1]" True True]
    by (simp add: conn_new_def)
qed

section \<open>Runs of the registry\<close>

datatype server_op =
    AddConnection conn_inner "string list" | AddCameraConnection conn_inner
  | RemoveConnection conn_inner | CloseConnections message
  | ServerSubscribe string conn_inner bool | NewId
  | SetVideoOpt "(video_source \<times> nat) option" string string
  | CaptureDisplays conn_inner video_source "nat list" bool bool
  | TryAddCamera | TryAddVideo | AddVideoService video_source nat
  | ServiceOp string service_op

text \<open>
  One call on the registry, the hardware being \<open>d\<close> (index of the primary display) and \<open>e\<close>
  (whether there is a camera). \<open>ServiceOp\<close> is a step of a service's own thread.
\<close>

fun server_step :: "nat \<Rightarrow> bool \<Rightarrow> server_op \<Rightarrow> server \<Rightarrow> server" where
  "server_step d e (AddConnection c np) srv = add_connection d c np srv"
| "server_step d e (AddCameraConnection c) srv = add_camera_connection e c srv"
| "server_step d e (RemoveConnection c) srv = remove_connection c srv"
| "server_step d e (CloseConnections m) srv = close_connections m srv"
| "server_step d e (ServerSubscribe n c b) srv = server_subscribe n c b srv"
| "server_step d e NewId srv = snd (get_new_id srv)"
| "server_step d e (SetVideoOpt dsp k v) srv = set_video_service_opt dsp k v srv"
| "server_step d e (CaptureDisplays c s ds i x) srv = capture_displays c s ds i x srv"
| "server_step d e TryAddCamera srv = try_add_primary_camera_service e srv"
| "server_step d e TryAddVideo srv = try_add_primay_video_service d srv"
| "server_step d e (AddVideoService s i) srv = add_service (video_service_new s i) srv"
| "server_step d e (ServiceOp n op) srv =
     (case map_of (services srv) n of
        Some s \<Rightarrow> srv\<lparr>services := AList.update n (service_step op s) (services srv)\<rparr>
      | None \<Rightarrow> srv)"

lemma service_step_name: "svc_name (service_step op s) = svc_name s"
  by (cases op) (simp_all add: send_shared_def send_to_def send_to_others_def send_without_def
      send_video_frame_shared_def swap_send_shared_def send_new_subscribes_def swap_new_subscribes_def
      split: option.splits)

lemma server_step_inv: "server_inv srv \<Longrightarrow> server_inv (server_step d e op srv)"
proof (cases op)
  case (ServiceOp n sop)
  then show "server_inv srv \<Longrightarrow> ?thesis"
    by (auto simp: service_step_name split: option.splits
        intro!: server_inv_update service_step_inv dest: server_inv_lookup)
qed (simp_all add: inv_intros video_service_new_ok)

lemma server_run_inv: "server_inv srv \<Longrightarrow> server_inv (fold (server_step d e) ops srv)"
  by (rule fold_inv) (simp_all add: server_step_inv)

lemma map_of_map_snd: "map_of (map (\<lambda>(k, s). (k, f k s)) al) n = map_option (f n) (map_of al n)"
  by (induction al) auto

lemma subed_at_add_connection:
  assumes "server_inv srv"
  shows "subed_at i n (add_connection d c np srv) \<longleftrightarrow>
     subed_at i n srv \<or> (i = conn_id c \<and> contains_service n srv \<and> n \<notin> set np
       \<and> (is_video_service_name n \<longrightarrow> n = get_service_name Monitor d))"
    "contains_service n (add_connection d c np srv) \<longleftrightarrow> contains_service n srv"
proof -
  let ?P = "\<lambda>n. (is_video_service_name n \<longrightarrow> n = get_service_name Monitor d) \<and> n \<notin> set np"
  have "services (add_connection d c np srv)
      = map (\<lambda>(k, s). (k, if ?P (svc_name s) then on_subscribe c s else s)) (services srv)"
    by (simp add: add_connection_services svc.subs_where_def case_prod_unfold)
  also have "\<dots> = map (\<lambda>(k, s). (k, if ?P k then on_subscribe c s else s)) (services srv)"
    using assms by (intro map_cong) (auto simp: server_inv_def)
  finally have add: "map_of (services (add_connection d c np srv)) n
      = map_option (\<lambda>s. if ?P n then on_subscribe c s else s) (map_of (services srv) n)"
    by (simp only: map_of_map_snd)
  with server_inv_lookup [OF assms, of n]
  show "subed_at i n (add_connection d c np srv) \<longleftrightarrow>
     subed_at i n srv \<or> (i = conn_id c \<and> contains_service n srv \<and> n \<notin> set np
       \<and> (is_video_service_name n \<longrightarrow> n = get_service_name Monitor d))"
    by (auto simp: subed_at_def contains_service_def svc.subed_sub split: option.split)
  from add show "contains_service n (add_connection d c np srv) \<longleftrightarrow> contains_service n srv"
    by (simp add: contains_service_def)
qed

text \<open>
  C8. After any run of registry and service operations from a fresh server, adding a connection
  subscribes it to exactly the services that are not withheld by \<open>noperms\<close> and, of the video
  services, only to the one of the primary display; removing the connection leaves it subscribed
  nowhere and unregistered, without touching anybody else.
\<close>

theorem connection_lifecycle:
  assumes "list_all service_inv svs" and "srv = fold (server_step d e) ops (server_new r svs)"
  shows "(subed_at i n (add_connection d c np srv) \<longleftrightarrow>
            subed_at i n srv \<or> (i = conn_id c \<and> contains_service n srv \<and> n \<notin> set np
               \<and> (is_video_service_name n \<longrightarrow> n = get_service_name Monitor d)))
    \<and> (subed_at i n (remove_connection c srv) \<longleftrightarrow> i \<noteq> conn_id c \<and> subed_at i n srv)
    \<and> map_of (connections (add_connection d c np srv)) (conn_id c) = Some c
    \<and> map_of (connections (remove_connection c srv)) i =
        (if i = conn_id c then None else map_of (connections srv) i)"
proof -
  have inv: "server_inv srv"
    unfolding assms(2) by (intro server_run_inv server_new_inv assms(1))
  have "map_of (services (remove_connection c srv)) n
      = map_option (on_unsubscribe (conn_id c)) (map_of (services srv) n)"
    by (simp add: remove_connection_def map_of_map_snd)
  with server_inv_lookup [OF inv, of n]
  have "subed_at i n (remove_connection c srv) \<longleftrightarrow> i \<noteq> conn_id c \<and> subed_at i n srv"
    by (auto simp: subed_at_def svc.subed_unsub split: option.split)
  moreover have "map_of (connections (add_connection d c np srv)) (conn_id c) = Some c"
    "map_of (connections (remove_connection c srv)) i = (if i = conn_id c then None else map_of (connections srv) i)"
    by (simp_all add: add_connection_def insert_connection_def remove_connection_def update_conv delete_conv Let_def)
  ultimately show ?thesis by (simp add: subed_at_add_connection [OF inv])
qed

theorem connection_lifecycle_witness:
  "\<not> subed_at 3 ''clipboard'' (add_connection 0 (conn_new 3 None None) [''clipboard''] (server_new 5 [service_new ''clipboard'' True]))
   \<and> subed_at 3 ''clipboard'' (add_connection 0 (conn_new 3 None None) [] (server_new 5 [service_new ''clipboard'' True]))"
proof -
  let ?c = "conn_new 3 None None" and ?srv = "server_new 5 [service_new ''clipboard'' True]"
  have srv: "?srv = fold (server_step 0 False) [] ?srv" by simp
  have inv: "list_all service_inv [service_new ''clipboard'' True]" by (simp add: service_inv_new)
  have "contains_service ''clipboard'' ?srv" and "\<not> is_video_service_name ''clipboard''" and "\<not> subed_at 3 ''clipboard'' ?srv"
    by code_simp+
  then show ?thesis
    using connection_lifecycle [OF inv srv, of 3 "''clipboard''" ?c "[''clipboard'']"]
      connection_lifecycle [OF inv srv, of 3 "''clipboard''" ?c "[]"]
    by (simp add: conn_new_def)
qed

section \<open>Connection ids\<close>

fun new_ids :: "nat \<Rightarrow> server \<Rightarrow> int list" where
  "new_ids 0 srv = []"
| "new_ids (Suc k) srv = fst (get_new_id srv) # new_ids k (snd (get_new_id srv))"

lemma i32_wrap_id: "- (2 ^ 31) \<le> x \<Longrightarrow> x < 2 ^ 31 \<Longrightarrow> i32_wrap x = x"
  by (simp add: i32_wrap_def)

lemma new_ids_upto:
  "0 \<le> id_count srv \<Longrightarrow> id_count srv + int k < 2 ^ 31 \<Longrightarrow>
   new_ids k srv = map (\<lambda>j. id_count srv + 1 + int j) [0..<k]"
proof (induction k arbitrary: srv)
  case (Suc k)
  have "fst (get_new_id srv) = id_count srv + 1" and "id_count (snd (get_new_id srv)) = id_count srv + 1"
    using Suc.prems by (simp_all add: get_new_id_def Let_def i32_wrap_id)
  with Suc.IH [of "snd (get_new_id srv)"] Suc.prems show ?case
    by (simp add: upt_conv_Cons map_Suc_upt [symmetric] del: upt_Suc)
qed simp

lemma id_count_new: "0 < id_count (server_new r svs) \<and> id_count (server_new r svs) < 2000"
proof -
  have "id_count (fold add_service svs s) = id_count s" for s
    by (induction svs arbitrary: s) (simp_all add: add_service_def)
  moreover have "- 1000 < i32_rem r 1000 \<and> i32_rem r 1000 < 1000"
    by (simp add: i32_rem_def) (smt (verit) pos_mod_bound pos_mod_sign)
  ultimately show ?thesis by (simp add: server_new_def)
qed

text \<open>
  Whatever the random start, the first two billion connection ids handed out by a server are
  positive and pairwise distinct.
\<close>

theorem connection_ids_unique:
  assumes "k \<le> 2000000000"
  shows "distinct (new_ids k (server_new r svs)) \<and> (\<forall>i \<in> set (new_ids k (server_new r svs)). 0 < i)"
proof -
  have "new_ids k (server_new r svs) = map (\<lambda>j. id_count (server_new r svs) + 1 + int j) [0..<k]"
    using id_count_new [of r svs] assms by (intro new_ids_upto) auto
  with id_count_new [of r svs] show ?thesis
    by (auto simp: distinct_map inj_on_def)
qed

theorem connection_ids_unique_witness:
  "(3::nat) \<le> 2000000000 \<and> distinct (new_ids 3 (server_new (-17) []))"
  using connection_ids_unique [of 3 "-17" "[]"] by simp

end
