(* ===== verification/Connection_Auth.thy ===== *)
theory Connection_Auth
  imports Sessions Login_Guard Server_Registry
begin

text \<open>
  The login protocol of \<open>src/server/connection.rs\<close>: a connection from its opening to its
  authorization by password, recent session, second factor, switched sides or the connection
  manager. The connection and the process-wide tables are records; the operating system, the
  hash and the one-time-password library are the record \<open>platform\<close>.
\<close>

section \<open>Data\<close>

datatype login_union =
    FileTransfer string bool
  | ViewCamera
  | Terminal string
  | PortForward string nat
  | RemoteControl

record login_request =
  lr_username :: string
  lr_password :: bytes
  my_id :: string
  my_name :: string
  my_platform :: string
  lr_version :: string
  lr_session_id :: u64
  lr_hwid :: bytes
  lr_union :: login_union
  lr_terminal_persistent :: "bool option"
  os_username :: string
  os_password :: string
  lr_video_ack :: bool

definition login_request_default :: login_request where
  "login_request_default = \<lparr>lr_username = [], lr_password = [], my_id = [], my_name = [],
     my_platform = [], lr_version = [], lr_session_id = 0, lr_hwid = [], lr_union = RemoteControl,
     lr_terminal_persistent = None, os_username = [], os_password = [], lr_video_ack = False\<rparr>"

text \<open>What the connection sends: to the peer, and to the connection manager.\<close>

datatype out_msg =
    LoginError string
  | HashMsg string string
  | CmLogin bool

record connection =
  c_id :: int
  hash_salt :: string
  hash_challenge :: string
  c_ip :: ip_addr
  authorized :: bool
  require_2fa :: "bytes option"
  from_switch :: bool
  lr :: login_request
  options_in_login :: "bool option"
  peer_argb :: u32
  video_ack_required :: bool
  file_transfer :: "(string \<times> bool) option"
  view_camera :: bool
  is_terminal :: bool
  terminal_persistent :: bool
  terminal_service_id :: string
  port_forward_socket :: bool
  port_forward_address :: string
  keyboard :: bool
  clipboard :: bool
  audio :: bool
  file_perm :: bool
  restart :: bool
  recording :: bool
  block_input :: bool
  control_permissions :: "u64 option"
  disable_keyboard :: bool
  disable_clipboard :: bool
  disable_audio :: bool
  enable_file_transfer :: bool
  show_remote_cursor :: bool
  follow_remote_window :: bool
  services_subed :: bool
  authed_conn_id :: "(int \<times> auth_conn_type) option"
  c_closed :: bool
  out :: "out_msg list"

record globals =
  cfg :: world
  temporary_password :: string
  fails_password :: failures
  fails_2fa :: failures
  tabs :: tables
  SWITCH_SIDES_UUID :: "(string, int \<times> bytes) fmap"

text \<open>
  The parameters: SHA-256, the check of a one-time code (\<open>None\<close> for a clock error), and what the
  operating system says.
\<close>

record platform =
  sha256 :: "bytes \<Rightarrow> bytes"
  totp_check :: "bytes \<Rightarrow> string \<Rightarrow> int \<Rightarrow> bool option"
  in_privacy_mode :: bool
  is_logon :: bool
  main_window_open :: bool
  is_server :: bool
  tcp_connect :: "string \<Rightarrow> bool"
  desktop_err :: string
  terminal_user_err :: "string \<Rightarrow> string \<Rightarrow> string option"
  terminal_mismatch :: "string \<Rightarrow> bool"
  os_login_unsupported :: bool
  ip_contains :: "string \<Rightarrow> ip_addr \<Rightarrow> bool"
  hostname :: "string option"
  mac_address :: "bytes option"

abbreviation opts :: "globals \<Rightarrow> options_fun" where
  "opts g \<equiv> (\<lambda>k. config_get_option k (cfg g))"

definition builtin_option :: "string \<Rightarrow> globals \<Rightarrow> string" where
  "builtin_option k g = unwrap_or_default (fmlookup (BUILTIN_SETTINGS (cfg g)) k)"

definition get_session_key :: "connection \<Rightarrow> session_key" where
  "get_session_key c = \<lparr>peer_id = my_id (lr c), peer_name = my_name (lr c), session_id = lr_session_id (lr c)\<rparr>"

definition send_login_error :: "string \<Rightarrow> connection \<Rightarrow> connection" where
  "send_login_error err c = c\<lparr>out := out c @ [LoginError err]\<rparr>"

definition try_start_cm :: "bool \<Rightarrow> connection \<Rightarrow> connection" where
  "try_start_cm auth c = c\<lparr>out := out c @ [CmLogin auth]\<rparr>"

section \<open>Opening\<close>

text \<open>The connection as \<open>start\<close> creates it; \<open>totp\<close> is the configured second factor.\<close>

definition connection_start ::
    "int \<Rightarrow> ip_addr \<Rightarrow> string \<Rightarrow> string \<Rightarrow> bytes option \<Rightarrow> u64 option \<Rightarrow> globals \<Rightarrow> connection" where
  "connection_start i ip salt' challenge totp cp g =
     (let perm = (\<lambda>opt. permission_enabled opt cp (cfg g)) in
      \<lparr>c_id = i, hash_salt = salt', hash_challenge = challenge, c_ip = ip, authorized = False,
       require_2fa = totp, from_switch = False, lr = login_request_default, options_in_login = None,
       peer_argb = 0, video_ack_required = False, file_transfer = None, view_camera = False,
       is_terminal = False, terminal_persistent = False, terminal_service_id = [],
       port_forward_socket = False, port_forward_address = [],
       keyboard = perm ''enable-keyboard'', clipboard = perm ''enable-clipboard'',
       audio = perm ''enable-audio'', file_perm = perm ''enable-file-transfer'',
       restart = perm ''enable-remote-restart'', recording = perm ''enable-record-session'',
       block_input = perm ''enable-block-input'', control_permissions = cp,
       disable_keyboard = False, disable_clipboard = False, disable_audio = False,
       enable_file_transfer = False, show_remote_cursor = False, follow_remote_window = False,
       services_subed = False, authed_conn_id = None, c_closed = False, out = []\<rparr>)"

definition check_whitelist :: "platform \<Rightarrow> globals \<Rightarrow> connection \<Rightarrow> bool \<times> connection" where
  "check_whitelist P g c =
     (let whitelist = filter (\<lambda>x. x \<noteq> []) (split_on CHR '','' (opts g ''whitelist''))
      in if whitelist \<noteq> [] \<and> ''0.0.0.0'' \<notin> set whitelist
            \<and> \<not> list_ex (\<lambda>x. ip_contains P x (c_ip c)) whitelist
         then (False, send_login_error ''Your ip is blocked by the peer'' c)
         else (True, c))"

definition on_open :: "platform \<Rightarrow> globals \<Rightarrow> connection \<Rightarrow> bool \<times> connection" where
  "on_open P g c =
     (case check_whitelist P g c of
        (False, c) \<Rightarrow> (False, c)
      | (True, c) \<Rightarrow>
          if is_server P \<and> opts g ''allow-only-conn-window-open'' = ''Y'' \<and> \<not> main_window_open P
          then (False, send_login_error ''The main window is not open'' c)
          else (True, c\<lparr>out := out c @ [HashMsg (hash_salt c) (hash_challenge c)]\<rparr>))"

section \<open>Credentials\<close>

definition validate_one_password :: "platform \<Rightarrow> string \<Rightarrow> connection \<Rightarrow> bool" where
  "validate_one_password P password c =
     (if length password = 0 then False
      else sha256 P (sha256 P (as_bytes password @ as_bytes (hash_salt c)) @ as_bytes (hash_challenge c))
             = lr_password (lr c))"

definition validate_password :: "platform \<Rightarrow> connection \<Rightarrow> globals \<Rightarrow> bool \<times> globals" where
  "validate_password P c g =
     (if temporary_enabled (opts g) \<and> validate_one_password P (temporary_password g) c
      then (True, g\<lparr>tabs := update_or_insert_session (now_ms (cfg g)) (get_session_key c)
                      (Some (temporary_password g)) (Some False) (tabs g)\<rparr>)
      else if permanent_enabled (opts g) \<and> validate_one_password P (get_permanent_password (cfg g)) c
      then (True, g)
      else (False, g))"

definition is_recent_session :: "platform \<Rightarrow> bool \<Rightarrow> connection \<Rightarrow> globals \<Rightarrow> bool \<times> globals" where
  "is_recent_session P second c g =
     (let t = retain_sessions (now_ms (cfg g)) (tabs g);
          ok = (case fmlookup (SESSIONS t) (get_session_key c) of
                  Some s \<Rightarrow> lr_password (lr c) \<noteq> []
                     \<and> (second \<and> tfa s \<or> \<not> second \<and> validate_one_password P (random_password s) c)
                | None \<Rightarrow> False)
      in (ok, g\<lparr>tabs := t\<rparr>))"

definition enable_trusted_devices :: "globals \<Rightarrow> bool" where
  "enable_trusted_devices g \<longleftrightarrow> option2bool ''enable-trusted-devices'' (opts g ''enable-trusted-devices'')"

definition handle_login_request_without_validation ::
    "crypto \<Rightarrow> json \<Rightarrow> login_request \<Rightarrow> connection \<times> globals \<Rightarrow> connection \<times> globals" where
  "handle_login_request_without_validation C J req cg =
     (case cg of (c, g) \<Rightarrow>
        let c = c\<lparr>lr := req, peer_argb := str2color (my_id req @ my_platform req) 0xff\<rparr>;
            c = (case lr_terminal_persistent req of Some o' \<Rightarrow> c\<lparr>options_in_login := Some o'\<rparr> | None \<Rightarrow> c);
            (c, g) =
              (if require_2fa c \<noteq> None \<and> lr_hwid req \<noteq> [] \<and> enable_trusted_devices g then
                 (case get_trusted_devices C J (cfg g) of (devices, w) \<Rightarrow>
                    (case find (\<lambda>d. hwid d = lr_hwid req) devices of
                       Some d \<Rightarrow>
                         (if \<not> outdate (now_ms w) d \<and> td_id d = my_id req \<and> td_name d = my_name req
                             \<and> td_platform d = my_platform req
                          then c\<lparr>require_2fa := None\<rparr> else c)
                     | None \<Rightarrow> c, g\<lparr>cfg := w\<rparr>))
               else (c, g))
        in (c\<lparr>video_ack_required := lr_video_ack req\<rparr>, g))"

definition auth_conn_type_of :: "connection \<Rightarrow> auth_conn_type" where
  "auth_conn_type_of c =
     (if file_transfer c \<noteq> None then ConnFileTransfer
      else if port_forward_socket c then ConnPortForward
      else if view_camera c then ConnViewCamera
      else if is_terminal c then ConnTerminal
      else ConnRemote)"

text \<open>
  \<open>send_logon_response\<close> up to the registration of the connection: the only place where a
  connection becomes authorized.
\<close>

definition send_logon_response :: "platform \<Rightarrow> connection \<times> globals \<Rightarrow> connection \<times> globals" where
  "send_logon_response P cg =
     (case cg of (c, g) \<Rightarrow>
        if authorized c then (c, g)
        else
          let (needs_2fa, g) =
                (if require_2fa c \<noteq> None
                 then (case is_recent_session P True c g of (recent, g) \<Rightarrow> (\<not> recent \<and> \<not> from_switch c, g))
                 else (False, g))
          in if needs_2fa then (send_login_error ''2FA Required'' c, g)
             else
               let ty = auth_conn_type_of c in
               (c\<lparr>authorized := True, authed_conn_id := Some (c_id c, ty)\<rparr>,
                g\<lparr>tabs := authed_conn_id_new (c_id c) ty (get_session_key c) (lr_version (lr c))
                            (my_platform (lr c)) (tabs g)\<rparr>))"

section \<open>The message handler\<close>

definition check_privacy_mode_on :: "platform \<Rightarrow> connection \<Rightarrow> bool \<times> connection" where
  "check_privacy_mode_on P c =
     (if in_privacy_mode P then (False, send_login_error ''Someone turns on privacy mode, exit'' c)
      else (True, c))"

text \<open>The kind of session requested: \<open>False\<close> if the connection is to be closed.\<close>

definition on_login_union :: "platform \<Rightarrow> login_request \<Rightarrow> globals \<Rightarrow> connection \<Rightarrow> bool \<times> connection" where
  "on_login_union P req g c =
     (let perm = (\<lambda>opt. permission_enabled opt (control_permissions c) (cfg g)) in
      case lr_union req of
        FileTransfer dir show_hidden \<Rightarrow>
          if \<not> perm ''enable-file-transfer'' then (False, send_login_error ''No permission of file transfer'' c)
          else (True, c\<lparr>file_transfer := Some (dir, show_hidden)\<rparr>)
      | ViewCamera \<Rightarrow>
          if \<not> perm ''enable-camera'' then (False, send_login_error ''No permission of viewing camera'' c)
          else (True, c\<lparr>view_camera := True\<rparr>)
      | Terminal service_id \<Rightarrow>
          if \<not> perm ''enable-terminal'' then (False, send_login_error ''No permission of terminal'' c)
          else if os_username req \<noteq> [] \<and> os_login_unsupported P
          then (False, send_login_error ''Supported only in the installed version.'' c)
          else
            let c = c\<lparr>is_terminal := True\<rparr>;
                c = (case options_in_login c of Some b \<Rightarrow> c\<lparr>terminal_persistent := b\<rparr> | None \<Rightarrow> c);
                c = c\<lparr>terminal_service_id := service_id\<rparr>
            in (case terminal_user_err P (os_username req) (os_password req) of
                  Some msg \<Rightarrow> (False, send_login_error msg c)
                | None \<Rightarrow>
                    if terminal_mismatch P service_id
                    then (False, send_login_error ''Terminal service user mismatch detected.'' c)
                    else (True, c))
      | PortForward host port \<Rightarrow>
          if \<not> perm ''enable-tunnel'' then (False, send_login_error ''No permission of IP tunneling'' c)
          else
            let is_rdp = (host = ''RDP'' \<and> port = 0);
                (host, port) = (if is_rdp then (''localhost'', 3389) else (host, port));
                host = (if host = [] then ''localhost'' else host);
                addr = host @ '':'' @ show_nat port;
                c = c\<lparr>port_forward_address := addr\<rparr>
            in if tcp_connect P addr then (True, c\<lparr>port_forward_socket := True\<rparr>)
               else (False, send_login_error (''Failed to access remote '' @ (if is_rdp then ''RDP'' else addr)
                              @ '', please make sure if it is open'') c)
      | RemoteControl \<Rightarrow> check_privacy_mode_on P c)"

text \<open>\<open>check_failure\<close> of the connection: the alarm is reported to the peer.\<close>

definition alarm_text :: "alarm \<Rightarrow> string" where
  "alarm_text a =
     (case a of
        TooManyPrefix n \<Rightarrow> ''Too many wrong attempts for IPv6 prefix /'' @ show_nat n
      | TooMany \<Rightarrow> ''Too many wrong attempts''
      | OneMinuteLater \<Rightarrow> ''Please try 1 minute later'')"

definition minute_now :: "globals \<Rightarrow> int" where
  "minute_now g = now_ms (cfg g) div 60000"

text \<open>The credentials of a login request: a recent session or a password, within the limits.\<close>

definition on_login_credentials :: "platform \<Rightarrow> login_request \<Rightarrow> connection \<times> globals \<Rightarrow> bool \<times> connection \<times> globals" where
  "on_login_credentials P req cg =
     (case cg of (c, g) \<Rightarrow>
        let err_msg = desktop_err P in
          case is_recent_session P False c g of
            (True, g) \<Rightarrow>
              if err_msg = [] then
                (case send_logon_response P (c, g) of (c, g) \<Rightarrow> (True, try_start_cm (authorized c) c, g))
              else (True, send_login_error err_msg c, g)
          | (False, g) \<Rightarrow>
              if lr_password req = [] then
                (if err_msg = [] then (True, try_start_cm False c, g)
                 else (True, send_login_error ''Desktop session not ready, password empty'' c, g))
              else
                (case check_failure (c_ip c) (minute_now g) (fails_password g) of
                   (ft, Some a) \<Rightarrow> (True, send_login_error (alarm_text a) c, g)
                 | (ft, None) \<Rightarrow>
                     (case validate_password P c g of
                        (False, g) \<Rightarrow>
                          let g = g\<lparr>fails_password := update_failure (c_ip c) ft False (fails_password g)\<rparr> in
                          if err_msg = [] then (True, try_start_cm False (send_login_error ''Wrong Password'' c), g)
                          else (True, send_login_error ''Desktop session not ready, password wrong'' c, g)
                      | (True, g) \<Rightarrow>
                          let g = g\<lparr>fails_password := update_failure (c_ip c) ft True (fails_password g)\<rparr> in
                          if err_msg = [] then
                            (case send_logon_response P (c, g) of (c, g) \<Rightarrow> (True, try_start_cm (authorized c) c, g))
                          else (True, send_login_error err_msg c, g))))"

text \<open>The peer must address this machine by an IP address, a domain with port, or its id.\<close>

definition accepts_username :: "platform \<Rightarrow> crypto \<Rightarrow> login_request \<Rightarrow> globals \<Rightarrow> bool \<times> globals" where
  "accepts_username P C req g =
     (if is_ip_str (lr_username req) \<or> is_domain_port_str (lr_username req) then (True, g)
      else (case get_id C (hostname P) (mac_address P) (cfg g) of
              (own_id, w) \<Rightarrow> (lr_username req = own_id, g\<lparr>cfg := w\<rparr>)))"

text \<open>Whether the user at this side has to accept the connection, without a password.\<close>

definition needs_click :: "platform \<Rightarrow> globals \<Rightarrow> bool" where
  "needs_click P g \<longleftrightarrow>
     (get_approve_mode (opts g) = ApproveClick
        \<and> \<not> (builtin_option ''allow-logon-screen-password'' g = ''Y'' \<and> is_logon P))
     \<or> get_approve_mode (opts g) = ApproveBoth
        \<and> \<not> has_valid_password (opts g) (temporary_password g) (get_permanent_password (cfg g))"

text \<open>The decision on a login request once the kind of session is settled.\<close>

definition on_login_decide :: "platform \<Rightarrow> crypto \<Rightarrow> login_request \<Rightarrow> connection \<times> globals \<Rightarrow> bool \<times> connection \<times> globals" where
  "on_login_decide P C req cg =
     (case cg of (c, g) \<Rightarrow>
        let err_msg = desktop_err P in
        if err_msg \<noteq> [] \<and> err_msg \<noteq> ''Desktop session not ready'' then (True, send_login_error err_msg c, g)
        else
          (case accepts_username P C req g of
             (False, g) \<Rightarrow> (False, send_login_error ''Offline'' c, g)
           | (True, g) \<Rightarrow>
               if needs_click P g then
                 let c = try_start_cm False c in
                 (True, (if get_version_number (lr_version req) \<ge> get_version_number ''1.2.0''
                         then send_login_error ''No Password Access'' c else c), g)
               else on_login_credentials P req (c, g)))"

definition on_login_request ::
    "platform \<Rightarrow> crypto \<Rightarrow> json \<Rightarrow> login_request \<Rightarrow> connection \<times> globals \<Rightarrow> bool \<times> connection \<times> globals" where
  "on_login_request P C J req cg =
     (case handle_login_request_without_validation C J req cg of (c, g) \<Rightarrow>
        if authorized c then (True, c, g)
        else (case on_login_union P req g c of
                (False, c) \<Rightarrow> (False, c, g)
              | (True, c) \<Rightarrow> on_login_decide P C req (c, g)))"

text \<open>A correct one-time code: \<open>ft\<close> is the failure record read before.\<close>

definition on_2fa_correct ::
    "platform \<Rightarrow> crypto \<Rightarrow> json \<Rightarrow> bytes \<Rightarrow> failure \<times> int \<Rightarrow> connection \<times> globals \<Rightarrow> connection \<times> globals" where
  "on_2fa_correct P C J hw ft cg =
     (case cg of (c, g) \<Rightarrow>
        let g = g\<lparr>fails_2fa := update_failure (c_ip c) ft True (fails_2fa g)\<rparr>;
            c = c\<lparr>require_2fa := None\<rparr>;
            g = g\<lparr>tabs := set_session_2fa (now_ms (cfg g)) (get_session_key c) (tabs g)\<rparr>;
            (c, g) = send_logon_response P (c, g);
            c = try_start_cm (authorized c) c
        in if hw \<noteq> [] \<and> enable_trusted_devices g
           then (c, g\<lparr>cfg := add_trusted_device C J \<lparr>hwid = hw, td_time = now_ms (cfg g),
                     td_id = my_id (lr c), td_name = my_name (lr c), td_platform = my_platform (lr c)\<rparr> (cfg g)\<rparr>)
           else (c, g))"

definition on_auth_2fa ::
    "platform \<Rightarrow> crypto \<Rightarrow> json \<Rightarrow> string \<Rightarrow> bytes \<Rightarrow> connection \<times> globals \<Rightarrow> bool \<times> connection \<times> globals" where
  "on_auth_2fa P C J code hw cg =
     (case cg of (c, g) \<Rightarrow>
        (case check_failure (c_ip c) (minute_now g) (fails_2fa g) of
           (ft, Some a) \<Rightarrow> (True, send_login_error (alarm_text a) c, g)
         | (ft, None) \<Rightarrow>
             (case require_2fa c of
                None \<Rightarrow> (True, c, g)
              | Some totp \<Rightarrow>
                  (case totp_check P totp code (now_ms (cfg g)) of
                     None \<Rightarrow> (True, c, g)
                   | Some True \<Rightarrow> (True, on_2fa_correct P C J hw ft (c, g))
                   | Some False \<Rightarrow>
                       (True, send_login_error ''Wrong 2FA Code'' c,
                        g\<lparr>fails_2fa := update_failure (c_ip c) ft False (fails_2fa g)\<rparr>)))))"

definition insert_switch_sides_uuid :: "string \<Rightarrow> bytes \<Rightarrow> globals \<Rightarrow> globals" where
  "insert_switch_sides_uuid i u g =
     g\<lparr>SWITCH_SIDES_UUID := fmupd i (now_ms (cfg g), u) (SWITCH_SIDES_UUID g)\<rparr>"

text \<open>A UUID is 16 bytes (\<open>Uuid::from_slice\<close>); entries expire after 10 seconds.\<close>

definition on_switch_sides ::
    "platform \<Rightarrow> crypto \<Rightarrow> json \<Rightarrow> login_request option \<Rightarrow> bytes \<Rightarrow> connection \<times> globals \<Rightarrow> bool \<times> connection \<times> globals" where
  "on_switch_sides P C J req u cg =
     (case req of
        None \<Rightarrow> (True, cg)
      | Some req \<Rightarrow>
          (case handle_login_request_without_validation C J req cg of (c, g) \<Rightarrow>
             let live = fmfilter (\<lambda>k. now_ms (cfg g) - fst (the (fmlookup (SWITCH_SIDES_UUID g) k)) < 10000) (SWITCH_SIDES_UUID g);
                 old = fmlookup live (my_id req);
                 g = g\<lparr>SWITCH_SIDES_UUID := fmdrop (my_id req) live\<rparr>
             in (case old of
                   Some (_, uuid_old) \<Rightarrow>
                     if length u = 16 \<and> u = uuid_old then
                       (case send_logon_response P (c\<lparr>from_switch := True\<rparr>, g) of
                          (c, g) \<Rightarrow> (True, try_start_cm (authorized c) c, g))
                     else (True, c, g)
                 | None \<Rightarrow> (True, c, g))))"

definition on_close :: "connection \<Rightarrow> connection" where
  "on_close c = (if c_closed c then c else c\<lparr>c_closed := True, port_forward_socket := False\<rparr>)"

definition on_close_reason :: "connection \<times> globals \<Rightarrow> bool \<times> connection \<times> globals" where
  "on_close_reason cg =
     (case cg of (c, g) \<Rightarrow>
        let c = on_close c in
        (False, c, g\<lparr>tabs := check_remove_session (c_id c) (get_session_key c) (tabs g)\<rparr>))"

text \<open>The user at this side accepts the connection in the connection manager.\<close>

definition on_cm_authorize :: "platform \<Rightarrow> connection \<times> globals \<Rightarrow> bool \<times> connection \<times> globals" where
  "on_cm_authorize P cg =
     (case cg of (c, g) \<Rightarrow>
        (case send_logon_response P (c\<lparr>require_2fa := None\<rparr>, g) of
           (c, g) \<Rightarrow> (\<not> port_forward_socket c, c, g)))"

datatype login_event =
    CloseReason | LoginRequest login_request | Auth2fa string bytes
  | SwitchSidesResponse "login_request option" bytes | CmAuthorize

fun on_event :: "platform \<Rightarrow> crypto \<Rightarrow> json \<Rightarrow> login_event \<Rightarrow> connection \<times> globals \<Rightarrow> bool \<times> connection \<times> globals" where
  "on_event P C J CloseReason cg = on_close_reason cg"
| "on_event P C J (LoginRequest req) cg = on_login_request P C J req cg"
| "on_event P C J (Auth2fa code hw) cg = on_auth_2fa P C J code hw cg"
| "on_event P C J (SwitchSidesResponse req u) cg = on_switch_sides P C J req u cg"
| "on_event P C J CmAuthorize cg = on_cm_authorize P cg"

section \<open>Frames\<close>

lemma get_trusted_devices_frame:
  "CONFIG (snd (get_trusted_devices C J w)) = CONFIG w"
  "cfg_options (CONFIG2 (snd (get_trusted_devices C J w))) = cfg_options (CONFIG2 w)"
  "OVERWRITE_SETTINGS (snd (get_trusted_devices C J w)) = OVERWRITE_SETTINGS w"
  "DEFAULT_SETTINGS (snd (get_trusted_devices C J w)) = DEFAULT_SETTINGS w"
  "HARD_SETTINGS (snd (get_trusted_devices C J w)) = HARD_SETTINGS w"
  "now_ms (snd (get_trusted_devices C J w)) = now_ms w"
  by (simp_all add: get_trusted_devices_def set_trusted_devices_def Let_def split: prod.split)

lemma get_id_frame:
  "CONFIG2 (snd (get_id C h m w)) = CONFIG2 w" "cfg_password (CONFIG (snd (get_id C h m w))) = cfg_password (CONFIG w)"
  "OVERWRITE_SETTINGS (snd (get_id C h m w)) = OVERWRITE_SETTINGS w"
  "DEFAULT_SETTINGS (snd (get_id C h m w)) = DEFAULT_SETTINGS w"
  "HARD_SETTINGS (snd (get_id C h m w)) = HARD_SETTINGS w"
  "now_ms (snd (get_id C h m w)) = now_ms w"
  by (simp_all add: get_id_def set_id_def update_config_def config_store_def Let_def split: option.split)

text \<open>What of the configuration the credentials depend on.\<close>

definition same_policy :: "world \<Rightarrow> world \<Rightarrow> bool" where
  "same_policy w v \<longleftrightarrow> (\<forall>k. config_get_option k w = config_get_option k v)
     \<and> get_permanent_password w = get_permanent_password v \<and> now_ms w = now_ms v"

lemma same_policy_trans: "same_policy u v \<Longrightarrow> same_policy v w \<Longrightarrow> same_policy u w"
  by (simp add: same_policy_def)

lemma same_policy_trusted: "same_policy (snd (get_trusted_devices C J w)) w"
  by (simp add: same_policy_def config_get_option_def get_permanent_password_def get_trusted_devices_frame Let_def)

lemma same_policy_id: "same_policy (snd (get_id C h m w)) w"
  by (simp add: same_policy_def config_get_option_def get_permanent_password_def get_id_frame Let_def)

lemma same_policy_refl [simp]: "same_policy w w"
  by (simp add: same_policy_def)

section \<open>Credentials\<close>

definition password_ok :: "platform \<Rightarrow> connection \<Rightarrow> globals \<Rightarrow> bool" where
  "password_ok P c g \<longleftrightarrow>
     temporary_enabled (opts g) \<and> validate_one_password P (temporary_password g) c
     \<or> permanent_enabled (opts g) \<and> validate_one_password P (get_permanent_password (cfg g)) c"

definition live_session :: "globals \<Rightarrow> session_key \<Rightarrow> session \<Rightarrow> bool" where
  "live_session g key s \<longleftrightarrow>
     fmlookup (SESSIONS (tabs g)) key = Some s \<and> now_ms (cfg g) - last_recv_time s < 30000"

definition recent_ok :: "platform \<Rightarrow> connection \<Rightarrow> globals \<Rightarrow> bool" where
  "recent_ok P c g \<longleftrightarrow> (\<exists>s. live_session g (get_session_key c) s \<and> validate_one_password P (random_password s) c)"

definition second_session :: "connection \<Rightarrow> globals \<Rightarrow> bool" where
  "second_session c g \<longleftrightarrow> (\<exists>s. live_session g (get_session_key c) s \<and> tfa s)"

definition device_trusted :: "crypto \<Rightarrow> json \<Rightarrow> login_request \<Rightarrow> globals \<Rightarrow> bool" where
  "device_trusted C J req g \<longleftrightarrow> enable_trusted_devices g \<and> lr_hwid req \<noteq> []
     \<and> (\<exists>d \<in> set (fst (get_trusted_devices C J (cfg g))). hwid d = lr_hwid req
          \<and> \<not> outdate (now_ms (cfg g)) d \<and> td_id d = my_id req \<and> td_name d = my_name req
          \<and> td_platform d = my_platform req)"

lemma recent_session_True:
  "is_recent_session P False c g = (True, g') \<Longrightarrow> recent_ok P c g"
  "is_recent_session P True c g = (True, g') \<Longrightarrow> second_session c g"
  by (auto simp: is_recent_session_def recent_ok_def second_session_def live_session_def fmlookup_retain
      split: option.splits if_splits)

lemma recent_session_frame:
  "is_recent_session P b c g = (r, g') \<Longrightarrow> cfg g' = cfg g \<and> temporary_password g' = temporary_password g
     \<and> tabs g' = retain_sessions (now_ms (cfg g)) (tabs g) \<and> fails_password g' = fails_password g"
  by (auto simp: is_recent_session_def Let_def)

lemma live_session_retain:
  "live_session (g\<lparr>tabs := retain_sessions (now_ms (cfg g)) (tabs g)\<rparr>) k s \<Longrightarrow> live_session g k s"
  by (auto simp: live_session_def fmlookup_retain split: option.splits if_splits)

lemma validate_password_True:
  "validate_password P c g = (True, g') \<Longrightarrow> password_ok P c g"
  by (auto simp: validate_password_def password_ok_def split: if_splits)

text \<open>A new session of a temporary password is not one of the second factor.\<close>

lemma validate_password_tfa:
  assumes "validate_password P c g = (True, g')" and "second_session c g'"
  shows "second_session c g"
  using assms
  by (auto simp: validate_password_def second_session_def live_session_def update_or_insert_session_def
      split: if_splits option.splits)

lemma logon_result:
  assumes "send_logon_response P (c, g) = (c', g')" and "\<not> authorized c"
  shows "authorized c' \<longleftrightarrow> require_2fa c = None \<or> from_switch c \<or> fst (is_recent_session P True c g)"
    and "authorized c' \<Longrightarrow> authed_conn_id c' = Some (c_id c, auth_conn_type_of c)
           \<and> (\<exists>e \<in> set (AUTHED_CONNS (tabs g')). ac_conn_id e = c_id c \<and> ac_conn_type e = auth_conn_type_of c
                \<and> ac_session_key e = get_session_key c)"
    and "\<not> authorized c' \<Longrightarrow> authed_conn_id c' = authed_conn_id c \<and> AUTHED_CONNS (tabs g') = AUTHED_CONNS (tabs g)"
    and "from_switch c' = from_switch c"
  using assms
  by (auto simp: send_logon_response_def send_login_error_def authed_conn_id_new_def check_wake_lock_def
      is_recent_session_def retain_sessions_def Let_def split: prod.splits if_splits)

lemma login_error_frame [simp]:
  "authorized (send_login_error m c) = authorized c" "from_switch (send_login_error m c) = from_switch c"
  "require_2fa (send_login_error m c) = require_2fa c" "lr (send_login_error m c) = lr c"
  "authed_conn_id (send_login_error m c) = authed_conn_id c"
  "authorized (try_start_cm b c) = authorized c" "from_switch (try_start_cm b c) = from_switch c"
  "authed_conn_id (try_start_cm b c) = authed_conn_id c"
  by (simp_all add: send_login_error_def try_start_cm_def)

lemma on_login_union_frame:
  assumes "on_login_union P req g c = (k, c')"
  shows "authorized c' = authorized c" "from_switch c' = from_switch c" "require_2fa c' = require_2fa c"
    "lr c' = lr c" "hash_salt c' = hash_salt c" "hash_challenge c' = hash_challenge c" "c_ip c' = c_ip c"
    "authed_conn_id c' = authed_conn_id c"
  using assms
  by (auto simp: on_login_union_def check_privacy_mode_on_def send_login_error_def Let_def
      split: login_union.splits if_splits option.splits)

lemma handle_frame:
  assumes "handle_login_request_without_validation C J req (c, g) = (c', g')"
  shows "authorized c' = authorized c" "from_switch c' = from_switch c" "lr c' = req"
    "hash_salt c' = hash_salt c" "hash_challenge c' = hash_challenge c" "authed_conn_id c' = authed_conn_id c"
    "same_policy (cfg g') (cfg g)" "temporary_password g' = temporary_password g" "tabs g' = tabs g"
    "SWITCH_SIDES_UUID g' = SWITCH_SIDES_UUID g"
    "require_2fa c' = None \<Longrightarrow> require_2fa c = None \<or> device_trusted C J req g"
  using assms same_policy_trusted [of C J "cfg g"] get_trusted_devices_frame(6) [of C J "cfg g"]
  by (auto simp: handle_login_request_without_validation_def device_trusted_def Let_def find_Some_iff
      split: if_splits option.splits prod.splits)

lemma opts_cong: "same_policy (cfg g) (cfg h) \<Longrightarrow> opts g = opts h"
  by (simp add: same_policy_def)

lemma password_ok_cong:
  "same_policy (cfg g) (cfg h) \<Longrightarrow> temporary_password g = temporary_password h \<Longrightarrow>
   password_ok P c g = password_ok P c h"
  by (simp add: password_ok_def same_policy_def)

lemma session_cong:
  "same_policy (cfg g) (cfg h) \<Longrightarrow> tabs g = tabs h \<Longrightarrow>
   recent_ok P c g = recent_ok P c h \<and> second_session c g = second_session c h"
  by (simp add: recent_ok_def second_session_def live_session_def same_policy_def)

lemma second_session_retain:
  "second_session c (g\<lparr>tabs := retain_sessions (now_ms (cfg g)) (tabs g)\<rparr>) \<Longrightarrow> second_session c g"
  using live_session_retain by (auto simp: second_session_def)

lemma credentials_granted:
  assumes "\<not> authorized c" and "\<not> from_switch c" and "authorized c'"
    and "on_login_credentials P req (c, g) = (k, c', g')"
  shows "(recent_ok P c g \<or> password_ok P c g) \<and> (require_2fa c = None \<or> second_session c g)"
proof -
  obtain r g1 where r: "is_recent_session P False c g = (r, g1)" by fastforce
  have g1: "g1 = g\<lparr>tabs := retain_sessions (now_ms (cfg g)) (tabs g)\<rparr>"
    using r by (auto simp: is_recent_session_def Let_def)
  show ?thesis
  proof (cases r)
    case True
    then have recent: "recent_ok P c g" using r recent_session_True(1) by simp
    obtain c2 g2 where l: "send_logon_response P (c, g1) = (c2, g2)" by fastforce
    from assms r True l have "authorized c2" by (auto simp: on_login_credentials_def Let_def split: if_splits)
    with logon_result(1) [OF l assms(1)] assms(2) have "require_2fa c = None \<or> second_session c g1"
      using recent_session_True(2) [of P c g1] by (metis prod.collapse)
    with recent second_session_retain show ?thesis unfolding g1 by blast
  next
    case False
    obtain ft where cf: "check_failure (c_ip c) (minute_now g1) (fails_password g1) = (ft, None)"
      using assms r False by (auto simp: on_login_credentials_def Let_def split: if_splits prod.splits option.splits)
    obtain v g2 where v: "validate_password P c g1 = (v, g2)" by fastforce
    have v': "v" using assms r False cf v by (auto simp: on_login_credentials_def Let_def split: if_splits bool.splits)
    let ?g = "g2\<lparr>fails_password := update_failure (c_ip c) ft True (fails_password g2)\<rparr>"
    obtain c3 g3 where l: "send_logon_response P (c, ?g) = (c3, g3)" by fastforce
    from assms r False cf v v' l have "authorized c3" by (auto simp: on_login_credentials_def Let_def split: if_splits)
    with logon_result(1) [OF l assms(1)] assms(2) have "require_2fa c = None \<or> second_session c ?g"
      using recent_session_True(2) [of P c ?g] by (metis prod.collapse)
    then have "require_2fa c = None \<or> second_session c g2"
      by (simp add: second_session_def live_session_def)
    moreover from v v' have "password_ok P c g1" using validate_password_True by simp
    then have "password_ok P c g" by (simp add: g1 password_ok_def)
    moreover from v v' have "validate_password P c g1 = (True, g2)" by simp
    note validate_password_tfa [OF this]
    ultimately show ?thesis
      using second_session_retain unfolding g1 by blast
  qed
qed

lemma accepts_username_frame:
  assumes "accepts_username P C req g = (r, g')"
  shows "same_policy (cfg g') (cfg g)" "temporary_password g' = temporary_password g" "tabs g' = tabs g"
  using assms same_policy_id [of C "hostname P" "mac_address P" "cfg g"]
  by (auto simp: accepts_username_def split: if_splits prod.splits)

lemma decide_granted:
  assumes "on_login_decide P C req (c, g) = (k, c', g')" and "\<not> authorized c" and "\<not> from_switch c" and "authorized c'"
  shows "(recent_ok P c g \<or> password_ok P c g) \<and> (require_2fa c = None \<or> second_session c g) \<and> \<not> needs_click P g"
proof -
  obtain r h where acc: "accepts_username P C req g = (r, h)" by fastforce
  note fr = accepts_username_frame [OF acc]
  from assms acc have "on_login_credentials P req (c, h) = (k, c', g')" and "\<not> needs_click P h"
    by (auto simp: on_login_decide_def Let_def split: if_splits bool.splits)
  then have "(recent_ok P c h \<or> password_ok P c h) \<and> (require_2fa c = None \<or> second_session c h)"
    using credentials_granted [OF assms(2,3,4)] by simp
  moreover have "builtin_option k h = builtin_option k g" for k
    using acc by (auto simp: accepts_username_def builtin_option_def get_id_def set_id_def update_config_def
        config_store_def Let_def split: if_splits option.splits)
  with \<open>\<not> needs_click P h\<close> fr(1,2) have "\<not> needs_click P g" by (simp add: needs_click_def same_policy_def)
  ultimately show ?thesis
    using password_ok_cong [OF fr(1,2)] session_cong [OF fr(1,3)] by simp
qed

section \<open>What authorizes a connection\<close>

text \<open>Everything that can happen to a connection: its own events, and any change of the process.\<close>

inductive reachable :: "platform \<Rightarrow> crypto \<Rightarrow> json \<Rightarrow> connection \<times> globals \<Rightarrow> bool" for P C J where
  start: "reachable P C J (connection_start i ip s ch totp cp g, g)"
| event: "reachable P C J cg \<Longrightarrow> on_event P C J e cg = (k, cg') \<Longrightarrow> reachable P C J cg'"
| others: "reachable P C J (c, g) \<Longrightarrow> reachable P C J (c, g')"

text \<open>
  The grounds of an authorization by an event, in the state before it; \<open>c\<lparr>lr := req\<rparr>\<close> is the
  connection with the credentials of the request.
\<close>

fun granted :: "platform \<Rightarrow> crypto \<Rightarrow> json \<Rightarrow> login_event \<Rightarrow> connection \<Rightarrow> globals \<Rightarrow> bool" where
  "granted P C J CloseReason c g \<longleftrightarrow> False"
| "granted P C J (LoginRequest req) c g \<longleftrightarrow>
     (recent_ok P (c\<lparr>lr := req\<rparr>) g \<or> password_ok P (c\<lparr>lr := req\<rparr>) g)
     \<and> (require_2fa c = None \<or> device_trusted C J req g \<or> second_session (c\<lparr>lr := req\<rparr>) g)"
| "granted P C J (Auth2fa code hw) c g \<longleftrightarrow>
     (\<exists>totp. require_2fa c = Some totp \<and> totp_check P totp code (now_ms (cfg g)) = Some True)"
| "granted P C J (SwitchSidesResponse req u) c g \<longleftrightarrow>
     (\<exists>r t. req = Some r \<and> fmlookup (SWITCH_SIDES_UUID g) (my_id r) = Some (t, u)
        \<and> now_ms (cfg g) - t < 10000 \<and> length u = 16)"
| "granted P C J CmAuthorize c g \<longleftrightarrow> True"

lemma validate_one_cong:
  "hash_salt c = hash_salt d \<Longrightarrow> hash_challenge c = hash_challenge d \<Longrightarrow> lr c = lr d \<Longrightarrow>
   validate_one_password P p c = validate_one_password P p d \<and> get_session_key c = get_session_key d"
  by (simp add: validate_one_password_def get_session_key_def)

lemma credential_cong:
  assumes "hash_salt c = hash_salt d" and "hash_challenge c = hash_challenge d" and "lr c = lr d"
  shows "recent_ok P c g = recent_ok P d g" and "password_ok P c g = password_ok P d g"
    and "second_session c g = second_session d g"
  using validate_one_cong [OF assms]
  by (simp_all add: recent_ok_def password_ok_def second_session_def)

lemma login_request_granted:
  assumes "on_login_request P C J req (c, g) = (k, c', g')" and "\<not> authorized c" and "\<not> from_switch c" and "authorized c'"
  shows "granted P C J (LoginRequest req) c g"
proof -
  obtain c1 g1 where h: "handle_login_request_without_validation C J req (c, g) = (c1, g1)" by fastforce
  note hf = handle_frame [OF h]
  obtain r c2 where u: "on_login_union P req g1 c1 = (r, c2)" by fastforce
  note uf = on_login_union_frame [OF u]
  from assms hf uf h u have "on_login_decide P C req (c2, g1) = (k, c', g')"
    by (auto simp: on_login_request_def split: if_splits bool.splits)
  from decide_granted [OF this] assms hf uf
  have "(recent_ok P c2 g1 \<or> password_ok P c2 g1) \<and> (require_2fa c1 = None \<or> second_session c2 g1)" by simp
  moreover have "hash_salt c2 = hash_salt (c\<lparr>lr := req\<rparr>)" "hash_challenge c2 = hash_challenge (c\<lparr>lr := req\<rparr>)"
    "lr c2 = lr (c\<lparr>lr := req\<rparr>)"
    using hf uf by simp_all
  note cc = credential_cong [OF this]
  ultimately show ?thesis
    using password_ok_cong [OF hf(7,8)] session_cong [OF hf(7,9)] hf(11) by (auto simp: cc)
qed

definition conn_inv :: "connection \<Rightarrow> bool" where
  "conn_inv c \<longleftrightarrow> (from_switch c \<longrightarrow> authorized c) \<and> ((authed_conn_id c = None) = (\<not> authorized c))"

text \<open>\<open>send_logon_response\<close> establishes the invariant, also for a connection just marked as switched.\<close>

lemma logon_inv:
  assumes "(authed_conn_id c = None) = (\<not> authorized c)" and "send_logon_response P (c, g) = (c', g')"
  shows "conn_inv c'"
proof (cases "authorized c")
  case True
  with assms show ?thesis by (auto simp: send_logon_response_def conn_inv_def)
next
  case False
  note l = logon_result [OF assms(2) False]
  show ?thesis using l(1,4) l(2,3) assms(1) False unfolding conn_inv_def by (cases "authorized c'") auto
qed

lemma conn_inv_frame:
  assumes "conn_inv c" and "authorized d = authorized c" and "from_switch d = from_switch c"
    and "authed_conn_id d = authed_conn_id c"
  shows "conn_inv d"
  using assms by (simp add: conn_inv_def)

lemma conn_inv_outputs [simp]:
  "conn_inv (send_login_error m c) = conn_inv c" "conn_inv (try_start_cm b c) = conn_inv c"
  "conn_inv (c\<lparr>require_2fa := t\<rparr>) = conn_inv c"
  by (simp_all add: conn_inv_def)

lemma logon_keeps_inv:
  assumes "conn_inv c"
  shows "conn_inv (fst (send_logon_response P (c, g)))"
proof -
  obtain c' g' where l: "send_logon_response P (c, g) = (c', g')" by fastforce
  have "conn_inv c'" by (rule logon_inv [OF _ l]) (use assms in \<open>simp add: conn_inv_def\<close>)
  with l show ?thesis by simp
qed

lemma credentials_inv:
  assumes "conn_inv c"
  shows "conn_inv (fst (snd (on_login_credentials P req (c, g))))"
  using logon_keeps_inv [OF assms, of P] assms
  by (simp add: on_login_credentials_def Let_def split_def split: bool.split option.split)

lemma decide_inv:
  assumes "conn_inv c"
  shows "conn_inv (fst (snd (on_login_decide P C req (c, g))))"
  using credentials_inv [OF assms, of P req] assms
  by (simp add: on_login_decide_def Let_def split_def split: bool.split)

lemma login_request_inv:
  assumes "conn_inv c"
  shows "conn_inv (fst (snd (on_login_request P C J req (c, g))))"
proof -
  obtain c1 g1 where h: "handle_login_request_without_validation C J req (c, g) = (c1, g1)" by fastforce
  note hf = handle_frame [OF h]
  obtain r c2 where u: "on_login_union P req g1 c1 = (r, c2)" by fastforce
  note uf = on_login_union_frame [OF u]
  have c1: "conn_inv c1" by (rule conn_inv_frame [OF assms]) (simp_all add: hf)
  have c2: "conn_inv c2" by (rule conn_inv_frame [OF c1]) (simp_all add: uf)
  from c1 c2 decide_inv [OF c2, of P C req g1] show ?thesis
    by (simp add: on_login_request_def h u split: bool.split)
qed

lemma on_2fa_correct_conn:
  "\<exists>b h. fst (on_2fa_correct P C J hw ft (c, g)) = try_start_cm b (fst (send_logon_response P (c\<lparr>require_2fa := None\<rparr>, h)))"
proof -
  let ?g = "g\<lparr>fails_2fa := update_failure (c_ip c) ft True (fails_2fa g),
      tabs := set_session_2fa (now_ms (cfg g)) (get_session_key (c\<lparr>require_2fa := None\<rparr>)) (tabs g)\<rparr>"
  obtain c2 g2 where l: "send_logon_response P (c\<lparr>require_2fa := None\<rparr>, ?g) = (c2, g2)" by fastforce
  then have "fst (on_2fa_correct P C J hw ft (c, g)) = try_start_cm (authorized c2) c2"
    by (simp add: on_2fa_correct_def Let_def)
  moreover from l have "c2 = fst (send_logon_response P (c\<lparr>require_2fa := None\<rparr>, ?g))" by simp
  ultimately show ?thesis by blast
qed

lemma auth_2fa_inv:
  assumes "conn_inv c"
  shows "conn_inv (fst (snd (on_auth_2fa P C J code hw (c, g))))"
proof -
  have "conn_inv (c\<lparr>require_2fa := None\<rparr>)" using assms by simp
  note logon_keeps_inv [OF this, of P]
  moreover obtain b h where "fst (on_2fa_correct P C J hw ft (c, g))
      = try_start_cm (b ft) (fst (send_logon_response P (c\<lparr>require_2fa := None\<rparr>, h ft)))" for ft
    using on_2fa_correct_conn [of P C J hw _ c g] by metis
  ultimately show ?thesis
    using assms by (simp add: on_auth_2fa_def split: bool.split option.split prod.split)
qed

lemma switch_sides_inv:
  assumes "conn_inv c"
  shows "conn_inv (fst (snd (on_switch_sides P C J req u (c, g))))"
proof (cases req)
  case (Some r)
  obtain c1 g1 where h: "handle_login_request_without_validation C J r (c, g) = (c1, g1)" by fastforce
  note hf = handle_frame [OF h]
  have c1: "conn_inv c1" by (rule conn_inv_frame [OF assms]) (simp_all add: hf)
  have "conn_inv (fst (send_logon_response P (c1\<lparr>from_switch := True\<rparr>, y)))" for y
  proof -
    obtain c' g' where l: "send_logon_response P (c1\<lparr>from_switch := True\<rparr>, y) = (c', g')" by fastforce
    have "conn_inv c'" by (rule logon_inv [OF _ l]) (use c1 in \<open>simp add: conn_inv_def\<close>)
    with l show ?thesis by simp
  qed
  with c1 show ?thesis
    by (simp add: on_switch_sides_def Some h Let_def split_def split: option.split)
qed (use assms in \<open>simp add: on_switch_sides_def\<close>)

lemma close_reason_inv:
  assumes "conn_inv c"
  shows "conn_inv (fst (snd (on_close_reason (c, g))))"
  using assms by (simp add: on_close_reason_def on_close_def conn_inv_def Let_def)

lemma cm_authorize_inv:
  assumes "conn_inv c"
  shows "conn_inv (fst (snd (on_cm_authorize P (c, g))))"
proof -
  have "conn_inv (c\<lparr>require_2fa := None\<rparr>)" using assms by simp
  note logon_keeps_inv [OF this, of P g]
  then show ?thesis by (simp add: on_cm_authorize_def split_def)
qed

lemma on_event_inv:
  assumes "conn_inv c" and "on_event P C J e (c, g) = (k, c', g')"
  shows "conn_inv c'"
proof -
  have "conn_inv (fst (snd (on_event P C J e (c, g))))"
    using assms(1) by (cases e) (simp_all add: login_request_inv auth_2fa_inv switch_sides_inv
        close_reason_inv cm_authorize_inv)
  with assms(2) show ?thesis by simp
qed

lemma reachable_inv: "reachable P C J (c, g) \<Longrightarrow> conn_inv c"
proof (induction "(c, g)" arbitrary: c g rule: reachable.induct)
  case (event cg e k)
  then show ?case by (cases cg) (auto intro: on_event_inv)
qed (auto simp: conn_inv_def connection_start_def Let_def)

text \<open>
  C1. A connection becomes authorized only on grounds: whatever happened before on this or on other
  connections, an event that turns an unauthorized connection into an authorized one is a login
  request with the temporary or permanent password in force or a password of a session of this
  peer heard from within 30 seconds (and, where a second factor is required, a trusted device or
  a session with a verified second factor), a correct one-time code, the answer to a switch of
  sides with the identifier issued for this peer within 10 seconds, or the acceptance by the
  user.
\<close>

theorem authorization_grounds:
  assumes "reachable P C J (c, g)" and "\<not> authorized c"
    and "on_event P C J e (c, g) = (k, c', g')" and "authorized c'"
  shows "granted P C J e c g"
proof -
  have ns: "\<not> from_switch c" using reachable_inv [OF assms(1)] assms(2) by (auto simp: conn_inv_def)
  show ?thesis
  proof (cases e)
    case (LoginRequest req)
    with assms ns login_request_granted show ?thesis by simp
  next
    case (SwitchSidesResponse req u)
    then obtain r where r: "req = Some r" using assms by (cases req) (auto simp: on_switch_sides_def)
    obtain c1 g1 where h: "handle_login_request_without_validation C J r (c, g) = (c1, g1)" by fastforce
    note hf = handle_frame [OF h]
    have "now_ms (cfg g1) = now_ms (cfg g)" using hf(7) by (simp add: same_policy_def)
    with SwitchSidesResponse r assms h hf show ?thesis
      by (auto simp: on_switch_sides_def Let_def split: option.splits if_splits prod.splits)
  qed (use assms in \<open>auto simp: on_close_reason_def on_close_def on_auth_2fa_def Let_def
        split: if_splits prod.splits option.splits bool.splits\<close>)
qed


definition demo_platform :: platform where
  "demo_platform = \<lparr>sha256 = rev, totp_check = (\<lambda>secret code t. Some (as_bytes code = secret)),
     in_privacy_mode = False, is_logon = False, main_window_open = True, is_server = False,
     tcp_connect = (\<lambda>_. False), desktop_err = [], terminal_user_err = (\<lambda>_ _. None),
     terminal_mismatch = (\<lambda>_. False), os_login_unsupported = False, ip_contains = (\<lambda>_ _. False),
     hostname = None, mac_address = None\<rparr>"

definition demo_globals :: globals where
  "demo_globals = \<lparr>cfg = demo_world, temporary_password = ''ab'', fails_password = fmempty, fails_2fa = fmempty,
     tabs = \<lparr>SESSIONS = fmempty, ALIVE_CONNS = [], AUTHED_CONNS = [], CONTROL_PERMISSIONS_ARRAY = [],
             WAKELOCK = []\<rparr>, SWITCH_SIDES_UUID = fmempty\<rparr>"

definition demo_login :: login_event where
  "demo_login = LoginRequest (login_request_default\<lparr>lr_username := ''1.1.1.1'',
     lr_password := rev (rev (as_bytes ''ab'' @ as_bytes ''s'') @ as_bytes ''c'')\<rparr>)"

lemma retain_empty:
  assumes "SESSIONS t = fmempty"
  shows "retain_sessions n t = t"
proof -
  have "retain_sessions n t = t\<lparr>SESSIONS := fmempty\<rparr>"
    unfolding retain_sessions_def assms by simp
  with assms show ?thesis by (cases t) simp
qed

lemma demo_login_checks:
  "is_ip_str ''1.1.1.1''" "\<not> needs_click demo_platform demo_globals" "temporary_enabled (opts demo_globals)"
  "snd (check_failure (IpV4 7) (minute_now demo_globals) (fails_password demo_globals)) = None"
  by code_simp+

lemma demo_login_authorizes:
  "authorized (fst (snd (on_event demo_platform plain_crypto text_json demo_login
     (connection_start 1 (IpV4 7) ''s'' ''c'' None None demo_globals, demo_globals))))"
proof -
  obtain ft where cf: "check_failure (IpV4 7) (minute_now demo_globals) (fails_password demo_globals) = (ft, None)"
    using demo_login_checks(4) by (metis prod.collapse)
  have sess: "retain_sessions n (tabs demo_globals) = tabs demo_globals" for n
    by (rule retain_empty) (simp add: demo_globals_def)
  note start = connection_start_def login_request_default_def Let_def
  have pw: "validate_one_password demo_platform (temporary_password demo_globals) c"
    if "hash_salt c = ''s''" and "hash_challenge c = ''c''"
      and "lr_password (lr c) = rev (rev (as_bytes ''ab'' @ as_bytes ''s'') @ as_bytes ''c'')" for c
    using that by (simp add: validate_one_password_def demo_platform_def demo_globals_def)
  show ?thesis
    by (simp add: demo_login_def on_login_request_def handle_login_request_without_validation_def start
        on_login_union_def check_privacy_mode_on_def demo_platform_def [THEN arg_cong [where f = in_privacy_mode], simplified]
        on_login_decide_def demo_platform_def [THEN arg_cong [where f = desktop_err], simplified]
        accepts_username_def demo_login_checks on_login_credentials_def is_recent_session_def sess
        demo_globals_def [THEN arg_cong [where f = "\<lambda>g. SESSIONS (tabs g)"], simplified]
        as_bytes_def cf validate_password_def pw send_logon_response_def try_start_cm_def)
qed

theorem authorization_grounds_witness:
  "granted demo_platform plain_crypto text_json demo_login
     (connection_start 1 (IpV4 7) ''s'' ''c'' None None demo_globals) demo_globals"
proof -
  let ?c = "connection_start 1 (IpV4 7) ''s'' ''c'' None None demo_globals"
  obtain k c' g' where e: "on_event demo_platform plain_crypto text_json demo_login (?c, demo_globals) = (k, c', g')"
    by (metis prod_cases3)
  then have "authorized c'" using demo_login_authorizes by simp
  moreover have "\<not> authorized ?c" by (simp add: connection_start_def Let_def)
  ultimately show ?thesis
    using authorization_grounds [OF reachable.start _ e] by blast
qed

text \<open>
  C12. A second factor configured on this side replaces the password instead of being added to it:
  the handler of a one-time code does not ask whether any login request was accepted before. On a
  connection just opened, with no password given, a correct code authorizes the connection.
\<close>

theorem two_factor_alone:
  assumes "c = connection_start i ip s ch (Some totp) cp g"
    and "totp_check P totp code (now_ms (cfg g)) = Some True"
    and "snd (check_failure ip (minute_now g) (fails_2fa g)) = None"
    and "on_event P C J (Auth2fa code hw) (c, g) = (k, c', g')"
  shows "authorized c' \<and> authed_conn_id c' = Some (i, ConnRemote) \<and> lr c' = login_request_default"
proof -
  obtain ft where cf: "check_failure ip (minute_now g) (fails_2fa g) = (ft, None)"
    using assms(3) by (metis prod.collapse)
  from assms(1) have c: "c_id c = i" "c_ip c = ip" "require_2fa c = Some totp" "\<not> authorized c" "lr c = login_request_default"
    and ty: "auth_conn_type_of (c\<lparr>require_2fa := None\<rparr>) = ConnRemote"
    by (simp_all add: connection_start_def auth_conn_type_of_def Let_def)
  let ?d = "\<lambda>h. fst (send_logon_response P (c\<lparr>require_2fa := None\<rparr>, h))"
  have logon: "authorized (?d h) \<and> authed_conn_id (?d h) = Some (i, ConnRemote) \<and> lr (?d h) = login_request_default" for h
    using ty by (simp add: send_logon_response_def c Let_def)
  from assms(4) have "c' = fst (on_2fa_correct P C J hw ft (c, g))"
    by (simp add: on_auth_2fa_def c cf assms(2))
  then obtain b h where "c' = try_start_cm b (fst (send_logon_response P (c\<lparr>require_2fa := None\<rparr>, h)))"
    using on_2fa_correct_conn by metis
  with logon [of h] show ?thesis by (simp add: try_start_cm_def)
qed

theorem two_factor_alone_witness:
  "authorized (fst (snd (on_event demo_platform plain_crypto text_json (Auth2fa ''42'' [])
     (connection_start 1 (IpV4 7) ''s'' ''c'' (Some (as_bytes ''42'')) None demo_globals, demo_globals))))"
proof -
  let ?c = "connection_start 1 (IpV4 7) ''s'' ''c'' (Some (as_bytes ''42'')) None demo_globals"
  obtain k c' g' where e: "on_event demo_platform plain_crypto text_json (Auth2fa ''42'' []) (?c, demo_globals) = (k, c', g')"
    by (metis prod_cases3)
  have "snd (check_failure (IpV4 7) (minute_now demo_globals) (fails_2fa demo_globals)) = None" by code_simp
  with two_factor_alone [OF refl _ _ e] e show ?thesis by (simp add: demo_platform_def)
qed

text \<open>The option a kind of session depends on.\<close>

fun kind_option :: "login_union \<Rightarrow> string option" where
  "kind_option (FileTransfer _ _) = Some ''enable-file-transfer''"
| "kind_option ViewCamera = Some ''enable-camera''"
| "kind_option (Terminal _) = Some ''enable-terminal''"
| "kind_option (PortForward _ _) = Some ''enable-tunnel''"
| "kind_option RemoteControl = None"

lemma permission_enabled_trusted:
  "permission_enabled opt cp (snd (get_trusted_devices C J w)) = permission_enabled opt cp w"
  using same_policy_trusted [of C J w]
  by (simp add: permission_enabled_def is_permission_enabled_locally_def same_policy_def)

lemma handle_frame_policy:
  assumes "handle_login_request_without_validation C J req (c, g) = (c', g')"
  shows "control_permissions c' = control_permissions c"
    "permission_enabled opt cp (cfg g') = permission_enabled opt cp (cfg g)"
    "fails_password g' = fails_password g"
  using assms permission_enabled_trusted [of opt cp C J "cfg g"]
  by (auto simp: handle_login_request_without_validation_def Let_def
      split: if_splits option.splits prod.splits)

text \<open>
  A login request for a file transfer, a camera, a terminal or a port forward whose permission
  is not given ends the connection with an error message, whatever the credentials: no
  authorization, no registration, no failed attempt counted.
\<close>

theorem login_kind_refused:
  assumes "\<not> authorized c" and "kind_option (lr_union req) = Some opt"
    and "\<not> permission_enabled opt (control_permissions c) (cfg g)"
    and "on_event P C J (LoginRequest req) (c, g) = (k, c', g')"
  shows "\<not> k \<and> \<not> authorized c' \<and> authed_conn_id c' = authed_conn_id c \<and> tabs g' = tabs g
    \<and> fails_password g' = fails_password g \<and> (\<exists>m. last (out c') = LoginError m)"
proof -
  obtain c1 g1 where h: "handle_login_request_without_validation C J req (c, g) = (c1, g1)" by fastforce
  note hf = handle_frame [OF h] and hp = handle_frame_policy [OF h]
  from assms(2,3) have "\<exists>m. on_login_union P req g1 c1 = (False, send_login_error m c1)"
    by (cases "lr_union req") (auto simp: on_login_union_def Let_def hp)
  then show ?thesis
    using assms(1,4) h hf hp(3) by (auto simp: on_login_request_def send_login_error_def)
qed

theorem login_kind_refused_witness:
  "let g = demo_globals\<lparr>cfg := demo_world\<lparr>OVERWRITE_SETTINGS := fmap_of_list [(''enable-tunnel'', ''N'')]\<rparr>\<rparr>;
       c = connection_start 1 (IpV4 7) ''s'' ''c'' None None g
   in \<not> authorized (fst (snd (on_event demo_platform plain_crypto text_json
         (LoginRequest (login_request_default\<lparr>lr_union := PortForward ''h'' 22\<rparr>)) (c, g))))"
proof -
  let ?g = "demo_globals\<lparr>cfg := demo_world\<lparr>OVERWRITE_SETTINGS := fmap_of_list [(''enable-tunnel'', ''N'')]\<rparr>\<rparr>"
  let ?c = "connection_start 1 (IpV4 7) ''s'' ''c'' None None ?g"
  let ?r = "login_request_default\<lparr>lr_union := PortForward ''h'' 22\<rparr>"
  obtain k c' g' where e: "on_event demo_platform plain_crypto text_json (LoginRequest ?r) (?c, ?g) = (k, c', g')"
    by (metis prod_cases3)
  have "\<not> authorized ?c" by (simp add: connection_start_def Let_def)
  moreover have "kind_option (lr_union ?r) = Some ''enable-tunnel''" by simp
  moreover have "\<not> permission_enabled ''enable-tunnel'' (control_permissions ?c) (cfg ?g)" by code_simp
  ultimately have "\<not> authorized c'" using login_kind_refused [OF _ _ _ e] by blast
  with e show ?thesis by (simp add: Let_def)
qed

end
