(* ===== verification/File_Transfer.thy ===== *)
theory File_Transfer
  imports Host_Version "HOL-Library.Finite_Map"
begin

text \<open>
  The file transfer jobs of \<open>libs/hbb_common/src/fs.rs\<close> and the compression of
  \<open>compress.rs\<close>. The file system is that of Unix: names refer to nodes, an open file is a node
  with a position and survives a renaming. \<open>dirs\<close> are the directories that exist; whether a file can
  be created in one is decided by the operating system, so that a directory that is missing or not writable
  shows as a failure of creating the file. Paths are compared as they are spelled, and symbolic links are
  not represented. A \<open>write_all\<close> that returns has written all its bytes: that the data of an
  asynchronous file may reach the disk later, or fail there, is what \<open>sync_fails\<close> stands for.
\<close>

section \<open>The file system\<close>

record node =
  f_data :: bytes
  f_mtime :: "u64 \<times> nat"

record fsys =
  names :: "(string, nat) fmap"
  nodes :: "node list"
  dirs :: "string list"

text \<open>What the operating system decides: failures, short reads and the clock.\<close>

record os =
  can_create :: "string \<Rightarrow> bool"
  can_open :: "string \<Rightarrow> bool"
  can_remove :: "string \<Rightarrow> bool"
  can_rename :: "string \<Rightarrow> string \<Rightarrow> bool"
  can_mkdir :: "string \<Rightarrow> bool"
  can_rmdir :: "string \<Rightarrow> bool"
  can_list :: "string \<Rightarrow> bool"
  sync_fails :: "nat \<Rightarrow> bool"
  read_fails :: "nat \<Rightarrow> nat \<Rightarrow> bool"
  write_fails :: "nat \<Rightarrow> nat \<Rightarrow> bool"
  short_read :: "nat \<Rightarrow> nat"
  file_clock :: "u64 \<times> nat"

datatype fs_error = FsErr string | FsPanic

definition fs_exists :: "string \<Rightarrow> fsys \<Rightarrow> bool" where
  "fs_exists p fs \<longleftrightarrow> fmlookup (names fs) p \<noteq> None"

definition fs_node :: "fsys \<Rightarrow> string \<Rightarrow> node option" where
  "fs_node fs p = map_option (\<lambda>i. nodes fs ! i) (fmlookup (names fs) p)"

definition fs_remove :: "os \<Rightarrow> string \<Rightarrow> fsys \<Rightarrow> (fs_error + unit) \<times> fsys" where
  "fs_remove os p fs =
     (if fs_exists p fs \<and> can_remove os p then (Inr (), fs\<lparr>names := fmdrop p (names fs)\<rparr>)
      else (Inl (FsErr ''remove''), fs))"

definition fs_rename :: "os \<Rightarrow> string \<Rightarrow> string \<Rightarrow> fsys \<Rightarrow> (fs_error + unit) \<times> fsys" where
  "fs_rename os a b fs =
     (case fmlookup (names fs) a of
        Some i \<Rightarrow> if can_rename os a b then (Inr (), fs\<lparr>names := fmupd b i (fmdrop a (names fs))\<rparr>)
                  else (Inl (FsErr ''rename''), fs)
      | None \<Rightarrow> (Inl (FsErr ''rename''), fs))"

definition fs_set_mtime :: "string \<Rightarrow> u64 \<times> nat \<Rightarrow> fsys \<Rightarrow> fsys" where
  "fs_set_mtime p t fs =
     (case fmlookup (names fs) p of
        Some i \<Rightarrow> fs\<lparr>nodes := (nodes fs)[i := (nodes fs ! i)\<lparr>f_mtime := t\<rparr>]\<rparr>
      | None \<Rightarrow> fs)"

text \<open>\<open>File::create\<close>: the file is truncated if it exists.\<close>

definition fs_create :: "os \<Rightarrow> string \<Rightarrow> fsys \<Rightarrow> (fs_error + nat) \<times> fsys" where
  "fs_create os p fs =
     (if \<not> can_create os p then (Inl (FsErr ''create''), fs)
      else (case fmlookup (names fs) p of
              Some i \<Rightarrow> (Inr i, fs\<lparr>nodes := (nodes fs)[i := \<lparr>f_data = [], f_mtime = file_clock os\<rparr>]\<rparr>)
            | None \<Rightarrow> (Inr (length (nodes fs)),
                fs\<lparr>names := fmupd p (length (nodes fs)) (names fs),
                   nodes := nodes fs @ [\<lparr>f_data = [], f_mtime = file_clock os\<rparr>]\<rparr>)))"

definition fs_open :: "os \<Rightarrow> string \<Rightarrow> fsys \<Rightarrow> fs_error + nat" where
  "fs_open os p fs =
     (case fmlookup (names fs) p of
        Some i \<Rightarrow> if can_open os p then Inr i else Inl (FsErr ''open'')
      | None \<Rightarrow> Inl (FsErr ''open''))"

text \<open>Bytes written at a position; a gap is filled with zeros.\<close>

definition write_at :: "nat \<Rightarrow> bytes \<Rightarrow> bytes \<Rightarrow> bytes" where
  "write_at pos b c = take pos (c @ replicate (pos - length c) 0) @ b @ drop (pos + length b) c"

definition fs_write_node :: "os \<Rightarrow> nat \<Rightarrow> nat \<Rightarrow> bytes \<Rightarrow> fsys \<Rightarrow> fsys" where
  "fs_write_node os i pos b fs =
     fs\<lparr>nodes := (nodes fs)[i := \<lparr>f_data = write_at pos b (f_data (nodes fs ! i)), f_mtime = file_clock os\<rparr>]\<rparr>"

text \<open>\<open>std::fs::write\<close>, whose error is ignored by its callers.\<close>

definition fs_write_file :: "os \<Rightarrow> string \<Rightarrow> bytes \<Rightarrow> fsys \<Rightarrow> fsys" where
  "fs_write_file os p b fs =
     (case fs_create os p fs of
        (Inr i, fs) \<Rightarrow> if write_fails os i 0 then fs else fs_write_node os i 0 b fs
      | (Inl _, fs) \<Rightarrow> fs)"

section \<open>Compression\<close>

record zstd =
  z_compress :: "bytes \<Rightarrow> bytes option"
  z_decode_all :: "bytes \<Rightarrow> bytes option"

definition compress :: "zstd \<Rightarrow> bytes \<Rightarrow> bytes" where
  "compress Z b = (case z_compress Z b of Some r \<Rightarrow> r | None \<Rightarrow> [])"

definition decompress :: "zstd \<Rightarrow> bytes \<Rightarrow> bytes" where
  "decompress Z b = (case z_decode_all Z b of Some r \<Rightarrow> r | None \<Rightarrow> [])"

section \<open>Jobs\<close>

record file_entry =
  fe_name :: string
  fe_size :: u64
  fe_modified_time :: u64

datatype job_type = Generic | Printer

definition job_type_from_i32 :: "int \<Rightarrow> job_type" where
  "job_type_from_i32 v = (if v = 0 then Generic else if v = 1 then Printer else Generic)"

definition job_type_into_i32 :: "job_type \<Rightarrow> int" where
  "job_type_into_i32 t = (case t of Generic \<Rightarrow> 0 | Printer \<Rightarrow> 1)"

datatype data_source = FilePath string | MemoryCursor bytes nat

definition to_meta :: "data_source \<Rightarrow> string" where
  "to_meta d = (case d of FilePath p \<Rightarrow> p | MemoryCursor _ _ \<Rightarrow> [])"

datatype data_stream = FileStream nat nat | BufStream bytes nat

record file_digest =
  dg_size :: u64
  dg_modified :: u64

record transfer_job =
  tj_id :: int
  tj_type :: job_type
  tj_remote :: string
  tj_source :: data_source
  tj_show_hidden :: bool
  tj_is_remote :: bool
  is_last_job :: bool
  is_resume :: bool
  file_num :: int
  tj_files :: "file_entry list"
  tj_conn_id :: int
  data_stream :: "data_stream option"
  total_size :: u64
  finished_size :: u64
  transferred :: u64
  enable_overwrite_detection :: bool
  file_confirmed :: bool
  file_skipped :: bool
  file_is_waiting :: bool
  default_overwrite_strategy :: "bool option"
  digest :: file_digest

record job_meta =
  jm_id :: int
  jm_remote :: string
  jm_to :: string
  jm_show_hidden :: bool
  jm_file_num :: int
  jm_is_remote :: bool

record file_block =
  b_id :: int
  b_file_num :: int
  b_data :: bytes
  b_compressed :: bool

record file_transfer_digest =
  td_job :: int
  td_file_num :: int
  td_last_modified :: u64
  td_file_size :: u64
  td_is_upload :: bool
  td_is_identical :: bool
  td_transferred_size :: u64
  td_is_resume :: bool

datatype confirm_union = Skip bool | OffsetBlk u32

record send_confirm =
  sc_id :: int
  sc_file_num :: int
  sc_union :: "confirm_union option"

datatype file_msg =
    MsgError int string int
  | MsgDir int string "file_entry list"
  | MsgBlock file_block
  | MsgDone int int
  | MsgDigest file_transfer_digest
  | MsgSendConfirm send_confirm
  | MsgReceive int string int "file_entry list" u64
  | MsgSend int job_type string int bool

definition error_text :: "fs_error \<Rightarrow> string" where
  "error_text e = (case e of FsErr m \<Rightarrow> m | FsPanic \<Rightarrow> ''panic'')"

text \<open>\<open>as usize\<close> of an \<open>i32\<close>: a negative number becomes a huge one.\<close>

definition as_usize :: "int \<Rightarrow> nat" where
  "as_usize i = nat (i mod 2 ^ 64)"

definition can_enable_overwrite_detection :: "int \<Rightarrow> bool" where
  "can_enable_overwrite_detection version \<longleftrightarrow> version \<ge> get_version_number ''1.1.10''"

definition get_ext :: "string \<Rightarrow> string" where
  "get_ext name = (if CHR ''.'' \<in> set name then last (split_on CHR ''.'' name) else [])"

definition is_compressed_file :: "string \<Rightarrow> bool" where
  "is_compressed_file name \<longleftrightarrow>
     get_ext name \<in> set [''xz'', ''gz'', ''zip'', ''7z'', ''rar'', ''bz2'', ''tgz'', ''png'', ''jpg'']"

text \<open>\<open>Path::join\<close> and \<open>Path::file_name\<close> of Unix.\<close>

definition path_join :: "string \<Rightarrow> string \<Rightarrow> string" where
  "path_join p name =
     (if starts_with name ''/'' then name
      else if p = [] \<or> last p = CHR ''/'' then p @ name
      else p @ ''/'' @ name)"

definition file_name_of :: "string \<Rightarrow> string" where
  "file_name_of p =
     (case filter (\<lambda>c. c \<noteq> [] \<and> c \<noteq> ''.'') (split_on CHR ''/'' p) of
        [] \<Rightarrow> []
      | cs \<Rightarrow> if last cs = ''..'' then [] else last cs)"

text \<open>\<open>Path::parent\<close> of a path without \<open>.\<close> components: none of the root and of the empty path.\<close>

definition strip_slashes :: "string \<Rightarrow> string" where
  "strip_slashes p = rev (dropWhile (\<lambda>c. c = CHR ''/'') (rev p))"

definition parent_dir :: "string \<Rightarrow> string option" where
  "parent_dir p =
     (let q = strip_slashes p; d = rev (dropWhile (\<lambda>c. c \<noteq> CHR ''/'') (rev q)) in
      if q = [] then None
      else Some (if d \<noteq> [] \<and> strip_slashes d = [] then ''/'' else strip_slashes d))"

text \<open>The ancestors of a path from the top, the path itself last.\<close>

definition dir_chain :: "string \<Rightarrow> string list" where
  "dir_chain p = (let q = strip_slashes p in
     map (\<lambda>i. take i q) (filter (\<lambda>i. 0 < i \<and> q ! i = CHR ''/'' \<and> q ! (i - 1) \<noteq> CHR ''/'') [0..<length q])
       @ (if q = [] then [] else [q]))"

fun create_dirs :: "os \<Rightarrow> string list \<Rightarrow> fsys \<Rightarrow> (fs_error + unit) \<times> fsys" where
  "create_dirs os [] fs = (Inr (), fs)"
| "create_dirs os (d # ds) fs =
     (if d \<in> set (dirs fs) then create_dirs os ds fs
      else if fs_exists d fs \<or> \<not> can_mkdir os d then (Inl (FsErr ''mkdir''), fs)
      else create_dirs os ds (fs\<lparr>dirs := d # dirs fs\<rparr>))"

text \<open>\<open>std::fs::create_dir_all\<close>.\<close>

definition fs_create_dir_all :: "os \<Rightarrow> string \<Rightarrow> fsys \<Rightarrow> (fs_error + unit) \<times> fsys" where
  "fs_create_dir_all os p fs = create_dirs os (dir_chain p) fs"

lemma create_dirs_files [simp]:
  "names (snd (create_dirs os ds fs)) = names fs" "nodes (snd (create_dirs os ds fs)) = nodes fs"
  by (induction os ds fs rule: create_dirs.induct) simp_all

lemma create_dir_all_files [simp]:
  "names (snd (fs_create_dir_all os p fs)) = names fs" "nodes (snd (fs_create_dir_all os p fs)) = nodes fs"
  by (simp_all add: fs_create_dir_all_def)

definition job_join :: "string \<Rightarrow> string \<Rightarrow> string" where
  "job_join p name = (if name = [] then p else path_join p name)"

definition transfer_job_default :: transfer_job where
  "transfer_job_default = \<lparr>tj_id = 0, tj_type = Generic, tj_remote = [], tj_source = FilePath [],
     tj_show_hidden = False, tj_is_remote = False, is_last_job = False, is_resume = False, file_num = 0,
     tj_files = [], tj_conn_id = 0, data_stream = None, total_size = 0, finished_size = 0,
     transferred = 0, enable_overwrite_detection = False, file_confirmed = False,
     file_skipped = False, file_is_waiting = False, default_overwrite_strategy = None,
     digest = \<lparr>dg_size = 0, dg_modified = 0\<rparr>\<rparr>"

definition new_write ::
    "int \<Rightarrow> job_type \<Rightarrow> string \<Rightarrow> data_source \<Rightarrow> int \<Rightarrow> bool \<Rightarrow> bool \<Rightarrow> file_entry list \<Rightarrow> bool \<Rightarrow> transfer_job" where
  "new_write i t remote src n hidden is_rem fl detect =
     transfer_job_default\<lparr>tj_id := i, tj_type := t, tj_remote := remote, tj_source := src, file_num := n,
       tj_show_hidden := hidden, tj_is_remote := is_rem, tj_files := fl,
       total_size := sum_list (map fe_size fl), enable_overwrite_detection := detect\<rparr>"

text \<open>\<open>listing\<close> is the result of \<open>get_recursive_files\<close> on the path.\<close>

definition new_read ::
    "(string \<Rightarrow> bool \<Rightarrow> fs_error + file_entry list) \<Rightarrow> int \<Rightarrow> job_type \<Rightarrow> string \<Rightarrow> data_source \<Rightarrow> int \<Rightarrow> bool \<Rightarrow> bool
     \<Rightarrow> bool \<Rightarrow> fs_error + transfer_job" where
  "new_read listing i t remote src n hidden is_rem detect =
     (let mk = (\<lambda>fl sz. transfer_job_default\<lparr>tj_id := i, tj_type := t, tj_remote := remote, tj_source := src,
                 file_num := n, tj_show_hidden := hidden, tj_is_remote := is_rem, tj_files := fl,
                 total_size := sz, enable_overwrite_detection := detect\<rparr>)
      in case src of
           FilePath p \<Rightarrow> (case listing p hidden of Inl e \<Rightarrow> Inl e | Inr fl \<Rightarrow> Inr (mk fl (sum_list (map fe_size fl))))
         | MemoryCursor c _ \<Rightarrow> Inr (mk [] (word_of_nat (length c))))"

definition set_digest :: "u64 \<Rightarrow> u64 \<Rightarrow> transfer_job \<Rightarrow> transfer_job" where
  "set_digest sz m j = j\<lparr>digest := \<lparr>dg_size = sz, dg_modified = m\<rparr>\<rparr>"

definition get_buf_data :: "transfer_job \<Rightarrow> bytes option" where
  "get_buf_data j = (case data_stream j of Some (BufStream c _) \<Rightarrow> Some c | _ \<Rightarrow> None)"

definition current_path :: "transfer_job \<Rightarrow> string option" where
  "current_path j =
     (case tj_source j of
        FilePath p \<Rightarrow>
          let n = as_usize (file_num j) in
          if n < length (tj_files j) then Some (job_join p (fe_name (tj_files j ! n))) else None
      | MemoryCursor _ _ \<Rightarrow> None)"

text \<open>The current file is complete: it takes its final name and its modification time.\<close>

definition modify_time :: "os \<Rightarrow> transfer_job \<Rightarrow> fsys \<Rightarrow> fsys" where
  "modify_time os j fs =
     (if tj_type j = Printer then fs
      else (case current_path j of
              None \<Rightarrow> fs
            | Some path \<Rightarrow>
                let fs = snd (fs_remove os (path @ ''.digest'') fs);
                    fs = snd (fs_rename os (path @ ''.download'') path fs)
                in fs_set_mtime path (fe_modified_time (tj_files j ! as_usize (file_num j)), 0) fs))"

definition remove_download_file :: "os \<Rightarrow> transfer_job \<Rightarrow> fsys \<Rightarrow> fsys" where
  "remove_download_file os j fs =
     (if tj_type j = Printer then fs
      else (case current_path j of
              None \<Rightarrow> fs
            | Some path \<Rightarrow>
                let fs = snd (fs_remove os (path @ ''.download'') fs)
                in snd (fs_remove os (path @ ''.digest'') fs)))"

definition set_finished_size_on_resume :: "transfer_job \<Rightarrow> transfer_job" where
  "set_finished_size_on_resume j =
     (if is_resume j \<and> file_num j > 0
      then j\<lparr>finished_size := sum_list (map fe_size (take (as_usize (file_num j)) (tj_files j)))\<rparr>
      else j)"

section \<open>Writing\<close>

definition stream_write :: "os \<Rightarrow> bytes \<Rightarrow> data_stream \<Rightarrow> fsys \<Rightarrow> (fs_error + data_stream) \<times> fsys" where
  "stream_write os b ds fs =
     (case ds of
        FileStream i pos \<Rightarrow>
          if write_fails os i pos then (Inl (FsErr ''write''), fs)
          else (Inr (FileStream i (pos + length b)), fs_write_node os i pos b fs)
      | BufStream c pos \<Rightarrow> (Inr (BufStream (write_at pos b c) (pos + length b)), fs))"

text \<open>\<open>sync_all\<close> of the stream that is about to be replaced.\<close>

definition sync_stream :: "os \<Rightarrow> data_stream option \<Rightarrow> bool" where
  "sync_stream os ds \<longleftrightarrow> (case ds of Some (FileStream i _) \<Rightarrow> \<not> sync_fails os i | _ \<Rightarrow> True)"

definition digest_path :: "transfer_job \<Rightarrow> string \<Rightarrow> string option" where
  "digest_path j path = (if tj_type j = Printer then None else Some (path @ ''.digest''))"

definition remove_digest :: "os \<Rightarrow> string option \<Rightarrow> fsys \<Rightarrow> (fs_error + unit) \<times> fsys" where
  "remove_digest os dp fs =
     (case dp of
        Some dp \<Rightarrow> if fs_exists dp fs then fs_remove os dp fs else (Inr (), fs)
      | None \<Rightarrow> (Inr (), fs))"

text \<open>
  The file of a block is opened: the previous one is finished first. \<open>dj\<close> is the JSON text of
  the digest.
\<close>

definition create_parent :: "os \<Rightarrow> transfer_job \<Rightarrow> string \<Rightarrow> fsys \<Rightarrow> fsys" where
  "create_parent os j path fs =
     (case tj_type j of
        Printer \<Rightarrow> fs
      | Generic \<Rightarrow> (case parent_dir path of Some pp \<Rightarrow> snd (fs_create_dir_all os pp fs) | None \<Rightarrow> fs))"

lemma create_parent_files [simp]:
  "names (create_parent os j path fs) = names fs" "nodes (create_parent os j path fs) = nodes fs"
  by (simp_all add: create_parent_def split: job_type.split option.split)

definition open_for_write ::
    "os \<Rightarrow> (file_digest \<Rightarrow> bytes) \<Rightarrow> string \<Rightarrow> int \<Rightarrow> transfer_job \<times> fsys \<Rightarrow> (fs_error + unit) \<times> transfer_job \<times> fsys" where
  "open_for_write os dj p bn jf =
     (case jf of (j, fs) \<Rightarrow>
        let fs = modify_time os j fs in
        if \<not> sync_stream os (data_stream j) then (Inl (FsErr ''sync''), j, fs)
        else
          let j = j\<lparr>file_num := bn\<rparr>;
              file_path = job_join p (fe_name (tj_files j ! as_usize bn));
              path = (case tj_type j of Printer \<Rightarrow> p | Generic \<Rightarrow> file_path @ ''.download'');
              dp = digest_path j file_path;
              fs = create_parent os j file_path fs
          in (case remove_digest os dp fs of
                (Inl e, fs) \<Rightarrow> (Inl e, j, fs)
              | (Inr _, fs) \<Rightarrow>
                  (case fs_create os path fs of
                     (Inl e, fs) \<Rightarrow> (Inl e, j, fs)
                   | (Inr i, fs) \<Rightarrow>
                       (Inr (), j\<lparr>data_stream := Some (FileStream i 0)\<rparr>,
                        (case dp of
                           Some dp \<Rightarrow> fs_write_file os dp (dj (digest j)) fs
                         | None \<Rightarrow> fs)))))"

definition job_write ::
    "os \<Rightarrow> zstd \<Rightarrow> (file_digest \<Rightarrow> bytes) \<Rightarrow> file_block \<Rightarrow> transfer_job \<times> fsys \<Rightarrow> (fs_error + unit) \<times> transfer_job \<times> fsys" where
  "job_write os Z dj blk jf =
     (case jf of (j, fs) \<Rightarrow>
        if b_id blk \<noteq> tj_id j then (Inl (FsErr ''Wrong id''), j, fs)
        else
          let opened =
            (case tj_source j of
               FilePath p \<Rightarrow>
                 let n = as_usize (b_file_num blk) in
                 if n \<ge> length (tj_files j) then (Inl (FsErr ''Wrong file number''), j, fs)
                 else if n \<noteq> as_usize (file_num j) \<or> data_stream j = None
                 then open_for_write os dj p (b_file_num blk) (j, fs)
                 else (Inr (), j, fs)
             | MemoryCursor c pos \<Rightarrow>
                 if data_stream j = None then (Inr (), j\<lparr>data_stream := Some (BufStream c pos)\<rparr>, fs)
                 else (Inr (), j, fs))
          in (case opened of
                (Inl e, j, fs) \<Rightarrow> (Inl e, j, fs)
              | (Inr _, j, fs) \<Rightarrow>
                  let b = (if b_compressed blk then decompress Z (b_data blk) else b_data blk) in
                  (case data_stream j of
                     None \<Rightarrow> (Inl (FsErr ''file is None''), j, fs)
                   | Some ds \<Rightarrow>
                       (case stream_write os b ds fs of
                          (Inl e, fs) \<Rightarrow> (Inl e, j, fs)
                        | (Inr ds, fs) \<Rightarrow>
                            (Inr (), j\<lparr>data_stream := Some ds,
                                finished_size := finished_size j + word_of_nat (length b),
                                transferred := transferred j + word_of_nat (length (b_data blk))\<rparr>, fs)))))"

section \<open>Reading\<close>

definition next_file :: "transfer_job \<Rightarrow> transfer_job" where
  "next_file j = j\<lparr>file_num := i32_add (file_num j) 1, file_confirmed := False, file_is_waiting := False\<rparr>"

text \<open>\<open>Inr True\<close> if the job is done.\<close>

definition open_data_stream :: "os \<Rightarrow> fsys \<Rightarrow> transfer_job \<Rightarrow> (fs_error + bool) \<times> transfer_job" where
  "open_data_stream os fs j =
     (let n = as_usize (file_num j) in
      case tj_source j of
        FilePath p \<Rightarrow>
          if n \<ge> length (tj_files j) then (Inr True, j\<lparr>data_stream := None\<rparr>)
          else if data_stream j = None then
            (case fs_open os (job_join p (fe_name (tj_files j ! n))) fs of
               Inr i \<Rightarrow> (Inr False, j\<lparr>data_stream := Some (FileStream i 0), file_confirmed := False,
                                    file_is_waiting := False\<rparr>)
             | Inl e \<Rightarrow> (Inl e, next_file j))
          else (Inr False, j)
      | MemoryCursor c pos \<Rightarrow>
          if data_stream j = None
          then (Inr False, j\<lparr>tj_source := MemoryCursor [] 0, data_stream := Some (BufStream c pos)\<rparr>)
          else (Inr False, j))"

definition get_current_digest :: "fsys \<Rightarrow> transfer_job \<Rightarrow> fs_error + u64 \<times> u64" where
  "get_current_digest fs j =
     (case data_stream j of
        None \<Rightarrow> Inl (FsErr ''file is None'')
      | Some (BufStream _ _) \<Rightarrow> Inl (FsErr ''No digest for buf stream'')
      | Some (FileStream i _) \<Rightarrow>
          Inr (fst (f_mtime (nodes fs ! i)), word_of_nat (length (f_data (nodes fs ! i)))))"

definition needs_digest :: "transfer_job \<Rightarrow> bool" where
  "needs_digest j \<longleftrightarrow> tj_type j = Generic \<and> enable_overwrite_detection j \<and> \<not> file_confirmed j \<and> \<not> file_is_waiting j"

definition init_data_stream_for_cm :: "os \<Rightarrow> fsys \<Rightarrow> transfer_job \<Rightarrow> (fs_error + (u64 \<times> u64) option) \<times> transfer_job" where
  "init_data_stream_for_cm os fs j =
     (case open_data_stream os fs j of
        (Inl e, j) \<Rightarrow> (Inl e, j)
      | (Inr True, j) \<Rightarrow> (Inr None, j)
      | (Inr False, j) \<Rightarrow>
          if needs_digest j then
            (case get_current_digest fs j of
               Inl e \<Rightarrow> (Inl e, j)
             | Inr d \<Rightarrow> (Inr (Some d), j\<lparr>file_is_waiting := True\<rparr>))
          else (Inr None, j))"

definition digest_msg :: "u64 \<times> u64 \<Rightarrow> transfer_job \<Rightarrow> file_msg" where
  "digest_msg d j = MsgDigest \<lparr>td_job = tj_id j, td_file_num = file_num j, td_last_modified = fst d,
     td_file_size = snd d, td_is_upload = False, td_is_identical = False, td_transferred_size = 0,
     td_is_resume = is_resume j\<rparr>"

definition init_data_stream :: "os \<Rightarrow> fsys \<Rightarrow> transfer_job \<Rightarrow> (fs_error + unit) \<times> transfer_job \<times> file_msg list" where
  "init_data_stream os fs j =
     (case open_data_stream os fs j of
        (Inl e, j) \<Rightarrow> (Inl e, j, [])
      | (Inr True, j) \<Rightarrow> (Inr (), j, [])
      | (Inr False, j) \<Rightarrow>
          if needs_digest j then
            (case get_current_digest fs j of
               Inl e \<Rightarrow> (Inl e, j, [])
             | Inr d \<Rightarrow> (Inr (), j\<lparr>file_is_waiting := True\<rparr>, [digest_msg d j]))
          else (Inr (), j, []))"

definition BUF_SIZE :: nat where
  "BUF_SIZE = 128 * 1024"

text \<open>One \<open>read\<close> into a buffer of \<open>want\<close> bytes: it may return less, but nothing only at the end.\<close>

definition stream_read :: "os \<Rightarrow> fsys \<Rightarrow> nat \<Rightarrow> data_stream \<Rightarrow> (fs_error + bytes) \<times> data_stream" where
  "stream_read os fs want ds =
     (case ds of
        FileStream i pos \<Rightarrow>
          if read_fails os i pos then (Inl (FsErr ''read''), ds)
          else let b = take (min want (max 1 (short_read os pos))) (drop pos (f_data (nodes fs ! i)))
               in (Inr b, FileStream i (pos + length b))
      | BufStream c pos \<Rightarrow>
          let b = take (min want (max 1 (short_read os pos))) (drop pos c)
          in (Inr b, BufStream c (pos + length b)))"

function read_fill :: "os \<Rightarrow> fsys \<Rightarrow> data_stream \<Rightarrow> bytes \<Rightarrow> (fs_error + bytes) \<times> data_stream" where
  "read_fill os fs ds acc =
     (case stream_read os fs (BUF_SIZE - length acc) ds of
        (Inl e, ds) \<Rightarrow> (Inl e, ds)
      | (Inr b, ds) \<Rightarrow>
          if b = [] \<or> length (acc @ b) = BUF_SIZE then (Inr (acc @ b), ds)
          else read_fill os fs ds (acc @ b))"
  by pat_completeness auto
termination
proof (relation "measure (\<lambda>(os, fs, ds, acc). BUF_SIZE - length acc)", goal_cases)
  case (2 os fs ds acc r ds' b)
  from 2(1,2) have "length b \<le> BUF_SIZE - length acc"
    by (auto simp: stream_read_def Let_def split: data_stream.splits if_splits)
  with 2(3) show ?case by (cases b) auto
qed simp

declare read_fill.simps [simp del]

definition read_name :: "transfer_job \<Rightarrow> string" where
  "read_name j =
     (case tj_source j of
        FilePath p \<Rightarrow>
          let n = as_usize (file_num j) in
          if length (tj_files j) = 1 \<and> fe_name (tj_files j ! n) = [] then file_name_of p
          else fe_name (tj_files j ! n)
      | MemoryCursor _ _ \<Rightarrow> [])"

definition is_file_path :: "data_source \<Rightarrow> bool" where
  "is_file_path d \<longleftrightarrow> (case d of FilePath _ \<Rightarrow> True | MemoryCursor _ _ \<Rightarrow> False)"

text \<open>What is sent of the bytes read: compressed if that is shorter.\<close>

definition pack :: "zstd \<Rightarrow> transfer_job \<Rightarrow> bytes \<Rightarrow> bytes \<times> bool" where
  "pack Z j buf =
     (if is_file_path (tj_source j) \<and> \<not> is_compressed_file (read_name j) \<and> length (compress Z buf) < length buf
      then (compress Z buf, True) else (buf, False))"

definition job_read :: "os \<Rightarrow> zstd \<Rightarrow> fsys \<Rightarrow> transfer_job \<Rightarrow> (fs_error + file_block option) \<times> transfer_job" where
  "job_read os Z fs j =
     (if tj_type j = Generic \<and> enable_overwrite_detection j \<and> \<not> file_confirmed j then (Inr None, j)
      else
        let n = as_usize (file_num j) in
        if is_file_path (tj_source j) \<and> n \<ge> length (tj_files j) then (Inr None, j\<lparr>data_stream := None\<rparr>)
        else
          (case data_stream j of
             None \<Rightarrow> (Inl (FsErr ''data stream is None''), j)
           | Some ds \<Rightarrow>
               (case read_fill os fs ds [] of
                  (Inl e, _) \<Rightarrow> (Inl e, (next_file j)\<lparr>data_stream := None\<rparr>)
                | (Inr buf, ds) \<Rightarrow>
                    if buf = [] then
                      (if \<not> is_file_path (tj_source j) then (Inr None, j\<lparr>data_stream := None\<rparr>)
                       else (Inr (Some \<lparr>b_id = tj_id j, b_file_num = file_num j, b_data = [], b_compressed = False\<rparr>),
                             (next_file j)\<lparr>data_stream := None\<rparr>))
                    else
                      (case pack Z j buf of (out, packed) \<Rightarrow>
                         (Inr (Some \<lparr>b_id = tj_id j, b_file_num = file_num j, b_data = out, b_compressed = packed\<rparr>),
                          j\<lparr>data_stream := Some ds,
                            finished_size := finished_size j + word_of_nat (length buf),
                            transferred := transferred j + word_of_nat (length out)\<rparr>)))))"

section \<open>Confirmation\<close>

definition set_file_confirmed :: "bool \<Rightarrow> transfer_job \<Rightarrow> transfer_job" where
  "set_file_confirmed b j = j\<lparr>file_confirmed := b, file_skipped := False\<rparr>"

definition job_skipped :: "transfer_job \<Rightarrow> bool" where
  "job_skipped j \<longleftrightarrow> file_skipped j \<and> length (tj_files j) = 1"

definition job_completed :: "transfer_job \<Rightarrow> bool" where
  "job_completed j \<longleftrightarrow> \<not> enable_overwrite_detection j \<or> (\<not> file_confirmed j \<and> \<not> file_is_waiting j)"

definition job_error :: "transfer_job \<Rightarrow> string option" where
  "job_error j = (if job_skipped j then Some ''skipped'' else None)"

definition set_file_skipped :: "transfer_job \<Rightarrow> transfer_job" where
  "set_file_skipped j =
     (let j = set_file_confirmed False (j\<lparr>data_stream := None\<rparr>);
          j = j\<lparr>file_is_waiting := False\<rparr>;
          j = j\<lparr>file_num := i32_add (file_num j) 1\<rparr>
      in j\<lparr>file_skipped := True\<rparr>)"

text \<open>\<open>OpenOptions::new().create(true).write(true)\<close>: like \<open>File::create\<close>, without truncation.\<close>

definition fs_open_write :: "os \<Rightarrow> string \<Rightarrow> fsys \<Rightarrow> fs_error + nat" where
  "fs_open_write os p fs =
     (case fmlookup (names fs) p of
        Some i \<Rightarrow> if can_create os p then Inr i else Inl (FsErr ''open'')
      | None \<Rightarrow> Inl (FsErr ''open''))"

definition set_stream_offset :: "os \<Rightarrow> fsys \<Rightarrow> nat \<Rightarrow> u64 \<Rightarrow> transfer_job \<Rightarrow> fs_error + transfer_job" where
  "set_stream_offset os fs n off j =
     (case tj_source j of
        MemoryCursor _ _ \<Rightarrow> Inr j
      | FilePath p \<Rightarrow>
          if n \<ge> length (tj_files j) then Inl FsPanic
          else
            let file_path = job_join p (fe_name (tj_files j ! n));
                f = (if fs_exists (file_path @ ''.download'') fs \<and> fs_exists (file_path @ ''.digest'') fs
                     then fs_open_write os (file_path @ ''.download'') fs
                     else if fs_exists file_path fs then fs_open os file_path fs
                     else Inl (FsErr ''not found''))
            in (case f of
                  Inl _ \<Rightarrow> Inr j
                | Inr i \<Rightarrow> Inr (j\<lparr>data_stream := Some (FileStream i (unat off)),
                              transferred := transferred j + off, finished_size := finished_size j + off\<rparr>)))"

definition confirm :: "os \<Rightarrow> fsys \<Rightarrow> send_confirm \<Rightarrow> transfer_job \<Rightarrow> fs_error + transfer_job" where
  "confirm os fs r j =
     (if file_num j \<noteq> sc_file_num r then Inr j
      else (case sc_union r of
              Some (Skip s) \<Rightarrow> Inr (if s then set_file_skipped j else set_file_confirmed True j)
            | Some (OffsetBlk off) \<Rightarrow>
                let j = set_file_confirmed True j in
                if off > 0 then set_stream_offset os fs (as_usize (sc_file_num r)) (ucast off) j else Inr j
            | None \<Rightarrow> Inr j))"

definition gen_meta :: "transfer_job \<Rightarrow> job_meta" where
  "gen_meta j = \<lparr>jm_id = tj_id j, jm_remote = tj_remote j, jm_to = to_meta (tj_source j),
     jm_show_hidden = tj_show_hidden j, jm_file_num = file_num j, jm_is_remote = tj_is_remote j\<rparr>"

section \<open>The list of jobs\<close>

fun remove_job :: "int \<Rightarrow> transfer_job list \<Rightarrow> transfer_job option \<times> transfer_job list" where
  "remove_job i [] = (None, [])"
| "remove_job i (j # js) =
     (if tj_id j = i then (Some j, js)
      else (case remove_job i js of (r, js) \<Rightarrow> (r, j # js)))"

definition get_job :: "int \<Rightarrow> transfer_job list \<Rightarrow> transfer_job option" where
  "get_job i js = find (\<lambda>j. tj_id j = i) js"

text \<open>The effect of an update through the reference that \<open>get_job\<close> returns.\<close>

fun update_job :: "int \<Rightarrow> (transfer_job \<Rightarrow> transfer_job) \<Rightarrow> transfer_job list \<Rightarrow> transfer_job list" where
  "update_job i f [] = []"
| "update_job i f (j # js) = (if tj_id j = i then f j # js else j # update_job i f js)"

definition init_job :: "os \<Rightarrow> fsys \<Rightarrow> transfer_job \<Rightarrow> transfer_job \<times> file_msg list" where
  "init_job os fs j =
     (if is_last_job j then (j, [])
      else (case init_data_stream os fs j of
              (Inl e, j, ms) \<Rightarrow> (j, ms @ [MsgError (tj_id j) (error_text e) (file_num j)])
            | (Inr _, j, ms) \<Rightarrow> (j, ms)))"

fun init_jobs :: "os \<Rightarrow> fsys \<Rightarrow> transfer_job list \<Rightarrow> transfer_job list \<times> file_msg list" where
  "init_jobs os fs [] = ([], [])"
| "init_jobs os fs (j # js) =
     (let (j, ms) = init_job os fs j; (js, ms') = init_jobs os fs js in (j # js, ms @ ms'))"

text \<open>One block of the first job that is not the last; the ids of the finished jobs.\<close>

fun read_first :: "os \<Rightarrow> zstd \<Rightarrow> fsys \<Rightarrow> transfer_job list \<Rightarrow> transfer_job list \<times> file_msg list \<times> int list" where
  "read_first os Z fs [] = ([], [], [])"
| "read_first os Z fs (j # js) =
     (if is_last_job j then (case read_first os Z fs js of (js, r) \<Rightarrow> (j # js, r))
      else
        (case job_read os Z fs j of
           (Inl e, j) \<Rightarrow> (j # js, [MsgError (tj_id j) (error_text e) (file_num j)], [])
         | (Inr (Some b), j) \<Rightarrow> (j # js, [MsgBlock b], [])
         | (Inr None, j) \<Rightarrow>
             if job_completed j then
               (j # js, [case job_error j of Some e \<Rightarrow> MsgError (tj_id j) e (file_num j)
                                           | None \<Rightarrow> MsgDone (tj_id j) (file_num j)], [tj_id j])
             else (j # js, [], [])))"

definition handle_read_jobs :: "os \<Rightarrow> zstd \<Rightarrow> fsys \<Rightarrow> transfer_job list \<Rightarrow> transfer_job list \<times> file_msg list" where
  "handle_read_jobs os Z fs js =
     (case init_jobs os fs js of (js, ms) \<Rightarrow>
        (case read_first os Z fs js of (js, ms', finished) \<Rightarrow>
           (fold (\<lambda>i js. snd (remove_job i js)) finished js, ms @ ms')))"

section \<open>Overwrite detection\<close>

datatype digest_check = IsSame | NeedConfirm file_transfer_digest | NoSuchFile

definition is_write_need_confirmation ::
    "(bytes \<Rightarrow> file_digest option) \<Rightarrow> fsys \<Rightarrow> bool \<Rightarrow> string \<Rightarrow> file_transfer_digest \<Rightarrow> digest_check" where
  "is_write_need_confirmation parse fs resume path d =
     (let answer = (\<lambda>m sz same tr. NeedConfirm \<lparr>td_job = td_job d, td_file_num = td_file_num d,
            td_last_modified = m, td_file_size = sz, td_is_upload = False, td_is_identical = same,
            td_transferred_size = tr, td_is_resume = False\<rparr>);
          partial = (case (fs_node fs (path @ ''.digest''), fs_node fs (path @ ''.download'')) of
                       (Some dg, Some dl) \<Rightarrow>
                         (case parse (f_data dg) of
                            Some l \<Rightarrow>
                              if resume \<and> dg_modified l = td_last_modified d \<and> dg_size l = td_file_size d
                                 \<and> f_data dl \<noteq> []
                              then Some (word_of_nat (length (f_data dl)) :: u64) else None
                          | None \<Rightarrow> None)
                     | _ \<Rightarrow> None)
      in case partial of
           Some tr \<Rightarrow> answer (td_last_modified d) (td_file_size d) True tr
         | None \<Rightarrow>
             (case fs_node fs path of
                Some f \<Rightarrow>
                  answer (fst (f_mtime f)) (word_of_nat (length (f_data f)))
                    (f_mtime f = (td_last_modified d, 0) \<and> td_file_size d = word_of_nat (length (f_data f))) 0
              | None \<Rightarrow> NoSuchFile))"

definition transform_windows_path :: "file_entry list \<Rightarrow> file_entry list" where
  "transform_windows_path es =
     map (\<lambda>e. e\<lparr>fe_name := map (\<lambda>c. if c = CHR 0x5C then CHR ''/'' else c) (fe_name e)\<rparr>) es"

section \<open>The file system as a map of paths\<close>

text \<open>Names refer to existing nodes, no two to the same one.\<close>

definition fs_ok :: "fsys \<Rightarrow> bool" where
  "fs_ok fs \<longleftrightarrow> (\<forall>p i. fmlookup (names fs) p = Some i \<longrightarrow> i < length (nodes fs))
     \<and> (\<forall>p q i. fmlookup (names fs) p = Some i \<longrightarrow> fmlookup (names fs) q = Some i \<longrightarrow> p = q)"

text \<open>
  The interface the transfer relies on: what the state shows under each path after an operation
  that is allowed.
\<close>

locale path_store =
  fixes ok :: "'s \<Rightarrow> bool"
    and view :: "'s \<Rightarrow> string \<Rightarrow> node option"
    and may_remove :: "string \<Rightarrow> bool"
    and remove :: "string \<Rightarrow> 's \<Rightarrow> 's"
    and may_rename :: "string \<Rightarrow> string \<Rightarrow> bool"
    and rename :: "string \<Rightarrow> string \<Rightarrow> 's \<Rightarrow> 's"
    and set_mtime :: "string \<Rightarrow> u64 \<times> nat \<Rightarrow> 's \<Rightarrow> 's"
  assumes ok_remove: "ok s \<Longrightarrow> ok (remove p s)"
    and ok_rename: "ok s \<Longrightarrow> ok (rename p q s)"
    and ok_set_mtime: "ok s \<Longrightarrow> ok (set_mtime p t s)"
    and view_remove: "ok s \<Longrightarrow> may_remove p \<Longrightarrow> view (remove p s) = (view s)(p := None)"
    and view_rename: "ok s \<Longrightarrow> may_rename p q \<Longrightarrow> view s p = Some n \<Longrightarrow>
           view (rename p q s) = (view s)(p := None, q := Some n)"
    and view_rename_missing: "ok s \<Longrightarrow> view s p = None \<Longrightarrow> view (rename p q s) = view s"
    and view_set_mtime: "ok s \<Longrightarrow> view (set_mtime p t s) = (view s)(p := map_option (\<lambda>n. n\<lparr>f_mtime := t\<rparr>) (view s p))"
begin

text \<open>Finishing a download: the partial file becomes the file, with the given time.\<close>

lemma finish_view:
  assumes "ok s" and "may_remove (p @ ''.digest'')" and "may_rename (p @ ''.download'') p"
    and "view s (p @ ''.download'') = Some n"
  shows "view (set_mtime p t (rename (p @ ''.download'') p (remove (p @ ''.digest'') s)))
    = (view s)(p @ ''.digest'' := None, p @ ''.download'' := None, p := Some (n\<lparr>f_mtime := t\<rparr>))"
proof -
  let ?s = "remove (p @ ''.digest'') s"
  have v1: "view ?s = (view s)(p @ ''.digest'' := None)" using assms by (simp add: view_remove)
  then have "view ?s (p @ ''.download'') = Some n" using assms by simp
  then have "view (rename (p @ ''.download'') p ?s)
      = (view s)(p @ ''.digest'' := None, p @ ''.download'' := None, p := Some n)"
    using assms v1 by (simp add: view_rename ok_remove)
  then show ?thesis using assms by (simp add: view_set_mtime ok_remove ok_rename)
qed

lemma finish_missing:
  assumes "ok s" and "may_remove (p @ ''.digest'')" and "view s (p @ ''.download'') = None"
  shows "view (set_mtime p t (rename (p @ ''.download'') p (remove (p @ ''.digest'') s)))
    = (view s)(p @ ''.digest'' := None, p := map_option (\<lambda>n. n\<lparr>f_mtime := t\<rparr>) (view s p))"
proof -
  let ?s = "remove (p @ ''.digest'') s"
  have v1: "view ?s = (view s)(p @ ''.digest'' := None)" using assms by (simp add: view_remove)
  then have "view ?s (p @ ''.download'') = None" using assms by simp
  then have "view (rename (p @ ''.download'') p ?s) = (view s)(p @ ''.digest'' := None)"
    using assms v1 by (simp add: view_rename_missing ok_remove)
  then show ?thesis using assms by (simp add: view_set_mtime ok_remove ok_rename)
qed

lemma ok_finish: "ok s \<Longrightarrow> ok (set_mtime p t (rename q r (remove d s)))"
  by (simp add: ok_remove ok_rename ok_set_mtime)

end

lemma fs_ok_less: "fs_ok fs \<Longrightarrow> fmlookup (names fs) p = Some i \<Longrightarrow> i < length (nodes fs)"
  by (auto simp: fs_ok_def)

lemma fs_ok_inj: "fs_ok fs \<Longrightarrow> fmlookup (names fs) p = Some i \<Longrightarrow> fmlookup (names fs) q = Some i \<Longrightarrow> p = q"
  by (auto simp: fs_ok_def)

text \<open>A change of one node shows under the one name it has.\<close>

lemma fs_node_update:
  assumes "fs_ok fs" and "fmlookup (names fs) p = Some i"
  shows "fs_node (fs\<lparr>nodes := (nodes fs)[i := n]\<rparr>) = (fs_node fs)(p := Some n)"
proof
  fix q
  show "fs_node (fs\<lparr>nodes := (nodes fs)[i := n]\<rparr>) q = ((fs_node fs)(p := Some n)) q"
    using assms fs_ok_less [OF assms] fs_ok_inj [OF assms(1), of q i p]
    by (cases "fmlookup (names fs) q") (auto simp: fs_node_def nth_list_update)
qed

interpretation unix: path_store fs_ok fs_node "can_remove os" "\<lambda>p fs. snd (fs_remove os p fs)"
  "can_rename os" "\<lambda>p q fs. snd (fs_rename os p q fs)" fs_set_mtime for os
proof unfold_locales
  fix fs p q t n
  assume ok: "fs_ok fs"
  show "fs_ok (snd (fs_remove os p fs))"
    using ok by (auto simp: fs_ok_def fs_remove_def split: if_splits)
  show "fs_ok (snd (fs_rename os p q fs))"
    using ok by (auto simp: fs_ok_def fs_rename_def split: if_splits option.splits)
  show "fs_ok (fs_set_mtime p t fs)"
    using ok by (auto simp: fs_ok_def fs_set_mtime_def split: option.splits)
  show "can_remove os p \<Longrightarrow> fs_node (snd (fs_remove os p fs)) = (fs_node fs)(p := None)"
    by (auto simp: fs_node_def fs_remove_def fs_exists_def fun_eq_iff)
  show "can_rename os p q \<Longrightarrow> fs_node fs p = Some n \<Longrightarrow>
      fs_node (snd (fs_rename os p q fs)) = (fs_node fs)(p := None, q := Some n)"
    by (auto simp: fs_node_def fs_rename_def fun_eq_iff)
  show "fs_node fs p = None \<Longrightarrow> fs_node (snd (fs_rename os p q fs)) = fs_node fs"
    by (auto simp: fs_node_def fs_rename_def fun_eq_iff)
  show "fs_node (fs_set_mtime p t fs) = (fs_node fs)(p := map_option (\<lambda>n. n\<lparr>f_mtime := t\<rparr>) (fs_node fs p))"
  proof (cases "fmlookup (names fs) p")
    case (Some i)
    then have "fs_node fs p = Some (nodes fs ! i)" by (simp add: fs_node_def)
    with Some show ?thesis by (simp add: fs_set_mtime_def fs_node_update [OF ok Some])
  qed (auto simp: fs_set_mtime_def fs_node_def fun_eq_iff)
qed

lemma fs_create_result:
  assumes "fs_ok fs" and "can_create os p" and "fs_create os p fs = (r, fs')"
  shows "\<exists>i. r = Inr i \<and> fs_ok fs' \<and> fmlookup (names fs') p = Some i
    \<and> fs_node fs' = (fs_node fs)(p := Some \<lparr>f_data = [], f_mtime = file_clock os\<rparr>)"
proof (cases "fmlookup (names fs) p")
  case None
  then have r: "r = Inr (length (nodes fs))"
    and fs': "fs' = fs\<lparr>names := fmupd p (length (nodes fs)) (names fs),
        nodes := nodes fs @ [\<lparr>f_data = [], f_mtime = file_clock os\<rparr>]\<rparr>"
    using assms by (auto simp: fs_create_def)
  have "fs_ok fs'"
    using fs_ok_less [OF assms(1)] fs_ok_inj [OF assms(1)] by (auto simp: fs' fs_ok_def less_Suc_eq)
  moreover have "fs_node fs' = (fs_node fs)(p := Some \<lparr>f_data = [], f_mtime = file_clock os\<rparr>)"
  proof
    fix q
    show "fs_node fs' q = ((fs_node fs)(p := Some \<lparr>f_data = [], f_mtime = file_clock os\<rparr>)) q"
      using fs_ok_less [OF assms(1), of q]
      by (cases "fmlookup (names fs) q") (auto simp: fs' fs_node_def nth_append)
  qed
  ultimately show ?thesis using r by (simp add: fs')
next
  case (Some i)
  then have r: "r = Inr i" and fs': "fs' = fs\<lparr>nodes := (nodes fs)[i := \<lparr>f_data = [], f_mtime = file_clock os\<rparr>]\<rparr>"
    using assms by (auto simp: fs_create_def)
  then show ?thesis using Some fs_node_update [OF assms(1) Some] assms(1) by (auto simp: fs_ok_def)
qed

lemma fs_write_node_view:
  assumes "fs_ok fs" and "fmlookup (names fs) p = Some i"
  shows "fs_ok (fs_write_node os i pos b fs)" "names (fs_write_node os i pos b fs) = names fs"
    "fs_node (fs_write_node os i pos b fs)
       = (fs_node fs)(p := Some \<lparr>f_data = write_at pos b (f_data (nodes fs ! i)), f_mtime = file_clock os\<rparr>)"
  using assms fs_node_update [OF assms] by (auto simp: fs_write_node_def fs_ok_def)

lemma write_at_end [simp]: "write_at (length c) b c = c @ b"
  by (simp add: write_at_def)

end
