(* ===== verification/File_Transfer_Proofs.thy ===== *)
theory File_Transfer_Proofs
  imports File_Transfer
begin

text \<open>
  What the file transfer jobs guarantee: a job that can read its files sends them completely and
  ends; a receiving job that meets no failure puts them in place; with overwrite detection nothing
  leaves unconfirmed. And where the code falls short: after a file that cannot be opened or
  created, after an interrupted transfer, and with a compressor that fails.
\<close>

section \<open>Sending\<close>

lemma take_in_parts:
  "m \<le> w \<Longrightarrow> take w d = take m d @ take (w - length (take m d)) (drop (length (take m d)) d)"
  by (cases "length d \<le> m") (simp_all add: min_def flip: take_add)

text \<open>Short reads do not matter: the buffer is filled up to its size or the end of the file.\<close>

lemma read_fill_file:
  assumes "\<And>pos. \<not> read_fails os i pos" and "length acc < BUF_SIZE"
  shows "read_fill os fs (FileStream i pos) acc =
    (let b = take (BUF_SIZE - length acc) (drop pos (f_data (nodes fs ! i)))
     in (Inr (acc @ b), FileStream i (pos + length b)))"
  using assms(2)
proof (induction "BUF_SIZE - length acc" arbitrary: acc pos rule: less_induct)
  case less
  define d where "d = drop pos (f_data (nodes fs ! i))"
  define w where "w = BUF_SIZE - length acc"
  define m where "m = min w (max 1 (short_read os pos))"
  define b where "b = take m d"
  have rd: "stream_read os fs (BUF_SIZE - length acc) (FileStream i pos) = (Inr b, FileStream i (pos + length b))"
    using assms(1) by (simp add: stream_read_def Let_def b_def m_def w_def d_def)
  have m: "0 < m" "m \<le> w" using less.prems by (simp_all add: m_def w_def)
  show ?case
  proof (cases "b = [] \<or> length (acc @ b) = BUF_SIZE")
    case True
    have "b = take w d"
    proof (cases "d = []")
      case False
      with True m have "length (acc @ b) = BUF_SIZE" by (auto simp: b_def)
      then have "length b = w" by (simp add: w_def)
      with m(2) have "m = w" by (simp add: b_def)
      then show ?thesis by (simp add: b_def)
    qed (simp add: b_def)
    with True rd show ?thesis by (subst read_fill.simps) (auto simp: Let_def w_def d_def)
  next
    case False
    have "length b \<le> w" using m by (simp add: b_def)
    with False less.prems have lt: "length (acc @ b) < BUF_SIZE" and pos: "0 < length b" by (auto simp: w_def)
    have parts: "take w d = b @ take (w - length b) (drop (length b) d)"
      unfolding b_def by (rule take_in_parts [OF m(2)])
    have "BUF_SIZE - length (acc @ b) = w - length b" by (simp add: w_def)
    moreover have "drop (pos + length b) (f_data (nodes fs ! i)) = drop (length b) d" by (simp add: d_def ac_simps)
    moreover have smaller: "BUF_SIZE - length (acc @ b) < BUF_SIZE - length acc" using lt pos unfolding length_append by linarith
    ultimately have ih: "read_fill os fs (FileStream i (pos + length b)) (acc @ b) =
        (Inr (acc @ take w d), FileStream i (pos + length (take w d)))"
      using less.hyps [OF smaller lt, of "pos + length b"] unfolding parts by (simp add: Let_def w_def add.assoc)
    from False rd have "read_fill os fs (FileStream i pos) acc = read_fill os fs (FileStream i (pos + length b)) (acc @ b)"
      by (subst read_fill.simps) simp
    with ih show ?thesis by (simp only: Let_def w_def d_def)
  qed
qed

text \<open>The blocks of a file: its content in pieces of the buffer size, then an empty block.\<close>

function chunks :: "bytes \<Rightarrow> bytes list" where
  "chunks c = (if c = [] then [] else take BUF_SIZE c # chunks (drop BUF_SIZE c))"
  by pat_completeness auto
termination
  by (relation "measure length") (auto simp: BUF_SIZE_def)

declare chunks.simps [simp del]

lemma concat_chunks [simp]: "concat (chunks c) = c"
  by (induction c rule: chunks.induct) (subst chunks.simps, simp)

lemma chunks_nonempty: "b \<in> set (chunks c) \<Longrightarrow> b \<noteq> []"
  by (induction c rule: chunks.induct) (subst (asm) chunks.simps, auto simp: BUF_SIZE_def split: if_splits)

definition send_name :: "string \<Rightarrow> file_entry list \<Rightarrow> nat \<Rightarrow> string" where
  "send_name p fl k = (if length fl = 1 \<and> fe_name (fl ! k) = [] then file_name_of p else fe_name (fl ! k))"

definition data_block :: "zstd \<Rightarrow> string \<Rightarrow> int \<Rightarrow> nat \<Rightarrow> bytes \<Rightarrow> file_block" where
  "data_block Z name i k b =
     (if \<not> is_compressed_file name \<and> length (compress Z b) < length b
      then \<lparr>b_id = i, b_file_num = int k, b_data = compress Z b, b_compressed = True\<rparr>
      else \<lparr>b_id = i, b_file_num = int k, b_data = b, b_compressed = False\<rparr>)"

definition end_block :: "int \<Rightarrow> nat \<Rightarrow> file_block" where
  "end_block i k = \<lparr>b_id = i, b_file_num = int k, b_data = [], b_compressed = False\<rparr>"

definition file_blocks :: "zstd \<Rightarrow> string \<Rightarrow> int \<Rightarrow> nat \<Rightarrow> bytes \<Rightarrow> file_block list" where
  "file_blocks Z name i k c = map (data_block Z name i k) (chunks c) @ [end_block i k]"

text \<open>A job that sends file \<open>k\<close>, without overwrite detection.\<close>

definition sending :: "int \<Rightarrow> string \<Rightarrow> file_entry list \<Rightarrow> nat \<Rightarrow> transfer_job \<Rightarrow> bool" where
  "sending i p fl k j \<longleftrightarrow> tj_id j = i \<and> tj_source j = FilePath p \<and> tj_files j = fl \<and> file_num j = int k
     \<and> \<not> is_last_job j \<and> \<not> enable_overwrite_detection j \<and> \<not> file_skipped j \<and> length fl < 2 ^ 31"

lemma as_usize_nat [simp]: "k < 2 ^ 64 \<Longrightarrow> as_usize (int k) = k"
  by (simp add: as_usize_def)

lemma sending_num: "sending i p fl k j \<Longrightarrow> k \<le> length fl \<Longrightarrow> as_usize (file_num j) = k"
  by (simp add: sending_def)

lemma sending_open:
  assumes "sending i p fl k j" and "k < length fl" and "data_stream j = None"
    and "fs_open os (job_join p (fe_name (fl ! k))) fs = Inr nd"
  shows "\<exists>j'. sending i p fl k j' \<and> data_stream j' = Some (FileStream nd 0)
    \<and> handle_read_jobs os Z fs [j] = handle_read_jobs os Z fs [j']"
proof -
  let ?j = "j\<lparr>data_stream := Some (FileStream nd 0), file_confirmed := False, file_is_waiting := False\<rparr>"
  have "open_data_stream os fs j = (Inr False, ?j)" "open_data_stream os fs ?j = (Inr False, ?j)"
    using assms sending_num [OF assms(1)] by (simp_all add: open_data_stream_def sending_def)
  then have "init_data_stream os fs j = init_data_stream os fs ?j" by (simp add: init_data_stream_def)
  then have "handle_read_jobs os Z fs [j] = handle_read_jobs os Z fs [?j]"
    using assms(1) by (simp add: handle_read_jobs_def init_job_def sending_def)
  moreover have "sending i p fl k ?j" using assms(1) by (simp add: sending_def)
  ultimately show ?thesis by (intro exI [of _ ?j]) simp
qed

lemma sending_init:
  assumes "sending i p fl k j" and "k < length fl" and "data_stream j = Some ds"
  shows "handle_read_jobs os Z fs [j] =
    (case read_first os Z fs [j] of (js, ms, fin) \<Rightarrow> (fold (\<lambda>i js. snd (remove_job i js)) fin js, ms))"
  using assms sending_num [OF assms(1)]
  by (simp add: handle_read_jobs_def init_job_def init_data_stream_def open_data_stream_def sending_def needs_digest_def)

lemma tick_data:
  assumes "sending i p fl k j" and "k < length fl" and "data_stream j = Some (FileStream nd pos)"
    and "\<And>pos. \<not> read_fails os nd pos" and "drop pos (f_data (nodes fs ! nd)) \<noteq> []"
  shows "\<exists>j'. handle_read_jobs os Z fs [j] =
      ([j'], [MsgBlock (data_block Z (send_name p fl k) i k (take BUF_SIZE (drop pos (f_data (nodes fs ! nd)))))])
    \<and> sending i p fl k j' \<and> data_stream j' = Some (FileStream nd (pos + length (take BUF_SIZE (drop pos (f_data (nodes fs ! nd))))))"
proof -
  define b where "b = take BUF_SIZE (drop pos (f_data (nodes fs ! nd)))"
  have "0 < BUF_SIZE" by (simp add: BUF_SIZE_def)
  with assms(5) have ne: "b \<noteq> []" by (simp add: b_def)
  have fill: "read_fill os fs (FileStream nd pos) [] = (Inr b, FileStream nd (pos + length b))"
    using read_fill_file [of os nd "[]" fs pos] assms(4) \<open>0 < BUF_SIZE\<close> by (simp add: Let_def b_def)
  have name: "read_name j = send_name p fl k"
    using assms(1,2) sending_num [OF assms(1)] by (simp add: read_name_def send_name_def sending_def)
  obtain out pk where pk: "pack Z j b = (out, pk)" by fastforce
  then have blk: "\<lparr>b_id = i, b_file_num = int k, b_data = out, b_compressed = pk\<rparr> = data_block Z (send_name p fl k) i k b"
    using assms(1) by (auto simp: pack_def data_block_def name is_file_path_def sending_def split: if_splits)
  let ?j = "j\<lparr>data_stream := Some (FileStream nd (pos + length b)),
      finished_size := finished_size j + word_of_nat (length b), transferred := transferred j + word_of_nat (length out)\<rparr>"
  have "job_read os Z fs j = (Inr (Some (data_block Z (send_name p fl k) i k b)), ?j)"
    using assms(1-3) sending_num [OF assms(1)] ne
    by (simp add: job_read_def fill pk sending_def is_file_path_def flip: blk)
  then have "handle_read_jobs os Z fs [j] = ([?j], [MsgBlock (data_block Z (send_name p fl k) i k b)])"
    using assms(1) by (simp add: sending_init [OF assms(1-3)] sending_def)
  moreover have "sending i p fl k ?j" using assms(1) by (simp add: sending_def)
  ultimately show ?thesis unfolding b_def by fastforce
qed

lemma tick_end:
  assumes "sending i p fl k j" and "k < length fl" and "data_stream j = Some (FileStream nd pos)"
    and "\<And>pos. \<not> read_fails os nd pos" and "drop pos (f_data (nodes fs ! nd)) = []"
  shows "\<exists>j'. handle_read_jobs os Z fs [j] = ([j'], [MsgBlock (end_block i k)])
    \<and> sending i p fl (Suc k) j' \<and> data_stream j' = None"
proof -
  have fill: "read_fill os fs (FileStream nd pos) [] = (Inr [], FileStream nd pos)"
    using read_fill_file [of os nd "[]" fs pos] assms(4,5) by (simp add: Let_def BUF_SIZE_def)
  let ?j = "(next_file j)\<lparr>data_stream := None\<rparr>"
  have "job_read os Z fs j = (Inr (Some (end_block i k)), ?j)"
    using assms(1-3) sending_num [OF assms(1)]
    by (simp add: job_read_def fill sending_def is_file_path_def end_block_def)
  moreover have "sending i p fl (Suc k) ?j"
    using assms(1,2) by (simp add: sending_def next_file_def i32_add_def)
  ultimately have "handle_read_jobs os Z fs [j] = ([?j], [MsgBlock (end_block i k)])"
    using assms(1) by (simp add: sending_init [OF assms(1-3)] sending_def)
  with \<open>sending i p fl (Suc k) ?j\<close> show ?thesis by fastforce
qed






definition content_at :: "fsys \<Rightarrow> string \<Rightarrow> bytes" where
  "content_at fs p = (case fs_node fs p of Some n \<Rightarrow> f_data n | None \<Rightarrow> [])"

text \<open>All files of the job can be opened and read.\<close>

definition readable :: "os \<Rightarrow> fsys \<Rightarrow> string \<Rightarrow> file_entry list \<Rightarrow> bool" where
  "readable os fs p fl \<longleftrightarrow> (\<forall>e \<in> set fl. fs_exists (job_join p (fe_name e)) fs \<and> can_open os (job_join p (fe_name e)))
     \<and> (\<forall>i pos. \<not> read_fails os i pos)"

lemma readable_open:
  assumes "readable os fs p fl" and "k < length fl"
  shows "\<exists>nd. fs_open os (job_join p (fe_name (fl ! k))) fs = Inr nd
    \<and> f_data (nodes fs ! nd) = content_at fs (job_join p (fe_name (fl ! k)))"
  using assms nth_mem [OF assms(2)]
  by (fastforce simp: readable_def fs_open_def fs_exists_def content_at_def fs_node_def split: option.splits)

definition job_blocks :: "zstd \<Rightarrow> fsys \<Rightarrow> int \<Rightarrow> string \<Rightarrow> file_entry list \<Rightarrow> nat \<Rightarrow> file_block list" where
  "job_blocks Z fs i p fl k =
     concat (map (\<lambda>n. file_blocks Z (send_name p fl n) i n (content_at fs (job_join p (fe_name (fl ! n))))) [k..<length fl])"


section \<open>Receiving\<close>

text \<open>The names a file of the job may occupy on the way, and the condition that files do not meet.\<close>

definition target :: "string \<Rightarrow> file_entry list \<Rightarrow> nat \<Rightarrow> string" where
  "target p fl k = job_join p (fe_name (fl ! k))"

definition trio :: "string \<Rightarrow> string set" where
  "trio q = {q, q @ ''.download'', q @ ''.digest''}"

definition apart :: "string \<Rightarrow> file_entry list \<Rightarrow> bool" where
  "apart p fl \<longleftrightarrow> (\<forall>m < length fl. \<forall>k < length fl. m \<noteq> k \<longrightarrow> trio (target p fl m) \<inter> trio (target p fl k) = {})"

definition all_ok :: "os \<Rightarrow> bool" where
  "all_ok os \<longleftrightarrow> (\<forall>p. can_create os p \<and> can_remove os p) \<and> (\<forall>p q. can_rename os p q)
     \<and> (\<forall>i. \<not> sync_fails os i) \<and> (\<forall>i pos. \<not> write_fails os i pos)"

definition zstd_ok :: "zstd \<Rightarrow> bool" where
  "zstd_ok Z \<longleftrightarrow> (\<forall>b. \<exists>r. z_compress Z b = Some r \<and> z_decode_all Z r = Some b)"

definition decoded :: "zstd \<Rightarrow> file_block \<Rightarrow> bytes" where
  "decoded Z blk = (if b_compressed blk then decompress Z (b_data blk) else b_data blk)"

lemma decoded_data_block: "zstd_ok Z \<Longrightarrow> decoded Z (data_block Z name i k b) = b"
  unfolding decoded_def data_block_def compress_def decompress_def zstd_ok_def
  by (auto split: option.split) (metis option.inject option.simps(3))+

lemma decoded_end_block [simp]: "decoded Z (end_block i k) = []"
  by (simp add: decoded_def end_block_def)

lemma modify_time_view:
  assumes "all_ok os" and "fs_ok fs" and "tj_type j = Generic"
  shows "fs_ok (modify_time os j fs)"
    and "current_path j = Some q \<Longrightarrow> q' \<notin> trio q \<Longrightarrow> fs_node (modify_time os j fs) q' = fs_node fs q'"
    and "current_path j = Some q \<Longrightarrow> fs_node fs (q @ ''.download'') = Some n \<Longrightarrow>
      fs_node (modify_time os j fs) = (fs_node fs)(q @ ''.digest'' := None, q @ ''.download'' := None,
         q := Some (n\<lparr>f_mtime := (fe_modified_time (tj_files j ! as_usize (file_num j)), 0)\<rparr>))"
    and "current_path j = None \<Longrightarrow> modify_time os j fs = fs"
proof -
  have ok: "can_remove os (q @ ''.digest'')" "can_rename os (q @ ''.download'') q" for q
    using assms(1) by (simp_all add: all_ok_def)
  show "fs_ok (modify_time os j fs)"
    using assms(2,3) unix.ok_finish by (simp add: modify_time_def Let_def split: option.split)
  show "fs_node (modify_time os j fs) = (fs_node fs)(q @ ''.digest'' := None, q @ ''.download'' := None,
         q := Some (n\<lparr>f_mtime := (fe_modified_time (tj_files j ! as_usize (file_num j)), 0)\<rparr>))"
    if "current_path j = Some q" and "fs_node fs (q @ ''.download'') = Some n"
    using that assms(2,3) unix.finish_view [OF assms(2) ok that(2)] by (simp add: modify_time_def Let_def)
  show "fs_node (modify_time os j fs) q' = fs_node fs q'" if "current_path j = Some q" and "q' \<notin> trio q"
    using that assms(2,3) unix.finish_view [OF assms(2) ok, of q] unix.finish_missing [OF assms(2) ok(1), of q]
    by (cases "fs_node fs (q @ ''.download'')") (simp_all add: modify_time_def Let_def trio_def)
  show "current_path j = None \<Longrightarrow> modify_time os j fs = fs" by (simp add: modify_time_def)
qed

lemma fs_write_file_view:
  assumes "all_ok os" and "fs_ok fs"
  shows "fs_ok (fs_write_file os p b fs)"
    and "q \<noteq> p \<Longrightarrow> fs_node (fs_write_file os p b fs) q = fs_node fs q"
    and "q \<noteq> p \<Longrightarrow> fmlookup (names (fs_write_file os p b fs)) q = fmlookup (names fs) q"
proof -
  obtain r fs' where c: "fs_create os p fs = (r, fs')" by fastforce
  from assms have "can_create os p" by (simp add: all_ok_def)
  from fs_create_result [OF assms(2) this c] obtain i where
    i: "r = Inr i" "fs_ok fs'" "fmlookup (names fs') p = Some i"
       "fs_node fs' = (fs_node fs)(p := Some \<lparr>f_data = [], f_mtime = file_clock os\<rparr>)" by blast
  have w: "fs_write_file os p b fs = fs_write_node os i 0 b fs'"
    using assms(1) by (simp add: fs_write_file_def c i(1) all_ok_def)
  note v = fs_write_node_view [OF i(2,3), of os 0 b]
  show "fs_ok (fs_write_file os p b fs)" using v by (simp add: w)
  show "q \<noteq> p \<Longrightarrow> fs_node (fs_write_file os p b fs) q = fs_node fs q" using v i(4) by (simp add: w)
  show "q \<noteq> p \<Longrightarrow> fmlookup (names (fs_write_file os p b fs)) q = fmlookup (names fs) q"
    using v(2) c by (auto simp: w fs_create_def split: if_splits option.splits)
qed

text \<open>The opening of the next file, once the previous one is finished (\<open>fs1\<close>).\<close>

lemma open_for_write_view:
  assumes "all_ok os" and "fs_ok fs" and "tj_type j = Generic" and "fs1 = modify_time os j fs"
    and "q = job_join p (fe_name (tj_files j ! as_usize bn))"
  shows "\<exists>nd fs'. open_for_write os dj p bn (j, fs)
        = (Inr (), j\<lparr>file_num := bn, data_stream := Some (FileStream nd 0)\<rparr>, fs')
    \<and> fs_ok fs' \<and> fmlookup (names fs') (q @ ''.download'') = Some nd
    \<and> fs_node fs' (q @ ''.download'') = Some \<lparr>f_data = [], f_mtime = file_clock os\<rparr>
    \<and> (\<forall>r. r \<notin> {q @ ''.download'', q @ ''.digest''} \<longrightarrow> fs_node fs' r = fs_node fs1 r)"
proof -
  define fs0 where "fs0 = create_parent os (j\<lparr>file_num := bn\<rparr>) q fs1"
  have "fs_ok fs1" using modify_time_view(1) [OF assms(1-3)] assms(4) by simp
  then have ok1: "fs_ok fs0" and v0: "fs_node fs0 = fs_node fs1"
    by (simp_all add: fs0_def fs_ok_def fs_node_def fun_eq_iff)
  define fs2 where "fs2 = (if fs_exists (q @ ''.digest'') fs0 then snd (fs_remove os (q @ ''.digest'') fs0) else fs0)"
  have rem: "remove_digest os (Some (q @ ''.digest'')) fs0 = (Inr (), fs2)"
    using assms(1) by (simp add: fs2_def fs_remove_def remove_digest_def all_ok_def)
  have ok2: "fs_ok fs2" using ok1 unix.ok_remove by (simp add: fs2_def)
  have v2: "fs_node fs2 r = fs_node fs0 r" if "r \<noteq> q @ ''.digest''" for r
    using that unix.view_remove [OF ok1, of os "q @ ''.digest''"] assms(1) by (simp add: fs2_def all_ok_def)
  obtain rs fs3 where c: "fs_create os (q @ ''.download'') fs2 = (rs, fs3)" by fastforce
  have "can_create os (q @ ''.download'')" using assms(1) by (simp add: all_ok_def)
  from fs_create_result [OF ok2 this c] obtain nd where
    nd: "rs = Inr nd" "fs_ok fs3" "fmlookup (names fs3) (q @ ''.download'') = Some nd"
        "fs_node fs3 = (fs_node fs2)(q @ ''.download'' := Some \<lparr>f_data = [], f_mtime = file_clock os\<rparr>)" by blast
  define fs4 where "fs4 = fs_write_file os (q @ ''.digest'') (dj (digest j)) fs3"
  note w = fs_write_file_view [OF assms(1) nd(2)]
  have "sync_stream os (data_stream j)"
    using assms(1) by (auto simp: sync_stream_def all_ok_def split: option.split data_stream.split)
  then have "open_for_write os dj p bn (j, fs) = (Inr (), j\<lparr>file_num := bn, data_stream := Some (FileStream nd 0)\<rparr>, fs4)"
    using assms(3) by (simp add: open_for_write_def Let_def digest_path_def fs4_def rem c nd(1) fs0_def [symmetric] flip: assms(4,5))
  moreover have "fs_ok fs4" and "fmlookup (names fs4) (q @ ''.download'') = Some nd"
    and "fs_node fs4 (q @ ''.download'') = Some \<lparr>f_data = [], f_mtime = file_clock os\<rparr>"
    using w nd by (simp_all add: fs4_def)
  moreover have "fs_node fs4 r = fs_node fs1 r" if "r \<notin> {q @ ''.download'', q @ ''.digest''}" for r
    using that w(2) nd(4) v2 [of r] v0 by (simp add: fs4_def)
  ultimately show ?thesis by blast
qed

text \<open>A job that receives files, with the stream of file \<open>k\<close> open or not.\<close>

definition receiver :: "int \<Rightarrow> string \<Rightarrow> file_entry list \<Rightarrow> transfer_job \<Rightarrow> bool" where
  "receiver i p fl j \<longleftrightarrow> tj_id j = i \<and> tj_type j = Generic \<and> tj_source j = FilePath p \<and> tj_files j = fl \<and> length fl < 2 ^ 31"

text \<open>The partial file \<open>k\<close> holds \<open>c\<close>, and the stream is at its end.\<close>

definition partial_file :: "string \<Rightarrow> file_entry list \<Rightarrow> nat \<Rightarrow> bytes \<Rightarrow> transfer_job \<Rightarrow> fsys \<Rightarrow> bool" where
  "partial_file p fl k c j fs \<longleftrightarrow> file_num j = int k \<and> fs_ok fs
     \<and> (\<exists>nd. data_stream j = Some (FileStream nd (length c))
          \<and> fmlookup (names fs) (target p fl k @ ''.download'') = Some nd \<and> f_data (nodes fs ! nd) = c)"

lemma partial_node:
  assumes "partial_file p fl k c j fs"
  shows "\<exists>t. fs_node fs (target p fl k @ ''.download'') = Some \<lparr>f_data = c, f_mtime = t\<rparr>"
proof -
  obtain nd where "fmlookup (names fs) (target p fl k @ ''.download'') = Some nd" "f_data (nodes fs ! nd) = c"
    using assms by (auto simp: partial_file_def)
  then show ?thesis by (cases "nodes fs ! nd") (simp add: fs_node_def)
qed

lemma write_stream:
  assumes "all_ok os" and "partial_file p fl k c j fs" and "data_stream j = Some ds"
  shows "\<exists>ds' fs'. stream_write os b ds fs = (Inr ds', fs')
    \<and> partial_file p fl k (c @ b) (j\<lparr>data_stream := Some ds', finished_size := x, transferred := y\<rparr>) fs'
    \<and> (\<forall>r. r \<noteq> target p fl k @ ''.download'' \<longrightarrow> fs_node fs' r = fs_node fs r)"
proof -
  obtain nd where nd: "ds = FileStream nd (length c)" "fmlookup (names fs) (target p fl k @ ''.download'') = Some nd"
    "f_data (nodes fs ! nd) = c" and k: "file_num j = int k" and ok: "fs_ok fs"
    using assms(2,3) by (auto simp: partial_file_def)
  note v = fs_write_node_view [OF ok nd(2), of os "length c" b]
  have "nd < length (nodes fs)" using fs_ok_less [OF ok nd(2)] .
  then have "f_data (nodes (fs_write_node os nd (length c) b fs) ! nd) = c @ b"
    using nd(3) write_at_end [of c b] by (simp add: fs_write_node_def)
  moreover have "stream_write os b ds fs
      = (Inr (FileStream nd (length c + length b)), fs_write_node os nd (length c) b fs)"
    using assms(1) by (simp add: stream_write_def nd(1) all_ok_def)
  ultimately show ?thesis
    using v nd(2) k by (auto simp: partial_file_def)
qed

lemma write_same_file:
  assumes "all_ok os" and "receiver i p fl j" and "partial_file p fl k c j fs" and "k < length fl"
    and "b_id blk = i" and "b_file_num blk = int k"
  shows "\<exists>j' fs'. job_write os Z dj blk (j, fs) = (Inr (), j', fs') \<and> receiver i p fl j'
    \<and> partial_file p fl k (c @ decoded Z blk) j' fs'
    \<and> (\<forall>r. r \<noteq> target p fl k @ ''.download'' \<longrightarrow> fs_node fs' r = fs_node fs r)"
proof -
  obtain ds where ds: "data_stream j = Some ds" and k: "file_num j = int k"
    using assms(3) by (auto simp: partial_file_def)
  from write_stream [OF assms(1,3) ds, where b = "decoded Z blk"
      and x = "finished_size j + word_of_nat (length (decoded Z blk))"
      and y = "transferred j + word_of_nat (length (b_data blk))"]
  obtain ds' fs' where w: "stream_write os (decoded Z blk) ds fs = (Inr ds', fs')"
    and p: "partial_file p fl k (c @ decoded Z blk) (j\<lparr>data_stream := Some ds',
        finished_size := finished_size j + word_of_nat (length (decoded Z blk)),
        transferred := transferred j + word_of_nat (length (b_data blk))\<rparr>) fs'"
    and v: "\<forall>r. r \<noteq> target p fl k @ ''.download'' \<longrightarrow> fs_node fs' r = fs_node fs r" by blast
  have "job_write os Z dj blk (j, fs) = (Inr (), j\<lparr>data_stream := Some ds',
        finished_size := finished_size j + word_of_nat (length (decoded Z blk)),
        transferred := transferred j + word_of_nat (length (b_data blk))\<rparr>, fs')"
    using assms(2,4-6) k ds w by (simp add: job_write_def receiver_def decoded_def Let_def cong: if_cong)
  moreover have "receiver i p fl (j\<lparr>data_stream := Some ds', finished_size := x, transferred := y\<rparr>)" for x y
    using assms(2) by (simp add: receiver_def)
  ultimately show ?thesis using p v by blast
qed

lemma write_new_file:
  assumes "all_ok os" and "receiver i p fl j" and "fs_ok fs" and "k < length fl"
    and "b_id blk = i" and "b_file_num blk = int k" and "as_usize (file_num j) \<noteq> k \<or> data_stream j = None"
  shows "\<exists>j' fs'. job_write os Z dj blk (j, fs) = (Inr (), j', fs') \<and> receiver i p fl j'
    \<and> partial_file p fl k (decoded Z blk) j' fs'
    \<and> (\<forall>r. r \<notin> trio (target p fl k) - {target p fl k} \<longrightarrow> fs_node fs' r = fs_node (modify_time os j fs) r)"
proof -
  have t: "tj_type j = Generic" and q: "target p fl k = job_join p (fe_name (tj_files j ! as_usize (int k)))"
    and src: "tj_source j = FilePath p"
    using assms(2,4) by (simp_all add: receiver_def target_def)
  from open_for_write_view [OF assms(1,3) t refl q, of dj] obtain nd fs1 where
    o: "open_for_write os dj p (int k) (j, fs) = (Inr (), j\<lparr>file_num := int k, data_stream := Some (FileStream nd 0)\<rparr>, fs1)"
    and ok: "fs_ok fs1" and nm: "fmlookup (names fs1) (target p fl k @ ''.download'') = Some nd"
    and nv: "fs_node fs1 (target p fl k @ ''.download'') = Some \<lparr>f_data = [], f_mtime = file_clock os\<rparr>"
    and fr: "\<forall>r. r \<notin> {target p fl k @ ''.download'', target p fl k @ ''.digest''} \<longrightarrow> fs_node fs1 r = fs_node (modify_time os j fs) r"
    by blast
  let ?j = "j\<lparr>file_num := int k, data_stream := Some (FileStream nd 0)\<rparr>"
  have "f_data (nodes fs1 ! nd) = []" using nv nm by (simp add: fs_node_def)
  then have "partial_file p fl k [] ?j fs1" using ok nm by (simp add: partial_file_def)
  from write_stream [OF assms(1) this, where ds = "FileStream nd 0" and b = "decoded Z blk"
      and x = "finished_size j + word_of_nat (length (decoded Z blk))"
      and y = "transferred j + word_of_nat (length (b_data blk))"]
  obtain ds' fs' where w: "stream_write os (decoded Z blk) (FileStream nd 0) fs1 = (Inr ds', fs')"
    and pf: "partial_file p fl k (decoded Z blk) (?j\<lparr>data_stream := Some ds',
        finished_size := finished_size j + word_of_nat (length (decoded Z blk)),
        transferred := transferred j + word_of_nat (length (b_data blk))\<rparr>) fs'"
    and v: "\<forall>r. r \<noteq> target p fl k @ ''.download'' \<longrightarrow> fs_node fs' r = fs_node fs1 r" by auto
  have "job_write os Z dj blk (j, fs) = (Inr (), ?j\<lparr>data_stream := Some ds',
        finished_size := finished_size j + word_of_nat (length (decoded Z blk)),
        transferred := transferred j + word_of_nat (length (b_data blk))\<rparr>, fs')"
    using assms(2,4-7) src o w by (auto simp: job_write_def receiver_def decoded_def Let_def cong: if_cong)
  moreover have "receiver i p fl (?j\<lparr>data_stream := Some ds', finished_size := x, transferred := y\<rparr>)" for x y
    using assms(2) by (simp add: receiver_def)
  moreover have "\<forall>r. r \<notin> trio (target p fl k) - {target p fl k} \<longrightarrow> fs_node fs' r = fs_node (modify_time os j fs) r"
    using v fr by (auto simp: trio_def)
  ultimately show ?thesis using pf by blast
qed

fun write_run :: "os \<Rightarrow> zstd \<Rightarrow> (file_digest \<Rightarrow> bytes) \<Rightarrow> file_block list \<Rightarrow> transfer_job \<times> fsys \<Rightarrow> transfer_job \<times> fsys" where
  "write_run os Z dj [] jf = jf"
| "write_run os Z dj (b # bs) jf = write_run os Z dj bs (snd (job_write os Z dj b jf))"

lemma write_run_append [simp]:
  "write_run os Z dj (bs @ cs) jf = write_run os Z dj cs (write_run os Z dj bs jf)"
  by (induction bs arbitrary: jf) simp_all

lemma write_file_rest:
  assumes "all_ok os" and "receiver i p fl j" and "partial_file p fl k c j fs" and "k < length fl"
    and "\<forall>b \<in> set bs. b_id b = i \<and> b_file_num b = int k"
  shows "\<exists>j' fs'. write_run os Z dj bs (j, fs) = (j', fs') \<and> receiver i p fl j'
    \<and> partial_file p fl k (c @ concat (map (decoded Z) bs)) j' fs'
    \<and> (\<forall>r. r \<noteq> target p fl k @ ''.download'' \<longrightarrow> fs_node fs' r = fs_node fs r)"
  using assms(2,3,5)
proof (induction bs arbitrary: c j fs)
  case (Cons b bs)
  have b: "b_id b = i" "b_file_num b = int k" and bs: "\<forall>b \<in> set bs. b_id b = i \<and> b_file_num b = int k"
    using Cons.prems(3) by simp_all
  obtain j1 fs1 where w: "job_write os Z dj b (j, fs) = (Inr (), j1, fs1)" "receiver i p fl j1"
    "partial_file p fl k (c @ decoded Z b) j1 fs1"
    "\<forall>r. r \<noteq> target p fl k @ ''.download'' \<longrightarrow> fs_node fs1 r = fs_node fs r"
    using write_same_file [OF assms(1) Cons.prems(1,2) assms(4) b] by blast
  from Cons.IH [OF w(2,3) bs] w(4) show ?case by (simp add: w(1))
qed simp

lemma write_whole_file:
  assumes "all_ok os" and "receiver i p fl j" and "fs_ok fs" and "k < length fl"
    and "\<forall>b \<in> set bs. b_id b = i \<and> b_file_num b = int k" and "bs \<noteq> []"
    and "as_usize (file_num j) \<noteq> k \<or> data_stream j = None"
  shows "\<exists>j' fs'. write_run os Z dj bs (j, fs) = (j', fs') \<and> receiver i p fl j'
    \<and> partial_file p fl k (concat (map (decoded Z) bs)) j' fs'
    \<and> (\<forall>r. r \<notin> trio (target p fl k) - {target p fl k} \<longrightarrow> fs_node fs' r = fs_node (modify_time os j fs) r)"
proof -
  obtain b bs' where bs: "bs = b # bs'" using assms(6) by (cases bs) auto
  have b: "b_id b = i" "b_file_num b = int k" and bs': "\<forall>b \<in> set bs'. b_id b = i \<and> b_file_num b = int k"
    using assms(5) bs by simp_all
  obtain j1 fs1 where w: "job_write os Z dj b (j, fs) = (Inr (), j1, fs1)" "receiver i p fl j1"
    "partial_file p fl k (decoded Z b) j1 fs1"
    "\<forall>r. r \<notin> trio (target p fl k) - {target p fl k} \<longrightarrow> fs_node fs1 r = fs_node (modify_time os j fs) r"
    using write_new_file [OF assms(1-4) b assms(7)] by blast
  obtain j2 fs2 where v: "write_run os Z dj bs' (j1, fs1) = (j2, fs2)" "receiver i p fl j2"
    "partial_file p fl k (decoded Z b @ concat (map (decoded Z) bs')) j2 fs2"
    "\<forall>r. r \<noteq> target p fl k @ ''.download'' \<longrightarrow> fs_node fs2 r = fs_node fs1 r"
    using write_file_rest [OF assms(1) w(2,3) assms(4) bs'] by blast
  have "fs_node fs2 r = fs_node (modify_time os j fs) r" if "r \<notin> trio (target p fl k) - {target p fl k}" for r
    using that v(4) w(4) by (auto simp: trio_def)
  with v w(1) show ?thesis by (simp add: bs)
qed

text \<open>The first \<open>k\<close> files have arrived; other paths are as before.\<close>

definition arrived :: "string \<Rightarrow> file_entry list \<Rightarrow> (nat \<Rightarrow> bytes) \<Rightarrow> nat \<Rightarrow> fsys \<Rightarrow> bool" where
  "arrived p fl cont k fs \<longleftrightarrow> (\<forall>m < k.
     fs_node fs (target p fl m) = Some \<lparr>f_data = cont m, f_mtime = (fe_modified_time (fl ! m), 0)\<rparr>
     \<and> fs_node fs (target p fl m @ ''.download'') = None \<and> fs_node fs (target p fl m @ ''.digest'') = None)"

definition untouched :: "string \<Rightarrow> file_entry list \<Rightarrow> fsys \<Rightarrow> fsys \<Rightarrow> bool" where
  "untouched p fl fs fs' \<longleftrightarrow> (\<forall>q. (\<forall>m < length fl. q \<notin> trio (target p fl m)) \<longrightarrow> fs_node fs' q = fs_node fs q)"

lemma arrived_frame:
  assumes "arrived p fl cont k fs" and "k \<le> length fl" and "apart p fl" and "n < length fl" and "k \<le> n"
    and "\<And>r. r \<notin> trio (target p fl n) \<Longrightarrow> fs_node fs' r = fs_node fs r"
  shows "arrived p fl cont k fs'"
proof -
  have "r \<notin> trio (target p fl n)" if "r \<in> trio (target p fl m)" and "m < k" for r m
  proof -
    have "m < length fl" "m \<noteq> n" using that(2) assms(2,5) by simp_all
    with assms(3,4) have "trio (target p fl m) \<inter> trio (target p fl n) = {}" by (simp add: apart_def)
    with that(1) show ?thesis by blast
  qed
  with assms(6) have eq: "fs_node fs' r = fs_node fs r" if "r \<in> trio (target p fl m)" and "m < k" for r m
    using that by blast
  have "fs_node fs' (target p fl m) = fs_node fs (target p fl m)
      \<and> fs_node fs' (target p fl m @ ''.download'') = fs_node fs (target p fl m @ ''.download'')
      \<and> fs_node fs' (target p fl m @ ''.digest'') = fs_node fs (target p fl m @ ''.digest'')" if "m < k" for m
    using eq [OF _ that] by (simp add: trio_def)
  with assms(1) show ?thesis by (simp add: arrived_def)
qed

lemma untouched_frame:
  assumes "untouched p fl fs fs'" and "n < length fl"
    and "\<And>r. r \<notin> trio (target p fl n) \<Longrightarrow> fs_node fs'' r = fs_node fs' r"
  shows "untouched p fl fs fs''"
  using assms by (auto simp: untouched_def)

lemma receiver_path:
  assumes "receiver i p fl j" and "file_num j = int k" and "k < length fl"
  shows "current_path j = Some (target p fl k)" and "as_usize (file_num j) = k" and "tj_files j = fl"
  using assms by (simp_all add: current_path_def receiver_def target_def Let_def)

lemma finish_arrived:
  assumes "all_ok os" and "receiver i p fl j" and "partial_file p fl k (cont k) j fs" and "k < length fl"
    and "apart p fl" and "arrived p fl cont k fs"
  shows "arrived p fl cont (Suc k) (modify_time os j fs)"
proof -
  have k: "file_num j = int k" and ok: "fs_ok fs" using assms(3) by (auto simp: partial_file_def)
  note cp = receiver_path [OF assms(2) k assms(4)]
  have t: "tj_type j = Generic" using assms(2) by (simp add: receiver_def)
  obtain tm where "fs_node fs (target p fl k @ ''.download'') = Some \<lparr>f_data = cont k, f_mtime = tm\<rparr>"
    using partial_node [OF assms(3)] by blast
  note view = modify_time_view(3) [OF assms(1) ok t cp(1) this]
  have "arrived p fl cont k (modify_time os j fs)"
    using arrived_frame [OF assms(6) _ assms(5,4)] assms(4) modify_time_view(2) [OF assms(1) ok t cp(1)] by simp
  then show ?thesis
    using view cp(2,3) by (simp add: arrived_def less_Suc_eq all_conj_distrib)
qed

lemma file_blocks_facts:
  assumes "zstd_ok Z"
  shows "\<forall>b \<in> set (file_blocks Z name i k c). b_id b = i \<and> b_file_num b = int k" and "file_blocks Z name i k c \<noteq> []"
    and "concat (map (decoded Z) (file_blocks Z name i k c)) = c"
proof -
  show "\<forall>b \<in> set (file_blocks Z name i k c). b_id b = i \<and> b_file_num b = int k"
    by (auto simp: file_blocks_def data_block_def end_block_def)
  have "map (decoded Z) (map (data_block Z name i k) (chunks c)) = chunks c"
    by (simp add: decoded_data_block [OF assms] comp_def)
  then show "concat (map (decoded Z) (file_blocks Z name i k c)) = c"
    by (simp add: file_blocks_def del: map_map)
qed (simp add: file_blocks_def)

lemma receive_from:
  assumes "all_ok os" and "zstd_ok Z" and "apart p fl" and "receiver i p fl j" and "fs_ok fs" and "k < length fl"
    and "as_usize (file_num j) \<noteq> k \<or> data_stream j = None"
    and "arrived p fl cont k (modify_time os j fs)" and "untouched p fl fs0 (modify_time os j fs)"
  shows "\<exists>j' fs'. write_run os Z dj (concat (map (\<lambda>m. file_blocks Z (nm m) i m (cont m)) [k..<length fl])) (j, fs) = (j', fs')
    \<and> arrived p fl cont (length fl) (modify_time os j' fs') \<and> untouched p fl fs0 (modify_time os j' fs')"
  using assms(4-9)
proof (induction "length fl - k" arbitrary: j fs k)
  case (Suc d)
  let ?bs = "file_blocks Z (nm k) i k (cont k)"
  note fb = file_blocks_facts [OF assms(2)]
  obtain j1 fs1 where w: "write_run os Z dj ?bs (j, fs) = (j1, fs1)" "receiver i p fl j1"
    "partial_file p fl k (cont k) j1 fs1"
    "\<forall>r. r \<notin> trio (target p fl k) - {target p fl k} \<longrightarrow> fs_node fs1 r = fs_node (modify_time os j fs) r"
    using write_whole_file [OF assms(1) Suc.prems(1,2,3) fb(1,2) Suc.prems(4)] fb(3) by metis
  have fr: "fs_node fs1 r = fs_node (modify_time os j fs) r" if "r \<notin> trio (target p fl k)" for r
    using that w(4) by blast
  have k: "file_num j1 = int k" and ok: "fs_ok fs1" using w(3) by (auto simp: partial_file_def)
  note cp = receiver_path [OF w(2) k Suc.prems(3)]
  have t: "tj_type j1 = Generic" using w(2) by (simp add: receiver_def)
  have arr: "arrived p fl cont k fs1"
    using arrived_frame [OF Suc.prems(5) _ assms(3) Suc.prems(3) order_refl fr] Suc.prems(3) by simp
  have arr': "arrived p fl cont (Suc k) (modify_time os j1 fs1)"
    by (rule finish_arrived [OF assms(1) w(2,3) Suc.prems(3) assms(3) arr])
  have unt: "untouched p fl fs0 (modify_time os j1 fs1)"
  proof (rule untouched_frame [OF untouched_frame [OF Suc.prems(6,3) fr] Suc.prems(3)])
    show "fs_node (modify_time os j1 fs1) r = fs_node fs1 r" if "r \<notin> trio (target p fl k)" for r
      by (rule modify_time_view(2) [OF assms(1) ok t cp(1) that])
  qed
  have split: "[k..<length fl] = k # [Suc k..<length fl]" using Suc.prems(3) by (rule upt_conv_Cons)
  show ?case
  proof (cases "Suc k < length fl")
    case True
    have "d = length fl - Suc k" using Suc.hyps(2) by simp
    from Suc.hyps(1) [OF this w(2) ok True _ arr' unt] show ?thesis using cp(2) w(1) by (simp add: split)
  next
    case False
    with Suc.prems(3) have "length fl = Suc k" by simp
    with arr' unt w(1) show ?thesis by (simp add: split)
  qed
qed simp

section \<open>Properties\<close>

definition file_sender :: "int \<Rightarrow> string \<Rightarrow> file_entry list \<Rightarrow> transfer_job" where
  "file_sender i p fl = projr (new_read (\<lambda>_ _. Inr fl) i Generic [] (FilePath p) 0 False False False)"


text \<open>
  C4. A completed transfer delivers the files: the blocks a sender emits, written by the receiving
  job and closed by the done message, leave under the destination of every file exactly the
  content of the source and its modification time, no temporary file, and every other path as it
  was, provided no file of the job has the name of another one, or of another one's temporary
  files.
\<close>

theorem transfer_faithful:
  assumes "all_ok os" and "zstd_ok Z" and "apart p fl" and "fs_ok fs" and "fl \<noteq> []" and "length fl < 2 ^ 31"
    and "j = new_write i Generic rem (FilePath p) n hid isr fl det"
    and "write_run os Z dj (job_blocks Z src i sp fl 0) (j, fs) = (j', fs')" and "fs2 = modify_time os j' fs'"
  shows "arrived p fl (\<lambda>k. content_at src (target sp fl k)) (length fl) fs2 \<and> untouched p fl fs fs2"
proof -
  let ?c = "\<lambda>k. content_at src (target sp fl k)"
  have r: "receiver i p fl j" "data_stream j = None" "tj_type j = Generic"
    using assms(6,7) by (simp_all add: receiver_def new_write_def transfer_job_default_def)
  have unt: "untouched p fl fs (modify_time os j fs)"
  proof (cases "current_path j")
    case (Some q)
    then obtain m where "m < length fl" "q = target p fl m"
      using r(1) by (auto simp: current_path_def receiver_def target_def Let_def split: if_splits)
    with modify_time_view(2) [OF assms(1,4) r(3) Some] show ?thesis by (auto simp: untouched_def)
  qed (simp add: modify_time_view(4) [OF assms(1,4) r(3)] untouched_def)
  have "arrived p fl ?c 0 (modify_time os j fs)" by (simp add: arrived_def)
  with receive_from [OF assms(1-3) r(1) assms(4) _ _ this unt, of dj "send_name sp fl"] assms(5,8,9) r(2)
  show ?thesis by (simp add: job_blocks_def target_def)
qed

definition demo_os :: os where
  "demo_os = \<lparr>can_create = (\<lambda>_. True), can_open = (\<lambda>_. True), can_remove = (\<lambda>_. True), can_rename = (\<lambda>_ _. True),
     can_mkdir = (\<lambda>_. True), can_rmdir = (\<lambda>_. True), can_list = (\<lambda>_. True), sync_fails = (\<lambda>_. False), read_fails = (\<lambda>_ _. False), write_fails = (\<lambda>_ _. False), short_read = (\<lambda>_. 3),
     file_clock = (7, 0)\<rparr>"

definition demo_zstd :: zstd where
  "demo_zstd = \<lparr>z_compress = Some, z_decode_all = Some\<rparr>"

definition demo_files :: "file_entry list" where
  "demo_files = [\<lparr>fe_name = ''a'', fe_size = 2, fe_modified_time = 5\<rparr>, \<lparr>fe_name = ''b'', fe_size = 0, fe_modified_time = 6\<rparr>]"

definition demo_src :: fsys where
  "demo_src = \<lparr>names = fmap_of_list [(''s/a'', 0), (''s/b'', 1)],
     nodes = [\<lparr>f_data = [1, 2], f_mtime = (5, 0)\<rparr>, \<lparr>f_data = [], f_mtime = (6, 0)\<rparr>], dirs = [''s'']\<rparr>"

definition empty_fs :: fsys where
  "empty_fs = \<lparr>names = fmempty, nodes = [], dirs = []\<rparr>"

lemma demo_os_ok: "all_ok demo_os" "zstd_ok demo_zstd" "fs_ok empty_fs"
  by (simp_all add: all_ok_def zstd_ok_def fs_ok_def demo_os_def demo_zstd_def empty_fs_def)

lemma demo_files_facts:
  "readable demo_os demo_src ''s'' demo_files" "apart ''d'' demo_files" "length demo_files < 2 ^ 31" "demo_files \<noteq> []"
  by (simp_all add: readable_def apart_def demo_files_def demo_src_def demo_os_def fs_exists_def job_join_def path_join_def
      starts_with_def target_def trio_def less_Suc_eq)


theorem transfer_faithful_witness:
  "\<exists>fs. fs_node fs ''d/a'' = Some \<lparr>f_data = [1, 2], f_mtime = (5, 0)\<rparr> \<and> fs_node fs ''d/b'' = Some \<lparr>f_data = [], f_mtime = (6, 0)\<rparr>"
proof -
  let ?j = "new_write 4 Generic [] (FilePath ''d'') 0 False False demo_files False"
  obtain j' fs' where w: "write_run demo_os demo_zstd (\<lambda>_. []) (job_blocks demo_zstd demo_src 4 ''s'' demo_files 0) (?j, empty_fs) = (j', fs')"
    by fastforce
  from transfer_faithful [OF demo_os_ok(1,2) demo_files_facts(2) demo_os_ok(3) demo_files_facts(4,3) refl w refl]
  have "arrived ''d'' demo_files (\<lambda>k. content_at demo_src (target ''s'' demo_files k)) 2 (modify_time demo_os j' fs')"
    by (simp add: demo_files_def numeral_2_eq_2)
  then have "fs_node (modify_time demo_os j' fs') (target ''d'' demo_files m)
      = Some \<lparr>f_data = content_at demo_src (target ''s'' demo_files m), f_mtime = (fe_modified_time (demo_files ! m), 0)\<rparr>"
    if "m < 2" for m
    using that unfolding arrived_def by blast
  from this [of 0] this [of 1] show ?thesis
    by (intro exI [of _ "modify_time demo_os j' fs'"])
      (simp add: demo_files_def demo_src_def target_def job_join_def path_join_def starts_with_def content_at_def
        fs_node_def [of "\<lparr>names = _, nodes = _, dirs = _\<rparr>"])
qed

section \<open>Overwrite detection\<close>

definition may_send :: "transfer_job \<Rightarrow> bool" where
  "may_send j \<longleftrightarrow> data_stream j \<noteq> None \<and> (tj_type j = Printer \<or> \<not> enable_overwrite_detection j \<or> file_confirmed j)"

definition confirmed_before :: "transfer_job \<Rightarrow> bool" where
  "confirmed_before j \<longleftrightarrow> tj_type j = Printer \<or> \<not> enable_overwrite_detection j
     \<or> file_confirmed j \<and> (data_stream j \<noteq> None \<or> \<not> is_file_path (tj_source j))"

lemma job_read_block:
  assumes "job_read os Z fs j = (Inr (Some b), j')"
  shows "b_id b = tj_id j" and "may_send j"
  using assms
  by (cases "tj_type j"; auto simp: job_read_def may_send_def Let_def split: if_splits option.splits sum.splits prod.splits)+

lemma read_first_block:
  assumes "read_first os Z fs js = (js', ms, fin)" and "MsgBlock b \<in> set ms"
  shows "\<exists>j \<in> set js. tj_id j = b_id b \<and> may_send j \<and> \<not> is_last_job j"
  using assms
proof (induction js arbitrary: js' ms fin)
  case (Cons j js)
  obtain js0 ms0 fin0 where h: "read_first os Z fs js = (js0, ms0, fin0)" by (metis prod_cases3)
  obtain r j0 where r: "job_read os Z fs j = (r, j0)" by fastforce
  show ?case
  proof (cases "is_last_job j")
    case True
    with Cons.IH [OF h] Cons.prems h show ?thesis by auto
  next
    case False
    with Cons.prems r have "r = Inr (Some b)"
      by (auto split: sum.splits option.splits if_splits)
    with job_read_block [of os Z fs j b j0] r False show ?thesis by auto
  qed
qed simp

lemma open_stream_facts:
  assumes "open_data_stream os fs j = (r, j')"
  shows "tj_id j' = tj_id j" and "is_last_job j' = is_last_job j" and "may_send j' \<Longrightarrow> confirmed_before j"
  using assms
  by (auto simp: open_data_stream_def next_file_def may_send_def confirmed_before_def is_file_path_def Let_def
      split: if_splits data_source.splits sum.splits)

lemma init_job_facts:
  assumes "init_job os fs j = (j', ms)"
  shows "MsgBlock b \<notin> set ms" and "tj_id j' = tj_id j" and "is_last_job j' = is_last_job j"
    and "may_send j' \<Longrightarrow> \<not> is_last_job j \<Longrightarrow> confirmed_before j"
proof -
  obtain r j1 where o: "open_data_stream os fs j = (r, j1)" by fastforce
  note f = open_stream_facts [OF o]
  show "MsgBlock b \<notin> set ms"
    using assms by (auto simp: init_job_def init_data_stream_def o digest_msg_def split: if_splits sum.splits bool.splits)
  show "tj_id j' = tj_id j" "is_last_job j' = is_last_job j"
    using assms f by (auto simp: init_job_def init_data_stream_def o split: if_splits sum.splits bool.splits)
  show "confirmed_before j" if "may_send j'" and "\<not> is_last_job j"
  proof (rule f(3))
    show "may_send j1"
      using assms that by (auto simp: init_job_def init_data_stream_def may_send_def o split: if_splits sum.splits bool.splits)
  qed
qed

lemma init_jobs_map:
  "init_jobs os fs js = (map (\<lambda>j. fst (init_job os fs j)) js, concat (map (\<lambda>j. snd (init_job os fs j)) js))"
  by (induction js) (simp_all add: split_def Let_def)

text \<open>
  With overwrite detection no content leaves before the peer confirms: a block that
  \<open>handle_read_jobs\<close> sends belongs to a job that does not detect overwriting, or whose current
  file had been opened and confirmed before the call.
\<close>

theorem no_block_before_confirm:
  assumes "handle_read_jobs os Z fs js = (js', ms)" and "MsgBlock b \<in> set ms"
  shows "\<exists>j \<in> set js. tj_id j = b_id b \<and> confirmed_before j"
proof -
  let ?js = "map (\<lambda>j. fst (init_job os fs j)) js"
  obtain js2 ms2 fin where r: "read_first os Z fs ?js = (js2, ms2, fin)" by (metis prod_cases3)
  have "MsgBlock b \<notin> set (snd (init_job os fs j))" for j by (rule init_job_facts(1)) (rule prod.collapse [symmetric])
  then have "MsgBlock b \<in> set ms2" using assms by (auto simp: handle_read_jobs_def init_jobs_map r)
  from read_first_block [OF r this] obtain j where j: "j \<in> set js" "tj_id (fst (init_job os fs j)) = b_id b"
    "may_send (fst (init_job os fs j))" "\<not> is_last_job (fst (init_job os fs j))" by auto
  note f = init_job_facts [where os = os and fs = fs and j = j, OF prod.collapse [symmetric]]
  have "tj_id j = b_id b" "\<not> is_last_job j" using j f(2,3) by simp_all
  with f(4) j show ?thesis by blast
qed

theorem no_block_before_confirm_witness:
  "snd (handle_read_jobs demo_os demo_zstd demo_src [file_sender 4 ''s'' demo_files]) \<noteq> []
   \<and> (\<forall>b. MsgBlock b \<notin> set (snd (handle_read_jobs demo_os demo_zstd demo_src
        [(file_sender 4 ''s'' demo_files)\<lparr>enable_overwrite_detection := True\<rparr>])))"
proof -
  let ?j = "(file_sender 4 ''s'' demo_files)\<lparr>enable_overwrite_detection := True\<rparr>"
  have "\<not> confirmed_before ?j"
    by (simp add: confirmed_before_def file_sender_def new_read_def transfer_job_default_def)
  then have "MsgBlock b \<notin> set (snd (handle_read_jobs demo_os demo_zstd demo_src [?j]))" for b
    using no_block_before_confirm [OF prod.collapse [symmetric], of b demo_os demo_zstd demo_src "[?j]"] by auto
  moreover obtain j' blk where "handle_read_jobs demo_os demo_zstd demo_src [file_sender 4 ''s'' demo_files] = ([j'], [MsgBlock blk])"
  proof -
    have s: "sending 4 ''s'' demo_files 0 (file_sender 4 ''s'' demo_files)"
      by (simp add: sending_def file_sender_def new_read_def transfer_job_default_def demo_files_def)
    obtain nd where nd: "fs_open demo_os (job_join ''s'' (fe_name (demo_files ! 0))) demo_src = Inr nd"
      using readable_open [OF demo_files_facts(1), of 0] demo_files_facts(4) by auto
    from sending_open [OF s _ _ nd] demo_files_facts(4) obtain j1 where j1: "sending 4 ''s'' demo_files 0 j1"
      "data_stream j1 = Some (FileStream nd 0)"
      "handle_read_jobs demo_os demo_zstd demo_src [file_sender 4 ''s'' demo_files] = handle_read_jobs demo_os demo_zstd demo_src [j1]"
      by (auto simp: file_sender_def new_read_def transfer_job_default_def)
    have nf: "\<not> read_fails demo_os nd pos" for pos by (simp add: demo_os_def)
    have "0 < length demo_files" using demo_files_facts(4) by simp
    with tick_data [OF j1(1) _ j1(2) nf] tick_end [OF j1(1) _ j1(2) nf] j1(3) that show thesis
      by (cases "drop 0 (f_data (nodes demo_src ! nd)) = []") metis+
  qed
  ultimately show ?thesis by simp
qed

text \<open>
  A file that cannot be opened ends a job with overwrite detection: the error is reported, but
  the job then looks complete, so the same call reports it as done and removes it, and the files
  after the unreadable one are never sent.
\<close>

theorem open_error_ends_job:
  assumes "tj_source j = FilePath p" and "tj_type j = Generic" and "enable_overwrite_detection j"
    and "\<not> is_last_job j" and "\<not> job_skipped j" and "data_stream j = None"
    and "file_num j = int k" and "k < length (tj_files j)" and "length (tj_files j) < 2 ^ 31"
    and "fs_open os (job_join p (fe_name (tj_files j ! k))) fs = Inl e"
  shows "handle_read_jobs os Z fs [j] =
    ([], [MsgError (tj_id j) (error_text e) (int k + 1), MsgDone (tj_id j) (int k + 1)])"
  using assms
  by (simp add: handle_read_jobs_def init_job_def init_data_stream_def open_data_stream_def next_file_def job_read_def
      job_completed_def job_error_def job_skipped_def i32_add_def)

theorem open_error_ends_job_witness:
  "handle_read_jobs demo_os demo_zstd empty_fs
      [(file_sender 4 ''s'' demo_files)\<lparr>enable_overwrite_detection := True\<rparr>]
    = ([], [MsgError 4 ''open'' 1, MsgDone 4 1])"
proof -
  let ?j = "(file_sender 4 ''s'' demo_files)\<lparr>enable_overwrite_detection := True\<rparr>"
  have "fs_open demo_os (job_join ''s'' (fe_name (tj_files ?j ! 0))) empty_fs = Inl (FsErr ''open'')"
    by (simp add: fs_open_def empty_fs_def)
  from open_error_ends_job [of ?j "''s''" 0, OF _ _ _ _ _ _ _ _ _ this] show ?thesis
    by (simp add: file_sender_def new_read_def transfer_job_default_def demo_files_def job_skipped_def error_text_def)
qed

lemma modify_time_create: "modify_time (os\<lparr>can_create := f\<rparr>) j fs = modify_time os j fs"
  by (simp add: modify_time_def fs_remove_def fs_rename_def Let_def split: option.split)

lemma modify_time_names:
  assumes "all_ok os" and "fs_ok fs" and "tj_type j = Generic" and "current_path j = Some q"
    and "fmlookup (names fs) (q @ ''.download'') = Some nd"
  shows "fmlookup (names (modify_time os j fs)) q = Some nd"
    and "f_data (nodes (modify_time os j fs) ! nd) = f_data (nodes fs ! nd)"
  using assms fs_ok_less [OF assms(2,5)]
  by (simp_all add: modify_time_def fs_remove_def fs_rename_def fs_set_mtime_def all_ok_def Let_def)

text \<open>
  A file that cannot be created spoils the one before it: the failed write already names the
  new file as the current one but keeps the stream of the finished file, so the next block of the
  new file is appended to the previous file, under its final name.
\<close>

theorem failed_create_corrupts:
  assumes "all_ok os" and "os' = os\<lparr>can_create := (\<lambda>q. q \<noteq> target p fl m @ ''.download'')\<rparr>"
    and "receiver i p fl j" and "partial_file p fl k c j fs" and "k < length fl" and "m < length fl" and "m \<noteq> k"
    and "apart p fl" and "b_id b1 = i" and "b_file_num b1 = int m" and "b_id b2 = i" and "b_file_num b2 = int m"
    and "job_write os' Z dj b1 (j, fs) = (r1, j1, fs1)" and "job_write os' Z dj b2 (j1, fs1) = (r2, j2, fs2)"
  shows "r1 = Inl (FsErr ''create'') \<and> r2 = Inr () \<and> content_at fs2 (target p fl k) = c @ decoded Z b2"
proof -
  let ?q = "target p fl k" and ?r = "target p fl m"
  obtain nd where k: "file_num j = int k" and ok: "fs_ok fs" and ds: "data_stream j = Some (FileStream nd (length c))"
    and nm: "fmlookup (names fs) (?q @ ''.download'') = Some nd" and c: "f_data (nodes fs ! nd) = c"
    using assms(4) by (auto simp: partial_file_def)
  note cp = receiver_path [OF assms(3) k assms(5)]
  have t: "tj_type j = Generic" using assms(3) by (simp add: receiver_def)
  define f1 where "f1 = modify_time os j fs"
  have ok1: "fs_ok f1" unfolding f1_def by (rule modify_time_view(1) [OF assms(1) ok t])
  have nm1: "fmlookup (names f1) ?q = Some nd" and c1: "f_data (nodes f1 ! nd) = c"
    using modify_time_names [OF assms(1) ok t cp(1) nm] c by (simp_all add: f1_def)
  define f0 where "f0 = create_parent os' (j\<lparr>file_num := int m\<rparr>) ?r f1"
  have ok0: "fs_ok f0" using ok1 by (simp add: f0_def fs_ok_def)
  have nm0: "fmlookup (names f0) ?q = Some nd" and c0: "f_data (nodes f0 ! nd) = c"
    using nm1 c1 by (simp_all add: f0_def)
  define f2 where "f2 = snd (remove_digest os' (Some (?r @ ''.digest'')) f0)"
  have rem: "remove_digest os' (Some (?r @ ''.digest'')) f0 = (Inr (), f2)" and ok2: "fs_ok f2"
    using assms(1,2) ok0 unix.ok_remove [OF ok0, of os' "?r @ ''.digest''"]
    by (auto simp: f2_def remove_digest_def fs_remove_def all_ok_def)
  have "trio ?q \<inter> trio ?r = {}" using assms(5-8) by (simp add: apart_def)
  then have "?q \<noteq> ?r @ ''.digest''" by (auto simp: trio_def)
  then have nm2: "fmlookup (names f2) ?q = Some nd" and c2: "f_data (nodes f2 ! nd) = c"
    using nm0 c0 by (auto simp: f2_def remove_digest_def fs_remove_def)
  have "sync_stream os' (data_stream j)" using assms(1,2) by (simp add: sync_stream_def ds all_ok_def)
  moreover have "modify_time os' j fs = f1" by (simp add: f1_def assms(2) modify_time_create)
  moreover have "fs_create os' (?r @ ''.download'') f2 = (Inl (FsErr ''create''), f2)"
    by (simp add: fs_create_def assms(2))
  ultimately have "open_for_write os' dj p (int m) (j, fs) = (Inl (FsErr ''create''), j\<lparr>file_num := int m\<rparr>, f2)"
    using t rem [unfolded f0_def target_def] assms(3,6)
    by (simp add: open_for_write_def Let_def digest_path_def receiver_def target_def)
  then have w1: "job_write os' Z dj b1 (j, fs) = (Inl (FsErr ''create''), j\<lparr>file_num := int m\<rparr>, f2)"
    using assms(3,6,7,9,10) k cp(2) by (simp add: job_write_def receiver_def Let_def)
  let ?f3 = "fs_write_node os' nd (length c) (decoded Z b2) f2"
  have "stream_write os' (decoded Z b2) (FileStream nd (length c)) f2
      = (Inr (FileStream nd (length c + length (decoded Z b2))), ?f3)"
    using assms(1,2) by (simp add: stream_write_def all_ok_def)
  then have "r2 = Inr () \<and> fs2 = ?f3"
    using assms(3,6,11-14) w1 ds by (auto simp: job_write_def receiver_def decoded_def Let_def cong: if_cong)
  moreover have "fs_node ?f3 ?q = Some \<lparr>f_data = c @ decoded Z b2, f_mtime = file_clock os'\<rparr>"
    using fs_write_node_view(3) [OF ok2 nm2, of os' "length c" "decoded Z b2"] c2 write_at_end [of c "decoded Z b2"] by simp
  ultimately show ?thesis using assms(13) w1 by (simp add: content_at_def)
qed

theorem failed_create_corrupts_witness:
  "\<exists>os j fs1 j1 fs2 j2. job_write os demo_zstd (\<lambda>_. []) \<lparr>b_id = 4, b_file_num = 1, b_data = [8], b_compressed = False\<rparr> j
      = (Inl (FsErr ''create''), j1, fs1)
    \<and> job_write os demo_zstd (\<lambda>_. []) \<lparr>b_id = 4, b_file_num = 1, b_data = [9], b_compressed = False\<rparr> (j1, fs1) = (Inr (), j2, fs2)
    \<and> content_at fs2 ''d/a'' = [1, 2, 9]"
proof -
  let ?j = "new_write 4 Generic [] (FilePath ''d'') 0 False False demo_files False"
  let ?b = "\<lambda>n d. \<lparr>b_id = 4, b_file_num = n, b_data = d, b_compressed = False\<rparr>"
  let ?os = "demo_os\<lparr>can_create := (\<lambda>q. q \<noteq> target ''d'' demo_files 1 @ ''.download'')\<rparr>"
  have len: "0 < length demo_files" "1 < length demo_files" by (simp_all add: demo_files_def)
  have r: "receiver 4 ''d'' demo_files ?j" "data_stream ?j = None"
    using demo_files_facts(3) by (simp_all add: receiver_def new_write_def transfer_job_default_def)
  obtain j fs where j: "receiver 4 ''d'' demo_files j" "partial_file ''d'' demo_files 0 [1, 2] j fs"
    using write_new_file [OF demo_os_ok(1) r(1) demo_os_ok(3) len(1), of "?b 0 [1, 2]" demo_zstd "\<lambda>_. []"] r(2)
    by (auto simp: decoded_def)
  obtain r1 j1 fs1 where w1: "job_write ?os demo_zstd (\<lambda>_. []) (?b 1 [8]) (j, fs) = (r1, j1, fs1)" by (metis prod_cases3)
  obtain r2 j2 fs2 where w2: "job_write ?os demo_zstd (\<lambda>_. []) (?b 1 [9]) (j1, fs1) = (r2, j2, fs2)" by (metis prod_cases3)
  from failed_create_corrupts [OF demo_os_ok(1) refl j len _ demo_files_facts(2) _ _ _ _ w1 w2]
  have "r1 = Inl (FsErr ''create'') \<and> r2 = Inr () \<and> content_at fs2 (target ''d'' demo_files 0) = [1, 2, 9]"
    by (simp add: decoded_def)
  moreover have "target ''d'' demo_files 0 = ''d/a''"
    by (simp add: target_def demo_files_def job_join_def path_join_def starts_with_def)
  ultimately show ?thesis using w1 w2
    by (intro exI [of _ ?os] exI [of _ "(j, fs)"] exI [of _ fs1] exI [of _ j1] exI [of _ fs2] exI [of _ j2]) simp
qed

text \<open>
  A failing compressor loses data silently: \<open>compress\<close> answers an error with the empty byte
  string, which \<open>read\<close> takes for a successful compression, so the block sent for a piece of a
  file is empty while the job counts the piece as read.
\<close>

theorem compress_failure_loses_data:
  assumes "tj_source j = FilePath p" and "tj_type j = Generic \<longrightarrow> \<not> enable_overwrite_detection j \<or> file_confirmed j"
    and "as_usize (file_num j) < length (tj_files j)" and "data_stream j = Some ds"
    and "read_fill os fs ds [] = (Inr buf, ds')" and "buf \<noteq> []" and "\<not> is_compressed_file (read_name j)"
    and "z_compress Z buf = None"
  shows "\<exists>j'. job_read os Z fs j = (Inr (Some \<lparr>b_id = tj_id j, b_file_num = file_num j, b_data = [], b_compressed = True\<rparr>), j')
    \<and> finished_size j' = finished_size j + word_of_nat (length buf)"
proof -
  have "pack Z j buf = ([], True)"
    using assms(1,6-8) by (simp add: pack_def compress_def is_file_path_def)
  with assms(1-6) show ?thesis by (auto simp: job_read_def is_file_path_def Let_def)
qed

theorem compress_failure_loses_data_witness:
  "\<exists>j'. job_read demo_os (demo_zstd\<lparr>z_compress := (\<lambda>_. None)\<rparr>) demo_src
      ((file_sender 4 ''s'' demo_files)\<lparr>data_stream := Some (FileStream 0 0)\<rparr>)
    = (Inr (Some \<lparr>b_id = 4, b_file_num = 0, b_data = [], b_compressed = True\<rparr>), j')"
proof -
  let ?j = "(file_sender 4 ''s'' demo_files)\<lparr>data_stream := Some (FileStream 0 0)\<rparr>"
  have fill: "read_fill demo_os demo_src (FileStream 0 0) [] = (Inr [1, 2], FileStream 0 2)"
    using read_fill_file [of demo_os 0 "[]" demo_src 0] by (simp add: demo_os_def demo_src_def BUF_SIZE_def Let_def)
  have "\<not> is_compressed_file (read_name ?j)"
    by (simp add: read_name_def file_sender_def new_read_def transfer_job_default_def demo_files_def is_compressed_file_def
        get_ext_def as_usize_def)
  from compress_failure_loses_data [OF _ _ _ _ fill _ this, of "''s''" "demo_zstd\<lparr>z_compress := (\<lambda>_. None)\<rparr>"]
  show ?thesis by (auto simp: file_sender_def new_read_def transfer_job_default_def demo_files_def as_usize_def)
qed

text \<open>
  A stale partial download takes the place of the finished file when the file is transferred
  again: the first block of the new transfer finishes the current file of the job before it
  opens it, so what an earlier interrupted transfer left is renamed over the destination.
\<close>

theorem stale_download_replaces:
  assumes "all_ok os" and "receiver i p fl j" and "fs_ok fs" and "k < length fl" and "file_num j = int k"
    and "data_stream j = None" and "fs_node fs (target p fl k @ ''.download'') = Some n"
    and "b_id blk = i" and "b_file_num blk = int k" and "job_write os Z dj blk (j, fs) = (r, j', fs')"
  shows "content_at fs' (target p fl k) = f_data n"
proof -
  have "tj_type j = Generic" using assms(2) by (simp add: receiver_def)
  note view = modify_time_view(3) [OF assms(1,3) this receiver_path(1) [OF assms(2,5,4)] assms(7)]
  obtain j1 fs1 where "job_write os Z dj blk (j, fs) = (Inr (), j1, fs1)"
    and "\<forall>r. r \<notin> trio (target p fl k) - {target p fl k} \<longrightarrow> fs_node fs1 r = fs_node (modify_time os j fs) r"
    using write_new_file [OF assms(1-4,8,9)] assms(6) by blast
  with view assms(10) show ?thesis by (simp add: content_at_def)
qed

definition stale_fs :: fsys where
  "stale_fs = \<lparr>names = fmap_of_list [(''d/a'', 0), (''d/a.download'', 1)],
     nodes = [\<lparr>f_data = [1, 2], f_mtime = (5, 0)\<rparr>, \<lparr>f_data = [5], f_mtime = (6, 0)\<rparr>], dirs = [''s'']\<rparr>"

theorem stale_download_replaces_witness:
  "content_at (snd (snd (job_write demo_os demo_zstd (\<lambda>_. []) \<lparr>b_id = 4, b_file_num = 0, b_data = [1], b_compressed = False\<rparr>
     (new_write 4 Generic [] (FilePath ''d'') 0 False False demo_files False, stale_fs)))) ''d/a'' = [5]"
proof -
  let ?j = "new_write 4 Generic [] (FilePath ''d'') 0 False False demo_files False"
  let ?b = "\<lparr>b_id = 4, b_file_num = 0, b_data = [1], b_compressed = False\<rparr>"
  have t: "target ''d'' demo_files 0 = ''d/a''"
    by (simp add: target_def demo_files_def job_join_def path_join_def starts_with_def)
  have ok: "fs_ok stale_fs" by (auto simp: fs_ok_def stale_fs_def split: if_splits)
  have r: "receiver 4 ''d'' demo_files ?j" "file_num ?j = int 0" "data_stream ?j = None"
    using demo_files_facts(3) by (simp_all add: receiver_def new_write_def transfer_job_default_def)
  have n: "fs_node stale_fs (target ''d'' demo_files 0 @ ''.download'') = Some \<lparr>f_data = [5], f_mtime = (6, 0)\<rparr>"
    by (simp add: t fs_node_def stale_fs_def)
  obtain x j' fs' where w: "job_write demo_os demo_zstd (\<lambda>_. []) ?b (?j, stale_fs) = (x, j', fs')" by (metis prod_cases3)
  have "0 < length demo_files" by (simp add: demo_files_def)
  from stale_download_replaces [OF demo_os_ok(1) r(1) ok this r(2,3) n _ _ w] show ?thesis by (simp add: t w)
qed

end
