(* ===== verification/Cm_Files.thy ===== *)
theory Cm_Files
  imports File_Transfer_Proofs
begin

text \<open>
  The file requests of the connection manager, \<open>handle_fs\<close> of \<open>src/ui_cm_interface.rs\<close>:
  write jobs of uploads with their checks of the file names, the read jobs it runs itself, and the
  requests that remove, create or rename what the peer names by its full path. The file names of a transfer
  arrive from the peer; the property that matters is that they cannot leave the directory of the transfer.
  The listings (\<open>ReadDir\<close>, \<open>ReadEmptyDirs\<close>, \<open>ReadAllFiles\<close> and that of a read job) are arguments, given by
  the definitions of \<open>Dir_Tree\<close>; they change nothing. The messages to the log of transfers are left out.
\<close>

section \<open>Checks\<close>

fun split_by :: "(char \<Rightarrow> bool) \<Rightarrow> string \<Rightarrow> string list" where
  "split_by P [] = [[]]"
| "split_by P (x # xs) =
     (if P x then [] # split_by P xs
      else case split_by P xs of p # ps \<Rightarrow> (x # p) # ps | [] \<Rightarrow> [[x]])"

definition is_ascii_alphabetic :: "char \<Rightarrow> bool" where
  "is_ascii_alphabetic c \<longleftrightarrow> (65 \<le> (of_char c :: nat) \<and> of_char c \<le> (90 :: nat)) \<or> (97 \<le> (of_char c :: nat) \<and> of_char c \<le> (122 :: nat))"

definition trim :: "string \<Rightarrow> string" where
  "trim s = (let ws = (\<lambda>c. c \<in> set [CHR '' '', CHR 0x09, CHR 0x0A, CHR 0x0B, CHR 0x0C, CHR 0x0D])
     in rev (dropWhile ws (rev (dropWhile ws s))))"

text \<open>\<open>opt\<close> is the built-in option \<open>file-transfer-max-files\<close>.\<close>

definition get_max_validated_files :: "string \<Rightarrow> nat" where
  "get_max_validated_files opt =
     (let c = (case parse_unsigned (2 ^ 64) (trim opt) of Some c \<Rightarrow> c | None \<Rightarrow> usize_max)
      in if c = 0 then 10000 else c)"

definition check_file_count_limit :: "string \<Rightarrow> nat \<Rightarrow> bool" where
  "check_file_count_limit opt n \<longleftrightarrow> \<not> n > get_max_validated_files opt"

definition validate_file_name_no_traversal :: "bool \<Rightarrow> string \<Rightarrow> fs_error + unit" where
  "validate_file_name_no_traversal windows name =
     (if list_ex (\<lambda>b. b = 0) (as_bytes name) then Inl (FsErr ''file name contains null bytes'')
      else if list_ex (\<lambda>c. c = ''..'') (filter (\<lambda>s. s \<noteq> []) (split_by (\<lambda>c. c = CHR ''/'' \<or> c = CHR 0x5C) name))
      then Inl (FsErr ''path traversal detected in file name'')
      else if windows \<and> length name \<ge> 2 \<and> is_ascii_alphabetic (name ! 0) \<and> name ! 1 = CHR '':''
      then Inl (FsErr ''absolute path detected in file name'')
      else if starts_with name ''/'' \<or> starts_with name [CHR 0x5C]
      then Inl (FsErr ''absolute path detected in file name'')
      else Inr ())"

definition is_single_file_with_empty_name :: "(string \<times> u64) list \<Rightarrow> bool" where
  "is_single_file_with_empty_name fl \<longleftrightarrow> length fl = 1 \<and> fst (hd fl) = []"

fun validate_names :: "bool \<Rightarrow> (string \<times> u64) list \<Rightarrow> fs_error + unit" where
  "validate_names windows [] = Inr ()"
| "validate_names windows ((name, _) # fl) =
     (if name = [] then Inl (FsErr ''empty file name in multi-file transfer'')
      else case validate_file_name_no_traversal windows name of
             Inl e \<Rightarrow> Inl e
           | Inr _ \<Rightarrow> validate_names windows fl)"

definition validate_transfer_file_names :: "bool \<Rightarrow> (string \<times> u64) list \<Rightarrow> fs_error + unit" where
  "validate_transfer_file_names windows fl =
     (if is_single_file_with_empty_name fl then Inr () else validate_names windows fl)"

section \<open>Requests\<close>

datatype fs_request =
    NewWrite string int int "(string \<times> u64) list" bool u64 int
  | CancelWrite int
  | WriteDone int int
  | WriteError int int string
  | WriteBlock int int bytes bool
  | CheckDigest int int u64 u64 bool bool
  | SendConfirm send_confirm
  | ReadFile string int int bool int bool
  | CancelRead int
  | SendConfirmForRead int bool u32
  | ReadEmptyDirs string bool
  | ReadDir string bool
  | ReadAllFiles string int bool int
  | RemoveDir string int bool
  | RemoveFile string int int
  | CreateDir string int
  | Rename int string string

datatype cm_msg =
    Raw file_msg
  | ReadJobInitResult int int bool int "string + file_entry list"
  | FileReadError int int string int
  | FileBlockFromCM file_block int
  | FileReadDone int int int
  | FileDigestFromCM int int u64 u64 bool int
  | EmptyDirs string "(string \<times> file_entry list) list"
  | AllFilesResult int int string "string + file_entry list"

record cm =
  write_jobs :: "transfer_job list"
  read_jobs :: "transfer_job list"
  cm_fs :: fsys
  cm_out :: "cm_msg list"

record cm_env =
  env_os :: os
  env_zstd :: zstd
  digest_json :: "file_digest \<Rightarrow> bytes"
  digest_parse :: "bytes \<Rightarrow> file_digest option"
  listing :: "string \<Rightarrow> bool \<Rightarrow> fs_error + file_entry list"
  dir_listing :: "string \<Rightarrow> bool \<Rightarrow> fs_error + string \<times> file_entry list"
  empty_dirs_listing :: "string \<Rightarrow> bool \<Rightarrow> fs_error + (string \<times> file_entry list) list"
  home_dir :: string
  env_windows :: bool
  max_files_option :: string

definition cm_send_raw :: "file_msg \<Rightarrow> cm \<Rightarrow> cm" where
  "cm_send_raw m s = s\<lparr>cm_out := cm_out s @ [Raw m]\<rparr>"

definition handle_new_write ::
    "cm_env \<Rightarrow> string \<Rightarrow> int \<Rightarrow> int \<Rightarrow> (string \<times> u64) list \<Rightarrow> bool \<Rightarrow> u64 \<Rightarrow> int \<Rightarrow> cm \<Rightarrow> cm" where
  "handle_new_write E path i n fl detect tot conn s =
     (case validate_transfer_file_names (env_windows E) fl of
        Inl e \<Rightarrow> cm_send_raw (MsgError i (error_text e) n) s
      | Inr _ \<Rightarrow>
          let entries = map (\<lambda>f. \<lparr>fe_name = fst f, fe_size = 0, fe_modified_time = snd f\<rparr>) fl;
              job = new_write i Generic [] (FilePath path) n False False entries detect
          in s\<lparr>write_jobs := write_jobs s @ [job\<lparr>total_size := tot, tj_conn_id := conn\<rparr>]\<rparr>)"

definition handle_cancel_write :: "cm_env \<Rightarrow> int \<Rightarrow> cm \<Rightarrow> cm" where
  "handle_cancel_write E i s =
     (case remove_job i (write_jobs s) of
        (Some j, js) \<Rightarrow> s\<lparr>write_jobs := js, cm_fs := remove_download_file (env_os E) j (cm_fs s)\<rparr>
      | (None, _) \<Rightarrow> s)"

definition handle_write_done :: "cm_env \<Rightarrow> int \<Rightarrow> int \<Rightarrow> cm \<Rightarrow> cm" where
  "handle_write_done E i n s =
     (case remove_job i (write_jobs s) of
        (Some j, js) \<Rightarrow> cm_send_raw (MsgDone i n) (s\<lparr>write_jobs := js, cm_fs := modify_time (env_os E) j (cm_fs s)\<rparr>)
      | (None, _) \<Rightarrow> s)"

definition handle_write_error :: "int \<Rightarrow> int \<Rightarrow> string \<Rightarrow> cm \<Rightarrow> cm" where
  "handle_write_error i n err s =
     (case remove_job i (write_jobs s) of
        (Some j, js) \<Rightarrow> cm_send_raw (MsgError (tj_id j) err n) (s\<lparr>write_jobs := js\<rparr>)
      | (None, _) \<Rightarrow> s)"

definition handle_write_block :: "cm_env \<Rightarrow> int \<Rightarrow> int \<Rightarrow> bytes \<Rightarrow> bool \<Rightarrow> cm \<Rightarrow> cm" where
  "handle_write_block E i n data packed s =
     (case get_job i (write_jobs s) of
        None \<Rightarrow> s
      | Some j \<Rightarrow>
          (case job_write (env_os E) (env_zstd E) (digest_json E)
                  \<lparr>b_id = i, b_file_num = n, b_data = data, b_compressed = packed\<rparr> (j, cm_fs s) of
             (r, j', fs) \<Rightarrow>
               let s = s\<lparr>write_jobs := update_job i (\<lambda>_. j') (write_jobs s), cm_fs := fs\<rparr>
               in (case r of Inl e \<Rightarrow> cm_send_raw (MsgError i (error_text e) n) s | Inr _ \<Rightarrow> s)))"

definition handle_check_digest :: "cm_env \<Rightarrow> int \<Rightarrow> int \<Rightarrow> u64 \<Rightarrow> u64 \<Rightarrow> bool \<Rightarrow> bool \<Rightarrow> cm \<Rightarrow> cm" where
  "handle_check_digest E i n sz modified upload resume s =
     (case get_job i (write_jobs s) of
        None \<Rightarrow> s
      | Some j \<Rightarrow>
          if as_usize n < length (tj_files j) then
            (case tj_source j of
               MemoryCursor _ _ \<Rightarrow> s
             | FilePath p \<Rightarrow>
                 let path = job_join p (fe_name (tj_files j ! as_usize n));
                     d = \<lparr>td_job = i, td_file_num = n, td_last_modified = modified, td_file_size = sz,
                          td_is_upload = False, td_is_identical = False, td_transferred_size = 0, td_is_resume = False\<rparr>;
                     s = s\<lparr>write_jobs := update_job i (set_digest sz modified) (write_jobs s)\<rparr>
                 in (case is_write_need_confirmation (digest_parse E) (cm_fs s) resume path d of
                       IsSame \<Rightarrow> cm_send_raw (MsgSendConfirm \<lparr>sc_id = i, sc_file_num = n, sc_union = Some (Skip True)\<rparr>) s
                     | NeedConfirm d \<Rightarrow> cm_send_raw (MsgDigest (d\<lparr>td_is_upload := upload\<rparr>)) s
                     | NoSuchFile \<Rightarrow> cm_send_raw (MsgSendConfirm \<lparr>sc_id = i, sc_file_num = n, sc_union = Some (OffsetBlk 0)\<rparr>) s))
          else s)"

text \<open>A confirmation for a write job; an index out of range ends the task in a panic.\<close>

definition handle_send_confirm :: "cm_env \<Rightarrow> send_confirm \<Rightarrow> cm \<Rightarrow> fs_error + cm" where
  "handle_send_confirm E r s =
     (case get_job (sc_id r) (write_jobs s) of
        None \<Rightarrow> Inr s
      | Some j \<Rightarrow>
          (case confirm (env_os E) (cm_fs s) r j of
             Inl e \<Rightarrow> Inl e
           | Inr j' \<Rightarrow> Inr (s\<lparr>write_jobs := update_job (sc_id r) (\<lambda>_. j') (write_jobs s)\<rparr>)))"

definition start_read_job :: "cm_env \<Rightarrow> string \<Rightarrow> int \<Rightarrow> bool \<Rightarrow> int \<Rightarrow> int \<Rightarrow> bool \<Rightarrow> cm \<Rightarrow> cm" where
  "start_read_job E path n hidden i conn detect s =
     (case new_read (listing E) i Generic [] (FilePath path) n hidden True detect of
        Inr job \<Rightarrow>
          if \<not> check_file_count_limit (max_files_option E) (length (tj_files job))
          then s\<lparr>cm_out := cm_out s @ [ReadJobInitResult i n hidden conn (Inl ''file transfer rejected: too many files'')]\<rparr>
          else s\<lparr>cm_out := cm_out s @ [ReadJobInitResult i n hidden conn (Inr (tj_files job))],
                 read_jobs := read_jobs s @ [job\<lparr>tj_conn_id := conn\<rparr>]\<rparr>
      | Inl e \<Rightarrow> s\<lparr>cm_out := cm_out s @ [ReadJobInitResult i n hidden conn (Inl (''validation failed: '' @ error_text e))]\<rparr>)"

definition handle_confirm_for_read :: "cm_env \<Rightarrow> int \<Rightarrow> bool \<Rightarrow> u32 \<Rightarrow> cm \<Rightarrow> fs_error + cm" where
  "handle_confirm_for_read E i skip off s =
     (case get_job i (read_jobs s) of
        None \<Rightarrow> Inr s
      | Some j \<Rightarrow>
          (case confirm (env_os E) (cm_fs s) \<lparr>sc_id = i, sc_file_num = file_num j,
                  sc_union = Some (if skip then Skip True else OffsetBlk off)\<rparr> j of
             Inl e \<Rightarrow> Inl e
           | Inr j' \<Rightarrow> Inr (s\<lparr>read_jobs := update_job i (\<lambda>_. j') (read_jobs s)\<rparr>)))"

section \<open>Removing, creating and renaming\<close>

text \<open>The path is the directory or lies below it.\<close>

definition under :: "string \<Rightarrow> string \<Rightarrow> bool" where
  "under d p \<longleftrightarrow> p = d \<or> starts_with p (d @ ''/'')"

lemma under_iff: "under d p \<longleftrightarrow> (\<exists>x. p = d @ x \<and> (x = [] \<or> (\<exists>y. x = CHR ''/'' # y)))"
proof -
  have "starts_with p (d @ ''/'') \<Longrightarrow> p = d @ CHR ''/'' # drop (Suc (length d)) p"
    unfolding starts_with_def by (metis append.assoc append_Cons append_Nil append_take_drop_id length_append_singleton)
  then show ?thesis by (auto simp: under_def) (auto simp: starts_with_def)
qed

definition rebase :: "string \<Rightarrow> string \<Rightarrow> string \<Rightarrow> string" where
  "rebase a b p = b @ drop (length a) p"

text \<open>\<open>std::fs::remove_dir\<close>: an empty directory.\<close>

definition fs_rmdir :: "os \<Rightarrow> string \<Rightarrow> fsys \<Rightarrow> (fs_error + unit) \<times> fsys" where
  "fs_rmdir os d fs =
     (let d = strip_slashes d in
      if d \<in> set (dirs fs) \<and> can_rmdir os d \<and> fBall (fmdom (names fs)) (\<lambda>p. \<not> under d p)
         \<and> list_all (\<lambda>p. \<not> under d p \<or> p = d) (dirs fs)
      then (Inr (), fs\<lparr>dirs := filter (\<lambda>p. p \<noteq> d) (dirs fs)\<rparr>)
      else (Inl (FsErr ''remove_dir''), fs))"

definition subdirs :: "string \<Rightarrow> fsys \<Rightarrow> string list" where
  "subdirs d fs = filter (\<lambda>p. p \<noteq> d \<and> parent_dir p = Some d) (dirs fs)"

text \<open>
  \<open>remove_all_empty_dir\<close>. A subdirectory has a longer path than its directory, so the recursion is not
  deeper than the longest path is long.
\<close>

fun remove_empty_dirs :: "nat \<Rightarrow> os \<Rightarrow> string \<Rightarrow> fsys \<Rightarrow> (fs_error + unit) \<times> fsys" where
  "remove_empty_dirs 0 os d fs = (Inl (FsErr ''read_dir''), fs)"
| "remove_empty_dirs (Suc n) os d fs =
     (if d \<in> set (dirs fs) \<and> can_list os d
      then (Inr (), snd (fs_rmdir os d
              (fold (\<lambda>e fs. snd (remove_empty_dirs n os e fs)) (subdirs d fs) fs)))
      else (Inl (FsErr ''read_dir''), fs))"

definition dir_depth :: "fsys \<Rightarrow> nat" where
  "dir_depth fs = Suc (fold max (map length (dirs fs)) 0)"

text \<open>
  \<open>std::fs::rename\<close> of a file or of a directory with all that is in it. A directory replaces an empty
  directory only, a file no directory, and no directory is moved below itself.
\<close>

setup_lifting type_definition_fmap

lift_definition move_names :: "string \<Rightarrow> string \<Rightarrow> (string, nat) fmap \<Rightarrow> (string, nat) fmap" is
  "\<lambda>a b m p. if under b p then m (rebase b a p) else if under a p then None else m p"
proof -
  fix a b and m :: "string \<rightharpoonup> nat"
  assume "finite (dom m)"
  moreover have "dom (\<lambda>p. if under b p then m (rebase b a p) else if under a p then None else m p)
      \<subseteq> dom m \<union> rebase a b ` dom m"
  proof
    fix p
    assume "p \<in> dom (\<lambda>p. if under b p then m (rebase b a p) else if under a p then None else m p)"
    moreover have "under b p \<Longrightarrow> rebase a b (rebase b a p) = p"
      by (auto simp: under_iff rebase_def)
    ultimately show "p \<in> dom m \<union> rebase a b ` dom m"
      by (auto split: if_splits intro!: rev_image_eqI)
  qed
  ultimately show "finite (dom (\<lambda>p. if under b p then m (rebase b a p) else if under a p then None else m p))"
    by (meson finite_UnI finite_imageI finite_subset)
qed

definition fs_move :: "os \<Rightarrow> string \<Rightarrow> string \<Rightarrow> fsys \<Rightarrow> (fs_error + unit) \<times> fsys" where
  "fs_move os a b fs =
     (if a \<in> set (dirs fs) then
        (if a = b then (Inr (), fs)
         else if \<not> can_rename os a b \<or> under a b \<or> fBex (fmdom (names fs)) (under b)
           \<or> list_ex (\<lambda>p. under b p \<and> p \<noteq> b) (dirs fs)
         then (Inl (FsErr ''rename''), fs)
         else (Inr (), fs\<lparr>names := move_names a b (names fs),
                 dirs := map (\<lambda>p. if under a p then rebase a b p else p) (filter (\<lambda>p. p \<noteq> b) (dirs fs))\<rparr>))
      else if b \<in> set (dirs fs) then (Inl (FsErr ''rename''), fs)
      else fs_rename os a b fs)"

definition rename_target :: "string \<Rightarrow> string \<Rightarrow> string option" where
  "rename_target path new_name = map_option (\<lambda>d. path_join d new_name) (parent_dir path)"

definition rename_file :: "os \<Rightarrow> string \<Rightarrow> string \<Rightarrow> fsys \<Rightarrow> (fs_error + unit) \<times> fsys" where
  "rename_file os path new_name fs =
     (let a = strip_slashes path in
      if fs_exists a fs \<or> a \<in> set (dirs fs) then
        (case rename_target path new_name of
           Some b \<Rightarrow> fs_move os a (strip_slashes b) fs
         | None \<Rightarrow> (Inl (FsErr ''parent directory not exists''), fs))
      else (Inl (FsErr ''not exists''), fs))"

definition send_result :: "(fs_error + unit) \<times> fsys \<Rightarrow> int \<Rightarrow> int \<Rightarrow> cm \<Rightarrow> cm" where
  "send_result res i n s =
     (case res of (r, fs) \<Rightarrow>
        cm_send_raw (case r of Inl e \<Rightarrow> MsgError i (error_text e) n | Inr _ \<Rightarrow> MsgDone i n) (s\<lparr>cm_fs := fs\<rparr>))"

definition handle_remove_dir :: "cm_env \<Rightarrow> string \<Rightarrow> int \<Rightarrow> bool \<Rightarrow> cm \<Rightarrow> cm" where
  "handle_remove_dir E path i recursive s =
     send_result
       (if recursive then remove_empty_dirs (dir_depth (cm_fs s)) (env_os E) (strip_slashes path) (cm_fs s)
        else fs_rmdir (env_os E) path (cm_fs s)) i 0 s"

definition handle_rename :: "cm_env \<Rightarrow> string \<Rightarrow> string \<Rightarrow> int \<Rightarrow> cm \<Rightarrow> cm" where
  "handle_rename E path new_name i s =
     send_result
       (if new_name = [] then (Inl (FsErr ''new file name cannot be empty''), cm_fs s)
        else (case validate_file_name_no_traversal (env_windows E) new_name of
                Inl e \<Rightarrow> (Inl e, cm_fs s)
              | Inr _ \<Rightarrow> rename_file (env_os E) path new_name (cm_fs s))) i 0 s"

section \<open>Listings\<close>

definition handle_read_dir :: "cm_env \<Rightarrow> string \<Rightarrow> bool \<Rightarrow> cm \<Rightarrow> cm" where
  "handle_read_dir E dir hidden s =
     (case dir_listing E (if dir = [] then home_dir E else dir) hidden of
        Inr (path, fl) \<Rightarrow> cm_send_raw (MsgDir 0 path fl) s
      | Inl _ \<Rightarrow> s)"

definition handle_read_empty_dirs :: "cm_env \<Rightarrow> string \<Rightarrow> bool \<Rightarrow> cm \<Rightarrow> cm" where
  "handle_read_empty_dirs E dir hidden s =
     (case empty_dirs_listing E dir hidden of
        Inr fds \<Rightarrow> s\<lparr>cm_out := cm_out s @ [EmptyDirs dir fds]\<rparr>
      | Inl _ \<Rightarrow> s)"

definition read_all_files :: "cm_env \<Rightarrow> string \<Rightarrow> bool \<Rightarrow> int \<Rightarrow> int \<Rightarrow> cm \<Rightarrow> cm" where
  "read_all_files E path hidden i conn s =
     s\<lparr>cm_out := cm_out s @ [AllFilesResult i conn path
        (case listing E path hidden of
           Inl e \<Rightarrow> Inl (error_text e)
         | Inr fl \<Rightarrow> if \<not> check_file_count_limit (max_files_option E) (length fl)
                     then Inl ''file transfer rejected: too many files'' else Inr fl)]\<rparr>"

section \<open>The requests of a connection\<close>

fun handle_fs :: "cm_env \<Rightarrow> fs_request \<Rightarrow> cm \<Rightarrow> fs_error + cm" where
  "handle_fs E (NewWrite path i n fl detect tot conn) s = Inr (handle_new_write E path i n fl detect tot conn s)"
| "handle_fs E (CancelWrite i) s = Inr (handle_cancel_write E i s)"
| "handle_fs E (WriteDone i n) s = Inr (handle_write_done E i n s)"
| "handle_fs E (WriteError i n err) s = Inr (handle_write_error i n err s)"
| "handle_fs E (WriteBlock i n data packed) s = Inr (handle_write_block E i n data packed s)"
| "handle_fs E (CheckDigest i n sz modified upload resume) s = Inr (handle_check_digest E i n sz modified upload resume s)"
| "handle_fs E (SendConfirm r) s = handle_send_confirm E r s"
| "handle_fs E (ReadFile path i n hidden conn detect) s = Inr (start_read_job E path n hidden i conn detect s)"
| "handle_fs E (CancelRead i) s = Inr (s\<lparr>read_jobs := snd (remove_job i (read_jobs s))\<rparr>)"
| "handle_fs E (SendConfirmForRead i skip off) s = handle_confirm_for_read E i skip off s"
| "handle_fs E (ReadEmptyDirs dir hidden) s = Inr (handle_read_empty_dirs E dir hidden s)"
| "handle_fs E (ReadDir dir hidden) s = Inr (handle_read_dir E dir hidden s)"
| "handle_fs E (ReadAllFiles path i hidden conn) s = Inr (read_all_files E path hidden i conn s)"
| "handle_fs E (RemoveDir path i recursive) s = Inr (handle_remove_dir E path i recursive s)"
| "handle_fs E (RemoveFile path i n) s = Inr (send_result (fs_remove (env_os E) path (cm_fs s)) i n s)"
| "handle_fs E (CreateDir path i) s = Inr (send_result (fs_create_dir_all (env_os E) path (cm_fs s)) i 0 s)"
| "handle_fs E (Rename i path new_name) s = Inr (handle_rename E path new_name i s)"

section \<open>Read jobs\<close>

definition init_read_job_for_cm :: "cm_env \<Rightarrow> int \<Rightarrow> fsys \<Rightarrow> transfer_job \<Rightarrow> (fs_error + unit) \<times> transfer_job \<times> cm_msg list" where
  "init_read_job_for_cm E conn fs j =
     (case init_data_stream_for_cm (env_os E) fs j of
        (Inl e, j) \<Rightarrow> (Inl e, j, [])
      | (Inr (Some (modified, sz)), j) \<Rightarrow> (Inr (), j, [FileDigestFromCM (tj_id j) (file_num j) modified sz (is_resume j) conn])
      | (Inr None, j) \<Rightarrow> (Inr (), j, []))"

text \<open>The loop over the jobs; it ends with the first job that could be initialized.\<close>

fun tick_jobs :: "cm_env \<Rightarrow> int \<Rightarrow> fsys \<Rightarrow> transfer_job list \<Rightarrow> transfer_job list \<times> cm_msg list \<times> int list" where
  "tick_jobs E conn fs [] = ([], [], [])"
| "tick_jobs E conn fs (j # js) =
     (if is_last_job j then (case tick_jobs E conn fs js of (js, r) \<Rightarrow> (j # js, r))
      else (case init_read_job_for_cm E conn fs j of
              (Inl e, j, ms) \<Rightarrow>
                (case tick_jobs E conn fs js of (js, ms', fin) \<Rightarrow>
                   (j # js, FileReadError (tj_id j) (file_num j) (error_text e) conn # ms', tj_id j # fin))
            | (Inr _, j, ms) \<Rightarrow>
                (case job_read (env_os E) (env_zstd E) fs j of
                   (Inl e, j) \<Rightarrow> (j # js, ms @ [FileReadError (tj_id j) (file_num j) (error_text e) conn], [tj_id j])
                 | (Inr (Some b), j) \<Rightarrow> (j # js, ms @ [FileBlockFromCM b conn], [])
                 | (Inr None, j) \<Rightarrow>
                     if job_completed j then
                       (j # js, ms @ [case job_error j of
                                        Some e \<Rightarrow> FileReadError (tj_id j) (file_num j) e conn
                                      | None \<Rightarrow> FileReadDone (tj_id j) (file_num j) conn], [tj_id j])
                     else (j # js, ms, []))))"

definition handle_read_jobs_tick :: "cm_env \<Rightarrow> int \<Rightarrow> cm \<Rightarrow> cm" where
  "handle_read_jobs_tick E conn s =
     (case tick_jobs E conn (cm_fs s) (read_jobs s) of (js, ms, finished) \<Rightarrow>
        s\<lparr>read_jobs := fold (\<lambda>i js. snd (remove_job i js)) finished js, cm_out := cm_out s @ ms\<rparr>)"

section \<open>Paths\<close>

text \<open>
  The components of a Unix path, as the kernel resolves them, and the paths inside a directory:
  those reached from it without going up.
\<close>

definition components :: "string \<Rightarrow> string list" where
  "components p = filter (\<lambda>c. c \<noteq> [] \<and> c \<noteq> ''.'') (split_on CHR ''/'' p)"

definition inside :: "string \<Rightarrow> string \<Rightarrow> bool" where
  "inside p r \<longleftrightarrow> starts_with r ''/'' = starts_with p ''/''
     \<and> (\<exists>cs. components r = components p @ cs \<and> ''..'' \<notin> set cs)"

lemma split_on_append_sep: "split_on c (p @ c # n) = split_on c p @ split_on c n"
  by (induction p) (auto split: list.split)

lemma split_on_suffix:
  assumes "c \<notin> set s"
  shows "split_on c (n @ s) = butlast (split_on c n) @ [last (split_on c n) @ s]"
proof (induction n)
  case Nil
  from assms show ?case by (simp add: split_on_absent)
next
  case (Cons x n)
  obtain p ps where "split_on c n = p # ps" using split_on_nonempty [of c n] by (cases "split_on c n") auto
  with Cons show ?case by (cases ps) auto
qed

lemma split_by_split_on:
  "split_by (\<lambda>x. x = c \<or> x = d) s = concat (map (split_on d) (split_on c s))"
proof (induction s)
  case (Cons x s)
  obtain p ps where "split_on c s = p # ps" using split_on_nonempty [of c s] by (cases "split_on c s") auto
  moreover obtain q qs where "split_on d p = q # qs" using split_on_nonempty [of d p] by (cases "split_on d p") auto
  ultimately show ?case using Cons by auto
qed simp

lemma components_join:
  assumes "\<not> starts_with n ''/''"
  shows "components (path_join p n) = components p @ components n" and "starts_with (path_join p n) ''/'' = starts_with p ''/''"
proof -
  show "components (path_join p n) = components p @ components n"
  proof (cases "p = [] \<or> last p \<noteq> CHR ''/''")
    case True
    then show ?thesis
      using assms by (auto simp: path_join_def components_def split_on_append_sep)
  next
    case False
    then obtain q where q: "p = q @ ''/''" by (metis append_butlast_last_id)
    then have "path_join p n = q @ CHR ''/'' # n" using assms by (simp add: path_join_def)
    moreover have "components p = filter (\<lambda>c. c \<noteq> [] \<and> c \<noteq> ''.'') (split_on CHR ''/'' q)"
      by (simp add: q components_def split_on_append_sep)
    ultimately show ?thesis by (simp add: components_def split_on_append_sep)
  qed
  show "starts_with (path_join p n) ''/'' = starts_with p ''/''"
    using assms by (cases p; cases n) (auto simp: path_join_def starts_with_def)
qed

text \<open>A checked name has no parent component, also with the suffix of a temporary file.\<close>

lemma checked_components:
  assumes "validate_file_name_no_traversal w n = Inr ()" and "s \<in> {[], ''.download'', ''.digest''}"
  shows "''..'' \<notin> set (components (n @ s))" and "\<not> starts_with n ''/''"
proof -
  from assms(1) have nt: "''..'' \<notin> set (split_by (\<lambda>c. c = CHR ''/'' \<or> c = CHR 0x5C) n)"
    by (auto simp: validate_file_name_no_traversal_def list_ex_iff split: if_splits)
  have up: "''..'' \<notin> set (split_on CHR ''/'' n)"
  proof
    assume "''..'' \<in> set (split_on CHR ''/'' n)"
    moreover have "split_on CHR 0x5C ''..'' = [''..'']" by (rule split_on_absent) simp
    ultimately have "''..'' \<in> set (concat (map (split_on CHR 0x5C) (split_on CHR ''/'' n)))" by force
    with nt show False by (simp add: split_by_split_on)
  qed
  have "CHR ''/'' \<notin> set s" using assms(2) by auto
  from split_on_suffix [OF this, of n] have "set (split_on CHR ''/'' (n @ s))
      \<subseteq> set (split_on CHR ''/'' n) \<union> {last (split_on CHR ''/'' n) @ s}"
    by (auto dest: in_set_butlastD)
  moreover have "last (split_on CHR ''/'' n) @ s \<noteq> ''..''"
  proof (cases "s = []")
    case True
    with up split_on_nonempty last_in_set show ?thesis by (metis append_Nil2)
  next
    case False
    with assms(2) show ?thesis by (auto simp: append_eq_Cons_conv)
  qed
  ultimately show "''..'' \<notin> set (components (n @ s))" using up by (auto simp: components_def)
  show "\<not> starts_with n ''/''"
    using assms(1) by (auto simp: validate_file_name_no_traversal_def split: if_splits)
qed

lemma checked_inside:
  assumes "validate_file_name_no_traversal w n = Inr ()" and "n \<noteq> []" and "r \<in> trio (job_join p n)"
  shows "inside p r"
proof -
  obtain s where s: "s \<in> {[], ''.download'', ''.digest''}" and r: "r = job_join p n @ s"
    using assms(3) by (auto simp: trio_def)
  have ns: "\<not> starts_with n ''/''" using checked_components(2) [OF assms(1) s] .
  then have "r = path_join p (n @ s)" and "\<not> starts_with (n @ s) ''/''"
    using assms(2) r by (cases n; auto simp: job_join_def path_join_def starts_with_def)+
  then show ?thesis
    using components_join [of "n @ s" p] checked_components(1) [OF assms(1) s] by (simp add: inside_def)
qed

section \<open>Containment\<close>

text \<open>The file system is the same outside a set of paths.\<close>

definition same_outside :: "string set \<Rightarrow> fsys \<Rightarrow> fsys \<Rightarrow> bool" where
  "same_outside S fs fs' \<longleftrightarrow> (\<forall>r. r \<notin> S \<longrightarrow> fmlookup (names fs') r = fmlookup (names fs) r
     \<and> (\<forall>i. fmlookup (names fs) r = Some i \<longrightarrow> nodes fs' ! i = nodes fs ! i))"

definition grows :: "string set \<Rightarrow> fsys \<Rightarrow> fsys \<Rightarrow> bool" where
  "grows S fs fs' \<longleftrightarrow> fs_ok fs' \<and> same_outside S fs fs'"

lemma grows_refl [simp]: "fs_ok fs \<Longrightarrow> grows S fs fs"
  by (simp add: grows_def same_outside_def)

lemma grows_trans: "grows S fs fs' \<Longrightarrow> grows S fs' fs'' \<Longrightarrow> grows S fs fs''"
  by (simp add: grows_def same_outside_def)

lemma grows_node: "grows S fs fs' \<Longrightarrow> r \<notin> S \<Longrightarrow> fs_node fs' r = fs_node fs r"
  by (cases "fmlookup (names fs) r") (auto simp: grows_def same_outside_def fs_node_def)

lemma grows_remove: "fs_ok fs \<Longrightarrow> p \<in> S \<Longrightarrow> grows S fs (snd (fs_remove os p fs))"
  using unix.ok_remove [of fs os p] by (auto simp: grows_def same_outside_def fs_remove_def)

lemma grows_rename: "fs_ok fs \<Longrightarrow> p \<in> S \<Longrightarrow> q \<in> S \<Longrightarrow> grows S fs (snd (fs_rename os p q fs))"
  using unix.ok_rename [of fs os p q] by (auto simp: grows_def same_outside_def fs_rename_def split: option.split)

lemma grows_files: "fs_ok fs \<Longrightarrow> names fs' = names fs \<Longrightarrow> nodes fs' = nodes fs \<Longrightarrow> grows S fs fs'"
  by (simp add: grows_def same_outside_def fs_ok_def)

lemma remove_dir_files [simp]:
  "names (snd (fs_rmdir os d fs)) = names fs" "nodes (snd (fs_rmdir os d fs)) = nodes fs"
  by (simp_all add: fs_rmdir_def Let_def)

lemma remove_empty_dirs_files [simp]:
  "names (snd (remove_empty_dirs n os d fs)) = names fs" "nodes (snd (remove_empty_dirs n os d fs)) = nodes fs"
proof (atomize (full), induction n arbitrary: d fs)
  case (Suc n)
  have "names (fold (\<lambda>e fs. snd (remove_empty_dirs n os e fs)) ds fs) = names fs"
    "nodes (fold (\<lambda>e fs. snd (remove_empty_dirs n os e fs)) ds fs) = nodes fs" for ds fs
    by (induction ds arbitrary: fs) (simp_all add: Suc)
  then show ?case by simp
qed simp

lemma rebase_back: "under b p \<Longrightarrow> rebase a b (rebase b a p) = p" "under b p \<Longrightarrow> under a (rebase b a p)"
  by (auto simp: under_iff rebase_def)

lemma fs_ok_move_names:
  assumes "fs_ok fs"
  shows "fs_ok (fs\<lparr>names := move_names a b (names fs), dirs := ds\<rparr>)"
proof -
  have old: "\<exists>q. fmlookup (names fs) q = Some i \<and> (if under b p then q = rebase b a p \<and> under a q else q = p \<and> \<not> under a q)"
    if "fmlookup (move_names a b (names fs)) p = Some i" for p i
    using that rebase_back(2) [of b p a] by (auto simp: move_names.rep_eq split: if_splits)
  have "p = q" if "fmlookup (move_names a b (names fs)) p = Some i" "fmlookup (move_names a b (names fs)) q = Some i" for p q i
    using old [OF that(1)] old [OF that(2)] fs_ok_inj [OF assms] rebase_back(1) by (metis (full_types))
  moreover have "i < length (nodes fs)" if "fmlookup (move_names a b (names fs)) p = Some i" for p i
    using old [OF that] fs_ok_less [OF assms] by blast
  ultimately show ?thesis by (auto simp: fs_ok_def)
qed

lemma grows_move:
  assumes "fs_ok fs" and "\<And>p. under a p \<or> under b p \<Longrightarrow> p \<in> S"
  shows "grows S fs (snd (fs_move os a b fs))"
proof -
  have "grows S fs (fs\<lparr>names := move_names a b (names fs), dirs := ds\<rparr>)" for ds
    using fs_ok_move_names [OF assms(1)] assms(2) by (auto simp: grows_def same_outside_def move_names.rep_eq)
  moreover have "grows S fs (snd (fs_rename os a b fs))"
    using assms by (intro grows_rename) (auto simp: under_def)
  ultimately show ?thesis using assms(1) by (auto simp: fs_move_def)
qed

text \<open>No path outside \<open>S\<close> refers to the node.\<close>

definition owned :: "string set \<Rightarrow> nat \<Rightarrow> fsys \<Rightarrow> bool" where
  "owned S i fs \<longleftrightarrow> (\<forall>r. r \<notin> S \<longrightarrow> fmlookup (names fs) r \<noteq> Some i)"

lemma owned_grows: "owned S i fs \<Longrightarrow> grows S fs fs' \<Longrightarrow> owned S i fs'"
  by (auto simp: owned_def grows_def same_outside_def)

lemma owned_named: "fs_ok fs \<Longrightarrow> fmlookup (names fs) p = Some i \<Longrightarrow> p \<in> S \<Longrightarrow> owned S i fs"
  using fs_ok_inj by (fastforce simp: owned_def)

lemma grows_nodes:
  assumes "fs_ok fs" and "owned S i fs"
  shows "grows S fs (fs\<lparr>nodes := (nodes fs)[i := n]\<rparr>)"
  using assms by (auto simp: grows_def same_outside_def owned_def fs_ok_def nth_list_update)

lemma grows_set_mtime: "fs_ok fs \<Longrightarrow> p \<in> S \<Longrightarrow> grows S fs (fs_set_mtime p t fs)"
  by (auto simp: fs_set_mtime_def intro: grows_nodes owned_named split: option.split)

lemma grows_create:
  assumes "fs_ok fs" and "p \<in> S" and "fs_create os p fs = (r, fs')"
  shows "grows S fs fs'" and "r = Inr i \<Longrightarrow> owned S i fs'"
proof -
  show g: "grows S fs fs'"
  proof (cases "can_create os p")
    case True
    from fs_create_result [OF assms(1) this assms(3)] have ok: "fs_ok fs'" by blast
    show ?thesis
    proof (cases "fmlookup (names fs) p")
      case None
      with assms True ok fs_ok_less [OF assms(1)] show ?thesis
        by (auto simp: fs_create_def grows_def same_outside_def nth_append)
    next
      case (Some i)
      with assms True grows_nodes [OF assms(1) owned_named [OF assms(1) Some assms(2)]] show ?thesis
        by (auto simp: fs_create_def)
    qed
  qed (use assms in \<open>auto simp: fs_create_def\<close>)
  show "owned S i fs'" if "r = Inr i"
  proof -
    have c: "can_create os p" using assms(3) that by (auto simp: fs_create_def split: if_splits)
    from fs_create_result [OF assms(1) c assms(3)] that have "fs_ok fs'" "fmlookup (names fs') p = Some i" by auto
    with assms(2) owned_named show ?thesis by blast
  qed
qed

lemma grows_write_node: "fs_ok fs \<Longrightarrow> owned S i fs \<Longrightarrow> grows S fs (fs_write_node os i pos b fs)"
  by (simp add: fs_write_node_def grows_nodes)

lemma grows_write_file:
  assumes "fs_ok fs" and "p \<in> S"
  shows "grows S fs (fs_write_file os p b fs)"
proof -
  obtain r fs' where c: "fs_create os p fs = (r, fs')" by fastforce
  note g = grows_create [OF assms c]
  show ?thesis
  proof (cases r)
    case (Inr i)
    have "grows S fs' (fs_write_node os i 0 b fs')"
      using g(1) g(2) [OF Inr] by (intro grows_write_node) (auto simp: grows_def)
    with g(1) grows_trans show ?thesis by (auto simp: fs_write_file_def c Inr)
  qed (use g in \<open>simp add: fs_write_file_def c\<close>)
qed

text \<open>A write job all of whose paths are in \<open>S\<close>, and whose open file has no name outside.\<close>

definition confined :: "string set \<Rightarrow> fsys \<Rightarrow> transfer_job \<Rightarrow> bool" where
  "confined S fs j \<longleftrightarrow> tj_type j = Generic
     \<and> (\<exists>p. tj_source j = FilePath p \<and> (\<forall>e \<in> set (tj_files j). trio (job_join p (fe_name e)) \<subseteq> S))
     \<and> (\<forall>i pos. data_stream j = Some (FileStream i pos) \<longrightarrow> owned S i fs)"

lemma confined_grows: "confined S fs j \<Longrightarrow> grows S fs fs' \<Longrightarrow> confined S fs' j"
  using owned_grows by (fastforce simp: confined_def)

lemma confined_path:
  assumes "confined S fs j" and "current_path j = Some q"
  shows "trio q \<subseteq> S"
  using assms nth_mem by (fastforce simp: confined_def current_path_def Let_def split: if_splits)

lemma grows_modify_time:
  assumes "fs_ok fs" and "confined S fs j"
  shows "grows S fs (modify_time os j fs)"
proof (cases "current_path j")
  case (Some q)
  have q: "q \<in> S" "q @ ''.download'' \<in> S" "q @ ''.digest'' \<in> S"
    using confined_path [OF assms(2) Some] by (auto simp: trio_def)
  let ?f1 = "snd (fs_remove os (q @ ''.digest'') fs)" and ?f2 = "\<lambda>f. snd (fs_rename os (q @ ''.download'') q f)"
  have g1: "grows S fs ?f1" using grows_remove [OF assms(1) q(3)] .
  then have ok1: "fs_ok ?f1" by (simp add: grows_def)
  have g2: "grows S ?f1 (?f2 ?f1)" using grows_rename [OF ok1 q(2,1)] .
  then have ok2: "fs_ok (?f2 ?f1)" by (simp add: grows_def)
  have "grows S (?f2 ?f1) (fs_set_mtime q t (?f2 ?f1))" for t using grows_set_mtime [OF ok2 q(1)] .
  with g1 g2 grows_trans have "grows S fs (fs_set_mtime q t (?f2 ?f1))" for t by blast
  then show ?thesis using assms(1) by (simp add: modify_time_def Some Let_def)
qed (simp add: modify_time_def assms(1))

lemma grows_remove_download:
  assumes "fs_ok fs" and "confined S fs j"
  shows "grows S fs (remove_download_file os j fs)"
proof (cases "current_path j")
  case (Some q)
  have q: "q @ ''.download'' \<in> S" "q @ ''.digest'' \<in> S"
    using confined_path [OF assms(2) Some] by (auto simp: trio_def)
  have g1: "grows S fs (snd (fs_remove os (q @ ''.download'') fs))" using grows_remove [OF assms(1) q(1)] .
  then have "fs_ok (snd (fs_remove os (q @ ''.download'') fs))" by (simp add: grows_def)
  from grows_trans [OF g1 grows_remove [OF this q(2)]] show ?thesis
    using assms(1) by (simp add: remove_download_file_def Some Let_def)
qed (simp add: remove_download_file_def assms(1))

lemma confined_cong:
  assumes "confined S fs j" and "tj_type j' = tj_type j" and "tj_source j' = tj_source j" and "tj_files j' = tj_files j"
    and "\<And>i pos. data_stream j' = Some (FileStream i pos) \<Longrightarrow> owned S i fs"
  shows "confined S fs j'"
  using assms by (auto simp: confined_def)

lemma grows_remove_digest:
  "fs_ok fs \<Longrightarrow> (\<And>p. dp = Some p \<Longrightarrow> p \<in> S) \<Longrightarrow> grows S fs (snd (remove_digest os dp fs))"
  by (auto simp: remove_digest_def grows_remove split: option.split)

lemma grows_open_for_write:
  assumes "fs_ok fs" and "confined S fs j" and "tj_source j = FilePath p" and "as_usize bn < length (tj_files j)"
    and "open_for_write os dj p bn (j, fs) = (r, j', fs')"
  shows "grows S fs fs' \<and> confined S fs' j'"
proof -
  define q where "q = job_join p (fe_name (tj_files j ! as_usize bn))"
  define j1 where "j1 = j\<lparr>file_num := bn\<rparr>"
  have t: "tj_type j = Generic" using assms(2) by (simp add: confined_def)
  have "trio q \<subseteq> S" using assms(2-4) nth_mem unfolding confined_def q_def by fastforce
  then have q: "q @ ''.download'' \<in> S" "q @ ''.digest'' \<in> S" by (auto simp: trio_def)
  define fs0 where "fs0 = modify_time os j fs"
  define fs1 where "fs1 = create_parent os j1 q fs0"
  have g0: "grows S fs fs0" unfolding fs0_def by (rule grows_modify_time [OF assms(1,2)])
  then have "grows S fs0 fs1" unfolding fs1_def by (intro grows_files) (simp_all add: grows_def)
  with g0 have g1: "grows S fs fs1" by (rule grows_trans)
  then have ok1: "fs_ok fs1" by (simp add: grows_def)
  obtain r2 fs2 where d: "remove_digest os (Some (q @ ''.digest'')) fs1 = (r2, fs2)" by fastforce
  have "grows S fs1 fs2" using grows_remove_digest [OF ok1, of "Some (q @ ''.digest'')" S os] q(2) d by simp
  with g1 have g2: "grows S fs fs2" by (rule grows_trans)
  then have ok2: "fs_ok fs2" by (simp add: grows_def)
  obtain r3 fs3 where c: "fs_create os (q @ ''.download'') fs2 = (r3, fs3)" by fastforce
  note cr = grows_create [OF ok2 q(1) c]
  have g3: "grows S fs fs3" by (rule grows_trans [OF g2 cr(1)])
  then have ok3: "fs_ok fs3" by (simp add: grows_def)
  define fs4 where "fs4 = fs_write_file os (q @ ''.digest'') (dj (digest j)) fs3"
  have g34: "grows S fs3 fs4" unfolding fs4_def by (rule grows_write_file [OF ok3 q(2)])
  have j1: "confined S f j1" if "grows S fs f" for f
    using confined_grows [OF assms(2) that] by (simp add: j1_def confined_def)
  have eq: "open_for_write os dj p bn (j, fs) =
      (if \<not> sync_stream os (data_stream j) then (Inl (FsErr ''sync''), j, fs0)
       else case (r2, fs2) of (Inl e, fs) \<Rightarrow> (Inl e, j1, fs)
          | (Inr _, fs) \<Rightarrow> (case (r3, fs3) of (Inl e, fs) \<Rightarrow> (Inl e, j1, fs)
              | (Inr i, fs) \<Rightarrow> (Inr (), j1\<lparr>data_stream := Some (FileStream i 0)\<rparr>, fs4)))"
    using t
    by (simp add: open_for_write_def Let_def digest_path_def fs0_def [symmetric] q_def j1_def fs4_def
        d [unfolded fs1_def j1_def q_def] c [unfolded q_def] split: sum.split)
  have "confined S fs4 (j1\<lparr>data_stream := Some (FileStream i 0)\<rparr>)" if "r3 = Inr i" for i
    using owned_grows [OF cr(2) [OF that] g34] j1 [OF grows_trans [OF g3 g34]] by (simp add: confined_def)
  with eq assms(5) g0 g2 g3 grows_trans [OF g3 g34] j1 confined_grows [OF assms(2)] show ?thesis
    by (auto split: if_splits sum.splits)
qed

lemma grows_job_write:
  assumes "fs_ok fs" and "confined S fs j" and "job_write os Z dj blk (j, fs) = (r, j', fs')"
  shows "grows S fs fs' \<and> confined S fs' j'"
proof -
  obtain p where src: "tj_source j = FilePath p" using assms(2) by (auto simp: confined_def)
  define opened where "opened =
     (if as_usize (b_file_num blk) \<noteq> as_usize (file_num j) \<or> data_stream j = None
      then open_for_write os dj p (b_file_num blk) (j, fs) else (Inr (), j, fs))"
  obtain r1 j1 fs1 where o: "opened = (r1, j1, fs1)" by (metis prod_cases3)
  show ?thesis
  proof (cases "b_id blk \<noteq> tj_id j \<or> as_usize (b_file_num blk) \<ge> length (tj_files j)")
    case True
    then have "job_write os Z dj blk (j, fs) = (r, j, fs)"
      using assms(3) src by (cases "b_id blk = tj_id j") (auto simp: job_write_def)
    with assms show ?thesis by simp
  next
    case False
    then have lt: "as_usize (b_file_num blk) < length (tj_files j)" by simp
    have gc: "grows S fs fs1 \<and> confined S fs1 j1"
    proof (cases "as_usize (b_file_num blk) \<noteq> as_usize (file_num j) \<or> data_stream j = None")
      case True
      with o have "open_for_write os dj p (b_file_num blk) (j, fs) = (r1, j1, fs1)" by (simp add: opened_def)
      from grows_open_for_write [OF assms(1,2) src lt this] show ?thesis .
    next
      case False
      with o assms(1,2) show ?thesis by (auto simp: opened_def)
    qed
    then have g1: "grows S fs fs1" and c1: "confined S fs1 j1" by simp_all
    have ok1: "fs_ok fs1" using g1 by (simp add: grows_def)
    let ?b = "if b_compressed blk then decompress Z (b_data blk) else b_data blk"
    have eq: "job_write os Z dj blk (j, fs) =
       (case r1 of Inl e \<Rightarrow> (Inl e, j1, fs1)
        | Inr _ \<Rightarrow> (case data_stream j1 of
                     None \<Rightarrow> (Inl (FsErr ''file is None''), j1, fs1)
                   | Some ds \<Rightarrow> (case stream_write os ?b ds fs1 of
                          (Inl e, fs) \<Rightarrow> (Inl e, j1, fs)
                        | (Inr ds, fs) \<Rightarrow>
                            (Inr (), j1\<lparr>data_stream := Some ds,
                                finished_size := finished_size j1 + word_of_nat (length ?b),
                                transferred := transferred j1 + word_of_nat (length (b_data blk))\<rparr>, fs))))"
      using False src o by (cases r1) (auto simp: job_write_def Let_def opened_def split: if_splits)
    show ?thesis
    proof (cases "data_stream j1")
      case None
      with eq assms(3) g1 c1 show ?thesis by (auto split: sum.splits)
    next
      case (Some ds)
      obtain rw fs2 where w: "stream_write os ?b ds fs1 = (rw, fs2)" by fastforce
      have g2: "grows S fs1 fs2 \<and> (\<forall>i pos. rw = Inr (FileStream i pos) \<longrightarrow> owned S i fs2)"
      proof (cases ds)
        case (FileStream i pos)
        with c1 Some have "owned S i fs1" by (auto simp: confined_def)
        with w FileStream ok1 grows_write_node [OF ok1, of S i os pos ?b] owned_grows show ?thesis
          by (auto simp: stream_write_def split: if_splits)
      qed (use w ok1 in \<open>auto simp: stream_write_def\<close>)
      have "confined S fs2 j1" using confined_grows [OF c1] g2 by blast
      then have "confined S fs2 (j1\<lparr>data_stream := Some ds', finished_size := x, transferred := y\<rparr>)" if "rw = Inr ds'" for ds' x y
        using g2 that by (auto simp: confined_def)
      with eq assms(3) g1 g2 c1 \<open>confined S fs2 j1\<close> grows_trans [OF g1] show ?thesis
        by (auto simp: Some w split: sum.splits)
    qed
  qed
qed

section \<open>Runs of requests\<close>

text \<open>The requests of one connection in order; a panic ends its task.\<close>

fun cm_run :: "cm_env \<Rightarrow> fs_request list \<Rightarrow> cm \<Rightarrow> fs_error + cm" where
  "cm_run E [] s = Inr s"
| "cm_run E (r # rs) s = (case handle_fs E r s of Inl e \<Rightarrow> Inl e | Inr s \<Rightarrow> cm_run E rs s)"

definition cm_inv :: "string set \<Rightarrow> cm \<Rightarrow> bool" where
  "cm_inv S s \<longleftrightarrow> fs_ok (cm_fs s) \<and> (\<forall>j \<in> set (write_jobs s). confined S (cm_fs s) j)"

lemma get_job_in: "get_job i js = Some j \<Longrightarrow> j \<in> set js"
  by (auto simp: get_job_def find_Some_iff)

lemma set_remove_job: "remove_job i js = (r, js') \<Longrightarrow> set js' \<subseteq> set js \<and> (\<forall>j. r = Some j \<longrightarrow> j \<in> set js)"
  by (induction js arbitrary: r js') (auto split: if_splits prod.splits)

lemma set_update_job: "j' \<in> set (update_job i f js) \<Longrightarrow> j' \<in> set js \<or> (\<exists>j \<in> set js. get_job i js = Some j \<and> j' = f j)"
  by (induction js) (auto simp: get_job_def split: if_splits)

lemma cm_inv_fs:
  assumes "cm_inv S s" and "grows S (cm_fs s) fs" and "set js \<subseteq> set (write_jobs s)"
    and "write_jobs s' = js" and "cm_fs s' = fs"
  shows "cm_inv S s'"
proof -
  have "fs_ok fs" using assms(2) by (simp add: grows_def)
  moreover have "confined S fs j" if "j \<in> set js" for j
    using that assms(1,3) by (intro confined_grows [OF _ assms(2)]) (auto simp: cm_inv_def)
  ultimately show ?thesis by (simp add: cm_inv_def assms(4,5))
qed

lemma cm_inv_update:
  assumes "cm_inv S s" and "grows S (cm_fs s) fs" and "\<And>j. get_job i (write_jobs s) = Some j \<Longrightarrow> confined S fs (f j)"
  shows "cm_inv S (s\<lparr>write_jobs := update_job i f (write_jobs s), cm_fs := fs\<rparr>)"
proof -
  have "fs_ok fs" using assms(2) by (simp add: grows_def)
  moreover have "confined S fs j" if "j \<in> set (update_job i f (write_jobs s))" for j
    using set_update_job [OF that]
  proof
    assume "j \<in> set (write_jobs s)"
    with assms(1) show ?thesis by (intro confined_grows [OF _ assms(2)]) (auto simp: cm_inv_def)
  qed (use assms(3) in blast)
  ultimately show ?thesis by (simp add: cm_inv_def)
qed

lemma cm_send_raw_fields [simp]:
  "write_jobs (cm_send_raw m s) = write_jobs s" "cm_fs (cm_send_raw m s) = cm_fs s" "cm_inv S (cm_send_raw m s) = cm_inv S s"
  by (simp_all add: cm_send_raw_def cm_inv_def)

lemma confirm_confined:
  assumes "fs_ok fs" and "confined S fs j" and "confirm os fs r j = Inr j'"
  shows "confined S fs j'"
proof -
  obtain p where p: "tj_source j = FilePath p" "\<And>e. e \<in> set (tj_files j) \<Longrightarrow> trio (job_join p (fe_name e)) \<subseteq> S"
    using assms(2) by (auto simp: confined_def)
  have off: "confined S fs k'" if k: "confined S fs k" "tj_source k = FilePath p" "tj_files k = tj_files j"
    and o: "set_stream_offset os fs n x k = Inr k'" for k k' n x
  proof (cases "n < length (tj_files j)")
    case True
    let ?q = "job_join p (fe_name (tj_files j ! n))"
    have q: "?q \<in> S" "?q @ ''.download'' \<in> S" using p(2) nth_mem [OF True] by (fastforce simp: trio_def)+
    have "owned S i fs" if "fs_open os ?q fs = Inr i" for i
      using that owned_named [OF assms(1) _ q(1)] by (auto simp: fs_open_def split: option.splits if_splits)
    moreover have "owned S i fs" if "fs_open_write os (?q @ ''.download'') fs = Inr i" for i
      using that owned_named [OF assms(1) _ q(2)] by (auto simp: fs_open_write_def split: option.splits if_splits)
    ultimately show ?thesis
      using k o True by (auto simp: set_stream_offset_def confined_def Let_def split: if_splits sum.splits)
  qed (use k o in \<open>auto simp: set_stream_offset_def\<close>)
  have "confined S fs (set_file_confirmed b j)" "confined S fs (set_file_skipped j)" for b
    using assms(2) by (auto simp: set_file_confirmed_def set_file_skipped_def confined_def Let_def)
  with off [of "set_file_confirmed True j"] p(1) assms(2,3) show ?thesis
    by (auto simp: confirm_def set_file_confirmed_def Let_def split: if_splits option.splits confirm_union.splits)
qed

text \<open>The paths an accepted upload may use, and those a request to remove or rename names.\<close>

definition upload_paths :: "bool \<Rightarrow> fs_request \<Rightarrow> string set" where
  "upload_paths w r =
     (case r of
        NewWrite p i n fl d t c \<Rightarrow>
          if validate_transfer_file_names w fl = Inr () then \<Union>f \<in> set fl. trio (job_join p (fst f)) else {}
      | RemoveFile p i n \<Rightarrow> {p}
      | Rename i p n \<Rightarrow>
          if n \<noteq> [] \<and> validate_file_name_no_traversal w n = Inr ()
          then {q. under (strip_slashes p) q
                  \<or> (\<exists>d. parent_dir p = Some d \<and> under (strip_slashes (path_join d n)) q)} else {}
      | _ \<Rightarrow> {})"

lemma send_result_inv:
  assumes "cm_inv S s" and "grows S (cm_fs s) (snd res)"
  shows "cm_inv S (send_result res i n s) \<and> grows S (cm_fs s) (cm_fs (send_result res i n s))"
proof -
  obtain r fs where res: "res = (r, fs)" by (cases res)
  have "cm_inv S (s\<lparr>cm_fs := fs\<rparr>)" by (rule cm_inv_fs [OF assms(1)]) (use assms(2) res in auto)
  with assms(2) show ?thesis by (simp add: send_result_def res)
qed

lemma rename_inv:
  assumes "fs_ok fs" and "upload_paths w (Rename i p n) \<subseteq> S" and "n \<noteq> []" and "validate_file_name_no_traversal w n = Inr ()"
  shows "grows S fs (snd (rename_file os p n fs))"
proof (cases "parent_dir p")
  case (Some d)
  have "grows S fs (snd (fs_move os (strip_slashes p) (strip_slashes (path_join d n)) fs))"
    using assms Some by (intro grows_move) (auto simp: upload_paths_def)
  with assms(1) show ?thesis by (simp add: rename_file_def rename_target_def Some Let_def)
qed (use assms(1) in \<open>simp add: rename_file_def rename_target_def Let_def\<close>)

lemma handle_fs_inv:
  assumes "cm_inv S s" and "handle_fs E r s = Inr s'" and "upload_paths (env_windows E) r \<subseteq> S"
  shows "cm_inv S s' \<and> grows S (cm_fs s) (cm_fs s')"
proof -
  have ok: "fs_ok (cm_fs s)" and conf: "\<And>j. j \<in> set (write_jobs s) \<Longrightarrow> confined S (cm_fs s) j"
    using assms(1) by (auto simp: cm_inv_def)
  show ?thesis
  proof (cases r)
    case (NewWrite p i n fl d t c)
    show ?thesis
    proof (cases "validate_transfer_file_names (env_windows E) fl")
      case (Inr u)
      with assms(3) NewWrite have "\<And>x a b. (a, b) \<in> set fl \<Longrightarrow> x \<in> trio (job_join p a) \<Longrightarrow> x \<in> S"
        by (fastforce simp: upload_paths_def)
      with assms(1,2) NewWrite Inr ok show ?thesis
        by (auto simp: handle_new_write_def cm_inv_def confined_def new_write_def transfer_job_default_def Let_def)
    qed (use assms(1,2) NewWrite ok in \<open>auto simp: handle_new_write_def\<close>)
  next
    case (CancelWrite i)
    obtain jo js where rm: "remove_job i (write_jobs s) = (jo, js)" by fastforce
    note st = set_remove_job [OF rm]
    show ?thesis
    proof (cases jo)
      case (Some j)
      have g: "grows S (cm_fs s) (remove_download_file (env_os E) j (cm_fs s))"
        using grows_remove_download [OF ok conf] st Some by simp
      with cm_inv_fs [OF assms(1) g] st assms(2) CancelWrite rm Some show ?thesis
        by (auto simp: handle_cancel_write_def)
    qed (use assms(1,2) CancelWrite rm ok in \<open>auto simp: handle_cancel_write_def\<close>)
  next
    case (WriteDone i n)
    obtain jo js where rm: "remove_job i (write_jobs s) = (jo, js)" by fastforce
    note st = set_remove_job [OF rm]
    show ?thesis
    proof (cases jo)
      case (Some j)
      have g: "grows S (cm_fs s) (modify_time (env_os E) j (cm_fs s))"
        using grows_modify_time [OF ok conf] st Some by simp
      with cm_inv_fs [OF assms(1) g] st assms(2) WriteDone rm Some show ?thesis
        by (auto simp: handle_write_done_def)
    qed (use assms(1,2) WriteDone rm ok in \<open>auto simp: handle_write_done_def\<close>)
  next
    case (WriteError i n err)
    obtain jo js where rm: "remove_job i (write_jobs s) = (jo, js)" by fastforce
    note st = set_remove_job [OF rm]
    with cm_inv_fs [OF assms(1) grows_refl [OF ok]] assms(1,2) WriteError rm ok show ?thesis
      by (auto simp: handle_write_error_def split: option.splits)
  next
    case (WriteBlock i n data pk)
    show ?thesis
    proof (cases "get_job i (write_jobs s)")
      case (Some j)
      obtain res j' fs where w: "job_write (env_os E) (env_zstd E) (digest_json E)
          \<lparr>b_id = i, b_file_num = n, b_data = data, b_compressed = pk\<rparr> (j, cm_fs s) = (res, j', fs)" by (metis prod_cases3)
      from grows_job_write [OF ok conf [OF get_job_in [OF Some]] w]
      have g: "grows S (cm_fs s) fs" and c: "confined S fs j'" by simp_all
      from cm_inv_update [OF assms(1) g, of i "\<lambda>_. j'"] c g assms(2) WriteBlock Some w show ?thesis
        by (auto simp: handle_write_block_def Let_def split: sum.splits)
    qed (use assms(1,2) WriteBlock ok in \<open>auto simp: handle_write_block_def\<close>)
  next
    case (CheckDigest i n sz m up res)
    have "cm_inv S (s\<lparr>write_jobs := update_job i (set_digest sz m) (write_jobs s), cm_fs := cm_fs s\<rparr>)"
      by (rule cm_inv_update [OF assms(1) grows_refl [OF ok]])
        (use conf get_job_in in \<open>fastforce simp: confined_def set_digest_def\<close>)
    with assms(1,2) CheckDigest ok show ?thesis
      by (auto simp: handle_check_digest_def Let_def split: option.splits if_splits data_source.splits digest_check.splits)
  next
    case (SendConfirm r)
    show ?thesis
    proof (cases "get_job (sc_id r) (write_jobs s)")
      case (Some j)
      obtain j' where c: "confirm (env_os E) (cm_fs s) r j = Inr j'"
        and s': "s' = s\<lparr>write_jobs := update_job (sc_id r) (\<lambda>_. j') (write_jobs s), cm_fs := cm_fs s\<rparr>"
        using assms(2) SendConfirm Some by (auto simp: handle_send_confirm_def split: sum.splits)
      have "confined S (cm_fs s) j'" by (rule confirm_confined [OF ok conf [OF get_job_in [OF Some]] c])
      with cm_inv_update [OF assms(1) grows_refl [OF ok]] ok show ?thesis by (simp add: s')
    qed (use assms(1,2) SendConfirm ok in \<open>auto simp: handle_send_confirm_def\<close>)
  next
    case (RemoveDir p i rc)
    have "grows S (cm_fs s) (snd (if rc then remove_empty_dirs n os q (cm_fs s) else fs_rmdir os p (cm_fs s)))"
      for n os q by (rule grows_files [OF ok]) simp_all
    with send_result_inv [OF assms(1)] assms(2) RemoveDir show ?thesis by (simp add: handle_remove_dir_def) blast
  next
    case (RemoveFile p i n)
    then have "p \<in> S" using assms(3) by (simp add: upload_paths_def)
    with send_result_inv [OF assms(1) grows_remove [OF ok]] assms(2) RemoveFile show ?thesis by auto
  next
    case (CreateDir p i)
    have "grows S (cm_fs s) (snd (fs_create_dir_all (env_os E) p (cm_fs s)))" by (rule grows_files [OF ok]) simp_all
    from send_result_inv [OF assms(1) this] assms(2) CreateDir show ?thesis by auto
  next
    case (Rename i p n)
    have "grows S (cm_fs s) (snd (if n = [] then (Inl (FsErr ''new file name cannot be empty''), cm_fs s)
        else case validate_file_name_no_traversal (env_windows E) n of
               Inl e \<Rightarrow> (Inl e, cm_fs s) | Inr _ \<Rightarrow> rename_file (env_os E) p n (cm_fs s)))"
      using ok rename_inv [OF ok assms(3) [unfolded Rename]] by (auto split: sum.split)
    with send_result_inv [OF assms(1)] assms(2) Rename show ?thesis by (simp add: handle_rename_def) blast
  next
    case (ReadEmptyDirs d h)
    with assms(1,2) ok show ?thesis by (auto simp: handle_read_empty_dirs_def cm_inv_def split: sum.splits)
  next
    case (ReadDir d h)
    with assms(1,2) ok show ?thesis by (auto simp: handle_read_dir_def split: sum.splits)
  next
    case (ReadAllFiles p i h c)
    with assms(1,2) ok show ?thesis by (auto simp: read_all_files_def cm_inv_def)
  qed (use assms(1,2) ok in \<open>auto simp: cm_inv_def start_read_job_def handle_confirm_for_read_def
        split: sum.splits if_splits option.splits\<close>)
qed

lemma cm_run_inv:
  assumes "cm_inv S s" and "cm_run E rs s = Inr s'" and "\<And>r. r \<in> set rs \<Longrightarrow> upload_paths (env_windows E) r \<subseteq> S"
  shows "grows S (cm_fs s) (cm_fs s')"
  using assms
proof (induction rs arbitrary: s)
  case Nil
  then show ?case by (simp add: cm_inv_def)
next
  case (Cons r rs)
  obtain s1 where s1: "handle_fs E r s = Inr s1" "cm_run E rs s1 = Inr s'"
    using Cons.prems(2) by (auto split: sum.splits)
  from handle_fs_inv [OF Cons.prems(1) s1(1)] Cons.prems(3) have "cm_inv S s1" "grows S (cm_fs s) (cm_fs s1)" by auto
  with Cons.IH [OF _ s1(2)] Cons.prems(3) grows_trans show ?case by fastforce
qed

section \<open>Properties\<close>

lemma validate_names_each:
  "validate_names w fl = Inr () \<Longrightarrow> f \<in> set fl \<Longrightarrow> fst f \<noteq> [] \<and> validate_file_name_no_traversal w (fst f) = Inr ()"
  by (induction w fl rule: validate_names.induct) (auto split: if_splits sum.splits)

lemma renamed_inside:
  assumes "validate_file_name_no_traversal w n = Inr ()" and "n \<noteq> []"
  shows "inside d (path_join d n)"
  using checked_inside [OF assms, of "path_join d n" d] assms(2) by (simp add: trio_def job_join_def)

text \<open>
  C3. Uploads stay in their directory: whatever requests a peer sends, in any order and with any
  failures of the file system, a path whose file changes, appears or disappears
  lies inside the directory of an upload that was requested and whose file names passed the check, reached
  without a parent component; or is the single file (or its temporary files) that was requested by its full
  path; or it is the path of a \<open>RemoveFile\<close> request; or it is or lies below the path of a \<open>Rename\<close> request, or
  the path that request gives it, which is inside the directory the renamed path was in. (Creating and
  removing directories changes no file; the symbolic links that a recursive removal also deletes are not
  represented.)
\<close>

theorem uploads_contained:
  assumes "fs_ok (cm_fs s)" and "write_jobs s = []" and "cm_run E rs s = Inr s'"
    and "fs_node (cm_fs s') r \<noteq> fs_node (cm_fs s) r"
  shows "(\<exists>p i n fl d t c. NewWrite p i n fl d t c \<in> set rs \<and> validate_transfer_file_names (env_windows E) fl = Inr ()
      \<and> (inside p r \<or> is_single_file_with_empty_name fl \<and> r \<in> trio p))
    \<or> (\<exists>i n. RemoveFile r i n \<in> set rs)
    \<or> (\<exists>i p n. Rename i p n \<in> set rs \<and> validate_file_name_no_traversal (env_windows E) n = Inr ()
        \<and> (under (strip_slashes p) r
          \<or> (\<exists>d. parent_dir p = Some d \<and> inside d (path_join d n) \<and> under (strip_slashes (path_join d n)) r)))"
proof -
  let ?S = "\<Union>q \<in> set rs. upload_paths (env_windows E) q"
  have "cm_inv ?S s" using assms(1,2) by (simp add: cm_inv_def)
  from cm_run_inv [OF this assms(3)] have "grows ?S (cm_fs s) (cm_fs s')" by blast
  with assms(4) grows_node have "r \<in> ?S" by blast
  then obtain q where q: "q \<in> set rs" "r \<in> upload_paths (env_windows E) q" by blast
  show ?thesis
  proof (cases q)
    case nw: (NewWrite p i n fl d t c)
    with q(2) have v: "validate_transfer_file_names (env_windows E) fl = Inr ()"
      by (auto simp: upload_paths_def split: if_splits)
    with nw q(2) obtain f where f: "f \<in> set fl" "r \<in> trio (job_join p (fst f))" by (auto simp: upload_paths_def)
    have "inside p r \<or> is_single_file_with_empty_name fl \<and> r \<in> trio p"
    proof (cases "is_single_file_with_empty_name fl")
      case True
      then have "fst f = []" using f(1) by (cases fl) (auto simp: is_single_file_with_empty_name_def)
      with f(2) True show ?thesis by (simp add: job_join_def)
    next
      case False
      with v f(1) have "fst f \<noteq> []" "validate_file_name_no_traversal (env_windows E) (fst f) = Inr ()"
        using validate_names_each by (auto simp: validate_transfer_file_names_def)
      with f(2) checked_inside show ?thesis by blast
    qed
    with q(1) nw v show ?thesis by blast
  next
    case (Rename i p n)
    with q(2) have v: "validate_file_name_no_traversal (env_windows E) n = Inr ()" "n \<noteq> []"
      by (auto simp: upload_paths_def split: if_splits)
    with Rename q(2) renamed_inside [OF v] have "under (strip_slashes p) r
        \<or> (\<exists>d. parent_dir p = Some d \<and> inside d (path_join d n) \<and> under (strip_slashes (path_join d n)) r)"
      by (auto simp: upload_paths_def)
    with q(1) Rename v(1) show ?thesis by blast
  qed (use q in \<open>auto simp: upload_paths_def\<close>)
qed

definition demo_env :: cm_env where
  "demo_env = \<lparr>env_os = demo_os, env_zstd = demo_zstd, digest_json = (\<lambda>_. []), digest_parse = (\<lambda>_. None),
     listing = (\<lambda>_ _. Inr []), dir_listing = (\<lambda>d _. Inr (d, [])), empty_dirs_listing = (\<lambda>_ _. Inr []), home_dir = ''/root'', env_windows = False, max_files_option = []\<rparr>"

definition demo_cm :: cm where
  "demo_cm = \<lparr>write_jobs = [], read_jobs = [], cm_fs = empty_fs, cm_out = []\<rparr>"

definition demo_requests :: "fs_request list" where
  "demo_requests = [NewWrite ''d'' 4 0 [(''a'', 5)] False 1 0, WriteBlock 4 0 [9] False, WriteDone 4 0]"

lemma demo_requests_run:
  "\<exists>s'. cm_run demo_env demo_requests demo_cm = Inr s' \<and> fs_node (cm_fs s') ''d/a'' = Some \<lparr>f_data = [9], f_mtime = (5, 0)\<rparr>"
proof -
  let ?fl = "[\<lparr>fe_name = ''a'', fe_size = 0, fe_modified_time = 5\<rparr>]"
  let ?j = "(new_write 4 Generic [] (FilePath ''d'') 0 False False ?fl False)\<lparr>total_size := 1, tj_conn_id := 0\<rparr>"
  let ?b = "\<lparr>b_id = 4, b_file_num = 0, b_data = [9], b_compressed = False\<rparr>"
  have v: "validate_transfer_file_names False [(''a'', 5)] = Inr ()" by code_simp
  have r: "receiver 4 ''d'' ?fl ?j" "data_stream ?j = None"
    by (simp_all add: receiver_def new_write_def transfer_job_default_def)
  obtain j fs where w: "job_write demo_os demo_zstd (\<lambda>_. []) ?b (?j, empty_fs) = (Inr (), j, fs)"
    "receiver 4 ''d'' ?fl j" "partial_file ''d'' ?fl 0 [9] j fs"
    using write_new_file [OF demo_os_ok(1) r(1) demo_os_ok(3), of 0 ?b demo_zstd "\<lambda>_. []"] r(2) by (auto simp: decoded_def)
  have run: "cm_run demo_env demo_requests demo_cm = Inr (cm_send_raw (MsgDone 4 0)
      (demo_cm\<lparr>cm_fs := modify_time demo_os j fs\<rparr>))"
    using v w(1,2)
    by (simp add: demo_requests_def demo_env_def demo_cm_def handle_new_write_def handle_write_block_def get_job_def
        handle_write_done_def receiver_def new_write_def transfer_job_default_def)
  have "apart ''d'' ?fl" by (simp add: apart_def)
  from finish_arrived [where cont = "\<lambda>_. [9]" and k = 0, OF demo_os_ok(1) w(2,3) _ this]
  have "arrived ''d'' ?fl (\<lambda>_. [9]) 1 (modify_time demo_os j fs)" by (simp add: arrived_def)
  moreover have "target ''d'' ?fl 0 = ''d/a''" by (simp add: target_def job_join_def path_join_def starts_with_def)
  ultimately show ?thesis by (simp add: run arrived_def)
qed

theorem uploads_contained_witness: "inside ''d'' ''d/a''"
proof -
  obtain s' where s': "cm_run demo_env demo_requests demo_cm = Inr s'"
    "fs_node (cm_fs s') ''d/a'' = Some \<lparr>f_data = [9], f_mtime = (5, 0)\<rparr>" using demo_requests_run by blast
  have "fs_ok (cm_fs demo_cm)" "write_jobs demo_cm = []" using demo_os_ok(3) by (simp_all add: demo_cm_def)
  moreover have "fs_node (cm_fs demo_cm) ''d/a'' = None" by (simp add: demo_cm_def empty_fs_def fs_node_def)
  ultimately show ?thesis
    using uploads_contained [OF _ _ s'(1), of "''d/a''"] s'(2)
    by (auto simp: demo_requests_def is_single_file_with_empty_name_def)
qed

lemma get_job_append: "get_job i js = None \<Longrightarrow> get_job i (js @ ks) = get_job i ks"
  by (induction js) (auto simp: get_job_def split: if_splits)

text \<open>
  A confirmation can end the task of the connection manager: the file number of an upload is
  taken from the peer unchecked, and a confirmation with that number and an offset indexes the
  list of files with it, so two requests suffice for a panic.
\<close>

theorem confirm_out_of_range:
  assumes "validate_transfer_file_names (env_windows E) fl = Inr ()" and "get_job i (write_jobs s) = None"
    and "length fl \<le> as_usize n" and "0 < off"
  shows "cm_run E [NewWrite p i n fl d t c, SendConfirm \<lparr>sc_id = i, sc_file_num = n, sc_union = Some (OffsetBlk off)\<rparr>] s
    = Inl FsPanic"
proof -
  have "get_job i (write_jobs s @ [j]) = Some j" if "tj_id j = i" for j
    using that get_job_append [OF assms(2)] by (simp add: get_job_def)
  then show ?thesis
    using assms by (simp add: handle_new_write_def handle_send_confirm_def confirm_def set_file_confirmed_def
        set_stream_offset_def new_write_def transfer_job_default_def Let_def)
qed

theorem confirm_out_of_range_witness:
  "cm_run demo_env [NewWrite ''d'' 4 7 [(''a'', 5)] False 1 0,
      SendConfirm \<lparr>sc_id = 4, sc_file_num = 7, sc_union = Some (OffsetBlk 1)\<rparr>] demo_cm = Inl FsPanic"
proof -
  have "validate_transfer_file_names (env_windows demo_env) [(''a'', 5)] = Inr ()" by code_simp
  then show ?thesis
    by (rule confirm_out_of_range) (simp_all add: demo_cm_def get_job_def as_usize_def)
qed

text \<open>How a message of the network stream looks on the channel to the connection.\<close>

fun cm_view :: "int \<Rightarrow> file_msg \<Rightarrow> cm_msg" where
  "cm_view conn (MsgError i e n) = FileReadError i n e conn"
| "cm_view conn (MsgBlock b) = FileBlockFromCM b conn"
| "cm_view conn (MsgDone i n) = FileReadDone i n conn"
| "cm_view conn (MsgDigest d) = FileDigestFromCM (td_job d) (td_file_num d) (td_last_modified d) (td_file_size d) (td_is_resume d) conn"
| "cm_view conn m = Raw m"

lemma init_for_cm:
  assumes "init_data_stream (env_os E) fs j = (Inr (), j', ms)"
  shows "init_read_job_for_cm E conn fs j = (Inr (), j', map (cm_view conn) ms)"
  using assms
  by (auto simp: init_data_stream_def init_read_job_for_cm_def init_data_stream_for_cm_def digest_msg_def
      split: sum.splits prod.splits bool.splits if_splits)

text \<open>
  The two copies of the sending loop agree, as their comments demand: for a job that opens its
  file and reads without error, the connection manager and the connection send the same
  digests, blocks and final messages, and leave the same list of jobs.
\<close>

theorem cm_tick_mirrors:
  assumes "read_jobs s = [j]" and "init_data_stream (env_os E) (cm_fs s) j = (Inr (), j1, ms)"
    and "job_read (env_os E) (env_zstd E) (cm_fs s) j1 = (Inr b, j2)"
    and "handle_read_jobs (env_os E) (env_zstd E) (cm_fs s) [j] = (js, out)"
    and "handle_read_jobs_tick E conn s = s'"
  shows "read_jobs s' = js \<and> cm_out s' = cm_out s @ map (cm_view conn) out \<and> cm_fs s' = cm_fs s"
proof -
  note i = init_for_cm [OF assms(2), of conn]
  obtain r j0 where o: "open_data_stream (env_os E) (cm_fs s) j = (r, j0)" by fastforce
  have last: "is_last_job j1 = is_last_job j"
    using assms(2) open_stream_facts(2) [OF o]
    by (auto simp: init_data_stream_def o split: sum.splits bool.splits if_splits)
  obtain js1 ms1 fin where t: "tick_jobs E conn (cm_fs s) [j] = (js1, ms1, fin)" by (metis prod_cases3)
  then have s': "s' = s\<lparr>read_jobs := fold (\<lambda>i js. snd (remove_job i js)) fin js1, cm_out := cm_out s @ ms1\<rparr>"
    using assms(1,5) by (simp add: handle_read_jobs_tick_def)
  have "js = fold (\<lambda>i js. snd (remove_job i js)) fin js1 \<and> ms1 = map (cm_view conn) out"
    using assms(2-4) i last t
    by (cases "is_last_job j") (auto simp: handle_read_jobs_def init_job_def split: option.splits if_splits)
  then show ?thesis by (simp add: s')
qed

theorem cm_tick_mirrors_witness:
  "\<exists>b. cm_out (handle_read_jobs_tick demo_env 3 (demo_cm\<lparr>cm_fs := demo_src, read_jobs := [file_sender 4 ''s'' demo_files]\<rparr>))
     = [FileBlockFromCM b 3]"
proof -
  let ?j = "file_sender 4 ''s'' demo_files" and ?s = "demo_cm\<lparr>cm_fs := demo_src, read_jobs := [file_sender 4 ''s'' demo_files]\<rparr>"
  have s: "sending 4 ''s'' demo_files 0 ?j"
    by (simp add: sending_def file_sender_def new_read_def transfer_job_default_def demo_files_def)
  have open1: "fs_open demo_os (job_join ''s'' (fe_name (demo_files ! 0))) demo_src = Inr 0"
    by (simp add: fs_open_def demo_os_def demo_files_def demo_src_def job_join_def path_join_def starts_with_def)
  let ?j1 = "?j\<lparr>data_stream := Some (FileStream 0 0), file_confirmed := False, file_is_waiting := False\<rparr>"
  have "data_stream ?j = None" "length demo_files = 2"
    by (simp_all add: file_sender_def new_read_def transfer_job_default_def demo_files_def)
  with s open1 sending_num [OF s] have i: "init_data_stream demo_os demo_src ?j = (Inr (), ?j1, [])"
    by (simp add: init_data_stream_def open_data_stream_def sending_def needs_digest_def)
  have fill: "read_fill demo_os demo_src (FileStream 0 0) [] = (Inr [1, 2], FileStream 0 2)"
    using read_fill_file [of demo_os 0 "[]" demo_src 0] by (simp add: demo_os_def demo_src_def BUF_SIZE_def Let_def)
  have n1: "as_usize (file_num ?j1) = 0" using sending_num [OF s] by simp
  have "\<exists>b j2. job_read demo_os demo_zstd demo_src ?j1 = (Inr (Some b), j2)"
    using s \<open>length demo_files = 2\<close> n1
    by (simp add: job_read_def fill sending_def pack_def demo_zstd_def compress_def)
  then obtain b j2 where r: "job_read demo_os demo_zstd demo_src ?j1 = (Inr (Some b), j2)" by blast
  have "handle_read_jobs demo_os demo_zstd demo_src [?j] = ([j2], [MsgBlock b])"
    using i r s by (simp add: handle_read_jobs_def init_job_def sending_def)
  with cm_tick_mirrors [of ?s ?j demo_env ?j1 "[]" "Some b" j2, OF _ _ _ _ refl, of "[j2]" "[MsgBlock b]" 3] i r show ?thesis
    by (simp add: demo_env_def demo_cm_def)
qed

end
