(* ===== verification/F32.thy ===== *)
theory F32
  imports Hbb_Prelude "HOL-Library.Log_Nat"
begin

text \<open>
  Single precision numbers, as far as the program computes with them. A finite \<open>f32\<close> is the
  rational number it denotes; every operation computes the exact rational result and rounds it to
  24 binary digits, to nearest with ties to even, with gradual underflow at \<open>2 ^ -149\<close>. The
  program never leaves the finite range: the largest numbers it forms are products of a \<open>u32\<close>
  and a bit rate ratio of at most 40, so infinities and NaN have no value here.
\<close>

type_synonym f32 = rat

section \<open>Rounding\<close>

definition pow2 :: "int \<Rightarrow> rat" where
  "pow2 e = (if e \<ge> 0 then 2 ^ nat e else 1 / 2 ^ nat (- e))"

definition round_even :: "rat \<Rightarrow> int" where
  "round_even x =
     (let f = \<lfloor>x\<rfloor>; r = x - of_int f in
      if r < 1 / 2 then f else if r > 1 / 2 then f + 1 else if even f then f else f + 1)"

text \<open>The exponent of the leading binary digit of a positive number.\<close>

definition log2_floor :: "rat \<Rightarrow> int" where
  "log2_floor x =
     (case quotient_of x of (n, d) \<Rightarrow>
        let k = bitlen n - bitlen d in if x \<ge> pow2 k then k else k - 1)"

definition ulp_exp :: "rat \<Rightarrow> int" where
  "ulp_exp x = max (- 149) (log2_floor \<bar>x\<bar> - 23)"

definition f32_round :: "rat \<Rightarrow> f32" where
  "f32_round x = (if x = 0 then 0 else of_int (round_even (x / pow2 (ulp_exp x))) * pow2 (ulp_exp x))"

definition f32_mul :: "f32 \<Rightarrow> f32 \<Rightarrow> f32" where "f32_mul x y = f32_round (x * y)"
definition f32_div :: "f32 \<Rightarrow> f32 \<Rightarrow> f32" where "f32_div x y = f32_round (x / y)"
definition f32_add :: "f32 \<Rightarrow> f32 \<Rightarrow> f32" where "f32_add x y = f32_round (x + y)"

text \<open>\<open>n as f32\<close> for a \<open>u32\<close>, and the saturating cast \<open>x as u32\<close>.\<close>

definition f32_of_u32 :: "nat \<Rightarrow> f32" where "f32_of_u32 n = f32_round (of_nat n)"

definition f32_to_u32 :: "f32 \<Rightarrow> nat" where "f32_to_u32 x = min (nat \<lfloor>x\<rfloor>) (2 ^ 32 - 1)"

section \<open>Properties of rounding\<close>

lemma pow2_powi: "pow2 e = 2 powi e"
  by (simp add: pow2_def power_int_def field_simps)

lemma pow2_pos [simp]: "0 < pow2 e" "pow2 e \<noteq> 0"
  by (simp_all add: pow2_powi)

lemma pow2_add: "pow2 (a + b) = pow2 a * pow2 b"
  by (simp add: pow2_powi power_int_add)

lemma pow2_le_iff [simp]: "pow2 a \<le> pow2 b \<longleftrightarrow> a \<le> b"
  using power_int_strict_increasing [of b a "2 :: rat"] power_int_increasing [of a b "2 :: rat"]
  by (auto simp: pow2_powi not_le [symmetric])

lemma pow2_less_iff [simp]: "pow2 a < pow2 b \<longleftrightarrow> a < b"
  using pow2_le_iff [of b a] by linarith

lemma pow2_int: "k \<ge> 0 \<Longrightarrow> pow2 k = of_int (2 ^ nat k)"
  by (simp add: pow2_def)

lemma pow2_numeral: "pow2 (numeral k) = 2 ^ numeral k"
  by (simp add: pow2_def)

lemma pow2_scale: "a \<le> b \<Longrightarrow> pow2 b = of_int (2 ^ nat (b - a)) * pow2 a"
  using pow2_add [of "b - a" a] pow2_int [of "b - a"] by simp

lemma round_even_of_int [simp]: "round_even (of_int k) = k"
  by (simp add: round_even_def)

lemma round_even_le: "x \<le> of_int k \<Longrightarrow> round_even x \<le> k"
proof -
  assume x: "x \<le> of_int k"
  show ?thesis
  proof (cases "x = of_int k")
    case False
    with x have "\<lfloor>x\<rfloor> < k" by (simp add: floor_less_iff)
    then show ?thesis by (simp add: round_even_def Let_def)
  qed simp
qed

lemma round_even_ge: "of_int k \<le> x \<Longrightarrow> k \<le> round_even x"
proof -
  assume "of_int k \<le> x"
  then have "k \<le> \<lfloor>x\<rfloor>" by (simp add: le_floor_iff)
  then show ?thesis by (simp add: round_even_def Let_def)
qed

lemma log2_floor_bounds:
  assumes "0 < x"
  shows "pow2 (log2_floor x) \<le> x" and "x < pow2 (log2_floor x + 1)"
proof -
  obtain n d where nd: "quotient_of x = (n, d)" by (cases "quotient_of x")
  have d: "d > 0" using quotient_of_denom_pos [OF nd] .
  have x: "x = of_int n / of_int d" using quotient_of_div [OF nd] .
  with assms d have n: "n > 0" by (simp add: zero_less_divide_iff)
  define bn where "bn = bitlen n"
  define bd where "bd = bitlen d"
  have pos: "bn > 0" "bd > 0" using n d by (simp_all add: bn_def bd_def bitlen_def floorlog_def add_strict_increasing)
  have N: "2 ^ nat (bn - 1) \<le> n" "n < 2 ^ nat bn" using bitlen_bounds [OF n] by (simp_all add: bn_def)
  have D: "2 ^ nat (bd - 1) \<le> d" "d < 2 ^ nat bd" using bitlen_bounds [OF d] by (simp_all add: bd_def)
  have n1: "pow2 (bn - 1) \<le> of_int n" and n2: "of_int n < pow2 bn"
    and d1: "pow2 (bd - 1) \<le> of_int d" and d2: "of_int d < pow2 bd"
    using N D pos by (simp_all only: pow2_int of_int_le_iff of_int_less_iff)
  have up: "x < pow2 (bn - bd + 1)"
  proof -
    have "pow2 bn = pow2 (bn - bd + 1) * pow2 (bd - 1)" by (simp flip: pow2_add)
    also have "\<dots> \<le> pow2 (bn - bd + 1) * of_int d" using d1 by (intro mult_left_mono) (auto intro: less_imp_le)
    finally show ?thesis using n2 d unfolding x by (simp add: divide_less_eq)
  qed
  have lo: "pow2 (bn - bd - 1) \<le> x"
  proof -
    have "pow2 (bn - bd - 1) * of_int d \<le> pow2 (bn - bd - 1) * pow2 bd"
      using d2 by (intro mult_left_mono) (auto intro: less_imp_le)
    also have "\<dots> = pow2 (bn - 1)" by (simp flip: pow2_add)
    finally show ?thesis using n1 d unfolding x by (simp add: le_divide_eq)
  qed
  show "pow2 (log2_floor x) \<le> x" and "x < pow2 (log2_floor x + 1)"
    using up lo by (auto simp: log2_floor_def nd Let_def bn_def bd_def)
qed

lemma log2_floor_less: "0 < x \<Longrightarrow> x < pow2 k \<Longrightarrow> log2_floor x < k"
  using log2_floor_bounds(1) [of x] le_less_trans [of "pow2 (log2_floor x)" x "pow2 k"] by simp

lemma log2_floor_mono: "0 < x \<Longrightarrow> x \<le> y \<Longrightarrow> log2_floor x \<le> log2_floor y"
  using log2_floor_less [of x "log2_floor y + 1"] log2_floor_bounds(2) [of y] by auto

lemma ulp_exp_mono: "0 < x \<Longrightarrow> x \<le> y \<Longrightarrow> ulp_exp x \<le> ulp_exp y"
  using log2_floor_mono [of x y] by (simp add: ulp_exp_def)

text \<open>The numbers that have a single precision representation.\<close>

definition is_f32 :: "rat \<Rightarrow> bool" where
  "is_f32 x \<longleftrightarrow> f32_round x = x"

lemma is_f32_scaled:
  assumes "x = of_int k * pow2 (ulp_exp x)"
  shows "is_f32 x"
proof -
  have "x / pow2 (ulp_exp x) = of_int k" using assms by (simp add: field_simps)
  then show ?thesis using assms by (simp add: is_f32_def f32_round_def)
qed

lemma is_f32_nat_mult:
  assumes "0 \<le> m" "m \<le> 2 ^ 24" "- 149 \<le> e"
  shows "is_f32 (of_int m * pow2 e)"
proof (cases "m = 0 \<or> m = 2 ^ 24")
  case True
  then consider "m = 0" | "m = 2 ^ 24" by blast
  then show ?thesis
  proof cases
    case 1
    then show ?thesis by (simp add: is_f32_def f32_round_def)
  next
    case 2
    let ?x = "of_int m * pow2 e"
    have p: "?x = pow2 (e + 24)" using 2 by (simp add: pow2_add pow2_numeral)
    have "log2_floor ?x = e + 24"
      using log2_floor_less [of ?x "e + 25"] log2_floor_bounds(2) [of ?x] unfolding p by simp
    then have "ulp_exp ?x = e + 1" using assms by (simp add: ulp_exp_def abs_of_pos p)
    moreover have "?x = of_int (2 ^ 23) * pow2 (e + 1)" using 2 by (simp add: pow2_add pow2_def [of 1])
    ultimately show ?thesis by (metis is_f32_scaled)
  qed
next
  case False
  let ?x = "of_int m * pow2 e"
  have m: "0 < m" "m < 2 ^ 24" using False assms by auto
  have "of_int m < (2 ^ 24 :: rat)" using m(2) by (metis of_int_less_iff of_int_numeral of_int_power)
  then have "?x < pow2 24 * pow2 e" by (simp add: pow2_numeral)
  then have "?x < pow2 (e + 24)" by (simp flip: pow2_add add: add.commute)
  then have "log2_floor ?x < e + 24" using m by (intro log2_floor_less) simp_all
  then have "ulp_exp ?x \<le> e" using assms m by (simp add: ulp_exp_def abs_of_pos)
  then have "?x = of_int (m * 2 ^ nat (e - ulp_exp ?x)) * pow2 (ulp_exp ?x)"
    using pow2_scale [of "ulp_exp ?x" e] by simp
  then show ?thesis by (rule is_f32_scaled)
qed

lemma is_f32_of_nat [simp]: "n \<le> 2 ^ 24 \<Longrightarrow> is_f32 (of_nat n)"
  using is_f32_nat_mult [of "int n" 0] by (simp add: pow2_def)

lemma f32_round_nonneg: "0 \<le> x \<Longrightarrow> 0 \<le> f32_round x"
  using round_even_ge [of 0 "x / pow2 (ulp_exp x)"]
  by (auto simp: f32_round_def less_imp_le zero_le_divide_iff intro!: mult_nonneg_nonneg)

lemma scaled_less:
  assumes "0 < x"
  shows "x / pow2 (ulp_exp x) < 2 ^ 24"
proof -
  have "x < pow2 (log2_floor x + 1)" by (rule log2_floor_bounds [OF assms])
  also have "\<dots> \<le> pow2 (ulp_exp x + 24)" using assms by (simp add: ulp_exp_def)
  also have "\<dots> = 2 ^ 24 * pow2 (ulp_exp x)" by (simp add: pow2_add pow2_numeral)
  finally show ?thesis by (simp add: divide_less_eq)
qed

lemma is_f32_round: "0 \<le> x \<Longrightarrow> is_f32 (f32_round x)"
proof (cases "x = 0")
  case False
  assume "0 \<le> x"
  with False have x: "0 < x" by simp
  have "round_even (x / pow2 (ulp_exp x)) \<le> 2 ^ 24"
    using scaled_less [OF x] by (intro round_even_le) simp
  moreover have "0 \<le> round_even (x / pow2 (ulp_exp x))"
    using x by (intro round_even_ge) (simp add: less_imp_le)
  ultimately show ?thesis
    using x unfolding f32_round_def by (simp add: is_f32_nat_mult ulp_exp_def)
qed (simp add: is_f32_def f32_round_def)

lemma f32_round_le:
  assumes "0 \<le> x" "x \<le> y" "is_f32 y"
  shows "f32_round x \<le> y"
proof (cases "x = 0")
  case True
  then show ?thesis using assms by (simp add: f32_round_def)
next
  case False
  with assms have x: "0 < x" and y: "0 < y" by auto
  let ?e = "ulp_exp x"
  have y': "y = of_int (round_even (y / pow2 (ulp_exp y))) * pow2 (ulp_exp y)"
    using assms(3) y by (simp add: is_f32_def f32_round_def)
  define K where "K = round_even (y / pow2 (ulp_exp y)) * 2 ^ nat (ulp_exp y - ?e)"
  have K: "y = of_int K * pow2 ?e"
    using y' pow2_scale [OF ulp_exp_mono [OF x assms(2)]] by (simp add: K_def)
  then have "x / pow2 ?e \<le> of_int K" using assms(2) by (simp add: divide_le_eq)
  then have "round_even (x / pow2 ?e) \<le> K" by (rule round_even_le)
  then show ?thesis
    using x by (subst K) (simp add: f32_round_def)
qed

lemma f32_round_ge:
  assumes "0 < y" "y \<le> x" "is_f32 y"
  shows "y \<le> f32_round x"
proof (cases "ulp_exp x = ulp_exp y")
  case True
  have y': "y = of_int (round_even (y / pow2 (ulp_exp y))) * pow2 (ulp_exp y)"
    using assms by (simp add: is_f32_def f32_round_def)
  then have "of_int (round_even (y / pow2 (ulp_exp y))) \<le> x / pow2 (ulp_exp y)"
    using assms(2) by (metis pos_le_divide_eq pow2_pos(1))
  then have "round_even (y / pow2 (ulp_exp y)) \<le> round_even (x / pow2 (ulp_exp y))"
    by (rule round_even_ge)
  then show ?thesis
    using assms True by (subst y') (simp add: f32_round_def)
next
  case False
  have x: "0 < x" using assms by simp
  from False have lt: "ulp_exp y < ulp_exp x" using ulp_exp_mono [OF assms(1,2)] by simp
  then have e: "ulp_exp x = log2_floor x - 23" using x by (auto simp: ulp_exp_def max_def split: if_splits)
  have "pow2 (log2_floor x) \<le> x" by (rule log2_floor_bounds [OF x])
  then have "2 ^ 23 * pow2 (ulp_exp x) \<le> x"
    using pow2_add [of 23 "ulp_exp x"] by (simp add: e pow2_numeral)
  then have "of_int (2 ^ 23) \<le> x / pow2 (ulp_exp x)" by (simp add: le_divide_eq)
  then have "2 ^ 23 \<le> round_even (x / pow2 (ulp_exp x))" by (rule round_even_ge)
  then have "of_int (2 ^ 23) * pow2 (ulp_exp x) \<le> f32_round x"
    using x unfolding f32_round_def by (simp add: mult_right_mono less_imp_le)
  moreover have "y < pow2 (log2_floor y + 1)" by (rule log2_floor_bounds [OF assms(1)])
  moreover have "pow2 (log2_floor y + 1) \<le> pow2 (log2_floor x)"
    using lt e assms(1) by (simp add: ulp_exp_def)
  moreover have "of_int (2 ^ 23) * pow2 (ulp_exp x) = pow2 (log2_floor x)"
    using pow2_add [of 23 "ulp_exp x"] by (simp add: e pow2_numeral)
  ultimately show ?thesis by linarith
qed

lemma f32_round_pos: "is_f32 y \<Longrightarrow> 0 < y \<Longrightarrow> y \<le> x \<Longrightarrow> 0 < f32_round x"
  using f32_round_ge [of y x] by simp

lemma f32_of_u32_exact [simp]: "n \<le> 2 ^ 24 \<Longrightarrow> f32_of_u32 n = of_nat n"
  using is_f32_of_nat [of n] by (simp add: f32_of_u32_def is_f32_def)

end
