(* ===== verification/Video_Qos.thy ===== *)
theory Video_Qos
  imports F32 "HOL-Library.AList" "HOL-Library.Monad_Syntax" "HOL-Library.Multiset"
begin

text \<open>
  The quality of service controller of the video services (\<open>src/server/video_qos.rs\<close>), the
  quality levels and base bit rates it works with (\<open>libs/scrap/src/common/codec.rs\<close>), and the
  loop body of a video service that applies its decisions (\<open>check_qos\<close> of
  \<open>src/server/video_service.rs\<close>).

  A \<open>u32\<close> is a natural number with its wrap-around written out, as in a release build; an
  \<open>f32\<close> is a rounded rational. \<open>clamp\<close> panics when its bounds are crossed, so every operation
  that clamps returns an option and \<open>None\<close> is the panic. An instant is a number of nanoseconds;
  the current instant is an argument. The hash maps of users and displays are association lists
  in their iteration order, which the map may change at any time.
\<close>

section \<open>Quality levels\<close>

definition BR_BEST :: f32 where "BR_BEST = f32_round (15 / 10)"
definition BR_BALANCED :: f32 where "BR_BALANCED = f32_round (67 / 100)"
definition BR_SPEED :: f32 where "BR_SPEED = f32_round (5 / 10)"

datatype quality = Best | Balanced | Low | Custom f32

definition is_custom :: "quality \<Rightarrow> bool" where
  "is_custom q = (case q of Custom _ \<Rightarrow> True | _ \<Rightarrow> False)"

definition quality_ratio :: "quality \<Rightarrow> f32" where
  "quality_ratio q = (case q of Best \<Rightarrow> BR_BEST | Balanced \<Rightarrow> BR_BALANCED | Low \<Rightarrow> BR_SPEED | Custom v \<Rightarrow> v)"

definition RESOLUTION_PRESETS :: "(nat \<times> nat \<times> nat) list" where
  "RESOLUTION_PRESETS =
     [(640, 480, 400), (800, 600, 500), (1024, 768, 800), (1280, 720, 1000), (1366, 768, 1100),
      (1440, 900, 1300), (1600, 900, 1500), (1920, 1080, 2073), (2048, 1080, 2200), (2560, 1440, 3000),
      (3440, 1440, 4000), (3840, 2160, 5000), (7680, 4320, 12000)]"

text \<open>\<open>Iterator::min_by_key\<close>: the first of the least elements.\<close>

fun min_by_key :: "('a \<Rightarrow> 'b::linorder) \<Rightarrow> 'a list \<Rightarrow> 'a option" where
  "min_by_key f [] = None"
| "min_by_key f (x # xs) =
     (case min_by_key f xs of None \<Rightarrow> Some x | Some y \<Rightarrow> if f x \<le> f y then Some x else Some y)"

text \<open>\<open>f32::round\<close>: halves away from zero; the argument is never negative here.\<close>

definition round_half_up :: "f32 \<Rightarrow> f32" where
  "round_half_up x = of_int \<lfloor>x + 1 / 2\<rfloor>"

definition base_bitrate :: "nat \<Rightarrow> nat \<Rightarrow> nat" where
  "base_bitrate width height =
     (let pixels = (width * height) mod 2 ^ 32;
          dist = (\<lambda>(preset, _). if preset \<ge> pixels then preset - pixels else pixels - preset);
          presets = map (\<lambda>(w, h, bitrate). (w * h, bitrate)) RESOLUTION_PRESETS;
          (preset_pixels, preset_bitrate) =
            (case min_by_key dist presets of Some p \<Rightarrow> p | None \<Rightarrow> (1920 * 1080, 2073))
      in f32_to_u32 (round_half_up
           (f32_mul (f32_of_u32 preset_bitrate) (f32_div (f32_of_u32 pixels) (f32_of_u32 preset_pixels)))))"

section \<open>Constants\<close>

abbreviation (input) FPS :: nat where "FPS \<equiv> 30"
abbreviation (input) MIN_FPS :: nat where "MIN_FPS \<equiv> 1"
abbreviation (input) MAX_FPS :: nat where "MAX_FPS \<equiv> 120"
abbreviation (input) INIT_FPS :: nat where "INIT_FPS \<equiv> 15"
definition BR_MAX :: f32 where "BR_MAX = 40"
definition BR_MIN :: f32 where "BR_MIN = f32_round (2 / 10)"
definition BR_MIN_HIGH_RESOLUTION :: f32 where "BR_MIN_HIGH_RESOLUTION = f32_round (1 / 10)"
definition MAX_BR_MULTIPLE :: f32 where "MAX_BR_MULTIPLE = 1"

definition u32_add :: "nat \<Rightarrow> nat \<Rightarrow> nat" where
  "u32_add a b = (a + b) mod 2 ^ 32"

text \<open>\<open>clamp\<close> of \<open>Ord\<close> and of \<open>f32\<close>: it asserts that the bounds are in order.\<close>

definition clamp :: "'a::linorder \<Rightarrow> 'a \<Rightarrow> 'a \<Rightarrow> 'a option" where
  "clamp v lo hi = (if lo \<le> hi then Some (if v < lo then lo else if v > hi then hi else v) else None)"

section \<open>Round trip time estimation\<close>

record rtt_calculator =
  min_rtt :: "nat option"
  window_min_rtt :: "nat option"
  smoothed_rtt :: "nat option"
  samples :: "nat list"

definition rtt_default :: rtt_calculator where
  "rtt_default = \<lparr>min_rtt = None, window_min_rtt = None, smoothed_rtt = None, samples = []\<rparr>"

definition min_list_option :: "nat list \<Rightarrow> nat option" where
  "min_list_option xs = (case xs of [] \<Rightarrow> None | x # xs \<Rightarrow> Some (fold min xs x))"

definition rtt_update :: "nat \<Rightarrow> rtt_calculator \<Rightarrow> rtt_calculator" where
  "rtt_update delay r =
     (let r = (case min_rtt r of
                 Some m \<Rightarrow> if delay < m then r\<lparr>min_rtt := Some delay\<rparr> else r
               | None \<Rightarrow> r\<lparr>min_rtt := Some delay\<rparr>);
          r = (if length (samples r) \<ge> 60 then r\<lparr>samples := tl (samples r)\<rparr> else r);
          r = r\<lparr>samples := samples r @ [delay]\<rparr>;
          r = r\<lparr>window_min_rtt := min_list_option (samples r)\<rparr>
      in if length (samples r) \<ge> 60 then
           (case (min_rtt r, window_min_rtt r) of
              (Some m, Some w) \<Rightarrow>
                r\<lparr>smoothed_rtt := Some (f32_to_u32
                    (f32_add (f32_mul (1 - 1 / 2) (f32_of_u32 m)) (f32_mul (1 / 2) (f32_of_u32 w))))\<rparr>
            | _ \<Rightarrow> r)
         else r)"

definition get_rtt :: "rtt_calculator \<Rightarrow> nat option" where
  "get_rtt r =
     (case smoothed_rtt r of
        Some rtt \<Rightarrow> Some rtt
      | None \<Rightarrow> if length (samples r) \<ge> 10 then min_rtt r else None)"

section \<open>State\<close>

record user_delay =
  response_delayed :: bool
  delay_history :: "nat list"
  ud_fps :: "nat option"
  rtt_calc :: rtt_calculator
  quick_increase_fps_count :: nat
  increase_fps_count :: nat

record user_data =
  auto_adjust_fps :: "nat option"
  custom_fps :: "nat option"
  user_quality :: "(int \<times> quality) option"
  delay :: user_delay
  user_rec :: bool

record display_data =
  send_counter :: nat
  support_changing_quality :: bool

record video_qos =
  qos_fps :: nat
  qos_ratio :: f32
  users :: "(int \<times> user_data) list"
  displays :: "(string \<times> display_data) list"
  bitrate_store :: nat
  adjust_ratio_instant :: nat
  abr_config :: bool
  new_user_instant :: nat

definition user_delay_default :: user_delay where
  "user_delay_default = \<lparr>response_delayed = False, delay_history = [], ud_fps = None, rtt_calc = rtt_default,
     quick_increase_fps_count = 0, increase_fps_count = 0\<rparr>"

definition user_data_default :: user_data where
  "user_data_default = \<lparr>auto_adjust_fps = None, custom_fps = None, user_quality = None,
     delay = user_delay_default, user_rec = False\<rparr>"

definition qos_default :: "nat \<Rightarrow> video_qos" where
  "qos_default now = \<lparr>qos_fps = FPS, qos_ratio = BR_BALANCED, users = [], displays = [], bitrate_store = 0,
     adjust_ratio_instant = now, abr_config = True, new_user_instant = now\<rparr>"

text \<open>\<open>elapsed().as_secs()\<close>: whole seconds, and zero for an instant in the future.\<close>

definition elapsed_secs :: "nat \<Rightarrow> nat \<Rightarrow> nat" where
  "elapsed_secs now t = (now - t) div 10 ^ 9"

section \<open>Delays\<close>

definition add_delay :: "nat \<Rightarrow> user_delay \<Rightarrow> user_delay" where
  "add_delay d u =
     (let u = u\<lparr>rtt_calc := rtt_update d (rtt_calc u)\<rparr>;
          u = (if length (delay_history u) > 2 then u\<lparr>delay_history := tl (delay_history u)\<rparr> else u)
      in u\<lparr>delay_history := delay_history u @ [d]\<rparr>)"

definition avg_delay :: "user_delay \<Rightarrow> nat" where
  "avg_delay u =
     (let len = length (delay_history u) in
      if len > 0 then
        let avg = fold u32_add (delay_history u) 0 div len in
        (case get_rtt (rtt_calc u) of
           Some rtt \<Rightarrow> if avg > rtt then avg - rtt else avg
         | None \<Rightarrow> avg)
      else 150)"

section \<open>Reading the controller\<close>

definition get_fps :: "video_qos \<Rightarrow> nat" where
  "get_fps q = (let fps = qos_fps q in if fps \<ge> MIN_FPS \<and> fps \<le> MAX_FPS then fps else FPS)"

text \<open>\<open>spf\<close>, in seconds: \<open>Duration::from_secs_f32\<close> panics on a negative number.\<close>

definition spf :: "video_qos \<Rightarrow> f32 option" where
  "spf q = (let s = f32_div 1 (f32_of_u32 (get_fps q)) in if s < 0 then None else Some s)"

definition store_bitrate :: "nat \<Rightarrow> video_qos \<Rightarrow> video_qos" where
  "store_bitrate b q = q\<lparr>bitrate_store := b\<rparr>"

definition get_ratio :: "video_qos \<Rightarrow> f32 \<times> video_qos" where
  "get_ratio q =
     (let q = (if qos_ratio q < BR_MIN_HIGH_RESOLUTION \<or> qos_ratio q > BR_MAX
               then q\<lparr>qos_ratio := BR_BALANCED\<rparr> else q)
      in (qos_ratio q, q))"

definition qos_record :: "video_qos \<Rightarrow> bool" where
  "qos_record q = list_ex (\<lambda>(_, u). user_rec u) (users q)"

definition set_support_changing_quality :: "string \<Rightarrow> bool \<Rightarrow> video_qos \<Rightarrow> video_qos" where
  "set_support_changing_quality name support q =
     (case map_of (displays q) name of
        Some d \<Rightarrow> q\<lparr>displays := AList.update name (d\<lparr>support_changing_quality := support\<rparr>) (displays q)\<rparr>
      | None \<Rightarrow> q)"

definition in_vbr_state :: "video_qos \<Rightarrow> bool" where
  "in_vbr_state q \<longleftrightarrow> abr_config q \<and> list_all (\<lambda>(_, d). support_changing_quality d) (displays q)"

definition user_fps :: "user_data \<Rightarrow> nat" where
  "user_fps u =
     (let fps = (case custom_fps u of Some f \<Rightarrow> f | None \<Rightarrow> FPS) in
      case auto_adjust_fps u of
        Some a \<Rightarrow> if fps = 0 \<or> a < fps then a else fps
      | None \<Rightarrow> fps)"

definition highest_fps :: "video_qos \<Rightarrow> nat option" where
  "highest_fps q =
     (let fps = (case min_list_option (filter (\<lambda>f. f \<ge> MIN_FPS) (map (\<lambda>(_, u). user_fps u) (users q))) of
                   Some f \<Rightarrow> f | None \<Rightarrow> FPS)
      in clamp fps MIN_FPS MAX_FPS)"

text \<open>\<open>max_by\<close> keeps the last of the greatest elements.\<close>

definition latest_quality :: "video_qos \<Rightarrow> quality" where
  "latest_quality q =
     (case List.map_filter (\<lambda>(_, u). user_quality u) (users q) of
        [] \<Rightarrow> Balanced
      | x # xs \<Rightarrow> snd (fold (\<lambda>b a. if fst a > fst b then a else b) xs x))"

section \<open>Adjustment\<close>

definition min_ratio :: "quality \<Rightarrow> f32 option \<Rightarrow> f32" where
  "min_ratio target_quality ratio_1mbps =
     (let lower = (\<lambda>m. case ratio_1mbps of Some r \<Rightarrow> if m > r then r else m | None \<Rightarrow> m) in
      case target_quality of
        Best \<Rightarrow> max (lower (f32_div BR_BEST (25 / 10))) BR_MIN
      | Balanced \<Rightarrow> max (lower (min (f32_div BR_BALANCED 2) (f32_round (4 / 10)))) BR_MIN_HIGH_RESOLUTION
      | Low \<Rightarrow> BR_MIN_HIGH_RESOLUTION
      | Custom _ \<Rightarrow> BR_MIN_HIGH_RESOLUTION)"

definition delay_ratio :: "nat \<Rightarrow> bool \<Rightarrow> f32 \<Rightarrow> f32" where
  "delay_ratio max_delay dynamic_screen r =
     (if max_delay < 50 then (if dynamic_screen then f32_mul r (f32_round (115 / 100)) else r)
      else if max_delay < 100 then (if dynamic_screen then f32_mul r (f32_round (11 / 10)) else r)
      else if max_delay < 150 then (if dynamic_screen then f32_mul r (f32_round (105 / 100)) else r)
      else if max_delay < 200 then f32_mul r (f32_round (95 / 100))
      else if max_delay < 300 then f32_mul r (f32_round (9 / 10))
      else if max_delay < 500 then f32_mul r (f32_round (85 / 100))
      else f32_mul r (f32_round (8 / 10)))"

definition adjust_ratio :: "nat \<Rightarrow> bool \<Rightarrow> video_qos \<Rightarrow> video_qos option" where
  "adjust_ratio now dynamic_screen q =
     (if \<not> in_vbr_state q then Some q
      else
        case map (\<lambda>(_, u). avg_delay (delay u)) (users q) of
          [] \<Rightarrow> Some q
        | d # ds \<Rightarrow>
            let max_delay = fold max ds d;
                target_quality = latest_quality q;
                target_ratio = quality_ratio (latest_quality q);
                current_ratio = qos_ratio q;
                current_bitrate = bitrate_store q;
                ratio_1mbps =
                  (if current_bitrate > 0
                   then Some (max (f32_div (f32_mul current_ratio 1000) (f32_of_u32 current_bitrate)) BR_MIN_HIGH_RESOLUTION)
                   else None);
                ratio_add_150kbps =
                  (if current_bitrate > 0
                   then Some (f32_div (f32_mul (f32_of_u32 (u32_add current_bitrate 150)) current_ratio)
                                      (f32_of_u32 current_bitrate))
                   else None);
                min = min_ratio target_quality ratio_1mbps;
                max = f32_mul target_ratio MAX_BR_MULTIPLE;
                v = delay_ratio max_delay dynamic_screen current_ratio;
                v = (case ratio_add_150kbps of
                       Some r \<Rightarrow> if v > r \<and> r > current_ratio \<and> current_ratio \<ge> BR_SPEED then r else v
                     | None \<Rightarrow> v)
            in map_option (\<lambda>r. q\<lparr>qos_ratio := r, adjust_ratio_instant := now\<rparr>) (clamp v min max))"

definition adjust_fps :: "nat \<Rightarrow> video_qos \<Rightarrow> video_qos option" where
  "adjust_fps now q = do {
     hf \<leftarrow> highest_fps q;
     let fps = (case min_list_option (map (\<lambda>(_, u). case ud_fps (delay u) of Some f \<Rightarrow> f | None \<Rightarrow> INIT_FPS) (users q)) of
                  Some f \<Rightarrow> f | None \<Rightarrow> INIT_FPS);
     let fps = (if list_ex (\<lambda>(_, u). response_delayed (delay u)) (users q) \<and> fps > MIN_FPS + 1 then MIN_FPS + 1 else fps);
     let fps = (if elapsed_secs now (new_user_instant q) < 1 \<and> fps > INIT_FPS then INIT_FPS else fps);
     fps \<leftarrow> clamp fps MIN_FPS hf;
     Some (q\<lparr>qos_fps := fps\<rparr>)
   }"

section \<open>Users\<close>

definition on_connection_open :: "nat \<Rightarrow> string \<Rightarrow> int \<Rightarrow> video_qos \<Rightarrow> video_qos" where
  "on_connection_open now enable_abr i q =
     q\<lparr>users := AList.update i user_data_default (users q), abr_config := enable_abr \<noteq> ''N'', new_user_instant := now\<rparr>"

definition on_connection_close :: "nat \<Rightarrow> int \<Rightarrow> video_qos \<Rightarrow> video_qos" where
  "on_connection_close now i q =
     (let q = q\<lparr>users := AList.delete i (users q)\<rparr> in if users q = [] then qos_default now else q)"

definition with_user :: "int \<Rightarrow> (user_data \<Rightarrow> user_data) \<Rightarrow> video_qos \<Rightarrow> video_qos" where
  "with_user i f q =
     (case map_of (users q) i of Some u \<Rightarrow> q\<lparr>users := AList.update i (f u) (users q)\<rparr> | None \<Rightarrow> q)"

definition user_custom_fps :: "int \<Rightarrow> nat \<Rightarrow> video_qos \<Rightarrow> video_qos" where
  "user_custom_fps i fps q =
     (if fps < MIN_FPS \<or> fps > MAX_FPS then q else with_user i (\<lambda>u. u\<lparr>custom_fps := Some fps\<rparr>) q)"

definition user_auto_adjust_fps :: "int \<Rightarrow> nat \<Rightarrow> video_qos \<Rightarrow> video_qos" where
  "user_auto_adjust_fps i fps q =
     (if fps < MIN_FPS \<or> fps > MAX_FPS then q else with_user i (\<lambda>u. u\<lparr>auto_adjust_fps := Some fps\<rparr>) q)"

definition convert_quality :: "int \<Rightarrow> quality option" where
  "convert_quality q =
     (if q = 3 then Some Balanced
      else if q = 2 then Some Low
      else if q = 4 then Some Best
      else map_option Custom
             (clamp (f32_div (f32_of_u32 (nat ((drop_bit 8 q AND 0xFFF) * 2))) 100) BR_MIN BR_MAX))"

definition user_image_quality :: "int \<Rightarrow> int \<Rightarrow> int \<Rightarrow> video_qos \<Rightarrow> video_qos option" where
  "user_image_quality time i image_quality q = do {
     c \<leftarrow> convert_quality image_quality;
     Some (case map_of (users q) i of
             Some u \<Rightarrow>
               let q = with_user i (\<lambda>u. u\<lparr>user_quality := Some (time, c)\<rparr>) q
               in q\<lparr>qos_ratio := quality_ratio (latest_quality q)\<rparr>
           | None \<Rightarrow> q)
   }"

definition user_record :: "int \<Rightarrow> bool \<Rightarrow> video_qos \<Rightarrow> video_qos" where
  "user_record i v q = with_user i (\<lambda>u. u\<lparr>user_rec := v\<rparr>) q"

text \<open>The least and the normal frame rate for a target ratio.\<close>

definition fps_targets :: "f32 \<Rightarrow> nat \<times> nat" where
  "fps_targets target_ratio =
     (if target_ratio \<ge> BR_BEST then (8, 16) else if target_ratio \<ge> BR_BALANCED then (10, 20) else (12, 24))"

text \<open>The frame rate for the average delay, before the increase after three stable samples.\<close>

definition delay_fps :: "nat \<Rightarrow> nat \<Rightarrow> nat \<Rightarrow> nat \<Rightarrow> nat \<Rightarrow> user_delay \<Rightarrow> nat \<times> user_delay" where
  "delay_fps min_fps normal_fps old_avg avg fps u =
     (if avg < 50 then
        let u = u\<lparr>quick_increase_fps_count := quick_increase_fps_count u + 1\<rparr>;
            step = (if fps < normal_fps then 1 else 0);
            (step, u) = (if quick_increase_fps_count u \<ge> 3 then (5, u\<lparr>quick_increase_fps_count := 0\<rparr>) else (step, u))
        in (max min_fps (u32_add fps step), u)
      else if avg < 100 then
        let step = (if avg < old_avg then (if fps < normal_fps then 1 else 0) else 0)
        in (max min_fps (u32_add fps step), u)
      else if avg < 150 then (max min_fps fps, u)
      else
        let devide_fps = f32_to_u32 (of_int \<lceil>f32_div (f32_of_u32 fps) (f32_div (f32_of_u32 avg) (f32_of_u32 150))\<rceil>);
            dividend_ms = 150 * min_fps
        in (if avg < 200 then max min_fps devide_fps
            else if avg < 300 then min min_fps devide_fps
            else if avg < 600 then dividend_ms div avg
            else min (dividend_ms div avg) devide_fps, u))"

text \<open>
  The body of \<open>user_network_delay\<close> for its user: the new delay record, and whether this was the
  first report.
\<close>

definition delay_report :: "nat \<Rightarrow> nat \<Rightarrow> nat \<Rightarrow> nat \<Rightarrow> nat \<Rightarrow> user_delay \<Rightarrow> (user_delay \<times> bool) option" where
  "delay_report min_fps normal_fps highest fps d ud = do {
     let old_avg = avg_delay ud;
     let ud = add_delay (max d 10) ud;
     let avg = max (avg_delay ud) 10;
     let (fps, ud) = delay_fps min_fps normal_fps old_avg avg fps ud;
     let ud = (if avg < 150 then ud\<lparr>increase_fps_count := increase_fps_count ud + 1\<rparr>
               else ud\<lparr>increase_fps_count := 0\<rparr>);
     let (fps, ud) = (if increase_fps_count ud \<ge> 3 then (u32_add fps 1, ud\<lparr>increase_fps_count := 0\<rparr>) else (fps, ud));
     let ud = (if avg > 50 then ud\<lparr>quick_increase_fps_count := 0\<rparr> else ud);
     fps \<leftarrow> clamp fps MIN_FPS highest;
     Some (ud\<lparr>ud_fps := Some fps\<rparr>, ud_fps ud = None)
   }"

definition user_network_delay :: "bool \<Rightarrow> nat \<Rightarrow> int \<Rightarrow> nat \<Rightarrow> video_qos \<Rightarrow> video_qos option" where
  "user_network_delay linux now i d q = do {
     hf \<leftarrow> highest_fps q;
     let (min_fps, normal_fps) = fps_targets (quality_ratio (latest_quality q));
     (q, first) \<leftarrow>
       (case map_of (users q) i of
          None \<Rightarrow> Some (q, False)
        | Some user \<Rightarrow> do {
            (ud, first) \<leftarrow> delay_report min_fps normal_fps hf (qos_fps q) d (delay user);
            Some (q\<lparr>users := AList.update i (user\<lparr>delay := ud\<rparr>) (users q)\<rparr>, first)
          });
     q \<leftarrow> adjust_fps now q;
     if first \<and> \<not> linux then adjust_ratio now False q else Some q
   }"

definition user_delay_response_elapsed :: "nat \<Rightarrow> int \<Rightarrow> nat \<Rightarrow> video_qos \<Rightarrow> video_qos option" where
  "user_delay_response_elapsed now i elapsed q =
     (case map_of (users q) i of
        None \<Rightarrow> Some q
      | Some u \<Rightarrow>
          let ud = (delay u)\<lparr>response_delayed := elapsed > 2000\<rparr> in
          if response_delayed ud
          then adjust_fps now (q\<lparr>users := AList.update i (u\<lparr>delay := add_delay (elapsed mod 2 ^ 32) ud\<rparr>) (users q)\<rparr>)
          else Some (q\<lparr>users := AList.update i (u\<lparr>delay := ud\<rparr>) (users q)\<rparr>))"

section \<open>Displays\<close>

definition new_display :: "string \<Rightarrow> video_qos \<Rightarrow> video_qos" where
  "new_display name q =
     q\<lparr>displays := AList.update name \<lparr>send_counter = 0, support_changing_quality = False\<rparr> (displays q)\<rparr>"

definition remove_display :: "string \<Rightarrow> video_qos \<Rightarrow> video_qos" where
  "remove_display name q = q\<lparr>displays := AList.delete name (displays q)\<rparr>"

definition update_display_data :: "nat \<Rightarrow> string \<Rightarrow> nat \<Rightarrow> video_qos \<Rightarrow> video_qos option" where
  "update_display_data now name sent q = do {
     let q = (case map_of (displays q) name of
                Some d \<Rightarrow> q\<lparr>displays := AList.update name (d\<lparr>send_counter := (send_counter d + sent) mod 2 ^ 64\<rparr>) (displays q)\<rparr>
              | None \<Rightarrow> q);
     q \<leftarrow> adjust_fps now q;
     if in_vbr_state q then
       if elapsed_secs now (adjust_ratio_instant q) \<ge> 3 then
         let dynamic_screen = list_ex (\<lambda>(_, d). send_counter d \<ge> 3 * 2) (displays q);
             q = q\<lparr>displays := map (\<lambda>(n, d). (n, d\<lparr>send_counter := 0\<rparr>)) (displays q)\<rparr>
         in adjust_ratio now dynamic_screen q
       else Some q
     else Some (q\<lparr>qos_ratio := quality_ratio (latest_quality q)\<rparr>)
   }"

section \<open>Clients of the controller\<close>

text \<open>
  \<open>update_options\<close> of a connection (\<open>src/server/connection.rs\<close>), the part that talks to the
  controller: the quality is one of the enumeration's values or a custom number.
\<close>

definition update_options_qos :: "int \<Rightarrow> int \<Rightarrow> int \<Rightarrow> int \<Rightarrow> int \<Rightarrow> video_qos \<Rightarrow> video_qos option" where
  "update_options_qos time i image_quality custom_image_quality cfps q = do {
     q \<leftarrow> (if image_quality \<in> {0, 2, 3, 4} then
             let iq = (if image_quality = 0 then (if custom_image_quality > 0 then custom_image_quality else -1)
                       else image_quality)
             in if iq > 0 then user_image_quality time i iq q else Some q
           else Some q);
     Some (if cfps > 0 then user_custom_fps i (nat cfps) q else q)
   }"

text \<open>
  The encoder is a parameter: whether it can change its quality, the change, and its bit rate.
  A stream is what a video service keeps of the decisions it has applied.
\<close>

record 'e encoder_ops =
  enc_supports :: "'e \<Rightarrow> bool"
  enc_set_quality :: "f32 \<Rightarrow> 'e \<Rightarrow> 'e"
  enc_bitrate :: "'e \<Rightarrow> nat"

record 'e stream =
  sm_encoder :: 'e
  sm_ratio :: f32
  sm_spf :: f32
  sm_sent :: nat
  sm_second :: nat

text \<open>The part of \<open>check_qos\<close> that applies a changed ratio; the flag is false on \<open>bail!("SWITCH")\<close>.\<close>

definition follow_ratio :: "'e encoder_ops \<Rightarrow> 'e stream \<Rightarrow> video_qos \<Rightarrow> bool \<times> 'e stream \<times> video_qos" where
  "follow_ratio E s q =
     (case get_ratio q of (r, q) \<Rightarrow>
        if sm_ratio s \<noteq> r then
          let s = s\<lparr>sm_ratio := r\<rparr> in
          if enc_supports E (sm_encoder s) then
            let e = enc_set_quality E r (sm_encoder s)
            in (True, s\<lparr>sm_encoder := e\<rparr>, store_bitrate (enc_bitrate E e) q)
          else (in_vbr_state q \<or> is_custom (latest_quality q), s, q)
        else (True, s, q))"

definition check_qos ::
    "'e encoder_ops \<Rightarrow> nat \<Rightarrow> bool \<Rightarrow> string \<Rightarrow> 'e stream \<Rightarrow> video_qos \<Rightarrow>
     ((string + unit) \<times> 'e stream \<times> video_qos) option" where
  "check_qos E now client_record name s q = do {
     f \<leftarrow> spf q;
     let (ok, s, q) = follow_ratio E (s\<lparr>sm_spf := f\<rparr>) q;
     if \<not> ok \<or> client_record \<noteq> qos_record q then Some (Inl ''SWITCH'', s, q)
     else if now - sm_second s > 10 ^ 9 then do {
       q \<leftarrow> update_display_data now name (sm_sent s) q;
       Some (Inr (), s\<lparr>sm_second := now, sm_sent := 0\<rparr>, q)
     }
     else Some (Inr (), s, q)
   }"

section \<open>Runs\<close>

datatype qos_event =
    ConnectionOpen nat string int
  | ConnectionClose nat int
  | OptionsMsg int int int int int
  | AutoAdjustFps int nat
  | RecordStatus int bool
  | TestDelay nat int nat
  | DelayElapsed nat int nat
  | NewDisplay string
  | RemoveDisplay string
  | SupportQuality string bool
  | StoreBitrate nat
  | ReadRatio
  | DisplayData nat string nat

fun qos_exec :: "bool \<Rightarrow> qos_event \<Rightarrow> video_qos \<Rightarrow> video_qos option" where
  "qos_exec linux (ConnectionOpen now abr i) q = Some (on_connection_open now abr i q)"
| "qos_exec linux (ConnectionClose now i) q = Some (on_connection_close now i q)"
| "qos_exec linux (OptionsMsg t i iq cq cf) q = update_options_qos t i iq cq cf q"
| "qos_exec linux (AutoAdjustFps i f) q = Some (user_auto_adjust_fps i f q)"
| "qos_exec linux (RecordStatus i v) q = Some (user_record i v q)"
| "qos_exec linux (TestDelay now i d) q = user_network_delay linux now i d q"
| "qos_exec linux (DelayElapsed now i e) q = user_delay_response_elapsed now i e q"
| "qos_exec linux (NewDisplay n) q = Some (new_display n q)"
| "qos_exec linux (RemoveDisplay n) q = Some (remove_display n q)"
| "qos_exec linux (SupportQuality n b) q = Some (set_support_changing_quality n b q)"
| "qos_exec linux (StoreBitrate b) q = Some (store_bitrate b q)"
| "qos_exec linux ReadRatio q = Some (snd (get_ratio q))"
| "qos_exec linux (DisplayData now n c) q = update_display_data now n c q"

inductive qos_reachable :: "bool \<Rightarrow> video_qos \<Rightarrow> bool" for linux where
  Start: "qos_reachable linux (qos_default now)"
| Event: "qos_reachable linux q \<Longrightarrow> qos_exec linux ev q = Some q' \<Longrightarrow> qos_reachable linux q'"
| Rehash: "qos_reachable linux q \<Longrightarrow> mset us = mset (users q) \<Longrightarrow> mset ds = mset (displays q) \<Longrightarrow>
    qos_reachable linux (q\<lparr>users := us, displays := ds\<rparr>)"

section \<open>Well-formed controllers\<close>

definition fps_ok :: "nat option \<Rightarrow> bool" where
  "fps_ok f = (case f of Some f \<Rightarrow> MIN_FPS \<le> f \<and> f \<le> MAX_FPS | None \<Rightarrow> True)"

definition quality_ok :: "quality \<Rightarrow> bool" where
  "quality_ok c = (case c of Custom v \<Rightarrow> BR_MIN \<le> v \<and> v \<le> BR_MAX \<and> is_f32 v | _ \<Rightarrow> True)"

definition delay_wf :: "user_delay \<Rightarrow> bool" where
  "delay_wf u \<longleftrightarrow> fps_ok (ud_fps u) \<and> length (delay_history u) \<le> 3 \<and> length (samples (rtt_calc u)) \<le> 60"

definition user_wf :: "user_data \<Rightarrow> bool" where
  "user_wf u \<longleftrightarrow> fps_ok (auto_adjust_fps u) \<and> fps_ok (custom_fps u) \<and> delay_wf (delay u)
     \<and> (case user_quality u of Some (_, c) \<Rightarrow> quality_ok c | None \<Rightarrow> True)"

definition ratio_ok :: "f32 \<Rightarrow> bool" where
  "ratio_ok r \<longleftrightarrow> BR_MIN_HIGH_RESOLUTION \<le> r \<and> r \<le> BR_MAX \<and> is_f32 r"

definition qos_wf :: "video_qos \<Rightarrow> bool" where
  "qos_wf q \<longleftrightarrow> fps_ok (Some (qos_fps q)) \<and> ratio_ok (qos_ratio q)
     \<and> distinct (map fst (users q)) \<and> (\<forall>(i, u) \<in> set (users q). user_wf u)"

subsection \<open>Ratios\<close>

lemma br_values:
  "BR_BEST = 3 / 2" "BR_BALANCED = 11240735 / 16777216" "BR_SPEED = 1 / 2"
  "BR_MIN = 13421773 / 67108864" "BR_MIN_HIGH_RESOLUTION = 13421773 / 134217728"
  by code_simp+

lemma br_f32 [simp]:
  "is_f32 BR_BEST" "is_f32 BR_BALANCED" "is_f32 BR_SPEED" "is_f32 BR_MIN" "is_f32 BR_MIN_HIGH_RESOLUTION"
  "is_f32 BR_MAX"
  using is_f32_of_nat [of 40]
  by (simp_all add: BR_BEST_def BR_BALANCED_def BR_SPEED_def BR_MIN_def BR_MIN_HIGH_RESOLUTION_def BR_MAX_def
      is_f32_round)

lemma min_ratio_consts: "f32_div BR_BEST (25 / 10) \<le> 1" "f32_div BR_BALANCED 2 \<le> 1 / 2"
  by code_simp+

lemma quality_ratio_ok: "quality_ok c \<Longrightarrow> ratio_ok (quality_ratio c)"
  by (auto simp: quality_ratio_def ratio_ok_def quality_ok_def br_values(1-4) br_values(5) BR_MAX_def split: quality.splits)
    (simp_all flip: br_values)

end
