(* ===== verification/Video_Qos_Proofs.thy ===== *)
theory Video_Qos_Proofs
  imports Video_Qos
begin

text \<open>
  The quality of service controller keeps its frame rate and its bit rate ratio in range in every
  run and never panics; its round trip estimate and its reactions to the network delay.
\<close>

section \<open>Ratios\<close>

lemma ratio_ok_consts: "ratio_ok BR_BALANCED" "BR_MIN_HIGH_RESOLUTION \<le> BR_MIN" "0 < BR_MIN_HIGH_RESOLUTION"
  by (simp_all add: ratio_ok_def) (simp_all add: br_values BR_MAX_def)

lemma ratio_ok_pos: "ratio_ok r \<Longrightarrow> 0 < r"
  using ratio_ok_consts(3) by (simp add: ratio_ok_def)

lemma max_is_f32: "is_f32 x \<Longrightarrow> is_f32 y \<Longrightarrow> is_f32 (max x y)"
  by (simp add: max_def)

lemma min_is_f32: "is_f32 x \<Longrightarrow> is_f32 y \<Longrightarrow> is_f32 (min x y)"
  by (simp add: min_def)

text \<open>The lower bound of the ratio never exceeds the upper bound, so the last \<open>clamp\<close> is safe.\<close>

lemma min_ratio_le:
  assumes "quality_ok c"
  shows "min_ratio c r \<le> quality_ratio c"
proof (cases c)
  case Best
  then show ?thesis
    using min_ratio_consts(1) by (auto simp: min_ratio_def quality_ratio_def br_values Let_def split: option.splits)
next
  case Balanced
  then show ?thesis
    using min_ratio_consts(2) by (auto simp: min_ratio_def quality_ratio_def br_values Let_def split: option.splits)
next
  case Low
  then show ?thesis by (simp add: min_ratio_def quality_ratio_def br_values)
next
  case (Custom v)
  then show ?thesis
    using assms ratio_ok_consts(2) by (simp add: min_ratio_def quality_ratio_def quality_ok_def)
qed

lemma min_ratio_ok:
  assumes "case r of Some x \<Rightarrow> is_f32 x | None \<Rightarrow> True"
  shows "BR_MIN_HIGH_RESOLUTION \<le> min_ratio c r" and "is_f32 (min_ratio c r)"
proof -
  have d: "is_f32 (f32_div BR_BEST (25 / 10))" "is_f32 (f32_div BR_BALANCED 2)" "is_f32 (f32_round (4 / 10))"
    by (simp_all add: f32_div_def is_f32_round br_values)
  show "BR_MIN_HIGH_RESOLUTION \<le> min_ratio c r"
    using ratio_ok_consts(2) by (auto simp: min_ratio_def Let_def le_max_iff_disj split: quality.splits)
  show "is_f32 (min_ratio c r)"
    using assms d by (auto simp: min_ratio_def Let_def intro!: max_is_f32 min_is_f32 split: quality.splits option.splits)
qed

lemma delay_ratio_f32: "0 \<le> r \<Longrightarrow> is_f32 r \<Longrightarrow> is_f32 (delay_ratio d b r)"
  by (simp add: delay_ratio_def f32_mul_def is_f32_round f32_round_nonneg)

lemma clamp_bounds: "clamp v lo hi = Some x \<Longrightarrow> lo \<le> x \<and> x \<le> hi \<and> (x = v \<or> x = lo \<or> x = hi)"
  by (auto simp: clamp_def split: if_splits)

lemma clamp_some: "lo \<le> hi \<Longrightarrow> \<exists>x. clamp v lo hi = Some x"
  by (simp add: clamp_def)

lemma clamp_eq: "lo \<le> hi \<Longrightarrow> clamp v lo hi = Some (max lo (min hi v))"
  by (auto simp: clamp_def max_def min_def)

section \<open>Qualities of the users\<close>

lemma latest_fold:
  "fold (\<lambda>b a. if fst a > fst b then a else b) xs x \<in> set (x # xs) \<and>
   (\<forall>y \<in> set (x # xs). fst y \<le> fst (fold (\<lambda>b a. if fst a > (fst b :: int) then a else b) xs x))"
proof (induction xs arbitrary: x)
  case (Cons b xs)
  show ?case
  proof (cases "fst x > fst b")
    case True
    then show ?thesis using Cons [of x] by force
  next
    case False
    then show ?thesis using Cons [of b] by force
  qed
qed simp

text \<open>The quality in force was set by a connected user, no later than any other; or it is the default.\<close>

lemma latest_quality_cases:
  obtains "latest_quality q = Balanced" "\<forall>(i, u) \<in> set (users q). user_quality u = None"
  | i u t where "(i, u) \<in> set (users q)" "user_quality u = Some (t, latest_quality q)"
      "\<forall>(i', u') \<in> set (users q). \<forall>t' c'. user_quality u' = Some (t', c') \<longrightarrow> t' \<le> t"
proof (cases "List.map_filter (\<lambda>(_, u). user_quality u) (users q)")
  case Nil
  have "user_quality u = None" if "(i, u) \<in> set (users q)" for i u
    using map_filter_set [of _ "\<lambda>(_, u). user_quality u" "users q"] Nil that by (cases "user_quality u") force+
  then show ?thesis using that(1) Nil by (auto simp: latest_quality_def)
next
  case (Cons x xs)
  define y where "y = fold (\<lambda>b a. if fst a > fst b then a else b) xs x"
  note f = latest_fold [of xs x, folded y_def]
  have lq: "latest_quality q = snd y" using Cons by (simp add: latest_quality_def y_def)
  have "y \<in> set (List.map_filter (\<lambda>(_, u). user_quality u) (users q))" using f Cons by simp
  then obtain i u where iu: "(i, u) \<in> set (users q)" "user_quality u = Some y"
    unfolding map_filter_set by auto
  have "t' \<le> fst y" if "(i', u') \<in> set (users q)" "user_quality u' = Some (t', c')" for i' u' t' c'
  proof -
    have "(t', c') \<in> set (List.map_filter (\<lambda>(_, u). user_quality u) (users q))"
      using that unfolding map_filter_set by force
    then show ?thesis using f Cons by force
  qed
  then show ?thesis using that(2) [OF iu(1), of "fst y"] iu(2) lq by auto
qed

lemma latest_quality_ok:
  assumes "\<forall>(i, u) \<in> set (users q). user_wf u"
  shows "quality_ok (latest_quality q)"
proof (cases q rule: latest_quality_cases)
  case 1
  then show ?thesis by (simp add: quality_ok_def)
next
  case (2 i u t)
  then have "user_wf u" using assms by auto
  then show ?thesis using 2(2) by (simp add: user_wf_def)
qed

section \<open>Frame rates\<close>

lemma fold_min: "fold min xs (x :: nat) = Min (set (x # xs))"
  by (simp only: Min.set_eq_fold)

lemma min_list_option_some: "min_list_option xs = Some m \<Longrightarrow> m \<in> set xs \<and> (\<forall>x \<in> set xs. m \<le> x)"
  by (cases xs) (auto simp: min_list_option_def fold_min simp del: Min_insert simp: Min_eq_iff)

lemma min_list_option_none: "min_list_option xs = None \<longleftrightarrow> xs = []"
  by (cases xs) (simp_all add: min_list_option_def)

lemma highest_fps_some: "\<exists>h. highest_fps q = Some h \<and> MIN_FPS \<le> h \<and> h \<le> MAX_FPS"
  by (simp add: highest_fps_def clamp_eq Let_def)

lemma user_fps_ok: "user_wf u \<Longrightarrow> MIN_FPS \<le> user_fps u \<and> user_fps u \<le> MAX_FPS"
  by (auto simp: user_fps_def user_wf_def fps_ok_def Let_def split: option.splits)

lemma highest_fps_le:
  assumes "highest_fps q = Some h" "(i, u) \<in> set (users q)" "user_wf u"
  shows "h \<le> user_fps u"
proof -
  let ?fs = "filter (\<lambda>f. f \<ge> MIN_FPS) (map (\<lambda>(_, u). user_fps u) (users q))"
  have m: "user_fps u \<in> set ?fs" using assms(2) user_fps_ok [OF assms(3)] by force
  then have "?fs \<noteq> []" by (metis empty_iff list.set(1))
  then obtain f where f: "min_list_option ?fs = Some f"
    using min_list_option_none [of ?fs] by (cases "min_list_option ?fs") blast+
  from min_list_option_some [OF f] m have "f \<le> user_fps u" "1 \<le> f" by auto
  moreover have "h = max 1 (min 120 f)" using assms(1) unfolding highest_fps_def f by (simp add: clamp_eq)
  ultimately show ?thesis by simp
qed

lemma adjust_fps_some:
  obtains h f where "highest_fps q = Some h" "MIN_FPS \<le> f" "f \<le> h" "h \<le> MAX_FPS"
    "adjust_fps now q = Some (q\<lparr>qos_fps := f\<rparr>)"
proof -
  obtain h where h: "highest_fps q = Some h" "1 \<le> h" "h \<le> 120" using highest_fps_some by blast
  have "\<exists>v. adjust_fps now q = map_option (\<lambda>f. q\<lparr>qos_fps := f\<rparr>) (clamp v 1 h)"
    unfolding adjust_fps_def h(1) Let_def map_conv_bind_option comp_def Option.bind.simps by (rule exI, rule refl)
  then obtain v where v: "adjust_fps now q = map_option (\<lambda>f. q\<lparr>qos_fps := f\<rparr>) (clamp v 1 h)" ..
  show ?thesis
    by (rule that [of h "max 1 (min h v)"]) (use h v in \<open>simp_all add: clamp_eq\<close>)
qed

section \<open>The operations keep the controller well-formed\<close>

lemma qos_wf_users: "qos_wf q \<Longrightarrow> (i, u) \<in> set (users q) \<Longrightarrow> user_wf u"
  by (auto simp: qos_wf_def)

lemma qos_wf_latest: "qos_wf q \<Longrightarrow> quality_ok (latest_quality q)"
  by (simp add: qos_wf_def latest_quality_ok)

lemma qos_wf_ratio: "qos_wf q \<Longrightarrow> ratio_ok r \<Longrightarrow> qos_wf (q\<lparr>qos_ratio := r\<rparr>)"
  by (simp add: qos_wf_def)

lemma qos_wf_ignored [simp]:
  "qos_wf (q\<lparr>displays := ds\<rparr>) = qos_wf q" "qos_wf (q\<lparr>bitrate_store := b\<rparr>) = qos_wf q"
  "qos_wf (q\<lparr>adjust_ratio_instant := t\<rparr>) = qos_wf q" "qos_wf (q\<lparr>abr_config := a\<rparr>) = qos_wf q"
  "qos_wf (q\<lparr>new_user_instant := t\<rparr>) = qos_wf q"
  by (simp_all add: qos_wf_def)

lemma qos_wf_set_user:
  assumes "qos_wf q" "user_wf u"
  shows "qos_wf (q\<lparr>users := AList.update i u (users q)\<rparr>)"
  using assms set_update_subset [of i u "users q"] by (auto simp: qos_wf_def distinct_update)

lemma adjust_fps_wf: "qos_wf q \<Longrightarrow> \<exists>q'. adjust_fps now q = Some q' \<and> qos_wf q' \<and> users q' = users q"
  by (rule adjust_fps_some [of q now]) (auto simp: qos_wf_def fps_ok_def)

definition worst_delay :: "video_qos \<Rightarrow> nat" where
  "worst_delay q = Max ((\<lambda>(_, u). avg_delay (delay u)) ` set (users q))"

lemma fold_max: "fold max xs (x :: nat) = Max (set (x # xs))"
  by (simp only: Max.set_eq_fold)

lemma adjust_ratio_eq:
  assumes "qos_wf q" "in_vbr_state q" "users q \<noteq> []"
  obtains v lo where "is_f32 v" "v \<le> delay_ratio (worst_delay q) b (qos_ratio q)" "is_f32 lo"
    "BR_MIN_HIGH_RESOLUTION \<le> lo" "lo \<le> quality_ratio (latest_quality q)"
    "lo \<le> min_ratio (latest_quality q) None"
    "adjust_ratio now b q = Some (q\<lparr>qos_ratio := max lo (min (quality_ratio (latest_quality q)) v),
       adjust_ratio_instant := now\<rparr>)"
proof -
  let ?c = "latest_quality q" and ?r = "qos_ratio q"
  have c: "quality_ok ?c" by (rule qos_wf_latest [OF assms(1)])
  have r: "0 \<le> ?r" "is_f32 ?r" using assms(1) ratio_ok_pos [of ?r] by (simp_all add: qos_wf_def ratio_ok_def)
  have m: "f32_mul (quality_ratio ?c) MAX_BR_MULTIPLE = quality_ratio ?c"
    using quality_ratio_ok [OF c] by (simp add: f32_mul_def MAX_BR_MULTIPLE_def ratio_ok_def is_f32_def)
  obtain d ds where ds: "map (\<lambda>(_, u). avg_delay (delay u)) (users q) = d # ds"
    using assms(3) by (cases "users q") auto
  have D: "fold max ds d = worst_delay q"
    unfolding fold_max worst_delay_def set_map [symmetric] ds ..
  define r1 where "r1 = (if bitrate_store q > 0
    then Some (max (f32_div (f32_mul ?r 1000) (f32_of_u32 (bitrate_store q))) BR_MIN_HIGH_RESOLUTION) else None)"
  define ra where "ra = (if bitrate_store q > 0
    then Some (f32_div (f32_mul (f32_of_u32 (u32_add (bitrate_store q) 150)) ?r) (f32_of_u32 (bitrate_store q))) else None)"
  define v0 where "v0 = delay_ratio (worst_delay q) b ?r"
  define v where "v = (case ra of Some x \<Rightarrow> if v0 > x \<and> x > ?r \<and> ?r \<ge> BR_SPEED then x else v0 | None \<Rightarrow> v0)"
  define lo where "lo = min_ratio ?c r1"
  have pos: "0 \<le> f32_of_u32 n" for n by (simp add: f32_of_u32_def f32_round_nonneg)
  have r1: "case r1 of Some x \<Rightarrow> is_f32 x | None \<Rightarrow> True"
    using r pos by (auto simp: r1_def f32_div_def f32_mul_def f32_round_nonneg intro!: max_is_f32 is_f32_round divide_nonneg_nonneg)
  have ra: "case ra of Some x \<Rightarrow> is_f32 x | None \<Rightarrow> True"
    using r pos by (auto simp: ra_def f32_div_def f32_mul_def f32_round_nonneg intro!: is_f32_round divide_nonneg_nonneg)
  have "is_f32 v" "v \<le> v0"
    using ra delay_ratio_f32 [OF r] by (auto simp: v_def v0_def split: option.splits)
  moreover have "lo \<le> min_ratio ?c None"
    by (auto simp: lo_def min_ratio_def Let_def split: quality.splits option.splits)
  moreover have lo: "is_f32 lo" "BR_MIN_HIGH_RESOLUTION \<le> lo" "lo \<le> quality_ratio ?c"
    unfolding lo_def using min_ratio_ok [OF r1] min_ratio_le [OF c] by auto
  moreover have "adjust_ratio now b q =
      map_option (\<lambda>r. q\<lparr>qos_ratio := r, adjust_ratio_instant := now\<rparr>) (clamp v lo (quality_ratio ?c))"
    unfolding adjust_ratio_def Let_def ds list.case D m v_def v0_def lo_def ra_def r1_def
    using assms(2) by simp
  ultimately show ?thesis
    by (intro that [of v lo]) (simp_all add: clamp_eq v0_def)
qed

lemma adjust_ratio_wf:
  assumes "qos_wf q"
  shows "\<exists>q'. adjust_ratio now b q = Some q' \<and> qos_wf q' \<and> users q' = users q"
proof (cases "in_vbr_state q \<and> users q \<noteq> []")
  case True
  let ?t = "quality_ratio (latest_quality q)"
  obtain v lo where v: "is_f32 v" and lo: "is_f32 lo" "BR_MIN_HIGH_RESOLUTION \<le> lo" "lo \<le> ?t"
    and eq: "adjust_ratio now b q = Some (q\<lparr>qos_ratio := max lo (min ?t v), adjust_ratio_instant := now\<rparr>)"
    using adjust_ratio_eq [OF assms, where now = now and b = b] True by metis
  have t: "ratio_ok ?t" by (rule quality_ratio_ok [OF qos_wf_latest [OF assms]])
  have "ratio_ok (max lo (min ?t v))"
    using v lo t by (auto simp: ratio_ok_def intro: max_is_f32 min_is_f32 simp: le_max_iff_disj min_le_iff_disj)
  then have "qos_wf (q\<lparr>qos_ratio := max lo (min ?t v), adjust_ratio_instant := now\<rparr>)"
    using assms by (simp add: qos_wf_def)
  then show ?thesis by (simp add: eq)
next
  case False
  then show ?thesis using assms by (auto simp: adjust_ratio_def)
qed

lemma samples_update: "length (samples r) \<le> 60 \<Longrightarrow> length (samples (rtt_update d r)) \<le> 60"
  by (auto simp: rtt_update_def Let_def split: option.splits)

lemma add_delay_wf: "delay_wf u \<Longrightarrow> delay_wf (add_delay d u)"
  by (auto simp: delay_wf_def add_delay_def Let_def samples_update)

lemma user_default_wf: "user_wf user_data_default"
  by (simp add: user_wf_def user_data_default_def user_delay_default_def rtt_default_def fps_ok_def delay_wf_def)

lemma with_user_wf:
  assumes "qos_wf q" "\<And>u. user_wf u \<Longrightarrow> user_wf (f u)"
  shows "qos_wf (with_user i f q)"
  using assms by (auto simp: with_user_def split: option.splits
      intro!: qos_wf_set_user dest!: map_of_SomeD dest: qos_wf_users)

lemma convert_quality_some: "\<exists>c. convert_quality x = Some c \<and> quality_ok c"
proof (cases "x = 3 \<or> x = 2 \<or> x = 4")
  case False
  let ?v = "f32_div (f32_of_u32 (nat ((drop_bit 8 x AND 0xFFF) * 2))) 100"
  have v: "is_f32 ?v"
    by (simp add: f32_div_def f32_of_u32_def is_f32_round f32_round_nonneg)
  have mm: "BR_MIN \<le> BR_MAX" by (simp add: br_values BR_MAX_def)
  have "convert_quality x = Some (Custom (max BR_MIN (min BR_MAX ?v)))"
    using False by (simp add: convert_quality_def clamp_eq [OF mm])
  then show ?thesis
    using v mm by (auto simp: quality_ok_def intro!: max_is_f32 min_is_f32)
qed (auto simp: convert_quality_def quality_ok_def)

lemma user_image_quality_wf:
  assumes "qos_wf q"
  shows "\<exists>q'. user_image_quality t i x q = Some q' \<and> qos_wf q'"
proof -
  obtain c where c: "convert_quality x = Some c" "quality_ok c" using convert_quality_some by blast
  have w: "qos_wf (with_user i (\<lambda>u. u\<lparr>user_quality := Some (t, c)\<rparr>) q)"
    by (rule with_user_wf [OF assms]) (simp add: user_wf_def c(2))
  then show ?thesis
    using assms by (auto simp: user_image_quality_def c(1) Let_def split: option.split
        intro!: qos_wf_ratio quality_ratio_ok qos_wf_latest)
qed

lemma user_fps_setters_wf:
  assumes "qos_wf q"
  shows "qos_wf (user_custom_fps i f q)" "qos_wf (user_auto_adjust_fps i f q)"
  using assms by (auto simp: user_custom_fps_def user_auto_adjust_fps_def user_wf_def fps_ok_def intro!: with_user_wf)

lemma update_options_wf: "qos_wf q \<Longrightarrow> \<exists>q'. update_options_qos t i a b c q = Some q' \<and> qos_wf q'"
  using user_image_quality_wf [of q t i] user_fps_setters_wf(1)
  by (auto simp: update_options_qos_def Let_def Option.bind_eq_Some_conv split: if_splits; metis)

lemma delay_fps_fields:
  "ud_fps (snd (delay_fps a b c d e u)) = ud_fps u" "delay_history (snd (delay_fps a b c d e u)) = delay_history u"
  "rtt_calc (snd (delay_fps a b c d e u)) = rtt_calc u"
  by (simp_all add: delay_fps_def Let_def split_def)

lemma delay_report_wf:
  assumes "delay_wf u" "MIN_FPS \<le> h" "h \<le> MAX_FPS"
  shows "\<exists>ud first. delay_report a b h f d u = Some (ud, first) \<and> delay_wf ud \<and> (\<exists>g. ud_fps ud = Some g \<and> 1 \<le> g \<and> g \<le> h)"
proof -
  define v where "v = add_delay (max d 10) u"
  have v: "delay_wf v" unfolding v_def by (rule add_delay_wf [OF assms(1)])
  show ?thesis
    using v assms(2,3)
    by (auto simp: delay_report_def Let_def split_def clamp_eq v_def [symmetric] delay_wf_def delay_fps_fields fps_ok_def)
qed

lemma user_network_delay_wf:
  assumes "qos_wf q"
  shows "\<exists>q'. user_network_delay linux now i d q = Some q' \<and> qos_wf q'"
proof -
  obtain h where h: "highest_fps q = Some h" "MIN_FPS \<le> h" "h \<le> MAX_FPS" using highest_fps_some by blast
  have fin: "\<exists>q'. Option.bind (adjust_fps now p) (\<lambda>q. if c then adjust_ratio now False q else Some q) = Some q' \<and> qos_wf q'"
    if p: "qos_wf p" for p c
  proof -
    obtain p' where p': "adjust_fps now p = Some p'" "qos_wf p'" using adjust_fps_wf [OF p] by blast
    then show ?thesis using adjust_ratio_wf [OF p'(2)] by auto
  qed
  show ?thesis
  proof (cases "map_of (users q) i")
    case None
    then show ?thesis
      using fin [OF assms, of False] by (simp add: user_network_delay_def h(1) split_def)
  next
    case (Some u)
    then have u: "user_wf u" using qos_wf_users [OF assms] map_of_SomeD by fast
    obtain a b where ab: "fps_targets (quality_ratio (latest_quality q)) = (a, b)" by fastforce
    obtain ud first where r: "delay_report a b h (qos_fps q) d (delay u) = Some (ud, first)" "delay_wf ud"
      using delay_report_wf [of "delay u" h a b "qos_fps q" d] u h by (auto simp: user_wf_def)
    have "qos_wf (q\<lparr>users := AList.update i (u\<lparr>delay := ud\<rparr>) (users q)\<rparr>)"
      using u r(2) by (intro qos_wf_set_user [OF assms]) (simp add: user_wf_def)
    then show ?thesis
      using fin Some by (simp add: user_network_delay_def h(1) ab r(1))
  qed
qed

lemma delay_elapsed_wf:
  assumes "qos_wf q"
  shows "\<exists>q'. user_delay_response_elapsed now i e q = Some q' \<and> qos_wf q'"
proof (cases "map_of (users q) i")
  case (Some u)
  then have u: "user_wf u" using qos_wf_users [OF assms] map_of_SomeD by fast
  then have w: "qos_wf (q\<lparr>users := AList.update i (u\<lparr>delay := ud\<rparr>) (users q)\<rparr>)" if "delay_wf ud" for ud
    using that by (intro qos_wf_set_user [OF assms]) (simp add: user_wf_def)
  have ud: "delay_wf ((delay u)\<lparr>response_delayed := b\<rparr>)" for b
    using u by (simp add: user_wf_def delay_wf_def)
  obtain q' where "adjust_fps now (q\<lparr>users := AList.update i
      (u\<lparr>delay := add_delay (e mod 2 ^ 32) ((delay u)\<lparr>response_delayed := True\<rparr>)\<rparr>) (users q)\<rparr>) = Some q'" "qos_wf q'"
    using adjust_fps_wf [OF w [OF add_delay_wf [OF ud]]] by blast
  then show ?thesis
    using Some w [OF ud] by (auto simp: user_delay_response_elapsed_def Let_def)
qed (use assms in \<open>simp add: user_delay_response_elapsed_def\<close>)

lemma update_display_data_wf:
  assumes "qos_wf q"
  shows "\<exists>q'. update_display_data now n c q = Some q' \<and> qos_wf q'"
proof -
  define p where "p = (case map_of (displays q) n of
      Some d \<Rightarrow> q\<lparr>displays := AList.update n (d\<lparr>send_counter := (send_counter d + c) mod 2 ^ 64\<rparr>) (displays q)\<rparr> | None \<Rightarrow> q)"
  have "qos_wf p" using assms by (simp add: p_def split: option.split)
  then obtain p' where p': "adjust_fps now p = Some p'" "qos_wf p'" using adjust_fps_wf by blast
  have "qos_wf (p'\<lparr>displays := ds\<rparr>)" for ds using p'(2) by simp
  then show ?thesis
    using p' adjust_ratio_wf [of "p'\<lparr>displays := ds\<rparr>" for ds]
    unfolding update_display_data_def Let_def p_def [symmetric]
    by (auto intro!: qos_wf_ratio quality_ratio_ok qos_wf_latest) metis
qed

lemma default_wf: "qos_wf (qos_default now)"
  by (simp add: qos_wf_def qos_default_def fps_ok_def ratio_ok_consts)

lemma close_wf: "qos_wf q \<Longrightarrow> qos_wf (on_connection_close now i q)"
proof -
  assume "qos_wf q"
  moreover have "set (AList.delete i (users q)) \<subseteq> set (users q)" by (auto simp: AList.delete_eq)
  ultimately have "qos_wf (q\<lparr>users := AList.delete i (users q)\<rparr>)" by (auto simp: qos_wf_def distinct_delete)
  then show ?thesis by (simp add: on_connection_close_def Let_def default_wf)
qed

lemma exec_wf:
  assumes "qos_wf q"
  shows "\<exists>q'. qos_exec linux ev q = Some q' \<and> qos_wf q'"
proof (cases ev)
  case (ConnectionOpen now abr i)
  then show ?thesis using qos_wf_set_user [OF assms user_default_wf] by (simp add: on_connection_open_def)
next
  case (RecordStatus i v)
  then show ?thesis using assms by (auto simp: user_record_def user_wf_def intro!: with_user_wf)
next
  case (SupportQuality n b)
  then show ?thesis using assms by (simp add: set_support_changing_quality_def split: option.split)
next
  case ReadRatio
  then show ?thesis using assms by (simp add: get_ratio_def Let_def qos_wf_ratio ratio_ok_consts)
qed (use assms in \<open>simp_all add: close_wf update_options_wf user_fps_setters_wf user_network_delay_wf delay_elapsed_wf
    new_display_def remove_display_def store_bitrate_def update_display_data_wf\<close>)

lemma rehash_wf: "qos_wf q \<Longrightarrow> mset us = mset (users q) \<Longrightarrow> qos_wf (q\<lparr>users := us\<rparr>)"
  using mset_eq_setD [of us "users q"] mset_eq_imp_distinct_iff [of "map fst us" "map fst (users q)"]
  by (simp add: qos_wf_def)


section \<open>Frame rate limits and delays\<close>

definition capped :: "video_qos \<Rightarrow> bool" where
  "capped q \<longleftrightarrow> (\<forall>(i, u) \<in> set (users q). qos_fps q \<le> user_fps u)"

lemma adjust_fps_capped: "qos_wf q \<Longrightarrow> adjust_fps now q = Some q' \<Longrightarrow> capped q'"
  by (rule adjust_fps_some [of q now]) (fastforce simp: capped_def dest: highest_fps_le qos_wf_users)

lemma adjust_ratio_capped: "adjust_ratio now b q = Some q' \<Longrightarrow> capped q \<Longrightarrow> capped q'"
  by (auto simp: adjust_ratio_def Let_def capped_def split: if_splits list.splits)

lemma capped_ignored [simp]: "capped (q\<lparr>displays := ds\<rparr>) = capped q" "capped (q\<lparr>qos_ratio := r\<rparr>) = capped q"
  by (simp_all add: capped_def)

lemma user_fps_le: "user_wf u \<Longrightarrow> custom_fps u = Some c \<Longrightarrow> user_fps u \<le> c"
    "user_wf u \<Longrightarrow> auto_adjust_fps u = Some a \<Longrightarrow> user_fps u \<le> a"
  by (auto simp: user_wf_def user_fps_def fps_ok_def Let_def split: option.splits)

lemma devide_fps_le:
  assumes "fps \<le> 2 ^ 24" "150 \<le> avg"
  shows "f32_to_u32 (of_int \<lceil>f32_div (f32_of_u32 fps) (f32_div (f32_of_u32 avg) (f32_of_u32 150))\<rceil>) \<le> fps"
proof -
  have "f32_of_u32 150 = 150" using f32_of_u32_exact [of 150] by simp
  moreover have "150 \<le> f32_of_u32 avg"
    using f32_round_ge [of 150 "of_nat avg"] is_f32_of_nat [of 150] assms(2) by (simp add: f32_of_u32_def)
  ultimately have one: "1 \<le> f32_div (f32_of_u32 avg) (f32_of_u32 150)"
    using f32_round_ge [of 1 "f32_of_u32 avg / 150"] is_f32_of_nat [of 1] by (simp add: f32_div_def)
  have "f32_div (of_nat fps) x \<le> of_nat fps" if "1 \<le> x" for x
    unfolding f32_div_def using that assms(1)
    by (intro f32_round_le is_f32_of_nat) (simp_all add: divide_le_eq mult_le_cancel_left1)
  from this [OF one] show ?thesis
    using assms(1) by (simp add: f32_to_u32_def ceiling_le_iff le_nat_iff nat_le_iff min_le_iff_disj)
qed

lemma delay_fps_bounds:
  assumes "fps \<le> 2 ^ 24" "0 < a"
  shows "avg < 200 \<Longrightarrow> a \<le> fst (delay_fps a b old avg fps u)"
    and "150 \<le> avg \<Longrightarrow> fst (delay_fps a b old avg fps u) \<le> max a fps"
    and "200 \<le> avg \<Longrightarrow> fst (delay_fps a b old avg fps u) \<le> a"
proof -
  have div: "150 * a div avg \<le> a" if "150 \<le> avg"
    using that div_le_mono2 [of 150 avg "150 * a"] by simp
  note dv = devide_fps_le [OF assms(1), of avg]
  show "avg < 200 \<Longrightarrow> a \<le> fst (delay_fps a b old avg fps u)"
    by (simp add: delay_fps_def Let_def split_def)
  show "150 \<le> avg \<Longrightarrow> fst (delay_fps a b old avg fps u) \<le> max a fps"
    using dv div by (auto simp: delay_fps_def Let_def max.coboundedI2 max.coboundedI1 min.coboundedI1)
  show "200 \<le> avg \<Longrightarrow> fst (delay_fps a b old avg fps u) \<le> a"
    using div by (auto simp: delay_fps_def Let_def min.coboundedI1)
qed

lemma delay_report_fps:
  fixes a b d f u
  defines "v \<equiv> add_delay (max d 10) u"
  defines "m \<equiv> max (avg_delay v) 10"
  defines "x \<equiv> delay_fps a b (avg_delay u) m f v"
  assumes "delay_report a b h f d u = Some (ud, first)" "MIN_FPS \<le> h"
  shows "ud_fps ud = Some (max 1 (min h (if m < 150 \<and> increase_fps_count (snd x) \<ge> 2 then u32_add (fst x) 1 else fst x)))"
    and "avg_delay ud = avg_delay v"
proof -
  obtain g y where xg: "x = (g, y)" by (cases x)
  have fields: "delay_history y = delay_history v" "rtt_calc y = rtt_calc v"
    using delay_fps_fields [of a b "avg_delay u" m f v] by (simp_all add: x_def [symmetric] xg)
  have eq: "delay_report a b h f d u = Option.bind (clamp (if m < 150 \<and> increase_fps_count y \<ge> 2 then u32_add g 1 else g) 1 h)
     (\<lambda>fps. let w = (if m < 150 then if increase_fps_count y \<ge> 2 then y\<lparr>increase_fps_count := 0\<rparr>
                                     else y\<lparr>increase_fps_count := increase_fps_count y + 1\<rparr>
                     else y\<lparr>increase_fps_count := 0\<rparr>);
                w = (if m > 50 then w\<lparr>quick_increase_fps_count := 0\<rparr> else w)
            in Some (w\<lparr>ud_fps := Some fps\<rparr>, ud_fps w = None))"
    unfolding delay_report_def Let_def v_def [symmetric] m_def [symmetric] x_def [symmetric] xg split_conv
    by (cases "m < 150"; cases "increase_fps_count y \<ge> 2") simp_all
  have "ud_fps ud = Some (max 1 (min h (if m < 150 \<and> increase_fps_count y \<ge> 2 then u32_add g 1 else g)))
      \<and> delay_history ud = delay_history v \<and> rtt_calc ud = rtt_calc v"
    using assms(4,5) unfolding eq Let_def clamp_eq [OF assms(5)] Option.bind.simps
    by (auto simp: fields simp del: max.bounded_iff)
  then show "ud_fps ud = Some (max 1 (min h (if m < 150 \<and> increase_fps_count (snd x) \<ge> 2 then u32_add (fst x) 1 else fst x)))"
    and "avg_delay ud = avg_delay v"
    by (simp_all add: xg avg_delay_def)
qed

lemma delay_report_bounds:
  assumes "delay_report a b h f d u = Some (ud, first)" "f \<le> MAX_FPS" "MIN_FPS \<le> h" "0 < a" "a \<le> MAX_FPS"
  obtains g where "ud_fps ud = Some g" "avg_delay ud < 200 \<Longrightarrow> min a h \<le> g"
    "150 \<le> avg_delay ud \<Longrightarrow> g \<le> max a f" "200 \<le> avg_delay ud \<Longrightarrow> g \<le> a"
proof -
  define v where "v = add_delay (max d 10) u"
  define m where "m = max (avg_delay v) 10"
  define x where "x = delay_fps a b (avg_delay u) m f v"
  have f: "f \<le> 2 ^ 24" using assms(2) by simp
  note B = delay_fps_bounds [OF f assms(4), where avg = m and b = b and old = "avg_delay u" and u = v, folded x_def]
  note R = delay_report_fps [OF assms(1,3), folded v_def, folded m_def, folded x_def]
  have "fst x \<le> max a (f + 5)" if "m < 150"
    using that f by (auto simp: x_def delay_fps_def Let_def split_def u32_add_def)
  then have w: "u32_add (fst x) 1 = fst x + 1" if "m < 150"
    using that assms(2,5) by (simp add: u32_add_def)
  let ?y = "if m < 150 \<and> increase_fps_count (snd x) \<ge> 2 then u32_add (fst x) 1 else fst x"
  have lo: "a \<le> ?y" if "m < 200" using B(1) [OF that] w by simp
  have eq: "?y = fst x" if "150 \<le> m" using that by simp
  have m: "avg_delay ud < 200 \<longleftrightarrow> m < 200" "150 \<le> avg_delay ud \<Longrightarrow> 150 \<le> m" "200 \<le> avg_delay ud \<Longrightarrow> 200 \<le> m"
    unfolding R(2) m_def by auto
  show ?thesis
  proof (rule that [OF R(1)])
    show "min a h \<le> max 1 (min h ?y)" if "avg_delay ud < 200"
      using lo that m(1) by (auto simp: min_def max_def)
    show "max 1 (min h ?y) \<le> max a f" if "150 \<le> avg_delay ud"
      using B(2) eq m(2) [OF that] assms(4) by (auto simp: min_def max_def)
    show "max 1 (min h ?y) \<le> a" if "200 \<le> avg_delay ud"
      using B(3) eq m(3) [OF that] assms(4) by (auto simp: min_def max_def)
  qed
qed

section \<open>Reference definition of the round trip estimate\<close>

definition last_n :: "nat \<Rightarrow> 'a list \<Rightarrow> 'a list" where
  "last_n n xs = drop (length xs - n) xs"

definition rtt_reference :: "nat list \<Rightarrow> nat option" where
  "rtt_reference ds =
     (if length ds < 10 then None
      else if length ds < 60 then Some (Min (set ds))
      else Some ((Min (set ds) + Min (set (last_n 60 ds))) div 2))"

lemma min_list_option_Min: "xs \<noteq> [] \<Longrightarrow> min_list_option xs = Some (Min (set xs))"
  by (cases xs) (simp_all add: min_list_option_def fold_min)

lemma last_n_snoc: "last_n 60 (ds @ [d]) = (if length ds \<ge> 60 then tl (last_n 60 ds) else ds) @ [d]"
proof (cases "length ds \<ge> 60")
  case True
  then have "length ds - 59 = Suc (length ds - 60)" by simp
  then show ?thesis using True by (simp add: last_n_def drop_Suc tl_drop)
qed (simp add: last_n_def)

lemma length_last_n [simp]: "length (last_n n xs) = min n (length xs)"
  by (auto simp: last_n_def)

lemma last_n_short: "length xs \<le> n \<Longrightarrow> last_n n xs = xs"
  by (simp add: last_n_def)

lemma half_sum_exact:
  assumes "m \<le> 2 ^ 23" "w \<le> 2 ^ 23"
  shows "f32_to_u32 (f32_add (f32_mul (1 - 1 / 2) (f32_of_u32 m)) (f32_mul (1 / 2) (f32_of_u32 w))) = (m + w) div 2"
proof -
  have half: "f32_round (of_nat n / 2) = of_nat n / 2" if "n \<le> 2 ^ 24" for n
    using that is_f32_nat_mult [of "int n" "-1"] by (simp add: is_f32_def pow2_def)
  have sum: "of_nat m / 2 + of_nat w / 2 = (of_nat (m + w) / 2 :: rat)" by (simp add: field_simps)
  have "f32_add (f32_mul (1 - 1 / 2) (f32_of_u32 m)) (f32_mul (1 / 2) (f32_of_u32 w)) = of_nat (m + w) / 2"
  proof -
    have "f32_mul (1 - 1 / 2) (f32_of_u32 m) = of_nat m / 2" "f32_mul (1 / 2) (f32_of_u32 w) = of_nat w / 2"
      using half [of m] half [of w] assms by (simp_all add: f32_mul_def)
    moreover have "m + w \<le> 2 ^ 24" using assms by simp
    ultimately show ?thesis using half [of "m + w"] by (simp only: f32_add_def sum)
  qed
  moreover have "\<lfloor>of_nat (m + w) / (2 :: rat)\<rfloor> = int ((m + w) div 2)"
    using floor_divide_of_nat_eq [of "m + w" 2] by simp
  moreover have "(m + w) div 2 \<le> 2 ^ 32 - 1" using assms by simp
  ultimately show ?thesis unfolding f32_to_u32_def by (simp only: nat_int min_absorb1)
qed

lemma rtt_step:
  fixes d xs
  defines "ys \<equiv> (if length xs \<ge> 60 then tl xs else xs) @ [d]"
  assumes "m \<le> 2 ^ 23" "\<forall>x \<in> set ys. x \<le> 2 ^ 23"
  shows "rtt_update d \<lparr>min_rtt = Some m, window_min_rtt = w, smoothed_rtt = s, samples = xs\<rparr> =
    \<lparr>min_rtt = Some (min m d), window_min_rtt = Some (Min (set ys)),
     smoothed_rtt = (if length ys \<ge> 60 then Some ((min m d + Min (set ys)) div 2) else s), samples = ys\<rparr>"
proof -
  have ys: "ys \<noteq> []" by (simp add: ys_def)
  have "min m d \<le> 2 ^ 23" using assms(2) by simp
  moreover have "Min (set ys) \<le> 2 ^ 23" using assms(3) Min_in [of "set ys"] ys by blast
  ultimately have h: "f32_to_u32 (f32_add (f32_mul (1 - 1 / 2) (f32_of_u32 (min m d))) (f32_mul (1 / 2) (f32_of_u32 (Min (set ys)))))
      = (min m d + Min (set ys)) div 2" by (rule half_sum_exact)
  note mlo = min_list_option_Min [OF ys]
  show ?thesis
  proof (cases "length xs \<ge> 60")
    case True
    then show ?thesis
      using h mlo by (cases "d < m") (simp_all add: rtt_update_def ys_def min_def)
  next
    case False
    then show ?thesis
      using h mlo by (cases "d < m") (simp_all add: rtt_update_def ys_def min_def)
  qed
qed

lemma rtt_run:
  assumes "\<forall>d \<in> set ds. d \<le> 2 ^ 23" "ds \<noteq> []"
  shows "fold rtt_update ds rtt_default =
    \<lparr>min_rtt = Some (Min (set ds)), window_min_rtt = Some (Min (set (last_n 60 ds))),
     smoothed_rtt = (if length ds \<ge> 60 then Some ((Min (set ds) + Min (set (last_n 60 ds))) div 2) else None),
     samples = last_n 60 ds\<rparr>"
  using assms
proof (induction ds rule: rev_induct)
  case (snoc d ds)
  show ?case
  proof (cases "ds = []")
    case True
    then show ?thesis
      by (simp add: rtt_update_def rtt_default_def min_list_option_def last_n_def)
  next
    case False
    let ?w = "last_n 60 ds"
    define ys where "ys = (if length ?w \<ge> 60 then tl ?w else ?w) @ [d]"
    have ys: "last_n 60 (ds @ [d]) = ys" by (simp add: ys_def last_n_snoc last_n_short)
    have "set ys \<subseteq> set (ds @ [d])" unfolding ys [symmetric] last_n_def by (rule set_drop_subset)
    then have b: "\<forall>x \<in> set ys. x \<le> 2 ^ 23" using snoc.prems(1) by blast
    have "Min (set ds) \<in> set ds" using False by simp
    then have m: "Min (set ds) \<le> 2 ^ 23" using snoc.prems(1) by simp
    have "fold rtt_update (ds @ [d]) rtt_default = rtt_update d (fold rtt_update ds rtt_default)" by simp
    also have "fold rtt_update ds rtt_default =
      \<lparr>min_rtt = Some (Min (set ds)), window_min_rtt = Some (Min (set ?w)),
       smoothed_rtt = (if length ds \<ge> 60 then Some ((Min (set ds) + Min (set ?w)) div 2) else None), samples = ?w\<rparr>"
      using snoc False by simp
    also note rtt_step [OF m b [unfolded ys_def], folded ys_def]
    moreover have "min (Min (set ds)) d = Min (set (ds @ [d]))" using False by (simp add: min.commute)
    moreover have "length ys \<ge> 60 \<longleftrightarrow> length (ds @ [d]) \<ge> 60" by (auto simp: ys_def)
    moreover have "\<not> length (ds @ [d]) \<ge> 60 \<Longrightarrow> \<not> length ds \<ge> 60" by simp
    ultimately show ?thesis unfolding ys by simp
  qed
qed simp

section \<open>Following the controller\<close>

lemma reachable_wf: "qos_reachable linux q \<Longrightarrow> qos_wf q"
proof (induction rule: qos_reachable.induct)
  case (Event q ev q')
  then show ?case using exec_wf [of q linux ev] by auto
qed (simp_all add: default_wf rehash_wf)

lemma spf_bounds:
  assumes "qos_wf q"
  shows "\<exists>f. spf q = Some f \<and> 1 / 128 \<le> f \<and> f \<le> 1"
proof -
  have g: "1 \<le> get_fps q" "get_fps q \<le> 120" using assms by (auto simp: qos_wf_def fps_ok_def get_fps_def)
  let ?x = "1 / of_nat (get_fps q) :: rat"
  have n: "(1 :: rat) \<le> of_nat (get_fps q)" "of_nat (get_fps q) \<le> (120 :: rat)"
    using g by (metis of_nat_1 of_nat_le_iff, metis of_nat_le_iff of_nat_numeral)
  then have x: "1 / 128 \<le> ?x" "?x \<le> 1" by (simp_all add: le_divide_eq divide_le_eq)
  have "is_f32 (1 / 128)" using is_f32_nat_mult [of 1 "-7"] by (simp add: pow2_def)
  then have "1 / 128 \<le> f32_round ?x" using x by (intro f32_round_ge) simp_all
  moreover have "f32_round ?x \<le> 1" using x is_f32_of_nat [of 1] by (intro f32_round_le) simp_all
  ultimately show ?thesis using g by (simp add: spf_def f32_div_def)
qed

lemma get_ratio_wf: "qos_wf q \<Longrightarrow> get_ratio q = (qos_ratio q, q)"
  by (auto simp: get_ratio_def Let_def qos_wf_def ratio_ok_def)

lemma delay_ratio_le:
  assumes "150 \<le> d" "0 \<le> r" "is_f32 r"
  shows "delay_ratio d b r \<le> r"
proof -
  have "f32_round (95 / 100) \<le> 1" "f32_round (9 / 10) \<le> 1" "f32_round (85 / 100) \<le> 1" "f32_round (8 / 10) \<le> 1"
    "0 \<le> f32_round (95 / 100)" "0 \<le> f32_round (9 / 10)" "0 \<le> f32_round (85 / 100)" "0 \<le> f32_round (8 / 10)"
    by code_simp+
  moreover have "f32_mul r x \<le> r" if "0 \<le> x" "x \<le> 1" for x
    unfolding f32_mul_def using that assms by (intro f32_round_le) (simp_all add: mult_left_le)
  ultimately show ?thesis using assms(1) by (simp add: delay_ratio_def)
qed

lemma network_delay_user:
  assumes "qos_wf q" "map_of (users q) i = Some u" "user_network_delay linux now i d q = Some q'"
    and "map_of (users q') i = Some u'"
    and "fps_targets (quality_ratio (latest_quality q)) = (a, b)" "highest_fps q = Some h"
  shows "\<exists>ud first. delay_report a b h (qos_fps q) d (delay u) = Some (ud, first) \<and> delay u' = ud"
proof -
  obtain ud first p where r: "delay_report a b h (qos_fps q) d (delay u) = Some (ud, first)"
      "adjust_fps now (q\<lparr>users := AList.update i (u\<lparr>delay := ud\<rparr>) (users q)\<rparr>) = Some p"
      "(if first \<and> \<not> linux then adjust_ratio now False p else Some p) = Some q'"
    using assms(2,3,5,6) by (auto simp: user_network_delay_def Option.bind_eq_Some_conv)
  have "users p = AList.update i (u\<lparr>delay := ud\<rparr>) (users q)"
    using r(2) by (rule_tac adjust_fps_some [of "q\<lparr>users := AList.update i (u\<lparr>delay := ud\<rparr>) (users q)\<rparr>" now]) auto
  moreover have "users q' = users p"
    using r(3) by (auto simp: adjust_ratio_def Let_def split: if_splits list.splits)
  ultimately show ?thesis using r(1) assms(4) by (auto simp: update_conv)
qed

lemma event_capped:
  assumes "qos_wf q"
  shows "user_network_delay linux now i d q = Some q' \<Longrightarrow> capped q'"
    and "update_display_data now n c q = Some q' \<Longrightarrow> capped q'"
proof -
  assume r: "user_network_delay linux now i d q = Some q'"
  obtain h where h: "highest_fps q = Some h" "1 \<le> h" "h \<le> 120" using highest_fps_some by blast
  obtain a b where ab: "fps_targets (quality_ratio (latest_quality q)) = (a, b)" by fastforce
  obtain p p' where p: "qos_wf p" "adjust_fps now p = Some p'" "q' = p' \<or> adjust_ratio now False p' = Some q'"
  proof (cases "map_of (users q) i")
    case None
    then show ?thesis using r that [of q] assms
      by (auto simp: user_network_delay_def h(1) ab Option.bind_eq_Some_conv)
  next
    case (Some u)
    have u: "user_wf u" using Some qos_wf_users [OF assms] map_of_SomeD by fast
    obtain ud first where d: "delay_report a b h (qos_fps q) d (delay u) = Some (ud, first)" "delay_wf ud"
      using delay_report_wf [of "delay u" h a b "qos_fps q" d] u h by (auto simp: user_wf_def)
    have "qos_wf (q\<lparr>users := AList.update i (u\<lparr>delay := ud\<rparr>) (users q)\<rparr>)"
      using u d(2) by (intro qos_wf_set_user [OF assms]) (simp add: user_wf_def)
    then show ?thesis using r Some that [of "q\<lparr>users := AList.update i (u\<lparr>delay := ud\<rparr>) (users q)\<rparr>"]
      by (auto simp: user_network_delay_def h(1) ab d(1) Option.bind_eq_Some_conv split: if_splits)
  qed
  then show "capped q'" using adjust_fps_capped adjust_ratio_capped by blast
next
  assume r: "update_display_data now n c q = Some q'"
  define p where "p = (case map_of (displays q) n of
      Some d \<Rightarrow> q\<lparr>displays := AList.update n (d\<lparr>send_counter := (send_counter d + c) mod 2 ^ 64\<rparr>) (displays q)\<rparr> | None \<Rightarrow> q)"
  have "qos_wf p" using assms by (simp add: p_def split: option.split)
  then obtain p' where p': "adjust_fps now p = Some p'" "capped p'"
    using adjust_fps_wf adjust_fps_capped by blast
  show "capped q'"
    using r p' unfolding update_display_data_def Let_def p_def [symmetric]
    by (auto split: if_splits dest!: adjust_ratio_capped)
qed

section \<open>A concrete run\<close>

text \<open>One viewer opens a session and limits the frame rate to 20.\<close>

definition demo_qos :: video_qos where
  "demo_qos = user_custom_fps 1 20 (on_connection_open 0 [] 1 (qos_default 0))"

lemma demo_reachable: "qos_reachable True demo_qos"
proof -
  have "qos_reachable True (on_connection_open 0 [] 1 (qos_default 0))"
    by (rule qos_reachable.Event [OF qos_reachable.Start [of True 0], of "ConnectionOpen 0 [] 1"]) simp
  then show ?thesis
    by (rule qos_reachable.Event [where ev = "OptionsMsg 0 1 0 0 20"])
      (simp add: demo_qos_def update_options_qos_def)
qed

definition demo_user :: user_data where
  "demo_user = user_data_default\<lparr>custom_fps := Some 20\<rparr>"

definition demo_delay :: user_delay where
  "demo_delay = user_delay_default\<lparr>delay_history := [300], ud_fps := Some 5,
     rtt_calc := \<lparr>min_rtt = Some 300, window_min_rtt = Some 300, smoothed_rtt = None, samples = [300]\<rparr>\<rparr>"

lemma demo_values:
  "map_of (users demo_qos) 1 = Some demo_user" "highest_fps demo_qos = Some 20" "latest_quality demo_qos = Balanced"
  "fps_targets (quality_ratio (latest_quality demo_qos)) = (10, 20)" "avg_delay demo_delay = 300"
  "in_vbr_state demo_qos" "users demo_qos = [(1, demo_user)]" "qos_fps demo_qos = 30"
  by (simp_all add: demo_qos_def user_custom_fps_def with_user_def on_connection_open_def qos_default_def demo_user_def
      highest_fps_def user_fps_def clamp_def min_list_option_def user_data_default_def latest_quality_def List.map_filter_def
      fps_targets_def quality_ratio_def br_values avg_delay_def demo_delay_def u32_add_def get_rtt_def in_vbr_state_def)

definition demo_qos' :: video_qos where
  "demo_qos' = demo_qos\<lparr>qos_fps := 5, users := [(1, demo_user\<lparr>delay := demo_delay\<rparr>)]\<rparr>"

lemma demo_step: "qos_exec True (TestDelay 0 1 300) demo_qos = Some demo_qos'"
proof -
  have "delay_report 10 20 20 30 300 (delay demo_user) = Some (demo_delay, True)"
    by (simp add: delay_report_def demo_user_def user_data_default_def user_delay_default_def add_delay_def rtt_default_def
        rtt_update_def min_list_option_def avg_delay_def u32_add_def get_rtt_def delay_fps_def clamp_def demo_delay_def)
  moreover have "AList.update 1 (demo_user\<lparr>delay := demo_delay\<rparr>) (users demo_qos) = [(1, demo_user\<lparr>delay := demo_delay\<rparr>)]"
    by (simp add: demo_values)
  moreover have "adjust_fps 0 (demo_qos\<lparr>users := [(1, demo_user\<lparr>delay := demo_delay\<rparr>)]\<rparr>) = Some demo_qos'"
    by (simp add: adjust_fps_def highest_fps_def user_fps_def demo_user_def min_list_option_def clamp_def user_data_default_def
        demo_delay_def user_delay_default_def demo_qos'_def)
  ultimately show ?thesis by (simp add: user_network_delay_def demo_values(1,2,7,8) demo_values(4))
qed

section \<open>Properties\<close>

text \<open>
  C18. In every run of the controller, whatever the peers, the clock and the iteration order of
  its tables do, the frame rate stays between 1 and 120, the bit rate ratio between 0.1 and 40
  and every per-user record within its bounds; and no operation panics: in each such state
  every event has a result.
\<close>

theorem qos_never_panics:
  assumes "qos_reachable linux q"
  shows "qos_wf q \<and> qos_exec linux ev q \<noteq> None"
  using reachable_wf [OF assms] exec_wf [of q linux ev] by auto

theorem qos_never_panics_witness: "qos_wf demo_qos \<and> qos_exec True (TestDelay 0 1 300) demo_qos \<noteq> None"
  by (rule qos_never_panics [OF demo_reachable])

text \<open>
  After a delay report and after the once-a-second report of a video service, the frame rate
  is at most the limit each connected user has set and at most the limit its client adjusts.
\<close>

theorem frame_rate_within_limits:
  assumes "qos_reachable linux q" "qos_exec linux ev q = Some q'"
    and "ev = TestDelay now i d \<or> ev = DisplayData now n c"
    and "(k, u) \<in> set (users q')"
  shows "(\<forall>f. custom_fps u = Some f \<longrightarrow> qos_fps q' \<le> f) \<and> (\<forall>f. auto_adjust_fps u = Some f \<longrightarrow> qos_fps q' \<le> f)"
proof -
  have wf: "qos_wf q" by (rule reachable_wf [OF assms(1)])
  then have "user_wf u" using exec_wf [OF wf, of linux ev] assms(2,4) by (auto dest: qos_wf_users)
  moreover have "capped q'"
    using assms(2,3) event_capped [OF wf] by auto
  ultimately show ?thesis
    using assms(4) by (fastforce simp: capped_def dest: user_fps_le)
qed

theorem frame_rate_within_limits_witness: "qos_fps demo_qos' \<le> 20 \<and> custom_fps (snd (hd (users demo_qos'))) = Some 20"
proof -
  have "(1, demo_user\<lparr>delay := demo_delay\<rparr>) \<in> set (users demo_qos')" by (simp add: demo_qos'_def)
  with frame_rate_within_limits [OF demo_reachable demo_step disjI1 [OF refl]]
  show ?thesis by (fastforce simp: demo_qos'_def demo_user_def)
qed

text \<open>
  The reaction to a delay report of a connected user: below 200 ms of average delay its frame
  rate is at least the minimum of the quality level (unless a user's limit is lower); from 150 ms
  on it does not grow beyond the current rate and that minimum, and from 200 ms on it is at most
  that minimum. Between 150 and 200 ms the rate is thus not below the minimum, although the
  comment of the module says so for every delay from 150 ms on.
\<close>

theorem congestion_response:
  assumes "qos_reachable linux q" "map_of (users q) i = Some u"
    and "qos_exec linux (TestDelay now i d) q = Some q'" "map_of (users q') i = Some u'"
    and "fps_targets (quality_ratio (latest_quality q)) = (a, b)" "highest_fps q = Some h"
  shows "\<exists>g. ud_fps (delay u') = Some g
    \<and> (avg_delay (delay u') < 200 \<longrightarrow> min a h \<le> g)
    \<and> (150 \<le> avg_delay (delay u') \<longrightarrow> g \<le> max a (qos_fps q))
    \<and> (200 \<le> avg_delay (delay u') \<longrightarrow> g \<le> a)"
proof -
  have wf: "qos_wf q" by (rule reachable_wf [OF assms(1)])
  have h: "1 \<le> h" using highest_fps_some [of q] assms(6) by auto
  have a: "0 < a" "a \<le> 120" using assms(5) by (auto simp: fps_targets_def split: if_splits)
  have f: "qos_fps q \<le> 120" using wf by (simp add: qos_wf_def fps_ok_def)
  obtain ud first where r: "delay_report a b h (qos_fps q) d (delay u) = Some (ud, first)" "delay u' = ud"
    using network_delay_user [OF wf assms(2) assms(3) [unfolded qos_exec.simps] assms(4-6)] by blast
  obtain g where "ud_fps ud = Some g" "avg_delay ud < 200 \<Longrightarrow> min a h \<le> g"
      "150 \<le> avg_delay ud \<Longrightarrow> g \<le> max a (qos_fps q)" "200 \<le> avg_delay ud \<Longrightarrow> g \<le> a"
    using delay_report_bounds [OF r(1) f h a] by metis
  then show ?thesis using r(2) by blast
qed

theorem congestion_response_witness: "\<exists>g. ud_fps (delay (snd (hd (users demo_qos')))) = Some g \<and> g \<le> 10"
proof -
  have "map_of (users demo_qos') 1 = Some (demo_user\<lparr>delay := demo_delay\<rparr>)" by (simp add: demo_qos'_def)
  from congestion_response [OF demo_reachable demo_values(1) demo_step this demo_values(4,2)]
  show ?thesis using demo_values(5) by (auto simp: demo_qos'_def)
qed

text \<open>
  When the adjustment of the bit rate runs with users connected, the new ratio is at most the
  ratio of the quality the users asked for last; and if the worst average delay is 150 ms or more
  it does not grow, except up to the lower bound of that quality level.
\<close>

theorem bit_rate_backs_off:
  assumes "qos_reachable linux q" "in_vbr_state q" "users q \<noteq> []" "adjust_ratio now b q = Some q'"
  shows "qos_ratio q' \<le> quality_ratio (latest_quality q)
    \<and> (150 \<le> worst_delay q \<longrightarrow> qos_ratio q' \<le> max (qos_ratio q) (min_ratio (latest_quality q) None))"
proof -
  have wf: "qos_wf q" by (rule reachable_wf [OF assms(1)])
  let ?t = "quality_ratio (latest_quality q)"
  obtain v lo where v: "v \<le> delay_ratio (worst_delay q) b (qos_ratio q)" "lo \<le> ?t" "lo \<le> min_ratio (latest_quality q) None"
    and q': "qos_ratio q' = max lo (min ?t v)"
    by (rule adjust_ratio_eq [OF wf assms(2,3), where now = now and b = b]) (use assms(4) in auto)
  have "delay_ratio (worst_delay q) b (qos_ratio q) \<le> qos_ratio q" if "150 \<le> worst_delay q"
    using that wf ratio_ok_pos [of "qos_ratio q"] by (intro delay_ratio_le) (simp_all add: qos_wf_def ratio_ok_def)
  then show ?thesis using v q' by (auto simp: le_max_iff_disj min_le_iff_disj)
qed

theorem bit_rate_backs_off_witness: "map_option (\<lambda>q'. qos_ratio q' \<le> BR_BALANCED) (adjust_ratio 9 True demo_qos) = Some True"
proof -
  have c: "in_vbr_state demo_qos" "users demo_qos \<noteq> []" "quality_ratio (latest_quality demo_qos) = BR_BALANCED"
    by (simp_all add: demo_values quality_ratio_def)
  obtain q' where q': "adjust_ratio 9 True demo_qos = Some q'"
    using adjust_ratio_wf [OF reachable_wf [OF demo_reachable]] by blast
  then show ?thesis using bit_rate_backs_off [OF demo_reachable c(1,2) q'] c(3) by simp
qed

text \<open>
  C19. The streaming estimate of the round trip time is the reference one over the whole history
  of delays: none before ten samples, the least delay ever seen up to sixty, and from then on the
  mean of that and the least of the last sixty. The single precision arithmetic is exact for
  delays up to \<open>2 ^ 23\<close> milliseconds.
\<close>

theorem rtt_estimate_equals_reference:
  assumes "\<forall>d \<in> set ds. d \<le> 2 ^ 23"
  shows "get_rtt (fold rtt_update ds rtt_default) = rtt_reference ds"
proof (cases "ds = []")
  case False
  then show ?thesis
    using rtt_run [OF assms False] by (auto simp: get_rtt_def rtt_reference_def)
qed (simp add: get_rtt_def rtt_reference_def rtt_default_def)

theorem rtt_estimate_equals_reference_witness: "get_rtt (fold rtt_update (replicate 59 40 @ [20]) rtt_default) = Some 20"
proof -
  have "\<forall>d \<in> set (replicate 59 40 @ [20 :: nat]). d \<le> 2 ^ 23" by simp
  moreover have "rtt_reference (replicate 59 40 @ [20]) = Some 20" by code_simp
  ultimately show ?thesis using rtt_estimate_equals_reference by metis
qed

text \<open>
  A video service that checks the controller always gets an answer. Afterwards its stream uses
  the controller's ratio and a frame interval between 1/128 and 1 second, and the controller is
  in a state of a run again.
\<close>

theorem stream_follows_controller:
  assumes "qos_reachable linux q"
  shows "\<exists>r s' q'. check_qos E now rec n s q = Some (r, s', q') \<and> qos_reachable linux q'
    \<and> sm_ratio s' = qos_ratio q \<and> 1 / 128 \<le> sm_spf s' \<and> sm_spf s' \<le> 1"
proof -
  have wf: "qos_wf q" by (rule reachable_wf [OF assms])
  obtain f where f: "spf q = Some f" "1 / 128 \<le> f" "f \<le> 1" using spf_bounds [OF wf] by blast
  obtain ok t p where r: "follow_ratio E (s\<lparr>sm_spf := f\<rparr>) q = (ok, t, p)" by (metis prod_cases3)
  then have t: "sm_ratio t = qos_ratio q" "sm_spf t = f" and p: "qos_reachable linux p"
    using assms qos_reachable.Event [OF assms, of "StoreBitrate b" for b]
    by (auto simp: follow_ratio_def get_ratio_wf [OF wf] Let_def split: if_splits)
  obtain p' where "update_display_data now n (sm_sent t) p = Some p'" "qos_reachable linux p'"
    using update_display_data_wf [OF reachable_wf [OF p], of now n "sm_sent t"] qos_reachable.Event [OF p, of "DisplayData now n (sm_sent t)"] by auto
  then show ?thesis
    using f t p by (simp add: check_qos_def r)
qed

theorem stream_follows_controller_witness:
  "\<exists>r s' q'. check_qos \<lparr>enc_supports = \<lambda>_. True, enc_set_quality = \<lambda>_ e. e, enc_bitrate = \<lambda>e. e\<rparr> 5 False ''monitor0''
     \<lparr>sm_encoder = 3 :: nat, sm_ratio = 1, sm_spf = 1, sm_sent = 0, sm_second = 0\<rparr> demo_qos = Some (r, s', q')
     \<and> qos_reachable True q' \<and> sm_ratio s' = qos_ratio demo_qos \<and> 1 / 128 \<le> sm_spf s' \<and> sm_spf s' \<le> 1"
  by (rule stream_follows_controller [OF demo_reachable])

end
