(* ===== verification/Dir_Tree.thy ===== *)
theory Dir_Tree
  imports File_Transfer
begin

text \<open>
  Directory trees: listing, the recursive listings a transfer starts from, and the removal of
  empty directories (\<open>libs/hbb_common/src/fs.rs\<close>: \<open>read_dir\<close>, \<open>read_dir_recursive\<close>,
  \<open>read_empty_dirs_recursive\<close>, \<open>remove_all_empty_dir\<close>), in the build for Unix.

  The part of the file system below a directory is a tree; a path is the list of its components,
  with the links of the path given to an operation resolved. A symbolic link inside the tree
  carries whether it leads to a directory, which is what \<open>is_dir\<close> asks of it. A name that is not
  UTF-8 reads as the empty string, as \<open>to_str().unwrap_or("")\<close> does; \<open>NoMeta\<close> is an entry whose
  metadata cannot be read. \<open>RegFile\<close> is every node that is neither a directory nor a link: the source
  lists named pipes, sockets and devices as \<open>FileType::File\<close> too.
\<close>

section \<open>Trees and entries\<close>

datatype fnode =
    RegFile u64 int
  | DirNode bool int "(string \<times> fnode) list"
  | SymLink bool int
  | NoMeta

fun node_at :: "fnode \<Rightarrow> string list \<Rightarrow> fnode option" where
  "node_at n [] = Some n"
| "node_at (DirNode r m es) (c # cs) = (case map_of es c of Some n \<Rightarrow> node_at n cs | None \<Rightarrow> None)"
| "node_at _ (c # cs) = None"

datatype file_type = Dir | DirLink | DirDrive | File | FileLink

record dir_entry = file_entry +
  fe_type :: file_type
  fe_hidden :: bool

record file_directory =
  fd_path :: "string list"
  fd_entries :: "dir_entry list"

text \<open>\<open>duration_since(UNIX_EPOCH)\<close> fails for an earlier time and gives 0.\<close>

definition unix_secs :: "int \<Rightarrow> u64" where
  "unix_secs m = (if m < 0 then 0 else of_int m)"

text \<open>The body of the loop of \<open>read_dir\<close>: the entry of a child, if it is listed.\<close>

definition list_entry :: "bool \<Rightarrow> string \<times> fnode \<Rightarrow> dir_entry option" where
  "list_entry include_hidden c =
     (case c of (name, node) \<Rightarrow>
        let is_hidden = starts_with name ''.'';
            entry = (\<lambda>t sz m. Some \<lparr>fe_name = name, fe_size = sz, fe_modified_time = unix_secs m,
                                   fe_type = t, fe_hidden = is_hidden\<rparr>)
        in if name = [] then None
           else case node of
                  NoMeta \<Rightarrow> None
                | _ \<Rightarrow>
                    if is_hidden \<and> \<not> include_hidden then None
                    else (case node of
                            DirNode _ m _ \<Rightarrow> entry Dir 0 m
                          | SymLink True m \<Rightarrow> entry DirLink 0 m
                          | SymLink False m \<Rightarrow> entry FileLink 0 m
                          | RegFile sz m \<Rightarrow> entry File sz m
                          | NoMeta \<Rightarrow> None))"

definition read_dir :: "fnode \<Rightarrow> string list \<Rightarrow> bool \<Rightarrow> fs_error + file_directory" where
  "read_dir T path include_hidden =
     (case node_at T path of
        Some (DirNode readable _ es) \<Rightarrow>
          if readable then Inr \<lparr>fd_path = path, fd_entries = List.map_filter (list_entry include_hidden) es\<rparr>
          else Inl (FsErr ''Permission denied'')
      | Some _ \<Rightarrow> Inl (FsErr ''Not a directory'')
      | None \<Rightarrow> Inl (FsErr ''No such file or directory''))"

section \<open>Recursive listings\<close>

text \<open>Listed entries are children, so the recursion goes down the tree.\<close>

lemma listed_child:
  assumes "read_dir T path h = Inr fd" "e \<in> set (fd_entries fd)"
  obtains r m es n where "node_at T path = Some (DirNode r m es)" "(fe_name e, n) \<in> set es" "list_entry h (fe_name e, n) = Some e"
proof -
  obtain r m es where T: "node_at T path = Some (DirNode r m es)" and fd: "fd_entries fd = List.map_filter (list_entry h) es"
    using assms(1) by (auto simp: read_dir_def split: option.splits fnode.splits if_splits)
  from assms(2) obtain c where c: "c \<in> set es" "list_entry h c = Some e"
    unfolding fd by (auto simp: List.map_filter_def)
  then have "fst c = fe_name e"
    by (auto simp: list_entry_def Let_def split: prod.splits fnode.splits if_splits bool.splits)
  with that T c show ?thesis by (metis prod.collapse)
qed

lemma node_at_append: "node_at T (p @ q) = (case node_at T p of Some n \<Rightarrow> node_at n q | None \<Rightarrow> None)"
  by (induction T p rule: node_at.induct) (auto split: option.splits)

lemma node_at_child_size:
  assumes "node_at T path = Some (DirNode r m es)" "node_at T (path @ [c]) = Some n"
  shows "size n < size (DirNode r m es)"
proof -
  have "map_of es c = Some n" using assms by (auto simp: node_at_append split: option.splits)
  then have "(c, n) \<in> set es" by (rule map_of_SomeD)
  then show ?thesis
    by (induction es) auto
qed

definition node_weight :: "fnode \<Rightarrow> string list \<Rightarrow> nat" where
  "node_weight T path = (case node_at T path of Some n \<Rightarrow> size n | None \<Rightarrow> 0)"

lemma node_weight_child:
  assumes "read_dir T path h = Inr fd" "e \<in> set (fd_entries fd)"
  shows "node_weight T (path @ [fe_name e]) < node_weight T path"
proof -
  obtain r m es where T: "node_at T path = Some (DirNode r m es)" using listed_child [OF assms] by metis
  then show ?thesis
    using node_at_child_size [OF T] by (auto simp: node_weight_def split: option.split)
qed

function read_dir_recursive :: "fnode \<Rightarrow> string list \<Rightarrow> string \<Rightarrow> bool \<Rightarrow> fs_error + dir_entry list" where
  "read_dir_recursive T path prefix include_hidden =
     (case node_at T path of
        Some (DirNode _ _ _) \<Rightarrow>
          (case read_dir T path include_hidden of
             Inl e \<Rightarrow> Inl e
           | Inr fd \<Rightarrow>
               Inr (concat (map (\<lambda>e.
                 case fe_type e of
                   File \<Rightarrow> [e\<lparr>fe_name := path_join prefix (fe_name e)\<rparr>]
                 | Dir \<Rightarrow>
                     (case read_dir_recursive T (path @ [fe_name e]) (path_join prefix (fe_name e)) include_hidden of
                        Inr tmp \<Rightarrow> tmp
                      | Inl _ \<Rightarrow> [])
                 | _ \<Rightarrow> []) (fd_entries fd))))
      | Some (RegFile sz m) \<Rightarrow>
          Inr [\<lparr>fe_name = [], fe_size = sz, fe_modified_time = unix_secs m, fe_type = File, fe_hidden = False\<rparr>]
      | _ \<Rightarrow> Inl (FsErr ''Not exists''))"
  by pat_completeness auto
termination
  by (relation "measure (\<lambda>(T, path, _, _). node_weight T path)") (simp_all add: node_weight_child)

definition get_recursive_files :: "fnode \<Rightarrow> string list \<Rightarrow> bool \<Rightarrow> fs_error + dir_entry list" where
  "get_recursive_files T path include_hidden = read_dir_recursive T path [] include_hidden"

function read_empty_dirs_recursive :: "fnode \<Rightarrow> string list \<Rightarrow> bool \<Rightarrow> fs_error + file_directory list" where
  "read_empty_dirs_recursive T path include_hidden =
     (case node_at T path of
        Some (DirNode _ _ _) \<Rightarrow>
          (case read_dir T path include_hidden of
             Inl e \<Rightarrow> Inl e
           | Inr fd \<Rightarrow>
               Inr (if fd_entries fd = [] then [fd]
                    else concat (map (\<lambda>e.
                      if fe_type e = Dir then
                        (case read_empty_dirs_recursive T (path @ [fe_name e]) include_hidden of
                           Inr tmp \<Rightarrow> tmp
                         | Inl _ \<Rightarrow> [])
                      else []) (fd_entries fd))))
      | Some (RegFile _ _) \<Rightarrow> Inr []
      | _ \<Rightarrow> Inl (FsErr ''Not exists''))"
  by pat_completeness auto
termination
  by (relation "measure (\<lambda>(T, path, _). node_weight T path)") (simp_all add: node_weight_child)

definition get_empty_dirs_recursive :: "fnode \<Rightarrow> string list \<Rightarrow> bool \<Rightarrow> fs_error + file_directory list" where
  "get_empty_dirs_recursive T path include_hidden = read_empty_dirs_recursive T path include_hidden"

declare read_dir_recursive.simps [simp del] read_empty_dirs_recursive.simps [simp del]

section \<open>Removal\<close>

text \<open>
  What is left of the tree at a path after \<open>remove_all_empty_dir\<close>: \<open>None\<close> if it was removed.
  Removing a link or a directory can fail in the operating system; the code ignores it. A
  directory that loses an entry gets a new modification time.
\<close>

record rm_os =
  unlink_ok :: "string list \<Rightarrow> bool"
  rmdir_ok :: "string list \<Rightarrow> bool"
  rm_now :: int

fun remove_all_empty_dir :: "rm_os \<Rightarrow> string list \<Rightarrow> fnode \<Rightarrow> fnode option"
  and remove_entries :: "rm_os \<Rightarrow> string list \<Rightarrow> (string \<times> fnode) list \<Rightarrow> (string \<times> fnode) list" where
  "remove_all_empty_dir os path (DirNode readable m es) =
     (if \<not> readable then Some (DirNode readable m es)
      else
        let es' = remove_entries os path es in
        if es' = [] \<and> rmdir_ok os path then None
        else Some (DirNode readable (if length es' < length es then rm_now os else m) es'))"
| "remove_all_empty_dir os path n = Some n"
| "remove_entries os path [] = []"
| "remove_entries os path ((name, n) # es) =
     (case list_entry True (name, n) of
        None \<Rightarrow> [(name, n)]
      | Some e \<Rightarrow>
          (case fe_type e of
             Dir \<Rightarrow> (case remove_all_empty_dir os (path @ [name]) n of Some n' \<Rightarrow> [(name, n')] | None \<Rightarrow> [])
           | DirLink \<Rightarrow> if unlink_ok os (path @ [name]) then [] else [(name, n)]
           | FileLink \<Rightarrow> if unlink_ok os (path @ [name]) then [] else [(name, n)]
           | _ \<Rightarrow> [(name, n)]))
     @ remove_entries os path es"

text \<open>The result of the call: it fails only when the directory itself cannot be listed.\<close>

definition remove_all_empty_dir_result :: "fnode \<Rightarrow> fs_error + unit" where
  "remove_all_empty_dir_result n = (case read_dir n [] True of Inl e \<Rightarrow> Inl e | Inr _ \<Rightarrow> Inr ())"

section \<open>Requests of the connection manager\<close>

text \<open>
  The directory requests of \<open>src/ui_cm_interface.rs\<close>. A listing that fails is not answered; a
  removal is answered with an error or a completion message. The home directory is a parameter.
\<close>

datatype dir_response =
    DirResponse file_directory
  | EmptyDirsResponse "string list" "file_directory list"

definition cm_read_dir :: "fnode \<Rightarrow> string list \<Rightarrow> string list \<Rightarrow> bool \<Rightarrow> dir_response list" where
  "cm_read_dir T home dir include_hidden =
     (case read_dir T (if dir = [] then home else dir) include_hidden of
        Inr fd \<Rightarrow> [DirResponse fd]
      | Inl _ \<Rightarrow> [])"

definition cm_read_empty_dirs :: "fnode \<Rightarrow> string list \<Rightarrow> bool \<Rightarrow> dir_response list" where
  "cm_read_empty_dirs T dir include_hidden =
     (case get_empty_dirs_recursive T dir include_hidden of
        Inr fds \<Rightarrow> [EmptyDirsResponse dir fds]
      | Inl _ \<Rightarrow> [])"

definition handle_result :: "fs_error + unit \<Rightarrow> int \<Rightarrow> int \<Rightarrow> file_msg" where
  "handle_result res i n = (case res of Inl e \<Rightarrow> MsgError i (error_text e) n | Inr _ \<Rightarrow> MsgDone i n)"

text \<open>\<open>std::fs::remove_dir\<close>: an empty directory the operating system lets go.\<close>

definition fs_remove_dir :: "rm_os \<Rightarrow> string list \<Rightarrow> fnode \<Rightarrow> (fs_error + unit) \<times> fnode option" where
  "fs_remove_dir os path n =
     (case n of
        DirNode _ _ [] \<Rightarrow> if rmdir_ok os path then (Inr (), None) else (Inl (FsErr ''Permission denied''), Some n)
      | DirNode _ _ _ \<Rightarrow> (Inl (FsErr ''Directory not empty''), Some n)
      | _ \<Rightarrow> (Inl (FsErr ''Not a directory''), Some n))"

definition cm_remove_dir :: "rm_os \<Rightarrow> string list \<Rightarrow> int \<Rightarrow> bool \<Rightarrow> fnode \<Rightarrow> file_msg \<times> fnode option" where
  "cm_remove_dir os path i recursive n =
     (if recursive then (handle_result (remove_all_empty_dir_result n) i 0, remove_all_empty_dir os path n)
      else (case fs_remove_dir os path n of (r, n') \<Rightarrow> (handle_result r i 0, n')))"

end
