(* ===== verification/Dir_Tree_Proofs.thy ===== *)
theory Dir_Tree_Proofs
  imports Dir_Tree
begin

text \<open>
  The recursive listings find exactly the files and the empty directories of a tree, and the
  removal of empty directories keeps every file.
\<close>

section \<open>Well-formed trees and walks\<close>

text \<open>Names in a directory differ and have no slash.\<close>

fun wf_tree :: "fnode \<Rightarrow> bool" and wf_forest :: "(string \<times> fnode) list \<Rightarrow> bool" where
  "wf_tree (DirNode r m es) \<longleftrightarrow> distinct (map fst es) \<and> wf_forest es"
| "wf_tree _ \<longleftrightarrow> True"
| "wf_forest [] \<longleftrightarrow> True"
| "wf_forest ((n, c) # es) \<longleftrightarrow> CHR ''/'' \<notin> set n \<and> wf_tree c \<and> wf_forest es"

lemma wf_forest_all: "wf_forest es \<longleftrightarrow> (\<forall>(n, c) \<in> set es. CHR ''/'' \<notin> set n \<and> wf_tree c)"
  by (induction es) auto

text \<open>The specification of what a listing visits: the names it lists, through directories it can read.\<close>

definition visible :: "bool \<Rightarrow> string \<Rightarrow> bool" where
  "visible h name \<longleftrightarrow> name \<noteq> [] \<and> (h \<or> \<not> starts_with name ''.'')"

fun walk :: "bool \<Rightarrow> fnode \<Rightarrow> string list \<Rightarrow> fnode option" where
  "walk h n [] = Some n"
| "walk h (DirNode True m es) (c # cs) =
     (if visible h c then (case map_of es c of Some n \<Rightarrow> walk h n cs | None \<Rightarrow> None) else None)"
| "walk h _ (c # cs) = None"

lemma wf_node_at: "wf_tree T \<Longrightarrow> node_at T p = Some n \<Longrightarrow> wf_tree n"
  by (induction T p rule: node_at.induct) (auto simp: wf_forest_all split: option.splits dest: map_of_SomeD)

lemma list_entry_simps:
  "list_entry h (n, RegFile sz m) = (if visible h n
     then Some \<lparr>fe_name = n, fe_size = sz, fe_modified_time = unix_secs m, fe_type = File, fe_hidden = starts_with n ''.''\<rparr> else None)"
  "list_entry h (n, DirNode r m es) = (if visible h n
     then Some \<lparr>fe_name = n, fe_size = 0, fe_modified_time = unix_secs m, fe_type = Dir, fe_hidden = starts_with n ''.''\<rparr> else None)"
  "list_entry h (n, NoMeta) = None"
  "list_entry h (n, SymLink b m) = (if visible h n
     then Some \<lparr>fe_name = n, fe_size = 0, fe_modified_time = unix_secs m, fe_type = (if b then DirLink else FileLink),
                fe_hidden = starts_with n ''.''\<rparr> else None)"
  by (auto simp: list_entry_def visible_def Let_def split: bool.split)

lemma list_entry_name: "list_entry h (n, c) = Some e \<Longrightarrow> fe_name e = n \<and> visible h n"
  by (cases c) (auto simp: list_entry_simps split: if_splits)

lemma list_entry_types:
  assumes "list_entry h (n, c) = Some e"
  shows "fe_type e = Dir \<longleftrightarrow> (\<exists>r m es. c = DirNode r m es)" and "fe_type e = File \<longleftrightarrow> (\<exists>sz m. c = RegFile sz m)"
  using assms by (cases c; auto simp: list_entry_simps split: if_splits)+

lemma entries_iff:
  "e \<in> set (List.map_filter (list_entry h) es) \<longleftrightarrow> (\<exists>c. (fe_name e, c) \<in> set es \<and> list_entry h (fe_name e, c) = Some e)"
proof -
  have "list_entry h (n, c) = Some e \<longleftrightarrow> n = fe_name e \<and> list_entry h (fe_name e, c) = Some e" for n c
    using list_entry_name [of h n c e] by auto
  then have "(\<exists>x \<in> set es. list_entry h x = Some e) \<longleftrightarrow> (\<exists>c. (fe_name e, c) \<in> set es \<and> list_entry h (fe_name e, c) = Some e)"
    by (metis surj_pair)
  then show ?thesis unfolding map_filter_set .
qed

lemma entries_names: "map fe_name (List.map_filter (list_entry h) es) = map fst (filter (\<lambda>c. list_entry h c \<noteq> None) es)"
  by (induction es) (auto simp: List.map_filter_def dest: list_entry_name)

section \<open>Joined names\<close>

definition join_base :: "string \<Rightarrow> string" where
  "join_base p = (if p = [] \<or> last p = CHR ''/'' then p else p @ ''/'')"

definition ok_name :: "string \<Rightarrow> bool" where
  "ok_name n \<longleftrightarrow> n \<noteq> [] \<and> CHR ''/'' \<notin> set n"

lemma path_join_base: "ok_name n \<Longrightarrow> path_join p n = join_base p @ n"
  by (cases n) (auto simp: path_join_def join_base_def ok_name_def starts_with_def)

lemma foldl_join:
  "ok_name n \<Longrightarrow> list_all ok_name ns \<Longrightarrow> foldl path_join p (n # ns) = join_base p @ n @ concat (map (\<lambda>c. CHR ''/'' # c) ns)"
proof (induction ns arbitrary: p n)
  case Nil
  then show ?case by (simp add: path_join_base)
next
  case (Cons a ns)
  have "join_base (path_join p n) = join_base p @ n @ ''/''"
  proof -
    have "last n \<noteq> CHR ''/''" using Cons.prems(1) last_in_set by (fastforce simp: ok_name_def)
    then show ?thesis using Cons.prems(1) by (simp add: path_join_base) (simp add: join_base_def ok_name_def)
  qed
  then show ?case using Cons.IH [of a "path_join p n"] Cons.prems by simp
qed

text \<open>The first component of a joined name after its prefix.\<close>

definition first_part :: "string \<Rightarrow> string \<Rightarrow> string" where
  "first_part p s = takeWhile (\<lambda>c. c \<noteq> CHR ''/'') (drop (length (join_base p)) s)"

lemma first_part_join:
  assumes "ok_name n" "list_all ok_name ns"
  shows "first_part p (foldl path_join p (n # ns)) = n"
proof -
  have "takeWhile (\<lambda>c. c \<noteq> CHR ''/'') (n @ concat (map (\<lambda>c. CHR ''/'' # c) ns)) = n"
    using assms(1) by (cases ns) (auto simp: ok_name_def takeWhile_append takeWhile_eq_all_conv)
  then show ?thesis by (simp add: first_part_def foldl_join [OF assms] del: foldl_Cons)
qed

lemma distinct_concat_map:
  assumes "distinct (map k xs)" "\<And>x. x \<in> set xs \<Longrightarrow> distinct (map f (g x))"
    and "\<And>x y. x \<in> set xs \<Longrightarrow> y \<in> set (g x) \<Longrightarrow> key (f y) = k x"
  shows "distinct (map f (concat (map g xs)))"
  using assms
proof (induction xs)
  case (Cons x xs)
  have "key (f y) \<noteq> k x" if "z \<in> set xs" "y \<in> set (g z)" for y z
    using Cons.prems(1) Cons.prems(3) [of z y] that by force
  then have "set (map f (g x)) \<inter> set (map f (concat (map g xs))) = {}"
    using Cons.prems(3) [of x] by (fastforce dest: arg_cong [where f = key])
  then show ?case using Cons by simp
qed simp

section \<open>The recursive listing\<close>

definition found_entry :: "string \<Rightarrow> string list \<Rightarrow> u64 \<Rightarrow> int \<Rightarrow> dir_entry" where
  "found_entry prefix ns sz mt = \<lparr>fe_name = foldl path_join prefix ns, fe_size = sz, fe_modified_time = unix_secs mt,
     fe_type = File, fe_hidden = starts_with (last ns) ''.''\<rparr>"

lemma walk_names:
  "walk h n ns = Some x \<Longrightarrow> wf_tree n \<Longrightarrow> list_all ok_name ns"
  by (induction h n ns rule: walk.induct)
    (auto simp: wf_forest_all ok_name_def visible_def split: if_splits option.splits dest: map_of_SomeD)

lemma walk_cons:
  "walk h (DirNode r m es) (c # cs) = Some x \<longleftrightarrow> r \<and> visible h c \<and> (\<exists>n. map_of es c = Some n \<and> walk h n cs = Some x)"
  by (cases r) (auto split: option.splits)

lemma read_dir_eq:
  "node_at T path = Some (DirNode r m es) \<Longrightarrow>
   read_dir T path h = (if r then Inr \<lparr>fd_path = path, fd_entries = List.map_filter (list_entry h) es\<rparr>
                        else Inl (FsErr ''Permission denied''))"
  by (simp add: read_dir_def)

definition lists_files :: "bool \<Rightarrow> fnode \<Rightarrow> string \<Rightarrow> dir_entry list \<Rightarrow> bool" where
  "lists_files h D prefix L \<longleftrightarrow> distinct (map fe_name L) \<and>
     (\<forall>e. e \<in> set L \<longleftrightarrow> (\<exists>ns sz mt. ns \<noteq> [] \<and> walk h D ns = Some (RegFile sz mt) \<and> e = found_entry prefix ns sz mt))"


definition part_of :: "bool \<Rightarrow> fnode \<Rightarrow> string \<Rightarrow> string \<Rightarrow> dir_entry list \<Rightarrow> bool" where
  "part_of h c prefix n L \<longleftrightarrow> distinct (map fe_name L) \<and>
     (\<forall>e. e \<in> set L \<longleftrightarrow> (\<exists>ms sz mt. walk h c ms = Some (RegFile sz mt) \<and> e = found_entry prefix (n # ms) sz mt))"

lemma part_of_dir: "lists_files h (DirNode r m es) (path_join prefix n) L \<Longrightarrow> part_of h (DirNode r m es) prefix n L"
  unfolding lists_files_def part_of_def found_entry_def
  by (metis (no_types, lifting) foldl_Cons fnode.distinct(1) last_ConsR option.inject walk.simps(1))

lemma lists_files_concat:
  assumes wf: "wf_tree (DirNode True m es)"
    and g: "\<And>e c. e \<in> set (List.map_filter (list_entry h) es) \<Longrightarrow> map_of es (fe_name e) = Some c \<Longrightarrow>
       list_entry h (fe_name e, c) = Some e \<Longrightarrow> part_of h c prefix (fe_name e) (g e)"
  shows "lists_files h (DirNode True m es) prefix (concat (map g (List.map_filter (list_entry h) es)))"
proof -
  let ?E = "List.map_filter (list_entry h) es"
  have dist: "distinct (map fst es)" and names: "\<And>n c. (n, c) \<in> set es \<Longrightarrow> CHR ''/'' \<notin> set n \<and> wf_tree c"
    using wf by (auto simp: wf_forest_all)
  have part: "part_of h c prefix (fe_name e) (g e) \<and> visible h (fe_name e) \<and> map_of es (fe_name e) = Some c"
    if "e \<in> set ?E" "(fe_name e, c) \<in> set es" "list_entry h (fe_name e, c) = Some e" for e c
  proof -
    have m: "map_of es (fe_name e) = Some c" using that(2) dist by simp
    then show ?thesis using g [OF that(1) m that(3)] list_entry_name [OF that(3)] by simp
  qed
  have child: "\<exists>c. (fe_name e, c) \<in> set es \<and> list_entry h (fe_name e, c) = Some e" if "e \<in> set ?E" for e
    using that by (simp add: entries_iff)
  have "distinct (map fe_name (concat (map g ?E)))"
  proof (rule distinct_concat_map [where k = fe_name and key = "first_part prefix"])
    show "distinct (map fe_name ?E)" using dist by (simp add: entries_names distinct_map_filter)
    show "distinct (map fe_name (g e))" if "e \<in> set ?E" for e
      using child [OF that] part [OF that] by (auto simp: part_of_def)
    show "first_part prefix (fe_name x) = fe_name e" if e: "e \<in> set ?E" and x: "x \<in> set (g e)" for e x
    proof -
      obtain c where c: "(fe_name e, c) \<in> set es" "list_entry h (fe_name e, c) = Some e" using child [OF e] by blast
      then obtain ms sz mt where ms: "walk h c ms = Some (RegFile sz mt)" "x = found_entry prefix (fe_name e # ms) sz mt"
        using part [OF e c] x by (auto simp: part_of_def)
      have "ok_name (fe_name e)" using part [OF e c] names [OF c(1)] by (simp add: ok_name_def visible_def)
      moreover have "list_all ok_name ms" using walk_names [OF ms(1)] names [OF c(1)] by simp
      ultimately show ?thesis unfolding ms(2) found_entry_def by (simp add: first_part_join del: foldl_Cons)
    qed
  qed
  moreover have "x \<in> set (concat (map g ?E)) \<longleftrightarrow>
     (\<exists>ns sz mt. ns \<noteq> [] \<and> walk h (DirNode True m es) ns = Some (RegFile sz mt) \<and> x = found_entry prefix ns sz mt)" for x
  proof
    assume "x \<in> set (concat (map g ?E))"
    then obtain e where e: "e \<in> set ?E" "x \<in> set (g e)" by auto
    obtain c where c: "(fe_name e, c) \<in> set es" "list_entry h (fe_name e, c) = Some e" using child [OF e(1)] by blast
    note p = part [OF e(1) c]
    then obtain ms sz mt where "walk h c ms = Some (RegFile sz mt)" "x = found_entry prefix (fe_name e # ms) sz mt"
      using e(2) by (auto simp: part_of_def)
    then show "\<exists>ns sz mt. ns \<noteq> [] \<and> walk h (DirNode True m es) ns = Some (RegFile sz mt) \<and> x = found_entry prefix ns sz mt"
      using p by (intro exI [of _ "fe_name e # ms"]) auto
  next
    assume "\<exists>ns sz mt. ns \<noteq> [] \<and> walk h (DirNode True m es) ns = Some (RegFile sz mt) \<and> x = found_entry prefix ns sz mt"
    then obtain n ms sz mt c where w: "visible h n" "map_of es n = Some c" "walk h c ms = Some (RegFile sz mt)"
        "x = found_entry prefix (n # ms) sz mt"
      by (metis neq_Nil_conv walk_cons)
    have c: "(n, c) \<in> set es" using w(2) by (rule map_of_SomeD)
    obtain e where e: "list_entry h (n, c) = Some e"
      using w(1,3) by (cases c; cases ms) (auto simp: list_entry_simps)
    with list_entry_name have n: "fe_name e = n" by blast
    then have E: "e \<in> set ?E" using c e by (auto simp: entries_iff)
    have "part_of h c prefix n (g e)" using part [OF E, of c] c e n by simp
    then have "x \<in> set (g e)" using w(3,4) unfolding part_of_def by blast
    then show "x \<in> set (concat (map g ?E))" using E by auto
  qed
  ultimately show ?thesis by (simp add: lists_files_def)
qed

lemma read_dir_recursive_lists:
  assumes "wf_tree T" "node_at T path = Some (DirNode True m es)"
  shows "\<exists>L. read_dir_recursive T path prefix h = Inr L \<and> lists_files h (DirNode True m es) prefix L"
  using assms
proof (induction T path prefix h arbitrary: m es rule: read_dir_recursive.induct)
  case (1 T path prefix h)
  note D = "1.prems"(2)
  let ?E = "List.map_filter (list_entry h) es"
  define g where "g = (\<lambda>e. case fe_type e of
      File \<Rightarrow> [e\<lparr>fe_name := path_join prefix (fe_name e)\<rparr>]
    | Dir \<Rightarrow> (case read_dir_recursive T (path @ [fe_name e]) (path_join prefix (fe_name e)) h of Inr tmp \<Rightarrow> tmp | Inl _ \<Rightarrow> [])
    | _ \<Rightarrow> [])"
  have eq: "read_dir_recursive T path prefix h = Inr (concat (map g ?E))"
    by (subst read_dir_recursive.simps) (simp add: D read_dir_eq [OF D] g_def)
  have rd: "read_dir T path h = Inr \<lparr>fd_path = path, fd_entries = ?E\<rparr>" by (simp add: read_dir_eq [OF D])
  have "part_of h c prefix (fe_name e) (g e)"
    if e: "e \<in> set ?E" "map_of es (fe_name e) = Some c" "list_entry h (fe_name e, c) = Some e" for e c
  proof (cases c)
    case (RegFile sz mt)
    then have "g e = [found_entry prefix [fe_name e] sz mt]"
      using e(3) by (cases e) (auto simp: g_def list_entry_simps found_entry_def split: if_splits)
    moreover have "walk h c ms = Some x \<longleftrightarrow> ms = [] \<and> x = c" for ms x
      using RegFile by (cases ms) auto
    ultimately show ?thesis using RegFile by (auto simp: part_of_def)
  next
    case (DirNode r m' es')
    have ty: "fe_type e = Dir" using list_entry_types(1) [OF e(3)] DirNode by blast
    have at: "node_at T (path @ [fe_name e]) = Some (DirNode r m' es')"
      using D e(2) DirNode by (simp add: node_at_append)
    show ?thesis
    proof (cases r)
      case True
      obtain L where "read_dir_recursive T (path @ [fe_name e]) (path_join prefix (fe_name e)) h = Inr L"
          "lists_files h (DirNode True m' es') (path_join prefix (fe_name e)) L"
        using "1.IH" [OF D refl rd _ ty "1.prems"(1)] e(1) at True by auto
      then show ?thesis using DirNode True ty by (simp add: g_def part_of_dir)
    next
      case False
      then have "read_dir_recursive T (path @ [fe_name e]) (path_join prefix (fe_name e)) h = Inl (FsErr ''Permission denied'')"
        by (subst read_dir_recursive.simps) (simp add: at read_dir_eq [OF at])
      moreover have "walk h c ms \<noteq> Some (RegFile sz mt)" for ms sz mt
        using DirNode False by (cases ms) auto
      ultimately show ?thesis using ty by (simp add: g_def part_of_def)
    qed
  next
    case (SymLink b mt)
    moreover have "walk h c ms \<noteq> Some (RegFile sz mt)" for ms sz mt using SymLink by (cases ms) auto
    moreover have "g e = []"
      using list_entry_types [OF e(3)] SymLink by (cases "fe_type e") (simp_all add: g_def)
    ultimately show ?thesis by (simp add: part_of_def)
  next
    case NoMeta
    then show ?thesis using e(3) by (simp add: list_entry_simps)
  qed
  then show ?case using lists_files_concat [OF wf_node_at [OF "1.prems"]] eq by blast
qed

section \<open>Empty directories\<close>

definition lists_empty :: "bool \<Rightarrow> fnode \<Rightarrow> string list \<Rightarrow> file_directory list \<Rightarrow> bool" where
  "lists_empty h D path E \<longleftrightarrow>
     (\<forall>fd. fd \<in> set E \<longleftrightarrow> (\<exists>ns m es. walk h D ns = Some (DirNode True m es) \<and> List.map_filter (list_entry h) es = []
        \<and> fd = \<lparr>fd_path = path @ ns, fd_entries = []\<rparr>))"

lemma read_empty_dirs_lists:
  assumes "wf_tree T" "node_at T path = Some (DirNode True m es)"
  shows "\<exists>E. read_empty_dirs_recursive T path h = Inr E \<and> lists_empty h (DirNode True m es) path E"
  using assms
proof (induction T path h arbitrary: m es rule: read_empty_dirs_recursive.induct)
  case (1 T path h)
  note D = "1.prems"(2)
  let ?E = "List.map_filter (list_entry h) es"
  have rd: "read_dir T path h = Inr \<lparr>fd_path = path, fd_entries = ?E\<rparr>" by (simp add: read_dir_eq [OF D])
  have dist: "distinct (map fst es)" using wf_node_at [OF "1.prems"] by simp
  define g where "g = (\<lambda>e :: dir_entry. if fe_type e = Dir then (case read_empty_dirs_recursive T (path @ [fe_name e]) h of
      Inr tmp \<Rightarrow> tmp | Inl _ \<Rightarrow> []) else [])"
  have eq: "read_empty_dirs_recursive T path h =
      Inr (if ?E = [] then [\<lparr>fd_path = path, fd_entries = []\<rparr>] else concat (map g ?E))"
    by (subst read_empty_dirs_recursive.simps) (simp add: D rd g_def)
  have g: "fd \<in> set (g e) \<longleftrightarrow> (\<exists>ns m' es'. walk h c ns = Some (DirNode True m' es') \<and> List.map_filter (list_entry h) es' = []
        \<and> fd = \<lparr>fd_path = path @ fe_name e # ns, fd_entries = []\<rparr>)"
    if e: "e \<in> set ?E" "map_of es (fe_name e) = Some c" "list_entry h (fe_name e, c) = Some e" for e c fd
  proof (cases "\<exists>m' es'. c = DirNode True m' es'")
    case True
    then obtain m' es' where c: "c = DirNode True m' es'" by blast
    have ty: "fe_type e = Dir" using list_entry_types(1) [OF e(3)] c by blast
    have at: "node_at T (path @ [fe_name e]) = Some (DirNode True m' es')"
      using D e(2) c by (simp add: node_at_append)
    have ne: "?E \<noteq> []" using e(1) by auto
    obtain E where "read_empty_dirs_recursive T (path @ [fe_name e]) h = Inr E"
        "lists_empty h (DirNode True m' es') (path @ [fe_name e]) E"
      using "1.IH" [OF D refl rd _ _ ty "1.prems"(1)] e(1) ne at by auto
    then show ?thesis using ty c by (simp add: g_def lists_empty_def)
  next
    case False
    have "walk h c ns \<noteq> Some (DirNode True m' es')" for ns m' es'
      using False by (cases c; cases ns) auto
    moreover have "g e = []"
    proof (cases "fe_type e = Dir")
      case True
      then obtain m' es' where c: "c = DirNode False m' es'"
        using list_entry_types(1) [OF e(3)] False by auto
      have at: "node_at T (path @ [fe_name e]) = Some (DirNode False m' es')"
        using D e(2) c by (simp add: node_at_append)
      have "read_empty_dirs_recursive T (path @ [fe_name e]) h = Inl (FsErr ''Permission denied'')"
        by (subst read_empty_dirs_recursive.simps) (simp add: at read_dir_eq [OF at])
      then show ?thesis by (simp add: g_def)
    qed (simp add: g_def)
    ultimately show ?thesis by simp
  qed
  show ?case
  proof (cases "?E = []")
    case True
    have "walk h (DirNode True m es) ns = Some (DirNode True m' es') \<longrightarrow> ns = [] \<or> False" for ns m' es'
    proof (cases ns)
      case (Cons n ns')
      show ?thesis
      proof
        assume "walk h (DirNode True m es) ns = Some (DirNode True m' es')"
        then obtain c where c: "visible h n" "map_of es n = Some c" "walk h c ns' = Some (DirNode True m' es')"
          using Cons by (auto split: if_splits option.splits)
        then have "(n, c) \<in> set es" by (blast dest: map_of_SomeD)
        moreover have "list_entry h (n, c) \<noteq> None"
          using c(1,3) by (cases c; cases ns') (auto simp: list_entry_simps)
        ultimately show "ns = [] \<or> False" using True map_filter_set [of _ "list_entry h" es] by force
      qed
    qed simp
    then show ?thesis using eq True by (auto simp: lists_empty_def)
  next
    case False
    have "fd \<in> set (concat (map g ?E)) \<longleftrightarrow> (\<exists>ns m' es'. walk h (DirNode True m es) ns = Some (DirNode True m' es')
        \<and> List.map_filter (list_entry h) es' = [] \<and> fd = \<lparr>fd_path = path @ ns, fd_entries = []\<rparr>)" for fd
    proof
      assume "fd \<in> set (concat (map g ?E))"
      then obtain e where e: "e \<in> set ?E" "fd \<in> set (g e)" by auto
      then obtain c where c: "(fe_name e, c) \<in> set es" "list_entry h (fe_name e, c) = Some e" by (auto simp: entries_iff)
      have m: "map_of es (fe_name e) = Some c" using c(1) dist by simp
      obtain ns m' es' where "walk h c ns = Some (DirNode True m' es')" "List.map_filter (list_entry h) es' = []"
          "fd = \<lparr>fd_path = path @ fe_name e # ns, fd_entries = []\<rparr>"
        using e(2) g [OF e(1) m c(2)] by blast
      then show "\<exists>ns m' es'. walk h (DirNode True m es) ns = Some (DirNode True m' es')
        \<and> List.map_filter (list_entry h) es' = [] \<and> fd = \<lparr>fd_path = path @ ns, fd_entries = []\<rparr>"
        using m list_entry_name [OF c(2)] by (intro exI [of _ "fe_name e # ns"]) auto
    next
      assume "\<exists>ns m' es'. walk h (DirNode True m es) ns = Some (DirNode True m' es')
        \<and> List.map_filter (list_entry h) es' = [] \<and> fd = \<lparr>fd_path = path @ ns, fd_entries = []\<rparr>"
      then obtain ns m' es' where w: "walk h (DirNode True m es) ns = Some (DirNode True m' es')"
        "List.map_filter (list_entry h) es' = []" "fd = \<lparr>fd_path = path @ ns, fd_entries = []\<rparr>" by blast
      with False obtain n ns' where ns: "ns = n # ns'" by (cases ns) auto
      then obtain c where c: "visible h n" "map_of es n = Some c" "walk h c ns' = Some (DirNode True m' es')"
        using w(1) by (auto split: if_splits option.splits)
      obtain e where e: "list_entry h (n, c) = Some e"
        using c(1,3) by (cases c; cases ns') (auto simp: list_entry_simps)
      with list_entry_name have n: "fe_name e = n" by blast
      have E: "e \<in> set ?E" using map_of_SomeD [OF c(2)] e n by (auto simp: entries_iff)
      have "fd \<in> set (g e)" using g [OF E, of c fd] c(2,3) e n w(2,3) ns by auto
      then show "fd \<in> set (concat (map g ?E))" using E by auto
    qed
    then show ?thesis using eq False by (simp add: lists_empty_def)
  qed
qed

section \<open>Removal keeps the files\<close>

definition file_at :: "fnode \<Rightarrow> string list \<Rightarrow> (u64 \<times> int) option" where
  "file_at n ns = (case node_at n ns of Some (RegFile sz m) \<Rightarrow> Some (sz, m) | _ \<Rightarrow> None)"

definition file_below :: "(string \<times> fnode) list \<Rightarrow> string \<Rightarrow> string list \<Rightarrow> (u64 \<times> int) option" where
  "file_below es c cs = (case map_of es c of Some n \<Rightarrow> file_at n cs | None \<Rightarrow> None)"

lemma file_at_simps:
  "file_at (DirNode r m es) (c # cs) = file_below es c cs" "file_at (DirNode r m es) [] = None"
  "file_at (SymLink b m) cs = None" "file_at NoMeta cs = None"
  by (auto simp: file_at_def file_below_def split: option.splits) (cases cs; simp)+

lemma file_below_Cons: "file_below ((n, x) # es) c cs = (if n = c then file_at x cs else file_below es c cs)"
  by (simp add: file_below_def)

lemma remove_entries_names: "fst ` set (remove_entries os path es) \<subseteq> fst ` set es"
proof (induction es)
  case (Cons a es)
  then show ?case
    by (cases a) (auto split: option.splits file_type.splits if_splits)
qed simp

lemma file_below_absent: "c \<notin> fst ` set es \<Longrightarrow> file_below es c cs = None"
  by (simp add: file_below_def map_of_eq_None_iff [THEN iffD2])

lemma remove_keeps_files:
  "wf_tree n \<Longrightarrow> (case remove_all_empty_dir os path n of Some n' \<Rightarrow> file_at n' ns | None \<Rightarrow> None) = file_at n ns"
  "distinct (map fst es) \<Longrightarrow> wf_forest es \<Longrightarrow> file_below (remove_entries os path es) c ns = file_below es c ns"
proof (induction os path n and os path es arbitrary: ns and c ns rule: remove_all_empty_dir_remove_entries.induct)
  case (1 os path readable m es)
  show ?case
  proof (cases "readable \<and> ns \<noteq> []")
    case True
    then obtain c cs where ns: "ns = c # cs" by (cases ns) auto
    have IH: "file_below (remove_entries os path es) c cs = file_below es c cs"
      using 1 True by simp
    then show ?thesis using True by (auto simp: ns Let_def file_at_simps file_below_def)
  next
    case False
    then show ?thesis by (auto simp: Let_def file_at_simps)
  qed
next
  case (4 os path name n es)
  have rest: "file_below (remove_entries os path es) c ns = file_below es c ns" for c
    using 4 by (cases "list_entry True (name, n)") auto
  have gone: "file_below (remove_entries os path es) name ns = None"
    using 4(3) remove_entries_names [of os path es] by (intro file_below_absent) auto
  show ?case
  proof (cases "\<exists>e. list_entry True (name, n) = Some e \<and> fe_type e = Dir")
    case True
    then obtain e where e: "list_entry True (name, n) = Some e" "fe_type e = Dir" by blast
    have "(case remove_all_empty_dir os (path @ [name]) n of Some n' \<Rightarrow> file_at n' ns | None \<Rightarrow> None) = file_at n ns"
      using 4(1) [OF e] 4(4) by simp
    then show ?thesis
      using e rest gone by (auto simp: file_below_Cons split: option.splits)
  next
    case False
    have link: "file_at n ns = None" if "list_entry True (name, n) = Some e" "fe_type e \<noteq> File" "fe_type e \<noteq> Dir" for e
      using that list_entry_types [OF that(1)] by (cases n) (auto simp: file_at_simps list_entry_simps)
    show ?thesis
    proof (cases "list_entry True (name, n)")
      case None
      then show ?thesis using rest by (simp add: file_below_Cons)
    next
      case (Some e)
      then show ?thesis
        using False rest gone link [OF Some] by (cases "fe_type e") (auto simp: file_below_Cons)
    qed
  qed
qed simp_all

text \<open>A tree whose directories can be read and whose entries all have a name and metadata.\<close>

fun plain_tree :: "fnode \<Rightarrow> bool" and plain_forest :: "(string \<times> fnode) list \<Rightarrow> bool" where
  "plain_tree (DirNode r m es) \<longleftrightarrow> r \<and> plain_forest es"
| "plain_tree (RegFile _ _) \<longleftrightarrow> True"
| "plain_tree (SymLink _ _) \<longleftrightarrow> True"
| "plain_tree NoMeta \<longleftrightarrow> False"
| "plain_forest [] \<longleftrightarrow> True"
| "plain_forest ((n, c) # es) \<longleftrightarrow> n \<noteq> [] \<and> plain_tree c \<and> plain_forest es"

lemma no_file_below_Cons:
  "n \<notin> fst ` set es \<Longrightarrow> (\<forall>c ns. file_below ((n, x) # es) c ns = None) \<longleftrightarrow>
     (\<forall>ns. file_at x ns = None) \<and> (\<forall>c ns. file_below es c ns = None)"
  by (metis file_below_Cons file_below_absent)

lemma no_file_at_dir: "(\<forall>ns. file_at (DirNode r m es) ns = None) \<longleftrightarrow> (\<forall>c ns. file_below es c ns = None)"
  by (metis file_at_simps(1,2) neq_Nil_conv)

lemma remove_complete:
  assumes "\<And>p. unlink_ok os p" "\<And>p. rmdir_ok os p"
  shows "wf_tree n \<Longrightarrow> plain_tree n \<Longrightarrow> (\<exists>r m es. n = DirNode r m es) \<Longrightarrow>
      remove_all_empty_dir os path n = None \<longleftrightarrow> (\<forall>ns. file_at n ns = None)"
    and "distinct (map fst es) \<Longrightarrow> wf_forest es \<Longrightarrow> plain_forest es \<Longrightarrow>
      remove_entries os path es = [] \<longleftrightarrow> (\<forall>c ns. file_below es c ns = None)"
  using assms
proof (induction os path n and os path es rule: remove_all_empty_dir_remove_entries.induct)
  case (1 os path readable m es)
  then show ?case by (auto simp: Let_def no_file_at_dir)
next
  case (4 os path name n es)
  have nm: "visible True name" using 4 by (simp add: visible_def)
  have rest: "remove_entries os path es = [] \<longleftrightarrow> (\<forall>c ns. file_below es c ns = None)" using 4 by simp
  have one: "(\<forall>c ns. file_below ((name, n) # es) c ns = None) \<longleftrightarrow> (\<forall>ns. file_at n ns = None) \<and> (\<forall>c ns. file_below es c ns = None)"
    using 4 by (intro no_file_below_Cons) simp
  show ?case
  proof (cases n)
    case (DirNode r m es')
    have le: "\<exists>e. list_entry True (name, n) = Some e \<and> fe_type e = Dir"
      using DirNode nm by (simp add: list_entry_simps)
    then have "remove_all_empty_dir os (path @ [name]) n = None \<longleftrightarrow> (\<forall>ns. file_at n ns = None)"
      using 4 DirNode by auto
    then show ?thesis unfolding one rest [symmetric] using le by (auto split: option.splits)
  next
    case (RegFile sz m)
    then have "file_at n [] \<noteq> None" by (simp add: file_at_def)
    then show ?thesis unfolding one using RegFile nm by (auto simp: list_entry_simps)
  next
    case (SymLink b m)
    then show ?thesis unfolding one rest [symmetric] using nm 4 by (simp add: list_entry_simps file_at_simps)
  next
    case NoMeta
    then show ?thesis using 4 by simp
  qed
qed (simp_all add: file_below_def)

section \<open>Every directory is recreated\<close>

fun linkless_tree :: "fnode \<Rightarrow> bool" and linkless_forest :: "(string \<times> fnode) list \<Rightarrow> bool" where
  "linkless_tree (DirNode r m es) \<longleftrightarrow> r \<and> linkless_forest es"
| "linkless_tree (RegFile _ _) \<longleftrightarrow> True"
| "linkless_tree _ \<longleftrightarrow> False"
| "linkless_forest [] \<longleftrightarrow> True"
| "linkless_forest ((n, c) # es) \<longleftrightarrow> linkless_tree c \<and> linkless_forest es"

lemma linkless_forest_all: "linkless_forest es \<longleftrightarrow> (\<forall>(n, c) \<in> set es. linkless_tree c)"
  by (induction es) auto

lemma walk_append: "walk h n (p @ q) = (case walk h n p of Some m \<Rightarrow> walk h m q | None \<Rightarrow> None)"
  by (induction h n p rule: walk.induct) (auto split: option.splits)

lemma walk_linkless: "walk h n ns = Some x \<Longrightarrow> linkless_tree n \<Longrightarrow> linkless_tree x"
  by (induction h n ns rule: walk.induct)
    (auto simp: linkless_forest_all split: if_splits option.splits dest: map_of_SomeD)

lemma walk_wf: "walk h n ns = Some x \<Longrightarrow> wf_tree n \<Longrightarrow> wf_tree x"
  by (induction h n ns rule: walk.induct)
    (auto simp: wf_forest_all split: if_splits option.splits dest: map_of_SomeD)

lemma leaf_below:
  assumes "linkless_tree (DirNode r m es)" "wf_tree (DirNode r m es)"
  shows "\<exists>ms. (\<exists>sz mt. ms \<noteq> [] \<and> walk h (DirNode r m es) ms = Some (RegFile sz mt))
    \<or> (\<exists>m' es'. walk h (DirNode r m es) ms = Some (DirNode True m' es') \<and> List.map_filter (list_entry h) es' = [])"
  using assms
proof (induction "size (DirNode r m es)" arbitrary: r m es rule: less_induct)
  case less
  have r: r using less.prems by simp
  show ?case
  proof (cases "List.map_filter (list_entry h) es")
    case Nil
    then show ?thesis using r by (intro exI [of _ "[]"]) simp
  next
    case (Cons e E)
    then obtain c where c: "(fe_name e, c) \<in> set es" "list_entry h (fe_name e, c) = Some e"
      by (metis entries_iff list.set_intros(1))
    have v: "visible h (fe_name e)" using list_entry_name [OF c(2)] by simp
    have m: "map_of es (fe_name e) = Some c" using c(1) less.prems(2) by simp
    have cl: "linkless_tree c" "wf_tree c" using c(1) less.prems by (auto simp: linkless_forest_all wf_forest_all)
    show ?thesis
    proof (cases c)
      case (RegFile sz mt)
      then show ?thesis using r v m by (intro exI [of _ "[fe_name e]"]) auto
    next
      case (DirNode r' m' es')
      have "size (DirNode r' m' es') < size (DirNode r m es)"
        using node_at_child_size [of "DirNode r m es" "[]" r m es "fe_name e" c] m DirNode by simp
      have "\<exists>ms. (\<exists>sz mt. ms \<noteq> [] \<and> walk h c ms = Some (RegFile sz mt))
         \<or> (\<exists>m' es'. walk h c ms = Some (DirNode True m' es') \<and> List.map_filter (list_entry h) es' = [])"
        using less.hyps [OF \<open>size (DirNode r' m' es') < size (DirNode r m es)\<close>] cl unfolding DirNode by blast
      then obtain ms where
        "(\<exists>sz mt. ms \<noteq> [] \<and> walk h c ms = Some (RegFile sz mt))
         \<or> (\<exists>m' es'. walk h c ms = Some (DirNode True m' es') \<and> List.map_filter (list_entry h) es' = [])" ..
      then show ?thesis using r v m by (intro exI [of _ "fe_name e # ms"]) auto
    qed (use cl in simp_all)
  qed
qed

section \<open>Properties\<close>

text \<open>A tree for the witnesses: a file, a hidden file, a link, a nested file and an empty directory.\<close>

definition demo_tree :: fnode where
  "demo_tree = DirNode True 5
     [(''a.txt'', RegFile 3 7), (''.hidden'', RegFile 1 8), (''link'', SymLink True 9),
      (''sub'', DirNode True 5 [(''b.txt'', RegFile 4 6)]), (''empty'', DirNode True 5 [])]"

text \<open>
  C20. The recursive listing a transfer starts from terminates and implements its specification on
  every tree: it returns each regular file that can be reached through listed names and readable
  directories, once, with its size, its time and the path relative to the start; and nothing
  else, in particular nothing behind a symbolic link.
\<close>

theorem recursive_listing_exact:
  assumes "wf_tree T" "node_at T path = Some (DirNode True m es)"
  shows "\<exists>L. get_recursive_files T path h = Inr L \<and> distinct (map fe_name L) \<and>
    (\<forall>e. e \<in> set L \<longleftrightarrow> (\<exists>ns sz mt. ns \<noteq> [] \<and> walk h (DirNode True m es) ns = Some (RegFile sz mt)
       \<and> e = \<lparr>fe_name = foldl path_join [] ns, fe_size = sz, fe_modified_time = unix_secs mt,
             fe_type = File, fe_hidden = starts_with (last ns) ''.''\<rparr>))"
  using read_dir_recursive_lists [OF assms, of "[]" h]
  unfolding get_recursive_files_def lists_files_def found_entry_def .

theorem recursive_listing_exact_witness:
  "\<exists>L. get_recursive_files demo_tree [] False = Inr L \<and> distinct (map fe_name L)
    \<and> \<lparr>fe_name = ''sub/b.txt'', fe_size = 4, fe_modified_time = 6, fe_type = File, fe_hidden = False\<rparr> \<in> set L"
proof -
  have w: "wf_tree demo_tree" by (simp add: demo_tree_def)
  have s: "walk False demo_tree [''sub'', ''b.txt''] = Some (RegFile 4 6)"
    by (simp add: demo_tree_def visible_def starts_with_def)
  obtain m es where t: "demo_tree = DirNode True m es" by (simp add: demo_tree_def)
  obtain L where L: "get_recursive_files demo_tree [] False = Inr L" "distinct (map fe_name L)"
    "\<forall>e. e \<in> set L \<longleftrightarrow> (\<exists>ns sz mt. ns \<noteq> [] \<and> walk False demo_tree ns = Some (RegFile sz mt)
       \<and> e = \<lparr>fe_name = foldl path_join [] ns, fe_size = sz, fe_modified_time = unix_secs mt,
             fe_type = File, fe_hidden = starts_with (last ns) ''.''\<rparr>)"
    using recursive_listing_exact [OF w, of "[]" m es False] t by auto
  have "\<lparr>fe_name = ''sub/b.txt'', fe_size = 4, fe_modified_time = 6, fe_type = File, fe_hidden = False\<rparr> =
    \<lparr>fe_name = foldl path_join [] [''sub'', ''b.txt''], fe_size = 4, fe_modified_time = unix_secs 6,
     fe_type = File, fe_hidden = starts_with (last [''sub'', ''b.txt'']) ''.''\<rparr>"
    by (simp add: path_join_def starts_with_def unix_secs_def)
  then show ?thesis using L s by blast
qed

text \<open>
  Removing a directory recursively never loses a file: every regular file of the tree is
  still there afterwards, unchanged and under its path. And it removes all it should: if the
  operating system refuses nothing and the tree can be read, the directory is gone exactly if
  there is no regular file in it.
\<close>

theorem removal_keeps_files:
  assumes "wf_tree (DirNode r m es)" "cm_remove_dir os path i True (DirNode r m es) = (msg, left)"
  shows "(\<forall>ns. (case left of Some n \<Rightarrow> file_at n ns | None \<Rightarrow> None) = file_at (DirNode r m es) ns)
    \<and> (plain_tree (DirNode r m es) \<and> (\<forall>p. unlink_ok os p) \<and> (\<forall>p. rmdir_ok os p) \<longrightarrow>
       (left = None \<longleftrightarrow> (\<forall>ns. file_at (DirNode r m es) ns = None)))"
proof -
  have left: "left = remove_all_empty_dir os path (DirNode r m es)"
    using assms(2) by (simp add: cm_remove_dir_def del: remove_all_empty_dir.simps)
  show ?thesis
    unfolding left using remove_keeps_files(1) [OF assms(1)] remove_complete(1) [of os, OF _ _ assms(1)] by blast
qed

theorem removal_keeps_files_witness:
  "(case snd (cm_remove_dir \<lparr>unlink_ok = \<lambda>_. True, rmdir_ok = \<lambda>_. True, rm_now = 9\<rparr> [] 1 True demo_tree) of
      Some n \<Rightarrow> file_at n [''sub'', ''b.txt''] | None \<Rightarrow> None) = Some (4, 6)"
proof -
  obtain r m es where t: "demo_tree = DirNode r m es" by (simp add: demo_tree_def)
  have w: "wf_tree (DirNode r m es)" by (simp flip: t) (simp add: demo_tree_def)
  have f: "file_at (DirNode r m es) [''sub'', ''b.txt''] = Some (4, 6)"
    by (simp flip: t) (simp add: demo_tree_def file_at_def)
  show ?thesis
    unfolding t using removal_keeps_files [OF w prod.collapse [symmetric]] f by auto
qed

text \<open>
  A transfer recreates every directory: in a tree without links and without unreadable
  parts, each directory the listing can reach contains a listed file or a listed empty directory
  (or is one), so creating the parents of the former and the latter creates it.
\<close>

theorem directories_recreated:
  assumes "wf_tree T" "node_at T path = Some (DirNode True m es)" "linkless_tree (DirNode True m es)"
    and "walk h (DirNode True m es) ns = Some (DirNode r' m' es')"
    and "get_recursive_files T path h = Inr L" "get_empty_dirs_recursive T path h = Inr E"
  shows "(\<exists>e \<in> set L. \<exists>ms. fe_name e = foldl path_join [] (ns @ ms)) \<or> (\<exists>fd \<in> set E. \<exists>ms. fd_path fd = path @ ns @ ms)"
proof -
  let ?D = "DirNode True m es"
  have wD: "wf_tree ?D" by (rule wf_node_at [OF assms(1,2)])
  have sub: "linkless_tree (DirNode r' m' es')" "wf_tree (DirNode r' m' es')"
    using walk_linkless [OF assms(4,3)] walk_wf [OF assms(4) wD] by auto
  have L: "lists_files h ?D [] L"
    using read_dir_recursive_lists [OF assms(1,2), of "[]" h] assms(5) by (auto simp: get_recursive_files_def)
  have E: "lists_empty h ?D path E"
    using read_empty_dirs_lists [OF assms(1,2), of h] assms(6) by (auto simp: get_empty_dirs_recursive_def)
  obtain ms where "(\<exists>sz mt. ms \<noteq> [] \<and> walk h (DirNode r' m' es') ms = Some (RegFile sz mt))
    \<or> (\<exists>m'' es''. walk h (DirNode r' m' es') ms = Some (DirNode True m'' es'') \<and> List.map_filter (list_entry h) es'' = [])"
    using leaf_below [OF sub, of h] by blast
  then show ?thesis
  proof
    assume "\<exists>sz mt. ms \<noteq> [] \<and> walk h (DirNode r' m' es') ms = Some (RegFile sz mt)"
    then obtain sz mt where f: "ms \<noteq> []" "walk h ?D (ns @ ms) = Some (RegFile sz mt)"
      using assms(4) by (auto simp: walk_append)
    then have "found_entry [] (ns @ ms) sz mt \<in> set L" using L unfolding lists_files_def by blast
    then show ?thesis by (intro disjI1 bexI [of _ "found_entry [] (ns @ ms) sz mt"]) (auto simp: found_entry_def)
  next
    assume "\<exists>m'' es''. walk h (DirNode r' m' es') ms = Some (DirNode True m'' es'') \<and> List.map_filter (list_entry h) es'' = []"
    then obtain m'' es'' where "walk h ?D (ns @ ms) = Some (DirNode True m'' es'')" "List.map_filter (list_entry h) es'' = []"
      using assms(4) by (auto simp: walk_append)
    then have "\<lparr>fd_path = path @ ns @ ms, fd_entries = []\<rparr> \<in> set E" using E unfolding lists_empty_def by blast
    then show ?thesis by force
  qed
qed

definition demo_plain :: fnode where
  "demo_plain = DirNode True 5 [(''sub'', DirNode True 5 [(''b.txt'', RegFile 4 6)]), (''empty'', DirNode True 5 [])]"

theorem directories_recreated_witness:
  "\<exists>L E. get_recursive_files demo_plain [] False = Inr L \<and> get_empty_dirs_recursive demo_plain [] False = Inr E
    \<and> ((\<exists>e \<in> set L. \<exists>ms. fe_name e = foldl path_join [] ([''sub''] @ ms)) \<or> (\<exists>fd \<in> set E. \<exists>ms. fd_path fd = [''sub''] @ ms))"
proof -
  obtain m es where t: "demo_plain = DirNode True m es" by (simp add: demo_plain_def)
  have w: "wf_tree demo_plain" "linkless_tree demo_plain" by (simp_all add: demo_plain_def)
  have n: "node_at demo_plain [] = Some (DirNode True m es)" by (simp add: t)
  have s: "walk False demo_plain [''sub''] = Some (DirNode True 5 [(''b.txt'', RegFile 4 6)])"
    by (simp add: demo_plain_def visible_def starts_with_def)
  obtain L E where "get_recursive_files demo_plain [] False = Inr L" "get_empty_dirs_recursive demo_plain [] False = Inr E"
    using read_dir_recursive_lists [OF w(1) n, of "[]" False] read_empty_dirs_lists [OF w(1) n, of False]
    by (auto simp: get_recursive_files_def get_empty_dirs_recursive_def)
  moreover from directories_recreated [OF w(1) n w(2) [unfolded t] s [unfolded t] this] this
  show ?thesis by auto
qed

end
