(* ===== verification/Codec_Negotiation.thy ===== *)
theory Codec_Negotiation
  imports Password_Security F32 "HOL-Library.Multiset"
begin

text \<open>
  The negotiation of the video codec between a host and all its viewers
  (\<open>libs/scrap/src/common/codec.rs\<close>: \<open>Encoder::update\<close>, \<open>set_fallback\<close>, \<open>use_i444\<close> and the abilities
  a viewer announces; \<open>vram.rs\<close>, \<open>hwcodec.rs\<close>: which hardware encoders are available), and the choice
  of the encoder by a video service (\<open>get_encoder_config\<close>, \<open>setup_encoder\<close> of
  \<open>src/server/video_service.rs\<close>).

  The global tables are one record. What the machine, the build and the options say is an
  environment: the codecs the hardware library has found, its displays, its memory. A hash map is
  an association list in its iteration order.
\<close>

section \<open>Codecs and abilities\<close>

datatype codec_format = VP8 | VP9 | AV1 | H264 | H265 | Unknown

datatype prefer_codec = PreferAuto | PreferVP9 | PreferH264 | PreferH265 | PreferVP8 | PreferAV1

fun prefer_value :: "prefer_codec \<Rightarrow> int" where
  "prefer_value PreferAuto = 0"
| "prefer_value PreferVP9 = 1"
| "prefer_value PreferH264 = 2"
| "prefer_value PreferH265 = 3"
| "prefer_value PreferVP8 = 4"
| "prefer_value PreferAV1 = 5"

text \<open>\<open>enum_value_or(PreferCodec::Auto)\<close>: a number without a name counts as \<open>Auto\<close>.\<close>

definition enum_value_or_auto :: "int \<Rightarrow> prefer_codec" where
  "enum_value_or_auto n =
     (case find (\<lambda>p. prefer_value p = n) [PreferVP9, PreferH264, PreferH265, PreferVP8, PreferAV1] of
        Some p \<Rightarrow> p | None \<Rightarrow> PreferAuto)"

record supported_decoding =
  ability_vp9 :: int
  ability_h264 :: int
  ability_h265 :: int
  prefer_raw :: int
  ability_vp8 :: int
  ability_av1 :: int
  i444_vp9 :: bool
  i444_av1 :: bool
  prefer_chroma :: int

definition decoding_default :: supported_decoding where
  "decoding_default = \<lparr>ability_vp9 = 0, ability_h264 = 0, ability_h265 = 0, prefer_raw = 0, ability_vp8 = 0,
     ability_av1 = 0, i444_vp9 = False, i444_av1 = False, prefer_chroma = 0\<rparr>"

record supported_encoding =
  enc_vp8 :: bool
  enc_av1 :: bool
  enc_h264 :: bool
  enc_h265 :: bool

section \<open>Environment and tables\<close>

record vram_feature =
  vf_luid :: int
  vf_ffmpeg :: bool
  vf_format :: codec_format

record codec_env =
  feat_vram :: bool
  feat_hwcodec :: bool
  is_windows :: bool
  is_ios :: bool
  opt_enable_hwcodec :: string
  opt_enable_directx :: string
  opt_av1_test :: string
  usize_bytes :: nat
  best_h264 :: "string option"
  best_h265 :: "string option"
  vram_encode :: "vram_feature list"
  display_luids :: "int option list option"
  total_memory :: nat

record codec_tables =
  peer_decodings :: "(int \<times> supported_decoding) list"
  encode_codec_format :: codec_format
  usable_encoding :: "supported_encoding option"
  fallback_gdi :: "string list"
  encode_not_use :: "(string \<times> bool) list"

definition tables_default :: codec_tables where
  "tables_default = \<lparr>peer_decodings = [], encode_codec_format = VP9, usable_encoding = None,
     fallback_gdi = [], encode_not_use = []\<rparr>"

definition disable_av1 :: "codec_env \<Rightarrow> bool" where
  "disable_av1 env \<longleftrightarrow> usize_bytes env = 4"

definition enable_hwcodec_option :: "codec_env \<Rightarrow> bool" where
  "enable_hwcodec_option env \<longleftrightarrow> \<not> is_ios env \<and> option2bool ''enable-hwcodec'' (opt_enable_hwcodec env)"

text \<open>\<open>enable_vram_option(true)\<close>, for encoding.\<close>

definition enable_vram_option :: "codec_env \<Rightarrow> bool" where
  "enable_vram_option env \<longleftrightarrow> is_windows env \<and> option2bool ''enable-hwcodec'' (opt_enable_hwcodec env)
     \<and> option2bool ''enable-directx-capture'' (opt_enable_directx env)"

section \<open>Hardware encoders\<close>

definition hw_try_get :: "codec_env \<Rightarrow> codec_format \<Rightarrow> string option" where
  "hw_try_get env f = (case f of H264 \<Rightarrow> best_h264 env | H265 \<Rightarrow> best_h265 env | _ \<Rightarrow> None)"

definition vram_available :: "codec_env \<Rightarrow> codec_tables \<Rightarrow> codec_format \<Rightarrow> vram_feature list" where
  "vram_available env t f =
     (if fallback_gdi t \<noteq> [] then []
      else if list_ex snd (encode_not_use t) then []
      else if f \<notin> {H264, H265} then []
      else
        let v = filter (\<lambda>c. vf_format c = f) (vram_encode env) in
        if hw_try_get env f \<noteq> None then v
        else (case display_luids env of
                None \<Rightarrow> []
              | Some luids \<Rightarrow>
                  if luids = [] then []
                  else if list_all (\<lambda>l. list_ex (\<lambda>c. Some (vf_luid c) = l) v) luids then v else []))"

definition vram_try_get :: "codec_env \<Rightarrow> codec_tables \<Rightarrow> int \<Rightarrow> codec_format \<Rightarrow> vram_feature option" where
  "vram_try_get env t luid f =
     (let v = filter (\<lambda>c. vf_luid c = luid) (vram_available env t f) in
      if v \<noteq> [] then (case find vf_ffmpeg v of Some c \<Rightarrow> Some c | None \<Rightarrow> Some (v ! 0)) else None)"

definition vram_set_not_use :: "string \<Rightarrow> bool \<Rightarrow> codec_tables \<Rightarrow> codec_tables" where
  "vram_set_not_use name b t = t\<lparr>encode_not_use := AList.update name b (encode_not_use t)\<rparr>"

definition vram_set_fallback_gdi :: "string \<Rightarrow> bool \<Rightarrow> codec_tables \<Rightarrow> codec_tables" where
  "vram_set_fallback_gdi name b t =
     t\<lparr>fallback_gdi := (if b then List.insert name (fallback_gdi t) else removeAll name (fallback_gdi t))\<rparr>"

section \<open>Negotiation\<close>

datatype encoding_update =
    Update int supported_decoding
  | Remove int
  | NewOnlyVP9 int
  | Check

definition update_decodings :: "encoding_update \<Rightarrow> (int \<times> supported_decoding) list \<Rightarrow> (int \<times> supported_decoding) list" where
  "update_decodings u ds =
     (case u of
        Update i s \<Rightarrow> AList.update i s ds
      | Remove i \<Rightarrow> AList.delete i ds
      | NewOnlyVP9 i \<Rightarrow> AList.update i (decoding_default\<lparr>ability_vp9 := 1\<rparr>) ds
      | Check \<Rightarrow> ds)"

definition all_peers :: "(supported_decoding \<Rightarrow> int) \<Rightarrow> (int \<times> supported_decoding) list \<Rightarrow> bool" where
  "all_peers ability ds \<longleftrightarrow> length ds > 0 \<and> list_all (\<lambda>(_, s). ability s > 0) ds"

text \<open>The hardware encoders that may be used for a format, and whether the format is usable.\<close>

definition hardware_encoding :: "codec_env \<Rightarrow> codec_tables \<Rightarrow> bool \<Rightarrow> codec_format \<Rightarrow> bool" where
  "hardware_encoding env t all_support f \<longleftrightarrow>
     feat_vram env \<and> enable_vram_option env \<and> all_support \<and> length (vram_available env t f) > 0
     \<or> feat_hwcodec env \<and> enable_hwcodec_option env \<and> all_support \<and> hw_try_get env f \<noteq> None"

definition usable_for :: "codec_env \<Rightarrow> codec_tables \<Rightarrow> (int \<times> supported_decoding) list \<Rightarrow> supported_encoding" where
  "usable_for env t ds =
     \<lparr>enc_vp8 = all_peers ability_vp8 ds,
      enc_av1 = all_peers ability_av1 ds \<and> \<not> disable_av1 env,
      enc_h264 = all_peers ability_h264 ds \<and> hardware_encoding env t (all_peers ability_h264 ds) H264,
      enc_h265 = all_peers ability_h265 ds \<and> hardware_encoding env t (all_peers ability_h265 ds) H265\<rparr>"

definition preferences :: "supported_encoding \<Rightarrow> (int \<times> supported_decoding) list \<Rightarrow> int list" where
  "preferences e ds =
     map (\<lambda>(_, s). prefer_raw s)
       (filter (\<lambda>(_, s). prefer_raw s = prefer_value PreferVP9
                  \<or> prefer_raw s = prefer_value PreferVP8 \<and> enc_vp8 e
                  \<or> prefer_raw s = prefer_value PreferAV1 \<and> enc_av1 e
                  \<or> prefer_raw s = prefer_value PreferH264 \<and> enc_h264 e
                  \<or> prefer_raw s = prefer_value PreferH265 \<and> enc_h265 e) ds)"

fun count_pref :: "int \<Rightarrow> (int \<times> nat) list \<Rightarrow> (int \<times> nat) list" where
  "count_pref p [] = [(p, 1)]"
| "count_pref p ((q, n) # cs) = (if q = p then (q, n + 1) # cs else (q, n) # count_pref p cs)"

definition most_frequent :: "int list \<Rightarrow> int" where
  "most_frequent prefs =
     (let counts = fold count_pref prefs [];
          max_count = fold max (map snd counts) 0
      in case find (\<lambda>(_, n). n = max_count) counts of Some (p, _) \<Rightarrow> p | None \<Rightarrow> prefer_value PreferAuto)"

definition auto_codec :: "codec_env \<Rightarrow> supported_encoding \<Rightarrow> codec_format" where
  "auto_codec env e =
     (let c = (if enc_av1 e \<and> opt_av1_test env \<noteq> ''N'' then AV1 else VP9);
          c = (if enc_h264 e then H264 else c);
          c = (if enc_h265 e then H265 else c)
      in if (c = VP9 \<or> c = AV1) \<and> enc_vp8 e \<and> total_memory env \<le> 4 * 1024 * 1024 * 1024 then VP8 else c)"

definition encoder_update :: "codec_env \<Rightarrow> encoding_update \<Rightarrow> codec_tables \<Rightarrow> codec_tables" where
  "encoder_update env u t =
     (let ds = update_decodings u (peer_decodings t);
          e = usable_for env t ds;
          preference = enum_value_or_auto (most_frequent (preferences e ds));
          auto = auto_codec env e;
          f = (case preference of
                 PreferVP8 \<Rightarrow> VP8
               | PreferVP9 \<Rightarrow> VP9
               | PreferAV1 \<Rightarrow> AV1
               | PreferH264 \<Rightarrow> if hardware_encoding env t (all_peers ability_h264 ds) H264 then H264 else auto
               | PreferH265 \<Rightarrow> if hardware_encoding env t (all_peers ability_h265 ds) H265 then H265 else auto
               | PreferAuto \<Rightarrow> auto)
      in t\<lparr>peer_decodings := ds, usable_encoding := Some e, encode_codec_format := f\<rparr>)"

text \<open>\<open>update_codec_on_login\<close>: the abilities of the login request, if it carries any.\<close>

definition update_codec_on_login :: "codec_env \<Rightarrow> int \<Rightarrow> supported_decoding option \<Rightarrow> codec_tables \<Rightarrow> codec_tables" where
  "update_codec_on_login env i lr t =
     encoder_update env (case lr of Some q \<Rightarrow> Update i q | None \<Rightarrow> NewOnlyVP9 i) t"

text \<open>\<open>Encoder::supported_encoding\<close>; the constant 4:4:4 abilities are left out.\<close>

definition supported_encoding_of :: "codec_env \<Rightarrow> codec_tables \<Rightarrow> supported_encoding" where
  "supported_encoding_of env t =
     (let hw = (\<lambda>f. feat_hwcodec env \<and> enable_hwcodec_option env \<and> hw_try_get env f \<noteq> None
                   \<or> feat_vram env \<and> enable_vram_option env \<and> length (vram_available env t f) > 0)
      in \<lparr>enc_vp8 = True, enc_av1 = \<not> disable_av1 env, enc_h264 = hw H264, enc_h265 = hw H265\<rparr>)"

section \<open>Encoder configurations\<close>

text \<open>
  The parameters all four kinds of encoder share. The device of a VRAM encoder and the media
  codec name of a RAM encoder are copied for the library and left out.
\<close>

record enc_params =
  ec_width :: nat
  ec_height :: nat
  ec_quality :: f32
  ec_keyframe :: "nat option"

datatype encoder_cfg =
    VPX enc_params bool
  | AOM enc_params
  | HWRAM enc_params string
  | VRAM enc_params vram_feature

fun substring :: "string \<Rightarrow> string \<Rightarrow> bool" where
  "substring [] p \<longleftrightarrow> p = []"
| "substring (c # cs) p \<longleftrightarrow> starts_with (c # cs) p \<or> substring cs p"

definition ascii_lowercase :: "string \<Rightarrow> string" where
  "ascii_lowercase s =
     map (\<lambda>c. let n = (of_char c :: nat) in if 65 \<le> n \<and> n \<le> 90 then char_of (n + 32) else c) s"

text \<open>The format \<open>set_fallback\<close> reads off a configuration; \<open>VPX\<close> carries whether it is VP8.\<close>

definition cfg_format :: "encoder_cfg \<Rightarrow> codec_format option" where
  "cfg_format cfg =
     (case cfg of
        VPX _ vp8 \<Rightarrow> Some (if vp8 then VP8 else VP9)
      | AOM _ \<Rightarrow> Some AV1
      | HWRAM _ n \<Rightarrow>
          let name = ascii_lowercase n in
          Some (if substring name ''vp8'' then VP8
                else if substring name ''vp9'' then VP9
                else if substring name ''av1'' then AV1
                else if substring name ''h264'' then H264
                else H265)
      | VRAM _ v \<Rightarrow> (case vf_format v of H264 \<Rightarrow> Some H264 | H265 \<Rightarrow> Some H265 | _ \<Rightarrow> None))"

definition set_fallback :: "encoder_cfg \<Rightarrow> codec_tables \<Rightarrow> codec_tables" where
  "set_fallback cfg t =
     (case cfg_format cfg of
        None \<Rightarrow> t
      | Some f \<Rightarrow> if encode_codec_format t \<noteq> f then t\<lparr>encode_codec_format := f\<rparr> else t)"

definition use_i444 :: "encoder_cfg \<Rightarrow> codec_tables \<Rightarrow> bool" where
  "use_i444 cfg t =
     (let ds = peer_decodings t;
          prefer_i444 = list_all (\<lambda>(_, s). prefer_chroma s = 1) ds;
          useable = (case cfg of
                       VPX _ vp8 \<Rightarrow> \<not> vp8 \<and> list_all (\<lambda>(_, s). i444_vp9 s) ds
                     | AOM _ \<Rightarrow> list_all (\<lambda>(_, s). i444_av1 s) ds
                     | HWRAM _ _ \<Rightarrow> False
                     | VRAM _ _ \<Rightarrow> False)
      in prefer_i444 \<and> useable \<and> ds \<noteq> [])"

record capture =
  cap_width :: nat
  cap_height :: nat
  cap_luid :: int
  cap_gdi :: bool
  cap_camera :: bool
  cap_portable :: bool

definition get_encoder_config ::
    "codec_env \<Rightarrow> capture \<Rightarrow> string \<Rightarrow> f32 \<Rightarrow> bool \<Rightarrow> codec_tables \<Rightarrow> encoder_cfg \<times> codec_tables" where
  "get_encoder_config env c name quality record_it t =
     (let t = (if is_windows env \<and> feat_vram env \<and> (cap_portable c \<or> cap_gdi c \<or> cap_camera c)
               then vram_set_not_use name True t else t);
          t = (if feat_vram env then encoder_update env Check t else t);
          ps = \<lparr>ec_width = cap_width c, ec_height = cap_height c, ec_quality = quality,
                ec_keyframe = (if record_it then Some 240 else None)\<rparr>;
          f = encode_codec_format t;
          cfg = (if f = H264 \<or> f = H265 then
                   (case (if feat_vram env then vram_try_get env t (cap_luid c) f else None) of
                      Some v \<Rightarrow> VRAM ps v
                    | None \<Rightarrow>
                        (case (if feat_hwcodec env then hw_try_get env f else None) of
                           Some n \<Rightarrow> HWRAM ps n
                         | None \<Rightarrow> VPX ps False))
                 else if f = VP8 then VPX ps True
                 else if f = AV1 then AOM ps
                 else VPX ps False)
      in (cfg, t))"

text \<open>
  \<open>Encoder::new\<close>: \<open>works\<close> says whether the library creates the encoder. A hardware encoder that
  fails resets the codec (the library's list of encoders, which it clears too, is part of the
  environment of later calls). Success is the configuration and the 4:4:4 flag.
\<close>

definition encoder_new :: "(encoder_cfg \<Rightarrow> bool \<Rightarrow> bool) \<Rightarrow> encoder_cfg \<Rightarrow> bool \<Rightarrow> codec_tables \<Rightarrow> bool \<times> codec_tables" where
  "encoder_new works cfg i444 t =
     (if works cfg i444 then (True, t)
      else (False, case cfg of VPX _ _ \<Rightarrow> t | AOM _ \<Rightarrow> t | _ \<Rightarrow> t\<lparr>encode_codec_format := VP9\<rparr>))"

definition setup_encoder ::
    "codec_env \<Rightarrow> (encoder_cfg \<Rightarrow> bool \<Rightarrow> bool) \<Rightarrow> capture \<Rightarrow> string \<Rightarrow> f32 \<Rightarrow> bool \<Rightarrow> bool \<Rightarrow> codec_tables
     \<Rightarrow> (encoder_cfg \<times> codec_format \<times> bool) option \<times> codec_tables" where
  "setup_encoder env works c name quality client_record record_incoming t =
     (case get_encoder_config env c name quality (client_record \<or> record_incoming) t of (cfg, t) \<Rightarrow>
        let t = set_fallback cfg t;
            f = encode_codec_format t;
            i444 = use_i444 cfg t
        in case encoder_new works cfg i444 t of
             (True, t) \<Rightarrow> (Some (cfg, f, i444), t)
           | (False, t) \<Rightarrow> (None, t))"

section \<open>The viewer\<close>

text \<open>\<open>Decoder::preference\<close>, from the options stored for the peer.\<close>

definition decoder_preference :: "string option \<Rightarrow> (string \<Rightarrow> string option) \<Rightarrow> prefer_codec \<times> int" where
  "decoder_preference i options =
     (case i of
        None \<Rightarrow> (PreferAuto, 0)
      | Some i \<Rightarrow>
          if i = [] then (PreferAuto, 0)
          else
            let codec = (case options ''codec-preference'' of Some c \<Rightarrow> c | None \<Rightarrow> []) in
            (if codec = ''vp8'' then PreferVP8
             else if codec = ''vp9'' then PreferVP9
             else if codec = ''av1'' then PreferAV1
             else if codec = ''h264'' then PreferH264
             else if codec = ''h265'' then PreferH265
             else PreferAuto,
             if options ''i444'' = Some ''Y'' then 1 else 0))"

text \<open>
  \<open>Decoder::supported_decodings\<close> in the builds for desktops (without \<open>mediacodec\<close>): \<open>hwram\<close> and
  \<open>vramd\<close> tell which formats the hardware decoders handle, \<open>texture\<close> is
  \<open>enable_vram_option(false) && use_texture_render\<close>.
\<close>

definition mark_unsupported :: "codec_format \<Rightarrow> supported_decoding \<Rightarrow> supported_decoding" where
  "mark_unsupported f s =
     (case f of
        VP8 \<Rightarrow> s\<lparr>ability_vp8 := 0\<rparr>
      | VP9 \<Rightarrow> s\<lparr>ability_vp9 := 0\<rparr>
      | AV1 \<Rightarrow> s\<lparr>ability_av1 := 0\<rparr>
      | H264 \<Rightarrow> s\<lparr>ability_h264 := 0\<rparr>
      | H265 \<Rightarrow> s\<lparr>ability_h265 := 0\<rparr>
      | Unknown \<Rightarrow> s)"

definition supported_decodings ::
    "codec_env \<Rightarrow> (codec_format \<Rightarrow> bool) \<Rightarrow> (codec_format \<Rightarrow> bool) \<Rightarrow> bool \<Rightarrow> string option \<Rightarrow> (string \<Rightarrow> string option) \<Rightarrow> codec_format list \<Rightarrow> supported_decoding" where
  "supported_decodings env hwram vramd texture i options marks =
     (case decoder_preference i options of (p, chroma) \<Rightarrow>
        let hw = (\<lambda>f. feat_hwcodec env \<and> hwram f \<or> feat_vram env \<and> texture \<and> vramd f) in
        fold mark_unsupported marks
          (decoding_default\<lparr>ability_vp8 := 1, ability_vp9 := 1, ability_av1 := (if disable_av1 env then 0 else 1),
             i444_vp9 := True, i444_av1 := True, prefer_raw := prefer_value p, prefer_chroma := chroma,
             ability_h264 := (if hw H264 then 1 else 0), ability_h265 := (if hw H265 then 1 else 0)\<rparr>))"

section \<open>Counting preferences\<close>

definition pref_counts :: "int list \<Rightarrow> (int \<times> nat) list \<Rightarrow> bool" where
  "pref_counts ps cs \<longleftrightarrow> distinct (map fst cs) \<and> (\<forall>p n. (p, n) \<in> set cs \<longleftrightarrow> p \<in> set ps \<and> n = count_list ps p)"

lemma count_pref_set:
  "distinct (map fst cs) \<Longrightarrow>
   distinct (map fst (count_pref p cs)) \<and> fst ` set (count_pref p cs) = insert p (fst ` set cs) \<and>
   (\<forall>q n. (q, n) \<in> set (count_pref p cs) \<longleftrightarrow>
      (if q = p then n = (case map_of cs p of Some k \<Rightarrow> k + 1 | None \<Rightarrow> 1) else (q, n) \<in> set cs))"
proof (induction cs)
  case (Cons a cs)
  obtain q k where a: "a = (q, k)" by (cases a)
  with Cons.prems have d: "distinct (map fst cs)" and nq: "q \<notin> fst ` set cs" by auto
  show ?case
  proof (cases "q = p")
    case True
    with a d nq show ?thesis by (force simp: image_iff)
  next
    case False
    with a nq Cons.IH [OF d] show ?thesis by (auto split: if_splits)
  qed
qed auto

lemma pref_counts_step: "pref_counts ps cs \<Longrightarrow> pref_counts (ps @ [p]) (count_pref p cs)"
proof -
  assume a: "pref_counts ps cs"
  then have d: "distinct (map fst cs)" and c: "\<And>q n. (q, n) \<in> set cs \<longleftrightarrow> q \<in> set ps \<and> n = count_list ps q"
    by (auto simp: pref_counts_def)
  have m: "map_of cs p = (if p \<in> set ps then Some (count_list ps p) else None)"
    using c d by (auto simp: map_of_eq_None_iff image_iff)
  have "(q, n) \<in> set (count_pref p cs) \<longleftrightarrow> q \<in> set (ps @ [p]) \<and> n = count_list (ps @ [p]) q" for q n
    using count_pref_set [OF d, of p] c [of q n] m by (auto simp: count_list_0_iff)
  then show ?thesis using count_pref_set [OF d, of p] by (simp add: pref_counts_def)
qed

lemma pref_counts_fold: "pref_counts ps cs \<Longrightarrow> pref_counts (ps @ qs) (fold count_pref qs cs)"
proof (induction qs arbitrary: ps cs)
  case (Cons q qs)
  then show ?case using Cons.IH [OF pref_counts_step [OF Cons.prems]] by simp
qed simp

lemma fold_max_ge: "a \<le> fold max xs (a :: nat) \<and> (\<forall>x \<in> set xs. x \<le> fold max xs a) \<and> (fold max xs a = a \<or> fold max xs a \<in> set xs)"
proof (induction xs arbitrary: a)
  case (Cons x xs)
  show ?case using Cons [of "max x a"] by (auto simp: max_def split: if_splits)
qed simp

lemma most_frequent_max:
  assumes "prefs \<noteq> []"
  shows "most_frequent prefs \<in> set prefs \<and> (\<forall>q. count_list prefs q \<le> count_list prefs (most_frequent prefs))"
proof -
  define cs where "cs = fold count_pref prefs []"
  define m where "m = fold max (map snd cs) 0"
  have "pref_counts [] []" by (simp add: pref_counts_def)
  then have pc: "pref_counts prefs cs" using pref_counts_fold [of "[]" "[]" prefs] by (simp add: cs_def)
  then have c: "\<And>q n. (q, n) \<in> set cs \<longleftrightarrow> q \<in> set prefs \<and> n = count_list prefs q" by (simp add: pref_counts_def)
  have ge: "n \<le> m" if "(q, n) \<in> set cs" for q n
    using that fold_max_ge [of 0 "map snd cs"] by (force simp: m_def)
  obtain q where q: "q \<in> set prefs" using assms by (cases prefs) auto
  then have "(q, count_list prefs q) \<in> set cs" "0 < count_list prefs q" using c by (auto simp: count_list_0_iff neq0_conv [symmetric])
  then have "m \<in> snd ` set cs" using fold_max_ge [of 0 "map snd cs"] ge by (force simp: m_def)
  then obtain r where r: "find (\<lambda>(_, n). n = m) cs = Some r"
    using find_None_iff [of "\<lambda>(_, n). n = m" cs] by (cases "find (\<lambda>(_, n). n = m) cs") auto
  then obtain i where "i < length cs" "r = cs ! i" "snd r = m"
    by (auto simp: find_Some_iff case_prod_unfold)
  then have rc: "r \<in> set cs" "snd r = m" by auto
  have mf: "most_frequent prefs = fst r"
    using r by (cases r) (simp add: most_frequent_def cs_def [symmetric] m_def [symmetric] Let_def)
  have f: "fst r \<in> set prefs" "m = count_list prefs (fst r)" using rc c [of "fst r" m] by (cases r; auto)+
  have "count_list prefs q \<le> m" for q
    using ge [of q "count_list prefs q"] c [of q "count_list prefs q"] by (cases "q \<in> set prefs") (auto simp: count_list_0_iff)
  then show ?thesis using mf f by auto
qed

section \<open>What is negotiated\<close>

definition decodes :: "supported_decoding \<Rightarrow> codec_format \<Rightarrow> bool" where
  "decodes s f = (case f of VP8 \<Rightarrow> ability_vp8 s > 0 | AV1 \<Rightarrow> ability_av1 s > 0 | H264 \<Rightarrow> ability_h264 s > 0
                  | H265 \<Rightarrow> ability_h265 s > 0 | VP9 \<Rightarrow> ability_vp9 s > 0 | Unknown \<Rightarrow> False)"

definition encodes :: "codec_env \<Rightarrow> codec_tables \<Rightarrow> codec_format \<Rightarrow> bool" where
  "encodes env t f = (case f of VP8 \<Rightarrow> True | VP9 \<Rightarrow> True | AV1 \<Rightarrow> \<not> disable_av1 env
     | H264 \<Rightarrow> hardware_encoding env t True H264 | H265 \<Rightarrow> hardware_encoding env t True H265 | Unknown \<Rightarrow> False)"

definition shared_codec :: "codec_tables \<Rightarrow> codec_format \<Rightarrow> bool" where
  "shared_codec t f \<longleftrightarrow> f = VP9 \<or> peer_decodings t \<noteq> [] \<and> (\<forall>(i, s) \<in> set (peer_decodings t). decodes s f)"

lemma all_peers_iff: "all_peers a ds \<longleftrightarrow> ds \<noteq> [] \<and> (\<forall>(i, s) \<in> set ds. a s > 0)"
  by (auto simp: all_peers_def list_all_iff)

lemma hardware_encoding_mono: "hardware_encoding env t b f \<Longrightarrow> b \<and> hardware_encoding env t True f"
  by (auto simp: hardware_encoding_def)

text \<open>A codec that counts as usable is decoded by all peers and encoded by the host.\<close>

lemma usable_shared:
  assumes "e = usable_for env t (peer_decodings t')"
  shows "enc_vp8 e \<Longrightarrow> shared_codec t' VP8 \<and> encodes env t VP8"
    and "enc_av1 e \<Longrightarrow> shared_codec t' AV1 \<and> encodes env t AV1"
    and "enc_h264 e \<Longrightarrow> shared_codec t' H264 \<and> encodes env t H264"
    and "enc_h265 e \<Longrightarrow> shared_codec t' H265 \<and> encodes env t H265"
  using assms
  by (auto simp: usable_for_def shared_codec_def decodes_def encodes_def all_peers_iff dest: hardware_encoding_mono)

lemma preference_usable:
  assumes "p \<in> set (preferences e ds)"
  shows "p = prefer_value PreferVP9 \<or> p = prefer_value PreferVP8 \<and> enc_vp8 e \<or> p = prefer_value PreferAV1 \<and> enc_av1 e
     \<or> p = prefer_value PreferH264 \<and> enc_h264 e \<or> p = prefer_value PreferH265 \<and> enc_h265 e"
  using assms by (auto simp: preferences_def)

lemma auto_codec_cases:
  "auto_codec env e = VP9 \<or> auto_codec env e = AV1 \<and> enc_av1 e \<or> auto_codec env e = H264 \<and> enc_h264 e
   \<or> auto_codec env e = H265 \<and> enc_h265 e \<or> auto_codec env e = VP8 \<and> enc_vp8 e"
  by (auto simp: auto_codec_def Let_def)

lemma most_frequent_Nil: "most_frequent [] = prefer_value PreferAuto"
  by (simp add: most_frequent_def)

lemma chosen_preference:
  "most_frequent (preferences e ds) = prefer_value PreferAuto \<and> preferences e ds = []
   \<or> most_frequent (preferences e ds) \<in> set (preferences e ds)"
  using most_frequent_max [of "preferences e ds"] by (cases "preferences e ds = []") (auto simp: most_frequent_Nil)

lemma enum_values: "enum_value_or_auto (prefer_value p) = p"
  by (cases p) (simp_all add: enum_value_or_auto_def)

lemma update_format_cases:
  fixes env u t
  defines "t' \<equiv> encoder_update env u t" and "e \<equiv> usable_for env t (update_decodings u (peer_decodings t))"
  shows "encode_codec_format t' = VP9 \<or> encode_codec_format t' = VP8 \<and> enc_vp8 e \<or> encode_codec_format t' = AV1 \<and> enc_av1 e
     \<or> encode_codec_format t' = H264 \<and> enc_h264 e \<or> encode_codec_format t' = H265 \<and> enc_h265 e"
proof -
  let ?ds = "update_decodings u (peer_decodings t)"
  define p where "p = most_frequent (preferences e ?ds)"
  have "p = prefer_value PreferAuto \<or> p \<in> set (preferences e ?ds)"
    using chosen_preference [of e ?ds] by (auto simp: p_def)
  then have "p = prefer_value PreferAuto \<or> p = prefer_value PreferVP9 \<or> p = prefer_value PreferVP8 \<and> enc_vp8 e
      \<or> p = prefer_value PreferAV1 \<and> enc_av1 e \<or> p = prefer_value PreferH264 \<and> enc_h264 e
      \<or> p = prefer_value PreferH265 \<and> enc_h265 e"
    using preference_usable by blast
  moreover note auto_codec_cases [of env e]
  ultimately show ?thesis
    unfolding t'_def encoder_update_def Let_def e_def [symmetric] p_def [symmetric]
    by (elim disjE conjE) (simp_all add: enum_values del: prefer_value.simps)
qed


section \<open>Votes\<close>

fun format_of :: "prefer_codec \<Rightarrow> codec_format" where
  "format_of PreferVP8 = VP8"
| "format_of PreferVP9 = VP9"
| "format_of PreferAV1 = AV1"
| "format_of PreferH264 = H264"
| "format_of PreferH265 = H265"
| "format_of PreferAuto = Unknown"

definition usable_preference :: "supported_encoding \<Rightarrow> prefer_codec \<Rightarrow> bool" where
  "usable_preference e p = (case p of PreferVP9 \<Rightarrow> True | PreferVP8 \<Rightarrow> enc_vp8 e | PreferAV1 \<Rightarrow> enc_av1 e
     | PreferH264 \<Rightarrow> enc_h264 e | PreferH265 \<Rightarrow> enc_h265 e | PreferAuto \<Rightarrow> False)"

definition votes :: "(int \<times> supported_decoding) list \<Rightarrow> prefer_codec \<Rightarrow> nat" where
  "votes ds p = length (filter (\<lambda>(_, s). prefer_raw s = prefer_value p) ds)"

lemma prefer_value_inj: "prefer_value p = prefer_value q \<longleftrightarrow> p = q"
  using enum_values by metis

lemma count_preferences:
  "usable_preference e p \<Longrightarrow> count_list (preferences e ds) (prefer_value p) = votes ds p"
proof (induction ds)
  case (Cons d ds)
  then show ?case by (cases d; cases p) (auto simp: preferences_def votes_def usable_preference_def)
qed (simp add: preferences_def votes_def)

lemma preference_named:
  "v \<in> set (preferences e ds) \<Longrightarrow> \<exists>p. v = prefer_value p \<and> usable_preference e p"
  using preference_usable [of v e ds] unfolding usable_preference_def by (metis prefer_codec.simps)

lemma update_format_preferred:
  assumes "most_frequent (preferences e ds) = prefer_value p" "usable_preference e p"
    and "e = usable_for env t ds" "ds = update_decodings u (peer_decodings t)"
  shows "encode_codec_format (encoder_update env u t) = format_of p"
proof -
  have "enc_h264 e \<Longrightarrow> hardware_encoding env t (all_peers ability_h264 ds) H264"
    "enc_h265 e \<Longrightarrow> hardware_encoding env t (all_peers ability_h265 ds) H265"
    by (auto simp: assms(3) usable_for_def)
  then show ?thesis
    using assms(2) unfolding encoder_update_def Let_def assms(4) [symmetric] assms(3) [symmetric] assms(1)
    by (cases p) (simp_all add: enum_values usable_preference_def del: prefer_value.simps)
qed

section \<open>The encoder of a video service\<close>

definition names_tell_format :: "codec_env \<Rightarrow> bool" where
  "names_tell_format env \<longleftrightarrow>
     (\<forall>f n ps. hw_try_get env f = Some n \<longrightarrow> cfg_format (HWRAM ps n) = Some f)"

lemma vram_try_get_format: "vram_try_get env t l f = Some v \<Longrightarrow> vf_format v = f \<and> (f = H264 \<or> f = H265)"
proof -
  assume a: "vram_try_get env t l f = Some v"
  have "v \<in> set (vram_available env t f)"
  proof -
    have "v \<in> set (filter (\<lambda>c. vf_luid c = l) (vram_available env t f))"
      using a unfolding vram_try_get_def Let_def
      by (auto simp: find_Some_iff simp del: set_filter split: if_splits option.splits)
    then show ?thesis by simp
  qed
  then show ?thesis unfolding vram_available_def Let_def by (auto split: if_splits option.splits)
qed

lemma update_peers [simp]:
  "peer_decodings (encoder_update env u t) = update_decodings u (peer_decodings t)"
  by (simp add: encoder_update_def Let_def)

lemma update_shared: "shared_codec (encoder_update env u t) (encode_codec_format (encoder_update env u t))
    \<and> encodes env t (encode_codec_format (encoder_update env u t))"
proof -
  let ?t = "encoder_update env u t"
  define e where "e = usable_for env t (peer_decodings ?t)"
  note c = update_format_cases [of env u t, folded update_peers [of env u t], folded e_def]
  have "shared_codec ?t VP9" "encodes env t VP9" by (simp_all add: shared_codec_def encodes_def)
  with c usable_shared [OF e_def] show ?thesis by (elim disjE conjE) simp_all
qed

lemma shared_codec_cong: "peer_decodings t = peer_decodings t' \<Longrightarrow> shared_codec t f = shared_codec t' f"
  by (simp add: shared_codec_def)

lemma get_encoder_config_negotiated:
  assumes "get_encoder_config env c name q r t = (cfg, t')" and "names_tell_format env"
    and "shared_codec t (encode_codec_format t)"
  shows "(cfg_format cfg = Some VP9 \<or> cfg_format cfg = Some (encode_codec_format t'))
     \<and> shared_codec t' (encode_codec_format t') \<and> peer_decodings t' = peer_decodings t"
proof -
  have ps: "peer_decodings t' = peer_decodings t"
    using assms(1) by (auto simp: get_encoder_config_def Let_def update_decodings_def vram_set_not_use_def split: if_splits)
  have sh: "shared_codec t' (encode_codec_format t')"
  proof (cases "feat_vram env")
    case True
    then obtain t0 where "t' = encoder_update env Check t0"
      using assms(1) by (auto simp: get_encoder_config_def Let_def)
    then show ?thesis using update_shared by blast
  next
    case False
    then have "t' = t" using assms(1) by (simp add: get_encoder_config_def Let_def)
    then show ?thesis using assms(3) by simp
  qed
  have "cfg_format cfg = Some VP9 \<or> cfg_format cfg = Some (encode_codec_format t')"
    using assms(1,2) vram_try_get_format [of env t' "cap_luid c" "encode_codec_format t'"]
    unfolding get_encoder_config_def Let_def names_tell_format_def
    by (auto simp: cfg_format_def split: if_splits option.splits)
  with ps sh show ?thesis by simp
qed

lemma set_fallback_result:
  "cfg_format cfg = Some f \<Longrightarrow> encode_codec_format (set_fallback cfg t) = f
     \<and> peer_decodings (set_fallback cfg t) = peer_decodings t"
  by (simp add: set_fallback_def)

lemma setup_encoder_consistent:
  assumes "names_tell_format env" and "shared_codec t (encode_codec_format t)"
    and "setup_encoder env works c name q cr ri t = (r, t')"
  shows "shared_codec t' (encode_codec_format t') \<and> peer_decodings t' = peer_decodings t \<and>
    (\<forall>cfg f i444. r = Some (cfg, f, i444) \<longrightarrow>
       cfg_format cfg = Some f \<and> encode_codec_format t' = f \<and> i444 = use_i444 cfg t')"
proof -
  obtain cfg t1 where g: "get_encoder_config env c name q (cr \<or> ri) t = (cfg, t1)"
    by (cases "get_encoder_config env c name q (cr \<or> ri) t")
  note n = get_encoder_config_negotiated [OF g assms(1,2)]
  then obtain f where f: "cfg_format cfg = Some f" "f = VP9 \<or> f = encode_codec_format t1" by auto
  define t2 where "t2 = set_fallback cfg t1"
  have t2: "encode_codec_format t2 = f" "peer_decodings t2 = peer_decodings t"
    using set_fallback_result [OF f(1), of t1] n by (simp_all add: t2_def)
  have sh: "shared_codec t2 f"
    using f(2) n t2(2) shared_codec_cong [of t2 t1] by (auto simp: shared_codec_def)
  show ?thesis
  proof (cases "works cfg (use_i444 cfg t2)")
    case True
    then have "r = Some (cfg, f, use_i444 cfg t2)" "t' = t2"
      using assms(3) g t2 by (auto simp: setup_encoder_def Let_def encoder_new_def t2_def)
    then show ?thesis using sh t2 f by simp
  next
    case False
    then have "r = None" and t': "t' = t2 \<or> t' = t2\<lparr>encode_codec_format := VP9\<rparr>"
      using assms(3) g by (auto simp: setup_encoder_def Let_def encoder_new_def t2_def split: encoder_cfg.splits)
    then show ?thesis using sh t2 by (auto simp: shared_codec_def)
  qed
qed

section \<open>A viewer's announcements\<close>

lemma mark_unsupported_decodes:
  "decodes (mark_unsupported g s) f \<longleftrightarrow> f \<noteq> g \<and> decodes s f"
  by (cases g; cases f) (simp_all add: mark_unsupported_def decodes_def)

lemma fold_marks: "decodes (fold mark_unsupported ms s) f \<longleftrightarrow> f \<notin> set ms \<and> decodes s f"
  by (induction ms arbitrary: s) (auto simp: mark_unsupported_decodes)

lemma marked_not_decoded: "f \<in> set ms \<Longrightarrow> \<not> decodes (supported_decodings env hwram vramd texture i opts ms) f"
  by (simp add: supported_decodings_def fold_marks Let_def split: prod.splits)

definition concerns :: "int \<Rightarrow> encoding_update \<Rightarrow> bool" where
  "concerns i u \<longleftrightarrow> (case u of Update j _ \<Rightarrow> i = j | Remove j \<Rightarrow> i = j | NewOnlyVP9 j \<Rightarrow> i = j | Check \<Rightarrow> False)"

lemma update_decodings_other:
  "\<not> concerns i u \<Longrightarrow> map_of (update_decodings u ds) i = map_of ds i"
  by (cases u) (auto simp: update_decodings_def concerns_def update_conv' delete_conv')

definition negotiate :: "(codec_env \<times> encoding_update) list \<Rightarrow> codec_tables \<Rightarrow> codec_tables" where
  "negotiate us t = fold (\<lambda>(env, u). encoder_update env u) us t"

lemma negotiate_keeps:
  "list_all (\<lambda>(_, u). \<not> concerns i u) us \<Longrightarrow>
   map_of (peer_decodings (negotiate us t)) i = map_of (peer_decodings t) i"
  by (induction us arbitrary: t) (auto simp: negotiate_def update_decodings_other)

lemma negotiate_shared:
  "shared_codec t (encode_codec_format t) \<Longrightarrow>
   shared_codec (negotiate us t) (encode_codec_format (negotiate us t))"
  by (induction us arbitrary: t) (use update_shared in \<open>auto simp: negotiate_def\<close>)

lemma shared_codec_peer:
  "shared_codec t f \<Longrightarrow> map_of (peer_decodings t) i = Some s \<Longrightarrow> f = VP9 \<or> decodes s f"
  by (auto simp: shared_codec_def dest: map_of_SomeD)

section \<open>Properties\<close>

text \<open>
  C21. The codec that \<open>Encoder::update\<close> negotiates after any peer joins, changes its abilities or
  leaves is VP9, or every connected peer can decode it; and the host can encode it.
\<close>

theorem negotiated_codec_shared:
  "let t' = encoder_update env u t; f = encode_codec_format t' in
     (f = VP9 \<or> peer_decodings t' \<noteq> [] \<and> list_all (\<lambda>(i, s). decodes s f) (peer_decodings t'))
     \<and> encodes env t f"
  using update_shared [of env u t] by (auto simp: Let_def shared_codec_def list_all_iff)

text \<open>
  When some peer prefers a codec that is usable by all, the negotiated codec is one with the most
  votes among the usable preferences.
\<close>

theorem majority_preference_wins:
  fixes env u t
  defines "t' \<equiv> encoder_update env u t"
  defines "ds \<equiv> peer_decodings t'" and "e \<equiv> usable_for env t (peer_decodings t')"
  assumes "usable_preference e q" "votes ds q > 0"
  shows "\<exists>p. usable_preference e p \<and> encode_codec_format t' = format_of p
     \<and> (\<forall>r. usable_preference e r \<longrightarrow> votes ds r \<le> votes ds p)"
proof -
  have "prefer_value q \<in> set (preferences e ds)"
    using assms(4,5) count_preferences [of e q ds] by (metis count_list_0_iff less_irrefl)
  then have "preferences e ds \<noteq> []" by auto
  then obtain p where p: "most_frequent (preferences e ds) = prefer_value p" "usable_preference e p"
      "\<And>v. count_list (preferences e ds) v \<le> count_list (preferences e ds) (prefer_value p)"
    using most_frequent_max [of "preferences e ds"] preference_named by metis
  have "encode_codec_format t' = format_of p"
    using p(1,2) unfolding t'_def by (rule update_format_preferred) (simp_all add: e_def ds_def t'_def)
  moreover have "votes ds r \<le> votes ds p" if "usable_preference e r" for r
    using that p(2,3) count_preferences by metis
  ultimately show ?thesis using p(2) by blast
qed


lemma shared_iff_list: "shared_codec t f \<longleftrightarrow> f = VP9 \<or> peer_decodings t \<noteq> [] \<and> list_all (\<lambda>(i, s). decodes s f) (peer_decodings t)"
  by (auto simp: shared_codec_def list_all_iff)

text \<open>
  A video service that sets up its encoder, with no negotiation in between, gets an encoder of
  the negotiated codec, which is one all peers decode; 4:4:4 is used only if all peers want and
  support it. This holds for a failed set-up too, which resets the codec to VP9. The names of
  hardware encoders have to tell their codec, as the fallback reads it off the name.
\<close>

theorem encoder_matches_negotiation:
  assumes "names_tell_format env" and "shared_codec t (encode_codec_format t)"
    and "setup_encoder env works c name q cr ri t = (r, t')"
  shows "shared_codec t' (encode_codec_format t') \<and>
    (case r of None \<Rightarrow> True
     | Some (cfg, f, i444) \<Rightarrow> cfg_format cfg = Some f \<and> encode_codec_format t' = f \<and>
         (i444 \<longrightarrow> peer_decodings t' \<noteq> [] \<and> (f = VP9 \<or> f = AV1) \<and>
            (\<forall>(i, s) \<in> set (peer_decodings t'). prefer_chroma s = 1 \<and> (if f = VP9 then i444_vp9 s else i444_av1 s))))"
proof -
  note s = setup_encoder_consistent [OF assms]
  have "peer_decodings t' \<noteq> [] \<and> (f = VP9 \<or> f = AV1) \<and>
      (\<forall>(i, s) \<in> set (peer_decodings t'). prefer_chroma s = 1 \<and> (if f = VP9 then i444_vp9 s else i444_av1 s))"
    if "use_i444 cfg t'" "cfg_format cfg = Some f" for cfg f
    using that by (cases cfg) (auto simp: use_i444_def cfg_format_def list_all_iff Let_def split: if_splits)
  note agreed = this
  show ?thesis
  proof (cases r)
    case (Some x)
    then obtain cfg f i444 where r: "r = Some (cfg, f, i444)" by (cases x) auto
    then have "cfg_format cfg = Some f" "encode_codec_format t' = f" "i444 = use_i444 cfg t'" using s by auto
    with r s agreed [of cfg f] show ?thesis by simp
  qed (use s in simp)
qed

text \<open>
  A viewer whose decoder failed for a codec other than VP9 announces the codec as unsupported;
  after that, until the viewer announces something else, whatever the other peers and the
  services do to the negotiation, the codec is not negotiated.
\<close>

theorem marked_codec_never_negotiated:
  assumes "f \<in> set marks" "f \<noteq> VP9" "list_all (\<lambda>(_, u). \<not> concerns i u) us"
  shows "encode_codec_format
    (negotiate us (update_codec_on_login env i (Some (supported_decodings env' hwram vramd texture pid options marks)) t)) \<noteq> f"
proof -
  let ?s = "supported_decodings env' hwram vramd texture pid options marks"
  define t0 where "t0 = update_codec_on_login env i (Some ?s) t"
  have t0: "shared_codec t0 (encode_codec_format t0)" "map_of (peer_decodings t0) i = Some ?s"
    using update_shared [of env "Update i ?s" t]
    by (simp_all add: t0_def update_codec_on_login_def update_decodings_def update_conv')
  have "encode_codec_format (negotiate us t0) = VP9 \<or> decodes ?s (encode_codec_format (negotiate us t0))"
    using shared_codec_peer [OF negotiate_shared [OF t0(1), of us], of i] negotiate_keeps [OF assms(3), of t0] t0(2) by simp
  then show ?thesis using marked_not_decoded [OF assms(1)] assms(2) by (auto simp: t0_def)
qed

section \<open>Witnesses\<close>

definition plain_env :: codec_env where
  "plain_env = \<lparr>feat_vram = False, feat_hwcodec = True, is_windows = False, is_ios = False,
     opt_enable_hwcodec = [], opt_enable_directx = [], opt_av1_test = [], usize_bytes = 8,
     best_h264 = Some ''h264_nvenc'', best_h265 = None, vram_encode = [], display_luids = None, total_memory = 0\<rparr>"

definition viewer :: "string \<Rightarrow> codec_format list \<Rightarrow> supported_decoding" where
  "viewer pref marks = supported_decodings plain_env (\<lambda>f. f = H264) (\<lambda>_. False) False (Some ''peer'')
     (\<lambda>k. if k = ''codec-preference'' then Some pref else Some ''Y'') marks"

text \<open>Two viewers, one of which prefers AV1 and one H264, of which the second lost its AV1 decoder.\<close>

definition two_viewers :: codec_tables where
  "two_viewers = update_codec_on_login plain_env 2 (Some (viewer ''h264'' [AV1]))
     (update_codec_on_login plain_env 1 (Some (viewer ''av1'' [])) tables_default)"

lemmas viewer_eval = viewer_def Let_def supported_decodings_def decoder_preference_def decoding_default_def disable_av1_def
  plain_env_def mark_unsupported_def

lemma plain_names: "names_tell_format plain_env"
  by (auto simp: names_tell_format_def hw_try_get_def plain_env_def cfg_format_def ascii_lowercase_def Let_def starts_with_def
      split: codec_format.splits)


lemma viewer_av1: "viewer ''av1'' [] =
    decoding_default\<lparr>ability_vp8 := 1, ability_vp9 := 1, ability_av1 := 1, ability_h264 := 1,
       i444_vp9 := True, i444_av1 := True, prefer_raw := 5, prefer_chroma := 1\<rparr>"
  by (simp add: viewer_eval)

lemma viewer_h264: "viewer ''h264'' [AV1] =
    decoding_default\<lparr>ability_vp8 := 1, ability_vp9 := 1, ability_h264 := 1,
       i444_vp9 := True, i444_av1 := True, prefer_raw := 2, prefer_chroma := 1\<rparr>"
  by (simp add: viewer_eval)

lemmas negotiation_eval = encoder_update_def update_decodings_def Let_def usable_for_def all_peers_def
  hardware_encoding_def enable_vram_option_def enable_hwcodec_option_def hw_try_get_def disable_av1_def plain_env_def
  decoding_default_def preferences_def most_frequent_def enum_value_or_auto_def auto_codec_def option2bool_def
  update_codec_on_login_def viewer_av1 viewer_h264 tables_default_def starts_with_def

lemma two_viewers_codec: "encode_codec_format two_viewers = H264"
  by (simp add: two_viewers_def negotiation_eval)

lemma one_viewer_codec:
  "encode_codec_format (update_codec_on_login plain_env 1 (Some (viewer ''av1'' [])) tables_default) = AV1"
  by (simp add: negotiation_eval)


lemma two_viewers_shared: "shared_codec two_viewers (encode_codec_format two_viewers)"
  using update_shared by (simp add: two_viewers_def update_codec_on_login_def)

theorem majority_preference_wins_witness:
  "\<exists>p. usable_preference (usable_for plain_env tables_default [(1, viewer ''av1'' [])]) p \<and>
     encode_codec_format (encoder_update plain_env (Update 1 (viewer ''av1'' [])) tables_default) = format_of p"
proof -
  let ?u = "Update 1 (viewer ''av1'' [])"
  have ds: "peer_decodings (encoder_update plain_env ?u tables_default) = [(1, viewer ''av1'' [])]"
    by (simp add: update_decodings_def tables_default_def)
  have "usable_preference (usable_for plain_env tables_default [(1, viewer ''av1'' [])]) PreferAV1"
    "votes [(1, viewer ''av1'' [])] PreferAV1 > 0"
    by (simp_all add: usable_preference_def votes_def negotiation_eval)
  then show ?thesis using majority_preference_wins [of plain_env tables_default ?u PreferAV1] unfolding ds by blast
qed

definition a_capture :: capture where
  "a_capture = \<lparr>cap_width = 1920, cap_height = 1080, cap_luid = 0, cap_gdi = False, cap_camera = False, cap_portable = False\<rparr>"

lemma two_viewers_setup:
  "setup_encoder plain_env (\<lambda>_ _. True) a_capture ''video'' 1 False False two_viewers =
     (Some (HWRAM \<lparr>ec_width = 1920, ec_height = 1080, ec_quality = 1, ec_keyframe = None\<rparr> ''h264_nvenc'', H264, False), two_viewers)"
  by (simp add: setup_encoder_def get_encoder_config_def Let_def two_viewers_codec a_capture_def hw_try_get_def plain_env_def
      set_fallback_def cfg_format_def ascii_lowercase_def starts_with_def use_i444_def encoder_new_def)

theorem encoder_matches_negotiation_witness:
  "shared_codec two_viewers (encode_codec_format two_viewers) \<and> encode_codec_format two_viewers = H264"
  using encoder_matches_negotiation [OF plain_names two_viewers_shared two_viewers_setup] by auto

theorem marked_codec_never_negotiated_witness:
  "encode_codec_format (negotiate [(plain_env, Update 1 (viewer ''av1'' []))]
     (update_codec_on_login plain_env 2 (Some (viewer ''h264'' [AV1])) tables_default)) \<noteq> AV1"
  unfolding viewer_def
  by (rule marked_codec_never_negotiated) (simp_all add: concerns_def)

text \<open>
  A video service reads the negotiated codec, and sets the fallback later, each under its own
  lock. When a peer logs in between the two, the stale configuration replaces the codec that was
  negotiated with the new peer: here a peer that decodes only VP9 is left with AV1, and as the
  service compares its format with the negotiated one, it does not notice.
\<close>

theorem stale_fallback_overrides_negotiation:
  "let t1 = update_codec_on_login plain_env 1 (Some (viewer ''av1'' [])) tables_default;
       (cfg, t2) = get_encoder_config plain_env a_capture ''video'' quality False t1;
       t3 = update_codec_on_login plain_env 2 None t2;
       t4 = set_fallback cfg t3
   in encode_codec_format t3 = VP9 \<and> encode_codec_format t4 = AV1
      \<and> (\<exists>s. (2, s) \<in> set (peer_decodings t4) \<and> \<not> decodes s AV1)"
proof -
  define t1 where "t1 = update_codec_on_login plain_env 1 (Some (viewer ''av1'' [])) tables_default"
  obtain ps where cfg: "get_encoder_config plain_env a_capture ''video'' quality False t1 = (AOM ps, t1)"
    using one_viewer_codec [folded t1_def] by (simp add: get_encoder_config_def Let_def plain_env_def)
  have "encode_codec_format (update_codec_on_login plain_env 2 None t1) = VP9"
    "\<exists>s. (2, s) \<in> set (peer_decodings (update_codec_on_login plain_env 2 None t1)) \<and> \<not> decodes s AV1"
    by (simp_all add: t1_def negotiation_eval decodes_def)
  then show ?thesis
    by (simp add: t1_def [symmetric] cfg Let_def set_fallback_def cfg_format_def)
qed

end
