(* ===== verification/Terminal_Buffer.thy ===== *)
theory Terminal_Buffer
  imports Hbb_Prelude "HOL-Library.Sublist"
begin

text \<open>
  The output buffer of a terminal session (\<open>OutputBuffer\<close> in \<open>src/server/terminal_service.rs\<close>): the
  recent output as lines, with a count of their bytes that limits the buffer. The count is a
  \<open>usize\<close>; a build with overflow checks panics when the subtraction in the trimming loop
  underflows, a release build wraps. The loop may run forever, so it is a partial function: the
  result \<open>None\<close> is a loop that does not end, \<open>Some (Inl Overflow)\<close> a panic. Additions do not overflow:
  the lengths of all slices in memory add up to less than the address space.
\<close>

section \<open>The buffer\<close>

definition MAX_OUTPUT_BUFFER_SIZE :: nat where
  "MAX_OUTPUT_BUFFER_SIZE = 1024 * 1024"

definition MAX_BUFFER_LINES :: nat where
  "MAX_BUFFER_LINES = 10000"

record output_buffer =
  ob_lines :: "bytes list"
  total_size :: usize
  last_line_incomplete :: bool

definition buffer_new :: output_buffer where
  "buffer_new = \<lparr>ob_lines = [], total_size = 0, last_line_incomplete = False\<rparr>"

abbreviation newline :: u8 where
  "newline \<equiv> 10"

text \<open>\<open>split(|&b| b == b'\n')\<close>: a slice without newline is one piece.\<close>

fun split_nl :: "bytes \<Rightarrow> bytes list" where
  "split_nl [] = [[]]"
| "split_nl (b # bs) =
     (if b = newline then [] # split_nl bs
      else (case split_nl bs of l # ls \<Rightarrow> (b # l) # ls | [] \<Rightarrow> [[b]]))"

definition push_line :: "bytes \<Rightarrow> output_buffer \<Rightarrow> output_buffer" where
  "push_line l b = b\<lparr>total_size := total_size b + of_nat (length l), ob_lines := ob_lines b @ [l]\<rparr>"

text \<open>The loop over the pieces: \<open>e\<close> tells whether the data ends with a newline.\<close>

fun push_pieces :: "bool \<Rightarrow> bytes list \<Rightarrow> output_buffer \<Rightarrow> output_buffer" where
  "push_pieces e [] b = b"
| "push_pieces e [l] b =
     (let b = (if \<not> e \<and> l \<noteq> [] then b\<lparr>last_line_incomplete := True\<rparr> else b)
      in if l \<noteq> [] then push_line (if e then l @ [newline] else l) b else b)"
| "push_pieces e (l # ls) b = push_pieces e ls (push_line (l @ [newline]) b)"

datatype arith_panic = Overflow

partial_function (option) trim_lines :: "bool \<Rightarrow> output_buffer \<Rightarrow> (arith_panic + output_buffer) option" where
  "trim_lines checks b =
     (if unat (total_size b) > MAX_OUTPUT_BUFFER_SIZE \<or> length (ob_lines b) > MAX_BUFFER_LINES then
        (case ob_lines b of
           [] \<Rightarrow> trim_lines checks b
         | l # ls \<Rightarrow>
             if checks \<and> total_size b < of_nat (length l) then Some (Inl Overflow)
             else trim_lines checks (b\<lparr>ob_lines := ls, total_size := total_size b - of_nat (length l)\<rparr>))
      else Some (Inr b))"

definition append_rest :: "bytes \<Rightarrow> output_buffer \<Rightarrow> output_buffer" where
  "append_rest rest b = push_pieces (rest \<noteq> [] \<and> last rest = newline) (split_nl rest) b"

definition buffer_append :: "bool \<Rightarrow> bytes \<Rightarrow> output_buffer \<Rightarrow> (arith_panic + output_buffer) option" where
  "buffer_append checks data b =
     (if data = [] then Some (Inr b)
      else if last_line_incomplete b \<and> ob_lines b \<noteq> [] then
        (if newline \<in> set data then
           let first = takeWhile (\<lambda>x. x \<noteq> newline) data @ [newline];
               b = b\<lparr>ob_lines := butlast (ob_lines b) @ [last (ob_lines b) @ first], last_line_incomplete := False\<rparr>
           in trim_lines checks (append_rest (drop (length first) data) b)
         else
           Some (Inr (b\<lparr>ob_lines := butlast (ob_lines b) @ [last (ob_lines b) @ data],
                        total_size := total_size b + of_nat (length data)\<rparr>)))
      else trim_lines checks (append_rest data b))"

fun recent_lines :: "nat \<Rightarrow> nat \<Rightarrow> bytes list \<Rightarrow> bytes \<Rightarrow> bytes" where
  "recent_lines max_bytes sz [] result = result"
| "recent_lines max_bytes sz (l # ls) result =
     (if sz + length l > max_bytes then result
      else recent_lines max_bytes (sz + length l) ls (l @ result))"

definition get_recent :: "nat \<Rightarrow> output_buffer \<Rightarrow> bytes" where
  "get_recent max_bytes b = recent_lines max_bytes 0 (rev (ob_lines b)) []"

text \<open>A sequence of chunks, as the reader thread delivers them.\<close>

fun buffer_run :: "bool \<Rightarrow> bytes list \<Rightarrow> output_buffer \<Rightarrow> (arith_panic + output_buffer) option" where
  "buffer_run checks [] b = Some (Inr b)"
| "buffer_run checks (d # ds) b =
     (case buffer_append checks d b of
        Some (Inr b) \<Rightarrow> buffer_run checks ds b
      | r \<Rightarrow> r)"

section \<open>Content\<close>

abbreviation content :: "output_buffer \<Rightarrow> bytes" where
  "content b \<equiv> concat (ob_lines b)"

lemma split_nl_join: "concat (map (\<lambda>l. l @ [newline]) (butlast (split_nl d))) @ last (split_nl d) = d \<and> split_nl d \<noteq> []"
proof (induction d)
  case (Cons x d)
  then show ?case by (cases "split_nl d") auto
qed simp

lemma split_nl_last: "d \<noteq> [] \<Longrightarrow> (last (split_nl d) = []) = (last d = newline)"
proof (induction d)
  case (Cons x d)
  then show ?case using split_nl_join [of d] by (cases "split_nl d"; cases d) auto
qed simp

lemma push_pieces_lines:
  "ls \<noteq> [] \<Longrightarrow> (e \<Longrightarrow> last ls = []) \<Longrightarrow>
   ob_lines (push_pieces e ls b) = ob_lines b @ map (\<lambda>l. l @ [newline]) (butlast ls) @ (if last ls = [] then [] else [last ls])"
  by (induction e ls b rule: push_pieces.induct) (auto simp: push_line_def Let_def)

lemma push_pieces_size:
  "ls \<noteq> [] \<Longrightarrow> (e \<Longrightarrow> last ls = []) \<Longrightarrow>
   total_size (push_pieces e ls b) =
     total_size b + of_nat (length (concat (map (\<lambda>l. l @ [newline]) (butlast ls)) @ last ls))"
  by (induction e ls b rule: push_pieces.induct) (auto simp: push_line_def Let_def)

lemma push_pieces_incomplete:
  "ls \<noteq> [] \<Longrightarrow> last_line_incomplete (push_pieces e ls b) = (last_line_incomplete b \<or> \<not> e \<and> last ls \<noteq> [])"
  by (induction e ls b rule: push_pieces.induct) (auto simp: push_line_def Let_def)

lemma append_rest_content:
  "content (append_rest d b) = content b @ d"
  "total_size (append_rest d b) = total_size b + of_nat (length d)"
  "last_line_incomplete (append_rest d b) = (last_line_incomplete b \<or> d \<noteq> [] \<and> last d \<noteq> newline)"
proof -
  let ?e = "d \<noteq> [] \<and> last d = newline"
  have e: "?e \<Longrightarrow> last (split_nl d) = []" using split_nl_last by blast
  note j = split_nl_join [of d]
  show "content (append_rest d b) = content b @ d"
    unfolding append_rest_def using push_pieces_lines [where ls = "split_nl d" and e = ?e and b = b] e j by (auto split: if_splits)
  show "total_size (append_rest d b) = total_size b + of_nat (length d)"
    unfolding append_rest_def using push_pieces_size [where ls = "split_nl d" and e = ?e and b = b] e j by simp
  show "last_line_incomplete (append_rest d b) = (last_line_incomplete b \<or> d \<noteq> [] \<and> last d \<noteq> newline)"
    unfolding append_rest_def using push_pieces_incomplete [where ls = "split_nl d"] split_nl_last [of d] j by (cases d) auto
qed

lemma trim_suffix_result:
  assumes t: "trim_lines checks b = Some r"
  shows "\<forall>b'. r = Inr b' \<longrightarrow> suffix (ob_lines b') (ob_lines b)"
proof (rule trim_lines.raw_induct [OF _ t, where P = "\<lambda>_ b r. \<forall>b'. r = Inr b' \<longrightarrow> suffix (ob_lines b') (ob_lines b)"], goal_cases)
  case (1 trim_lines checks b r)
  then show ?case by (fastforce split: if_splits list.splits intro: suffix_ConsI)
qed

lemma trim_suffix: "trim_lines checks b = Some (Inr b') \<Longrightarrow> suffix (ob_lines b') (ob_lines b)"
  using trim_suffix_result by blast

lemma unat_usize_less: "unat (w :: usize) < 2 ^ 64"
proof -
  have "unat w < 2 ^ LENGTH(64)" by (rule unsigned_less)
  then show ?thesis by simp
qed

lemma unat_length: "n < 2 ^ 64 \<Longrightarrow> unat (of_nat n :: usize) = n"
  by (simp add: unsigned_of_nat take_bit_nat_eq_self)

lemma suffix_concat: "suffix xs ys \<Longrightarrow> suffix (concat xs) (concat ys)"
  by (auto simp: suffix_def)


lemma complete_line: "newline \<in> set d \<Longrightarrow>
    (takeWhile (\<lambda>x. x \<noteq> newline) d @ [newline]) @ drop (length (takeWhile (\<lambda>x. x \<noteq> newline) d @ [newline])) d = d"
proof (induction d)
  case (Cons x d)
  then show ?case by (cases "x = newline") auto
qed simp

lemma content_extend: "ls \<noteq> [] \<Longrightarrow> concat (butlast ls @ [last ls @ d]) = concat ls @ d"
  by (metis append_butlast_last_id append_assoc concat.simps concat_append append_Nil2)

lemma buffer_append_suffix:
  assumes "buffer_append checks d b = Some (Inr b')"
  shows "suffix (content b') (content b @ d)"
proof -
  consider (empty) "d = []" | (plain) "\<not> (last_line_incomplete b \<and> ob_lines b \<noteq> [])" "d \<noteq> []"
    | (join) "last_line_incomplete b" "ob_lines b \<noteq> []" "newline \<notin> set d" "d \<noteq> []"
    | (complete) "last_line_incomplete b" "ob_lines b \<noteq> []" "newline \<in> set d" by auto
  then show ?thesis
  proof cases
    case plain
    then have "trim_lines checks (append_rest d b) = Some (Inr b')" using assms by (auto simp: buffer_append_def)
    from suffix_concat [OF trim_suffix [OF this]] show ?thesis by (simp add: append_rest_content)
  next
    case complete
    define first where "first = takeWhile (\<lambda>x. x \<noteq> newline) d @ [newline]"
    define b1 where "b1 = b\<lparr>ob_lines := butlast (ob_lines b) @ [last (ob_lines b) @ first], last_line_incomplete := False\<rparr>"
    have "d \<noteq> []" using complete(3) by auto
    then have "trim_lines checks (append_rest (drop (length first) d) b1) = Some (Inr b')"
      using assms complete by (simp add: buffer_append_def Let_def first_def b1_def)
    from suffix_concat [OF trim_suffix [OF this]]
    have "suffix (content b') ((content b @ first) @ drop (length first) d)"
      using content_extend [OF complete(2), of first] by (simp add: append_rest_content b1_def del: concat_append)
    then show ?thesis using complete_line [OF complete(3)] by (simp add: first_def)
  next
    case join
    then have "content b' = content b @ d"
      using assms content_extend [OF join(2), of d] by (auto simp: buffer_append_def simp del: concat_append)
    then show ?thesis by simp
  qed (use assms in \<open>simp add: buffer_append_def\<close>)
qed

lemma suffix_same_end: "suffix xs ys \<Longrightarrow> suffix (xs @ zs) (ys @ zs)"
  by (auto simp: suffix_def)

lemma buffer_run_suffix:
  "buffer_run checks ds b = Some (Inr b') \<Longrightarrow> suffix (content b') (content b @ concat ds)"
proof (induction ds arbitrary: b)
  case (Cons d ds)
  then obtain b1 where b1: "buffer_append checks d b = Some (Inr b1)" "buffer_run checks ds b1 = Some (Inr b')"
    by (auto split: option.splits sum.splits)
  from suffix_same_end [OF buffer_append_suffix [OF b1(1)], of "concat ds"] Cons.IH [OF b1(2)]
  show ?case by (auto intro: suffix_order.trans)
qed simp

section \<open>The most recent lines\<close>

lemma recent_lines_eq:
  "sz \<le> n \<Longrightarrow> \<exists>k. recent_lines n sz ls r = concat (rev (take k ls)) @ r
     \<and> sz + length (concat (take k ls)) \<le> n
     \<and> (k < length ls \<longrightarrow> n < sz + length (concat (take (Suc k) ls)))"
proof (induction n sz ls r rule: recent_lines.induct)
  case (2 n sz l ls r)
  show ?case
  proof (cases "sz + length l > n")
    case True
    then show ?thesis using 2(2) by (intro exI [of _ 0]) simp
  next
    case False
    with 2 obtain k where "recent_lines n (sz + length l) ls (l @ r) = concat (rev (take k ls)) @ l @ r"
      "sz + length l + length (concat (take k ls)) \<le> n"
      "k < length ls \<longrightarrow> n < sz + length l + length (concat (take (Suc k) ls))" by auto
    then show ?thesis using False by (intro exI [of _ "Suc k"]) (simp add: add.assoc)
  qed
qed (intro exI [of _ 0], simp)

lemma get_recent_eq:
  "\<exists>k. get_recent n b = concat (drop k (ob_lines b)) \<and> length (get_recent n b) \<le> n
     \<and> (k > 0 \<longrightarrow> k \<le> length (ob_lines b) \<and> n < length (concat (drop (k - 1) (ob_lines b))))"
proof -
  let ?ls = "ob_lines b"
  have t: "take i (rev ?ls) = rev (drop (length ?ls - i) ?ls)" for i by (simp add: take_rev)
  have l: "length (concat (rev xs)) = length (concat xs)" for xs :: "bytes list"
    by (simp add: length_concat rev_map [symmetric] sum_list_rev)
  obtain j where j: "get_recent n b = concat (drop (length ?ls - j) ?ls)" "length (concat (drop (length ?ls - j) ?ls)) \<le> n"
      "j < length ?ls \<longrightarrow> n < length (concat (drop (length ?ls - Suc j) ?ls))"
    using recent_lines_eq [of 0 n "rev ?ls" "[]"] by (auto simp: get_recent_def t l)
  define k where "k = length ?ls - j"
  have "k > 0 \<longrightarrow> k \<le> length ?ls \<and> n < length (concat (drop (k - 1) ?ls))" using j(3) by (simp add: k_def)
  then show ?thesis using j(1,2) unfolding k_def [symmetric] by metis
qed

section \<open>The limits\<close>

definition exact :: "output_buffer \<Rightarrow> bool" where
  "exact b \<longleftrightarrow> unat (total_size b) = length (content b)"

definition within_limits :: "output_buffer \<Rightarrow> bool" where
  "within_limits b \<longleftrightarrow> exact b \<and> length (content b) \<le> MAX_OUTPUT_BUFFER_SIZE \<and> length (ob_lines b) \<le> MAX_BUFFER_LINES"

lemma trim_exact:
  "exact b \<Longrightarrow> \<exists>b'. trim_lines checks b = Some (Inr b') \<and> within_limits b' \<and> last_line_incomplete b' = last_line_incomplete b"
proof (induction "length (ob_lines b)" arbitrary: b)
  case 0
  then have "unat (total_size b) = 0" by (simp add: exact_def)
  then show ?case using 0 by (subst trim_lines.simps) (simp add: within_limits_def exact_def)
next
  case (Suc n)
  then obtain l ls where ls: "ob_lines b = l # ls" by (cases "ob_lines b") auto
  let ?b = "b\<lparr>ob_lines := ls, total_size := total_size b - of_nat (length l)\<rparr>"
  have len: "length l \<le> unat (total_size b)" using Suc(3) ls by (simp add: exact_def)
  then have w: "unat (of_nat (length l) :: usize) = length l"
    using unat_usize_less [of "total_size b"] by (intro unat_length) simp
  have "unat (total_size ?b) = unat (total_size b) - length l"
    using len w by (simp add: unat_sub word_le_nat_alt)
  then have ex: "exact ?b" using Suc(3) ls by (simp add: exact_def)
  have nov: "\<not> total_size b < of_nat (length l)" using len w by (simp add: word_less_nat_alt)
  show ?case
  proof (cases "unat (total_size b) > MAX_OUTPUT_BUFFER_SIZE \<or> length (ob_lines b) > MAX_BUFFER_LINES")
    case True
    have "\<exists>b'. trim_lines checks ?b = Some (Inr b') \<and> within_limits b' \<and> last_line_incomplete b' = last_line_incomplete ?b"
      by (rule Suc(1)) (use Suc(2) ls ex in simp_all)
    then show ?thesis using True ls nov by (subst trim_lines.simps) simp
  next
    case False
    then show ?thesis using Suc(3) by (subst trim_lines.simps) (auto simp: within_limits_def exact_def)
  qed
qed

lemma append_exact:
  assumes "within_limits b" "\<not> last_line_incomplete b" "length d \<le> 4096"
  shows "\<exists>b'. buffer_append checks d b = Some (Inr b') \<and> within_limits b'
     \<and> last_line_incomplete b' = (d \<noteq> [] \<and> last d \<noteq> newline)"
proof (cases "d = []")
  case False
  have "unat (total_size b + of_nat (length d)) = unat (total_size b) + length d"
  proof -
    have "unat (of_nat (length d) :: usize) = length d"
      using assms(3) by (intro unat_length) simp
    moreover have "unat (total_size b) \<le> 1048576"
      using assms(1) by (simp add: within_limits_def exact_def MAX_OUTPUT_BUFFER_SIZE_def)
    ultimately show ?thesis using assms(3) by (subst unat_add_lem [THEN iffD1]) simp_all
  qed
  then have "exact (append_rest d b)"
    using assms(1) by (simp add: exact_def within_limits_def append_rest_content)
  from trim_exact [OF this, of checks] show ?thesis
    using False assms(2) by (auto simp: buffer_append_def append_rest_content)
qed (use assms in \<open>simp add: buffer_append_def\<close>)


section \<open>Loops that do not end\<close>

text \<open>A count that has wrapped stays above the limit when all lines are gone.\<close>

definition wrapped :: "output_buffer \<Rightarrow> bool" where
  "wrapped b \<longleftrightarrow> unat (total_size b) \<ge> 2 ^ 63 + length (content b)"

lemma wrapped_step:
  assumes "wrapped b" "ob_lines b = l # ls"
  shows "wrapped (b\<lparr>ob_lines := ls, total_size := total_size b - of_nat (length l)\<rparr>)"
proof -
  have len: "length l \<le> unat (total_size b)" using assms by (simp add: wrapped_def)
  then have w: "unat (of_nat (length l) :: usize) = length l"
    using unat_usize_less [of "total_size b"] by (intro unat_length) simp
  have "unat (total_size b - of_nat (length l)) = unat (total_size b) - length l"
    using len w by (simp add: unat_sub word_le_nat_alt)
  then show ?thesis using assms by (simp add: wrapped_def)
qed

lemma wrapped_diverges: "wrapped b \<Longrightarrow> trim_lines False b = None"
proof (rule ccontr)
  assume "wrapped b" "trim_lines False b \<noteq> None"
  then obtain r where t: "trim_lines False b = Some r" by auto
  have "\<not> False \<longrightarrow> \<not> wrapped b"
  proof (rule trim_lines.raw_induct [OF _ t, where P = "\<lambda>c b r. \<not> c \<longrightarrow> \<not> wrapped b"], goal_cases)
    case (1 trim_lines checks b y)
    show ?case
    proof (intro impI notI)
      assume c: "\<not> checks" and w: "wrapped b"
      then have "unat (total_size b) > MAX_OUTPUT_BUFFER_SIZE" by (simp add: wrapped_def MAX_OUTPUT_BUFFER_SIZE_def)
      then show False
        using 1 c w wrapped_step [OF w] by (cases "ob_lines b") auto
    qed
  qed
  then show False using \<open>wrapped b\<close> by simp
qed

lemma trim_underflow:
  assumes "ob_lines b = l # ls" and "length (ob_lines b) > MAX_BUFFER_LINES \<or> unat (total_size b) > MAX_OUTPUT_BUFFER_SIZE"
    and "unat (total_size b) < length l" and "length (content b) < 2 ^ 62"
  shows "trim_lines True b = Some (Inl Overflow)" and "trim_lines False b = None"
proof -
  have len: "length l \<le> length (content b)" using assms(1) by simp
  then have w: "unat (of_nat (length l) :: usize) = length l"
    using assms(4) by (intro unat_length) simp
  have less: "total_size b < of_nat (length l)" using w assms(3) by (simp add: word_less_nat_alt)
  then show "trim_lines True b = Some (Inl Overflow)" using assms(1,2) by (subst trim_lines.simps) auto
  let ?b = "b\<lparr>ob_lines := ls, total_size := total_size b - of_nat (length l)\<rparr>"
  have "unat (total_size b - of_nat (length l)) = 2 ^ 64 + unat (total_size b) - length l"
    using w less assms(3,4) len by (simp add: unat_sub_if_size word_size word_le_nat_alt)
  then have "wrapped ?b" using assms(1,3,4) by (simp add: wrapped_def)
  from wrapped_diverges [OF this] show "trim_lines False b = None" using assms(1,2) by (subst trim_lines.simps) auto
qed

text \<open>Lines delivered in two chunks, of which the second is not counted; then empty lines.\<close>

definition long_line :: bytes where
  "long_line = 97 # replicate 4095 98 @ [newline]"

lemma split_nl_newlines: "split_nl (replicate n newline) = replicate n [] @ [[]]"
  by (induction n) simp_all

lemma append_newlines:
  assumes "\<not> last_line_incomplete b" "n > 0"
  shows "append_rest (replicate n newline) b =
     b\<lparr>ob_lines := ob_lines b @ replicate n [newline], total_size := total_size b + of_nat n\<rparr>"
proof -
  let ?d = "replicate n newline"
  have e: "?d \<noteq> [] \<and> last ?d = newline" using assms(2) by simp
  have "ob_lines (append_rest ?d b) = ob_lines b @ replicate n [newline]"
    unfolding append_rest_def
    using push_pieces_lines [where ls = "split_nl ?d" and b = b and e = True] e
    by (simp add: split_nl_newlines butlast_append map_replicate_const)
  then show ?thesis using append_rest_content(2,3) [of ?d b] e assms(1) by simp
qed

lemma buffer_newlines:
  assumes "\<not> last_line_incomplete b" "n > 0"
  shows "buffer_append c (replicate n newline) b =
     trim_lines c (b\<lparr>ob_lines := ob_lines b @ replicate n [newline], total_size := total_size b + of_nat n\<rparr>)"
  using append_newlines [OF assms] assms by (simp add: buffer_append_def)

lemma trim_ok:
  "unat (total_size b) \<le> MAX_OUTPUT_BUFFER_SIZE \<Longrightarrow> length (ob_lines b) \<le> MAX_BUFFER_LINES \<Longrightarrow> trim_lines c b = Some (Inr b)"
  by (subst trim_lines.simps) simp

lemma split_nl_single: "newline \<notin> set d \<Longrightarrow> split_nl d = [d]"
  by (induction d) auto

lemma long_line_in_parts:
  assumes "\<not> last_line_incomplete b" "unat (total_size b) < 1000" "length (ob_lines b) < 1000"
  shows "buffer_run c [[97], replicate 4095 98 @ [newline]] b =
     Some (Inr (b\<lparr>ob_lines := ob_lines b @ [long_line], total_size := total_size b + 1\<rparr>))"
proof -
  let ?b = "b\<lparr>ob_lines := ob_lines b @ [[97]], total_size := total_size b + 1, last_line_incomplete := True\<rparr>"
  have u: "unat (total_size b + 1) \<le> Suc (unat (total_size b))" by (simp add: unat_plus_if_size)
  have "append_rest [97] b = ?b" by (simp add: append_rest_def push_line_def Let_def)
  moreover have "trim_lines c ?b = Some (Inr ?b)"
    using assms(2,3) u by (intro trim_ok) (simp_all add: MAX_OUTPUT_BUFFER_SIZE_def MAX_BUFFER_LINES_def)
  ultimately have a: "buffer_append c [97] b = Some (Inr ?b)"
    using assms(1) by (simp add: buffer_append_def)
  let ?b2 = "b\<lparr>ob_lines := ob_lines b @ [long_line], total_size := total_size b + 1\<rparr>"
  have "buffer_append c (replicate 4095 98 @ [newline]) ?b = trim_lines c ?b2"
    using assms(1) by (cases b) (simp add: buffer_append_def takeWhile_append append_rest_def long_line_def Let_def)
  moreover have "trim_lines c ?b2 = Some (Inr ?b2)"
    using assms(2,3) u by (intro trim_ok) (simp_all add: MAX_OUTPUT_BUFFER_SIZE_def MAX_BUFFER_LINES_def)
  ultimately show ?thesis using a by simp
qed


definition drifted :: "nat \<Rightarrow> nat \<Rightarrow> nat \<Rightarrow> output_buffer" where
  "drifted k m t = \<lparr>ob_lines = replicate k long_line @ replicate m [newline], total_size = of_nat t, last_line_incomplete = False\<rparr>"

lemma length_long_line [simp]: "length long_line = 4097"
  by (simp add: long_line_def)

lemma drifted_parts:
  "k < 100 \<Longrightarrow> t < 100 \<Longrightarrow>
   buffer_run c [[97], replicate 4095 98 @ [newline]] (drifted k 0 t) = Some (Inr (drifted (Suc k) 0 (Suc t)))"
  by (subst long_line_in_parts) (simp_all add: drifted_def unat_length replicate_append_same add.commute)

lemma drifted_newlines:
  assumes "n > 0" "t + n \<le> 1000000" "k + m + n \<le> 10000"
  shows "buffer_append c (replicate n newline) (drifted k m t) = Some (Inr (drifted k (m + n) (t + n)))"
proof -
  have "buffer_append c (replicate n newline) (drifted k m t) = trim_lines c (drifted k (m + n) (t + n))"
    using assms(1) by (subst buffer_newlines) (simp_all add: drifted_def replicate_add)
  also have "\<dots> = Some (Inr (drifted k (m + n) (t + n)))"
    using assms by (intro trim_ok) (simp_all add: drifted_def unat_length MAX_OUTPUT_BUFFER_SIZE_def MAX_BUFFER_LINES_def del: of_nat_add)
  finally show ?thesis .
qed

lemma drifted_full:
  assumes "Suc k + m = 10000" "t \<le> 1000000"
  shows "buffer_append c [newline] (drifted (Suc k) m t) =
    (if 4097 \<le> Suc t then Some (Inr (drifted k (Suc m) (Suc t - 4097)))
     else if c then Some (Inl Overflow) else None)"
proof -
  let ?b = "drifted (Suc k) (Suc m) (Suc t)"
  have a: "buffer_append c [newline] (drifted (Suc k) m t) = trim_lines c ?b"
    using buffer_newlines [of "drifted (Suc k) m t" 1 c] by (simp add: drifted_def replicate_append_same add.commute)
  have ls: "ob_lines ?b = long_line # ob_lines (drifted k (Suc m) 0)" by (simp add: drifted_def)
  have big: "length (ob_lines ?b) > MAX_BUFFER_LINES" using assms(1) by (simp add: drifted_def MAX_BUFFER_LINES_def)
  have u: "unat (total_size ?b) = Suc t" using assms(2) by (simp add: drifted_def unat_length del: of_nat_Suc)
  show ?thesis
  proof (cases "4097 \<le> Suc t")
    case True
    have "(of_nat (Suc t) :: usize) - of_nat 4097 = of_nat (Suc t - 4097)" using True by (simp only: of_nat_diff)
    then have e: "?b\<lparr>ob_lines := ob_lines (drifted k (Suc m) 0), total_size := total_size ?b - of_nat (length long_line)\<rparr>
        = drifted k (Suc m) (Suc t - 4097)" by (simp add: drifted_def del: of_nat_Suc)
    have "\<not> total_size ?b < of_nat (length long_line)" using True u by (simp add: word_less_nat_alt)
    then have "trim_lines c ?b = trim_lines c (drifted k (Suc m) (Suc t - 4097))"
      using ls big e by (subst trim_lines.simps) simp
    also have "\<dots> = Some (Inr (drifted k (Suc m) (Suc t - 4097)))"
      using assms by (intro trim_ok) (simp_all add: drifted_def unat_length MAX_OUTPUT_BUFFER_SIZE_def MAX_BUFFER_LINES_def)
    finally show ?thesis using a True by simp
  next
    case False
    have "length (content ?b) = Suc k * 4097 + Suc m" by (simp add: drifted_def length_concat map_replicate_const sum_list_replicate)
    then have "length (content ?b) < 2 ^ 62" using assms(1) by simp
    with trim_underflow [OF ls _ _ this] big u False a show ?thesis by (cases c) auto
  qed
qed

text \<open>Twelve chunks of at most 4096 bytes, 22 KB in all.\<close>

definition hanging_output :: "bytes list" where
  "hanging_output = concat (replicate 3 [[97], replicate 4095 98 @ [newline]])
     @ [replicate 4096 newline, replicate 4096 newline, replicate 1805 newline] @ replicate 3 [newline]"

lemma buffer_run_append:
  "buffer_run c (xs @ ys) b = (case buffer_run c xs b of Some (Inr b) \<Rightarrow> buffer_run c ys b | r \<Rightarrow> r)"
  by (induction xs arbitrary: b) (auto split: option.splits sum.splits)

section \<open>Properties\<close>

text \<open>
  C22. Whenever the buffer has taken a sequence of chunks, its content is the tail of the output so
  far, and the recent output that a reconnecting viewer asks for is a tail of the output of at
  most the requested size, made of all the last whole lines that fit.
\<close>

theorem buffer_is_recent_output:
  assumes "buffer_run checks ds buffer_new = Some (Inr b)"
  shows "suffix (content b) (concat ds) \<and> suffix (get_recent n b) (concat ds) \<and> length (get_recent n b) \<le> n \<and>
    (\<exists>k. get_recent n b = concat (drop k (ob_lines b)) \<and> (k > 0 \<longrightarrow> n < length (concat (drop (k - 1) (ob_lines b)))))"
proof -
  have s: "suffix (content b) (concat ds)" using buffer_run_suffix [OF assms] by (simp add: buffer_new_def)
  obtain k where k: "get_recent n b = concat (drop k (ob_lines b))" "length (get_recent n b) \<le> n"
      "k > 0 \<longrightarrow> k \<le> length (ob_lines b) \<and> n < length (concat (drop (k - 1) (ob_lines b)))"
    using get_recent_eq [of n b] by blast
  have "suffix (get_recent n b) (content b)" using suffix_concat [OF suffix_drop] k(1) by metis
  with s k show ?thesis by (auto intro: suffix_order.trans)
qed

text \<open>
  C23. When all chunks end with a newline, every sequence of chunks the reader thread can deliver is
  taken without panic and without an endless loop, in both build modes; the count of bytes is
  exact and both limits of the buffer hold.
\<close>

theorem whole_lines_bounded:
  assumes "list_all (\<lambda>d. length d \<le> 4096 \<and> (d = [] \<or> last d = newline)) ds"
  shows "\<exists>b. buffer_run checks ds buffer_new = Some (Inr b) \<and> unat (total_size b) = length (content b)
    \<and> length (content b) \<le> MAX_OUTPUT_BUFFER_SIZE \<and> length (ob_lines b) \<le> MAX_BUFFER_LINES"
proof -
  have "\<exists>b'. buffer_run checks ds b = Some (Inr b') \<and> within_limits b'" if "within_limits b" "\<not> last_line_incomplete b" for b
    using assms that
  proof (induction ds arbitrary: b)
    case (Cons d ds)
    then obtain b' where "buffer_append checks d b = Some (Inr b')" "within_limits b'" "\<not> last_line_incomplete b'"
      using append_exact [of b d checks] by auto
    with Cons show ?case by simp
  qed simp
  from this [of buffer_new] show ?thesis
    by (auto simp: buffer_new_def within_limits_def exact_def)
qed

text \<open>
  C24. The bytes that complete a partial line are not counted, so the count falls behind the lines,
  and the trimming loop subtracts more than was added. For an output of 22 KB in twelve chunks the
  last call of \<open>append\<close> panics in a build with overflow checks, and never returns in a release
  build: the count has wrapped and stays above the limit when there are no more lines to remove.
\<close>

theorem split_lines_hang:
  "list_all (\<lambda>d. length d \<le> 4096) hanging_output \<and> buffer_run True hanging_output buffer_new = Some (Inl Overflow)
   \<and> buffer_run False hanging_output buffer_new = None"
proof -
  have start: "buffer_new = drifted 0 0 0" by (simp add: buffer_new_def drifted_def)
  have three: "buffer_run c (concat (replicate 3 [[97], replicate 4095 98 @ [newline]])) buffer_new = Some (Inr (drifted 3 0 3))" for c
    unfolding numeral_3_eq_3 replicate.simps concat.simps append_Nil2
    by (simp only: buffer_run_append start drifted_parts option.case sum.case)
  have lines: "buffer_run c [replicate 4096 newline, replicate 4096 newline, replicate 1805 newline] (drifted 3 0 3)
      = Some (Inr (drifted 3 9997 10000))" for c
    by (simp add: drifted_newlines)
  have last: "buffer_run c (replicate 3 [newline]) (drifted 3 9997 10000) = (if c then Some (Inl Overflow) else None)" for c
    using drifted_full [of 2 9997 10000 c] drifted_full [of 1 9998 5904 c] drifted_full [of 0 9999 1808 c]
    by (simp add: numeral_3_eq_3 numeral_2_eq_2)
  have "list_all (\<lambda>d. length d \<le> 4096) hanging_output"
    by (simp add: hanging_output_def numeral_3_eq_3)
  moreover have "buffer_run c hanging_output buffer_new = (if c then Some (Inl Overflow) else None)" for c
    unfolding hanging_output_def buffer_run_append three option.case sum.case lines last by simp
  ultimately show ?thesis by simp
qed

section \<open>Witnesses\<close>

theorem buffer_is_recent_output_witness:
  "suffix (get_recent 3 \<lparr>ob_lines = [[97, 10], [98, 10], [99]], total_size = 5, last_line_incomplete = True\<rparr>) [97, 10, 98, 10, 99 :: u8]"
proof -
  have "buffer_run False [[97, 10, 98], [10, 99]] buffer_new =
      Some (Inr \<lparr>ob_lines = [[97, 10], [98, 10], [99]], total_size = 4, last_line_incomplete = True\<rparr>)"
    by (simp add: buffer_append_def append_rest_def push_line_def buffer_new_def Let_def trim_lines.simps
        MAX_OUTPUT_BUFFER_SIZE_def MAX_BUFFER_LINES_def)
  from buffer_is_recent_output [OF this, of 3] show ?thesis by (simp add: get_recent_def)
qed

theorem whole_lines_bounded_witness:
  "\<exists>b. buffer_run True [[97, 10], [10]] buffer_new = Some (Inr b) \<and> unat (total_size b) = length (content b)
    \<and> length (content b) \<le> MAX_OUTPUT_BUFFER_SIZE \<and> length (ob_lines b) \<le> MAX_BUFFER_LINES"
  by (rule whole_lines_bounded) simp

end
