(* ===== verification/Terminal_Service.thy ===== *)
theory Terminal_Service
  imports Host_Version Terminal_Buffer "HOL-Library.Multiset"
begin

text \<open>
  Terminal services of a host (\<open>src/server/terminal_service.rs\<close>, builds other than Windows): the
  registry of persistent services, their sessions, the actions of a viewer, the pass that reads
  the output of the shells, and the clean-up thread.

  A child process is a number. What the operating system does (opening a pseudo terminal, spawning,
  killing, the state of a process) comes with the events; the channels between the threads of a
  session are lists. An \<open>Instant\<close> is a number of milliseconds. The list \<open>abandoned\<close> is not in the
  program: it records the children whose handle is dropped without being killed or waited for;
  \<open>reaped\<close> records those the reaper has removed.
\<close>

section \<open>State\<close>

definition MAX_SERVICES :: nat where "MAX_SERVICES = 100"
definition SERVICE_IDLE_TIMEOUT :: nat where "SERVICE_IDLE_TIMEOUT = 3600000"
definition CHANNEL_BUFFER_SIZE :: nat where "CHANNEL_BUFFER_SIZE = 100"
definition COMPRESS_THRESHOLD :: nat where "COMPRESS_THRESHOLD = 512"

record term_session =
  ts_created_at :: nat
  ts_last_activity :: nat
  ts_pty :: bool
  ts_child :: "nat option"
  ts_input_tx :: "bytes list option"
  ts_output_rx :: "bytes list option"
  ts_exiting :: bool
  ts_reader_finished :: "bool option"
  ts_writer :: bool
  ts_output_buffer :: output_buffer
  ts_title :: string
  ts_pid :: nat
  ts_rows :: u16
  ts_cols :: u16
  ts_closed_sent :: bool
  ts_is_opened :: bool

record pservice =
  ps_id :: string
  ps_sessions :: "(int \<times> term_session) list"
  ps_created_at :: nat
  ps_last_activity :: nat
  ps_persistent :: bool
  ps_needs_sync :: bool
  ps_specified_user :: bool

record terminals =
  tm_services :: "(string \<times> pservice) list"
  tm_cleanup :: bool
  tm_tasks :: "nat list"
  tm_reaped :: "nat list"
  tm_abandoned :: "nat list"

definition terminals_init :: terminals where
  "terminals_init = \<lparr>tm_services = [], tm_cleanup = False, tm_tasks = [], tm_reaped = [], tm_abandoned = []\<rparr>"

datatype response =
    TOpened int bool string nat string "int list"
  | TData int bytes bool
  | TClosed int int
  | TError string

section \<open>Sessions\<close>

definition session_new :: "int \<Rightarrow> u16 \<Rightarrow> u16 \<Rightarrow> nat \<Rightarrow> term_session" where
  "session_new i rows cols now = \<lparr>ts_created_at = now, ts_last_activity = now, ts_pty = False, ts_child = None,
     ts_input_tx = None, ts_output_rx = None, ts_exiting = False, ts_reader_finished = None, ts_writer = False,
     ts_output_buffer = buffer_new, ts_title = ''Terminal '' @ show_int i, ts_pid = 0, ts_rows = rows, ts_cols = cols,
     ts_closed_sent = False, ts_is_opened = False\<rparr>"

definition add_to_reaper :: "nat option \<Rightarrow> terminals \<Rightarrow> terminals" where
  "add_to_reaper c t = (case c of None \<Rightarrow> t | Some p \<Rightarrow> t\<lparr>tm_tasks := tm_tasks t @ [p]\<rparr>)"

text \<open>\<open>TerminalSession::stop\<close>: the child, if there still is one, is killed and given to the reaper.\<close>

definition session_stop :: "term_session \<Rightarrow> terminals \<Rightarrow> term_session \<times> terminals" where
  "session_stop s t =
     (s\<lparr>ts_is_opened := False, ts_exiting := True, ts_input_tx := None, ts_output_rx := None, ts_pty := False,
        ts_reader_finished := None, ts_writer := False, ts_child := None\<rparr>,
      add_to_reaper (ts_child s) t)"

section \<open>The registry\<close>

definition pservice_new :: "string \<Rightarrow> bool \<Rightarrow> bool \<Rightarrow> nat \<Rightarrow> pservice" where
  "pservice_new i persistent specified now = \<lparr>ps_id = i, ps_sessions = [], ps_created_at = now, ps_last_activity = now,
     ps_persistent = persistent, ps_needs_sync = False, ps_specified_user = specified\<rparr>"

definition reset_status :: "bool \<Rightarrow> pservice \<Rightarrow> pservice" where
  "reset_status persistent s = s\<lparr>ps_persistent := persistent, ps_needs_sync := True,
     ps_sessions := map (\<lambda>(i, x). (i, x\<lparr>ts_is_opened := False\<rparr>)) (ps_sessions s)\<rparr>"

abbreviation get_service :: "string \<Rightarrow> terminals \<Rightarrow> pservice option" where
  "get_service i t \<equiv> map_of (tm_services t) i"

definition set_service :: "string \<Rightarrow> pservice \<Rightarrow> terminals \<Rightarrow> terminals" where
  "set_service i s t = t\<lparr>tm_services := AList.update i s (tm_services t)\<rparr>"

definition get_or_create_service :: "string \<Rightarrow> bool \<Rightarrow> bool \<Rightarrow> nat \<Rightarrow> terminals \<Rightarrow> (string + unit) \<times> terminals" where
  "get_or_create_service i persistent specified now t =
     (if get_service i t = None \<and> length (tm_services t) \<ge> MAX_SERVICES
      then (Inl (''Maximum number of terminal services ('' @ show_nat MAX_SERVICES @ '') reached''), t)
      else
        let s = (case get_service i t of Some s \<Rightarrow> s | None \<Rightarrow> pservice_new i persistent specified now);
            t = t\<lparr>tm_cleanup := True\<rparr>
        in (Inr (), set_service i (reset_status persistent s) t))"

fun stop_all :: "term_session list \<Rightarrow> terminals \<Rightarrow> terminals" where
  "stop_all [] t = t"
| "stop_all (s # ss) t = stop_all ss (snd (session_stop s t))"

definition remove_service :: "string \<Rightarrow> terminals \<Rightarrow> terminals" where
  "remove_service i t =
     (case get_service i t of
        None \<Rightarrow> t
      | Some s \<Rightarrow> stop_all (map snd (ps_sessions s)) (t\<lparr>tm_services := AList.delete i (tm_services t)\<rparr>))"

definition list_services :: "terminals \<Rightarrow> (string \<times> nat \<times> nat \<times> bool) list" where
  "list_services t = map (\<lambda>(i, s). (i, ps_created_at s, length (ps_sessions s), ps_persistent s)) (tm_services t)"

definition is_service_specified_user :: "string \<Rightarrow> terminals \<Rightarrow> bool option" where
  "is_service_specified_user i t = map_option ps_specified_user (get_service i t)"

text \<open>\<open>duration_since\<close> is zero for an instant in the future.\<close>

definition is_idle :: "nat \<Rightarrow> pservice \<Rightarrow> bool" where
  "is_idle now s \<longleftrightarrow>
     \<not> ps_persistent s \<and> now - ps_last_activity s > SERVICE_IDLE_TIMEOUT
     \<or> ps_persistent s \<and> ps_sessions s = [] \<and> now - ps_last_activity s > SERVICE_IDLE_TIMEOUT * 2"

definition cleanup_inactive_services :: "nat \<Rightarrow> terminals \<Rightarrow> terminals" where
  "cleanup_inactive_services now t =
     fold remove_service (map fst (filter (\<lambda>(_, s). is_idle now s) (tm_services t))) t"

text \<open>\<open>check_zombie_terminals\<close>: \<open>running\<close> is \<open>try_wait\<close> returning \<open>Ok(None)\<close>.\<close>

function (sequential) reap_from :: "(nat \<Rightarrow> bool) \<Rightarrow> nat \<Rightarrow> nat list \<Rightarrow> nat list \<times> nat list" where
  "reap_from running i tasks =
     (if i < length tasks then
        if running (tasks ! i) then reap_from running (i + 1) tasks
        else (case reap_from running i (take i tasks @ drop (i + 1) tasks) of
                (rest, gone) \<Rightarrow> (rest, tasks ! i # gone))
      else (tasks, []))"
  by pat_completeness auto
termination by (relation "measure (\<lambda>(_, i, tasks). length tasks - i)") auto

declare reap_from.simps [simp del]

definition check_zombie_terminals :: "(nat \<Rightarrow> bool) \<Rightarrow> terminals \<Rightarrow> terminals" where
  "check_zombie_terminals running t =
     (case reap_from running 0 (tm_tasks t) of (rest, gone) \<Rightarrow> t\<lparr>tm_tasks := rest, tm_reaped := tm_reaped t @ gone\<rparr>)"

text \<open>One iteration of the clean-up thread: \<open>due\<close> tells that five minutes have passed.\<close>

definition cleanup_tick :: "(nat \<Rightarrow> bool) \<Rightarrow> bool \<Rightarrow> nat \<Rightarrow> terminals \<Rightarrow> terminals" where
  "cleanup_tick running due now t =
     (let t = check_zombie_terminals running t in if due then cleanup_inactive_services now t else t)"

definition get_terminal_session_count :: "bool \<Rightarrow> terminals \<Rightarrow> nat" where
  "get_terminal_session_count include_zombie_tasks t =
     length (tm_services t) + (if include_zombie_tasks then length (tm_tasks t) else 0)"

definition list_terminals :: "pservice \<Rightarrow> (int \<times> string \<times> nat \<times> nat) list" where
  "list_terminals s = map (\<lambda>(i, x). (i, ts_title x, ts_pid x, ts_created_at x)) (ps_sessions s)"

definition get_terminal_buffer :: "int \<Rightarrow> nat \<Rightarrow> pservice \<Rightarrow> bytes option" where
  "get_terminal_buffer i max_bytes s = map_option (\<lambda>x. get_recent max_bytes (ts_output_buffer x)) (map_of (ps_sessions s) i)"

definition get_terminal_info :: "int \<Rightarrow> pservice \<Rightarrow> (u16 \<times> u16 \<times> bytes) option" where
  "get_terminal_info i s =
     map_option (\<lambda>x. (ts_rows x, ts_cols x, get_recent 4096 (ts_output_buffer x))) (map_of (ps_sessions s) i)"

definition has_active_terminals :: "pservice \<Rightarrow> bool" where
  "has_active_terminals s \<longleftrightarrow> ps_sessions s \<noteq> []"

definition set_persistent :: "string \<Rightarrow> bool \<Rightarrow> terminals \<Rightarrow> (string + unit) \<times> terminals" where
  "set_persistent i persistent t =
     (case get_service i t of
        Some s \<Rightarrow> (Inr (), set_service i (s\<lparr>ps_persistent := persistent\<rparr>) t)
      | None \<Rightarrow> (Inl (''Service '' @ i @ '' not found''), t))"

section \<open>Actions of a viewer\<close>

record proxy =
  px_service_id :: string
  px_persistent :: bool

definition proxy_new :: "string \<Rightarrow> bool option \<Rightarrow> terminals \<Rightarrow> proxy" where
  "proxy_new i persistent t = \<lparr>px_service_id = i,
     px_persistent = (case persistent of Some p \<Rightarrow> p
                      | None \<Rightarrow> (case get_service i t of Some s \<Rightarrow> ps_persistent s | None \<Rightarrow> False))\<rparr>"

text \<open>What the operating system answers when a terminal is opened.\<close>

datatype os_open = PtyFailed | SpawnFailed | WriterFailed nat | ReaderFailed nat | Spawned nat "nat option"

datatype action =
    Open int u32 u32 os_open
  | Resize int u32 u32 bool
  | Input int bytes
  | Close int bool
  | NoAction

text \<open>The list of other terminals is sent once after a reconnection.\<close>

definition synced :: "int list \<Rightarrow> pservice \<Rightarrow> int list \<times> pservice" where
  "synced others s = (if ps_needs_sync s then (others, s\<lparr>ps_needs_sync := False\<rparr>) else ([], s))"

definition set_session :: "int \<Rightarrow> term_session \<Rightarrow> pservice \<Rightarrow> pservice" where
  "set_session i x s = s\<lparr>ps_sessions := AList.update i x (ps_sessions s)\<rparr>"

text \<open>The third component are the children whose handle is lost on an error.\<close>

definition handle_open :: "proxy \<Rightarrow> int \<Rightarrow> u32 \<Rightarrow> u32 \<Rightarrow> os_open \<Rightarrow> nat \<Rightarrow> pservice \<Rightarrow> (string + response option) \<times> pservice \<times> nat list" where
  "handle_open px i rows cols os now s =
     (case map_of (ps_sessions s) i of
        Some x \<Rightarrow>
          let s = set_session i (x\<lparr>ts_is_opened := True\<rparr>) s in
          (case synced (if length (ps_sessions s) > 1 then filter (\<lambda>j. j \<noteq> i) (map fst (ps_sessions s)) else []) s of
             (others, s) \<Rightarrow>
               (Inr (Some (TOpened i True ''Reconnected to existing terminal'' (ts_pid x) (px_service_id px) others)), s, []))
      | None \<Rightarrow>
          (case os of
             PtyFailed \<Rightarrow> (Inl ''Failed to open PTY'', s, [])
           | SpawnFailed \<Rightarrow> (Inl ''Failed to spawn command'', s, [])
           | WriterFailed c \<Rightarrow> (Inl ''Failed to get writer'', s, [c])
           | ReaderFailed c \<Rightarrow> (Inl ''Failed to get reader'', s, [c])
           | Spawned c pid \<Rightarrow>
               let x = (session_new i (ucast rows) (ucast cols) now)
                         \<lparr>ts_pid := (case pid of Some p \<Rightarrow> p | None \<Rightarrow> 0), ts_pty := True, ts_child := Some c,
                          ts_input_tx := Some [], ts_output_rx := Some [], ts_reader_finished := Some False,
                          ts_writer := True, ts_is_opened := True\<rparr>
               in (case synced (map fst (ps_sessions s)) s of
                     (others, s) \<Rightarrow>
                       (Inr (Some (TOpened i True ''Terminal opened'' (ts_pid x) (ps_id s) others)), set_session i x s, []))))"

definition handle_resize :: "int \<Rightarrow> u32 \<Rightarrow> u32 \<Rightarrow> bool \<Rightarrow> nat \<Rightarrow> pservice \<Rightarrow> (string + response option) \<times> pservice" where
  "handle_resize i rows cols resize_ok now s =
     (case map_of (ps_sessions s) i of
        None \<Rightarrow> (Inr None, s)
      | Some x \<Rightarrow>
          let s = set_session i (x\<lparr>ts_last_activity := now, ts_rows := ucast rows, ts_cols := ucast cols\<rparr>) s in
          (if ts_pty x \<and> \<not> resize_ok then Inl ''resize failed'' else Inr None, s))"

definition handle_data :: "int \<Rightarrow> bytes \<Rightarrow> nat \<Rightarrow> pservice \<Rightarrow> (string + response option) \<times> pservice" where
  "handle_data i d now s =
     (case map_of (ps_sessions s) i of
        None \<Rightarrow> (Inr None, s)
      | Some x \<Rightarrow>
          (Inr None, set_session i (x\<lparr>ts_last_activity := now, ts_input_tx := map_option (\<lambda>q. q @ [d]) (ts_input_tx x)\<rparr>) s))"

text \<open>
  The session leaves the table first. A failing \<open>kill\<close> ends the function with the error, and the
  child that was taken out of the session is dropped. The session itself is stopped when dropped.
\<close>

definition handle_close :: "int \<Rightarrow> bool \<Rightarrow> pservice \<Rightarrow> (string + response option) \<times> pservice \<times> nat list \<times> nat list" where
  "handle_close i kill_ok s =
     (case map_of (ps_sessions s) i of
        None \<Rightarrow> (Inr None, s, [], [])
      | Some x \<Rightarrow>
          let s = s\<lparr>ps_sessions := AList.delete i (ps_sessions s)\<rparr> in
          (case ts_child x of
             Some c \<Rightarrow> if kill_ok then (Inr (Some (TClosed i (- 1))), s, [c], []) else (Inl ''kill failed'', s, [], [c])
           | None \<Rightarrow> (Inr (Some (TClosed i 0)), s, [], [])))"

definition handle_action :: "proxy \<Rightarrow> action \<Rightarrow> nat \<Rightarrow> terminals \<Rightarrow> (string + response option) \<times> terminals" where
  "handle_action px a now t =
     (case get_service (px_service_id px) t of
        None \<Rightarrow> (Inr (Some (TError (''Terminal service '' @ px_service_id px @ '' not found''))), t)
      | Some s \<Rightarrow>
          let s = s\<lparr>ps_last_activity := now\<rparr>; put = set_service (px_service_id px) in
          (case a of
             Open i rows cols os \<Rightarrow>
               (case handle_open px i rows cols os now s of (r, s, lost) \<Rightarrow>
                  (r, (put s t)\<lparr>tm_abandoned := tm_abandoned t @ lost\<rparr>))
           | Resize i rows cols resize_ok \<Rightarrow>
               (case handle_resize i rows cols resize_ok now s of (r, s) \<Rightarrow> (r, put s t))
           | Input i d \<Rightarrow> (case handle_data i d now s of (r, s) \<Rightarrow> (r, put s t))
           | Close i kill_ok \<Rightarrow>
               (case handle_close i kill_ok s of (r, s, killed, lost) \<Rightarrow>
                  (r, (put s t)\<lparr>tm_tasks := tm_tasks t @ killed, tm_abandoned := tm_abandoned t @ lost\<rparr>))
           | NoAction \<Rightarrow> (Inr None, put s t)))"

text \<open>\<open>handle_terminal_action\<close> of the connection: what is sent to the viewer.\<close>

definition handle_terminal_action :: "string \<Rightarrow> bool \<Rightarrow> action \<Rightarrow> nat \<Rightarrow> terminals \<Rightarrow> response list \<times> terminals" where
  "handle_terminal_action i persistent a now t =
     (case handle_action (proxy_new i (Some persistent) t) a now t of
        (Inr (Some r), t) \<Rightarrow> ([r], t)
      | (Inr None, t) \<Rightarrow> ([], t)
      | (Inl err, t) \<Rightarrow> ([TError (''Failed to handle action: '' @ err)], t))"

definition on_disconnect :: "proxy \<Rightarrow> terminals \<Rightarrow> terminals" where
  "on_disconnect px t = (if \<not> px_persistent px then remove_service (px_service_id px) t else t)"


section \<open>Reading the output\<close>

definition pack_data :: "(bytes \<Rightarrow> bytes) \<Rightarrow> int \<Rightarrow> bytes \<Rightarrow> response" where
  "pack_data compress i d =
     (if length d > COMPRESS_THRESHOLD then
        let c = compress d in if length c < length d then TData i c True else TData i d False
      else TData i d False)"

text \<open>One session of a pass: its new state, the data for the viewer, and whether its shell has ended.\<close>

definition read_session ::
    "bool \<Rightarrow> (bytes \<Rightarrow> bytes) \<Rightarrow> nat \<Rightarrow> int \<Rightarrow> term_session \<Rightarrow> (arith_panic + term_session \<times> response list \<times> bool) option" where
  "read_session checks compress now i x =
     (let ended = (\<not> ts_closed_sent x \<and> ts_reader_finished x = Some True);
          x = x\<lparr>ts_closed_sent := ts_closed_sent x \<or> ended\<rparr>
      in if \<not> ts_is_opened x then Some (Inr (x, [], ended))
         else
           let received = (case ts_output_rx x of Some q \<Rightarrow> q | None \<Rightarrow> []) in
           (case buffer_run checks received (ts_output_buffer x) of
              Some (Inr b) \<Rightarrow>
                Some (Inr (x\<lparr>ts_output_rx := map_option (\<lambda>_. []) (ts_output_rx x), ts_output_buffer := b,
                             ts_last_activity := (if received = [] then ts_last_activity x else now)\<rparr>,
                           map (pack_data compress i) received, ended))
            | Some (Inl e) \<Rightarrow> Some (Inl e)
            | None \<Rightarrow> None))"

text \<open>The loop over all sessions: a session whose lock is taken is skipped.\<close>

fun read_sessions ::
    "bool \<Rightarrow> (bytes \<Rightarrow> bytes) \<Rightarrow> nat \<Rightarrow> (int \<Rightarrow> bool) \<Rightarrow> (int \<times> term_session) list \<Rightarrow>
     (arith_panic + (int \<times> term_session) list \<times> response list \<times> int list) option" where
  "read_sessions checks compress now locked [] = Some (Inr ([], [], []))"
| "read_sessions checks compress now locked ((i, x) # xs) =
     (case (if locked i then Some (Inr (x, [], False)) else read_session checks compress now i x) of
        Some (Inr (x, rs, ended)) \<Rightarrow>
          (case read_sessions checks compress now locked xs of
             Some (Inr (xs, rs', closed)) \<Rightarrow> Some (Inr ((i, x) # xs, rs @ rs', if ended then i # closed else closed))
           | r \<Rightarrow> r)
      | Some (Inl e) \<Rightarrow> Some (Inl e)
      | None \<Rightarrow> None)"

text \<open>The ended terminals: \<open>exits\<close> is \<open>try_wait\<close>. The result has the children for the reaper.\<close>

fun close_ended :: "bool \<Rightarrow> (nat \<Rightarrow> int option) \<Rightarrow> int list \<Rightarrow> pservice \<Rightarrow> response list \<times> pservice \<times> nat list" where
  "close_ended persistent exits [] s = ([], s, [])"
| "close_ended persistent exits (i # is) s =
     (let child = (case map_of (ps_sessions s) i of Some x \<Rightarrow> ts_child x | None \<Rightarrow> None);
          exit_code = (case child of Some c \<Rightarrow> (case exits c of Some e \<Rightarrow> e | None \<Rightarrow> 0) | None \<Rightarrow> 0);
          s = (case map_of (ps_sessions s) i of
                 None \<Rightarrow> s
               | Some x \<Rightarrow>
                   if persistent then set_session i (x\<lparr>ts_child := None\<rparr>) s
                   else s\<lparr>ps_sessions := AList.delete i (ps_sessions s)\<rparr>)
      in case close_ended persistent exits is s of
           (rs, s, gone) \<Rightarrow> (TClosed i exit_code # rs, s, (case child of Some c \<Rightarrow> c # gone | None \<Rightarrow> gone)))"

definition read_outputs ::
    "proxy \<Rightarrow> bool \<Rightarrow> (bytes \<Rightarrow> bytes) \<Rightarrow> (int \<Rightarrow> bool) \<Rightarrow> (nat \<Rightarrow> int option) \<Rightarrow> nat \<Rightarrow> terminals \<Rightarrow>
     (arith_panic + response list \<times> terminals) option" where
  "read_outputs px checks compress locked exits now t =
     (case get_service (px_service_id px) t of
        None \<Rightarrow> Some (Inr ([], t))
      | Some s \<Rightarrow>
          (case read_sessions checks compress now locked (ps_sessions s) of
             Some (Inr (xs, rs, closed)) \<Rightarrow>
               (case close_ended (px_persistent px) exits closed (s\<lparr>ps_sessions := xs\<rparr>) of
                  (rs', s, gone) \<Rightarrow>
                    Some (Inr (rs @ rs', (set_service (px_service_id px) s t)\<lparr>tm_tasks := tm_tasks t @ gone\<rparr>)))
           | Some (Inl e) \<Rightarrow> Some (Inl e)
           | None \<Rightarrow> None))"

text \<open>\<open>run\<close>: an iteration of the service loop, and what happens when the loop exits.\<close>

definition run_pass ::
    "bool \<Rightarrow> (bytes \<Rightarrow> bytes) \<Rightarrow> string \<Rightarrow> (int \<Rightarrow> bool) \<Rightarrow> (nat \<Rightarrow> int option) \<Rightarrow> nat \<Rightarrow> terminals \<Rightarrow>
     (arith_panic + response list \<times> terminals) option" where
  "run_pass checks compress i locked exits now t = read_outputs (proxy_new i None t) checks compress locked exits now t"

definition run_end :: "string \<Rightarrow> terminals \<Rightarrow> terminals" where
  "run_end i t =
     (case get_service i t of
        Some s \<Rightarrow> if \<not> ps_persistent s then remove_service i t else t
      | None \<Rightarrow> t)"

text \<open>The reader thread of a session: a chunk that finds the channel full is dropped.\<close>

definition on_session :: "string \<Rightarrow> int \<Rightarrow> (term_session \<Rightarrow> term_session) \<Rightarrow> terminals \<Rightarrow> terminals" where
  "on_session i j f t =
     (case get_service i t of
        None \<Rightarrow> t
      | Some s \<Rightarrow> (case map_of (ps_sessions s) j of None \<Rightarrow> t | Some x \<Rightarrow> set_service i (set_session j (f x) s) t))"

definition channel_push :: "bytes \<Rightarrow> term_session \<Rightarrow> term_session" where
  "channel_push d x =
     (if ts_exiting x then x
      else x\<lparr>ts_output_rx := map_option (\<lambda>q. if length q < CHANNEL_BUFFER_SIZE then q @ [d] else q) (ts_output_rx x)\<rparr>)"

definition reader_exit :: "term_session \<Rightarrow> term_session" where
  "reader_exit x = x\<lparr>ts_reader_finished := map_option (\<lambda>_. True) (ts_reader_finished x)\<rparr>"

section \<open>Runs\<close>

datatype event =
    Connect string bool bool
  | Persist string bool
  | Act string bool action
  | Pass string "int \<Rightarrow> bool" "nat \<Rightarrow> int option"
  | Chunk string int bytes
  | ReaderEnd string int
  | Tick "nat \<Rightarrow> bool" bool
  | Disconnect string bool
  | RunEnd string

definition terminal_step ::
    "bool \<Rightarrow> (bytes \<Rightarrow> bytes) \<Rightarrow> event \<Rightarrow> nat \<Rightarrow> terminals \<Rightarrow> (arith_panic + response list \<times> terminals) option" where
  "terminal_step checks compress ev now t =
     (case ev of
        Connect i persistent specified \<Rightarrow> Some (Inr ([], snd (get_or_create_service i persistent specified now t)))
      | Persist i persistent \<Rightarrow> Some (Inr ([], snd (set_persistent i persistent t)))
      | Act i persistent a \<Rightarrow> Some (Inr (handle_terminal_action i persistent a now t))
      | Pass i locked exits \<Rightarrow> run_pass checks compress i locked exits now t
      | Chunk i j d \<Rightarrow> Some (Inr ([], on_session i j (channel_push d) t))
      | ReaderEnd i j \<Rightarrow> Some (Inr ([], on_session i j reader_exit t))
      | Tick running due \<Rightarrow> Some (Inr ([], cleanup_tick running due now t))
      | Disconnect i persistent \<Rightarrow> Some (Inr ([], on_disconnect (proxy_new i (Some persistent) t) t))
      | RunEnd i \<Rightarrow> Some (Inr ([], run_end i t)))"

text \<open>The shells an event spawns: only an \<open>Open\<close> for a new terminal of an existing service does.\<close>

definition spawns :: "event \<Rightarrow> terminals \<Rightarrow> nat list" where
  "spawns ev t =
     (case ev of
        Act i _ (Open j _ _ os) \<Rightarrow>
          (case get_service i t of
             Some s \<Rightarrow>
               if map_of (ps_sessions s) j = None
               then (case os of Spawned c _ \<Rightarrow> [c] | WriterFailed c \<Rightarrow> [c] | ReaderFailed c \<Rightarrow> [c] | _ \<Rightarrow> [])
               else []
           | None \<Rightarrow> [])
      | _ \<Rightarrow> [])"

text \<open>Reachable states, with the shells spawned on the way.\<close>

inductive terminal_reach :: "bool \<Rightarrow> (bytes \<Rightarrow> bytes) \<Rightarrow> terminals \<Rightarrow> nat list \<Rightarrow> bool" for checks compress where
  start: "terminal_reach checks compress terminals_init []"
| step: "terminal_reach checks compress t spawned \<Longrightarrow> terminal_step checks compress ev now t = Some (Inr (rs, t'))
         \<Longrightarrow> terminal_reach checks compress t' (spawned @ spawns ev t)"
end
