(* ===== verification/Terminal_Proofs.thy ===== *)
theory Terminal_Proofs
  imports Terminal_Service
begin

text \<open>
  Proofs about terminal services: the invariant of the registry, the whereabouts of every spawned
  shell, the delivery of output, and terminals whose shell has ended.
\<close>

section \<open>Weights of association lists\<close>

definition weight :: "('b \<Rightarrow> 'c multiset) \<Rightarrow> ('a \<times> 'b) list \<Rightarrow> 'c multiset" where
  "weight f xs = sum_list (map (f \<circ> snd) xs)"

lemma weight_simps [simp]: "weight f [] = {#}" "weight f (x # xs) = f (snd x) + weight f xs"
  by (simp_all add: weight_def)

lemma weight_update_new: "map_of xs k = None \<Longrightarrow> weight f (AList.update k v xs) = weight f xs + f v"
  by (induction xs) (auto split: if_splits)

lemma weight_update_old:
  "map_of xs k = Some u \<Longrightarrow> weight f (AList.update k v xs) + f u = weight f xs + f v"
proof (induction xs)
  case (Cons x xs)
  then show ?case by (cases "fst x = k") (auto simp: ac_simps)
qed simp

lemma weight_same: "map_of xs k = Some u \<Longrightarrow> f v = f u \<Longrightarrow> weight f (AList.update k v xs) = weight f xs"
  using weight_update_old [of xs k u f v] by simp

lemma delete_absent: "k \<notin> fst ` set xs \<Longrightarrow> AList.delete k xs = xs"
  by (induction xs) auto

lemma weight_delete:
  "distinct (map fst xs) \<Longrightarrow> map_of xs k = Some u \<Longrightarrow> weight f xs = f u + weight f (AList.delete k xs)"
proof (induction xs)
  case (Cons x xs)
  then show ?case
  proof (cases "fst x = k")
    case True
    then have "AList.delete k (x # xs) = xs" using Cons.prems delete_absent [of k xs] by (auto simp: AList.delete_eq)
    then show ?thesis using True Cons.prems by simp
  next
    case False
    then show ?thesis using Cons by (auto simp: AList.delete_eq ac_simps)
  qed
qed simp

lemma weight_cong: "map snd xs = map snd ys \<Longrightarrow> weight f xs = weight f ys"
  by (simp add: weight_def map_map [symmetric] del: map_map)

section \<open>The registry\<close>

definition service_ok :: "string \<Rightarrow> pservice \<Rightarrow> bool" where
  "service_ok i s \<longleftrightarrow> ps_id s = i \<and> distinct (map fst (ps_sessions s))"

definition registry_ok :: "terminals \<Rightarrow> bool" where
  "registry_ok t \<longleftrightarrow> distinct (map fst (tm_services t)) \<and> length (tm_services t) \<le> MAX_SERVICES
     \<and> (\<forall>(i, s) \<in> set (tm_services t). service_ok i s)"

definition child_of :: "term_session \<Rightarrow> nat multiset" where
  "child_of x = (case ts_child x of Some c \<Rightarrow> {#c#} | None \<Rightarrow> {#})"

definition owned_shells :: "pservice \<Rightarrow> nat multiset" where
  "owned_shells s = weight child_of (ps_sessions s)"

definition shells :: "terminals \<Rightarrow> nat multiset" where
  "shells t = weight owned_shells (tm_services t) + mset (tm_tasks t) + mset (tm_reaped t) + mset (tm_abandoned t)"

lemma registry_get: "registry_ok t \<Longrightarrow> get_service i t = Some s \<Longrightarrow> service_ok i s"
  by (auto simp: registry_ok_def dest: map_of_SomeD)

lemma length_update: "length (AList.update k v xs) = (if map_of xs k = None then Suc (length xs) else length xs)"
  by (induction xs) auto

lemma registry_set:
  "registry_ok t \<Longrightarrow> get_service i t \<noteq> None \<Longrightarrow> service_ok i s \<Longrightarrow> registry_ok (set_service i s t)"
  unfolding registry_ok_def set_service_def
  using set_update_subset [of i s "tm_services t"] by (auto simp: length_update distinct_update)

lemma registry_frame: "tm_services t' = tm_services t \<Longrightarrow> registry_ok t' = registry_ok t"
  by (simp add: registry_ok_def)

lemma service_ok_session:
  "service_ok i s \<Longrightarrow> service_ok i (set_session j x s)"
  by (simp add: service_ok_def set_session_def distinct_update)

lemma shells_set:
  "get_service i t = Some s \<Longrightarrow> owned_shells s' = owned_shells s \<Longrightarrow> shells (set_service i s' t) = shells t"
  by (simp add: shells_def set_service_def weight_same)

lemma owned_session:
  "map_of (ps_sessions s) j = Some x \<Longrightarrow> ts_child x' = ts_child x \<Longrightarrow> owned_shells (set_session j x' s) = owned_shells s"
  by (simp add: owned_shells_def set_session_def weight_same child_of_def)

lemma stop_all_eq:
  "stop_all ss t = t\<lparr>tm_tasks := tm_tasks t @ concat (map (\<lambda>s. case ts_child s of Some c \<Rightarrow> [c] | None \<Rightarrow> []) ss)\<rparr>"
  by (induction ss arbitrary: t) (auto simp: session_stop_def add_to_reaper_def split: option.splits)

lemma mset_children: "mset (concat (map (\<lambda>s. case ts_child s of Some c \<Rightarrow> [c] | None \<Rightarrow> []) (map snd xs))) = weight child_of xs"
  by (induction xs) (auto simp: child_of_def split: option.splits)

lemma remove_service_ok:
  assumes "registry_ok t"
  shows "registry_ok (remove_service i t) \<and> shells (remove_service i t) = shells t
    \<and> tm_abandoned (remove_service i t) = tm_abandoned t"
proof (cases "get_service i t")
  case (Some s)
  have d: "distinct (map fst (tm_services t))" using assms by (simp add: registry_ok_def)
  have "set (AList.delete i (tm_services t)) \<subseteq> set (tm_services t)" by (auto simp: AList.delete_eq)
  then have "registry_ok (t\<lparr>tm_services := AList.delete i (tm_services t)\<rparr>)"
    using assms length_delete_le [of i "tm_services t"] by (auto simp: registry_ok_def distinct_delete)
  then have "registry_ok (remove_service i t)"
    using Some by (simp add: remove_service_def stop_all_eq registry_ok_def)
  moreover have "shells (remove_service i t) = shells t"
    using Some weight_delete [OF d Some, of owned_shells]
    by (simp add: remove_service_def stop_all_eq shells_def mset_children owned_shells_def ac_simps del: map_map)
  ultimately show ?thesis using Some by (simp add: remove_service_def stop_all_eq)
qed (use assms in \<open>simp add: remove_service_def\<close>)

lemma fold_remove_ok:
  "registry_ok t \<Longrightarrow> registry_ok (fold remove_service is t) \<and> shells (fold remove_service is t) = shells t
    \<and> tm_abandoned (fold remove_service is t) = tm_abandoned t"
  by (induction "is" arbitrary: t) (use remove_service_ok in auto)

section \<open>The reaper\<close>

lemma reap_from_filter:
  "i \<le> length tasks \<Longrightarrow> reap_from running i tasks =
     (take i tasks @ filter running (drop i tasks), filter (\<lambda>p. \<not> running p) (drop i tasks))"
proof (induction running i tasks rule: reap_from.induct)
  case (1 running i tasks)
  show ?case
  proof (cases "i < length tasks")
    case True
    then have d: "drop i tasks = tasks ! i # drop (Suc i) tasks" by (simp add: Cons_nth_drop_Suc)
    show ?thesis
    proof (cases "running (tasks ! i)")
      case r: True
      then show ?thesis
        using 1(1) [OF True r] True d by (subst reap_from.simps) (simp add: take_Suc_conv_app_nth)
    next
      case r: False
      let ?l = "take i tasks @ drop (i + 1) tasks"
      have "drop i ?l = drop (Suc i) tasks" "take i ?l = take i tasks" using True by simp_all
      then show ?thesis using 1(2) [OF True r] True d r by (subst reap_from.simps) simp
    qed
  next
    case False
    then show ?thesis using 1(3) by (subst reap_from.simps) simp
  qed
qed

lemma check_zombie_ok:
  "tm_services (check_zombie_terminals running t) = tm_services t \<and> shells (check_zombie_terminals running t) = shells t
    \<and> tm_abandoned (check_zombie_terminals running t) = tm_abandoned t"
  using multiset_partition [of "mset (tm_tasks t)" running]
  by (simp add: check_zombie_terminals_def reap_from_filter shells_def ac_simps mset_filter)


section \<open>Steps\<close>

text \<open>What a step keeps: the registry stays well formed, and every shell is accounted for.\<close>

definition accounts :: "terminals \<Rightarrow> nat list \<Rightarrow> terminals \<Rightarrow> bool" where
  "accounts t new t' \<longleftrightarrow> registry_ok t' \<and> shells t' = shells t + mset new"

lemma accounts_same: "accounts t [] t' \<longleftrightarrow> registry_ok t' \<and> shells t' = shells t"
  by (simp add: accounts_def)

lemma reset_status_owned: "owned_shells (reset_status p s) = owned_shells s"
  unfolding owned_shells_def reset_status_def weight_def
  by (simp add: comp_def case_prod_beta child_of_def cong: map_cong)

lemma reset_status_ok: "service_ok i s \<Longrightarrow> service_ok i (reset_status p s)"
  by (simp add: service_ok_def reset_status_def comp_def case_prod_beta)

lemma connect_accounts:
  assumes "registry_ok t"
  shows "accounts t [] (snd (get_or_create_service i p u now t))"
proof (cases "get_service i t")
  case None
  show ?thesis
  proof (cases "length (tm_services t) \<ge> MAX_SERVICES")
    case False
    have n: "owned_shells (reset_status p (pservice_new i p u now)) = {#}"
      by (simp add: reset_status_owned) (simp add: pservice_new_def owned_shells_def)
    have "service_ok i (reset_status p (pservice_new i p u now))"
      by (rule reset_status_ok) (simp add: service_ok_def pservice_new_def)
    then have "registry_ok (set_service i (reset_status p (pservice_new i p u now)) (t\<lparr>tm_cleanup := True\<rparr>))"
      using assms None False set_update_subset [of i "reset_status p (pservice_new i p u now)" "tm_services t"]
      by (auto simp: registry_ok_def set_service_def length_update distinct_update)
    then show ?thesis
      using None False n
      by (simp add: get_or_create_service_def Let_def accounts_same shells_def set_service_def weight_update_new)
  qed (use assms None in \<open>simp add: get_or_create_service_def accounts_same\<close>)
next
  case (Some s)
  let ?t = "t\<lparr>tm_cleanup := True\<rparr>"
  have "registry_ok ?t" using assms by (simp add: registry_ok_def)
  then have "registry_ok (set_service i (reset_status p s) ?t)"
    using Some registry_get [OF assms Some] by (intro registry_set) (simp_all add: reset_status_ok)
  moreover have "shells (set_service i (reset_status p s) ?t) = shells t"
    using shells_set [where i = i and t = ?t and s = s and s' = "reset_status p s"] Some by (simp add: reset_status_owned shells_def)
  ultimately show ?thesis using Some by (simp add: get_or_create_service_def Let_def accounts_same)
qed

lemma set_service_accounts:
  assumes "registry_ok t" "get_service i t = Some s" "service_ok i s'" "owned_shells s' = owned_shells s"
  shows "accounts t [] (set_service i s' t)"
  using registry_set [OF assms(1) _ assms(3)] shells_set [OF assms(2,4)] assms(2) by (simp add: accounts_same)

lemma persist_accounts: "registry_ok t \<Longrightarrow> accounts t [] (snd (set_persistent i p t))"
  using set_service_accounts [of t i] registry_get [of t i]
  by (auto simp: set_persistent_def accounts_same service_ok_def owned_shells_def split: option.splits)

lemma on_session_accounts:
  assumes "registry_ok t" "\<And>x. ts_child (f x) = ts_child x"
  shows "accounts t [] (on_session i j f t)"
proof (cases "get_service i t")
  case (Some s)
  show ?thesis
  proof (cases "map_of (ps_sessions s) j")
    case x: (Some x)
    show ?thesis
      using set_service_accounts [OF assms(1) Some, of "set_session j (f x) s"] registry_get [OF assms(1) Some]
        owned_session [OF x assms(2)] Some x by (simp add: on_session_def service_ok_session)
  qed (use assms Some in \<open>simp add: on_session_def accounts_same\<close>)
qed (use assms in \<open>simp add: on_session_def accounts_same\<close>)

text \<open>An action replaces one service; what it owns changes by the shells that start and end.\<close>

lemma replace_accounts:
  assumes "registry_ok t" "get_service i t = Some s" "service_ok i s'"
    and "owned_shells s' + mset killed + mset lost = owned_shells s + mset new"
  shows "accounts t new ((set_service i s' t)\<lparr>tm_tasks := tm_tasks t @ killed, tm_abandoned := tm_abandoned t @ lost\<rparr>)"
proof -
  let ?t = "set_service i s' t"
  have "registry_ok ?t" using assms(1-3) by (intro registry_set) simp_all
  moreover have w: "weight owned_shells (tm_services ?t) + owned_shells s = weight owned_shells (tm_services t) + owned_shells s'"
    using weight_update_old [OF assms(2)] by (simp add: set_service_def)
  have "weight owned_shells (tm_services ?t) + mset killed + mset lost + owned_shells s = weight owned_shells (tm_services t) + mset new + owned_shells s"
    using w assms(4) by (metis (no_types, opaque_lifting) add.assoc add.commute)
  then have "weight owned_shells (tm_services ?t) + mset killed + mset lost = weight owned_shells (tm_services t) + mset new" by simp
  then show ?thesis
    using \<open>registry_ok ?t\<close> by (simp add: accounts_def registry_ok_def shells_def set_service_def ac_simps)
qed

lemma synced_fields: "synced others s = (o', s') \<Longrightarrow> ps_sessions s' = ps_sessions s \<and> ps_id s' = ps_id s"
  by (auto simp: synced_def split: if_splits)

lemma open_accounts:
  assumes "handle_open px j rows cols os now s = (r, s', lost)" "service_ok i s"
  shows "service_ok i s' \<and> owned_shells s' + mset lost = owned_shells s + mset (if map_of (ps_sessions s) j = None
      then (case os of Spawned c _ \<Rightarrow> [c] | WriterFailed c \<Rightarrow> [c] | ReaderFailed c \<Rightarrow> [c] | _ \<Rightarrow> []) else [])"
proof (cases "map_of (ps_sessions s) j")
  case (Some x)
  let ?s = "set_session j (x\<lparr>ts_is_opened := True\<rparr>) s"
  have "ps_sessions s' = ps_sessions ?s \<and> ps_id s' = ps_id ?s" "lost = []"
    using assms(1) Some by (auto simp: handle_open_def Let_def split: prod.splits dest!: synced_fields)
  then show ?thesis
    using Some service_ok_session [OF assms(2)] owned_session [OF Some, of "x\<lparr>ts_is_opened := True\<rparr>"]
    by (simp add: service_ok_def owned_shells_def)
next
  case None
  show ?thesis
  proof (cases os)
    case (Spawned c pid)
    then obtain s1 x where s1: "ps_sessions s1 = ps_sessions s" "ps_id s1 = ps_id s" "s' = set_session j x s1"
        "ts_child x = Some c" "lost = []"
      using assms(1) None by (auto simp: handle_open_def Let_def split: prod.splits dest!: synced_fields)
    then have "service_ok i s'" using assms(2) by (simp add: service_ok_def set_session_def distinct_update)
    then show ?thesis
      using s1 None Spawned weight_update_new [OF None, of child_of x] by (simp add: owned_shells_def set_session_def child_of_def)
  qed (use assms None in \<open>auto simp: handle_open_def\<close>)
qed

lemma close_accounts:
  assumes "handle_close j kill_ok s = (r, s', killed, lost)" "service_ok i s"
  shows "service_ok i s' \<and> owned_shells s' + mset killed + mset lost = owned_shells s"
proof (cases "map_of (ps_sessions s) j")
  case (Some x)
  have "s' = s\<lparr>ps_sessions := AList.delete j (ps_sessions s)\<rparr>" "mset killed + mset lost = child_of x"
    using assms(1) Some by (auto simp: handle_close_def child_of_def Let_def split: option.splits if_splits)
  then show ?thesis
    using assms(2) weight_delete [OF _ Some, of child_of]
    by (simp add: service_ok_def owned_shells_def distinct_delete ac_simps)
qed (use assms in \<open>auto simp: handle_close_def\<close>)

lemma action_accounts:
  assumes "registry_ok t"
  shows "accounts t (spawns (Act i p a) t) (snd (handle_terminal_action i p a now t))"
proof -
  let ?px = "proxy_new i (Some p) t"
  have "accounts t (spawns (Act i p a) t) (snd (handle_action ?px a now t))"
  proof (cases "get_service i t")
    case None
    then show ?thesis using assms by (auto simp: handle_action_def proxy_new_def accounts_def spawns_def split: action.splits)
  next
    case (Some s0)
    define s where "s = s0\<lparr>ps_last_activity := now\<rparr>"
    have s: "service_ok i s" "owned_shells s = owned_shells s0" "ps_sessions s = ps_sessions s0"
      using registry_get [OF assms Some] by (simp_all add: s_def service_ok_def owned_shells_def)
    note rep = replace_accounts [OF assms Some]
    show ?thesis
    proof (cases a)
      case (Open j rows cols os)
      obtain r s' lost where h: "handle_open ?px j rows cols os now s = (r, s', lost)" by (cases "handle_open ?px j rows cols os now s")
      then have "snd (handle_action ?px a now t) = (set_service i s' t)\<lparr>tm_tasks := tm_tasks t @ [], tm_abandoned := tm_abandoned t @ lost\<rparr>"
        using Some Open by (simp add: handle_action_def Let_def s_def proxy_new_def set_service_def)
      with rep [of s' "[]" lost] open_accounts [OF h s(1)] s Some Open show ?thesis by (simp add: spawns_def)
    next
      case (Resize j rows cols ok)
      then show ?thesis using Some rep [of _ "[]" "[]" "[]"] s
        by (auto simp: handle_action_def handle_resize_def Let_def s_def [symmetric] proxy_new_def spawns_def service_ok_session
            owned_session set_service_def split: option.splits)
    next
      case (Input j d)
      then show ?thesis using Some rep [of _ "[]" "[]" "[]"] s
        by (auto simp: handle_action_def handle_data_def Let_def s_def [symmetric] proxy_new_def spawns_def service_ok_session
            owned_session set_service_def split: option.splits)
    next
      case (Close j kill_ok)
      obtain r s' killed lost where h: "handle_close j kill_ok s = (r, s', killed, lost)" by (cases "handle_close j kill_ok s")
      then have "snd (handle_action ?px a now t) = (set_service i s' t)\<lparr>tm_tasks := tm_tasks t @ killed, tm_abandoned := tm_abandoned t @ lost\<rparr>"
        using Some Close by (simp add: handle_action_def Let_def s_def proxy_new_def)
      with rep [of s' killed lost "[]"] close_accounts [OF h s(1)] s Close show ?thesis by (simp add: spawns_def)
    next
      case NoAction
      then show ?thesis using Some rep [of s "[]" "[]" "[]"] s
        by (simp add: handle_action_def Let_def s_def [symmetric] proxy_new_def spawns_def set_service_def)
    qed
  qed
  then show ?thesis by (auto simp: handle_terminal_action_def split: prod.splits sum.splits option.splits)
qed


lemma read_session_child:
  "read_session checks compress now i x = Some (Inr (x', rs, e)) \<Longrightarrow> ts_child x' = ts_child x"
  by (auto simp: read_session_def Let_def split: if_splits option.splits sum.splits)

lemma read_sessions_children:
  "read_sessions checks compress now locked xs = Some (Inr (xs', rs, closed)) \<Longrightarrow>
   map fst xs' = map fst xs \<and> weight child_of xs' = weight child_of xs"
proof (induction xs arbitrary: xs' rs closed)
  case (Cons y xs)
  obtain i x where y: "y = (i, x)" by (cases y)
  obtain x1 rs1 e1 xs1 rs2 c2 where
      x1: "(if locked i then Some (Inr (x, [], False)) else read_session checks compress now i x) = Some (Inr (x1, rs1, e1))"
    and r: "read_sessions checks compress now locked xs = Some (Inr (xs1, rs2, c2))" and xs': "xs' = (i, x1) # xs1"
    using Cons.prems y by (auto split: option.splits sum.splits prod.splits)
  have "ts_child x1 = ts_child x" using x1 read_session_child by (auto split: if_splits)
  then show ?case using Cons.IH [OF r] xs' y by (simp add: child_of_def)
qed simp

lemma close_ended_accounts:
  "service_ok i s \<Longrightarrow> close_ended p exits js s = (rs, s', gone) \<Longrightarrow> service_ok i s' \<and> owned_shells s' + mset gone = owned_shells s"
proof (induction js arbitrary: s rs s' gone)
  case (Cons j js)
  let ?s = "case map_of (ps_sessions s) j of None \<Rightarrow> s
               | Some x \<Rightarrow> if p then set_session j (x\<lparr>ts_child := None\<rparr>) s
                   else s\<lparr>ps_sessions := AList.delete j (ps_sessions s)\<rparr>"
  let ?c = "case map_of (ps_sessions s) j of Some x \<Rightarrow> ts_child x | None \<Rightarrow> None"
  obtain rs2 gone2 where r: "close_ended p exits js ?s = (rs2, s', gone2)"
    and g: "gone = (case ?c of Some c \<Rightarrow> c # gone2 | None \<Rightarrow> gone2)"
    using Cons.prems(2) by (auto simp: Let_def split: prod.splits)
  have ok: "service_ok i ?s"
    using Cons.prems(1) by (auto simp: service_ok_def set_session_def distinct_update distinct_delete split: option.splits)
  have "owned_shells ?s + (case ?c of Some c \<Rightarrow> {#c#} | None \<Rightarrow> {#}) = owned_shells s"
  proof (cases "map_of (ps_sessions s) j")
    case (Some x)
    show ?thesis
    proof (cases p)
      case True
      then show ?thesis
        using Some weight_update_old [OF Some, of child_of "x\<lparr>ts_child := None\<rparr>"]
        by (simp add: owned_shells_def set_session_def child_of_def)
    next
      case False
      then show ?thesis
        using Some weight_delete [OF _ Some, of child_of] Cons.prems(1)
        by (simp add: owned_shells_def service_ok_def child_of_def ac_simps)
    qed
  qed simp
  then show ?case using Cons.IH [OF ok r] g by (auto split: option.splits)
qed simp

lemma pass_accounts:
  assumes "registry_ok t" "run_pass checks compress i locked exits now t = Some (Inr (rs, t'))"
  shows "accounts t [] t'"
proof (cases "get_service i t")
  case None
  then show ?thesis using assms by (simp add: run_pass_def read_outputs_def proxy_new_def accounts_same)
next
  case (Some s)
  then obtain xs rs1 closed rs2 s' gone p where
      r: "read_sessions checks compress now locked (ps_sessions s) = Some (Inr (xs, rs1, closed))"
    and c: "close_ended p exits closed (s\<lparr>ps_sessions := xs\<rparr>) = (rs2, s', gone)"
    and t': "t' = (set_service i s' t)\<lparr>tm_tasks := tm_tasks t @ gone\<rparr>"
    using assms(2) by (auto simp: run_pass_def read_outputs_def proxy_new_def split: option.splits sum.splits prod.splits)
  have ok: "service_ok i (s\<lparr>ps_sessions := xs\<rparr>)" "owned_shells (s\<lparr>ps_sessions := xs\<rparr>) = owned_shells s"
    using registry_get [OF assms(1) Some] read_sessions_children [OF r] by (simp_all add: service_ok_def owned_shells_def)
  from close_ended_accounts [OF ok(1) c] ok(2) replace_accounts [OF assms(1) Some, of s' gone "[]" "[]"]
  show ?thesis by (simp add: t' set_service_def)
qed

lemma step_accounts:
  assumes "registry_ok t" "terminal_step checks compress ev now t = Some (Inr (rs, t'))"
  shows "accounts t (spawns ev t) t'"
proof (cases ev)
  case (Connect i p u)
  then show ?thesis using connect_accounts [OF assms(1)] assms(2) by (auto simp: terminal_step_def spawns_def)
next
  case (Persist i p)
  then show ?thesis using persist_accounts [OF assms(1)] assms(2) by (auto simp: terminal_step_def spawns_def)
next
  case (Act i p a)
  then show ?thesis using action_accounts [OF assms(1), of i p a now] assms(2) by (auto simp: terminal_step_def)
next
  case (Pass i locked exits)
  then show ?thesis using pass_accounts [OF assms(1)] assms(2) by (auto simp: terminal_step_def spawns_def)
next
  case (Chunk i j d)
  then show ?thesis using on_session_accounts [OF assms(1), of "channel_push d"] assms(2)
    by (auto simp: terminal_step_def spawns_def channel_push_def)
next
  case (ReaderEnd i j)
  then show ?thesis using on_session_accounts [OF assms(1), of reader_exit] assms(2)
    by (auto simp: terminal_step_def spawns_def reader_exit_def)
next
  case (Tick running due)
  let ?t = "check_zombie_terminals running t"
  have z: "registry_ok ?t" "shells ?t = shells t"
    using check_zombie_ok [of running t] assms(1) registry_frame [of ?t t] by simp_all
  have "t' = (if due then cleanup_inactive_services now ?t else ?t)"
    using Tick assms(2) by (simp add: terminal_step_def cleanup_tick_def Let_def)
  then have "accounts t [] t'"
    using z fold_remove_ok [OF z(1)] by (auto simp: accounts_same cleanup_inactive_services_def)
  then show ?thesis using Tick by (simp add: spawns_def)
next
  case (Disconnect i p)
  then show ?thesis using remove_service_ok [OF assms(1), of i] assms
    by (auto simp: terminal_step_def on_disconnect_def proxy_new_def accounts_same spawns_def)
next
  case (RunEnd i)
  then show ?thesis using remove_service_ok [OF assms(1), of i] assms
    by (auto simp: terminal_step_def run_end_def accounts_same spawns_def split: option.splits if_splits)
qed

lemma reach_accounts:
  "terminal_reach checks compress t spawned \<Longrightarrow> registry_ok t \<and> shells t = mset spawned"
proof (induction rule: terminal_reach.induct)
  case start
  show ?case by (simp add: terminals_init_def registry_ok_def shells_def MAX_SERVICES_def)
next
  case (step t spawned ev now rs t')
  then show ?case using step_accounts [of t checks compress ev now rs t'] by (simp add: accounts_def)
qed


section \<open>Delivery of output\<close>

text \<open>\<open>hbb_common::compress\<close>: decompressing undoes compressing.\<close>

definition lossless :: "(bytes \<Rightarrow> bytes) \<Rightarrow> (bytes \<Rightarrow> bytes) \<Rightarrow> bool" where
  "lossless compress decompress \<longleftrightarrow> (\<forall>d. decompress (compress d) = d)"

definition decoded :: "(bytes \<Rightarrow> bytes) \<Rightarrow> int \<Rightarrow> response list \<Rightarrow> bytes list" where
  "decoded decompress j rs =
     List.map_filter (\<lambda>r. case r of TData k d c \<Rightarrow> if k = j then Some (if c then decompress d else d) else None | _ \<Rightarrow> None) rs"

lemma decoded_append [simp]: "decoded dec j (rs @ rs') = decoded dec j rs @ decoded dec j rs'"
  by (simp add: decoded_def map_filter_def)

lemma decoded_Nil [simp]: "decoded dec j [] = []"
  by (simp add: decoded_def map_filter_def)

lemma decoded_pack:
  assumes "lossless compress dec"
  shows "decoded dec j (map (pack_data compress i) ds) = (if i = j then ds else [])"
  by (induction ds) (use assms in \<open>auto simp: decoded_def map_filter_def pack_data_def Let_def lossless_def\<close>)

lemma decoded_closed: "close_ended p exits js s = (rs, s', gone) \<Longrightarrow> decoded dec j rs = []"
proof (induction js arbitrary: s rs s' gone)
  case (Cons k js)
  then show ?case by (auto simp: Let_def decoded_def map_filter_def split: prod.splits)
qed simp

definition queue_of :: "term_session \<Rightarrow> bytes list" where
  "queue_of x = (case ts_output_rx x of Some q \<Rightarrow> q | None \<Rightarrow> [])"

lemma read_session_delivers:
  assumes "lossless compress dec" "read_session checks compress now i x = Some (Inr (x', rs, e))"
  shows "decoded dec j rs = (if i = j \<and> ts_is_opened x then queue_of x else [])"
    and "ts_is_opened x \<Longrightarrow> queue_of x' = [] \<and> buffer_run checks (queue_of x) (ts_output_buffer x) = Some (Inr (ts_output_buffer x'))"
  using assms(2) decoded_pack [OF assms(1), of j i]
  by (auto simp: read_session_def Let_def queue_of_def split: if_splits option.splits sum.splits)

lemma other_terminals:
  assumes "lossless compress dec"
  shows "read_sessions checks compress now locked xs = Some (Inr (xs', rs, closed)) \<Longrightarrow> j \<notin> fst ` set xs \<Longrightarrow> decoded dec j rs = []"
proof (induction xs arbitrary: xs' rs closed)
  case (Cons y xs)
  obtain i z where y: "y = (i, z)" by (cases y)
  obtain z1 rs1 e1 xs1 rs2 c2 where
      z1: "(if locked i then Some (Inr (z, [], False)) else read_session checks compress now i z) = Some (Inr (z1, rs1, e1))"
    and r: "read_sessions checks compress now locked xs = Some (Inr (xs1, rs2, c2))" and rs: "rs = rs1 @ rs2"
    using Cons.prems(1) y by (auto split: option.splits sum.splits prod.splits)
  have "decoded dec j rs1 = []"
    using z1 y Cons.prems(2) read_session_delivers(1) [OF assms, of checks now i z z1 rs1 e1 j] by (auto split: if_splits)
  then show ?case using Cons.IH [OF r] Cons.prems(2) rs by simp
qed simp

lemma read_sessions_deliver:
  assumes "lossless compress dec"
  shows "read_sessions checks compress now locked xs = Some (Inr (xs', rs, closed)) \<Longrightarrow> distinct (map fst xs) \<Longrightarrow>
   map_of xs j = Some x \<Longrightarrow> ts_is_opened x \<Longrightarrow> \<not> locked j \<Longrightarrow>
   decoded dec j rs = queue_of x \<and> (\<exists>x'. map_of xs' j = Some x' \<and> queue_of x' = []
     \<and> buffer_run checks (queue_of x) (ts_output_buffer x) = Some (Inr (ts_output_buffer x')))"
proof (induction xs arbitrary: xs' rs closed)
  case (Cons y xs)
  obtain i z where y: "y = (i, z)" by (cases y)
  obtain z1 rs1 e1 xs1 rs2 c2 where
      z1: "(if locked i then Some (Inr (z, [], False)) else read_session checks compress now i z) = Some (Inr (z1, rs1, e1))"
    and r: "read_sessions checks compress now locked xs = Some (Inr (xs1, rs2, c2))"
    and xs': "xs' = (i, z1) # xs1" "rs = rs1 @ rs2"
    using Cons.prems(1) y by (auto split: option.splits sum.splits prod.splits)
  show ?case
  proof (cases "i = j")
    case True
    then have "j \<notin> fst ` set xs" "z = x" using Cons.prems y by auto
    then have "decoded dec j rs2 = []" using other_terminals [OF assms r] by simp
    then show ?thesis
      using True \<open>z = x\<close> z1 xs' Cons.prems read_session_delivers(1) [OF assms, of checks now i z z1 rs1 e1 j]
        read_session_delivers(2) [OF assms, of checks now i z z1 rs1 e1] by simp
  next
    case False
    then have "decoded dec j rs1 = []"
      using z1 read_session_delivers(1) [OF assms, of checks now i z z1 rs1 e1 j] by (auto split: if_splits)
    then show ?thesis using False Cons.IH [OF r] Cons.prems y xs' by simp
  qed
qed simp


section \<open>Ended terminals\<close>

definition sent_closed :: "int \<Rightarrow> response list \<Rightarrow> bool" where
  "sent_closed j rs \<longleftrightarrow> list_ex (\<lambda>r. case r of TClosed k _ \<Rightarrow> k = j | _ \<Rightarrow> False) rs"

lemma sent_closed_append [simp]: "sent_closed j (rs @ rs') \<longleftrightarrow> sent_closed j rs \<or> sent_closed j rs'"
  by (simp add: sent_closed_def)

lemma pack_not_closed: "\<not> sent_closed j (map (pack_data compress i) ds)"
  by (induction ds) (auto simp: sent_closed_def pack_data_def Let_def)

lemma close_ended_sent: "close_ended p exits js s = (rs, s', gone) \<Longrightarrow> sent_closed j rs \<longleftrightarrow> j \<in> set js"
proof (induction js arbitrary: s rs s' gone)
  case (Cons k js)
  then show ?case by (auto simp: Let_def sent_closed_def split: prod.splits)
qed (simp add: sent_closed_def)

lemma read_session_closed:
  assumes "read_session checks compress now i x = Some (Inr (x', rs, e))"
  shows "\<not> sent_closed j rs" and "e \<longleftrightarrow> \<not> ts_closed_sent x \<and> ts_reader_finished x = Some True"
    and "ts_closed_sent x' \<longleftrightarrow> ts_closed_sent x \<or> e" and "ts_pid x' = ts_pid x"
  using assms pack_not_closed [of j compress i]
  by (auto simp: read_session_def Let_def sent_closed_def split: if_splits option.splits sum.splits)

lemma other_closed:
  "read_sessions checks compress now locked xs = Some (Inr (xs', rs, closed)) \<Longrightarrow> j \<notin> fst ` set xs \<Longrightarrow>
   \<not> sent_closed j rs \<and> j \<notin> set closed"
proof (induction xs arbitrary: xs' rs closed)
  case (Cons y xs)
  obtain i z where y: "y = (i, z)" by (cases y)
  obtain z1 rs1 e1 xs1 rs2 c2 where
      z1: "(if locked i then Some (Inr (z, [], False)) else read_session checks compress now i z) = Some (Inr (z1, rs1, e1))"
    and r: "read_sessions checks compress now locked xs = Some (Inr (xs1, rs2, c2))"
    and rs: "rs = rs1 @ rs2" "closed = (if e1 then i # c2 else c2)"
    using Cons.prems(1) y by (auto split: option.splits sum.splits prod.splits)
  have "\<not> sent_closed j rs1" using z1 read_session_closed(1) [of checks compress now i z z1 rs1 e1 j]
    by (auto simp: sent_closed_def split: if_splits)
  then show ?case using Cons.IH [OF r] Cons.prems(2) rs y by auto
qed (simp add: sent_closed_def)

lemma read_sessions_closed:
  "read_sessions checks compress now locked xs = Some (Inr (xs', rs, closed)) \<Longrightarrow> distinct (map fst xs) \<Longrightarrow>
   map_of xs j = Some x \<Longrightarrow>
   \<not> sent_closed j rs \<and> (j \<in> set closed \<longleftrightarrow> \<not> locked j \<and> \<not> ts_closed_sent x \<and> ts_reader_finished x = Some True)
   \<and> (\<exists>x'. map_of xs' j = Some x' \<and> ts_pid x' = ts_pid x \<and> (ts_closed_sent x' \<longleftrightarrow> ts_closed_sent x \<or> j \<in> set closed))"
proof (induction xs arbitrary: xs' rs closed)
  case (Cons y xs)
  obtain i z where y: "y = (i, z)" by (cases y)
  obtain z1 rs1 e1 xs1 rs2 c2 where
      z1: "(if locked i then Some (Inr (z, [], False)) else read_session checks compress now i z) = Some (Inr (z1, rs1, e1))"
    and r: "read_sessions checks compress now locked xs = Some (Inr (xs1, rs2, c2))"
    and xs': "xs' = (i, z1) # xs1" "rs = rs1 @ rs2" "closed = (if e1 then i # c2 else c2)"
    using Cons.prems(1) y by (auto split: option.splits sum.splits prod.splits)
  have s1: "\<not> sent_closed j rs1" using z1 read_session_closed(1) [of checks compress now i z z1 rs1 e1 j]
    by (auto simp: sent_closed_def split: if_splits)
  show ?case
  proof (cases "i = j")
    case True
    then have "j \<notin> fst ` set xs" "z = x" using Cons.prems y by auto
    moreover have "\<not> sent_closed j rs2 \<and> j \<notin> set c2" using other_closed [OF r \<open>j \<notin> fst ` set xs\<close>] .
    moreover have e1: "e1 = (\<not> locked j \<and> \<not> ts_closed_sent x \<and> ts_reader_finished x = Some True)
        \<and> ts_closed_sent z1 = (ts_closed_sent x \<or> e1) \<and> ts_pid z1 = ts_pid x"
    proof (cases "locked j")
      case l: True
      then show ?thesis using z1 True \<open>z = x\<close> by auto
    next
      case False
      then have "read_session checks compress now j x = Some (Inr (z1, rs1, e1))" using z1 True \<open>z = x\<close> by simp
      from read_session_closed(2-4) [OF this] show ?thesis using False by blast
    qed
    ultimately show ?thesis using True xs' s1 by (cases e1) simp_all
  next
    case False
    then have "map_of xs j = Some x" "distinct (map fst xs)" using Cons.prems y by auto
    note ih = Cons.IH [OF r this(2,1)]
    have "map_of xs' j = map_of xs1 j" "sent_closed j rs = sent_closed j rs2" "j \<in> set closed \<longleftrightarrow> j \<in> set c2"
      using False xs' s1 by auto
    then show ?thesis using ih by metis
  qed
qed simp

lemma close_ended_keeps:
  "close_ended True exits js s = (rs, s', gone) \<Longrightarrow> map_of (ps_sessions s) j = Some x \<Longrightarrow>
   ps_id s' = ps_id s \<and> (\<exists>x'. map_of (ps_sessions s') j = Some x' \<and> ts_pid x' = ts_pid x \<and> ts_closed_sent x' = ts_closed_sent x)"
proof (induction js arbitrary: s rs s' gone x)
  case (Cons k js)
  let ?s = "case map_of (ps_sessions s) k of None \<Rightarrow> s | Some x \<Rightarrow> set_session k (x\<lparr>ts_child := None\<rparr>) s"
  obtain rs2 gone2 where r: "close_ended True exits js ?s = (rs2, s', gone2)"
    using Cons.prems(1) by (cases "map_of (ps_sessions s) k") (auto simp: Let_def split: prod.splits)
  obtain y where y: "map_of (ps_sessions ?s) j = Some y" "ts_pid y = ts_pid x" "ts_closed_sent y = ts_closed_sent x"
    using Cons.prems(2) by (cases "k = j"; cases "map_of (ps_sessions s) k") (auto simp: set_session_def update_conv')
  have "ps_id ?s = ps_id s" by (simp add: set_session_def split: option.splits)
  then show ?case using Cons.IH [OF r y(1)] y by auto
qed auto

lemma pass_closed:
  assumes "registry_ok t" "get_service i t = Some s" "ps_persistent s" "map_of (ps_sessions s) j = Some x"
    and "run_pass checks compress i locked exits now t = Some (Inr (rs, t'))"
  shows "(sent_closed j rs \<longleftrightarrow> \<not> locked j \<and> \<not> ts_closed_sent x \<and> ts_reader_finished x = Some True) \<and>
    (\<exists>s' x'. get_service i t' = Some s' \<and> ps_id s' = i \<and> map_of (ps_sessions s') j = Some x' \<and> ts_pid x' = ts_pid x
       \<and> ts_closed_sent x' = (ts_closed_sent x \<or> sent_closed j rs))"
proof -
  have ok: "service_ok i s" using registry_get [OF assms(1,2)] .
  obtain xs rs1 closed rs2 s' gone where
      r: "read_sessions checks compress now locked (ps_sessions s) = Some (Inr (xs, rs1, closed))"
    and c: "close_ended True exits closed (s\<lparr>ps_sessions := xs\<rparr>) = (rs2, s', gone)"
    and t': "t' = (set_service i s' t)\<lparr>tm_tasks := tm_tasks t @ gone\<rparr>" "rs = rs1 @ rs2"
    using assms(2,3,5) by (auto simp: run_pass_def read_outputs_def proxy_new_def split: option.splits sum.splits prod.splits)
  have d: "distinct (map fst (ps_sessions s))" using ok by (simp add: service_ok_def)
  obtain x1 where x1: "map_of xs j = Some x1" "ts_pid x1 = ts_pid x" "ts_closed_sent x1 \<longleftrightarrow> ts_closed_sent x \<or> j \<in> set closed"
      "\<not> sent_closed j rs1" "j \<in> set closed \<longleftrightarrow> \<not> locked j \<and> \<not> ts_closed_sent x \<and> ts_reader_finished x = Some True"
    using read_sessions_closed [OF r d assms(4)] by blast
  obtain x' where "ps_id s' = i" "map_of (ps_sessions s') j = Some x'" "ts_pid x' = ts_pid x1" "ts_closed_sent x' = ts_closed_sent x1"
    using close_ended_keeps [OF c, of j x1] x1(1) ok by (auto simp: service_ok_def)
  then show ?thesis using x1 close_ended_sent [OF c, of j] t' by (simp add: set_service_def update_conv')
qed


lemma close_ended_queue:
  "close_ended p exits js s = (rs, s', gone) \<Longrightarrow> map_of (ps_sessions s') j = Some x' \<Longrightarrow>
   \<exists>x. map_of (ps_sessions s) j = Some x \<and> ts_output_rx x' = ts_output_rx x"
proof (induction js arbitrary: s rs s' gone)
  case (Cons k js)
  let ?s = "case map_of (ps_sessions s) k of None \<Rightarrow> s | Some x \<Rightarrow> if p then set_session k (x\<lparr>ts_child := None\<rparr>) s
      else s\<lparr>ps_sessions := AList.delete k (ps_sessions s)\<rparr>"
  obtain rs2 gone2 where r: "close_ended p exits js ?s = (rs2, s', gone2)"
    using Cons.prems(1) by (auto simp: Let_def split: prod.splits)
  obtain y where "map_of (ps_sessions ?s) j = Some y" "ts_output_rx x' = ts_output_rx y"
    using Cons.IH [OF r Cons.prems(2)] by blast
  then show ?case
    by (cases "map_of (ps_sessions s) k"; cases "k = j") (auto simp: set_session_def update_conv' delete_conv' split: if_splits)
qed simp

lemma close_ended_persistent: "close_ended p exits js s = (rs, s', gone) \<Longrightarrow> ps_persistent s' = ps_persistent s"
proof (induction js arbitrary: s rs s' gone)
  case (Cons k js)
  let ?s = "case map_of (ps_sessions s) k of None \<Rightarrow> s | Some x \<Rightarrow> if p then set_session k (x\<lparr>ts_child := None\<rparr>) s
      else s\<lparr>ps_sessions := AList.delete k (ps_sessions s)\<rparr>"
  obtain rs2 gone2 where r: "close_ended p exits js ?s = (rs2, s', gone2)"
    using Cons.prems(1) by (auto simp: Let_def split: prod.splits)
  have "ps_persistent ?s = ps_persistent s" by (simp add: set_session_def split: option.splits)
  then show ?case using Cons.IH [OF r] by simp
qed simp

lemma pass_persistent:
  assumes "run_pass checks compress i locked exits now t = Some (Inr (rs, t'))"
    and "get_service i t = Some s" "get_service i t' = Some s'"
  shows "ps_persistent s' = ps_persistent s"
proof -
  obtain xs rs1 closed rs2 s1 gone p where
      c: "close_ended p exits closed (s\<lparr>ps_sessions := xs\<rparr>) = (rs2, s1, gone)"
    and t': "t' = (set_service i s1 t)\<lparr>tm_tasks := tm_tasks t @ gone\<rparr>"
    using assms(1,2) by (auto simp: run_pass_def read_outputs_def proxy_new_def split: option.splits sum.splits prod.splits)
  from close_ended_persistent [OF c] t' assms(3) show ?thesis by (simp add: set_service_def update_conv')
qed

text \<open>A session whose pending output is whole lines, with its buffer within the limits.\<close>

definition whole_lines :: "term_session \<Rightarrow> bool" where
  "whole_lines x \<longleftrightarrow> within_limits (ts_output_buffer x) \<and> \<not> last_line_incomplete (ts_output_buffer x)
     \<and> list_all (\<lambda>d. length d \<le> 4096 \<and> (d = [] \<or> last d = newline)) (queue_of x)"

lemma whole_lines_run:
  "within_limits b \<Longrightarrow> \<not> last_line_incomplete b \<Longrightarrow>
   list_all (\<lambda>d. length d \<le> 4096 \<and> (d = [] \<or> last d = newline)) ds \<Longrightarrow> \<exists>b'. buffer_run checks ds b = Some (Inr b')"
proof (induction ds arbitrary: b)
  case (Cons d ds)
  then obtain b' where "buffer_append checks d b = Some (Inr b')" "within_limits b'" "\<not> last_line_incomplete b'"
    using append_exact [of b d checks] by auto
  with Cons show ?case by simp
qed simp

lemma read_sessions_return:
  "\<forall>(k, y) \<in> set xs. ts_is_opened y \<longrightarrow> whole_lines y \<Longrightarrow>
   \<exists>r. read_sessions checks compress now locked xs = Some (Inr r)"
proof (induction xs)
  case (Cons z xs)
  obtain k y where z: "z = (k, y)" by (cases z)
  have "\<exists>r. read_session checks compress now k y = Some (Inr r)"
  proof (cases "ts_is_opened y")
    case True
    then have "whole_lines y" using Cons.prems z by simp
    then obtain b where "buffer_run checks (queue_of y) (ts_output_buffer y) = Some (Inr b)"
      using whole_lines_run [of "ts_output_buffer y" "queue_of y" checks] by (auto simp: whole_lines_def)
    then show ?thesis using True by (auto simp: read_session_def Let_def queue_of_def)
  qed (simp add: read_session_def Let_def)
  then show ?case using Cons z by (cases "locked k") (auto split: prod.splits)
qed auto

lemma pass_returns:
  assumes "get_service i t = Some s" "\<forall>(k, y) \<in> set (ps_sessions s). ts_is_opened y \<longrightarrow> whole_lines y"
  shows "\<exists>rs t'. run_pass checks compress i locked exits now t = Some (Inr (rs, t'))"
  using read_sessions_return [OF assms(2), of checks compress now locked] assms(1)
  by (auto simp: run_pass_def read_outputs_def proxy_new_def split: prod.splits)

section \<open>Properties\<close>

text \<open>
  C25. In every reachable state there are at most a hundred services, under distinct names, and every
  shell that was ever spawned is in exactly one place: owned_shells by one session, waiting in the
  reaper's list, reaped, or abandoned on an error path.
\<close>

theorem shells_accounted:
  assumes "terminal_reach checks compress t spawned"
  shows "length (tm_services t) \<le> MAX_SERVICES \<and> distinct (map fst (tm_services t)) \<and>
    mset spawned = (\<Sum>(i, s)\<leftarrow>tm_services t. \<Sum>(j, x)\<leftarrow>ps_sessions s. case ts_child x of Some c \<Rightarrow> {#c#} | None \<Rightarrow> {#})
      + mset (tm_tasks t) + mset (tm_reaped t) + mset (tm_abandoned t)"
proof -
  have "(\<Sum>(i, s)\<leftarrow>tm_services t. \<Sum>(j, x)\<leftarrow>ps_sessions s. case ts_child x of Some c \<Rightarrow> {#c#} | None \<Rightarrow> {#})
      = weight owned_shells (tm_services t)"
    unfolding weight_def owned_shells_def child_of_def comp_def case_prod_unfold by (rule refl)
  with reach_accounts [OF assms] show ?thesis by (simp add: registry_ok_def shells_def)
qed

text \<open>
  The pass over a service sends the viewer exactly the chunks that wait in the channel of an
  open terminal, in order, after decompression; the channel is empty afterwards, or the terminal
  is gone; a message that the terminal has closed follows the data. If for all open terminals
  the chunks are whole lines and the buffer is within its limits, the pass returns.
\<close>

theorem output_delivered:
  assumes "lossless compress decompress" "terminal_reach checks compress t spawned"
    and "get_service i t = Some s" "map_of (ps_sessions s) j = Some x" "ts_is_opened x" "\<not> locked j"
  shows "(\<forall>rs t'. run_pass checks compress i locked exits now t = Some (Inr (rs, t')) \<longrightarrow>
      (\<exists>rs1 rs2. rs = rs1 @ rs2 \<and> decoded decompress j rs1 = (case ts_output_rx x of Some q \<Rightarrow> q | None \<Rightarrow> [])
         \<and> \<not> sent_closed j rs1 \<and> decoded decompress j rs2 = [])
      \<and> (\<forall>s' x'. get_service i t' = Some s' \<longrightarrow> map_of (ps_sessions s') j = Some x' \<longrightarrow> ts_output_rx x' \<in> {None, Some []}))
    \<and> ((\<forall>(k, y) \<in> set (ps_sessions s). ts_is_opened y \<longrightarrow> whole_lines y) \<longrightarrow>
      (\<exists>rs t'. run_pass checks compress i locked exits now t = Some (Inr (rs, t'))))"
proof -
  have reg: "registry_ok t" using reach_accounts [OF assms(2)] by simp
  have d: "distinct (map fst (ps_sessions s))" using registry_get [OF reg assms(3)] by (simp add: service_ok_def)
  have "(\<exists>rs1 rs2. rs = rs1 @ rs2 \<and> decoded decompress j rs1 = queue_of x \<and> \<not> sent_closed j rs1 \<and> decoded decompress j rs2 = [])
      \<and> (\<forall>s' x'. get_service i t' = Some s' \<longrightarrow> map_of (ps_sessions s') j = Some x' \<longrightarrow> ts_output_rx x' \<in> {None, Some []})"
    if pass: "run_pass checks compress i locked exits now t = Some (Inr (rs, t'))" for rs t'
  proof -
    obtain xs rs1 closed rs2 s' gone p where
        r: "read_sessions checks compress now locked (ps_sessions s) = Some (Inr (xs, rs1, closed))"
      and c: "close_ended p exits closed (s\<lparr>ps_sessions := xs\<rparr>) = (rs2, s', gone)"
      and t': "t' = (set_service i s' t)\<lparr>tm_tasks := tm_tasks t @ gone\<rparr>" "rs = rs1 @ rs2"
      using assms(3) pass by (auto simp: run_pass_def read_outputs_def proxy_new_def split: option.splits sum.splits prod.splits)
    obtain x1 where q: "decoded decompress j rs1 = queue_of x" and x1: "map_of xs j = Some x1" "queue_of x1 = []"
      using read_sessions_deliver [OF assms(1) r d assms(4,5,6)] by blast
    have "ts_output_rx x' \<in> {None, Some []}" if "map_of (ps_sessions s') j = Some x'" for x'
      using close_ended_queue [OF c that] x1 by (auto simp: queue_of_def split: option.splits)
    moreover have "get_service i t' = Some s'" by (simp add: t' set_service_def update_conv')
    moreover have "\<not> sent_closed j rs1" using read_sessions_closed [OF r d assms(4)] by blast
    ultimately show ?thesis using q t'(2) decoded_closed [OF c, of decompress j] by (metis option.inject)
  qed
  then show ?thesis using pass_returns [OF assms(3)] by (simp add: queue_of_def [symmetric])
qed

text \<open>
  When the loop of a service that is not persistent ends, or its viewer disconnects, the service is gone
  and all its shells have been handed to the reaper; nothing else is stopped.
\<close>

theorem service_removed_with_shells:
  assumes "terminal_reach checks compress t spawned" "get_service i t = Some s" "\<not> ps_persistent s"
  shows "get_service i (run_end i t) = None
    \<and> mset (tm_tasks (run_end i t)) = mset (tm_tasks t) + (\<Sum>(j, x)\<leftarrow>ps_sessions s. case ts_child x of Some c \<Rightarrow> {#c#} | None \<Rightarrow> {#})
    \<and> (\<forall>k. k \<noteq> i \<longrightarrow> get_service k (run_end i t) = get_service k t)
    \<and> on_disconnect (proxy_new i None t) t = run_end i t"
proof -
  have "(\<Sum>(j, x)\<leftarrow>ps_sessions s. case ts_child x of Some c \<Rightarrow> {#c#} | None \<Rightarrow> {#}) = weight child_of (ps_sessions s)"
    unfolding weight_def child_of_def comp_def case_prod_unfold by (rule refl)
  then show ?thesis
    using assms(2,3) by (simp add: run_end_def remove_service_def stop_all_eq on_disconnect_def proxy_new_def
        delete_conv' mset_children del: map_map mset_concat)
qed

text \<open>
  In a persistent service a terminal whose shell has ended stays in the table after its closing
  was reported. Opening it again is answered with success, a closed message is never sent for it again, and
  the service never counts as idle, so that it is not cleaned up.
\<close>

theorem ended_terminal_reopens:
  assumes "terminal_reach checks compress t spawned" "get_service i t = Some s" "ps_persistent s"
    and "map_of (ps_sessions s) j = Some x" "\<not> ts_closed_sent x" "ts_reader_finished x = Some True" "\<not> locked j"
    and "run_pass checks compress i locked exits now t = Some (Inr (rs, t1))"
    and "handle_terminal_action i True (Open j rows cols os) now' t1 = (rs', t2)"
    and "run_pass checks compress i locked' exits' now'' t2 = Some (Inr (rs'', t3))"
  shows "sent_closed j rs \<and> (\<exists>others. rs' = [TOpened j True ''Reconnected to existing terminal'' (ts_pid x) i others])
    \<and> \<not> sent_closed j rs'' \<and> (\<exists>s3. get_service i t3 = Some s3 \<and> \<not> is_idle later s3)"
proof -
  have reg: "registry_ok t" using reach_accounts [OF assms(1)] by simp
  obtain s1 x1 where s1: "get_service i t1 = Some s1" "map_of (ps_sessions s1) j = Some x1" "ts_pid x1 = ts_pid x"
      "ts_closed_sent x1" "ps_id s1 = i" and sent: "sent_closed j rs"
    using pass_closed [OF reg assms(2,3,4,8)] assms(5-7) by auto
  have reg1: "registry_ok t1" using pass_accounts [OF reg assms(8)] by (simp add: accounts_same)
  have p1: "ps_persistent s1" using pass_persistent [OF assms(8,2) s1(1)] assms(3) by simp
  obtain others s2 x2 where rs': "rs' = [TOpened j True ''Reconnected to existing terminal'' (ts_pid x1) i others]"
    and s2: "get_service i t2 = Some s2" "map_of (ps_sessions s2) j = Some x2" "ts_closed_sent x2" "ps_persistent s2"
    using assms(9) s1 p1
    by (auto simp: handle_terminal_action_def handle_action_def handle_open_def proxy_new_def Let_def synced_def
        set_service_def set_session_def update_conv' split: if_splits)
  have "t2 = snd (handle_terminal_action i True (Open j rows cols os) now' t1)" using assms(9) by simp
  then have reg2: "registry_ok t2" using action_accounts [OF reg1] by (metis accounts_def)
  obtain s3 x3 where s3: "get_service i t3 = Some s3" "map_of (ps_sessions s3) j = Some x3" and ns: "\<not> sent_closed j rs''"
    using pass_closed [OF reg2 s2(1,4,2) assms(10)] s2(3) by auto
  have "ps_persistent s3" using pass_persistent [OF assms(10) s2(1) s3(1)] s2(4) by simp
  then have "\<not> is_idle later s3" using s3(2) by (auto simp: is_idle_def)
  then show ?thesis using sent rs' s1(3) ns s3(1) by simp
qed


section \<open>Witnesses\<close>

definition plain_copy :: "bytes \<Rightarrow> bytes" where
  "plain_copy d = d"

text \<open>A persistent service with one terminal whose shell has printed a line and ended.\<close>

definition demo_events :: "event list" where
  "demo_events = [Connect ''ts'' True False, Act ''ts'' True (Open 0 24 80 (Spawned 7 (Some 4242))),
     Chunk ''ts'' 0 [104, 105, newline], ReaderEnd ''ts'' 0]"

fun demo_run :: "event list \<Rightarrow> terminals \<Rightarrow> terminals" where
  "demo_run [] t = t"
| "demo_run (e # es) t = (case terminal_step False plain_copy e 0 t of Some (Inr (_, t')) \<Rightarrow> demo_run es t' | _ \<Rightarrow> t)"

definition demo_state :: terminals where
  "demo_state = demo_run demo_events terminals_init"

definition demo_session :: term_session where
  "demo_session = \<lparr>ts_created_at = 0, ts_last_activity = 0, ts_pty = True, ts_child = Some 7,
     ts_input_tx = Some [], ts_output_rx = Some [[104, 105, newline]], ts_exiting = False, ts_reader_finished = Some True,
     ts_writer = True, ts_output_buffer = buffer_new, ts_title = ''Terminal '' @ show_int 0, ts_pid = 4242, ts_rows = 24, ts_cols = 80,
     ts_closed_sent = False, ts_is_opened = True\<rparr>"

lemmas demo_eval = terminal_step_def get_or_create_service_def terminals_init_def set_service_def
  reset_status_def pservice_new_def handle_terminal_action_def handle_action_def proxy_new_def handle_open_def
  synced_def set_session_def session_new_def on_session_def channel_push_def CHANNEL_BUFFER_SIZE_def reader_exit_def
  MAX_SERVICES_def

lemma demo_state_eq: "demo_state = \<lparr>tm_services = [(''ts'', \<lparr>ps_id = ''ts'', ps_sessions = [(0, demo_session)], ps_created_at = 0,
     ps_last_activity = 0, ps_persistent = True, ps_needs_sync = False, ps_specified_user = False\<rparr>)],
     tm_cleanup = True, tm_tasks = [], tm_reaped = [], tm_abandoned = []\<rparr>"
  by (simp add: demo_state_def demo_events_def demo_eval Let_def demo_session_def)

lemma demo_reach: "terminal_reach False plain_copy demo_state [7]"
proof -
  let ?s = "terminal_step False plain_copy"
  define t1 where "t1 = demo_run [Connect ''ts'' True False] terminals_init"
  define t2 where "t2 = demo_run [Act ''ts'' True (Open 0 24 80 (Spawned 7 (Some 4242)))] t1"
  define t3 where "t3 = demo_run [Chunk ''ts'' 0 [104, 105, newline]] t2"
  have 1: "?s (Connect ''ts'' True False) 0 terminals_init = Some (Inr ([], t1))"
    by (simp add: t1_def demo_eval Let_def)
  obtain r where 2: "?s (Act ''ts'' True (Open 0 24 80 (Spawned 7 (Some 4242)))) 0 t1 = Some (Inr (r, t2))"
    by (simp add: t2_def t1_def demo_eval Let_def)
  have 3: "?s (Chunk ''ts'' 0 [104, 105, newline]) 0 t2 = Some (Inr ([], t3))"
    by (simp add: t3_def terminal_step_def)
  have 4: "?s (ReaderEnd ''ts'' 0) 0 t3 = Some (Inr ([], demo_state))"
    by (simp add: t1_def t2_def t3_def demo_state_def demo_events_def demo_eval Let_def)
  have "terminal_reach False plain_copy t1 []"
    using terminal_reach.step [OF terminal_reach.start 1] by (simp add: spawns_def)
  from terminal_reach.step [OF this 2] have "terminal_reach False plain_copy t2 [7]"
    by (simp add: spawns_def t1_def demo_eval Let_def)
  from terminal_reach.step [OF this 3] have "terminal_reach False plain_copy t3 [7]" by (simp add: spawns_def)
  from terminal_reach.step [OF this 4] show ?thesis by (simp add: spawns_def)
qed

lemma demo_get: "get_service ''ts'' demo_state = Some \<lparr>ps_id = ''ts'', ps_sessions = [(0, demo_session)], ps_created_at = 0,
     ps_last_activity = 0, ps_persistent = True, ps_needs_sync = False, ps_specified_user = False\<rparr>"
  by (simp add: demo_state_eq)

theorem shells_accounted_witness: "length (tm_services demo_state) \<le> MAX_SERVICES"
  using shells_accounted [OF demo_reach] by simp

theorem output_delivered_witness:
  "\<exists>rs t'. run_pass False plain_copy ''ts'' (\<lambda>_. False) (\<lambda>_. Some 0) 0 demo_state = Some (Inr (rs, t'))"
proof -
  have "lossless plain_copy plain_copy" by (simp add: lossless_def plain_copy_def)
  moreover have "whole_lines demo_session"
    by (simp add: whole_lines_def demo_session_def queue_of_def within_limits_def exact_def buffer_new_def)
  ultimately show ?thesis
    using output_delivered [OF _ demo_reach demo_get, of plain_copy 0 demo_session "\<lambda>_. False" "\<lambda>_. Some 0" 0]
    by (simp add: demo_session_def)
qed

definition demo_transient :: terminals where
  "demo_transient = demo_run [Persist ''ts'' False] demo_state"

lemma demo_transient_reach: "terminal_reach False plain_copy demo_transient [7]"
proof -
  have "terminal_step False plain_copy (Persist ''ts'' False) 0 demo_state = Some (Inr ([], demo_transient))"
    by (simp add: demo_transient_def terminal_step_def)
  from terminal_reach.step [OF demo_reach this] show ?thesis by (simp add: spawns_def)
qed

theorem service_removed_with_shells_witness: "tm_tasks (run_end ''ts'' demo_transient) = [7]"
proof -
  have "get_service ''ts'' demo_transient = Some \<lparr>ps_id = ''ts'', ps_sessions = [(0, demo_session)], ps_created_at = 0,
     ps_last_activity = 0, ps_persistent = False, ps_needs_sync = False, ps_specified_user = False\<rparr>"
    by (simp add: demo_transient_def demo_state_eq terminal_step_def set_persistent_def set_service_def)
  from service_removed_with_shells [OF demo_transient_reach this]
  have "mset (tm_tasks (run_end ''ts'' demo_transient)) = mset (tm_tasks demo_transient) + {#7#}"
    by (simp add: demo_session_def)
  then show ?thesis by (simp add: demo_transient_def demo_state_eq terminal_step_def set_persistent_def set_service_def)
qed


definition demo_buffer :: output_buffer where
  "demo_buffer = \<lparr>ob_lines = [[104, 105, newline]], total_size = 3, last_line_incomplete = False\<rparr>"

lemma demo_buffer_run: "buffer_run False [[104, 105, newline]] buffer_new = Some (Inr demo_buffer)"
  by (simp add: buffer_append_def append_rest_def push_line_def buffer_new_def demo_buffer_def Let_def trim_lines.simps
      MAX_OUTPUT_BUFFER_SIZE_def MAX_BUFFER_LINES_def)

definition demo_ended :: term_session where
  "demo_ended = demo_session\<lparr>ts_child := None, ts_output_rx := Some [], ts_output_buffer := demo_buffer, ts_closed_sent := True\<rparr>"

definition demo_after :: terminals where
  "demo_after = demo_state\<lparr>tm_services := [(''ts'', \<lparr>ps_id = ''ts'', ps_sessions = [(0, demo_ended)], ps_created_at = 0,
     ps_last_activity = 0, ps_persistent = True, ps_needs_sync = False, ps_specified_user = False\<rparr>)], tm_tasks := [7]\<rparr>"

lemma demo_pass:
  "run_pass False plain_copy ''ts'' (\<lambda>_. False) (\<lambda>_. Some 0) 0 demo_state =
     Some (Inr ([TData 0 [104, 105, newline] False, TClosed 0 0], demo_after))"
proof -
  have "read_session False plain_copy 0 0 demo_session =
      Some (Inr (demo_ended\<lparr>ts_child := Some 7\<rparr>, [TData 0 [104, 105, newline] False], True))"
    using demo_buffer_run
    by (simp add: read_session_def Let_def pack_data_def COMPRESS_THRESHOLD_def demo_session_def demo_ended_def)
  then show ?thesis
    by (simp add: run_pass_def read_outputs_def proxy_new_def demo_state_eq Let_def demo_after_def set_service_def set_session_def)
       (simp add: demo_ended_def demo_session_def)
qed

lemma demo_open: "handle_terminal_action ''ts'' True (Open 0 24 80 PtyFailed) 0 demo_after =
    ([TOpened 0 True ''Reconnected to existing terminal'' 4242 ''ts'' []], demo_after)"
  by (simp add: handle_terminal_action_def handle_action_def handle_open_def demo_after_def demo_state_eq proxy_new_def Let_def
      set_service_def set_session_def synced_def demo_ended_def demo_session_def)

lemma demo_pass_again:
  "run_pass False plain_copy ''ts'' (\<lambda>_. False) (\<lambda>_. Some 0) 0 demo_after = Some (Inr ([], demo_after))"
  by (simp add: run_pass_def read_outputs_def proxy_new_def read_session_def Let_def demo_after_def demo_state_eq set_service_def
      demo_ended_def demo_session_def)

theorem ended_terminal_reopens_witness: "\<not> sent_closed 0 [] \<and> (\<exists>s. get_service ''ts'' demo_after = Some s \<and> \<not> is_idle 99999999 s)"
  using ended_terminal_reopens [OF demo_reach demo_get _ _ _ _ _ demo_pass demo_open demo_pass_again, of demo_session 99999999]
  by (simp add: demo_session_def)

end
