(* ===== verification/Rendezvous.thy ===== *)
theory Rendezvous
  imports Config Host_Version Addr_Mangle Secure_Stream
begin

text \<open>
  The rendezvous mediator of a host (\<open>src/rendezvous_mediator.rs\<close>): registration with the
  rendezvous server over UDP and TCP, the answers of the server, and how an incoming connection
  is set up (hole punching, local network, relay).

  Times are microseconds of a clock. An iteration of a \<open>select!\<close> loop is a step that takes what
  happened; messages sent are outputs of the step. The network, the random numbers and the order
  in which a hash map is visited come with the event. Permissions are passed on unread.
\<close>

section \<open>Mediator and global state\<close>

definition RENDEZVOUS_PORT :: int where "RENDEZVOUS_PORT = 21116"
definition REG_INTERVAL :: nat where "REG_INTERVAL = 15000"
definition MIN_REG_TIMEOUT :: nat where "MIN_REG_TIMEOUT = 3000"
definition MAX_REG_TIMEOUT :: nat where "MAX_REG_TIMEOUT = 30000"
definition MAX_FAILS1 :: nat where "MAX_FAILS1 = 2"
definition MAX_FAILS2 :: nat where "MAX_FAILS2 = 4"
definition DNS_INTERVAL :: nat where "DNS_INTERVAL = 60000"
definition CONNECT_TIMEOUT :: nat where "CONNECT_TIMEOUT = 18000"
definition DEFAULT_KEEP_ALIVE :: u32 where "DEFAULT_KEEP_ALIVE = 60000"

text \<open>The machine: what does not change while the mediator runs.\<close>

record machine =
  mc_crypto :: crypto
  mc_hostname :: "string option"
  mc_mac :: "bytes option"
  mc_public_key :: bytes

record mediator =
  rz_ipv4 :: bool
  rz_host :: string
  rz_host_prefix :: string
  rz_keep_alive :: u32

record rz_globals =
  SOLVING_PK_MISMATCH :: string
  LAST_MSG :: "socket_addr \<times> nat"
  LAST_RELAY_MSG :: "socket_addr \<times> nat"
  SHOULD_EXIT :: bool
  MANUAL_RESTARTED :: bool
  rz_world :: world

definition rz_restart :: "rz_globals \<Rightarrow> rz_globals" where
  "rz_restart g = g\<lparr>SHOULD_EXIT := True, MANUAL_RESTARTED := True\<rparr>"

definition get_host_prefix :: "string \<Rightarrow> string" where
  "get_host_prefix host =
     (case split_on CHR ''.'' host of
        x # _ \<Rightarrow> if parse_signed (2 ^ 31) x \<noteq> None then host else x
      | [] \<Rightarrow> host)"

text \<open>Whole milliseconds since an instant.\<close>

definition elapsed_ms :: "nat \<Rightarrow> nat \<Rightarrow> nat" where
  "elapsed_ms now t = (now - t) div 1000"

section \<open>Registration messages\<close>

datatype rz_out =
    OutRegisterPk string bytes bytes bool
  | OutRegisterPeer string int

definition own_id :: "machine \<Rightarrow> rz_globals \<Rightarrow> string \<times> rz_globals" where
  "own_id M g = (case get_id (mc_crypto M) (mc_hostname M) (mc_mac M) (rz_world g) of (i, w) \<Rightarrow> (i, g\<lparr>rz_world := w\<rparr>))"

definition register_pk :: "machine \<Rightarrow> rz_globals \<Rightarrow> rz_out list \<times> rz_globals" where
  "register_pk M g =
     (case own_id M g of (i, g) \<Rightarrow> ([OutRegisterPk i (uuid (mc_crypto M)) (mc_public_key M) (no_register_device (rz_world g))], g))"

text \<open>\<open>Config::update_id\<close>: \<open>rnd\<close> is drawn from \<open>1_000_000_000..2_000_000_000\<close>.\<close>

definition update_id :: "machine \<Rightarrow> nat \<Rightarrow> rz_globals \<Rightarrow> rz_globals" where
  "update_id M rnd g =
     (case own_id M g of (_, g) \<Rightarrow> g\<lparr>rz_world := set_id (mc_crypto M) (show_nat rnd) (rz_world g)\<rparr>)"

definition handle_uuid_mismatch :: "machine \<Rightarrow> mediator \<Rightarrow> nat \<Rightarrow> rz_globals \<Rightarrow> rz_out list \<times> rz_globals" where
  "handle_uuid_mismatch M rz rnd g =
     (if SOLVING_PK_MISMATCH g = [] \<or> SOLVING_PK_MISMATCH g = rz_host rz then
        let g = g\<lparr>rz_world := set_key_confirmed (mc_crypto M) False (rz_world g)\<rparr>;
            g = update_id M rnd g;
            g = g\<lparr>SOLVING_PK_MISMATCH := rz_host rz\<rparr>
        in register_pk M g
      else ([], g))"

definition register_peer :: "machine \<Rightarrow> mediator \<Rightarrow> rz_globals \<Rightarrow> rz_out list \<times> rz_globals" where
  "register_peer M rz g =
     (if \<not> (SOLVING_PK_MISMATCH g = [] \<or> SOLVING_PK_MISMATCH g = rz_host rz) then ([], g)
      else if \<not> key_confirmed (CONFIG (rz_world g)) \<or> \<not> get_host_key_confirmed (rz_host_prefix rz) (rz_world g)
      then register_pk M g
      else (case own_id M g of (i, g) \<Rightarrow> ([OutRegisterPeer i (get_serial (rz_world g))], g)))"

section \<open>Answers of the server\<close>

datatype pk_result = PkOK | UuidMismatch | PkOther

record punch_hole =
  ph_socket_addr :: bytes
  ph_relay_server :: string
  ph_symmetric :: bool
  ph_udp_port :: int
  ph_force_relay :: bool
  ph_socket_addr_v6 :: bytes
  ph_control :: "nat option"

record request_relay =
  rr_socket_addr :: bytes
  rr_relay_server :: string
  rr_uuid :: string
  rr_secure :: bool
  rr_control :: "nat option"

record fetch_local_addr =
  fla_socket_addr :: bytes
  fla_relay_server :: string
  fla_socket_addr_v6 :: bytes
  fla_control :: "nat option"

datatype rz_msg =
    RegisterPeerResponse bool
  | RegisterPkResponse pk_result u32
  | PunchHole punch_hole
  | RequestRelay request_relay
  | FetchLocalAddr fetch_local_addr
  | ConfigureUpdate "string list" int
  | OtherMsg

text \<open>
  \<open>keep_alive * 1000\<close> in 32 bits: a build with overflow checks panics (\<open>None\<close>), a release build wraps.
\<close>

definition scale_keep_alive :: "bool \<Rightarrow> u32 \<Rightarrow> u32 option" where
  "scale_keep_alive checks k = (if checks \<and> sint k * 1000 \<ge> 2 ^ 31 then None else Some (k * 1000))"

fun join_comma :: "string list \<Rightarrow> string" where
  "join_comma [] = []"
| "join_comma [s] = s"
| "join_comma (s # ss) = s @ '','' @ join_comma ss"

text \<open>
  \<open>handle_resp\<close>: \<open>upd\<close> is the closure \<open>update_latency\<close> on the locals of the loop. The messages
  that start a task of their own are returned as they are. \<open>None\<close> is a panic; the caller turns a
  message that cannot be sent into an error, after the arithmetic of the answer.
\<close>

definition handle_resp ::
    "bool \<Rightarrow> machine \<Rightarrow> nat \<Rightarrow> ('s \<times> rz_globals \<Rightarrow> 's \<times> rz_globals) \<Rightarrow> rz_msg \<Rightarrow> mediator \<Rightarrow> 's \<times> rz_globals \<Rightarrow>
     (rz_out list \<times> rz_msg list \<times> mediator \<times> 's \<times> rz_globals) option" where
  "handle_resp checks M rnd upd msg rz sg =
     (case msg of
        RegisterPeerResponse request_pk \<Rightarrow>
          (case upd sg of (s, g) \<Rightarrow>
             if request_pk then (case register_pk M g of (outs, g) \<Rightarrow> Some (outs, [], rz, s, g))
             else Some ([], [], rz, s, g))
      | RegisterPkResponse result keep_alive \<Rightarrow>
          (case upd sg of (s, g) \<Rightarrow>
             case (case result of
                     PkOK \<Rightarrow>
                       let w = set_key_confirmed (mc_crypto M) True (rz_world g);
                           w = set_host_key_confirmed (mc_crypto M) (rz_host_prefix rz) True w
                       in ([], g\<lparr>rz_world := w, SOLVING_PK_MISMATCH := []\<rparr>)
                   | UuidMismatch \<Rightarrow> handle_uuid_mismatch M rz rnd g
                   | PkOther \<Rightarrow> ([], g)) of
               (outs, g) \<Rightarrow>
                 if 0 <s keep_alive then
                   (case scale_keep_alive checks keep_alive of
                      None \<Rightarrow> None
                    | Some k \<Rightarrow> Some (outs, [], rz\<lparr>rz_keep_alive := k\<rparr>, s, g))
                 else Some (outs, [], rz, s, g))
      | ConfigureUpdate servers n \<Rightarrow>
          (case sg of (s, g) \<Rightarrow>
             let v0 = get_rendezvous_servers (rz_world g);
                 w = config_set_option (mc_crypto M) ''rendezvous-servers'' (join_comma servers) (rz_world g);
                 w = set_serial (mc_crypto M) n w;
                 g = g\<lparr>rz_world := w\<rparr>
             in Some ([], [], rz, s, if v0 \<noteq> get_rendezvous_servers w then rz_restart g else g))
      | OtherMsg \<Rightarrow> (case sg of (s, g) \<Rightarrow> Some ([], [], rz, s, g))
      | _ \<Rightarrow> (case sg of (s, g) \<Rightarrow> Some ([], [msg], rz, s, g)))"

section \<open>Registration over UDP\<close>

record udp_state =
  reg_timeout :: nat
  fails :: nat
  last_register_resp :: "nat option"
  last_register_sent :: "nat option"
  last_dns_check :: nat
  old_latency :: int
  ema_latency :: int

definition udp_init :: "nat \<Rightarrow> udp_state" where
  "udp_init now = \<lparr>reg_timeout = MIN_REG_TIMEOUT, fails = 0, last_register_resp = None, last_register_sent = None,
     last_dns_check = now, old_latency = 0, ema_latency = 0\<rparr>"

definition mediator_new :: "bool \<Rightarrow> string \<Rightarrow> mediator" where
  "mediator_new ipv4 host = \<lparr>rz_ipv4 = ipv4, rz_host = host, rz_host_prefix = get_host_prefix host, rz_keep_alive = DEFAULT_KEEP_ALIVE\<rparr>"

text \<open>\<open>Config::update_latency\<close>, with the order in which the table of latencies is visited.\<close>

definition set_latency :: "machine \<Rightarrow> (string \<times> int) list \<Rightarrow> string \<Rightarrow> int \<Rightarrow> rz_globals \<Rightarrow> rz_globals" where
  "set_latency M hosts host l g = g\<lparr>rz_world := update_latency (mc_crypto M) hosts host l (rz_world g)\<rparr>"

definition update_latency_udp ::
    "machine \<Rightarrow> (string \<times> int) list \<Rightarrow> string \<Rightarrow> nat \<Rightarrow> udp_state \<times> rz_globals \<Rightarrow> udp_state \<times> rz_globals" where
  "update_latency_udp M hosts host now sg =
     (case sg of (s, g) \<Rightarrow>
        let latency = (case last_register_sent s of Some x \<Rightarrow> int (now - x) | None \<Rightarrow> 0);
            s = s\<lparr>last_register_resp := Some now, fails := 0, reg_timeout := MIN_REG_TIMEOUT, last_register_sent := None\<rparr>
        in if latency < 0 \<or> latency > 1000000 then (s, g)
           else
             let ema = (if ema_latency s = 0 then latency else latency div 30 + ema_latency s * 29 div 30);
                 latency = (if ema_latency s = 0 then latency else ema);
                 s = s\<lparr>ema_latency := ema\<rparr>;
                 n = (if latency div 5 < 3000 then 3000 else latency div 5)
             in if \<bar>latency - old_latency s\<bar> > n \<or> old_latency s \<le> 0
                then (s\<lparr>old_latency := latency\<rparr>, set_latency M hosts host latency g)
                else (s, g))"

datatype loop_end = Exited | Failed string

text \<open>The last registration has not been answered in time; the last answer is old.\<close>

definition is_timeout :: "nat \<Rightarrow> udp_state \<Rightarrow> bool" where
  "is_timeout now s \<longleftrightarrow> (case last_register_sent s of Some x \<Rightarrow> elapsed_ms now x \<ge> reg_timeout s | None \<Rightarrow> False)"

definition is_expired :: "nat \<Rightarrow> udp_state \<Rightarrow> bool" where
  "is_expired now s \<longleftrightarrow> (case last_register_resp s of Some x \<Rightarrow> elapsed_ms now x \<ge> REG_INTERVAL | None \<Rightarrow> True)"

text \<open>
  The bookkeeping of a timeout: after two the host counts as offline, after four the socket is
  bound anew once a minute. \<open>rebind\<close> is the result of \<open>rebind_udp_for\<close> (whether the new
  address is IPv4).
\<close>

definition count_failure ::
    "machine \<Rightarrow> string + bool option \<Rightarrow> (string \<times> int) list \<Rightarrow> nat \<Rightarrow> mediator \<Rightarrow> udp_state \<Rightarrow> rz_globals \<Rightarrow>
     loop_end + (mediator \<times> udp_state \<times> rz_globals)" where
  "count_failure M rebind hosts now rz s g =
     (let s = s\<lparr>fails := fails s + 1\<rparr> in
      if fails s \<ge> MAX_FAILS2 then
        let g = set_latency M hosts (rz_host rz) (- 1) g; s = s\<lparr>old_latency := 0\<rparr> in
        if elapsed_ms now (last_dns_check s) > DNS_INTERVAL then
          (case rebind of
             Inl e \<Rightarrow> Inl (Failed e)
           | Inr r \<Rightarrow> Inr (case r of Some v4 \<Rightarrow> rz\<lparr>rz_ipv4 := v4\<rparr> | None \<Rightarrow> rz, s\<lparr>last_dns_check := now\<rparr>, g))
        else Inr (rz, s, g)
      else if fails s \<ge> MAX_FAILS1 then
        Inr (rz, s\<lparr>old_latency := 0\<rparr>, set_latency M hosts (rz_host rz) 0 g)
      else Inr (rz, s, g))"

text \<open>
  A tick of the timer. \<open>public\<close> is \<open>using_public_server()\<close>, \<open>send_ok\<close> whether the socket takes
  the message.
\<close>

definition udp_tick ::
    "machine \<Rightarrow> bool \<Rightarrow> string + bool option \<Rightarrow> bool \<Rightarrow> (string \<times> int) list \<Rightarrow> nat \<Rightarrow> mediator \<Rightarrow> udp_state \<Rightarrow> rz_globals \<Rightarrow>
     loop_end + (rz_out list \<times> mediator \<times> udp_state \<times> rz_globals)" where
  "udp_tick M public rebind send_ok hosts now rz s g =
     (if SHOULD_EXIT g then Inl Exited
      else
        let expired = is_expired now s;
            timeout = is_timeout now s;
            s = (if public \<and> timeout \<and> reg_timeout s < MAX_REG_TIMEOUT then s\<lparr>reg_timeout := reg_timeout s + MIN_REG_TIMEOUT\<rparr> else s)
        in if timeout \<or> last_register_sent s = None \<and> expired then
             (case (if timeout then count_failure M rebind hosts now rz s g else Inr (rz, s, g)) of
                Inl e \<Rightarrow> Inl e
              | Inr (rz, s, g) \<Rightarrow>
                  (case register_peer M rz g of (outs, g) \<Rightarrow>
                     if outs \<noteq> [] \<and> \<not> send_ok then Inl (Failed ''send'')
                     else Inr (outs, rz, s\<lparr>last_register_sent := Some now\<rparr>, g)))
           else Inr ([], rz, s, g))"

datatype udp_event =
    UdpMsg rz_msg nat
  | UdpGarbage
  | UdpError
  | UdpTick bool "string + bool option"

text \<open>One iteration of the loop of \<open>start_udp\<close>. \<open>None\<close> is a panic.\<close>

definition udp_step ::
    "bool \<Rightarrow> machine \<Rightarrow> udp_event \<Rightarrow> bool \<Rightarrow> (string \<times> int) list \<Rightarrow> nat \<Rightarrow> mediator \<Rightarrow> udp_state \<Rightarrow> rz_globals \<Rightarrow>
     (loop_end + (rz_out list \<times> rz_msg list \<times> mediator \<times> udp_state \<times> rz_globals)) option" where
  "udp_step checks M ev send_ok hosts now rz s g =
     (case ev of
        UdpMsg msg rnd \<Rightarrow>
          (case handle_resp checks M rnd (update_latency_udp M hosts (rz_host rz) now) msg rz (s, g) of
             None \<Rightarrow> None
           | Some (outs, tasks, rz, s, g) \<Rightarrow>
               Some (if outs \<noteq> [] \<and> \<not> send_ok then Inl (Failed ''send'') else Inr (outs, tasks, rz, s, g)))
      | UdpGarbage \<Rightarrow> Some (Inr ([], [], rz, s, g))
      | UdpError \<Rightarrow> Some (Inl (Failed ''Failed to receive next''))
      | UdpTick public rebind \<Rightarrow>
          Some (case udp_tick M public rebind send_ok hosts now rz s g of
                  Inl e \<Rightarrow> Inl e
                | Inr (outs, rz, s, g) \<Rightarrow> Inr (outs, [], rz, s, g)))"

section \<open>Registration over TCP\<close>

record tcp_state =
  tcp_last_sent :: "nat option"
  tcp_last_recv :: nat

definition update_latency_tcp ::
    "machine \<Rightarrow> (string \<times> int) list \<Rightarrow> string \<Rightarrow> nat \<Rightarrow> tcp_state \<times> rz_globals \<Rightarrow> tcp_state \<times> rz_globals" where
  "update_latency_tcp M hosts host now sg =
     (case sg of (s, g) \<Rightarrow>
        (s, set_latency M hosts host (case tcp_last_sent s of Some x \<Rightarrow> int (now - x) | None \<Rightarrow> 0) g))"

text \<open>The limit of silence: \<open>keep_alive as u64 * 3 / 2\<close>; the cast extends the sign.\<close>

definition keep_alive_limit :: "bool \<Rightarrow> u32 \<Rightarrow> u64 option" where
  "keep_alive_limit checks k =
     (let w = (scast k :: u64) in if checks \<and> unat w * 3 \<ge> 2 ^ 64 then None else Some (w * 3 div 2))"

datatype tcp_event =
    TcpMsg rz_msg nat
  | TcpHeartbeat
  | TcpReset
  | TcpGarbage
  | TcpTick

definition tcp_step ::
    "bool \<Rightarrow> machine \<Rightarrow> tcp_event \<Rightarrow> bool \<Rightarrow> (string \<times> int) list \<Rightarrow> nat \<Rightarrow> mediator \<Rightarrow> tcp_state \<Rightarrow> rz_globals \<Rightarrow>
     (loop_end + (rz_out list \<times> rz_msg list \<times> mediator \<times> tcp_state \<times> rz_globals)) option" where
  "tcp_step checks M ev send_ok hosts now rz s g =
     (case ev of
        TcpMsg msg rnd \<Rightarrow>
          (case handle_resp checks M rnd (update_latency_tcp M hosts (rz_host rz) now) msg rz (s\<lparr>tcp_last_recv := now\<rparr>, g) of
             None \<Rightarrow> None
           | Some (outs, tasks, rz, s, g) \<Rightarrow>
               Some (if outs \<noteq> [] \<and> \<not> send_ok then Inl (Failed ''send'') else Inr (outs, tasks, rz, s, g)))
      | TcpHeartbeat \<Rightarrow> Some (if send_ok then Inr ([], [], rz, s\<lparr>tcp_last_recv := now\<rparr>, g) else Inl (Failed ''send''))
      | TcpReset \<Rightarrow> Some (Inl (Failed ''Rendezvous connection is reset by the peer''))
      | TcpGarbage \<Rightarrow> Some (Inl (Failed ''parse''))
      | TcpTick \<Rightarrow>
          if SHOULD_EXIT g then Some (Inl Exited)
          else
            (case keep_alive_limit checks (rz_keep_alive rz) of
               None \<Rightarrow> None
             | Some limit \<Rightarrow>
                 if elapsed_ms now (tcp_last_recv s) > unat limit then Some (Inl (Failed ''Rendezvous connection is timeout''))
                 else if (\<not> key_confirmed (CONFIG (rz_world g)) \<or> \<not> get_host_key_confirmed (rz_host_prefix rz) (rz_world g))
                   \<and> (case tcp_last_sent s of Some x \<Rightarrow> elapsed_ms now x \<ge> REG_INTERVAL | None \<Rightarrow> True)
                 then (case register_pk M g of (outs, g) \<Rightarrow>
                         Some (if \<not> send_ok then Inl (Failed ''send'')
                               else Inr (outs, [], rz, s\<lparr>tcp_last_sent := Some now\<rparr>, g)))
                 else Some (Inr ([], [], rz, s, g))))"

text \<open>\<open>start_tcp\<close> up to the loop, and which of the two loops \<open>start\<close> chooses (in a release build).\<close>

definition tcp_init :: "machine \<Rightarrow> mediator \<Rightarrow> nat \<Rightarrow> rz_globals \<Rightarrow> tcp_state \<times> rz_globals" where
  "tcp_init M rz now g =
     (\<lparr>tcp_last_sent = None, tcp_last_recv = now\<rparr>,
      g\<lparr>rz_world := set_host_key_confirmed (mc_crypto M) (rz_host_prefix rz) False (rz_world g)\<rparr>)"

definition is_udp_disabled :: "world \<Rightarrow> bool" where
  "is_udp_disabled w \<longleftrightarrow> config_get_option ''disable-udp'' w = ''Y''"

definition start_uses_tcp :: "world \<Rightarrow> bool" where
  "start_uses_tcp w \<longleftrightarrow> is_proxy w \<or> use_ws w \<or> is_udp_disabled w"

text \<open>
  An iteration of \<open>start_all\<close> when its mediators have ended: the pause before the next one, in
  milliseconds; the seconds are cut to a whole number. \<open>host_error\<close> tells that an error text names
  one of the codes 10054 and 11001.
\<close>

definition restart_pause :: "bool \<Rightarrow> bool \<Rightarrow> nat \<Rightarrow> nat" where
  "restart_pause manual host_error elapsed =
     (let timeout = (if host_error then 3000 else CONNECT_TIMEOUT) in
      if \<not> manual then (if elapsed < timeout then (timeout - elapsed) div 1000 * 1000 else 0)
      else 33)"


section \<open>Incoming connections\<close>

text \<open>
  What a task does: messages to the rendezvous server, and connections it starts. \<open>Relay\<close> is
  \<open>create_relay_connection\<close>, \<open>Accept\<close> waits for the peer on the address the TCP connection to the
  server used, \<open>UdpListen\<close> is \<open>udp_nat_listen\<close>.
\<close>

datatype net_action =
    SendRelayResponse bytes bytes "(string \<times> string \<times> string) option"
  | SendLocalAddr string socket_addr string bytes
  | SendPunchHoleSent bytes string string bytes
  | Relay string string socket_addr bool bool "nat option"
  | Accept socket_addr bool "nat option"
  | UdpListen socket_addr socket_addr "nat option"
  | PunchTcp socket_addr

text \<open>
  The network as a task meets it: a new identifier, whether the server can be connected, the
  address of an IPv6 socket if there is one, and whether the local connection works.
\<close>

record network =
  nw_uuid :: string
  nw_connect :: bool
  nw_ipv6 :: "bytes option"
  nw_local :: bool
  nw_udp :: bool

definition get_relay_server :: "mediator \<Rightarrow> string \<Rightarrow> world \<Rightarrow> string" where
  "get_relay_server rz provided w =
     (let relay_server = config_get_option ''relay-server'' w;
          relay_server = (if relay_server = [] then provided else relay_server)
      in if relay_server = [] then increase_port (rz_host rz) 1 else relay_server)"

text \<open>An error of a task is logged; the actions before it have happened.\<close>

type_synonym task_result = "net_action list \<times> string option \<times> rz_globals"

definition create_relay ::
    "machine \<Rightarrow> network \<Rightarrow> mediator \<Rightarrow> bytes \<Rightarrow> socket_addr \<Rightarrow> string \<Rightarrow> string \<Rightarrow> bool \<Rightarrow> bool \<Rightarrow> bytes \<Rightarrow> nat option \<Rightarrow>
     rz_globals \<Rightarrow> task_result" where
  "create_relay M nw rz socket_addr peer_addr relay_server session secure initiate v6 control g =
     (if \<not> nw_connect nw then ([], Some ''connect'', g)
      else
        (case (if initiate then (case own_id M g of (i, g) \<Rightarrow> (Some (session, relay_server, i), g)) else (None, g)) of
           (info, g) \<Rightarrow>
             ([SendRelayResponse socket_addr v6 info, Relay relay_server session peer_addr secure (rz_ipv4 rz) control], None, g)))"

text \<open>A message for the same address within 100 ms is a duplicate; \<open>now\<close> is in microseconds.\<close>

definition is_duplicate :: "socket_addr \<Rightarrow> nat \<Rightarrow> socket_addr \<times> nat \<Rightarrow> bool" where
  "is_duplicate addr now prev \<longleftrightarrow> fst prev = addr \<and> elapsed_ms now (snd prev) < 100"

definition handle_request_relay ::
    "bool \<Rightarrow> machine \<Rightarrow> network \<Rightarrow> nat \<Rightarrow> mediator \<Rightarrow> request_relay \<Rightarrow> rz_globals \<Rightarrow> task_result option" where
  "handle_request_relay checks M nw now rz rr g =
     (case addr_decode checks (rr_socket_addr rr) of
        None \<Rightarrow> None
      | Some addr \<Rightarrow>
          let prev = LAST_RELAY_MSG g; g = g\<lparr>LAST_RELAY_MSG := (addr, now)\<rparr> in
          if is_duplicate addr now prev then Some ([], None, g)
          else Some (create_relay M nw rz (rr_socket_addr rr) addr (rr_relay_server rr) (rr_uuid rr) (rr_secure rr) False [] (rr_control rr) g))"

definition port_of_addr :: "socket_addr \<Rightarrow> u16" where
  "port_of_addr a = (case a of V4 _ p \<Rightarrow> p | V6 _ p _ _ \<Rightarrow> p)"

definition set_addr_port :: "u16 \<Rightarrow> socket_addr \<Rightarrow> socket_addr" where
  "set_addr_port p a = (case a of V4 i _ \<Rightarrow> V4 i p | V6 i _ f s \<Rightarrow> V6 i p f s)"

text \<open>\<open>start_ipv6\<close>: the address to send, and the connection that listens.\<close>

definition start_ipv6 :: "network \<Rightarrow> socket_addr \<Rightarrow> socket_addr \<Rightarrow> nat option \<Rightarrow> bytes \<times> net_action list" where
  "start_ipv6 nw peer_v6 peer_v4 control =
     (case nw_ipv6 nw of
        Some local_addr_v6 \<Rightarrow> (local_addr_v6, [UdpListen peer_v6 peer_v4 control])
      | None \<Rightarrow> ([], []))"

definition handle_intranet_local ::
    "machine \<Rightarrow> network \<Rightarrow> fetch_local_addr \<Rightarrow> socket_addr \<Rightarrow> string \<Rightarrow> bytes \<Rightarrow> rz_globals \<Rightarrow> task_result" where
  "handle_intranet_local M nw fla peer_addr relay_server v6 g =
     (if \<not> (nw_connect nw \<and> nw_local nw) then ([], Some ''connect'', g)
      else (case own_id M g of (i, g) \<Rightarrow>
              ([SendLocalAddr i peer_addr relay_server v6, Accept peer_addr True (fla_control fla)], None, g)))"

definition handle_intranet ::
    "bool \<Rightarrow> machine \<Rightarrow> network \<Rightarrow> nat \<Rightarrow> mediator \<Rightarrow> fetch_local_addr \<Rightarrow> rz_globals \<Rightarrow> task_result option" where
  "handle_intranet checks M nw now rz fla g =
     (case addr_decode checks (fla_socket_addr fla) of
        None \<Rightarrow> None
      | Some addr \<Rightarrow>
          let prev = LAST_MSG g; g = g\<lparr>LAST_MSG := (addr, now)\<rparr> in
          if is_duplicate addr now prev then Some ([], None, g)
          else
            (case addr_decode checks (fla_socket_addr_v6 fla) of
               None \<Rightarrow> None
             | Some peer_v6 \<Rightarrow>
                 let w = rz_world g;
                     relay_server = get_relay_server rz (fla_relay_server fla) w;
                     relay = (use_ws w \<or> is_proxy w)
                 in (case (if port_of_addr peer_v6 > 0 \<and> \<not> relay then start_ipv6 nw peer_v6 addr (fla_control fla) else ([], [])) of
                       (v6, acts) \<Rightarrow>
                         (case (if rz_ipv4 rz \<and> \<not> relay \<and> \<not> is_disable_tcp_listen w
                                then handle_intranet_local M nw fla addr relay_server v6 g else ([], Some [], g)) of
                            (acts', None, g) \<Rightarrow> Some (acts @ acts', None, g)
                          | (acts', Some _, g) \<Rightarrow>
                              (case create_relay M nw rz (fla_socket_addr fla) addr relay_server (nw_uuid nw) True True v6 (fla_control fla) g of
                                 (acts'', err, g) \<Rightarrow> Some (acts @ acts' @ acts'', err, g))))))"

definition NAT_SYMMETRIC :: int where "NAT_SYMMETRIC = 2"

definition handle_punch_hole ::
    "bool \<Rightarrow> machine \<Rightarrow> network \<Rightarrow> nat \<Rightarrow> mediator \<Rightarrow> punch_hole \<Rightarrow> rz_globals \<Rightarrow> task_result option" where
  "handle_punch_hole checks M nw now rz ph g =
     (case addr_decode checks (ph_socket_addr ph) of
        None \<Rightarrow> None
      | Some peer_addr \<Rightarrow>
          let prev = LAST_MSG g; g = g\<lparr>LAST_MSG := (peer_addr, now)\<rparr> in
          if is_duplicate peer_addr now prev then Some ([], None, g)
          else
            (case addr_decode checks (ph_socket_addr_v6 ph) of
               None \<Rightarrow> None
             | Some peer_v6 \<Rightarrow>
                 let w = rz_world g;
                     relay = (use_ws w \<or> is_proxy w \<or> ph_force_relay ph)
                 in (case (if port_of_addr peer_v6 > 0 \<and> \<not> relay then start_ipv6 nw peer_v6 peer_addr (ph_control ph) else ([], [])) of
                       (v6, acts) \<Rightarrow>
                         let relay_server = get_relay_server rz (ph_relay_server ph) w in
                         if ph_symmetric ph \<or> nat_type (CONFIG2 w) = NAT_SYMMETRIC \<or> relay
                            \<or> is_disable_tcp_listen w \<and> ph_udp_port ph \<le> 0
                         then (case create_relay M nw rz (ph_socket_addr ph) peer_addr relay_server (nw_uuid nw) True True v6 (ph_control ph) g of
                                 (acts', err, g) \<Rightarrow> Some (acts @ acts', err, g))
                         else
                           (case own_id M g of (i, g) \<Rightarrow>
                              let sent = SendPunchHoleSent (ph_socket_addr ph) i relay_server v6 in
                              if ph_udp_port ph > 0 then
                                let peer_addr = set_addr_port (word_of_int (ph_udp_port ph)) peer_addr in
                                if nw_udp nw then Some (acts @ [sent, UdpListen peer_addr peer_addr (ph_control ph)], None, g)
                                else Some (acts, Some ''udp'', g)
                              else if nw_connect nw then Some (acts @ [PunchTcp peer_addr, sent, Accept peer_addr True (ph_control ph)], None, g)
                              else Some (acts, Some ''connect'', g)))))"

section \<open>Creating the connection\<close>

text \<open>
  What \<open>src/server.rs\<close> does with an action \<open>Relay\<close> or \<open>Accept\<close>. The answer to the signed id is none (the
  stream ends, fails or is silent), bytes that are no message, the keys of the peer, or another message. The
  signature, the box and the printing of \<open>IdPk\<close> belong to other packages; \<open>hs_key_pair\<close> is the result of
  \<open>Config::get_key_pair\<close>, the secret key first, and \<open>hs_box_keys\<close> that of \<open>box_::gen_keypair\<close>, the public key first. The
  id of the connection is drawn from the registry (theory \<open>Server_Registry\<close>).
\<close>

datatype handshake_answer = NoAnswer string | BadFormat | PublicKeyAnswer bytes bytes | OtherAnswer

record handshake =
  hs_key_pair :: "bytes \<times> bytes"
  hs_box_keys :: "bytes \<times> bytes"
  hs_sign :: "bytes \<Rightarrow> bytes \<Rightarrow> bytes"
  hs_id_pk :: "string \<Rightarrow> bytes \<Rightarrow> bytes"
  hs_box_open :: "bytes \<Rightarrow> bytes \<Rightarrow> bytes \<Rightarrow> bytes \<Rightarrow> bytes option"
  hs_connected :: bool
  hs_sent :: bool

datatype stream_out = SignedIdOut bytes | RequestRelayOut string string

text \<open>The messages sent, the stream \<open>Connection::start\<close> gets or the error, and the configuration.\<close>

definition create_tcp_connection ::
    "machine \<Rightarrow> handshake \<Rightarrow> bool \<Rightarrow> handshake_answer \<Rightarrow> framed_stream \<Rightarrow> rz_globals \<Rightarrow>
     stream_out list \<times> (string, framed_stream) rust_result \<times> rz_globals" where
  "create_tcp_connection M H secure ans fs g =
     (case hs_key_pair H of (sk, pk) \<Rightarrow>
        if secure \<and> length pk = 32 \<and> length sk = 64 then
          (case own_id M g of (i, g) \<Rightarrow>
             let signed = SignedIdOut (hs_sign H (hs_id_pk H i (fst (hs_box_keys H))) sk) in
             if \<not> hs_sent H then ([], Inl ''send'', g)
             else (case ans of
                     NoAnswer e \<Rightarrow> ([signed], Inl e, g)
                   | BadFormat \<Rightarrow> ([signed], Inl ''Handshake failed: invalid message format'', g)
                   | OtherAnswer \<Rightarrow> ([signed], Inr fs, g)
                   | PublicKeyAnswer asymmetric_value symmetric_value \<Rightarrow>
                       if length asymmetric_value = 32 then
                         (case handshake_decode (hs_box_open H) symmetric_value asymmetric_value (snd (hs_box_keys H)) of
                            Inl _ \<Rightarrow> ([signed], Inl ''Handshake failed'', g)
                          | Inr key \<Rightarrow> ([signed], Inr (set_key key fs), g))
                       else if asymmetric_value = [] then
                         ([signed], Inr fs, g\<lparr>rz_world := set_key_confirmed (mc_crypto M) False (rz_world g)\<rparr>)
                       else ([signed], Inl ''Handshake failed: invalid public sign key length from peer'', g)))
        else ([], Inr fs, g))"

definition create_relay_connection ::
    "machine \<Rightarrow> handshake \<Rightarrow> string \<Rightarrow> string \<Rightarrow> bool \<Rightarrow> handshake_answer \<Rightarrow> rz_globals \<Rightarrow>
     stream_out list \<times> (string, framed_stream) rust_result \<times> rz_globals" where
  "create_relay_connection M H licence_key session secure ans g =
     (if \<not> hs_connected H then ([], Inl ''connect'', g)
      else if \<not> hs_sent H then ([], Inl ''send'', g)
      else (case create_tcp_connection M H secure ans framed_stream_from g of
              (outs, r, g) \<Rightarrow> (RequestRelayOut licence_key session # outs, r, g)))"

text \<open>\<open>accept_connection\<close>: nothing happens if no peer connects in time.\<close>

definition accept_connection ::
    "machine \<Rightarrow> handshake \<Rightarrow> bool \<Rightarrow> handshake_answer \<Rightarrow> rz_globals \<Rightarrow>
     stream_out list \<times> (string, framed_stream) rust_result option \<times> rz_globals" where
  "accept_connection M H secure ans g =
     (if \<not> hs_connected H then ([], None, g)
      else (case create_tcp_connection M H secure ans framed_stream_from g of (outs, r, g) \<Rightarrow> (outs, Some r, g)))"

section \<open>The direct server\<close>

definition get_direct_port :: "world \<Rightarrow> int" where
  "get_direct_port w =
     (let port = (case parse_signed (2 ^ 31) (config_get_option ''direct-access-port'' w) of Some p \<Rightarrow> p | None \<Rightarrow> 0)
      in if port \<le> 0 then RENDEZVOUS_PORT + 2 else port)"

definition direct_disabled :: "world \<Rightarrow> bool" where
  "direct_disabled w \<longleftrightarrow> \<not> option2bool ''direct-server'' (config_get_option ''direct-server'' w)
     \<or> option2bool ''stop-service'' (config_get_option ''stop-service'' w)"

text \<open>
  An iteration of \<open>direct_server\<close>: \<open>dl\<close> is the port that is listened on, \<open>port\<close> the last port tried; \<open>listen_ok\<close> tells whether
  the port can be bound, \<open>incoming\<close> the peer that connects within the second. After a failure the
  loop waits until the port option changes. The result has the peer that is served.
\<close>

definition direct_iter :: "world \<Rightarrow> bool \<Rightarrow> socket_addr option \<Rightarrow> bool \<times> int \<Rightarrow> (bool \<times> int) \<times> (socket_addr \<times> bool) option" where
  "direct_iter w listen_ok incoming dl =
     (case dl of (listening, port) \<Rightarrow>
        let disabled = direct_disabled w;
            (listening, port) = (if \<not> disabled \<and> \<not> listening then (listen_ok, get_direct_port w) else (listening, port))
        in if listening then
             if disabled \<or> port \<noteq> get_direct_port w then ((False, port), None)
             else ((True, port), map_option (\<lambda>a. (a, False)) incoming)
           else ((False, port), None))"

end
