(* ===== verification/Rendezvous_Proofs.thy ===== *)
theory Rendezvous_Proofs
  imports Rendezvous
begin

text \<open>
  Proofs about the rendezvous mediator: the pace of the registrations over UDP, the change of the
  id when the server reports a mismatch, and the connections an incoming request leads to.
\<close>

section \<open>Runs of the UDP loop\<close>

text \<open>
  \<open>udp_reach checks M now rz s log\<close>: the loop is in the state \<open>s\<close> at the time \<open>now\<close>, and the timer made the
  registration attempts \<open>log\<close>, the last one first: when, whether it was the turn of this mediator (no mismatch
  of another server was being solved), and the messages it sent. The global state is arbitrary in each
  step, as other tasks change it.
\<close>

definition own_turn :: "mediator \<Rightarrow> rz_globals \<Rightarrow> bool" where
  "own_turn rz g \<longleftrightarrow> SOLVING_PK_MISMATCH g = [] \<or> SOLVING_PK_MISMATCH g = rz_host rz"

inductive udp_reach ::
    "bool \<Rightarrow> machine \<Rightarrow> nat \<Rightarrow> mediator \<Rightarrow> udp_state \<Rightarrow> (nat \<times> bool \<times> rz_out list) list \<Rightarrow> bool" for checks M where
  start: "udp_reach checks M now (mediator_new ipv4 host) (udp_init now) []"
| resp: "udp_reach checks M now rz s log \<Longrightarrow> now \<le> now' \<Longrightarrow> (\<nexists>p r. ev = UdpTick p r) \<Longrightarrow>
     udp_step checks M ev send_ok hosts now' rz s g = Some (Inr (outs, tasks, rz', s', g')) \<Longrightarrow>
     udp_reach checks M now' rz' s' log"
| tick: "udp_reach checks M now rz s log \<Longrightarrow> now \<le> now' \<Longrightarrow>
     udp_tick M public rebind send_ok hosts now' rz s g = Inr (outs, rz', s', g') \<Longrightarrow>
     udp_reach checks M now' rz' s'
       (if last_register_sent s' = last_register_sent s then log else (now', own_turn rz g, outs) # log)"

definition paced :: "nat list \<Rightarrow> bool" where
  "paced ts \<longleftrightarrow> (\<forall>i. Suc i < length ts \<longrightarrow> ts ! Suc i + 3000000 \<le> ts ! i)"

definition udp_inv :: "nat \<Rightarrow> udp_state \<Rightarrow> nat list \<Rightarrow> bool" where
  "udp_inv now s sent \<longleftrightarrow> paced sent \<and> MIN_REG_TIMEOUT \<le> reg_timeout s \<and> reg_timeout s \<le> MAX_REG_TIMEOUT
     \<and> 3000 dvd reg_timeout s \<and> 0 \<le> ema_latency s \<and> ema_latency s \<le> 1000000
     \<and> (\<forall>x. last_register_sent s = Some x \<longrightarrow> x \<le> now \<and> sent \<noteq> [] \<and> hd sent = x)
     \<and> (last_register_sent s = None \<longrightarrow> sent \<noteq> [] \<longrightarrow> (\<exists>r. last_register_resp s = Some r \<and> hd sent \<le> r \<and> r \<le> now))
     \<and> (sent \<noteq> [] \<longrightarrow> hd sent \<le> now)"

lemma paced_Cons: "paced ts \<Longrightarrow> (ts \<noteq> [] \<Longrightarrow> hd ts + 3000000 \<le> t) \<Longrightarrow> paced (t # ts)"
  by (auto simp: paced_def nth_Cons hd_conv_nth split: nat.splits)

lemma paced_Nil: "paced []"
  by (simp add: paced_def)

lemma udp_inv_later: "udp_inv now s sent \<Longrightarrow> now \<le> now' \<Longrightarrow> udp_inv now' s sent"
  by (force simp: udp_inv_def)

lemma ema_bounds:
  fixes l e :: int
  assumes "0 \<le> l" "l \<le> 1000000" "0 \<le> e" "e \<le> 1000000"
  shows "0 \<le> l div 30 + e * 29 div 30" "l div 30 + e * 29 div 30 \<le> 1000000"
proof -
  show "0 \<le> l div 30 + e * 29 div 30" using assms by simp
  show "l div 30 + e * 29 div 30 \<le> 1000000" using assms by linarith
qed

lemma update_latency_inv:
  assumes "udp_inv now s sent" "update_latency_udp M hosts host now (s, g) = (s', g')"
  shows "udp_inv now s' sent"
proof -
  let ?s = "s\<lparr>last_register_resp := Some now, fails := 0, reg_timeout := MIN_REG_TIMEOUT, last_register_sent := None\<rparr>"
  let ?l = "case last_register_sent s of Some x \<Rightarrow> int (now - x) | None \<Rightarrow> 0"
  have base: "udp_inv now (?s\<lparr>ema_latency := e, old_latency := o'\<rparr>) sent" if "0 \<le> e" "e \<le> 1000000" for e o'
    using assms(1) that by (auto simp: udp_inv_def MIN_REG_TIMEOUT_def MAX_REG_TIMEOUT_def)
  have e: "0 \<le> ema_latency s" "ema_latency s \<le> 1000000" using assms(1) by (auto simp: udp_inv_def)
  have "\<exists>e o'. s' = ?s\<lparr>ema_latency := e, old_latency := o'\<rparr> \<and> 0 \<le> e \<and> e \<le> 1000000"
  proof (cases "?l > 1000000")
    case True
    then have "s' = ?s" using assms(2) by (simp add: update_latency_udp_def Let_def)
    then show ?thesis using e by (intro exI [of _ "ema_latency s"] exI [of _ "old_latency s"]) simp
  next
    case False
    have l0: "0 \<le> ?l" by (simp split: option.splits)
    let ?e = "if ema_latency s = 0 then ?l else ?l div 30 + ema_latency s * 29 div 30"
    have "0 \<le> ?e \<and> ?e \<le> 1000000" using False l0 e ema_bounds [OF l0 _ e] by auto
    moreover have "\<exists>o'. s' = ?s\<lparr>ema_latency := ?e, old_latency := o'\<rparr>"
      using assms(2) False l0 unfolding update_latency_udp_def Let_def
      by (cases s) (auto split: if_splits)
    ultimately show ?thesis by blast
  qed
  then show ?thesis using base by blast
qed

lemma handle_resp_inv:
  assumes "udp_inv now s sent"
    and "handle_resp checks M rnd (update_latency_udp M hosts host now) msg rz (s, g) = Some (outs, tasks, rz', s', g')"
  shows "udp_inv now s' sent"
proof -
  obtain s1 g1 where u: "update_latency_udp M hosts host now (s, g) = (s1, g1)" by fastforce
  have "s' = s \<or> s' = s1"
    using assms(2) u by (auto simp: handle_resp_def Let_def split: rz_msg.splits prod.splits if_splits option.splits)
  then show ?thesis using assms(1) update_latency_inv [OF assms(1) u] by blast
qed

section \<open>Ticks\<close>

lemma count_failure_frame:
  "count_failure M rebind hosts now rz s g = Inr (rz', s', g') \<Longrightarrow>
   last_register_resp s' = last_register_resp s \<and> ema_latency s' = ema_latency s \<and> reg_timeout s' = reg_timeout s
   \<and> own_turn rz' g' = own_turn rz g"
  by (auto simp: count_failure_def set_latency_def own_turn_def Let_def split: if_splits sum.splits option.splits)

lemma register_peer_sends: "register_peer M rz g = (outs, g') \<Longrightarrow> length outs = (if own_turn rz g then 1 else 0)"
  by (auto simp: register_peer_def register_pk_def own_turn_def split: if_splits prod.splits)

lemma udp_tick_cases:
  assumes "udp_tick M public rebind send_ok hosts now rz s g = Inr (outs, rz', s', g')"
  shows "last_register_resp s' = last_register_resp s \<and> ema_latency s' = ema_latency s
    \<and> reg_timeout s' = (if public \<and> is_timeout now s \<and> reg_timeout s < MAX_REG_TIMEOUT then reg_timeout s + MIN_REG_TIMEOUT else reg_timeout s)
    \<and> last_register_sent s' = (if is_timeout now s \<or> last_register_sent s = None \<and> is_expired now s then Some now else last_register_sent s)
    \<and> length outs = (if (is_timeout now s \<or> last_register_sent s = None \<and> is_expired now s) \<and> own_turn rz g then 1 else 0)"
proof -
  define s1 where "s1 = (if public \<and> is_timeout now s \<and> reg_timeout s < MAX_REG_TIMEOUT then s\<lparr>reg_timeout := reg_timeout s + MIN_REG_TIMEOUT\<rparr> else s)"
  have s1: "last_register_resp s1 = last_register_resp s" "ema_latency s1 = ema_latency s" "last_register_sent s1 = last_register_sent s"
    by (simp_all add: s1_def)
  have "\<not> SHOULD_EXIT g" using assms by (auto simp: udp_tick_def)
  then have t: "(if is_timeout now s \<or> last_register_sent s1 = None \<and> is_expired now s then
             (case (if is_timeout now s then count_failure M rebind hosts now rz s1 g else Inr (rz, s1, g)) of
                Inl e \<Rightarrow> Inl e
              | Inr (rz, s, g) \<Rightarrow>
                  (case register_peer M rz g of (outs, g) \<Rightarrow>
                     if outs \<noteq> [] \<and> \<not> send_ok then Inl (Failed ''send'')
                     else Inr (outs, rz, s\<lparr>last_register_sent := Some now\<rparr>, g)))
           else Inr ([], rz, s1, g)) = Inr (outs, rz', s', g')"
    using assms unfolding udp_tick_def Let_def s1_def [symmetric] by (simp only: if_False)
  show ?thesis
  proof (cases "is_timeout now s \<or> last_register_sent s1 = None \<and> is_expired now s")
    case True
    then obtain rz2 s2 g2 where c: "(if is_timeout now s then count_failure M rebind hosts now rz s1 g else Inr (rz, s1, g)) = Inr (rz2, s2, g2)"
      and s': "s' = s2\<lparr>last_register_sent := Some now\<rparr>" and r: "register_peer M rz2 g2 = (outs, g')"
      using t by (auto split: sum.splits prod.splits if_splits)
    have "last_register_resp s2 = last_register_resp s1 \<and> ema_latency s2 = ema_latency s1 \<and> reg_timeout s2 = reg_timeout s1
        \<and> own_turn rz2 g2 = own_turn rz g"
      using c count_failure_frame by (auto split: if_splits)
    then show ?thesis using s' True s1 register_peer_sends [OF r] by (simp add: s1_def)
  next
    case False
    then have "s' = s1" "\<not> is_timeout now s" "outs = []" using t by auto
    then show ?thesis using False s1 by (auto simp: s1_def)
  qed
qed

lemma udp_tick_inv:
  assumes "udp_inv now s sent" "udp_tick M public rebind send_ok hosts now rz s g = Inr (outs, rz', s', g')"
  shows "udp_inv now s' (if last_register_sent s' = last_register_sent s then sent else now # sent)"
proof -
  note t = udp_tick_cases [OF assms(2)]
  have rt: "MIN_REG_TIMEOUT \<le> reg_timeout s' \<and> reg_timeout s' \<le> MAX_REG_TIMEOUT \<and> 3000 dvd reg_timeout s'"
  proof -
    obtain k where k: "reg_timeout s = 3000 * k" using assms(1) by (auto simp: udp_inv_def)
    have "3000 dvd reg_timeout s + 3000" using k by simp
    then show ?thesis
      using t assms(1) k by (auto simp: udp_inv_def MIN_REG_TIMEOUT_def MAX_REG_TIMEOUT_def)
  qed
  show ?thesis
  proof (cases "last_register_sent s' = last_register_sent s")
    case True
    then show ?thesis using assms(1) t rt by (auto simp: udp_inv_def)
  next
    case False
    then have a: "is_timeout now s \<or> last_register_sent s = None \<and> is_expired now s" and n: "last_register_sent s' = Some now"
      using t by (auto split: if_splits)
    have "hd sent + 3000000 \<le> now" if ne: "sent \<noteq> []"
    proof (cases "last_register_sent s")
      case (Some x)
      then have "elapsed_ms now x \<ge> 3000" "hd sent = x"
        using a assms(1) by (auto simp: is_timeout_def udp_inv_def MIN_REG_TIMEOUT_def)
      then show ?thesis by (simp add: elapsed_ms_def)
    next
      case None
      then obtain r where "last_register_resp s = Some r" "hd sent \<le> r" using assms(1) ne by (auto simp: udp_inv_def)
      moreover have "is_expired now s" using a None by (simp add: is_timeout_def)
      ultimately show ?thesis by (simp add: is_expired_def elapsed_ms_def REG_INTERVAL_def)
    qed
    then have "paced (now # sent)" using assms(1) by (intro paced_Cons) (simp_all add: udp_inv_def)
    then show ?thesis using False n rt t assms(1) by (auto simp: udp_inv_def)
  qed
qed

lemma udp_reach_inv: "udp_reach checks M now rz s log \<Longrightarrow> udp_inv now s (map fst log)"
proof (induction rule: udp_reach.induct)
  case (start now ipv4 host)
  show ?case by (simp add: udp_inv_def udp_init_def paced_Nil MIN_REG_TIMEOUT_def MAX_REG_TIMEOUT_def)
next
  case (resp now rz s log now' ev send_ok hosts g outs tasks rz' s' g')
  have i: "udp_inv now' s (map fst log)" using resp udp_inv_later by blast
  show ?case
  proof (cases ev)
    case (UdpMsg msg rnd)
    then obtain o' ts rz1 g1 where "handle_resp checks M rnd (update_latency_udp M hosts (rz_host rz) now') msg rz (s, g) = Some (o', ts, rz1, s', g1)"
      using resp(4) by (auto simp: udp_step_def split: option.splits if_splits)
    then show ?thesis by (rule handle_resp_inv [OF i])
  qed (use resp i in \<open>auto simp: udp_step_def\<close>)
next
  case (tick now rz s log now' public rebind send_ok hosts g outs rz' s' g')
  then have "udp_inv now' s (map fst log)" using udp_inv_later by blast
  from udp_tick_inv [OF this tick(3)] show ?case by (simp split: if_splits)
qed

text \<open>An attempt sends exactly one message when it is the turn of the mediator, and none otherwise.\<close>

lemma udp_log_sends:
  "udp_reach checks M now rz s log \<Longrightarrow> (t, own, outs) \<in> set log \<Longrightarrow> length outs = (if own then 1 else 0)"
proof (induction arbitrary: t own outs rule: udp_reach.induct)
  case (tick now rz s log now' public rebind send_ok hosts g outs' rz' s' g')
  show ?case
  proof (cases "last_register_sent s' = last_register_sent s")
    case True
    then show ?thesis using tick.IH tick.prems by simp
  next
    case False
    then have "length outs' = (if own_turn rz g then 1 else 0)" using udp_tick_cases [OF tick(3)] by presburger
    moreover have "(t, own, outs) = (now', own_turn rz g, outs') \<or> (t, own, outs) \<in> set log" using tick.prems False by auto
    ultimately show ?thesis using tick.IH by blast
  qed
qed simp_all

section \<open>The id of the host\<close>

definition host_id :: "rz_globals \<Rightarrow> string" where
  "host_id g = cfg_id (CONFIG (rz_world g))"

lemma own_id_known: "host_id g \<noteq> [] \<Longrightarrow> own_id M g = (host_id g, g)"
  by (simp add: own_id_def get_id_def host_id_def Let_def)

lemma set_latency_CONFIG: "CONFIG (rz_world (set_latency M hosts host l g)) = CONFIG (rz_world g)
    \<and> SOLVING_PK_MISMATCH (set_latency M hosts host l g) = SOLVING_PK_MISMATCH g"
  by (simp add: set_latency_def update_latency_def Let_def update_config2_frame)

lemma update_latency_udp_CONFIG:
  "update_latency_udp M hosts host now (s, g) = (s', g') \<Longrightarrow>
   CONFIG (rz_world g') = CONFIG (rz_world g) \<and> SOLVING_PK_MISMATCH g' = SOLVING_PK_MISMATCH g"
  by (auto simp: update_latency_udp_def Let_def set_latency_CONFIG split: if_splits)


lemma register_pk_known: "host_id g \<noteq> [] \<Longrightarrow>
    register_pk M g = ([OutRegisterPk (host_id g) (uuid (mc_crypto M)) (mc_public_key M) (no_register_device (rz_world g))], g)"
  by (simp add: register_pk_def own_id_known)

lemma set_id_CONFIG: "CONFIG (set_id C i w) = (CONFIG w)\<lparr>cfg_id := i\<rparr>"
  by (simp add: set_id_def)

lemma set_key_confirmed_CONFIG:
  "key_confirmed (CONFIG (set_key_confirmed C v w)) = v \<and> cfg_id (CONFIG (set_key_confirmed C v w)) = cfg_id (CONFIG w)"
  by (simp add: set_key_confirmed_def Let_def)

lemma show_nat_not_Nil: "show_nat n \<noteq> []"
  by (subst show_nat.simps) simp

lemma mismatch_solved:
  assumes "host_id g \<noteq> []" "SOLVING_PK_MISMATCH g = [] \<or> SOLVING_PK_MISMATCH g = rz_host rz"
    and "handle_uuid_mismatch M rz rnd g = (outs, g')"
  shows "host_id g' = show_nat rnd \<and> SOLVING_PK_MISMATCH g' = rz_host rz \<and> \<not> key_confirmed (CONFIG (rz_world g'))
    \<and> (\<exists>n. outs = [OutRegisterPk (show_nat rnd) (uuid (mc_crypto M)) (mc_public_key M) n])"
proof -
  let ?C = "mc_crypto M"
  define g1 where "g1 = g\<lparr>rz_world := set_key_confirmed ?C False (rz_world g)\<rparr>"
  have "host_id g1 = host_id g" by (simp add: g1_def host_id_def set_key_confirmed_CONFIG)
  then have u: "update_id M rnd g1 = g1\<lparr>rz_world := set_id ?C (show_nat rnd) (rz_world g1)\<rparr>"
    using assms(1) by (simp add: update_id_def own_id_known)
  define g2 where "g2 = (update_id M rnd g1)\<lparr>SOLVING_PK_MISMATCH := rz_host rz\<rparr>"
  have g2: "host_id g2 = show_nat rnd" "\<not> key_confirmed (CONFIG (rz_world g2))" "SOLVING_PK_MISMATCH g2 = rz_host rz"
    unfolding g2_def u by (simp_all add: host_id_def set_id_CONFIG g1_def set_key_confirmed_CONFIG)
  have "register_pk M g2 = (outs, g')"
    using assms(2,3) by (simp add: handle_uuid_mismatch_def Let_def g1_def [symmetric] g2_def)
  then show ?thesis using g2 register_pk_known [of g2 M] show_nat_not_Nil by auto
qed

lemma resp_keeps_id:
  assumes "host_id g \<noteq> []" "\<And>k. msg \<noteq> RegisterPkResponse UuidMismatch k"
    and "\<And>s g s' g'. upd (s, g) = (s', g') \<Longrightarrow> CONFIG (rz_world g') = CONFIG (rz_world g) \<and> SOLVING_PK_MISMATCH g' = SOLVING_PK_MISMATCH g"
    and "handle_resp checks M rnd upd msg rz (s, g) = Some (outs, tasks, rz', s', g')"
  shows "host_id g' = host_id g"
proof -
  obtain s1 g1 where u: "upd (s, g) = (s1, g1)" by fastforce
  have i: "host_id g1 = host_id g" using assms(3) [OF u] by (simp add: host_id_def)
  have set: "host_id (g\<lparr>rz_world := config_set_option C k v (rz_world g)\<rparr>) = host_id g" for C k v and g :: rz_globals
    by (simp add: host_id_def config_set_option_def Let_def)
  show ?thesis
  proof (cases msg)
    case (RegisterPkResponse r k)
    then have "r \<noteq> UuidMismatch" using assms(2) by auto
    then show ?thesis
      using assms(4) RegisterPkResponse u i
      by (cases r) (auto simp: handle_resp_def Let_def host_id_def set_key_confirmed_CONFIG set_host_key_confirmed_def
          split: if_splits option.splits)
  next
    case (ConfigureUpdate ss n)
    then show ?thesis
      using assms(4) set by (auto simp: handle_resp_def Let_def host_id_def rz_restart_def set_serial_def)
  next
    case (RegisterPeerResponse b)
    then show ?thesis using assms(1,4) u i register_pk_known [of g1 M] by (auto simp: handle_resp_def split: if_splits)
  qed (use assms(4) in \<open>auto simp: handle_resp_def\<close>)
qed

section \<open>Connections\<close>

text \<open>Connections other than the one over IPv6, which runs beside.\<close>

fun starts_connection :: "net_action \<Rightarrow> bool" where
  "starts_connection (Relay _ _ _ _ _ _) = True"
| "starts_connection (Accept _ _ _) = True"
| "starts_connection (UdpListen _ _ _) = True"
| "starts_connection _ = False"

fun action_secure :: "net_action \<Rightarrow> bool" where
  "action_secure (Relay _ _ _ secure _ _) = secure"
| "action_secure (Accept _ secure _) = secure"
| "action_secure _ = True"

fun only_relay :: "net_action \<Rightarrow> bool" where
  "only_relay (SendRelayResponse _ _ _) = True"
| "only_relay (Relay _ _ _ secure _ _) = secure"
| "only_relay _ = False"

lemma create_relay_actions:
  assumes "create_relay M nw rz sa pa rs i True initiate v6 control g = (acts, err, g')"
  shows "list_all only_relay acts \<and> list_all action_secure acts
    \<and> length (filter starts_connection acts) = (if err = None then 1 else 0) \<and> (nw_connect nw \<longrightarrow> err = None)"
  using assms by (auto simp: create_relay_def split: if_splits prod.splits)

lemma punch_relayed:
  assumes "use_ws (rz_world g) \<or> is_proxy (rz_world g)"
    and "handle_punch_hole checks M nw now rz ph g = Some (acts, err, g')"
  shows "list_all only_relay acts"
proof -
  obtain pa where pa: "addr_decode checks (ph_socket_addr ph) = Some pa"
    using assms(2) by (auto simp: handle_punch_hole_def split: option.splits)
  show ?thesis
  proof (cases "is_duplicate pa now (LAST_MSG g)")
    case True
    then show ?thesis using assms(2) pa by (simp add: handle_punch_hole_def)
  next
    case False
    then obtain v6 where v6: "addr_decode checks (ph_socket_addr_v6 ph) = Some v6"
      using assms(2) pa by (cases "addr_decode checks (ph_socket_addr_v6 ph)") (auto simp: handle_punch_hole_def Let_def)
    from assms(1) have "create_relay M nw rz (ph_socket_addr ph) pa (get_relay_server rz (ph_relay_server ph) (rz_world g)) (nw_uuid nw)
        True True [] (ph_control ph) (g\<lparr>LAST_MSG := (pa, now)\<rparr>) = (acts, err, g')"
      using assms(2) pa v6 False by (elim disjE) (simp_all add: handle_punch_hole_def Let_def split: prod.splits)
    then show ?thesis using create_relay_actions by blast
  qed
qed

lemma intranet_relayed:
  assumes "use_ws (rz_world g) \<or> is_proxy (rz_world g)"
    and "handle_intranet checks M nw now rz fla g = Some (acts, err, g')"
  shows "list_all only_relay acts"
proof -
  obtain pa where pa: "addr_decode checks (fla_socket_addr fla) = Some pa"
    using assms(2) by (auto simp: handle_intranet_def split: option.splits)
  show ?thesis
  proof (cases "is_duplicate pa now (LAST_MSG g)")
    case True
    then show ?thesis using assms(2) pa by (simp add: handle_intranet_def)
  next
    case False
    then obtain v6 where v6: "addr_decode checks (fla_socket_addr_v6 fla) = Some v6"
      using assms(2) pa by (cases "addr_decode checks (fla_socket_addr_v6 fla)") (auto simp: handle_intranet_def Let_def)
    from assms(1) have "create_relay M nw rz (fla_socket_addr fla) pa (get_relay_server rz (fla_relay_server fla) (rz_world g)) (nw_uuid nw)
        True True [] (fla_control fla) (g\<lparr>LAST_MSG := (pa, now)\<rparr>) = (acts, err, g')"
      using assms(2) pa v6 False by (elim disjE) (simp_all add: handle_intranet_def Let_def split: prod.splits)
    then show ?thesis using create_relay_actions by blast
  qed
qed

text \<open>What a punch hole request starts besides the connection over IPv6.\<close>

lemma start_ipv6_actions:
  "start_ipv6 nw a b c = (v6, acts) \<Longrightarrow> list_all action_secure acts \<and> length (filter starts_connection acts) \<le> 1"
  by (auto simp: start_ipv6_def split: option.splits)

lemma punch_connects:
  assumes "handle_punch_hole checks M nw now rz ph g = Some (acts, err, g')"
    and "addr_decode checks (ph_socket_addr ph) = Some pa" "\<not> is_duplicate pa now (LAST_MSG g)"
  shows "\<exists>acts6 acts'. acts = acts6 @ acts' \<and> length (filter starts_connection acts6) \<le> 1
    \<and> list_all action_secure acts \<and> length (filter starts_connection acts') = (if err = None then 1 else 0)"
proof -
  obtain v6 where v6: "addr_decode checks (ph_socket_addr_v6 ph) = Some v6"
    using assms by (cases "addr_decode checks (ph_socket_addr_v6 ph)") (auto simp: handle_punch_hole_def Let_def)
  define w where "w = rz_world g"
  define g1 where "g1 = g\<lparr>LAST_MSG := (pa, now)\<rparr>"
  let ?relay = "use_ws w \<or> is_proxy w \<or> ph_force_relay ph"
  obtain s6 acts6 where i6: "(if port_of_addr v6 > 0 \<and> \<not> ?relay then start_ipv6 nw v6 pa (ph_control ph) else ([], [])) = (s6, acts6)"
    by fastforce
  then have a6: "list_all action_secure acts6" "length (filter starts_connection acts6) \<le> 1"
    using start_ipv6_actions [of nw v6 pa "ph_control ph" s6 acts6] by (auto split: if_splits)
  let ?rs = "get_relay_server rz (ph_relay_server ph) w"
  let ?r = "ph_symmetric ph \<or> nat_type (CONFIG2 w) = NAT_SYMMETRIC \<or> ?relay \<or> is_disable_tcp_listen w \<and> ph_udp_port ph \<le> 0"
  have h: "handle_punch_hole checks M nw now rz ph g =
     (if ?r then (case create_relay M nw rz (ph_socket_addr ph) pa ?rs (nw_uuid nw) True True s6 (ph_control ph) g1 of
                    (acts', err, g) \<Rightarrow> Some (acts6 @ acts', err, g))
      else (case own_id M g1 of (i, g) \<Rightarrow>
              let sent = SendPunchHoleSent (ph_socket_addr ph) i ?rs s6 in
              if ph_udp_port ph > 0 then
                let peer_addr = set_addr_port (word_of_int (ph_udp_port ph)) pa in
                if nw_udp nw then Some (acts6 @ [sent, UdpListen peer_addr peer_addr (ph_control ph)], None, g)
                else Some (acts6, Some ''udp'', g)
              else if nw_connect nw then Some (acts6 @ [PunchTcp pa, sent, Accept pa True (ph_control ph)], None, g)
              else Some (acts6, Some ''connect'', g)))"
    using assms(2,3) v6 i6 by (simp add: handle_punch_hole_def Let_def w_def g1_def split: prod.splits)
  show ?thesis
  proof (cases ?r)
    case True
    then obtain acts' where "create_relay M nw rz (ph_socket_addr ph) pa ?rs (nw_uuid nw) True True s6 (ph_control ph) g1 = (acts', err, g')"
      and "acts = acts6 @ acts'" using assms(1) h by (auto split: prod.splits)
    then show ?thesis using create_relay_actions a6 by fastforce
  next
    case False
    then have "\<exists>acts'. acts = acts6 @ acts' \<and> list_all action_secure acts'
        \<and> length (filter starts_connection acts') = (if err = None then 1 else 0)"
      using assms(1) h by (auto simp: Let_def split: prod.splits if_splits)
    then show ?thesis using a6 by (metis list_all_append)
  qed
qed

lemma sint_small: "n < 2 ^ 31 \<Longrightarrow> sint (word_of_nat n :: u32) = int n"
  by (simp add: sint_uint unsigned_of_nat take_bit_nat_eq_self signed_take_bit_int_eq_self)

lemma scast_small: "n < 2 ^ 31 \<Longrightarrow> (scast (word_of_nat n :: u32) :: u64) = word_of_nat n"
proof -
  assume "n < 2 ^ 31"
  then have "(word_of_int (sint (word_of_nat n :: u32)) :: u64) = word_of_int (int n)" by (simp only: sint_small)
  then show ?thesis by simp
qed

section \<open>Properties\<close>

text \<open>
  The timer of the UDP loop makes its registration attempts at least three seconds apart,
  whatever the server sends and whenever; the timeout stays between 3 and 30 seconds and the
  averaged latency between zero and one second.
\<close>

theorem registration_paced:
  assumes "udp_reach checks M now rz s log"
  shows "(\<forall>i. Suc i < length log \<longrightarrow> fst (log ! Suc i) + 3000000 \<le> fst (log ! i))
    \<and> 3000 \<le> reg_timeout s \<and> reg_timeout s \<le> 30000 \<and> 0 \<le> ema_latency s \<and> ema_latency s \<le> 1000000"
  using udp_reach_inv [OF assms] by (simp add: udp_inv_def paced_def MIN_REG_TIMEOUT_def MAX_REG_TIMEOUT_def)

lemma tick_recent:
  assumes "udp_reach checks M now rz s log" "now \<le> now'"
    and "udp_tick M public rebind send_ok hosts now' rz s g = Inr (outs, rz', s', g')"
  shows "(\<exists>x. last_register_sent s' = Some x \<and> elapsed_ms now' x < 30000)
    \<or> last_register_sent s' = None \<and> (\<exists>r. last_register_resp s' = Some r \<and> elapsed_ms now' r < 15000)"
proof -
  note t = udp_tick_cases [OF assms(3)]
  have rt: "reg_timeout s \<le> 30000" using udp_reach_inv [OF assms(1)] by (simp add: udp_inv_def MAX_REG_TIMEOUT_def)
  show ?thesis
  proof (cases "is_timeout now' s \<or> last_register_sent s = None \<and> is_expired now' s")
    case True
    then show ?thesis using t by (simp add: elapsed_ms_def)
  next
    case False
    show ?thesis
    proof (cases "last_register_sent s")
      case (Some x)
      then have "elapsed_ms now' x < reg_timeout s" using False by (simp add: is_timeout_def)
      then show ?thesis using t False Some rt by simp
    next
      case None
      then have "\<not> is_expired now' s" using False by simp
      then show ?thesis
        using t False None by (auto simp: is_expired_def REG_INTERVAL_def split: option.splits)
    qed
  qed
qed

text \<open>
  C26. Registration is kept up: after a tick of the timer that does not end the loop, the last answer of the
  server is less than 15 seconds old, or the timer made an attempt less than 30 seconds ago, which sent exactly
  one registration message (of the key or of the peer) if no mismatch of another server was being solved then,
  and nothing otherwise.
\<close>

theorem registration_kept_up:
  assumes "udp_reach checks M now rz s log" "now \<le> now'"
    and "udp_tick M public rebind send_ok hosts now' rz s g = Inr (outs, rz', s', g')"
    and "log' = (if last_register_sent s' = last_register_sent s then log else (now', own_turn rz g, outs) # log)"
  shows "(\<exists>r. last_register_resp s' = Some r \<and> elapsed_ms now' r < 15000)
    \<or> (\<exists>x own sent. (x, own, sent) \<in> set log' \<and> elapsed_ms now' x < 30000 \<and> length sent = (if own then 1 else 0))"
proof -
  have reach: "udp_reach checks M now' rz' s' log'"
    unfolding assms(4) by (rule udp_reach.tick [OF assms(1-3)])
  show ?thesis
    using tick_recent [OF assms(1-3)]
  proof
    assume "\<exists>x. last_register_sent s' = Some x \<and> elapsed_ms now' x < 30000"
    then obtain x where x: "last_register_sent s' = Some x" "elapsed_ms now' x < 30000" by blast
    then have "log' \<noteq> [] \<and> fst (hd log') = x"
      using udp_reach_inv [OF reach] by (auto simp: udp_inv_def hd_map)
    then have "(x, snd (hd log')) \<in> set log'" using hd_in_set [of log'] by (metis prod.collapse)
    then obtain own sent where "(x, own, sent) \<in> set log'" by (metis prod.collapse)
    with x(2) udp_log_sends [OF reach] show ?thesis by blast
  qed blast
qed

text \<open>
  An answer of a server changes the id of the host only if it reports a mismatch, and no
  other server's mismatch is being solved. Then the host registers the new id with its key, its
  key counts as unconfirmed, and no other mediator changes the id or registers until the
  mismatch is settled.
\<close>

theorem id_change_exclusive:
  assumes "host_id g \<noteq> []" "host_id g' \<noteq> host_id g"
    and "handle_resp checks M rnd (update_latency_udp M hosts (rz_host rz) now) msg rz (s, g) = Some (outs, tasks, rz', s', g')"
  shows "(\<exists>k. msg = RegisterPkResponse UuidMismatch k) \<and> (SOLVING_PK_MISMATCH g = [] \<or> SOLVING_PK_MISMATCH g = rz_host rz)
    \<and> host_id g' = show_nat rnd \<and> \<not> key_confirmed (CONFIG (rz_world g'))
    \<and> (\<exists>n. outs = [OutRegisterPk (show_nat rnd) (uuid (mc_crypto M)) (mc_public_key M) n])
    \<and> (\<forall>rz2 rnd2. rz_host rz \<noteq> [] \<longrightarrow> rz_host rz2 \<noteq> rz_host rz \<longrightarrow>
         handle_uuid_mismatch M rz2 rnd2 g' = ([], g') \<and> register_peer M rz2 g' = ([], g'))"
proof -
  obtain k where k: "msg = RegisterPkResponse UuidMismatch k"
  proof -
    have "\<not> (\<forall>k. msg \<noteq> RegisterPkResponse UuidMismatch k)"
      using resp_keeps_id [OF assms(1), of msg "update_latency_udp M hosts (rz_host rz) now" checks M rnd rz s outs tasks rz' s' g']
        update_latency_udp_CONFIG [of M hosts "rz_host rz" now] assms(2,3) by blast
    then show ?thesis using that by blast
  qed
  obtain s1 g1 where u: "update_latency_udp M hosts (rz_host rz) now (s, g) = (s1, g1)" by fastforce
  have g1: "host_id g1 = host_id g" "SOLVING_PK_MISMATCH g1 = SOLVING_PK_MISMATCH g"
    using update_latency_udp_CONFIG [OF u] by (simp_all add: host_id_def)
  have h: "handle_uuid_mismatch M rz rnd g1 = (outs, g')"
    using assms(3) k u by (auto simp: handle_resp_def split: prod.splits if_splits option.splits)
  have sol: "SOLVING_PK_MISMATCH g1 = [] \<or> SOLVING_PK_MISMATCH g1 = rz_host rz"
    using h assms(2) g1(1) by (auto simp: handle_uuid_mismatch_def split: if_splits)
  note m = mismatch_solved [OF _ sol h, unfolded g1(1), OF assms(1)]
  have "handle_uuid_mismatch M rz2 rnd2 g' = ([], g') \<and> register_peer M rz2 g' = ([], g')"
    if "rz_host rz \<noteq> []" "rz_host rz2 \<noteq> rz_host rz" for rz2 rnd2
    using that m by (simp add: handle_uuid_mismatch_def register_peer_def)
  then show ?thesis using k m sol g1(2) by auto
qed

text \<open>When the connection that is created is not encrypted although that was asked for.\<close>

lemma clear_connection:
  assumes "create_tcp_connection M H True ans fs g = (outs, Inr fs', g')" and "fs_key fs' = None"
  shows "length (fst (hs_key_pair H)) \<noteq> 64 \<or> length (snd (hs_key_pair H)) \<noteq> 32
    \<or> ans = OtherAnswer \<or> (\<exists>sym. ans = PublicKeyAnswer [] sym)"
  using assms by (auto simp: create_tcp_connection_def set_key_def Let_def
      split: prod.splits if_splits handshake_answer.splits sum.splits)

text \<open>
  C27. With a proxy or a web socket configured, a host never answers a request with a direct connection:
  registration goes over TCP, and a punch hole request or a request for the local address leads
  to nothing but connections over a relay that ask for encryption. If such a connection is created and its
  stream is not encrypted, then the key pair of the host has not the right lengths, or the peer answered the
  signed id with an empty key or with a message that is none of its keys.
\<close>

theorem proxy_never_bypassed:
  assumes "use_ws (rz_world g) \<or> is_proxy (rz_world g)"
    and "handle_punch_hole checks M nw now rz ph g = Some (acts, err, g1) \<or> handle_intranet checks M nw now rz fla g = Some (acts, err, g1)"
  shows "start_uses_tcp (rz_world g)
    \<and> list_all (\<lambda>a. case a of SendRelayResponse _ _ _ \<Rightarrow> True | Relay _ _ _ secure _ _ \<Rightarrow> secure | _ \<Rightarrow> False) acts
    \<and> (\<forall>rs session pa secure ipv4 control H licence ans g2 outs fs g3.
         Relay rs session pa secure ipv4 control \<in> set acts
           \<and> create_relay_connection M H licence session secure ans g2 = (outs, Inr fs, g3) \<and> fs_key fs = None \<longrightarrow>
         length (fst (hs_key_pair H)) \<noteq> 64 \<or> length (snd (hs_key_pair H)) \<noteq> 32
           \<or> ans = OtherAnswer \<or> (\<exists>sym. ans = PublicKeyAnswer [] sym))"
proof -
  have rel: "list_all only_relay acts" using assms punch_relayed intranet_relayed by blast
  then have "list_all (\<lambda>a. case a of SendRelayResponse _ _ _ \<Rightarrow> True | Relay _ _ _ secure _ _ \<Rightarrow> secure | _ \<Rightarrow> False) acts"
    by (rule list.pred_mono_strong) (auto split: net_action.splits)
  moreover have "length (fst (hs_key_pair H)) \<noteq> 64 \<or> length (snd (hs_key_pair H)) \<noteq> 32
      \<or> ans = OtherAnswer \<or> (\<exists>sym. ans = PublicKeyAnswer [] sym)"
    if r: "Relay rs session pa secure ipv4 control \<in> set acts"
      and c: "create_relay_connection M H licence session secure ans g2 = (outs, Inr fs, g3)" and k: "fs_key fs = None"
    for rs session pa secure ipv4 control H licence ans g2 outs fs g3
  proof -
    have "secure" using r rel by (auto simp: list_all_iff)
    with c obtain outs' where "create_tcp_connection M H True ans framed_stream_from g2 = (outs', Inr fs, g3)"
      by (auto simp: create_relay_connection_def split: if_splits prod.splits)
    from clear_connection [OF this k] show ?thesis .
  qed
  moreover have "start_uses_tcp (rz_world g)" using assms(1) by (auto simp: start_uses_tcp_def)
  ultimately show ?thesis by blast
qed

text \<open>
  A punch hole request that is not a duplicate starts exactly one connection, besides at most
  one over IPv6, or fails with an error; all ask for encryption. A duplicate within 100 ms starts
  nothing, and its time is recorded.
\<close>

theorem punch_hole_one_connection:
  assumes "handle_punch_hole checks M nw now rz ph g = Some (acts, err, g')"
    and "addr_decode checks (ph_socket_addr ph) = Some pa"
  shows "if is_duplicate pa now (LAST_MSG g) then acts = [] \<and> err = None \<and> g' = g\<lparr>LAST_MSG := (pa, now)\<rparr>
    else (\<exists>acts6 acts'. acts = acts6 @ acts' \<and> length (filter starts_connection acts6) \<le> 1 \<and> list_all action_secure acts
      \<and> length (filter starts_connection acts') = (if err = None then 1 else 0))"
proof (cases "is_duplicate pa now (LAST_MSG g)")
  case True
  then show ?thesis using assms by (auto simp: handle_punch_hole_def Let_def)
next
  case False
  then show ?thesis using punch_connects [OF assms False] by simp
qed

text \<open>
  The limit on the silence of a TCP connection is one and a half times the keep-alive interval of the server in
  both build modes as long as the interval is below 2147484 seconds. Beyond, a build with overflow
  checks panics when the answer arrives, and a release build takes a limit of hundreds of
  millions of years.
\<close>

theorem keep_alive_limits:
  "(0 < k \<and> k \<le> 2147483 \<longrightarrow>
      (\<exists>m. scale_keep_alive checks (word_of_nat k) = Some m \<and> keep_alive_limit checks m = Some (word_of_nat (1500 * k))))
   \<and> scale_keep_alive True 2147484 = None
   \<and> (\<exists>m l. scale_keep_alive False 2147484 = Some m \<and> keep_alive_limit False m = Some l \<and> unat l > 2 ^ 62)"
proof -
  have "\<exists>m. scale_keep_alive checks (word_of_nat k) = Some m \<and> keep_alive_limit checks m = Some (word_of_nat (1500 * k))"
    if k: "0 < k" "k \<le> 2147483"
  proof -
    have "scale_keep_alive checks (word_of_nat k) = Some (word_of_nat (1000 * k))"
      using k by (simp add: scale_keep_alive_def sint_small)
    moreover have "keep_alive_limit checks (word_of_nat (1000 * k)) = Some (word_of_nat (1500 * k))"
    proof -
      have c: "(scast (word_of_nat (1000 * k) :: u32) :: u64) = word_of_nat (1000 * k)"
        using k by (simp add: scast_small del: of_nat_mult)
      have u: "unat (word_of_nat (1000 * k) :: u64) = 1000 * k" "unat (word_of_nat (3000 * k) :: u64) = 3000 * k"
        using k by (simp_all add: unsigned_of_nat take_bit_nat_eq_self del: of_nat_mult)
      have "(word_of_nat (1000 * k) * 3 :: u64) = word_of_nat (3000 * k)" by simp
      moreover have "(word_of_nat (3000 * k) :: u64) div 2 = word_of_nat (1500 * k)"
        using u(2) k by (simp add: word_eq_iff_unsigned [where ?'a = nat] unat_div unsigned_of_nat take_bit_nat_eq_self del: of_nat_mult)
      ultimately show ?thesis using c u(1) k by (simp add: keep_alive_limit_def Let_def del: of_nat_mult)
    qed
    ultimately show ?thesis by blast
  qed
  moreover have "scale_keep_alive True 2147484 = None" "scale_keep_alive False 2147484 = Some 2147484000"
    by (simp_all add: scale_keep_alive_def)
  moreover have "keep_alive_limit False 2147484000 = Some 9223372033633550864"
    by (simp add: keep_alive_limit_def)
  ultimately show ?thesis by simp
qed


section \<open>Witnesses\<close>

definition demo_machine :: machine where
  "demo_machine = \<lparr>mc_crypto = plain_crypto, mc_hostname = None, mc_mac = None, mc_public_key = [1]\<rparr>"

definition demo_rz_globals :: rz_globals where
  "demo_rz_globals = \<lparr>SOLVING_PK_MISMATCH = [], LAST_MSG = (V4 (1, 1, 1, 1) 1, 0), LAST_RELAY_MSG = (V4 (1, 1, 1, 1) 1, 0),
     SHOULD_EXIT = False, MANUAL_RESTARTED = False,
     rz_world = demo_world\<lparr>CONFIG := config_default\<lparr>cfg_id := show_nat 7\<rparr>\<rparr>\<rparr>"

definition demo_rz :: mediator where
  "demo_rz = mediator_new True ''rs''"

lemma demo_register: "\<exists>o'. register_peer demo_machine demo_rz demo_rz_globals = (o', demo_rz_globals)"
proof -
  have "host_id demo_rz_globals \<noteq> []" by (simp add: host_id_def demo_rz_globals_def show_nat_not_Nil)
  from register_pk_known [OF this, of demo_machine] show ?thesis
    by (simp add: register_peer_def demo_rz_globals_def demo_world_def config_default_def)
qed

lemma demo_tick:
  assumes "s = udp_init 0 \<or> s = (udp_init 0)\<lparr>last_register_sent := Some 0\<rparr>" and n: "now = (if s = udp_init 0 then 0 else 3000000)"
  shows "\<exists>s'. udp_tick demo_machine False (Inr None) True [] now demo_rz s demo_rz_globals
      = Inr (fst (register_peer demo_machine demo_rz demo_rz_globals), demo_rz, s', demo_rz_globals)
     \<and> last_register_sent s' = Some now \<and> (s = udp_init 0 \<longrightarrow> s' = s\<lparr>last_register_sent := Some 0\<rparr>)"
  using assms(1)
proof
  have x: "\<not> SHOULD_EXIT demo_rz_globals" by (simp add: demo_rz_globals_def)
  obtain o' where r: "register_peer demo_machine demo_rz demo_rz_globals = (o', demo_rz_globals)" using demo_register by blast
  {
    assume "s = udp_init 0"
    then show ?thesis using x r n by (simp add: udp_tick_def is_timeout_def is_expired_def udp_init_def Let_def)
  next
    assume e: "s = (udp_init 0)\<lparr>last_register_sent := Some 0\<rparr>"
    then have "s \<noteq> udp_init 0" "now = 3000000" using n by (simp_all add: udp_init_def)
    then show ?thesis
      using x r e by (simp add: udp_tick_def is_timeout_def is_expired_def udp_init_def Let_def elapsed_ms_def MIN_REG_TIMEOUT_def
          count_failure_def MAX_FAILS1_def MAX_FAILS2_def)
  }
qed

lemma demo_turn: "own_turn demo_rz demo_rz_globals"
  by (simp add: own_turn_def demo_rz_globals_def)

lemma demo_reached:
  "udp_reach False demo_machine 0 demo_rz ((udp_init 0)\<lparr>last_register_sent := Some 0\<rparr>)
     [(0, True, fst (register_peer demo_machine demo_rz demo_rz_globals))]"
proof -
  have st: "udp_reach False demo_machine 0 demo_rz (udp_init 0) []" unfolding demo_rz_def by (rule udp_reach.start)
  have "udp_tick demo_machine False (Inr None) True [] 0 demo_rz (udp_init 0) demo_rz_globals
      = Inr (fst (register_peer demo_machine demo_rz demo_rz_globals), demo_rz, (udp_init 0)\<lparr>last_register_sent := Some 0\<rparr>, demo_rz_globals)"
    using demo_tick [of "udp_init 0" 0] by auto
  from udp_reach.tick [OF st _ this] show ?thesis by (simp add: udp_init_def demo_turn)
qed

lemma demo_second_tick:
  obtains s2 where "udp_tick demo_machine False (Inr None) True [] 3000000 demo_rz ((udp_init 0)\<lparr>last_register_sent := Some 0\<rparr>) demo_rz_globals
      = Inr (fst (register_peer demo_machine demo_rz demo_rz_globals), demo_rz, s2, demo_rz_globals)"
    and "last_register_sent s2 = Some 3000000"
  using demo_tick [of "(udp_init 0)\<lparr>last_register_sent := Some 0\<rparr>" 3000000] by (auto simp: udp_init_def)

theorem registration_paced_witness:
  "\<exists>s log. udp_reach False demo_machine 3000000 demo_rz s log \<and> map fst log = [3000000, 0] \<and> 3000 \<le> reg_timeout s"
proof -
  obtain s2 where t: "udp_tick demo_machine False (Inr None) True [] 3000000 demo_rz ((udp_init 0)\<lparr>last_register_sent := Some 0\<rparr>) demo_rz_globals
      = Inr (fst (register_peer demo_machine demo_rz demo_rz_globals), demo_rz, s2, demo_rz_globals)"
      "last_register_sent s2 = Some 3000000" by (rule demo_second_tick)
  from udp_reach.tick [OF demo_reached _ t(1)] t(2)
  obtain log where "udp_reach False demo_machine 3000000 demo_rz s2 log" "map fst log = [3000000, 0]" by auto
  moreover from this(1) have "3000 \<le> reg_timeout s2" using registration_paced by simp
  ultimately show ?thesis by (intro exI [of _ s2] exI [of _ log]) simp
qed

theorem registration_kept_up_witness:
  "\<exists>r own sent. r = fst (register_peer demo_machine demo_rz demo_rz_globals) \<and> own \<and> length sent = 1
     \<and> (3000000, own, sent) \<in> set [(3000000 :: nat, True, r), (0, True, r)]"
proof -
  let ?s = "(udp_init 0)\<lparr>last_register_sent := Some 0\<rparr>"
  let ?r = "fst (register_peer demo_machine demo_rz demo_rz_globals)"
  obtain s2 where t: "udp_tick demo_machine False (Inr None) True [] 3000000 demo_rz ?s demo_rz_globals = Inr (?r, demo_rz, s2, demo_rz_globals)"
      "last_register_sent s2 = Some 3000000" by (rule demo_second_tick)
  have "last_register_resp s2 = None" using udp_tick_cases [OF t(1)] by (simp add: udp_init_def)
  with registration_kept_up [OF demo_reached _ t(1) refl] t(2) demo_turn
  have "length ?r = 1" by auto
  then show ?thesis by (intro exI [of _ ?r] exI [of _ True]) simp
qed

theorem id_change_exclusive_witness:
  "\<exists>outs tasks rz' s' g'. handle_resp False demo_machine 1500000000 (update_latency_udp demo_machine [] (rz_host demo_rz) 0)
      (RegisterPkResponse UuidMismatch 0) demo_rz (udp_init 0, demo_rz_globals) = Some (outs, tasks, rz', s', g')
     \<and> host_id g' = show_nat 1500000000"
proof -
  have i: "host_id demo_rz_globals = show_nat 7" by (simp add: host_id_def demo_rz_globals_def)
  obtain s1 g1 where u: "update_latency_udp demo_machine [] (rz_host demo_rz) 0 (udp_init 0, demo_rz_globals) = (s1, g1)" by fastforce
  have g1: "host_id g1 = show_nat 7" "SOLVING_PK_MISMATCH g1 = []"
    using update_latency_udp_CONFIG [OF u] i by (simp_all add: host_id_def demo_rz_globals_def)
  obtain outs g' where h: "handle_uuid_mismatch demo_machine demo_rz 1500000000 g1 = (outs, g')" by fastforce
  have new: "host_id g' = show_nat 1500000000" using mismatch_solved [OF _ _ h] g1 show_nat_not_Nil by simp
  have r: "handle_resp False demo_machine 1500000000 (update_latency_udp demo_machine [] (rz_host demo_rz) 0)
      (RegisterPkResponse UuidMismatch 0) demo_rz (udp_init 0, demo_rz_globals) = Some (outs, [], demo_rz, s1, g')"
    by (simp add: handle_resp_def u h)
  have "host_id g' \<noteq> host_id demo_rz_globals" using new i show_nat_inj [of 1500000000 7] by simp
  from id_change_exclusive [OF _ this r] i show_nat_not_Nil r show ?thesis by auto
qed

definition demo_network :: network where
  "demo_network = \<lparr>nw_uuid = ''u'', nw_connect = True, nw_ipv6 = None, nw_local = True, nw_udp = True\<rparr>"

definition demo_punch :: punch_hole where
  "demo_punch = \<lparr>ph_socket_addr = replicate 17 0, ph_relay_server = ''relay'', ph_symmetric = False, ph_udp_port = 0, ph_force_relay = False,
     ph_socket_addr_v6 = replicate 17 0, ph_control = None\<rparr>"

definition proxied :: rz_globals where
  "proxied = demo_rz_globals\<lparr>rz_world := (rz_world demo_rz_globals)\<lparr>CONFIG2 := config2_default
     \<lparr>socks := Some \<lparr>proxy = ''p'', socks_username = [], socks_password = []\<rparr>\<rparr>\<rparr>\<rparr>"

lemma demo_addr: "addr_decode checks (replicate 17 0) = Some any_listen_addr_v6"
  by (simp add: addr_decode_def)

lemma proxied_proxy: "is_proxy (rz_world proxied)"
  by (simp add: proxied_def is_proxy_def get_network_type_def demo_rz_globals_def demo_world_def)

lemma demo_punch_relay:
  assumes "g = proxied"
  shows "\<exists>acts g1. handle_punch_hole False demo_machine demo_network 200000 demo_rz demo_punch g = Some (acts, None, g1)"
proof -
  have "\<not> is_duplicate any_listen_addr_v6 200000 (LAST_MSG proxied)"
    by (simp add: is_duplicate_def proxied_def demo_rz_globals_def elapsed_ms_def)
  then show ?thesis
    using assms proxied_proxy
    by (auto simp: handle_punch_hole_def Let_def demo_punch_def demo_addr create_relay_def demo_network_def split: prod.splits)
qed

theorem proxy_never_bypassed_witness: "start_uses_tcp (rz_world proxied)"
proof -
  obtain acts g1 where "handle_punch_hole False demo_machine demo_network 200000 demo_rz demo_punch proxied = Some (acts, None, g1)"
    using demo_punch_relay by blast
  then show ?thesis using proxy_never_bypassed [OF disjI2 [OF proxied_proxy] disjI1] by blast
qed

theorem punch_hole_one_connection_witness:
  "\<exists>acts acts6 acts' g1. handle_punch_hole False demo_machine demo_network 200000 demo_rz demo_punch proxied = Some (acts, None, g1)
     \<and> acts = acts6 @ acts' \<and> length (filter starts_connection acts') = 1"
proof -
  obtain acts g1 where h: "handle_punch_hole False demo_machine demo_network 200000 demo_rz demo_punch proxied = Some (acts, None, g1)"
    using demo_punch_relay by blast
  have "\<not> is_duplicate any_listen_addr_v6 200000 (LAST_MSG proxied)"
    by (simp add: is_duplicate_def proxied_def demo_rz_globals_def elapsed_ms_def)
  then show ?thesis
    using punch_hole_one_connection [OF h, of any_listen_addr_v6] h demo_addr [of False] by (auto simp: demo_punch_def)
qed

theorem keep_alive_limits_witness:
  "\<exists>m. scale_keep_alive True (word_of_nat 60) = Some m \<and> keep_alive_limit True m = Some (word_of_nat (1500 * 60))"
  using keep_alive_limits [of 60 True] by simp

end
