(* ===== verification/Clip_Descriptor.thy ===== *)
theory Clip_Descriptor
  imports Rust_Strings
begin

text \<open>
  Descriptions of copied files on the clipboard (\<open>libs/clipboard/src/platform/unix\<close>): paths as
  \<open>std::path\<close> reads them, the local files of the copying side, their encoding as
  \<open>FILEDESCRIPTORW\<close> records, and the parser of the pasting side.

  A time is a number of nanoseconds since 1970. The conversions between UTF-8 and UTF-16 belong to
  a library and are arguments. \<open>None\<close> is a panic.
\<close>

section \<open>Paths\<close>

datatype path_component = RootDir | CurDir | ParentDir | NormalComp string

definition rooted :: "string \<Rightarrow> bool" where
  "rooted p \<longleftrightarrow> starts_with p ''/''"

text \<open>Empty pieces and dots are no components, but for a dot at the start.\<close>

definition trivial_piece :: "string \<Rightarrow> bool" where
  "trivial_piece s \<longleftrightarrow> s = [] \<or> s = ''.''"

definition piece_component :: "string \<Rightarrow> path_component" where
  "piece_component s = (if s = ''..'' then ParentDir else NormalComp s)"

definition body_components :: "string list \<Rightarrow> path_component list" where
  "body_components ss = map piece_component (filter (\<lambda>s. \<not> trivial_piece s) ss)"

definition path_components :: "string \<Rightarrow> path_component list" where
  "path_components p =
     (if rooted p then [RootDir] else if hd (split_on CHR ''/'' p) = ''.'' then [CurDir] else [])
     @ body_components (split_on CHR ''/'' p)"

definition path_file_name :: "string \<Rightarrow> string option" where
  "path_file_name p =
     (case path_components p of
        [] \<Rightarrow> None
      | cs \<Rightarrow> (case last cs of NormalComp s \<Rightarrow> Some s | _ \<Rightarrow> None))"

text \<open>The components of \<open>Path::parent\<close>.\<close>

definition path_parent :: "string \<Rightarrow> path_component list option" where
  "path_parent p =
     (case path_components p of
        [] \<Rightarrow> None
      | cs \<Rightarrow> (if last cs = RootDir then None else Some (butlast cs)))"

fun join_slash :: "string list \<Rightarrow> string" where
  "join_slash [] = []"
| "join_slash [s] = s"
| "join_slash (s # ss) = s @ ''/'' @ join_slash ss"

fun skip_pieces :: "nat \<Rightarrow> string list \<Rightarrow> string list" where
  "skip_pieces 0 ss = dropWhile trivial_piece ss"
| "skip_pieces (Suc k) ss = (case dropWhile trivial_piece ss of [] \<Rightarrow> [] | _ # ss \<Rightarrow> skip_pieces k ss)"

definition trim_pieces :: "string list \<Rightarrow> string list" where
  "trim_pieces ss = rev (dropWhile trivial_piece (rev ss))"

text \<open>
  The text of \<open>p.strip_prefix(base)\<close>, with \<open>n\<close> the components of the base: pieces are skipped
  from the left, and what is trivial at either end is trimmed.
\<close>

definition strip_prefix_text :: "path_component list \<Rightarrow> string \<Rightarrow> string option" where
  "strip_prefix_text base p =
     (let cs = path_components p; ss = split_on CHR ''/'' p in
      if take (length base) cs \<noteq> base then None
      else Some (case base of
          [] \<Rightarrow> (case trim_pieces ss of
                  [] \<Rightarrow> (if rooted p then ''/'' else if hd ss = ''.'' then ''.'' else [])
                | ts \<Rightarrow> join_slash ts)
        | c # _ \<Rightarrow> join_slash (trim_pieces (skip_pieces (if c = RootDir \<or> c = CurDir then length base - 1 else length base) ss))))"

section \<open>Flags and constants\<close>

definition FLAGS_FD_ATTRIBUTES :: u32 where "FLAGS_FD_ATTRIBUTES = 0x04"
definition FLAGS_FD_SIZE :: u32 where "FLAGS_FD_SIZE = 0x40"
definition FLAGS_FD_LAST_WRITE :: u32 where "FLAGS_FD_LAST_WRITE = 0x20"
definition FLAGS_FD_PROGRESSUI :: u32 where "FLAGS_FD_PROGRESSUI = 0x4000"
definition FLAGS_FD_UNIX_MODE :: u32 where "FLAGS_FD_UNIX_MODE = 0x08"
definition LDAP_EPOCH_DELTA :: u64 where "LDAP_EPOCH_DELTA = 116444772610000000"
definition PERM_READ :: u16 where "PERM_READ = 0x124"
definition PERM_RW :: u16 where "PERM_RW = 0x1A4"
definition PERM_SELF_RO :: u16 where "PERM_SELF_RO = 0x100"
definition PERM_RWX :: u16 where "PERM_RWX = 0x1ED"


section \<open>Local files\<close>

datatype cliprdr_error =
    CliprdrInit
  | ClipboardInternalError
  | ConversionFailure
  | FileError string string
  | InvalidRequest string
  | CommonError string

text \<open>
  A buffered reader: the bytes in the buffer that are not yet consumed and the position of the
  first of them in the file.
\<close>

record buf_reader =
  rd_buf :: bytes
  rd_pos :: nat

record local_file =
  lf_relative_root :: string
  lf_path :: string
  lf_handle :: "buf_reader option"
  lf_offset :: u64
  lf_name :: string
  lf_size :: u64
  lf_last_write_time :: int
  lf_is_dir :: bool
  lf_perm :: u32
  lf_read_only :: bool
  lf_hidden :: bool
  lf_system :: bool
  lf_archive :: bool
  lf_normal :: bool

text \<open>What \<open>std::fs::metadata\<close> tells.\<close>

record metadata =
  md_len :: u64
  md_is_dir :: bool
  md_readonly :: bool
  md_mode :: u32
  md_modified :: "int option"

definition to_string_lossy :: "string \<Rightarrow> string" where
  "to_string_lossy p = from_utf8_lossy (as_bytes p)"

definition replace_char :: "char \<Rightarrow> char \<Rightarrow> string \<Rightarrow> string" where
  "replace_char a b s = map (\<lambda>c. if c = a then b else c) s"

definition try_open :: "(string \<Rightarrow> string + metadata) \<Rightarrow> string \<Rightarrow> string \<Rightarrow> cliprdr_error + local_file" where
  "try_open meta relative_root path =
     (case meta path of
        Inl e \<Rightarrow> Inl (FileError (to_string_lossy path) e)
      | Inr mt \<Rightarrow>
          let is_dir = md_is_dir mt; read_only = md_readonly mt; system = False;
              hidden = starts_with (to_string_lossy path) ''.''; archive = False
          in Inr \<lparr>lf_relative_root = relative_root, lf_path = path, lf_handle = None, lf_offset = 0,
               lf_name = replace_char CHR ''/'' CHR 0x5C (dropWhile (\<lambda>c. c = CHR ''/'') (to_string_lossy path)),
               lf_size = md_len mt,
               lf_last_write_time = (case md_modified mt of Some t \<Rightarrow> t | None \<Rightarrow> 0),
               lf_is_dir = is_dir, lf_perm = md_mode mt, lf_read_only = read_only, lf_hidden = hidden, lf_system = system,
               lf_archive = archive, lf_normal = \<not> (is_dir \<or> read_only \<or> system \<or> hidden \<or> archive)\<rparr>)"

section \<open>File descriptors\<close>

record utf16 =
  to_utf16le :: "string \<Rightarrow> bytes"
  from_utf16le :: "bytes \<Rightarrow> string option"

definition file_attributes :: "local_file \<Rightarrow> u32" where
  "file_attributes f =
     (if lf_read_only f then 0x1 else 0) OR (if lf_hidden f then 0x2 else 0) OR (if lf_system f then 0x4 else 0)
     OR (if lf_is_dir f then 0x10 else 0) OR (if lf_archive f then 0x20 else 0) OR (if lf_normal f then 0x80 else 0)"

definition win32_time :: "int \<Rightarrow> u64" where
  "win32_time t = word_of_int (if t < 0 then 0 else t) div 100 + LDAP_EPOCH_DELTA"

text \<open>The name that is sent: the path below the directory of the first copied file.\<close>

definition relative_name :: "local_file \<Rightarrow> string" where
  "relative_name f =
     to_string_lossy (case strip_prefix_text (path_components (lf_relative_root f)) (lf_path f) of Some p \<Rightarrow> p | None \<Rightarrow> lf_path f)"

definition as_bin :: "utf16 \<Rightarrow> local_file \<Rightarrow> bytes option" where
  "as_bin U f =
     (let size_high = (ucast (drop_bit 32 (lf_size f)) :: u32);
          size_low = (ucast (lf_size f AND 0xFFFFFFFF) :: u32);
          name = to_utf16le U (relative_name f);
          flags = FLAGS_FD_SIZE OR FLAGS_FD_LAST_WRITE OR FLAGS_FD_ATTRIBUTES OR FLAGS_FD_PROGRESSUI OR FLAGS_FD_UNIX_MODE
      in if length name > 520 then None
         else Some (le_bytes 4 flags @ replicate 32 0 @ le_bytes 4 (file_attributes f) @ replicate 12 0 @ le_bytes 4 (lf_perm f)
           @ le_bytes 8 (win32_time (lf_last_write_time f)) @ le_bytes 4 size_high @ le_bytes 4 size_low
           @ name @ replicate (520 - length name) 0))"

datatype clip_file_type = FtFile | FtDirectory | FtSymlink

record file_description =
  fd_conn_id :: int
  fd_name :: string
  fd_kind :: clip_file_type
  fd_atime :: int
  fd_last_modified :: int
  fd_last_metadata_changed :: int
  fd_creation_time :: int
  fd_size :: u64
  fd_perm :: u16

definition trim_end_nul :: "string \<Rightarrow> string" where
  "trim_end_nul s = rev (dropWhile (\<lambda>c. c = CHR 0x00) (rev s))"

definition descriptor_perm :: "u32 \<Rightarrow> u32 \<Rightarrow> u16 \<Rightarrow> u16" where
  "descriptor_perm flags attributes perm =
     (if flags AND FLAGS_FD_UNIX_MODE \<noteq> 0 then perm
      else if attributes = 0x80 then PERM_RWX
      else if attributes AND 0x01 \<noteq> 0 then PERM_READ
      else if attributes AND 0x02 \<noteq> 0 then PERM_SELF_RO
      else if attributes AND 0x10 \<noteq> 0 then PERM_RWX
      else PERM_RW)"

text \<open>
  The time of a descriptor. \<open>checks\<close>: whether the build checks for overflow; the product of a
  late time is beyond 64 bits.
\<close>

definition descriptor_time :: "bool \<Rightarrow> u32 \<Rightarrow> u64 \<Rightarrow> int option" where
  "descriptor_time checks flags t =
     (if flags AND FLAGS_FD_LAST_WRITE \<noteq> 0 \<and> t \<ge> LDAP_EPOCH_DELTA then
        if checks \<and> unat (t - LDAP_EPOCH_DELTA) * 100 \<ge> 2 ^ 64 then None
        else Some (uint ((t - LDAP_EPOCH_DELTA) * 100))
      else Some 0)"

text \<open>The parser of one descriptor of 592 bytes; the rest of the input is returned.\<close>

definition parse_file_descriptor :: "bool \<Rightarrow> utf16 \<Rightarrow> bytes \<Rightarrow> int \<Rightarrow> (cliprdr_error + file_description \<times> bytes) option" where
  "parse_file_descriptor checks U bs conn_id =
     (let flags = (of_le_bytes (take 4 bs) :: u32);
          attributes = (of_le_bytes (take 4 (drop 36 bs)) :: u32);
          perm = (ucast (of_le_bytes (take 4 (drop 52 bs)) :: u32) :: u16);
          last_write_time = (of_le_bytes (take 8 (drop 56 bs)) :: u64);
          file_size_high = (of_le_bytes (take 4 (drop 64 bs)) :: u32);
          file_size_low = (of_le_bytes (take 4 (drop 68 bs)) :: u32);
          block = take 520 (drop 72 bs)
      in case from_utf16le U block of
           None \<Rightarrow> Some (Inl ConversionFailure)
         | Some wstr \<Rightarrow>
             if flags AND FLAGS_FD_ATTRIBUTES = 0 then Some (Inl (InvalidRequest ''file description must have valid attributes''))
             else
               (case descriptor_time checks flags last_write_time of
                  None \<Rightarrow> None
                | Some t \<Rightarrow>
                    Some (Inr (\<lparr>fd_conn_id = conn_id,
                      fd_name = trim_end_nul (replace_char CHR 0x5C CHR ''/'' wstr),
                      fd_kind = (if attributes AND 0x10 \<noteq> 0 then FtDirectory else FtFile),
                      fd_atime = t, fd_last_modified = t, fd_last_metadata_changed = t, fd_creation_time = t,
                      fd_size = push_bit 32 (ucast file_size_high) + ucast file_size_low,
                      fd_perm = descriptor_perm flags attributes perm\<rparr>, drop 592 bs))))"

fun parse_descriptors :: "bool \<Rightarrow> utf16 \<Rightarrow> nat \<Rightarrow> bytes \<Rightarrow> int \<Rightarrow> (cliprdr_error + file_description list) option" where
  "parse_descriptors checks U 0 bs conn_id = Some (Inr [])"
| "parse_descriptors checks U (Suc n) bs conn_id =
     (case parse_file_descriptor checks U bs conn_id of
        None \<Rightarrow> None
      | Some (Inl e) \<Rightarrow> Some (Inl e)
      | Some (Inr (d, rest)) \<Rightarrow>
          (case parse_descriptors checks U n rest conn_id of
             None \<Rightarrow> None
           | Some (Inl e) \<Rightarrow> Some (Inl e)
           | Some (Inr ds) \<Rightarrow> Some (Inr (d # ds))))"

definition parse_file_descriptors :: "bool \<Rightarrow> utf16 \<Rightarrow> bytes \<Rightarrow> int \<Rightarrow> (cliprdr_error + file_description list) option" where
  "parse_file_descriptors checks U pdu conn_id =
     (if length pdu < 4 then Some (Inl (InvalidRequest ''file descriptor request with infficient length''))
      else
        let count = unat (of_le_bytes (take 4 pdu) :: u32); data = drop 4 pdu in
        if data = [] \<and> count = 0 then Some (Inr [])
        else if length data \<noteq> 592 * count then Some (Inl (InvalidRequest ''file descriptor request with invalid length''))
        else parse_descriptors checks U count data conn_id)"

text \<open>\<open>build_file_list_pdu\<close>: the number of files and their descriptors; \<open>None\<close> is a panic of a long name.\<close>

fun descriptors_bin :: "utf16 \<Rightarrow> local_file list \<Rightarrow> bytes option" where
  "descriptors_bin U [] = Some []"
| "descriptors_bin U (f # fs) =
     (case as_bin U f of
        None \<Rightarrow> None
      | Some b \<Rightarrow> map_option (\<lambda>r. b @ r) (descriptors_bin U fs))"

definition file_list_pdu :: "utf16 \<Rightarrow> local_file list \<Rightarrow> bytes option" where
  "file_list_pdu U fs = map_option (\<lambda>r. le_bytes 4 (word_of_nat (length fs) :: u32) @ r) (descriptors_bin U fs)"

section \<open>Lossy text is text\<close>

lemma in_range_prefix: "i < n \<Longrightarrow> n \<le> length bs \<Longrightarrow> in_range lo hi (take n bs @ r) i = in_range lo hi bs i"
  by (simp add: in_range_def nth_append)

lemma in_range_bound: "in_range lo hi bs i \<Longrightarrow> i < length bs"
  by (simp add: in_range_def)

lemma chunk_transfer:
  assumes "utf8_chunk bs = (True, n)" "hd bs' = hd bs" "\<And>lo hi i. i < n \<Longrightarrow> in_range lo hi bs' i = in_range lo hi bs i"
  shows "utf8_chunk bs' = (True, n)"
proof -
  have n: "n = 1 \<or> n = 2 \<or> n = 3 \<or> n = 4" using assms(1) by (auto simp: utf8_chunk_def Let_def split: if_splits)
  have eq: "0 < n \<longrightarrow> in_range lo hi bs' 0 = in_range lo hi bs 0" "1 < n \<longrightarrow> in_range lo hi bs' 1 = in_range lo hi bs 1"
      "2 < n \<longrightarrow> in_range lo hi bs' 2 = in_range lo hi bs 2" "3 < n \<longrightarrow> in_range lo hi bs' 3 = in_range lo hi bs 3" for lo hi
    using assms(3) by simp_all
  define b1 b2 b3 b4 where "b1 \<longleftrightarrow> hd bs < 0x80" and "b2 \<longleftrightarrow> 0xC2 \<le> hd bs \<and> hd bs \<le> 0xDF"
    and "b3 \<longleftrightarrow> hd bs = 0xE0" and "b4 \<longleftrightarrow> hd bs = 0xED"
  define b5 b6 b7 b8 where "b5 \<longleftrightarrow> 0xE1 \<le> hd bs \<and> hd bs \<le> 0xEF" and "b6 \<longleftrightarrow> hd bs = 0xF0"
    and "b7 \<longleftrightarrow> 0xF1 \<le> hd bs \<and> hd bs \<le> 0xF3" and "b8 \<longleftrightarrow> hd bs = 0xF4"
  note b = b1_def [symmetric] b2_def [symmetric] b3_def [symmetric] b4_def [symmetric] b5_def [symmetric] b6_def [symmetric]
    b7_def [symmetric] b8_def [symmetric]
  show ?thesis
    using assms(1) unfolding utf8_chunk_def Let_def assms(2) b
    using eq by (simp split: if_split_asm)
qed

lemma chunk_prefix:
  assumes "bs \<noteq> []" "utf8_chunk bs = (True, n)"
  shows "n \<le> length bs" "utf8_chunk (take n bs @ r) = (True, n)"
proof -
  have h: "length bs \<ge> 1" using assms(1) by (cases bs) auto
  show n: "n \<le> length bs"
    using assms(2) h by (auto simp: utf8_chunk_def Let_def split: if_splits dest: in_range_bound)
  have hd: "hd (take n bs @ r) = hd bs"
    using utf8_chunk_pos [of bs] assms by (cases bs; cases n) auto
  show "utf8_chunk (take n bs @ r) = (True, n)"
    by (rule chunk_transfer [OF assms(2) hd]) (simp add: in_range_prefix n)
qed

lemma valid_utf8_chunk: "bs \<noteq> [] \<Longrightarrow> utf8_chunk bs = (True, n) \<Longrightarrow> valid_utf8 r \<Longrightarrow> valid_utf8 (take n bs @ r)"
  using chunk_prefix(1) [of bs n] chunk_prefix(2) [of bs n r] utf8_chunk_pos [of bs] by (simp add: valid_utf8.simps [of "take n bs @ r"])

lemma valid_utf8_replacement: "valid_utf8 r \<Longrightarrow> valid_utf8 ([0xEF, 0xBF, 0xBD] @ r)"
  using valid_utf8_chunk [of "[0xEF, 0xBF, 0xBD]" 3 r] by (simp add: utf8_chunk_def in_range_def)

lemma is_str_lossy: "is_str (from_utf8_lossy bs)"
proof (induction bs rule: from_utf8_lossy.induct)
  case (1 bs)
  show ?case
  proof (cases "bs = []")
    case True
    then show ?thesis by (simp add: from_utf8_lossy.simps is_str_def valid_utf8.simps)
  next
    case False
    obtain v n where c: "utf8_chunk bs = (v, n)" by fastforce
    then have "valid_utf8 (as_bytes (from_utf8_lossy (drop n bs)))" using 1 [OF False c [symmetric]] by (simp add: is_str_def)
    then have "valid_utf8 (as_bytes (of_bytes (if v then take n bs else [0xEF, 0xBF, 0xBD]) @ from_utf8_lossy (drop n bs)))"
      using valid_utf8_chunk [OF False] valid_utf8_replacement c unfolding as_bytes_append as_bytes_of_bytes by auto
    then show ?thesis using False c by (simp add: is_str_def from_utf8_lossy.simps [of bs] if_distrib [of of_bytes])
  qed
qed

lemma is_str_to_string_lossy [simp]: "is_str (to_string_lossy p)"
  by (simp add: to_string_lossy_def is_str_lossy)

section \<open>Round trip of the descriptors\<close>

text \<open>
  What the conversions promise: text encodes to whole code units, and decodes to itself, also
  when null units follow.
\<close>

definition utf16_ok :: "utf16 \<Rightarrow> bool" where
  "utf16_ok U \<longleftrightarrow>
     (\<forall>s. is_str s \<longrightarrow> even (length (to_utf16le U s))
        \<and> (\<forall>k. from_utf16le U (to_utf16le U s @ replicate (2 * k) 0) = Some (s @ replicate k (CHR 0x00))))"

text \<open>What arrives of a local file.\<close>

definition describe :: "int \<Rightarrow> local_file \<Rightarrow> file_description" where
  "describe conn_id f =
     (let t = (if lf_last_write_time f < 0 then 0 else lf_last_write_time f mod 2 ^ 64 div 100 * 100) in
      \<lparr>fd_conn_id = conn_id, fd_name = trim_end_nul (replace_char CHR 0x5C CHR ''/'' (relative_name f)),
       fd_kind = (if lf_is_dir f then FtDirectory else FtFile),
       fd_atime = t, fd_last_modified = t, fd_last_metadata_changed = t, fd_creation_time = t,
       fd_size = lf_size f, fd_perm = ucast (lf_perm f)\<rparr>)"

lemma replace_char_replicate: "c \<noteq> a \<Longrightarrow> replace_char a b (s @ replicate k c) = replace_char a b s @ replicate k c"
  by (induction k) (auto simp: replace_char_def)

lemma trim_end_nul_replicate: "trim_end_nul (s @ replicate k (CHR 0x00)) = trim_end_nul s"
  unfolding trim_end_nul_def rev_append rev_replicate by (subst dropWhile_append2) simp_all

lemma size_halves: "push_bit 32 (ucast (ucast (drop_bit 32 w) :: u32) :: u64) + ucast (ucast (w AND 0xFFFFFFFF) :: u32) = (w :: u64)"
proof -
  have m: "(0xFFFFFFFF :: u64) = mask 32" by (simp add: mask_eq_exp_minus_1)
  have "push_bit 32 (ucast (ucast (drop_bit 32 w) :: u32) :: u64) AND ucast (ucast (w AND 0xFFFFFFFF) :: u32) = (0 :: u64)"
    unfolding m by (rule bit_word_eqI) (auto simp: bit_simps)
  then have "push_bit 32 (ucast (ucast (drop_bit 32 w) :: u32) :: u64) + ucast (ucast (w AND 0xFFFFFFFF) :: u32)
      = push_bit 32 (ucast (ucast (drop_bit 32 w) :: u32)) OR ucast (ucast (w AND 0xFFFFFFFF) :: u32)"
    by (rule disjunctive_add_eq_or)
  also have "\<dots> = w" unfolding m by (rule bit_word_eqI) (auto simp: bit_simps)
  finally show ?thesis .
qed

lemma win32_time_back:
  "descriptor_time checks flags (win32_time t) =
     Some (if flags AND FLAGS_FD_LAST_WRITE \<noteq> 0 then if t < 0 then 0 else t mod 2 ^ 64 div 100 * 100 else 0)"
proof -
  define n where "n = (word_of_int (if t < 0 then 0 else t) div 100 :: u64)"
  have n: "unat n = nat ((if t < 0 then 0 else t) mod 2 ^ 64 div 100)"
    by (simp add: n_def unat_div_distrib unsigned_of_int take_bit_eq_mod nat_div_distrib)
  have "(if t < 0 then 0 else t) mod 2 ^ 64 < 2 ^ 64" by (rule pos_mod_bound) simp
  then have "(if t < 0 then 0 else t) mod 2 ^ 64 div 100 \<le> (2 ^ 64 - 1) div 100" by (intro zdiv_mono1) simp_all
  then have "(if t < 0 then 0 else t) mod 2 ^ 64 div 100 \<le> 184467440737095516" by simp
  then have le: "unat n \<le> 184467440737095516" unfolding n by linarith
  have d: "unat LDAP_EPOCH_DELTA = 116444772610000000" by (simp add: LDAP_EPOCH_DELTA_def)
  have s: "unat (n + LDAP_EPOCH_DELTA) = unat n + 116444772610000000"
    using le by (subst unat_add_lem [THEN iffD1]) (simp_all add: d)
  have ge: "n + LDAP_EPOCH_DELTA \<ge> LDAP_EPOCH_DELTA" using s d by (simp add: word_le_nat_alt)
  have small: "unat n * 100 < 2 ^ 64" using le by simp
  have m: "unat (n * 100) = unat n * 100" using small by (subst unat_mult_lem [THEN iffD1]) simp_all
  have "uint (n * 100) = int (unat n * 100)" using m by (metis uint_nat)
  also have "\<dots> = (if t < 0 then 0 else t mod 2 ^ 64 div 100 * 100)" using n by (simp add: nat_mult_distrib)
  finally show ?thesis using ge small by (simp add: descriptor_time_def win32_time_def n_def [symmetric])
qed


lemma le_u32 [simp]: "(of_le_bytes (le_bytes 4 w) :: u32) = w" "(of_le_bytes (le_bytes 8 v) :: u64) = v"
  by (simp_all add: of_le_bytes_le_bytes take_bit_word_eq_self)

lemma length_as_bin: "as_bin U f = Some b \<Longrightarrow> length b = 592"
  by (auto simp: as_bin_def Let_def split: if_splits)

lemma attribute_bits: "file_attributes f AND 0x10 \<noteq> 0 \<longleftrightarrow> lf_is_dir f"
  by (auto simp: file_attributes_def)

lemma descriptor_flags:
  fixes F :: u32
  assumes "F = FLAGS_FD_SIZE OR FLAGS_FD_LAST_WRITE OR FLAGS_FD_ATTRIBUTES OR FLAGS_FD_PROGRESSUI OR FLAGS_FD_UNIX_MODE"
  shows "F AND FLAGS_FD_ATTRIBUTES \<noteq> 0" "F AND FLAGS_FD_LAST_WRITE \<noteq> 0" "F AND FLAGS_FD_UNIX_MODE \<noteq> 0"
  unfolding assms FLAGS_FD_SIZE_def FLAGS_FD_LAST_WRITE_def FLAGS_FD_ATTRIBUTES_def FLAGS_FD_PROGRESSUI_def FLAGS_FD_UNIX_MODE_def
  by simp_all

lemma descriptor_layout:
  fixes x1 rest :: bytes
  assumes "length x1 = 4" "length x2 = 32" "length x3 = 4" "length x4 = 12" "length x5 = 4" "length x6 = 8" "length x7 = 4" "length x8 = 4"
    "length x9 = 520"
  defines "bs \<equiv> x1 @ x2 @ x3 @ x4 @ x5 @ x6 @ x7 @ x8 @ x9 @ rest"
  shows "take 4 bs = x1" "take 4 (drop 36 bs) = x3" "take 4 (drop 52 bs) = x5" "take 8 (drop 56 bs) = x6" "take 4 (drop 64 bs) = x7"
    "take 4 (drop 68 bs) = x8" "take 520 (drop 72 bs) = x9" "drop 592 bs = rest"
  unfolding bs_def using assms(1-9) by simp_all

lemma parse_as_bin:
  assumes U: "utf16_ok U" and b: "as_bin U f = Some b"
  shows "parse_file_descriptor checks U (b @ rest) conn_id = Some (Inr (describe conn_id f, rest))"
proof -
  define name where "name = to_utf16le U (relative_name f)"
  define F where "F = FLAGS_FD_SIZE OR FLAGS_FD_LAST_WRITE OR FLAGS_FD_ATTRIBUTES OR FLAGS_FD_PROGRESSUI OR FLAGS_FD_UNIX_MODE"
  have s: "is_str (relative_name f)" by (simp add: relative_name_def)
  have le: "length name \<le> 520" and b': "b = le_bytes 4 F @ replicate 32 0 @ le_bytes 4 (file_attributes f) @ replicate 12 0 @ le_bytes 4 (lf_perm f)
      @ le_bytes 8 (win32_time (lf_last_write_time f)) @ le_bytes 4 (ucast (drop_bit 32 (lf_size f)) :: u32)
      @ le_bytes 4 (ucast (lf_size f AND 0xFFFFFFFF) :: u32) @ name @ replicate (520 - length name) 0"
    using b unfolding as_bin_def Let_def name_def [symmetric] F_def [symmetric] by (simp_all only: not_less option.inject option.distinct simp_thms if_True if_False split: if_split_asm)
  have "even (length name)" using U s by (simp add: utf16_ok_def name_def)
  then have "even (520 - length name)" by simp
  then obtain k where k: "520 - length name = 2 * k" by (rule evenE)
  have dec: "from_utf16le U (name @ replicate (2 * k) 0) = Some (relative_name f @ replicate k (CHR 0x00))"
    using U s by (simp add: utf16_ok_def name_def)
  have len: "length name + 2 * k = 520" using k le by simp
  have f: "take 4 (b @ rest) = le_bytes 4 F" "take 4 (drop 36 (b @ rest)) = le_bytes 4 (file_attributes f)"
      "take 4 (drop 52 (b @ rest)) = le_bytes 4 (lf_perm f)" "take 8 (drop 56 (b @ rest)) = le_bytes 8 (win32_time (lf_last_write_time f))"
      "take 4 (drop 64 (b @ rest)) = le_bytes 4 (ucast (drop_bit 32 (lf_size f)) :: u32)"
      "take 4 (drop 68 (b @ rest)) = le_bytes 4 (ucast (lf_size f AND 0xFFFFFFFF) :: u32)"
      "take 520 (drop 72 (b @ rest)) = name @ replicate (2 * k) 0" "drop 592 (b @ rest) = rest"
    using descriptor_layout [of "le_bytes 4 F" "replicate 32 0" "le_bytes 4 (file_attributes f)" "replicate 12 0" "le_bytes 4 (lf_perm f)"
        "le_bytes 8 (win32_time (lf_last_write_time f))" "le_bytes 4 (ucast (drop_bit 32 (lf_size f)) :: u32)"
        "le_bytes 4 (ucast (lf_size f AND 0xFFFFFFFF) :: u32)" "name @ replicate (2 * k) 0" rest]
    unfolding b' k by (simp_all only: length_le_bytes length_replicate length_append len append_assoc simp_thms)
  note fl = descriptor_flags [OF F_def]
  show ?thesis
    unfolding parse_file_descriptor_def Let_def f le_u32
    using fl by (simp add: dec win32_time_back size_halves attribute_bits describe_def Let_def descriptor_perm_def
        replace_char_replicate trim_end_nul_replicate)
qed

lemma parse_descriptors_bin:
  assumes "utf16_ok U"
  shows "descriptors_bin U fs = Some bs \<Longrightarrow> length bs = 592 * length fs
    \<and> parse_descriptors checks U (length fs) bs conn_id = Some (Inr (map (describe conn_id) fs))"
proof (induction fs arbitrary: bs)
  case (Cons f fs)
  from Cons.prems obtain b r where b: "as_bin U f = Some b" and r: "descriptors_bin U fs = Some r" and bs: "bs = b @ r"
    by (auto split: option.splits)
  from Cons.IH [OF r] parse_as_bin [OF assms b, of checks r conn_id] length_as_bin [OF b] show ?case by (simp add: bs)
qed simp

lemma descriptors_bin_total: "descriptors_bin U fs \<noteq> None \<longleftrightarrow> list_all (\<lambda>f. length (to_utf16le U (relative_name f)) \<le> 520) fs"
  by (induction fs) (auto simp: as_bin_def Let_def split: option.splits)

lemma descriptors_parsed:
  assumes "utf16_ok U" "file_list_pdu U fs = Some pdu" "length fs < 2 ^ 32"
  shows "parse_file_descriptors checks U pdu conn_id = Some (Inr (map (describe conn_id) fs))"
proof -
  obtain bs where bs: "descriptors_bin U fs = Some bs" and pdu: "pdu = le_bytes 4 (word_of_nat (length fs) :: u32) @ bs"
    using assms(2) by (auto simp: file_list_pdu_def)
  have n: "unat (word_of_nat (length fs) :: u32) = length fs"
    using assms(3) by (simp add: unsigned_of_nat take_bit_nat_eq_self)
  show ?thesis using n parse_descriptors_bin [OF assms(1) bs] by (cases fs) (auto simp: pdu parse_file_descriptors_def)
qed

text \<open>
  What the copying side encodes is what the pasting side reads: the list of descriptors parses
  to one description per file, in the same order, with the exact size and mode, the time to 100
  nanoseconds and the relative name. The encoder panics exactly when a name has more than 260
  UTF-16 units.
\<close>

theorem descriptors_roundtrip:
  assumes "utf16_ok U" "length fs < 2 ^ 32"
  shows "(case file_list_pdu U fs of
      None \<Rightarrow> list_ex (\<lambda>f. length (to_utf16le U (relative_name f)) > 520) fs
    | Some pdu \<Rightarrow> list_all (\<lambda>f. length (to_utf16le U (relative_name f)) \<le> 520) fs
        \<and> parse_file_descriptors checks U pdu conn_id = Some (Inr (map (describe conn_id) fs)))"
proof (cases "file_list_pdu U fs")
  case None
  then show ?thesis using descriptors_bin_total [of U fs] by (auto simp: file_list_pdu_def list_all_iff list_ex_iff not_le)
next
  case (Some pdu)
  then show ?thesis using descriptors_parsed [OF assms(1) Some assms(2)] descriptors_bin_total [of U fs] by (auto simp: file_list_pdu_def)
qed

text \<open>
  The offset between the Windows and the Unix epoch, 134774 days, is taken too large by 3661
  seconds: the time of a file from a Windows peer arrives that much early.
\<close>

theorem windows_times_early:
  assumes "flags AND FLAGS_FD_LAST_WRITE \<noteq> 0" "n \<le> 68022707477095516"
  shows "descriptor_time checks flags (word_of_nat (134774 * 86400 * 10 ^ 7 + n)) = Some (100 * int (n - 3661 * 10 ^ 7))"
proof -
  define w where "w = (word_of_nat (134774 * 86400 * 10 ^ 7 + n) :: u64)"
  have w: "unat w = 116444736000000000 + n" using assms(2) unfolding w_def unsigned_of_nat by (simp add: take_bit_nat_eq_self)
  have d: "unat LDAP_EPOCH_DELTA = 116444772610000000" by (simp add: LDAP_EPOCH_DELTA_def)
  show ?thesis
  proof (cases "n < 36610000000")
    case True
    then have "\<not> LDAP_EPOCH_DELTA \<le> w" using w d by (simp add: word_le_nat_alt)
    with True assms(1) show ?thesis unfolding w_def [symmetric] by (simp add: descriptor_time_def)
  next
    case False
    then have ge: "LDAP_EPOCH_DELTA \<le> w" using w d by (simp add: word_le_nat_alt)
    then have s: "unat (w - LDAP_EPOCH_DELTA) = n - 36610000000" using w d by (simp add: unat_sub)
    have small: "unat (w - LDAP_EPOCH_DELTA) * 100 < 2 ^ 64" using s assms(2) by simp
    have "unat ((w - LDAP_EPOCH_DELTA) * 100) = (n - 36610000000) * 100"
      using small s by (subst unat_mult_lem [THEN iffD1]) simp_all
    then have "uint ((w - LDAP_EPOCH_DELTA) * 100) = 100 * int (n - 36610000000)" unfolding uint_nat by (simp only: of_nat_mult of_nat_numeral mult.commute)
    then show ?thesis using ge small assms(1) unfolding w_def [symmetric] by (simp add: descriptor_time_def right_diff_distrib)
  qed
qed

section \<open>Witnesses\<close>

text \<open>Conversions for text of one unit per byte.\<close>

fun units_to :: "string \<Rightarrow> bytes" where
  "units_to [] = []"
| "units_to (c # s) = word_of_nat (of_char c) # 0 # units_to s"

fun units_from :: "bytes \<Rightarrow> string option" where
  "units_from [] = Some []"
| "units_from [b] = None"
| "units_from (b # h # bs) = (if h = 0 then map_option (\<lambda>s. char_of (unat b) # s) (units_from bs) else None)"

definition demo_utf16 :: utf16 where
  "demo_utf16 = \<lparr>to_utf16le = units_to, from_utf16le = units_from\<rparr>"

lemma units_from_zeros: "units_from (replicate (2 * k) 0) = Some (replicate k (CHR 0x00))"
proof (induction k)
  case (Suc k)
  have "CHR 0x00 = char_of (0 :: nat)" by code_simp
  with Suc show ?case by simp
qed simp

lemma units_from_to: "units_from (units_to s @ bs) = map_option (\<lambda>r. s @ r) (units_from bs)"
proof (induction s)
  case (Cons c s)
  have "unat (word_of_nat (of_char c) :: u8) = (of_char c :: nat)"
    using nat_of_char_less_256 [of c] by (simp add: unsigned_of_nat take_bit_nat_eq_self)
  with Cons show ?case by (simp add: option.map_comp comp_def)
qed (simp add: option.map_ident)

lemma demo_utf16_ok: "utf16_ok demo_utf16"
proof -
  have "even (length (units_to s))" for s by (induction s) simp_all
  then show ?thesis by (simp add: utf16_ok_def demo_utf16_def units_from_to units_from_zeros)
qed

definition demo_clip_file :: local_file where
  "demo_clip_file = \<lparr>lf_relative_root = ''/h'', lf_path = ''/h/a.txt'', lf_handle = None, lf_offset = 0, lf_name = ''h/a.txt'', lf_size = 5,
     lf_last_write_time = 1234567, lf_is_dir = False, lf_perm = 0x81A4, lf_read_only = False, lf_hidden = False, lf_system = False,
     lf_archive = False, lf_normal = True\<rparr>"

lemma demo_relative_name: "relative_name demo_clip_file = ''a.txt''"
proof -
  have s: "strip_prefix_text (path_components (lf_relative_root demo_clip_file)) (lf_path demo_clip_file) = Some ''a.txt''" by code_simp
  have "is_str ''a.txt''" by code_simp
  then show ?thesis by (simp add: relative_name_def s to_string_lossy_def)
qed

theorem descriptors_roundtrip_witness:
  "\<exists>pdu. file_list_pdu demo_utf16 [demo_clip_file] = Some pdu
     \<and> parse_file_descriptors True demo_utf16 pdu 7 = Some (Inr [describe 7 demo_clip_file])"
proof -
  have n: "length (to_utf16le demo_utf16 (relative_name demo_clip_file)) = 10" by (simp add: demo_relative_name demo_utf16_def)
  have "file_list_pdu demo_utf16 [demo_clip_file] \<noteq> None" using descriptors_bin_total [of demo_utf16 "[demo_clip_file]"] n
    by (auto simp: file_list_pdu_def)
  then show ?thesis using descriptors_roundtrip [OF demo_utf16_ok, of "[demo_clip_file]" True 7] by (auto split: option.splits)
qed

theorem windows_times_early_witness: "descriptor_time True 0x20 (word_of_nat (134774 * 86400 * 10 ^ 7 + 36610000001)) = Some 100"
  using windows_times_early [of "0x20" 36610000001 True] by (simp add: FLAGS_FD_LAST_WRITE_def del: of_nat_add of_nat_mult)

end
