(* ===== verification/Clip_Serve.thy ===== *)
theory Clip_Serve
  imports Clip_Descriptor
begin

text \<open>
  The copying side of the file clipboard (\<open>serv_files.rs\<close>, \<open>local_file.rs\<close>, \<open>clipboard_file.rs\<close>): the
  list of copied files, reading them through buffered handles, and the answers to the requests
  of the pasting side.

  The disk is an argument of every operation. \<open>None\<close> is a panic; \<open>checks\<close> tells whether the build
  checks for overflow.
\<close>

section \<open>The disk\<close>

text \<open>
  \<open>dk_open\<close> tells the error of opening a file, \<open>dk_data\<close> its bytes or the error of reading; an
  entry of a directory is a path or an error.
\<close>

record disk =
  dk_meta :: "string \<Rightarrow> string + metadata"
  dk_is_file :: "string \<Rightarrow> bool"
  dk_dir :: "string \<Rightarrow> string + (string + string) list"
  dk_open :: "string \<Rightarrow> string option"
  dk_data :: "string \<Rightarrow> string + bytes"

definition dk_is_dir :: "disk \<Rightarrow> string \<Rightarrow> bool" where
  "dk_is_dir D p \<longleftrightarrow> (case dk_meta D p of Inr mt \<Rightarrow> md_is_dir mt | Inl _ \<Rightarrow> False)"

section \<open>The list of files\<close>

text \<open>
  \<open>constr_file_lst\<close>: the pending paths are a stack; a directory is replaced by its entries. It may
  run for ever on an endless tree.
\<close>

partial_function (option) constr_file_lst ::
    "disk \<Rightarrow> string \<Rightarrow> (cliprdr_error + string) list \<Rightarrow> local_file list \<Rightarrow> path_component list list \<Rightarrow> (cliprdr_error + local_file list) option" where
  "constr_file_lst D root pending fl visited =
     (case pending of
        [] \<Rightarrow> Some (Inr fl)
      | Inl e # _ \<Rightarrow> Some (Inl e)
      | Inr p # ps \<Rightarrow>
          if path_components p \<in> set visited then constr_file_lst D root ps fl visited
          else
            (case try_open (dk_meta D) root p of
               Inl e \<Rightarrow> Some (Inl e)
             | Inr f \<Rightarrow>
                 if dk_is_dir D p then
                   (case dk_dir D p of
                      Inl e \<Rightarrow> Some (Inl (FileError (to_string_lossy p) e))
                    | Inr es \<Rightarrow>
                        constr_file_lst D root (map (map_sum (FileError (to_string_lossy p)) id) es @ ps) (fl @ [f]) (path_components p # visited))
                 else constr_file_lst D root ps (fl @ [f]) (path_components p # visited)))"

text \<open>\<open>parent_text\<close> is the text of \<open>Path::parent\<close>.\<close>

definition parent_text :: "string \<Rightarrow> string option" where
  "parent_text p =
     (case path_parent p of
        None \<Rightarrow> None
      | Some cs \<Rightarrow>
          let ts = trim_pieces (butlast (trim_pieces (split_on CHR ''/'' p))) in
          Some (if ts = [] then (if rooted p then ''/'' else if cs = [CurDir] then ''.'' else []) else join_slash ts))"

definition construct_file_list :: "disk \<Rightarrow> string list \<Rightarrow> (cliprdr_error + local_file list) option" where
  "construct_file_list D paths =
     (case paths of
        [] \<Rightarrow> Some (Inl (InvalidRequest ''empty file list''))
      | p # _ \<Rightarrow>
          (case parent_text p of
             None \<Rightarrow> Some (Inl (InvalidRequest ''empty parent''))
           | Some root \<Rightarrow> constr_file_lst D root (map Inr paths) [] []))"

section \<open>Reading a file\<close>

definition BLOCK_SIZE :: nat where "BLOCK_SIZE = 4 * 1024 * 1024"

definition load_handle :: "disk \<Rightarrow> local_file \<Rightarrow> cliprdr_error + local_file" where
  "load_handle D f =
     (if \<not> lf_is_dir f \<and> lf_handle f = None then
        (case dk_open D (lf_path f) of
           Some e \<Rightarrow> Inl (FileError (to_string_lossy (lf_path f)) e)
         | None \<Rightarrow>
             (case dk_data D (lf_path f) of
                Inl e \<Rightarrow> Inl (FileError (to_string_lossy (lf_path f)) e)
              | Inr bs \<Rightarrow> Inr (f\<lparr>lf_handle := Some \<lparr>rd_buf = take (BLOCK_SIZE * 2) bs, rd_pos = 0\<rparr>\<rparr>)))
      else Inr f)"

text \<open>
  \<open>BufReader::read_exact\<close>: the buffer first, then the file; a request of at least the capacity
  goes past the buffer. After an error what was there has been consumed.
\<close>

definition read_exact :: "string + bytes \<Rightarrow> nat \<Rightarrow> buf_reader \<Rightarrow> (string + bytes) \<times> buf_reader" where
  "read_exact data n r =
     (let have = rd_buf r; p = rd_pos r + length have; m = n - length have in
      if n \<le> length have then (Inr (take n have), \<lparr>rd_buf = drop n have, rd_pos = rd_pos r + n\<rparr>)
      else
        (case data of
           Inl e \<Rightarrow> (Inl e, \<lparr>rd_buf = [], rd_pos = p\<rparr>)
         | Inr bs \<Rightarrow>
             let next = take (if m \<ge> BLOCK_SIZE * 2 then m else BLOCK_SIZE * 2) (drop p bs) in
             if m \<le> length next then (Inr (have @ take m next), \<lparr>rd_buf = drop m next, rd_pos = p + m\<rparr>)
             else (Inl ''failed to fill whole buffer'', \<lparr>rd_buf = [], rd_pos = p + length next\<rparr>)))"

definition read_exact_at :: "disk \<Rightarrow> nat \<Rightarrow> u64 \<Rightarrow> local_file \<Rightarrow> (cliprdr_error + bytes) \<times> local_file" where
  "read_exact_at D n offset f =
     (case load_handle D f of
        Inl e \<Rightarrow> (Inl e, f)
      | Inr f \<Rightarrow>
          (case lf_handle f of
             None \<Rightarrow> (Inl (FileError (to_string_lossy (lf_path f)) ''file handle not found''), f)
           | Some r \<Rightarrow>
               let r = (if offset \<noteq> lf_offset f then \<lparr>rd_buf = [], rd_pos = unat offset\<rparr> else r) in
               (case read_exact (dk_data D (lf_path f)) n r of
                  (Inl e, r) \<Rightarrow> (Inl (FileError (to_string_lossy (lf_path f)) e), f\<lparr>lf_handle := Some r\<rparr>)
                | (Inr bs, r) \<Rightarrow>
                    let new_offset = offset + word_of_nat n in
                    (Inr bs, if new_offset \<ge> lf_size f then f\<lparr>lf_offset := 0, lf_handle := None\<rparr>
                             else f\<lparr>lf_offset := new_offset, lf_handle := Some r\<rparr>))))"

section \<open>The served files\<close>

datatype clipboard_file =
    NotifyCallback string string string
  | MonitorReady
  | FormatList "(int \<times> string) list"
  | FormatListResponse int
  | FormatDataRequest int
  | FormatDataResponse int bytes
  | FileContentsRequest u32 u32 u32 u32 u32 u32 bool int
  | FileContentsResponse u32 u32 bytes
  | TryEmpty
  | Files "(string \<times> u64) list"

datatype contents_request =
    SizeRequest u32 usize
  | RangeRequest u32 usize u64 u64

record clip_files =
  cf_files :: "string list"
  cf_file_list :: "local_file list"
  cf_first_file_index :: usize
  cf_files_pdu :: bytes

definition clip_files_default :: clip_files where
  "clip_files_default = \<lparr>cf_files = [], cf_file_list = [], cf_first_file_index = 0, cf_files_pdu = []\<rparr>"

definition clear_files :: "clip_files \<Rightarrow> clip_files" where
  "clear_files cf = \<lparr>cf_files = [], cf_file_list = [], cf_first_file_index = - 1, cf_files_pdu = []\<rparr>"

fun position :: "('a \<Rightarrow> bool) \<Rightarrow> 'a list \<Rightarrow> nat option" where
  "position P [] = None"
| "position P (x # xs) = (if P x then Some 0 else map_option Suc (position P xs))"

text \<open>
  \<open>sync_files\<close>. The outer option is a panic or a listing that does not end; the new state is
  there even if the descriptors cannot be built.
\<close>

definition sync_files :: "disk \<Rightarrow> utf16 \<Rightarrow> string list \<Rightarrow> clip_files \<Rightarrow> (cliprdr_error option \<times> clip_files) option" where
  "sync_files D U files cf =
     (if cf_files cf = files then Some (None, cf)
      else
        (case construct_file_list D files of
           None \<Rightarrow> None
         | Some (Inl e) \<Rightarrow> Some (Some e, cf)
         | Some (Inr fl) \<Rightarrow>
             (case file_list_pdu U fl of
                None \<Rightarrow> None
              | Some pdu \<Rightarrow>
                  Some (None, \<lparr>cf_files = files, cf_file_list = fl,
                    cf_first_file_index = (case position (\<lambda>f. \<not> dk_is_dir D (lf_path f)) fl of Some i \<Rightarrow> word_of_nat i | None \<Rightarrow> - 1),
                    cf_files_pdu = pdu\<rparr>))))"

definition get_files_for_audit :: "disk \<Rightarrow> contents_request \<Rightarrow> clip_files \<Rightarrow> clipboard_file option" where
  "get_files_for_audit D req cf =
     (case req of
        RangeRequest _ file_idx offset _ \<Rightarrow>
          if file_idx = cf_first_file_index cf \<and> offset = 0 then
            let files = map (\<lambda>f. (to_string_lossy (lf_path f), lf_size f)) (filter (\<lambda>f. dk_is_file D (lf_path f)) (cf_file_list cf))
            in if files = [] then None else Some (Files files)
          else None
      | SizeRequest _ _ \<Rightarrow> None)"

text \<open>The handle of the next file is opened ahead.\<close>

fun load_next :: "disk \<Rightarrow> local_file list \<Rightarrow> cliprdr_error + local_file list" where
  "load_next D [] = Inr []"
| "load_next D (f # fs) =
     (if lf_is_dir f then map_sum id (\<lambda>fs. f # fs) (load_next D fs)
      else map_sum id (\<lambda>f. f # fs) (load_handle D f))"

definition hot_reload :: "disk \<Rightarrow> nat \<Rightarrow> clip_files \<Rightarrow> cliprdr_error option \<times> clip_files" where
  "hot_reload D idx cf =
     (case load_next D (drop (idx + 1) (cf_file_list cf)) of
        Inl e \<Rightarrow> (Some e, cf)
      | Inr fs \<Rightarrow> (None, cf\<lparr>cf_file_list := take (idx + 1) (cf_file_list cf) @ fs\<rparr>))"

definition serve_file_contents ::
    "bool \<Rightarrow> disk \<Rightarrow> contents_request \<Rightarrow> clip_files \<Rightarrow> ((cliprdr_error + clipboard_file) \<times> clip_files) option" where
  "serve_file_contents checks D req cf =
     (case req of
        SizeRequest stream_id file_idx \<Rightarrow>
          if unat file_idx < length (cf_file_list cf) then
            let f = cf_file_list cf ! unat file_idx;
                resp = FileContentsResponse 1 stream_id (le_bytes 8 (lf_size f))
            in (case hot_reload D (unat file_idx) cf of
                  (Some e, cf) \<Rightarrow> Some (Inl e, cf)
                | (None, cf) \<Rightarrow> Some (Inr resp, cf))
          else Some (Inl (InvalidRequest ''invalid file index''), cf)
      | RangeRequest stream_id file_idx offset len \<Rightarrow>
          if unat file_idx < length (cf_file_list cf) then
            let f = cf_file_list cf ! unat file_idx in
            if offset > lf_size f then Some (Inl (InvalidRequest ''invalid reading offset''), cf)
            else if checks \<and> unat offset + unat len \<ge> 2 ^ 64 then None
            else
              let read_size = (if offset + len > lf_size f then lf_size f - offset else len) in
              if unat read_size \<ge> 2 ^ 63 then None
              else
                (case read_exact_at D (unat read_size) offset f of
                   (Inl e, f) \<Rightarrow> Some (Inl e, cf\<lparr>cf_file_list := (cf_file_list cf)[unat file_idx := f]\<rparr>)
                 | (Inr bs, f) \<Rightarrow>
                     (case hot_reload D (unat file_idx) (cf\<lparr>cf_file_list := (cf_file_list cf)[unat file_idx := f]\<rparr>) of
                        (Some e, cf) \<Rightarrow> Some (Inl e, cf)
                      | (None, cf) \<Rightarrow> Some (Inr (FileContentsResponse 1 stream_id bs), cf)))
          else Some (Inl (InvalidRequest ''invalid file index''), cf))"

definition contents_request_of :: "u32 \<Rightarrow> u32 \<Rightarrow> u32 \<Rightarrow> u32 \<Rightarrow> u32 \<Rightarrow> u32 \<Rightarrow> contents_request option" where
  "contents_request_of stream_id list_index dw_flags lo hi cb =
     (if dw_flags = 1 then Some (SizeRequest stream_id (scast list_index))
      else if dw_flags = 2 then
        Some (RangeRequest stream_id (scast list_index) (push_bit 32 (scast hi) OR scast lo) (scast cb))
      else None)"

definition read_file_contents ::
    "bool \<Rightarrow> disk \<Rightarrow> u32 \<Rightarrow> u32 \<Rightarrow> u32 \<Rightarrow> u32 \<Rightarrow> u32 \<Rightarrow> u32 \<Rightarrow> clip_files \<Rightarrow>
     ((cliprdr_error + clipboard_file) list \<times> clip_files) option" where
  "read_file_contents checks D stream_id list_index dw_flags lo hi cb cf =
     (case contents_request_of stream_id list_index dw_flags lo hi cb of
        None \<Rightarrow> Some ([Inl (InvalidRequest ''got invalid FileContentsRequest'')], cf)
      | Some req \<Rightarrow>
          (case serve_file_contents checks D req cf of
             None \<Rightarrow> None
           | Some (res, cf') \<Rightarrow>
               Some ((case get_files_for_audit D req cf of Some c \<Rightarrow> [Inr c] | None \<Rightarrow> []) @ [res], cf')))"

section \<open>Messages\<close>

definition FILEDESCRIPTORW_FORMAT_NAME :: string where "FILEDESCRIPTORW_FORMAT_NAME = ''FileGroupDescriptorW''"
definition FILECONTENTS_FORMAT_NAME :: string where "FILECONTENTS_FORMAT_NAME = ''FileContents''"
definition FILEDESCRIPTOR_FORMAT_ID :: int where "FILEDESCRIPTOR_FORMAT_ID = 49334"
definition FILECONTENTS_FORMAT_ID :: int where "FILECONTENTS_FORMAT_ID = 49267"

definition get_local_format :: "int \<Rightarrow> string option" where
  "get_local_format i =
     (if i = FILEDESCRIPTOR_FORMAT_ID then Some FILEDESCRIPTORW_FORMAT_NAME
      else if i = FILECONTENTS_FORMAT_ID then Some FILECONTENTS_FORMAT_NAME else None)"

definition get_format_list :: clipboard_file where
  "get_format_list =
     FormatList [(FILEDESCRIPTOR_FORMAT_ID, case get_local_format FILEDESCRIPTOR_FORMAT_ID of Some s \<Rightarrow> s | None \<Rightarrow> FILEDESCRIPTORW_FORMAT_NAME),
       (FILECONTENTS_FORMAT_ID, case get_local_format FILECONTENTS_FORMAT_ID of Some s \<Rightarrow> s | None \<Rightarrow> FILECONTENTS_FORMAT_NAME)]"

definition resp_file_contents_fail :: "u32 \<Rightarrow> clipboard_file" where
  "resp_file_contents_fail stream_id = FileContentsResponse 2 stream_id []"

definition format_data_failure :: clipboard_file where
  "format_data_failure = FormatDataResponse 2 []"

text \<open>
  The answers of \<open>serve_clip_messages\<close> as far as they need the copied files only; the messages
  for the pasting side (responses and \<open>TryEmpty\<close>) are not answered.
\<close>

definition serve_clip_messages ::
    "bool \<Rightarrow> disk \<Rightarrow> clipboard_file \<Rightarrow> clip_files \<Rightarrow> (clipboard_file list \<times> clip_files) option" where
  "serve_clip_messages checks D clip cf =
     (case clip of
        FormatList formats \<Rightarrow>
          Some (if find (\<lambda>(_, name). name = FILECONTENTS_FORMAT_NAME) formats = None then []
                else (case find (\<lambda>(_, name). name = FILEDESCRIPTORW_FORMAT_NAME) formats of
                        None \<Rightarrow> []
                      | Some (i, _) \<Rightarrow> [FormatDataRequest i]), cf)
      | FormatDataRequest _ \<Rightarrow>
          Some ([if cf_files_pdu cf \<noteq> [] then FormatDataResponse 1 (cf_files_pdu cf) else format_data_failure], cf)
      | FileContentsRequest stream_id list_index dw_flags lo hi cb _ _ \<Rightarrow>
          (case read_file_contents checks D stream_id list_index dw_flags lo hi cb cf of
             None \<Rightarrow> None
           | Some (rs, cf) \<Rightarrow> Some (map (\<lambda>r. case r of Inr c \<Rightarrow> c | Inl _ \<Rightarrow> resp_file_contents_fail stream_id) rs, cf))
      | _ \<Rightarrow> Some ([], cf))"

end
