(* ===== verification/Clip_Listing.thy ===== *)
theory Clip_Listing
  imports Clip_Serve "HOL-Library.Multiset"
begin

text \<open>
  The list of copied files: it ends on every disk whose paths are bounded, and it has each given
  path and each entry of a directory once, a directory before its entries.
\<close>

section \<open>The listing ends\<close>

text \<open>
  The system refuses long paths, and an entry of a directory has a longer path than the
  directory, also behind a link.
\<close>

definition bounded_disk :: "nat \<Rightarrow> disk \<Rightarrow> bool" where
  "bounded_disk N D \<longleftrightarrow> (\<forall>p. length p > N \<longrightarrow> (\<exists>e. dk_meta D p = Inl e))
     \<and> (\<forall>p es q. dk_dir D p = Inr es \<longrightarrow> Inr q \<in> set es \<longrightarrow> length q > length p)"

definition pending_measure :: "nat \<Rightarrow> ('e + string) list \<Rightarrow> nat multiset" where
  "pending_measure N ps = mset (map (\<lambda>x. case x of Inl _ \<Rightarrow> 0 | Inr p \<Rightarrow> Suc N - length p) ps)"

lemma pending_measure_entries:
  assumes "\<And>q. Inr q \<in> set qs \<Longrightarrow> length q > length p" "length p \<le> N"
  shows "(pending_measure N (qs @ ps), pending_measure N (Inr p # ps)) \<in> mult less_than"
proof -
  have "(pending_measure N ps + pending_measure N qs, pending_measure N ps + {#Suc N - length p#}) \<in> mult less_than"
  proof (rule one_step_implies_mult)
    have "(case x of Inl _ \<Rightarrow> 0 | Inr q \<Rightarrow> Suc N - length q) < Suc N - length p" if "x \<in> set qs" for x
    proof (cases x)
      case (Inl e)
      then show ?thesis using assms(2) by simp
    next
      case (Inr q)
      then show ?thesis using that assms(1) [of q] assms(2) by simp
    qed
    then show "\<forall>k\<in>#pending_measure N qs. \<exists>j\<in>#{#Suc N - length p#}. (k, j) \<in> less_than"
      by (auto simp: pending_measure_def)
  qed simp_all
  then show ?thesis by (simp add: pending_measure_def union_commute)
qed

lemma pending_measure_tail: "(pending_measure N ps, pending_measure N (x # ps)) \<in> mult less_than"
proof -
  have "(pending_measure N ps + {#}, pending_measure N ps + {#case x of Inl _ \<Rightarrow> 0 | Inr p \<Rightarrow> Suc N - length p#}) \<in> mult less_than"
    by (rule one_step_implies_mult) simp_all
  then show ?thesis by (simp add: pending_measure_def)
qed

lemma map_entries [simp]:
  "Inr q \<in> map_sum f id ` A \<longleftrightarrow> Inr q \<in> A" "Inl e \<in> map_sum f id ` A \<longleftrightarrow> (\<exists>e'. Inl e' \<in> A \<and> e = f e')"
proof -
  have "Inr q = map_sum f id x \<longleftrightarrow> x = Inr q" for x by (cases x) auto
  then show "Inr q \<in> map_sum f id ` A \<longleftrightarrow> Inr q \<in> A" by (auto simp: image_iff)
  show "Inl e \<in> map_sum f id ` A \<longleftrightarrow> (\<exists>e'. Inl e' \<in> A \<and> e = f e')"
  proof
    assume "Inl e \<in> map_sum f id ` A"
    then obtain x where "x \<in> A" "Inl e = map_sum f id x" by (rule imageE)
    then show "\<exists>e'. Inl e' \<in> A \<and> e = f e'" by (cases x) auto
  next
    assume "\<exists>e'. Inl e' \<in> A \<and> e = f e'"
    then show "Inl e \<in> map_sum f id ` A" by (metis image_eqI map_sum.simps(1))
  qed
qed

lemma constr_file_lst_returns:
  assumes "bounded_disk N D"
  shows "\<exists>r. constr_file_lst D root pending fl visited = Some r"
proof -
  have "wf (mult less_than)" by (intro wf_mult wf_less_than)
  then show ?thesis
  proof (induction "pending_measure N pending" arbitrary: pending fl visited rule: wf_induct_rule)
    case less
    note IH = less
    show ?case
    proof (cases pending)
      case Nil
      then show ?thesis by (simp add: constr_file_lst.simps)
    next
      case (Cons x ps)
      have tail: "\<exists>r. constr_file_lst D root ps fl' visited' = Some r" for fl' visited'
        by (rule IH) (simp add: Cons pending_measure_tail)
      show ?thesis
      proof (cases x)
        case (Inl e)
        then show ?thesis by (simp add: Cons constr_file_lst.simps)
      next
        case (Inr p)
        have "\<exists>r. constr_file_lst D root (map (map_sum (FileError (to_string_lossy p)) id) es @ ps) fl' visited' = Some r"
          if es: "dk_dir D p = Inr es" and mt: "dk_meta D p = Inr mt" for es mt fl' visited'
        proof (rule IH)
          have "length p \<le> N" using mt assms unfolding bounded_disk_def by (metis not_le sum.distinct(1))
          moreover have "length q > length p" if q: "Inr q \<in> set (map (map_sum (FileError (to_string_lossy p)) id) es)" for q
          proof -
            from q have "Inr q \<in> set es" by simp
            then show ?thesis using es assms unfolding bounded_disk_def by blast
          qed
          ultimately show "(pending_measure N (map (map_sum (FileError (to_string_lossy p)) id) es @ ps), pending_measure N pending) \<in> mult less_than"
            unfolding Cons Inr using pending_measure_entries by blast
        qed
        with tail show ?thesis unfolding Cons Inr
          by (subst constr_file_lst.simps) (auto simp: try_open_def Let_def split: sum.splits)
      qed
    qed
  qed
qed

text \<open>
  C29. The listing of the copied files ends, with a list or an error, on every disk that refuses
  paths beyond some length, even if links make its directories loop.
\<close>

theorem listing_ends:
  assumes "bounded_disk N D"
  shows "\<exists>r. construct_file_list D paths = Some r"
  using constr_file_lst_returns [OF assms] by (cases paths) (auto simp: construct_file_list_def split: option.splits)


section \<open>What is listed\<close>

abbreviation lf_components :: "local_file \<Rightarrow> path_component list" where
  "lf_components f \<equiv> path_components (lf_path f)"

text \<open>A path is there because it was given or as an entry of a directory listed before it.\<close>

definition justified :: "disk \<Rightarrow> string list \<Rightarrow> local_file list \<Rightarrow> bool" where
  "justified D paths fl \<longleftrightarrow> (\<forall>i < length fl. lf_path (fl ! i) \<in> set paths
     \<or> (\<exists>j < i. \<exists>es. dk_dir D (lf_path (fl ! j)) = Inr es \<and> Inr (lf_path (fl ! i)) \<in> set es))"

text \<open>The entries of a directory are among \<open>cs\<close>.\<close>

definition entries_in :: "disk \<Rightarrow> path_component list set \<Rightarrow> local_file \<Rightarrow> bool" where
  "entries_in D cs f \<longleftrightarrow> (lf_is_dir f \<longrightarrow>
     (\<exists>es. dk_dir D (lf_path f) = Inr es \<and> (\<forall>e \<in> set es. \<exists>q. e = Inr q \<and> path_components q \<in> cs)))"

lemma entries_in_mono: "entries_in D cs f \<Longrightarrow> cs \<subseteq> cs' \<Longrightarrow> entries_in D cs' f"
  by (fastforce simp: entries_in_def)

lemma justified_snoc:
  assumes j: "justified D paths fl" and f: "lf_path f \<in> set paths \<or> (\<exists>g \<in> set fl. \<exists>es. dk_dir D (lf_path g) = Inr es \<and> Inr (lf_path f) \<in> set es)"
  shows "justified D paths (fl @ [f])"
  unfolding justified_def
proof (intro allI impI)
  fix i assume "i < length (fl @ [f])"
  then consider "i < length fl" | "i = length fl" by fastforce
  then show "lf_path ((fl @ [f]) ! i) \<in> set paths
     \<or> (\<exists>j < i. \<exists>es. dk_dir D (lf_path ((fl @ [f]) ! j)) = Inr es \<and> Inr (lf_path ((fl @ [f]) ! i)) \<in> set es)"
  proof cases
    case 1
    then have "\<And>k. k \<le> i \<Longrightarrow> (fl @ [f]) ! k = fl ! k" by (simp add: nth_append)
    then show ?thesis using j 1 unfolding justified_def by (metis less_imp_le order_refl)
  next
    case 2
    show ?thesis
    proof (cases "lf_path f \<in> set paths")
      case False
      then obtain j es where "j < length fl" "dk_dir D (lf_path (fl ! j)) = Inr es" "Inr (lf_path f) \<in> set es"
        using f by (metis in_set_conv_nth)
      then show ?thesis using 2 by (auto simp: nth_append)
    qed (simp add: 2)
  qed
qed

lemma try_open_facts:
  assumes "try_open (dk_meta D) root p = Inr f"
  shows "lf_path f = p" "lf_is_dir f = dk_is_dir D p" "lf_relative_root f = root" "lf_handle f = None" "lf_offset f = 0"
  using assms by (auto simp: try_open_def Let_def dk_is_dir_def split: sum.splits)

text \<open>
  The state of the loop: what was visited is what is listed; the entries of the listed
  directories are listed or pending, and what is pending has a reason to be.
\<close>

definition listing_inv :: "disk \<Rightarrow> string \<Rightarrow> string list \<Rightarrow> (cliprdr_error + string) list \<Rightarrow> local_file list \<Rightarrow> path_component list list \<Rightarrow> bool" where
  "listing_inv D root paths pending fl visited \<longleftrightarrow>
     set visited = set (map lf_components fl) \<and> distinct (map lf_components fl) \<and> justified D paths fl
     \<and> (\<forall>f \<in> set fl. try_open (dk_meta D) root (lf_path f) = Inr f)
     \<and> (\<forall>p. Inr p \<in> set pending \<longrightarrow> p \<in> set paths \<or> (\<exists>g \<in> set fl. \<exists>es. dk_dir D (lf_path g) = Inr es \<and> Inr p \<in> set es))"

text \<open>What is owed: a path, and the entries of a directory.\<close>

definition owed :: "(cliprdr_error + string) list \<Rightarrow> path_component list set" where
  "owed pending = {path_components p | p. Inr p \<in> set pending}"

definition listing_post ::
    "disk \<Rightarrow> string \<Rightarrow> string list \<Rightarrow> (cliprdr_error + string) list \<Rightarrow> local_file list \<Rightarrow> local_file list \<Rightarrow> bool" where
  "listing_post D root paths pending fl fl' \<longleftrightarrow>
     listing_inv D root paths [] fl' (map lf_components fl') \<and> set (map lf_components fl) \<union> owed pending \<subseteq> set (map lf_components fl')
     \<and> (\<forall>e. Inl e \<notin> set pending) \<and> (\<forall>f \<in> set fl'. f \<in> set fl \<or> entries_in D (set (map lf_components fl')) f)"

lemma owed_simps [simp]: "owed [] = {}" "owed (Inr p # ps) = insert (path_components p) (owed ps)"
  "owed (ps @ qs) = owed ps \<union> owed qs"
  by (auto simp: owed_def)

lemma owed_paths: "owed (map Inr ps) = path_components ` set ps"
  by (auto simp: owed_def)

lemma listing_skip:
  assumes "listing_inv D root paths (Inr p # ps) fl visited" "path_components p \<in> set visited"
  shows "listing_inv D root paths ps fl visited" "listing_post D root paths ps fl fl' \<Longrightarrow> listing_post D root paths (Inr p # ps) fl fl'"
  using assms by (auto simp: listing_inv_def listing_post_def)

lemma listing_take:
  assumes inv: "listing_inv D root paths (Inr p # ps) fl visited" and new: "path_components p \<notin> set visited"
    and f: "try_open (dk_meta D) root p = Inr f"
    and qs: "\<And>q. Inr q \<in> set qs \<Longrightarrow> \<exists>es. dk_dir D p = Inr es \<and> Inr q \<in> set es"
  shows "listing_inv D root paths (qs @ ps) (fl @ [f]) (path_components p # visited)"
proof -
  note f' = try_open_facts [OF f]
  have p: "p \<in> set paths \<or> (\<exists>g \<in> set fl. \<exists>es. dk_dir D (lf_path g) = Inr es \<and> Inr p \<in> set es)"
    using inv by (simp add: listing_inv_def)
  have "justified D paths (fl @ [f])" using inv p f'(1) by (intro justified_snoc) (simp_all add: listing_inv_def)
  moreover have "path_components p \<notin> set (map lf_components fl)" using inv new by (simp add: listing_inv_def)
  moreover have "r \<in> set paths \<or> (\<exists>g \<in> set (fl @ [f]). \<exists>es. dk_dir D (lf_path g) = Inr es \<and> Inr r \<in> set es)"
    if "Inr r \<in> set (qs @ ps)" for r
  proof (cases "Inr r \<in> set qs")
    case True
    then show ?thesis using qs f'(1) by auto
  next
    case False
    then show ?thesis using that inv by (auto simp: listing_inv_def)
  qed
  ultimately show ?thesis using inv f f'(1) by (simp add: listing_inv_def)
qed

lemma listing_taken:
  assumes f: "try_open (dk_meta D) root p = Inr f" and post: "listing_post D root paths (qs @ ps) (fl @ [f]) fl'"
    and qs: "lf_is_dir f \<longrightarrow> (\<exists>es. dk_dir D p = Inr es \<and> qs = map (map_sum (FileError (to_string_lossy p)) id) es)"
  shows "listing_post D root paths (Inr p # ps) fl fl'"
proof -
  note f' = try_open_facts [OF f]
  have "entries_in D (set (map lf_components fl')) f"
    unfolding entries_in_def
  proof
    assume "lf_is_dir f"
    then obtain es where es: "dk_dir D p = Inr es" "qs = map (map_sum (FileError (to_string_lossy p)) id) es" using qs by blast
    have noe: "Inl e \<notin> set es" for e using post by (auto simp: listing_post_def es(2))
    have "\<exists>q. e = Inr q \<and> path_components q \<in> set (map lf_components fl')" if "e \<in> set es" for e
    proof (cases e)
      case (Inr q)
      then have "path_components q \<in> owed qs" using that by (auto simp: owed_def es(2))
      then show ?thesis using post Inr by (auto simp: listing_post_def)
    qed (use that noe in blast)
    then show "\<exists>es. dk_dir D (lf_path f) = Inr es \<and> (\<forall>e \<in> set es. \<exists>q. e = Inr q \<and> path_components q \<in> set (map lf_components fl'))"
      using es(1) f'(1) by blast
  qed
  then show ?thesis using post f'(1) by (auto simp: listing_post_def)
qed

lemma constr_file_lst_correct:
  assumes t: "constr_file_lst D root pending fl visited = Some r"
  shows "\<forall>fl'. r = Inr fl' \<longrightarrow> listing_inv D root paths pending fl visited \<longrightarrow> listing_post D root paths pending fl fl'"
proof (rule constr_file_lst.raw_induct [OF _ t, where P = "\<lambda>D root pending fl visited r. \<forall>fl'. r = Inr fl' \<longrightarrow>
      listing_inv D root paths pending fl visited \<longrightarrow> listing_post D root paths pending fl fl'"], goal_cases)
  case (1 constr D root pending fl visited r)
  show ?case
  proof (intro allI impI)
    fix fl'
    assume r: "r = Inr fl'" and inv: "listing_inv D root paths pending fl visited"
    note IH = 1(1) and eq = 1(2) [unfolded r]
    show "listing_post D root paths pending fl fl'"
    proof (cases pending)
      case Nil
      then show ?thesis using eq inv by (simp add: listing_post_def listing_inv_def)
    next
      case (Cons x ps)
      then obtain p where x: "x = Inr p" using eq by (cases x) auto
      show ?thesis
      proof (cases "path_components p \<in> set visited")
        case True
        then have "constr D root ps fl visited = Some (Inr fl')" using eq by (simp add: Cons x)
        from IH [OF this] show ?thesis using listing_skip [OF inv [unfolded Cons x] True] by (simp add: Cons x)
      next
        case False
        obtain f where f: "try_open (dk_meta D) root p = Inr f"
          using eq False by (cases "try_open (dk_meta D) root p") (auto simp: Cons x)
        obtain qs where c: "constr D root (qs @ ps) (fl @ [f]) (path_components p # visited) = Some (Inr fl')"
            and d: "\<And>q. Inr q \<in> set qs \<Longrightarrow> \<exists>es. dk_dir D p = Inr es \<and> Inr q \<in> set es"
            and e: "lf_is_dir f \<longrightarrow> (\<exists>es. dk_dir D p = Inr es \<and> qs = map (map_sum (FileError (to_string_lossy p)) id) es)"
        proof (cases "dk_is_dir D p")
          case True
          then obtain es where es: "dk_dir D p = Inr es" using eq False f by (cases "dk_dir D p") (auto simp: Cons x)
          show ?thesis
            by (rule that [of "map (map_sum (FileError (to_string_lossy p)) id) es"]) (use eq False f True es in \<open>simp_all add: Cons x\<close>)
        next
          case nd: False
          show ?thesis
            by (rule that [of "[]"]) (use eq False f nd try_open_facts(2) [OF f] in \<open>auto simp: Cons x\<close>)
        qed
        have "listing_post D root paths (qs @ ps) (fl @ [f]) fl'"
          using IH [OF c] listing_take [OF inv [unfolded Cons x] False f d] by blast
        then show ?thesis using listing_taken [OF f _ e] by (simp add: Cons x)
      qed
    qed
  qed
qed


text \<open>
  C28. A listing that succeeds is complete and in order: it has no path twice, every given path and
  every entry of a listed directory is in it, and each path is given or an entry of a directory
  before it. The descriptions are those of the disk.
\<close>

theorem listing_complete:
  assumes "construct_file_list D paths = Some (Inr fl)"
  shows "\<exists>root. parent_text (hd paths) = Some root \<and> distinct (map lf_components fl) \<and> justified D paths fl
    \<and> list_all (\<lambda>f. try_open (dk_meta D) root (lf_path f) = Inr f \<and> entries_in D (set (map lf_components fl)) f) fl
    \<and> path_components ` set paths \<subseteq> set (map lf_components fl)"
proof -
  obtain p ps root where paths: "paths = p # ps" and root: "parent_text p = Some root"
      and c: "constr_file_lst D root (map Inr paths) [] [] = Some (Inr fl)"
    using assms by (auto simp: construct_file_list_def split: list.splits option.splits)
  have "listing_inv D root paths (map Inr paths) [] []" by (auto simp: listing_inv_def justified_def)
  then have "listing_post D root paths (map Inr paths) [] fl" using constr_file_lst_correct [OF c] by blast
  then show ?thesis using root paths by (auto simp: listing_post_def listing_inv_def list_all_iff owed_paths)
qed

text \<open>A listed file is one that can be read as it stands, if the disk lets it.\<close>

lemma listed_readable:
  assumes "construct_file_list D paths = Some (Inr fl)" "f \<in> set fl"
  shows "lf_handle f = None" "lf_offset f = 0" "lf_is_dir f = dk_is_dir D (lf_path f)"
proof -
  from assms(1) obtain p ps root where root: "parent_text p = Some root" and paths: "paths = p # ps"
      and c: "constr_file_lst D root (map Inr paths) [] [] = Some (Inr fl)"
    by (auto simp: construct_file_list_def split: list.splits option.splits)
  have "listing_inv D root paths (map Inr paths) [] []" by (auto simp: listing_inv_def justified_def)
  then have "listing_post D root paths (map Inr paths) [] fl" using constr_file_lst_correct [OF c] by blast
  then have "try_open (dk_meta D) root (lf_path f) = Inr f" using assms(2) by (auto simp: listing_post_def listing_inv_def)
  then show "lf_handle f = None" "lf_offset f = 0" "lf_is_dir f = dk_is_dir D (lf_path f)" using try_open_facts by blast+
qed

section \<open>Witnesses\<close>

text \<open>A disk with a directory that has one file, and one with a link to its own directory.\<close>

definition demo_disk :: disk where
  "demo_disk = \<lparr>dk_meta = (\<lambda>p. if p = ''/h/d'' then Inr \<lparr>md_len = 4096, md_is_dir = True, md_readonly = False, md_mode = 0x41ED, md_modified = Some 0\<rparr>
       else if p = ''/h/d/a'' then Inr \<lparr>md_len = 3, md_is_dir = False, md_readonly = False, md_mode = 0x81A4, md_modified = Some 0\<rparr>
       else Inl ''no such file''),
     dk_is_file = (\<lambda>p. p = ''/h/d/a''), dk_dir = (\<lambda>p. if p = ''/h/d'' then Inr [Inr ''/h/d/a''] else Inl ''not a directory''),
     dk_open = (\<lambda>p. if p = ''/h/d/a'' then None else Some ''no such file''), dk_data = (\<lambda>p. if p = ''/h/d/a'' then Inr [1, 2, 3] else Inl ''no such file'')\<rparr>"

definition loop_disk :: "nat \<Rightarrow> disk" where
  "loop_disk N = demo_disk\<lparr>dk_meta := (\<lambda>p. if length p \<le> N then Inr \<lparr>md_len = 4096, md_is_dir = True, md_readonly = False, md_mode = 0x41ED,
       md_modified = Some 0\<rparr> else Inl ''File name too long''), dk_dir := (\<lambda>p. Inr [Inr (p @ ''/l'')])\<rparr>"

theorem listing_ends_witness: "\<exists>r. construct_file_list (loop_disk 4096) [''/h/d''] = Some r"
  by (rule listing_ends [where N = 4096]) (auto simp: bounded_disk_def loop_disk_def)

lemma demo_listing:
  "\<exists>f g. construct_file_list demo_disk [''/h/d''] = Some (Inr [f, g]) \<and> lf_path f = ''/h/d'' \<and> lf_path g = ''/h/d/a'' \<and> lf_size g = 3"
proof -
  have r: "parent_text ''/h/d'' = Some ''/h''" by code_simp
  have c: "path_components ''/h/d'' \<noteq> path_components ''/h/d/a''" by code_simp
  show ?thesis
    by (simp add: construct_file_list_def r constr_file_lst.simps [of _ _ "_ # _"] constr_file_lst.simps [of _ _ "[]"] try_open_def demo_disk_def
        dk_is_dir_def c [symmetric] Let_def)
qed

theorem listing_complete_witness:
  "\<exists>fl. construct_file_list demo_disk [''/h/d''] = Some (Inr fl) \<and> path_components ''/h/d'' \<in> set (map lf_components fl)"
proof -
  obtain fl where fl: "construct_file_list demo_disk [''/h/d''] = Some (Inr fl)" using demo_listing by blast
  from listing_complete [OF this] fl show ?thesis by auto
qed

end
