(* ===== verification/Clip_Serve_Proofs.thy ===== *)
theory Clip_Serve_Proofs
  imports Clip_Listing
begin

text \<open>
  Properties of the copying side: the handles stay in step with the offsets they are taken for,
  so that every range is served exactly; what is listed; and the requests that go wrong.
\<close>

section \<open>Buffered reading\<close>

text \<open>The buffer holds the bytes of the file at the position of the reader.\<close>

definition reader_ok :: "bytes \<Rightarrow> buf_reader \<Rightarrow> bool" where
  "reader_ok bs r \<longleftrightarrow> rd_pos r + length (rd_buf r) \<le> length bs \<and> rd_buf r = take (length (rd_buf r)) (drop (rd_pos r) bs)"

lemma reader_ok_take: "p \<le> length bs \<Longrightarrow> reader_ok bs \<lparr>rd_buf = take c (drop p bs), rd_pos = p\<rparr>"
  by (cases "c \<le> length bs - p") (auto simp: reader_ok_def)

lemma take_drop_split: "take n (drop p bs) @ take m (drop (p + n) bs) = take (n + m) (drop p bs)"
  using take_add [of n m "drop p bs"] by (simp add: add.commute)

lemma read_exact_ok:
  assumes r: "reader_ok bs r" and n: "rd_pos r + n \<le> length bs"
  obtains r' where "read_exact (Inr bs) n r = (Inr (take n (drop (rd_pos r) bs)), r')" "reader_ok bs r'" "rd_pos r' = rd_pos r + n"
proof (cases "n \<le> length (rd_buf r)")
  case True
  have "take n (rd_buf r) = take n (drop (rd_pos r) bs)" using r True unfolding reader_ok_def by (metis min.absorb1 take_take)
  moreover have "drop n (rd_buf r) = take (length (rd_buf r) - n) (drop (rd_pos r + n) bs)"
    using r unfolding reader_ok_def by (metis add.commute drop_drop drop_take)
  ultimately show ?thesis
    using True reader_ok_take [OF n, of "length (rd_buf r) - n"] that [of "\<lparr>rd_buf = drop n (rd_buf r), rd_pos = rd_pos r + n\<rparr>"]
    by (simp add: read_exact_def Let_def)
next
  case False
  define p m c where "p = rd_pos r + length (rd_buf r)" and "m = n - length (rd_buf r)"
    and "c = (if m \<ge> BLOCK_SIZE * 2 then m else BLOCK_SIZE * 2)"
  have nm: "n = length (rd_buf r) + m" using False by (simp add: m_def)
  have mc: "m \<le> c" by (simp add: c_def)
  have len: "p + m \<le> length bs" using n nm by (simp add: p_def)
  then have fits: "m \<le> length (take c (drop p bs))" using mc by simp
  have data: "rd_buf r @ take m (take c (drop p bs)) = take n (drop (rd_pos r) bs)"
    using r mc take_drop_split [of "length (rd_buf r)" "rd_pos r" bs m] unfolding reader_ok_def p_def nm by (metis min.absorb1 take_take)
  have "drop m (take c (drop p bs)) = take (c - m) (drop (p + m) bs)" by (simp add: drop_take add.commute)
  then have ok: "reader_ok bs \<lparr>rd_buf = drop m (take c (drop p bs)), rd_pos = p + m\<rparr>"
    using reader_ok_take [OF len] by simp
  have "read_exact (Inr bs) n r = (Inr (take n (drop (rd_pos r) bs)), \<lparr>rd_buf = drop m (take c (drop p bs)), rd_pos = p + m\<rparr>)"
    using False fits data unfolding read_exact_def Let_def p_def [symmetric] m_def [symmetric] c_def [symmetric] by simp
  with ok nm show ?thesis using that by (simp add: p_def)
qed

section \<open>Handles in step\<close>

text \<open>
  A file that can be read: its data is at least as long as the recorded size, which is a signed
  64-bit number as the system has it; a handle is at the recorded offset, and without a handle
  the offset is zero.
\<close>

definition file_ok :: "disk \<Rightarrow> local_file \<Rightarrow> bool" where
  "file_ok D f \<longleftrightarrow> (lf_is_dir f \<longrightarrow> lf_handle f = None) \<and> (\<not> lf_is_dir f \<longrightarrow>
     (\<exists>bs. dk_data D (lf_path f) = Inr bs \<and> dk_open D (lf_path f) = None \<and> unat (lf_size f) \<le> length bs \<and> unat (lf_size f) < 2 ^ 63
       \<and> (case lf_handle f of None \<Rightarrow> lf_offset f = 0 | Some r \<Rightarrow> reader_ok bs r \<and> rd_pos r = unat (lf_offset f))))"

lemma load_handle_ok:
  assumes "file_ok D f" "\<not> lf_is_dir f" "dk_data D (lf_path f) = Inr bs"
  obtains r where "load_handle D f = Inr (f\<lparr>lf_handle := Some r\<rparr>)" "reader_ok bs r" "rd_pos r = unat (lf_offset f)"
proof (cases "lf_handle f")
  case None
  let ?r = "\<lparr>rd_buf = take (BLOCK_SIZE * 2) bs, rd_pos = 0\<rparr>"
  have "load_handle D f = Inr (f\<lparr>lf_handle := Some ?r\<rparr>)" "lf_offset f = 0"
    using assms None by (auto simp: load_handle_def file_ok_def)
  then show ?thesis using that [of ?r] reader_ok_take [of 0 bs] by simp
next
  case (Some r)
  moreover have "f\<lparr>lf_handle := Some r\<rparr> = f" using Some by simp
  ultimately show ?thesis using assms that [of r] by (auto simp: load_handle_def file_ok_def)
qed

lemma load_handle_keeps: "file_ok D f \<Longrightarrow> \<exists>f'. load_handle D f = Inr f' \<and> file_ok D f'
    \<and> lf_path f' = lf_path f \<and> lf_size f' = lf_size f \<and> lf_is_dir f' = lf_is_dir f"
proof (cases "lf_is_dir f")
  case False
  assume ok: "file_ok D f"
  then obtain bs where bs: "dk_data D (lf_path f) = Inr bs" using False by (auto simp: file_ok_def)
  obtain r where "load_handle D f = Inr (f\<lparr>lf_handle := Some r\<rparr>)" "reader_ok bs r" "rd_pos r = unat (lf_offset f)"
    using load_handle_ok [OF ok False bs] .
  with ok bs False show ?thesis by (auto simp: file_ok_def)
qed (auto simp: load_handle_def)

lemma read_exact_at_ok:
  assumes ok: "file_ok D f" and f: "\<not> lf_is_dir f" "dk_data D (lf_path f) = Inr bs"
    and n: "unat offset + n \<le> unat (lf_size f)"
  obtains f' where "read_exact_at D n offset f = (Inr (take n (drop (unat offset) bs)), f')" "file_ok D f'"
    "lf_path f' = lf_path f" "lf_size f' = lf_size f" "lf_is_dir f' = lf_is_dir f"
proof -
  obtain r where r: "load_handle D f = Inr (f\<lparr>lf_handle := Some r\<rparr>)" "reader_ok bs r" "rd_pos r = unat (lf_offset f)"
    using load_handle_ok [OF ok f] .
  have le: "unat (lf_size f) \<le> length bs" and op: "dk_open D (lf_path f) = None" using ok f by (auto simp: file_ok_def)
  define r1 where "r1 = (if offset \<noteq> lf_offset f then \<lparr>rd_buf = [], rd_pos = unat offset\<rparr> else r)"
  have r1: "reader_ok bs r1" "rd_pos r1 = unat offset" using r(2,3) n le by (auto simp: r1_def reader_ok_def)
  have fits: "rd_pos r1 + n \<le> length bs" using r1(2) n le by simp
  obtain r2 where r2: "read_exact (Inr bs) n r1 = (Inr (take n (drop (unat offset) bs)), r2)" "reader_ok bs r2" "rd_pos r2 = unat offset + n"
    using read_exact_ok [OF r1(1) fits] r1(2) by metis
  have "unat (lf_size f) < 2 ^ LENGTH(64)" by (rule unsigned_less)
  then have no: "unat (offset + word_of_nat n) = unat offset + n"
    using n by (subst unat_add_lem [THEN iffD1]) (simp_all add: unsigned_of_nat take_bit_nat_eq_self)
  define f' where "f' = (if offset + word_of_nat n \<ge> lf_size f then (f\<lparr>lf_handle := Some r\<rparr>)\<lparr>lf_offset := 0, lf_handle := None\<rparr>
     else (f\<lparr>lf_handle := Some r\<rparr>)\<lparr>lf_offset := offset + word_of_nat n, lf_handle := Some r2\<rparr>)"
  have "read_exact_at D n offset f = (Inr (take n (drop (unat offset) bs)), f')"
    using r(1) f(2) r2(1) by (simp add: read_exact_at_def r1_def [symmetric] f'_def Let_def)
  moreover have "file_ok D f'" using f op le r2 no ok by (simp add: f'_def file_ok_def)
  moreover have "lf_path f' = lf_path f" "lf_size f' = lf_size f" "lf_is_dir f' = lf_is_dir f" by (simp_all add: f'_def)
  ultimately show ?thesis using that by blast
qed


section \<open>Served states\<close>

definition files_ok :: "disk \<Rightarrow> local_file list \<Rightarrow> bool" where
  "files_ok D fs \<longleftrightarrow> list_all (file_ok D) fs"

text \<open>What a request may change of a file.\<close>

definition same_file :: "local_file \<Rightarrow> local_file \<Rightarrow> bool" where
  "same_file f g \<longleftrightarrow> lf_path g = lf_path f \<and> lf_size g = lf_size f \<and> lf_is_dir g = lf_is_dir f"

definition same_files :: "local_file list \<Rightarrow> local_file list \<Rightarrow> bool" where
  "same_files fs gs \<longleftrightarrow> list_all2 same_file fs gs"

lemma same_files_refl [simp]: "same_files fs fs"
  by (simp add: same_files_def same_file_def list_all2_refl)

lemma same_files_trans: "same_files fs gs \<Longrightarrow> same_files gs hs \<Longrightarrow> same_files fs hs"
  unfolding same_files_def by (erule list_all2_trans [rotated], assumption) (simp add: same_file_def)

lemma same_files_nth: "same_files fs gs \<Longrightarrow> i < length fs \<Longrightarrow> same_file (fs ! i) (gs ! i)"
  by (simp add: same_files_def list_all2_nthD)

lemma same_files_length: "same_files fs gs \<Longrightarrow> length gs = length fs"
  by (simp add: same_files_def list_all2_lengthD)

lemma same_files_update: "same_file (fs ! i) g \<Longrightarrow> same_files fs (fs[i := g])"
  by (cases "i < length fs") (auto simp: same_files_def list_all2_conv_all_nth nth_list_update same_file_def)

lemma load_next_ok: "files_ok D fs \<Longrightarrow> \<exists>gs. load_next D fs = Inr gs \<and> files_ok D gs \<and> same_files fs gs"
proof (induction fs)
  case (Cons f fs)
  show ?case
  proof (cases "lf_is_dir f")
    case True
    with Cons show ?thesis by (auto simp: files_ok_def same_files_def same_file_def)
  next
    case False
    from Cons.prems obtain f' where "load_handle D f = Inr f'" "file_ok D f'" "same_file f f'"
      using load_handle_keeps [of D f] by (auto simp: files_ok_def same_file_def)
    with False Cons.prems show ?thesis
      by (auto simp: files_ok_def same_files_def same_file_def list_all2_refl)
  qed
qed (simp add: files_ok_def)

lemma hot_reload_ok:
  assumes "files_ok D (cf_file_list cf)"
  shows "\<exists>cf'. hot_reload D i cf = (None, cf') \<and> files_ok D (cf_file_list cf') \<and> same_files (cf_file_list cf) (cf_file_list cf')
    \<and> cf_files cf' = cf_files cf \<and> cf_files_pdu cf' = cf_files_pdu cf \<and> cf_first_file_index cf' = cf_first_file_index cf"
proof -
  let ?fs = "cf_file_list cf"
  have parts: "files_ok D (take (i + 1) ?fs)" "files_ok D (drop (i + 1) ?fs)"
    using assms by (auto simp: files_ok_def list_all_iff dest: in_set_takeD in_set_dropD)
  obtain gs where gs: "load_next D (drop (i + 1) ?fs) = Inr gs" "files_ok D gs" "same_files (drop (i + 1) ?fs) gs"
    using load_next_ok [OF parts(2)] by blast
  have "same_files (take (i + 1) ?fs @ drop (i + 1) ?fs) (take (i + 1) ?fs @ gs)"
    using gs(3) same_files_refl [of "take (i + 1) ?fs"] unfolding same_files_def by (rule list_all2_appendI [rotated])
  then show ?thesis using gs parts by (simp add: hot_reload_def files_ok_def)
qed

lemma serve_read:
  assumes ok: "files_ok D (cf_file_list cf)" and i: "unat i < length (cf_file_list cf)"
    and f: "f = cf_file_list cf ! unat i" "\<not> lf_is_dir f" "dk_data D (lf_path f) = Inr bs"
    and n: "n = (if offset + len > lf_size f then lf_size f - offset else len)" "unat n < 2 ^ 63" "unat offset + unat n \<le> unat (lf_size f)"
    and off: "offset \<le> lf_size f" "checks \<longrightarrow> unat offset + unat len < 2 ^ 64"
  shows "\<exists>cf'. serve_file_contents checks D (RangeRequest sid i offset len) cf
       = Some (Inr (FileContentsResponse 1 sid (take (unat n) (drop (unat offset) bs))), cf')
     \<and> files_ok D (cf_file_list cf') \<and> same_files (cf_file_list cf) (cf_file_list cf') \<and> cf_files cf' = cf_files cf
     \<and> cf_files_pdu cf' = cf_files_pdu cf"
proof -
  have fok: "file_ok D f" using ok i f(1) by (simp add: files_ok_def list_all_length)
  obtain f' where r: "read_exact_at D (unat n) offset f = (Inr (take (unat n) (drop (unat offset) bs)), f')"
      and f': "file_ok D f'" "lf_path f' = lf_path f" "lf_size f' = lf_size f" "lf_is_dir f' = lf_is_dir f"
    using read_exact_at_ok [OF fok f(2,3) n(3)] .
  define cf1 where "cf1 = cf\<lparr>cf_file_list := (cf_file_list cf)[unat i := f']\<rparr>"
  have ok1: "files_ok D (cf_file_list cf1)" using ok f' by (auto simp: cf1_def files_ok_def list_all_iff dest: set_update_subset_insert [THEN subsetD])
  have same1: "same_files (cf_file_list cf) (cf_file_list cf1)"
    using f' f(1) by (simp add: cf1_def same_files_update same_file_def)
  obtain cf' where cf': "hot_reload D (unat i) cf1 = (None, cf')" "files_ok D (cf_file_list cf')"
      "same_files (cf_file_list cf1) (cf_file_list cf')" "cf_files cf' = cf_files cf1" "cf_files_pdu cf' = cf_files_pdu cf1"
    using hot_reload_ok [OF ok1] by blast
  have "serve_file_contents checks D (RangeRequest sid i offset len) cf
      = Some (Inr (FileContentsResponse 1 sid (take (unat n) (drop (unat offset) bs))), cf')"
    using i off n(2) r cf'(1)
    by (simp add: serve_file_contents_def f(1) [symmetric] n(1) [symmetric] cf1_def [symmetric] Let_def not_less not_le)
  then show ?thesis using cf' same1 same_files_trans by (auto simp: cf1_def)
qed

lemma serve_range:
  assumes ok: "files_ok D (cf_file_list cf)" and i: "unat i < length (cf_file_list cf)"
    and f: "f = cf_file_list cf ! unat i" "\<not> lf_is_dir f" "dk_data D (lf_path f) = Inr bs"
    and off: "offset \<le> lf_size f" "unat len < 2 ^ 63"
  shows "\<exists>cf'. serve_file_contents checks D (RangeRequest sid i offset len) cf
       = Some (Inr (FileContentsResponse 1 sid (take (min (unat len) (unat (lf_size f) - unat offset)) (drop (unat offset) bs))), cf')"
proof -
  define n where "n = (if offset + len > lf_size f then lf_size f - offset else len)"
  have sz: "unat (lf_size f) < 2 ^ 63" using ok i f by (auto simp: files_ok_def file_ok_def list_all_length)
  have o: "unat offset \<le> unat (lf_size f)" using off(1) by (simp add: word_le_nat_alt)
  then have small: "unat offset + unat len < 2 ^ 64" using sz off(2) by simp
  then have sum: "unat (offset + len) = unat offset + unat len" by (subst unat_add_lem [THEN iffD1]) simp_all
  have n: "unat n = min (unat len) (unat (lf_size f) - unat offset)"
    using sum o off(1) by (auto simp: n_def word_less_nat_alt unat_sub)
  have "unat n < 2 ^ 63" "unat offset + unat n \<le> unat (lf_size f)" using n o off(2) by simp_all
  then have "\<exists>cf'. serve_file_contents checks D (RangeRequest sid i offset len) cf
       = Some (Inr (FileContentsResponse 1 sid (take (unat n) (drop (unat offset) bs))), cf')"
    using serve_read [OF ok i f n_def _ _ off(1), where checks = checks and sid = sid] small by blast
  then show ?thesis by (simp add: n)
qed

lemma read_size_bounded:
  assumes "unat (lf_size f) < 2 ^ 63" "offset \<le> lf_size f" "n = (if offset + len > lf_size f then lf_size f - offset else len)" "unat n < 2 ^ 63"
  shows "unat offset + unat n \<le> unat (lf_size f)"
proof (cases "offset + len > lf_size f")
  case True
  then show ?thesis using assms(2,3) by (simp add: unat_sub word_le_nat_alt)
next
  case False
  have "unat offset \<le> unat (lf_size f)" using assms(2) by (simp add: word_le_nat_alt)
  then have "unat offset + unat len < 2 ^ 64" using False assms(1,3,4) by simp
  then have "unat (offset + len) = unat offset + unat len" by (subst unat_add_lem [THEN iffD1]) simp_all
  then show ?thesis using False assms(3) by (simp add: word_less_nat_alt)
qed

lemma serve_keeps:
  assumes ok: "files_ok D (cf_file_list cf)" and s: "serve_file_contents checks D req cf = Some (res, cf')"
  shows "files_ok D (cf_file_list cf') \<and> same_files (cf_file_list cf) (cf_file_list cf')"
proof (cases req)
  case (SizeRequest sid i)
  then show ?thesis using s ok hot_reload_ok [OF ok, of "unat i"]
    by (auto simp: serve_file_contents_def Let_def split: if_splits prod.splits option.splits)
next
  case (RangeRequest sid i offset len)
  define f where "f = cf_file_list cf ! unat i"
  define n where "n = (if offset + len > lf_size f then lf_size f - offset else len)"
  note s' = s [unfolded RangeRequest serve_file_contents_def contents_request.case Let_def f_def [symmetric] n_def [symmetric]]
  show ?thesis
  proof (cases "unat i < length (cf_file_list cf) \<and> offset \<le> lf_size f")
    case False
    then show ?thesis using s' ok by (auto simp: not_le split: if_splits)
  next
    case True
    from s' True have c: "checks \<longrightarrow> unat offset + unat len < 2 ^ 64" and n: "unat n < 2 ^ 63"
      by (auto split: if_splits)
    show ?thesis
    proof (cases "lf_is_dir f")
      case dir: True
      have "lf_handle f = None" using ok True dir by (auto simp: f_def files_ok_def file_ok_def list_all_length)
      then have "read_exact_at D (unat n) offset f = (Inl (FileError (to_string_lossy (lf_path f)) ''file handle not found''), f)"
        using dir by (simp add: read_exact_at_def load_handle_def)
      then have "cf' = cf" using s' True n c by (auto simp: f_def not_less not_le split: if_splits)
      then show ?thesis using ok by simp
    next
      case False
      have fok: "file_ok D f" using ok True by (simp add: f_def files_ok_def list_all_length)
      then obtain bs where bs: "dk_data D (lf_path f) = Inr bs" and sz: "unat (lf_size f) < 2 ^ 63"
        using False by (auto simp: file_ok_def)
      have "unat offset + unat n \<le> unat (lf_size f)" using read_size_bounded [OF sz _ n_def n] True by blast
      then show ?thesis
        using serve_read [OF ok _ f_def False bs n_def n _ _ c, of sid] True s by (auto simp: RangeRequest)
    qed
  qed
qed


lemma clip_messages_keep:
  assumes "files_ok D (cf_file_list cf)" "serve_clip_messages checks D clip cf = Some (out, cf')"
  shows "files_ok D (cf_file_list cf') \<and> same_files (cf_file_list cf) (cf_file_list cf')"
  using assms serve_keeps [OF assms(1)]
  by (cases clip) (auto simp: serve_clip_messages_def read_file_contents_def split: option.splits)

text \<open>The states of the copying side after any messages, on a disk that does not change.\<close>

inductive serve_reach :: "bool \<Rightarrow> disk \<Rightarrow> clip_files \<Rightarrow> clip_files \<Rightarrow> bool" for checks D cf0 where
  start: "serve_reach checks D cf0 cf0"
| message: "serve_reach checks D cf0 cf \<Longrightarrow> serve_clip_messages checks D clip cf = Some (out, cf') \<Longrightarrow> serve_reach checks D cf0 cf'"

lemma serve_reach_ok:
  assumes "serve_reach checks D cf0 cf" "files_ok D (cf_file_list cf0)"
  shows "files_ok D (cf_file_list cf) \<and> same_files (cf_file_list cf0) (cf_file_list cf)"
  using assms
proof (induction rule: serve_reach.induct)
  case (message cf clip out cf')
  then show ?case using clip_messages_keep [of D cf checks clip out cf'] same_files_trans by blast
qed simp

text \<open>Files as they are copied, on a disk where they can be read.\<close>

definition readable :: "disk \<Rightarrow> local_file \<Rightarrow> bool" where
  "readable D f \<longleftrightarrow> lf_handle f = None \<and> lf_offset f = 0 \<and> (\<not> lf_is_dir f \<longrightarrow>
     (\<exists>bs. dk_data D (lf_path f) = Inr bs \<and> dk_open D (lf_path f) = None \<and> unat (lf_size f) \<le> length bs \<and> unat (lf_size f) < 2 ^ 63))"

lemma readable_ok: "list_all (readable D) fl \<Longrightarrow> files_ok D fl"
  by (auto simp: files_ok_def list_all_iff readable_def file_ok_def)

text \<open>The halves of an offset, as the pasting side splits it.\<close>

definition offset_low :: "u64 \<Rightarrow> u32" where "offset_low off = ucast off"
definition offset_high :: "u64 \<Rightarrow> u32" where "offset_high off = ucast (drop_bit 32 off)"

lemma scast_small_offset:
  fixes w :: u32
  assumes "\<not> bit w 31"
  shows "(scast w :: u64) = ucast w"
proof (rule bit_word_eqI)
  fix n assume "n < LENGTH(64)"
  then show "bit (scast w :: u64) n = bit (ucast w :: u64) n"
    using assms by (cases "n < 32") (auto simp: bit_simps min_def le_less dest: bit_imp_le_length)
qed

lemma joined_halves:
  assumes "\<not> bit off 31"
  shows "push_bit 32 (scast (offset_high off)) OR scast (offset_low off) = off"
proof -
  have "scast (offset_low off) = (ucast (offset_low off) :: u64)"
    using assms by (intro scast_small_offset) (simp add: offset_low_def bit_simps)
  moreover have "push_bit 32 (scast (offset_high off)) = (push_bit 32 (drop_bit 32 off) :: u64)"
    by (rule bit_word_eqI) (auto simp: offset_high_def bit_simps)
  ultimately show ?thesis by (simp add: offset_low_def) (rule bit_word_eqI, auto simp: bit_simps)
qed

lemma joined_halves_big:
  assumes "bit off 31"
  shows "unat (push_bit 32 (scast (offset_high off)) OR scast (offset_low off) :: u64) \<ge> 2 ^ 63"
proof -
  have b: "bit (push_bit 32 (scast (offset_high off)) OR scast (offset_low off) :: u64) 63"
    using assms by (simp add: offset_low_def bit_simps)
  show ?thesis
  proof (rule ccontr)
    assume "\<not> ?thesis"
    then show False using bit_unat_less_false [of "push_bit 32 (scast (offset_high off)) OR scast (offset_low off) :: u64" 63 63] b by (simp only: not_le)
  qed
qed


section \<open>Ranges are served exactly\<close>

lemma reached_file:
  assumes "list_all (readable D) (cf_file_list cf0)" "serve_reach checks D cf0 cf" "unat (scast idx :: usize) = i" "i < length (cf_file_list cf0)"
  shows "files_ok D (cf_file_list cf)" "unat (scast idx :: usize) < length (cf_file_list cf)"
    "same_file (cf_file_list cf0 ! i) (cf_file_list cf ! i)"
  using serve_reach_ok [OF assms(2) readable_ok [OF assms(1)]] assms(3,4) same_files_nth same_files_length by metis+

lemma range_served:
  assumes "list_all (readable D) (cf_file_list cf0)" "serve_reach checks D cf0 cf"
    and "unat (scast idx :: usize) = i" "i < length (cf_file_list cf0)"
    and "f = cf_file_list cf0 ! i" "\<not> lf_is_dir f" "dk_data D (lf_path f) = Inr bs"
    and "off \<le> lf_size f" "\<not> bit off 31" "\<not> bit n 31"
  shows "\<exists>audit cf'. serve_clip_messages checks D (FileContentsRequest sid idx 2 (offset_low off) (offset_high off) n have_id clip_id) cf
      = Some (audit @ [FileContentsResponse 1 sid (take (min (unat n) (unat (lf_size f) - unat off)) (drop (unat off) bs))], cf')
    \<and> (audit = [] \<or> (\<exists>fs. audit = [Files fs]) \<and> off = 0)"
proof -
  note r = reached_file [OF assms(1,2,3,4)]
  define g where "g = cf_file_list cf ! unat (scast idx :: usize)"
  have g: "lf_path g = lf_path f" "lf_size g = lf_size f" "lf_is_dir g = lf_is_dir f"
    using r(3) assms(3,5) by (simp_all add: g_def same_file_def)
  have n: "unat (scast n :: u64) = unat n" using scast_small_offset [OF assms(10)] by (simp add: unat_ucast_up)
  have "unat n < 2 ^ LENGTH(32)" by (rule unsigned_less)
  with n have lt: "unat (scast n :: u64) < 2 ^ 63" by simp
  obtain cf' where "serve_file_contents checks D (RangeRequest sid (scast idx) off (scast n)) cf
      = Some (Inr (FileContentsResponse 1 sid (take (min (unat n) (unat (lf_size f) - unat off)) (drop (unat off) bs))), cf')"
    using serve_range [OF r(1,2) g_def, of bs off "scast n" checks sid] g assms(6,7,8) lt n by auto
  moreover have "contents_request_of sid idx 2 (offset_low off) (offset_high off) n = Some (RangeRequest sid (scast idx) off (scast n))"
    by (simp add: contents_request_of_def joined_halves [OF assms(9)])
  ultimately show ?thesis
    by (cases "get_files_for_audit D (RangeRequest sid (scast idx) off (scast n)) cf")
      (auto simp: serve_clip_messages_def read_file_contents_def get_files_for_audit_def Let_def split: if_splits)
qed

text \<open>
  On a disk that does not change, whatever was requested before and in whatever order, a
  request for a range of a copied file is answered with exactly the bytes of the file in that
  range, cut at the recorded size, as long as bit 31 of the offset is not set and the length is
  not negative.
\<close>

theorem ranges_served_exactly:
  assumes "list_all (readable D) (cf_file_list cf0)" "serve_reach checks D cf0 cf"
    and "unat (scast idx :: usize) = i" "i < length (cf_file_list cf0)"
    and "f = cf_file_list cf0 ! i" "\<not> lf_is_dir f" "dk_data D (lf_path f) = Inr bs"
    and "off \<le> lf_size f" "\<not> bit off 31" "\<not> bit n 31"
  shows "\<exists>audit cf'. serve_clip_messages checks D (FileContentsRequest sid idx 2 (offset_low off) (offset_high off) n have_id clip_id) cf
      = Some (audit @ [FileContentsResponse 1 sid (take (min (unat n) (unat (lf_size f) - unat off)) (drop (unat off) bs))], cf')
    \<and> (audit = [] \<or> (\<exists>fs. audit = [Files fs]) \<and> off = 0)"
  by (rule range_served [OF assms])

text \<open>
  C31. A range whose offset has bit 31 set is refused, although the file has it: a file beyond two
  gibibytes cannot be pasted.
\<close>

theorem offsets_with_bit_31_refused:
  assumes "list_all (readable D) (cf_file_list cf0)" "serve_reach checks D cf0 cf"
    and "unat (scast idx :: usize) = i" "i < length (cf_file_list cf0)" "\<not> lf_is_dir (cf_file_list cf0 ! i)" "bit off 31"
  shows "serve_clip_messages checks D (FileContentsRequest sid idx 2 (offset_low off) (offset_high off) n have_id clip_id) cf
      = Some ([FileContentsResponse 2 sid []], cf)"
proof -
  note r = reached_file [OF assms(1-4)]
  define g where "g = cf_file_list cf ! unat (scast idx :: usize)"
  define o' where "o' = (push_bit 32 (scast (offset_high off)) OR scast (offset_low off) :: u64)"
  have big: "unat o' \<ge> 2 ^ 63" unfolding o'_def using joined_halves_big [OF assms(6)] .
  have "file_ok D g" "\<not> lf_is_dir g" using r assms(3,5) by (simp_all add: g_def files_ok_def list_all_length same_file_def)
  then have "lf_size g < o'" using big by (auto simp: file_ok_def word_less_nat_alt)
  moreover have "o' \<noteq> 0" using big by auto
  ultimately show ?thesis using r(2)
    by (simp add: serve_clip_messages_def read_file_contents_def contents_request_of_def o'_def [symmetric] serve_file_contents_def
        g_def [symmetric] Let_def get_files_for_audit_def resp_file_contents_fail_def)
qed

text \<open>
  A request for minus one bytes at an offset inside a file brings the copying side down, with
  and without overflow checks.
\<close>

theorem negative_length_panics:
  assumes "unat (scast idx :: usize) < length (cf_file_list cf)" "f = cf_file_list cf ! unat (scast idx :: usize)"
    and "0 < off" "off \<le> lf_size f" "\<not> bit off 31"
  shows "serve_clip_messages checks D (FileContentsRequest sid idx 2 (offset_low off) (offset_high off) (- 1) have_id clip_id) cf = None"
proof -
  have m: "unat (- 1 :: u64) = 2 ^ 64 - 1" by (simp add: unsigned_minus_1_eq_mask mask_eq_exp_minus_1)
  have o: "unat off > 0" using assms(3) by (simp add: word_less_nat_alt)
  have "off + (- 1) = off - 1" by simp
  moreover have "off - 1 \<le> off" using o unat_sub [of 1 off] by (simp add: word_le_nat_alt)
  ultimately have "\<not> lf_size f < off + (- 1)" using assms(4) by simp
  moreover have "contents_request_of sid idx 2 (offset_low off) (offset_high off) (- 1) = Some (RangeRequest sid (scast idx) off (- 1))"
    by (simp add: contents_request_of_def joined_halves [OF assms(5)])
  ultimately show ?thesis using assms(1,4) o
    by (simp add: serve_clip_messages_def read_file_contents_def serve_file_contents_def assms(2) [symmetric] Let_def m)
qed


section \<open>A read that fails\<close>

lemma read_exact_short:
  assumes r: "reader_ok bs r" and n: "rd_pos r + n > length bs"
  shows "\<exists>e. read_exact (Inr bs) n r = (Inl e, \<lparr>rd_buf = [], rd_pos = length bs\<rparr>)"
proof -
  define p m c where "p = rd_pos r + length (rd_buf r)" and "m = n - length (rd_buf r)"
    and "c = (if m \<ge> BLOCK_SIZE * 2 then m else BLOCK_SIZE * 2)"
  have p: "p \<le> length bs" and len: "\<not> n \<le> length (rd_buf r)" using r n by (simp_all add: reader_ok_def p_def)
  have "length bs - p < m" using n len by (simp add: p_def m_def)
  then have "length (take c (drop p bs)) = length bs - p" by (simp add: c_def)
  with \<open>length bs - p < m\<close> p len show ?thesis
    unfolding read_exact_def Let_def p_def [symmetric] m_def [symmetric] c_def [symmetric] by simp
qed

text \<open>
  A read that fails leaves the handle where the data ended, but not the offset recorded for
  it: when the file has been written again, the next request at the old offset is answered with
  the bytes from that later place.
\<close>

theorem failed_read_misplaces_next:
  assumes "lf_handle f = None" "lf_offset f = 0" "\<not> lf_is_dir f" "dk_open D1 (lf_path f) = None"
    and "dk_data D1 (lf_path f) = Inr bs1" "length bs1 < n" "dk_data D2 (lf_path f) = Inr bs2" "length bs1 + m \<le> length bs2"
  shows "\<exists>e f' f''. read_exact_at D1 n 0 f = (Inl e, f') \<and> read_exact_at D2 m 0 f' = (Inr (take m (drop (length bs1) bs2)), f'')"
proof -
  let ?r = "\<lparr>rd_buf = take (BLOCK_SIZE * 2) bs1, rd_pos = 0\<rparr>"
  have ok: "reader_ok bs1 ?r" using reader_ok_take [of 0 bs1] by simp
  obtain e where e: "read_exact (Inr bs1) n ?r = (Inl e, \<lparr>rd_buf = [], rd_pos = length bs1\<rparr>)"
    using read_exact_short [OF ok, of n] assms(6) by auto
  define r1 where "r1 = \<lparr>rd_buf = [], rd_pos = length bs1\<rparr>"
  define f' where "f' = f\<lparr>lf_handle := Some r1\<rparr>"
  have 1: "read_exact_at D1 n 0 f = (Inl (FileError (to_string_lossy (lf_path f)) e), f')"
    using assms(1-5) e by (simp add: read_exact_at_def load_handle_def f'_def r1_def)
  have ok1: "reader_ok bs2 r1" "rd_pos r1 + m \<le> length bs2" using assms(8) by (simp_all add: r1_def reader_ok_def)
  obtain r2 where "read_exact (Inr bs2) m r1 = (Inr (take m (drop (length bs1) bs2)), r2)"
    using read_exact_ok [OF ok1] by (metis r1_def buf_reader.select_convs(2))
  then have "\<exists>f''. read_exact_at D2 m 0 f' = (Inr (take m (drop (length bs1) bs2)), f'')"
    using assms(2,3,7) by (simp add: read_exact_at_def load_handle_def f'_def Let_def)
  with 1 show ?thesis by blast
qed

section \<open>Witnesses\<close>

definition demo_served :: clip_files where
  "demo_served = \<lparr>cf_files = [''/h/d/a''], cf_file_list = [demo_clip_file\<lparr>lf_path := ''/h/d/a'', lf_size := 3\<rparr>], cf_first_file_index = 0, cf_files_pdu = []\<rparr>"

lemma demo_served_readable: "list_all (readable demo_disk) (cf_file_list demo_served)"
  by (simp add: demo_served_def readable_def demo_disk_def demo_clip_file_def)

theorem ranges_served_exactly_witness:
  "\<exists>audit cf'. serve_clip_messages True demo_disk (FileContentsRequest 9 0 2 (offset_low 1) (offset_high 1) 5 False 0) demo_served
      = Some (audit @ [FileContentsResponse 1 9 [2, 3]], cf')"
proof -
  have f: "cf_file_list demo_served ! 0 = demo_clip_file\<lparr>lf_path := ''/h/d/a'', lf_size := 3\<rparr>" by (simp add: demo_served_def)
  have "\<not> bit (1 :: u64) 31" "\<not> bit (5 :: u32) 31" by code_simp+
  moreover have "unat (scast (0 :: u32) :: usize) = 0" by simp
  ultimately show ?thesis
    using ranges_served_exactly [OF demo_served_readable serve_reach.start, of 0 0, where checks = True and sid = 9 and off = 1 and n = 5 and bs = "[1, 2, 3]" and have_id = False and clip_id = 0] f
    by (fastforce simp: demo_served_def demo_clip_file_def demo_disk_def)
qed

theorem offsets_with_bit_31_refused_witness:
  "serve_clip_messages True demo_disk (FileContentsRequest 9 0 2 (offset_low 0x80000000) (offset_high 0x80000000) 5 False 0) demo_served
      = Some ([FileContentsResponse 2 9 []], demo_served)"
proof -
  have "bit (0x80000000 :: u64) 31" by code_simp
  moreover have "unat (scast (0 :: u32) :: usize) = 0" by simp
  ultimately show ?thesis
    using offsets_with_bit_31_refused [OF demo_served_readable serve_reach.start, of 0 0, where checks = True and sid = 9 and off = "0x80000000" and n = 5 and have_id = False and clip_id = 0]
    by (simp add: demo_served_def demo_clip_file_def)
qed

theorem negative_length_panics_witness:
  "serve_clip_messages False demo_disk (FileContentsRequest 9 0 2 (offset_low 1) (offset_high 1) (- 1) False 0) demo_served = None"
proof -
  have "\<not> bit (1 :: u64) 31" by code_simp
  then show ?thesis using negative_length_panics [of 0 demo_served, where checks = False and D = demo_disk and sid = 9 and off = 1 and have_id = False and clip_id = 0] by (simp add: demo_served_def)
qed

theorem failed_read_misplaces_next_witness:
  "\<exists>e f' f''. read_exact_at (demo_disk\<lparr>dk_data := (\<lambda>_. Inr [7])\<rparr>) 3 0 (demo_clip_file\<lparr>lf_path := ''/h/d/a''\<rparr>) = (Inl e, f')
    \<and> read_exact_at demo_disk 2 0 f' = (Inr [2, 3], f'')"
  using failed_read_misplaces_next [of "demo_clip_file\<lparr>lf_path := ''/h/d/a''\<rparr>" "demo_disk\<lparr>dk_data := (\<lambda>_. Inr [7])\<rparr>" "[7]" 3 demo_disk "[1, 2, 3]" 2]
  by (simp add: demo_clip_file_def demo_disk_def)

end
