(* ===== verification/Clip_Fuse.thy ===== *)
theory Clip_Fuse
  imports Clip_Serve_Proofs
begin

text \<open>
  The pasting side of the file clipboard (\<open>libs/clipboard/src/platform/unix/fuse\<close>): the tree of
  nodes built from the descriptions, the operations of the read-only file system, and the reads
  that are sent to the copying side.

  Inodes and indices are natural numbers; the kernel never asks for inode 0. The numbers drawn for
  the streams and the clock are arguments. No operation marks a node for collection.
\<close>

section \<open>Nodes\<close>

definition FUSE_ROOT_ID :: nat where "FUSE_ROOT_ID = 1"
definition MAX_NAME_LEN :: nat where "MAX_NAME_LEN = 255"
definition READ_RETRY :: nat where "READ_RETRY = 3"

record inode_attributes =
  ia_inode :: nat
  ia_size :: u64
  ia_last_accessed :: int
  ia_last_modified :: int
  ia_last_metadata_changed :: int
  ia_creation_time :: int
  ia_kind :: clip_file_type
  ia_perm :: u16

definition attributes_new :: "int \<Rightarrow> nat \<Rightarrow> u64 \<Rightarrow> u16 \<Rightarrow> clip_file_type \<Rightarrow> inode_attributes" where
  "attributes_new now inode sz perm kind =
     \<lparr>ia_inode = inode, ia_size = sz, ia_last_accessed = now, ia_last_modified = now, ia_last_metadata_changed = now, ia_creation_time = now,
      ia_kind = kind, ia_perm = perm\<rparr>"

definition attributes_from_description :: "int \<Rightarrow> nat \<Rightarrow> file_description \<Rightarrow> inode_attributes" where
  "attributes_from_description now inode d =
     \<lparr>ia_inode = inode, ia_size = fd_size d, ia_last_accessed = now, ia_last_modified = fd_last_modified d,
      ia_last_metadata_changed = fd_last_metadata_changed d, ia_creation_time = fd_creation_time d, ia_kind = fd_kind d, ia_perm = fd_perm d\<rparr>"

record file_handles =
  fh_handlers :: "u64 list"
  fh_gc :: bool

record fuse_node =
  fn_conn_id :: int
  fn_stream_id :: u32
  fn_index :: nat
  fn_parent :: "nat option"
  fn_name :: string
  fn_attributes :: inode_attributes
  fn_children :: "nat list"
  fn_handles :: file_handles

definition handles_new :: file_handles where
  "handles_new = \<lparr>fh_handlers = [], fh_gc = False\<rparr>"

definition node_from_description :: "int \<Rightarrow> u32 \<Rightarrow> nat \<Rightarrow> file_description \<Rightarrow> fuse_node" where
  "node_from_description now rnd inode d =
     \<lparr>fn_conn_id = fd_conn_id d, fn_stream_id = rnd, fn_index = inode - 2, fn_parent = None, fn_name = fd_name d,
      fn_attributes = attributes_from_description now inode d, fn_children = [], fn_handles = handles_new\<rparr>"

definition new_root :: "int \<Rightarrow> u32 \<Rightarrow> fuse_node" where
  "new_root now rnd =
     \<lparr>fn_conn_id = 0, fn_stream_id = rnd, fn_index = 0, fn_parent = None, fn_name = ''/'',
      fn_attributes = attributes_new now FUSE_ROOT_ID 0 PERM_RWX FtDirectory, fn_children = [], fn_handles = handles_new\<rparr>"

definition add_child :: "nat \<Rightarrow> fuse_node \<Rightarrow> fuse_node" where
  "add_child inode n = n\<lparr>fn_children := fn_children n @ [inode]\<rparr>"

section \<open>The tree\<close>

type_synonym sub_roots = "path_component list \<rightharpoonup> nat"

definition parent_inode :: "sub_roots \<Rightarrow> string \<Rightarrow> nat" where
  "parent_inode roots name =
     (case path_parent name of
        Some cs \<Rightarrow> (case roots cs of Some i \<Rightarrow> i | None \<Rightarrow> FUSE_ROOT_ID)
      | None \<Rightarrow> FUSE_ROOT_ID)"

text \<open>One file of the loop of \<open>build_tree\<close>; \<open>rnd\<close> gives the stream of an inode.\<close>

definition tree_step ::
    "int \<Rightarrow> (nat \<Rightarrow> u32) \<Rightarrow> file_description \<Rightarrow> fuse_node list \<times> sub_roots \<Rightarrow> cliprdr_error + fuse_node list \<times> sub_roots" where
  "tree_step now rnd d s =
     (case s of (tree, roots) \<Rightarrow>
        let name = fd_name d;
            inode = length tree + FUSE_ROOT_ID;
            parent = parent_inode roots name;
            tree = tree[parent - 1 := add_child inode (tree ! (parent - 1))]
        in case path_file_name name of
             None \<Rightarrow> Inl (FileError (to_string_lossy name) ''invalid file name'')
           | Some base_name \<Rightarrow>
               let roots = (if fd_kind d = FtDirectory then roots(path_components name \<mapsto> inode) else roots);
                   node = node_from_description now (rnd inode) inode (d\<lparr>fd_name := base_name\<rparr>)
               in Inr (tree @ [node\<lparr>fn_parent := Some parent\<rparr>], roots))"

fun tree_steps ::
    "int \<Rightarrow> (nat \<Rightarrow> u32) \<Rightarrow> file_description list \<Rightarrow> fuse_node list \<times> sub_roots \<Rightarrow> cliprdr_error + fuse_node list \<times> sub_roots" where
  "tree_steps now rnd [] s = Inr s"
| "tree_steps now rnd (d # ds) s = (case tree_step now rnd d s of Inl e \<Rightarrow> Inl e | Inr s \<Rightarrow> tree_steps now rnd ds s)"

definition build_tree :: "int \<Rightarrow> (nat \<Rightarrow> u32) \<Rightarrow> file_description list \<Rightarrow> cliprdr_error + fuse_node list" where
  "build_tree now rnd ds =
     map_sum id fst (tree_steps now rnd ds
       ([new_root now (rnd FUSE_ROOT_ID)], [path_components ''/'' \<mapsto> FUSE_ROOT_ID, path_components [] \<mapsto> FUSE_ROOT_ID]))"

section \<open>Handles\<close>

text \<open>\<open>binary_search\<close> of a sorted vector.\<close>

function binary_search :: "u64 \<Rightarrow> u64 list \<Rightarrow> nat option" where
  "binary_search x xs =
     (if xs = [] then None
      else
        let m = length xs div 2 in
        if xs ! m = x then Some m
        else if x < xs ! m then binary_search x (take m xs)
        else map_option (\<lambda>i. m + 1 + i) (binary_search x (drop (m + 1) xs)))"
  by pat_completeness auto
termination
  by (relation "measure (\<lambda>(x, xs). length xs)") (auto simp: min_def not_le intro: div_less_dividend)

declare binary_search.simps [simp del]

definition have_handler :: "u64 \<Rightarrow> file_handles \<Rightarrow> bool" where
  "have_handler fh h \<longleftrightarrow> binary_search fh (fh_handlers h) \<noteq> None"

text \<open>\<open>None\<close> is the panic of a collected node.\<close>

definition add_handler :: "u64 \<Rightarrow> file_handles \<Rightarrow> file_handles option" where
  "add_handler fh h = (if fh_gc h then None else Some (h\<lparr>fh_handlers := fh_handlers h @ [fh]\<rparr>))"

definition unregister :: "u64 \<Rightarrow> file_handles \<Rightarrow> file_handles option" where
  "unregister fh h =
     (case binary_search fh (fh_handlers h) of
        None \<Rightarrow> None
      | Some i \<Rightarrow> Some (h\<lparr>fh_handlers := take i (fh_handlers h) @ drop (Suc i) (fh_handlers h)\<rparr>))"

section \<open>The server\<close>

datatype errno = ENOENT | ENOTDIR | ENAMETOOLONG | EBUSY | EBADF | ENFILE | EIO

record fuse_server =
  fs_generation :: u64
  fs_files :: "fuse_node list"
  fs_handle_counter :: u64

definition fuse_server_new :: fuse_server where
  "fuse_server_new = \<lparr>fs_generation = 0, fs_files = [], fs_handle_counter = 0\<rparr>"

definition load_file_list :: "int \<Rightarrow> (nat \<Rightarrow> u32) \<Rightarrow> file_description list \<Rightarrow> fuse_server \<Rightarrow> cliprdr_error option \<times> fuse_server" where
  "load_file_list now rnd ds s =
     (case build_tree now rnd ds of
        Inl e \<Rightarrow> (Some e, s)
      | Inr tree \<Rightarrow> (None, s\<lparr>fs_files := tree, fs_generation := fs_generation s + 1\<rparr>))"

definition fuse_init :: "int \<Rightarrow> u32 \<Rightarrow> fuse_server \<Rightarrow> fuse_server" where
  "fuse_init now rnd s = (if fs_files s = [] then s\<lparr>fs_files := [new_root now rnd]\<rparr> else s)"

definition node_at :: "fuse_server \<Rightarrow> nat \<Rightarrow> fuse_node option" where
  "node_at s ino = (if 0 < ino \<and> ino \<le> length (fs_files s) then Some (fs_files s ! (ino - 1)) else None)"

definition fuse_lookup :: "nat \<Rightarrow> string \<Rightarrow> fuse_server \<Rightarrow> errno + inode_attributes \<times> u64" where
  "fuse_lookup parent name s =
     (if length name > MAX_NAME_LEN then Inl ENAMETOOLONG
      else
        (case node_at s parent of
           None \<Rightarrow> Inl ENOENT
         | Some e \<Rightarrow>
             if ia_kind (fn_attributes e) \<noteq> FtDirectory then Inl ENOTDIR
             else
               (case find (\<lambda>i. fn_name (fs_files s ! (i - 1)) = name) (fn_children e) of
                  Some i \<Rightarrow> Inr (fn_attributes (fs_files s ! (i - 1)), fs_generation s)
                | None \<Rightarrow> Inl ENOENT)))"

text \<open>\<open>opendir\<close> and \<open>open\<close> differ in the kind they ask for and the error.\<close>

definition open_node :: "clip_file_type \<Rightarrow> errno \<Rightarrow> nat \<Rightarrow> fuse_server \<Rightarrow> (errno + u64) \<times> fuse_server" where
  "open_node kind err ino s =
     (case node_at s ino of
        None \<Rightarrow> (Inl ENOENT, s)
      | Some e \<Rightarrow>
          if ia_kind (fn_attributes e) \<noteq> kind then (Inl err, s)
          else
            (case add_handler (fs_handle_counter s) (fn_handles e) of
               None \<Rightarrow> (Inl EBUSY, s)
             | Some h \<Rightarrow>
                 (Inr (fs_handle_counter s),
                  s\<lparr>fs_files := (fs_files s)[ino - 1 := e\<lparr>fn_handles := h\<rparr>], fs_handle_counter := fs_handle_counter s + 1\<rparr>)))"

definition fuse_opendir :: "nat \<Rightarrow> fuse_server \<Rightarrow> (errno + u64) \<times> fuse_server" where
  "fuse_opendir = open_node FtDirectory ENOTDIR"

definition fuse_open :: "nat \<Rightarrow> fuse_server \<Rightarrow> (errno + u64) \<times> fuse_server" where
  "fuse_open = open_node FtFile ENFILE"

text \<open>\<open>readdir\<close>: \<open>room\<close> is the number of entries the buffer of the reply takes.\<close>

definition dir_entries :: "fuse_server \<Rightarrow> nat \<Rightarrow> fuse_node \<Rightarrow> (nat \<times> clip_file_type \<times> string) list" where
  "dir_entries s ino e =
     (ino, FtDirectory, ''.'') # (case fn_parent e of Some p \<Rightarrow> [(p, FtDirectory, ''..'')] | None \<Rightarrow> [])
     @ map (\<lambda>i. (i, ia_kind (fn_attributes (fs_files s ! (i - 1))), fn_name (fs_files s ! (i - 1)))) (fn_children e)"

definition fuse_readdir :: "nat \<Rightarrow> u64 \<Rightarrow> nat \<Rightarrow> nat \<Rightarrow> fuse_server \<Rightarrow> errno + (nat \<times> nat \<times> clip_file_type \<times> string) list" where
  "fuse_readdir ino fh offset room s =
     (case node_at s ino of
        None \<Rightarrow> Inl ENOENT
      | Some e \<Rightarrow>
          if \<not> have_handler fh (fn_handles e) then Inl EBADF
          else if ia_kind (fn_attributes e) \<noteq> FtDirectory then Inl ENOTDIR
          else Inr (map (\<lambda>(i, j, k, n). (j, i + 1, k, n)) (take room (drop offset (enumerate 0 (dir_entries s ino e))))))"

definition release_node :: "nat \<Rightarrow> u64 \<Rightarrow> fuse_node \<Rightarrow> fuse_server \<Rightarrow> errno option \<times> fuse_server" where
  "release_node ino fh e s =
     (case unregister fh (fn_handles e) of
        None \<Rightarrow> (Some EBADF, s)
      | Some h \<Rightarrow> (None, s\<lparr>fs_files := (fs_files s)[ino - 1 := e\<lparr>fn_handles := h\<rparr>]\<rparr>))"

definition fuse_releasedir :: "nat \<Rightarrow> u64 \<Rightarrow> fuse_server \<Rightarrow> errno option \<times> fuse_server" where
  "fuse_releasedir ino fh s =
     (case node_at s ino of
        None \<Rightarrow> (Some ENOENT, s)
      | Some e \<Rightarrow>
          if ia_kind (fn_attributes e) \<noteq> FtDirectory then (Some ENOTDIR, s)
          else if \<not> have_handler fh (fn_handles e) then (Some EBADF, s)
          else release_node ino fh e s)"

definition fuse_release :: "nat \<Rightarrow> u64 \<Rightarrow> fuse_server \<Rightarrow> errno option \<times> fuse_server" where
  "fuse_release ino fh s =
     (case node_at s ino of
        None \<Rightarrow> (Some ENOENT, s)
      | Some e \<Rightarrow> release_node ino fh e s)"

definition fuse_getattr :: "nat \<Rightarrow> fuse_server \<Rightarrow> errno + inode_attributes" where
  "fuse_getattr ino s = (case node_at s ino of None \<Rightarrow> Inl ENOENT | Some e \<Rightarrow> Inr (fn_attributes e))"

text \<open>The number of blocks of a file, for \<open>getattr\<close> and \<open>statfs\<close>.\<close>

definition attr_blocks :: "inode_attributes \<Rightarrow> u64" where
  "attr_blocks a =
     (if ia_size a mod word_of_nat BLOCK_SIZE = 0 then ia_size a div word_of_nat BLOCK_SIZE else ia_size a div word_of_nat BLOCK_SIZE + 1)"

definition statfs_blocks :: "fuse_server \<Rightarrow> u64" where
  "statfs_blocks s = foldl (\<lambda>b n. b + (ia_size (fn_attributes n) div word_of_nat BLOCK_SIZE
     + (if ia_size (fn_attributes n) mod word_of_nat BLOCK_SIZE \<noteq> 0 then 1 else 0))) 0 (fs_files s)"

definition list_root :: "fuse_server \<Rightarrow> string list" where
  "list_root s = map (\<lambda>i. fn_name (fs_files s ! (i - 1))) (fn_children (fs_files s ! 0))"

section \<open>Reading from the peer\<close>

text \<open>What the reply channel gives within the timeout.\<close>

datatype reply_event = Reply clipboard_file | NoReply

datatype read_error = TimedOut | FailureRequest | InvalidReply | SendFailed

definition read_request :: "fuse_node \<Rightarrow> u64 \<Rightarrow> u32 \<Rightarrow> clipboard_file" where
  "read_request n offset sz =
     FileContentsRequest (fn_stream_id n) (word_of_nat (fn_index n)) 2 (ucast (offset AND 0xFFFFFFFF)) (ucast (signed_drop_bit 32 offset)) sz False 0"

text \<open>
  The loop of \<open>read_node\<close>: the result, the requests sent again, and the replies left in the
  channel.
\<close>

fun read_replies :: "bool \<Rightarrow> fuse_node \<Rightarrow> clipboard_file \<Rightarrow> nat \<Rightarrow> reply_event list \<Rightarrow> (read_error + bytes) \<times> clipboard_file list \<times> reply_event list" where
  "read_replies send_ok n req retries [] = (Inl TimedOut, [], [])"
| "read_replies send_ok n req retries (NoReply # rs) = (Inl TimedOut, [], rs)"
| "read_replies send_ok n req retries (Reply c # rs) =
     (case c of
        FileContentsResponse msg_flags stream_id data \<Rightarrow>
          if stream_id \<noteq> fn_stream_id n then read_replies send_ok n req retries rs
          else if msg_flags AND 1 = 0 then
            if retries + 1 > READ_RETRY then (Inl FailureRequest, [], rs)
            else if \<not> send_ok then (Inl SendFailed, [], rs)
            else (case read_replies send_ok n req (retries + 1) rs of (r, sent, rs) \<Rightarrow> (r, req # sent, rs))
          else (Inr data, [], rs)
      | _ \<Rightarrow> (Inl InvalidReply, [], rs))"

definition read_node ::
    "bool \<Rightarrow> fuse_node \<Rightarrow> u64 \<Rightarrow> u32 \<Rightarrow> reply_event list \<Rightarrow> (read_error + bytes) \<times> clipboard_file list \<times> reply_event list" where
  "read_node send_ok n offset sz rs =
     (let req = read_request n offset sz in
      if \<not> send_ok then (Inl SendFailed, [], rs)
      else (case read_replies send_ok n req 0 rs of (r, sent, rs) \<Rightarrow> (r, req # sent, rs)))"

definition fuse_read ::
    "bool \<Rightarrow> nat \<Rightarrow> u64 \<Rightarrow> u64 \<Rightarrow> u32 \<Rightarrow> reply_event list \<Rightarrow> fuse_server \<Rightarrow> (errno + bytes) \<times> clipboard_file list \<times> reply_event list" where
  "fuse_read send_ok ino fh offset sz rs s =
     (case node_at s ino of
        None \<Rightarrow> (Inl ENOENT, [], rs)
      | Some e \<Rightarrow>
          if \<not> have_handler fh (fn_handles e) then (Inl EBADF, [], rs)
          else if ia_kind (fn_attributes e) \<noteq> FtFile then (Inl ENFILE, [], rs)
          else if fh_gc (fn_handles e) then (Inl EBUSY, [], rs)
          else
            (case read_node send_ok e offset sz rs of
               (Inl _, sent, rs) \<Rightarrow> (Inl EIO, sent, rs)
             | (Inr bs, sent, rs) \<Rightarrow> (Inr bs, sent, rs)))"

section \<open>The context\<close>

text \<open>
  \<open>FuseContext\<close>: the server, its channel and the connection that set the clipboard.
  \<open>format_data_response_to_urls\<close> loads a list of descriptors and gives the names at the mount point.
\<close>

record fuse_context =
  fc_server :: fuse_server
  fc_channel :: "reply_event list"
  fc_mount_point :: string
  fc_conn_id :: int

definition empty_local_files :: "int \<Rightarrow> (nat \<Rightarrow> u32) \<Rightarrow> int \<Rightarrow> fuse_context \<Rightarrow> bool \<times> fuse_context" where
  "empty_local_files now rnd conn_id c =
     (if conn_id \<noteq> 0 \<and> fc_conn_id c \<noteq> conn_id then (False, c)
      else (True, c\<lparr>fc_server := snd (load_file_list now rnd [] (fc_server c))\<rparr>))"

definition format_data_response_to_urls ::
    "bool \<Rightarrow> utf16 \<Rightarrow> int \<Rightarrow> (nat \<Rightarrow> u32) \<Rightarrow> bytes \<Rightarrow> int \<Rightarrow> fuse_context \<Rightarrow> ((cliprdr_error + string list) \<times> fuse_context) option" where
  "format_data_response_to_urls checks U now rnd data conn_id c =
     (case parse_file_descriptors checks U data conn_id of
        None \<Rightarrow> None
      | Some (Inl e) \<Rightarrow> Some (Inl e, c)
      | Some (Inr ds) \<Rightarrow>
          (case load_file_list now rnd ds (fc_server c) of
             (Some e, s) \<Rightarrow> Some (Inl e, c\<lparr>fc_server := s\<rparr>)
           | (None, s) \<Rightarrow>
               Some (Inr (map (\<lambda>p. to_string_lossy (fc_mount_point c @ ''/'' @ p)) (list_root s)), c\<lparr>fc_server := s, fc_conn_id := conn_id\<rparr>)))"

definition handle_file_content_response :: "clipboard_file \<Rightarrow> fuse_context \<Rightarrow> fuse_context" where
  "handle_file_content_response clip c = c\<lparr>fc_channel := fc_channel c @ [Reply clip]\<rparr>"

end
