(* ===== verification/Clip_Fuse_Proofs.thy ===== *)
theory Clip_Fuse_Proofs
  imports Clip_Fuse
begin

text \<open>
  Properties of the pasting side: the shape of the tree, the open handles, and that a read gets
  the bytes of the copied file.
\<close>

section \<open>Open handles\<close>

text \<open>A set of handles that are handed out in increasing order.\<close>

locale handle_set =
  fixes isin :: "u64 \<Rightarrow> 'h \<Rightarrow> bool"
    and add :: "u64 \<Rightarrow> 'h \<Rightarrow> 'h option"
    and remove :: "u64 \<Rightarrow> 'h \<Rightarrow> 'h option"
    and members :: "'h \<Rightarrow> u64 set"
    and invar :: "'h \<Rightarrow> bool"
  assumes isin: "invar h \<Longrightarrow> isin x h \<longleftrightarrow> x \<in> members h"
    and add: "invar h \<Longrightarrow> (\<And>y. y \<in> members h \<Longrightarrow> y < x) \<Longrightarrow> \<exists>h'. add x h = Some h' \<and> invar h' \<and> members h' = insert x (members h)"
    and remove: "invar h \<Longrightarrow> (case remove x h of None \<Rightarrow> x \<notin> members h | Some h' \<Rightarrow> x \<in> members h \<and> invar h' \<and> members h' = members h - {x})"
begin

lemma remove_Some: "invar h \<Longrightarrow> x \<in> members h \<Longrightarrow> \<exists>h'. remove x h = Some h' \<and> invar h' \<and> members h' = members h - {x}"
  using remove [of h x] by (auto split: option.splits)

lemma remove_None: "invar h \<Longrightarrow> x \<notin> members h \<Longrightarrow> remove x h = None"
  using remove [of h x] by (auto split: option.splits)

lemma removed_gone: "invar h \<Longrightarrow> remove x h = Some h' \<Longrightarrow> invar h' \<and> \<not> isin x h'"
  using remove [of h x] isin by auto

end

lemma sorted_wrt_less_nth: "sorted_wrt (<) (xs :: 'a::linorder list) \<Longrightarrow> i < length xs \<Longrightarrow> j < length xs \<Longrightarrow> xs ! i < xs ! j \<longleftrightarrow> i < j"
  by (metis linorder_neqE_nat order_less_asym' sorted_wrt_nth_less)

lemma binary_search_correct:
  assumes "sorted_wrt (<) xs"
  shows "case binary_search x xs of None \<Rightarrow> x \<notin> set xs | Some i \<Rightarrow> i < length xs \<and> xs ! i = x"
  using assms
proof (induction x xs rule: binary_search.induct)
  case (1 x xs)
  show ?case
  proof (cases "xs = []")
    case False
    define m where "m = length xs div 2"
    have m: "m < length xs" using False by (simp add: m_def)
    have split: "xs = take m xs @ xs ! m # drop (m + 1) xs" using m by (simp add: id_take_nth_drop)
    have sorted: "sorted_wrt (<) (take m xs)" "sorted_wrt (<) (drop (m + 1) xs)"
        "\<forall>y \<in> set (take m xs). y < xs ! m" "\<forall>y \<in> set (drop (m + 1) xs). xs ! m < y"
      using 1(3) by (subst (asm) split, simp add: sorted_wrt_append)+
    have mem: "x \<in> set xs \<longleftrightarrow> x \<in> set (take m xs) \<or> x = xs ! m \<or> x \<in> set (drop (m + 1) xs)"
      by (subst split) auto
    consider "xs ! m = x" | "x < xs ! m" | "xs ! m < x" by (metis linorder_neqE)
    then show ?thesis
    proof cases
      case 1
      then show ?thesis using m False by (simp add: binary_search.simps [of x xs] m_def [symmetric])
    next
      case 2
      then have "case binary_search x (take m xs) of None \<Rightarrow> x \<notin> set (take m xs) | Some i \<Rightarrow> i < length (take m xs) \<and> take m xs ! i = x"
        using "1.IH"(1) [OF False m_def _ _ sorted(1)] by (metis less_irrefl)
      moreover have "x \<notin> set (drop (m + 1) xs)" "x \<noteq> xs ! m" using 2 sorted(4) by (auto dest: order_less_asym)
      ultimately show ?thesis using False 2 mem
        by (auto simp: binary_search.simps [of x xs] m_def [symmetric] split: option.splits)
    next
      case 3
      then have "case binary_search x (drop (m + 1) xs) of None \<Rightarrow> x \<notin> set (drop (m + 1) xs)
          | Some i \<Rightarrow> i < length (drop (m + 1) xs) \<and> drop (m + 1) xs ! i = x"
        using "1.IH"(2) [OF False m_def _ _ sorted(2)] by (metis less_irrefl order_less_asym)
      moreover have "x \<notin> set (take m xs)" "x \<noteq> xs ! m" "\<not> x < xs ! m" using 3 sorted(3) by (auto dest: order_less_asym)
      ultimately show ?thesis using False 3 mem
        by (auto simp: binary_search.simps [of x xs] m_def [symmetric] add.commute split: option.splits)
    qed
  qed (simp add: binary_search.simps)
qed

definition handles_ok :: "file_handles \<Rightarrow> bool" where
  "handles_ok h \<longleftrightarrow> sorted_wrt (<) (fh_handlers h) \<and> \<not> fh_gc h"

interpretation fh: handle_set have_handler add_handler unregister "\<lambda>h. set (fh_handlers h)" handles_ok
proof
  fix h :: file_handles and x
  assume ok: "handles_ok h"
  note s = binary_search_correct [of "fh_handlers h" x]
  from ok have sorted: "sorted_wrt (<) (fh_handlers h)" by (simp add: handles_ok_def)
  show "have_handler x h \<longleftrightarrow> x \<in> set (fh_handlers h)"
    using s sorted by (auto simp: have_handler_def split: option.splits)
  show "case unregister x h of None \<Rightarrow> x \<notin> set (fh_handlers h)
      | Some h' \<Rightarrow> x \<in> set (fh_handlers h) \<and> handles_ok h' \<and> set (fh_handlers h') = set (fh_handlers h) - {x}"
  proof (cases "binary_search x (fh_handlers h)")
    case None
    then show ?thesis using s sorted by (simp add: unregister_def)
  next
    case (Some i)
    then have i: "i < length (fh_handlers h)" "fh_handlers h ! i = x" using s sorted by auto
    define a b where "a = take i (fh_handlers h)" and "b = drop (Suc i) (fh_handlers h)"
    have split: "fh_handlers h = a @ x # b" using i id_take_nth_drop [OF i(1)] by (simp add: a_def b_def)
    have "sorted_wrt (<) (a @ b)" "x \<notin> set a" "x \<notin> set b" using sorted unfolding split by (auto simp: sorted_wrt_append)
    moreover have "unregister x h = Some (h\<lparr>fh_handlers := a @ b\<rparr>)" by (simp add: unregister_def Some a_def b_def)
    ultimately show ?thesis using ok by (auto simp: handles_ok_def split)
  qed
next
  fix h :: file_handles and x
  assume "handles_ok h" "\<And>y. y \<in> set (fh_handlers h) \<Longrightarrow> y < x"
  then show "\<exists>h'. add_handler x h = Some h' \<and> handles_ok h' \<and> set (fh_handlers h') = insert x (set (fh_handlers h))"
    by (auto simp: add_handler_def handles_ok_def sorted_wrt_append)
qed


section \<open>Handles of the server\<close>

definition open_handles :: "fuse_server \<Rightarrow> (nat \<times> u64) set" where
  "open_handles s = {(ino, fh). \<exists>e. node_at s ino = Some e \<and> fh \<in> set (fh_handlers (fn_handles e))}"

definition server_ok :: "fuse_server \<Rightarrow> bool" where
  "server_ok s \<longleftrightarrow> list_all (\<lambda>e. handles_ok (fn_handles e) \<and> (\<forall>fh \<in> set (fh_handlers (fn_handles e)). fh < fs_handle_counter s)) (fs_files s)
     \<and> (\<forall>i j fh. (i, fh) \<in> open_handles s \<longrightarrow> (j, fh) \<in> open_handles s \<longrightarrow> i = j)"

lemma node_at_ok: "server_ok s \<Longrightarrow> node_at s ino = Some e \<Longrightarrow> handles_ok (fn_handles e) \<and> (\<forall>fh \<in> set (fh_handlers (fn_handles e)). fh < fs_handle_counter s)"
  by (fastforce simp: server_ok_def node_at_def list_all_iff split: if_splits)

lemma open_handle_iff: "node_at s ino = Some e \<Longrightarrow> (ino, fh) \<in> open_handles s \<longleftrightarrow> fh \<in> set (fh_handlers (fn_handles e))"
  by (simp add: open_handles_def)

lemma node_at_update:
  "node_at s ino = Some e \<Longrightarrow> node_at (s\<lparr>fs_files := (fs_files s)[ino - 1 := e']\<rparr>) i = (if i = ino then Some e' else node_at s i)"
  by (auto simp: node_at_def nth_list_update split: if_splits)

lemma node_at_counter [simp]: "node_at (s\<lparr>fs_handle_counter := c\<rparr>) i = node_at s i"
  by (simp add: node_at_def)

lemma counter_fresh: "server_ok s \<Longrightarrow> (i, fs_handle_counter s) \<notin> open_handles s"
  using node_at_ok by (fastforce simp: open_handles_def)

lemma less_next:
  assumes "c \<noteq> - 1" "(x :: u64) < c \<or> x = c"
  shows "x < c + 1"
proof -
  have "unat c \<noteq> 2 ^ 64 - 1"
  proof
    assume "unat c = 2 ^ 64 - 1"
    then have "unat c = unat (- 1 :: u64)" by (simp add: unsigned_minus_1_eq_mask mask_eq_exp_minus_1)
    then show False using assms(1) by (simp add: word_unat_eq_iff)
  qed
  moreover have "unat c < 2 ^ LENGTH(64)" by (rule unsigned_less)
  ultimately have "unat (c + 1) = unat c + 1" by (subst unat_add_lem [THEN iffD1]) simp_all
  then show ?thesis using assms(2) by (auto simp: word_less_nat_alt)
qed

lemma server_ok_update:
  assumes ok: "server_ok s" and e: "node_at s ino = Some e" and h: "handles_ok h" and c: "\<And>fh. fh < fs_handle_counter s \<Longrightarrow> fh < c"
    "\<And>fh. fh \<in> set (fh_handlers h) \<Longrightarrow> fh < c" "\<And>fh. fh \<in> set (fh_handlers h) \<Longrightarrow> (ino, fh) \<in> open_handles s \<or> fh = fs_handle_counter s"
  shows "server_ok (s\<lparr>fs_files := (fs_files s)[ino - 1 := e\<lparr>fn_handles := h\<rparr>], fs_handle_counter := c\<rparr>)"
    "open_handles (s\<lparr>fs_files := (fs_files s)[ino - 1 := e\<lparr>fn_handles := h\<rparr>], fs_handle_counter := c\<rparr>)
       = {(i, fh). if i = ino then fh \<in> set (fh_handlers h) else (i, fh) \<in> open_handles s}"
proof -
  let ?s = "s\<lparr>fs_files := (fs_files s)[ino - 1 := e\<lparr>fn_handles := h\<rparr>], fs_handle_counter := c\<rparr>"
  show o: "open_handles ?s = {(i, fh). if i = ino then fh \<in> set (fh_handlers h) else (i, fh) \<in> open_handles s}"
    using node_at_update [OF e, of "e\<lparr>fn_handles := h\<rparr>"] by (auto simp: open_handles_def split: if_splits)
  have "list_all (\<lambda>e. handles_ok (fn_handles e) \<and> (\<forall>fh \<in> set (fh_handlers (fn_handles e)). fh < c)) (fs_files ?s)"
    using ok h c(1,2) by (auto simp: server_ok_def list_all_iff dest!: set_update_subset_insert [THEN subsetD])
  moreover have "i = j" if "(i, fh) \<in> open_handles ?s" "(j, fh) \<in> open_handles ?s" for i j fh
  proof -
    have uniq: "\<And>i j fh. (i, fh) \<in> open_handles s \<Longrightarrow> (j, fh) \<in> open_handles s \<Longrightarrow> i = j" using ok by (simp add: server_ok_def)
    have "(k, fh) \<in> open_handles s \<or> k = ino \<and> fh = fs_handle_counter s" if "(k, fh) \<in> open_handles ?s" for k
      using that c(3) unfolding o by (auto split: if_splits)
    with that uniq counter_fresh [OF ok] show ?thesis by metis
  qed
  ultimately show "server_ok ?s" by (simp add: server_ok_def)
qed

lemma open_node_Inr:
  assumes "open_node kind err ino s = (Inr fh, s')"
  shows "\<exists>e h. node_at s ino = Some e \<and> add_handler (fs_handle_counter s) (fn_handles e) = Some h \<and> fh = fs_handle_counter s
    \<and> s' = s\<lparr>fs_files := (fs_files s)[ino - 1 := e\<lparr>fn_handles := h\<rparr>], fs_handle_counter := fs_handle_counter s + 1\<rparr>"
proof (cases "node_at s ino")
  case (Some e)
  then show ?thesis using assms
    by (cases "add_handler (fs_handle_counter s) (fn_handles e)") (auto simp: open_node_def split: if_split_asm)
qed (use assms in \<open>simp add: open_node_def\<close>)

lemma open_node_Inl: "open_node kind err ino s = (Inl e, s') \<Longrightarrow> s' = s"
  by (simp add: open_node_def split: option.split_asm if_split_asm)

lemma open_node_exact:
  assumes ok: "server_ok s" and c: "fs_handle_counter s \<noteq> - 1" and o: "open_node kind err ino s = (r, s')"
  shows "case r of Inl _ \<Rightarrow> s' = s
    | Inr fh \<Rightarrow> fh = fs_handle_counter s \<and> server_ok s' \<and> open_handles s' = insert (ino, fh) (open_handles s)"
proof (cases r)
  case (Inr fh)
  then obtain e h where e: "node_at s ino = Some e" and h: "add_handler (fs_handle_counter s) (fn_handles e) = Some h"
      and s': "s' = s\<lparr>fs_files := (fs_files s)[ino - 1 := e\<lparr>fn_handles := h\<rparr>], fs_handle_counter := fs_handle_counter s + 1\<rparr>"
      and fh: "fh = fs_handle_counter s"
    using o open_node_Inr by blast
  note n = node_at_ok [OF ok e]
  then have "\<exists>h'. add_handler fh (fn_handles e) = Some h' \<and> handles_ok h' \<and> set (fh_handlers h') = insert fh (set (fh_handlers (fn_handles e)))"
    unfolding fh by (intro fh.add) blast+
  then have h': "handles_ok h" "set (fh_handlers h) = insert fh (set (fh_handlers (fn_handles e)))" using h by (simp_all add: fh)
  note u = server_ok_update [OF ok e h'(1), of "fs_handle_counter s + 1", folded s']
  have lt: "x < fs_handle_counter s \<or> x = fs_handle_counter s \<Longrightarrow> x < fs_handle_counter s + 1" for x using less_next [OF c] .
  have "server_ok s'" "open_handles s' = {(i, x). if i = ino then x \<in> set (fh_handlers h) else (i, x) \<in> open_handles s}"
    using u lt h'(2) n open_handle_iff [OF e] unfolding fh by blast+
  then show ?thesis using Inr fh h'(2) open_handle_iff [OF e] by auto
qed (use o open_node_Inl in auto)

lemma release_node_exact:
  assumes ok: "server_ok s" and e: "node_at s ino = Some e" and r: "release_node ino fh e s = (r, s')"
  shows "if (ino, fh) \<in> open_handles s then r = None \<and> server_ok s' \<and> open_handles s' = open_handles s - {(ino, fh)}
    else r = Some EBADF \<and> s' = s"
proof (cases "(ino, fh) \<in> open_handles s")
  case True
  note n = node_at_ok [OF ok e]
  obtain h where h: "unregister fh (fn_handles e) = Some h" "handles_ok h" "set (fh_handlers h) = set (fh_handlers (fn_handles e)) - {fh}"
    using fh.remove_Some [of "fn_handles e" fh] n True open_handle_iff [OF e] by auto
  have s': "r = None" "s' = s\<lparr>fs_files := (fs_files s)[ino - 1 := e\<lparr>fn_handles := h\<rparr>], fs_handle_counter := fs_handle_counter s\<rparr>"
    using r h(1) by (auto simp: release_node_def)
  note u = server_ok_update [OF ok e h(2), of "fs_handle_counter s", folded s'(2)]
  have "server_ok s'" "open_handles s' = {(i, x). if i = ino then x \<in> set (fh_handlers h) else (i, x) \<in> open_handles s}"
    using u h(3) n open_handle_iff [OF e] by auto
  then show ?thesis using True s'(1) h(3) open_handle_iff [OF e] by auto
next
  case False
  then show ?thesis using r fh.remove_None [of "fn_handles e" fh] node_at_ok [OF ok e] open_handle_iff [OF e] by (auto simp: release_node_def)
qed


section \<open>The tree is the listing\<close>

lemma split_on_pieces_free: "x \<in> set (split_on c s) \<Longrightarrow> c \<notin> set x"
proof (induction c s arbitrary: x rule: split_on.induct)
  case (2 c d s)
  then show ?case by (cases "split_on c s") (auto split: if_splits)
qed simp

text \<open>A name that cannot lead out of its directory.\<close>

definition plain_name :: "string \<Rightarrow> bool" where
  "plain_name s \<longleftrightarrow> s \<noteq> [] \<and> s \<noteq> ''.'' \<and> s \<noteq> ''..'' \<and> CHR ''/'' \<notin> set s"

lemma path_file_name_plain: "path_file_name p = Some s \<Longrightarrow> plain_name s"
proof -
  assume a: "path_file_name p = Some s"
  then have "NormalComp s \<in> set (path_components p)"
    by (auto simp: path_file_name_def split: list.splits path_component.splits if_splits) (metis last_in_set list.distinct(1) list.set_intros(2) set_ConsD)+
  then have "NormalComp s \<in> set (body_components (split_on CHR ''/'' p))" by (auto simp: path_components_def split: if_splits)
  then show ?thesis by (auto simp: body_components_def piece_component_def trivial_piece_def plain_name_def split_on_pieces_free split: if_splits)
qed

lemma path_file_name_proper: "path_file_name p = Some s \<Longrightarrow> path_components p \<noteq> [] \<and> path_components p \<noteq> [RootDir]"
  by (auto simp: path_file_name_def)

text \<open>The last directory before the file \<open>i\<close> with the given path, and the inode of the parent.\<close>

fun latest_dir :: "file_description list \<Rightarrow> nat \<Rightarrow> path_component list \<Rightarrow> nat option" where
  "latest_dir ds 0 cs = None"
| "latest_dir ds (Suc i) cs =
     (if fd_kind (ds ! i) = FtDirectory \<and> path_components (fd_name (ds ! i)) = cs then Some i else latest_dir ds i cs)"

definition parent_of :: "file_description list \<Rightarrow> nat \<Rightarrow> nat" where
  "parent_of ds i =
     (case path_parent (fd_name (ds ! i)) of
        None \<Rightarrow> 1
      | Some cs \<Rightarrow> (case latest_dir ds i cs of Some j \<Rightarrow> j + 2 | None \<Rightarrow> 1))"

lemma latest_dir_prefix: "i \<le> length ds \<Longrightarrow> latest_dir (ds @ ds') i cs = latest_dir ds i cs"
  by (induction i) (auto simp: nth_append)

lemma latest_dir_Some: "latest_dir ds i cs = Some j \<Longrightarrow> j < i \<and> fd_kind (ds ! j) = FtDirectory \<and> path_components (fd_name (ds ! j)) = cs"
  by (induction i) (auto split: if_splits)

lemma parent_of_prefix: "i < length ds \<Longrightarrow> parent_of (ds @ ds') i = parent_of ds i"
  by (cases "path_parent (fd_name (ds ! i))") (simp_all add: parent_of_def nth_append latest_dir_prefix)

lemma parent_of_bounds: "1 \<le> parent_of ds i \<and> parent_of ds i \<le> i + 1"
  by (auto simp: parent_of_def dest: latest_dir_Some split: option.splits)

text \<open>The node of a description, up to its children.\<close>

definition node_of :: "file_description list \<Rightarrow> nat \<Rightarrow> fuse_node \<Rightarrow> bool" where
  "node_of ds i n \<longleftrightarrow> fn_index n = i \<and> ia_inode (fn_attributes n) = i + 2 \<and> fn_parent n = Some (parent_of ds i)
     \<and> path_file_name (fd_name (ds ! i)) = Some (fn_name n) \<and> ia_kind (fn_attributes n) = fd_kind (ds ! i)
     \<and> ia_size (fn_attributes n) = fd_size (ds ! i) \<and> fn_conn_id n = fd_conn_id (ds ! i) \<and> fn_handles n = handles_new"

definition children_of :: "file_description list \<Rightarrow> nat \<Rightarrow> nat list" where
  "children_of ds ino = filter (\<lambda>j. parent_of ds (j - 2) = ino) [2..<length ds + 2]"

definition tree_inv :: "file_description list \<Rightarrow> fuse_node list \<times> sub_roots \<Rightarrow> bool" where
  "tree_inv ds s \<longleftrightarrow> (case s of (tree, roots) \<Rightarrow>
     length tree = length ds + 1
     \<and> fn_parent (tree ! 0) = None \<and> ia_kind (fn_attributes (tree ! 0)) = FtDirectory \<and> fn_handles (tree ! 0) = handles_new
     \<and> (\<forall>i < length ds. node_of ds i (tree ! (i + 1)))
     \<and> (\<forall>k < length tree. fn_children (tree ! k) = children_of ds (k + 1))
     \<and> roots = (\<lambda>cs. if cs = [] \<or> cs = [RootDir] then Some 1 else map_option (\<lambda>j. j + 2) (latest_dir ds (length ds) cs)))"

lemma node_of_add_child [simp]: "node_of ds i (add_child j n) = node_of ds i n"
  by (simp add: node_of_def add_child_def)

lemma node_of_prefix: "i < length ds \<Longrightarrow> node_of (ds @ ds') i n = node_of ds i n"
  by (simp add: node_of_def parent_of_prefix nth_append)

lemma children_of_snoc:
  "children_of (ds @ [d]) ino = children_of ds ino @ (if parent_of (ds @ [d]) (length ds) = ino then [length ds + 2] else [])"
proof -
  have "[2..<length (ds @ [d]) + 2] = [2..<length ds + 2] @ [length ds + 2]" by simp
  moreover have "filter (\<lambda>j. parent_of (ds @ [d]) (j - 2) = ino) [2..<length ds + 2] = filter (\<lambda>j. parent_of ds (j - 2) = ino) [2..<length ds + 2]"
    by (rule filter_cong) (auto simp: parent_of_prefix)
  ultimately show ?thesis by (simp add: children_of_def del: upt_Suc)
qed


lemma no_root_entry:
  assumes "tree_inv ds (tree, roots)" "cs = [] \<or> cs = [RootDir]"
  shows "latest_dir ds (length ds) cs = None"
proof (rule ccontr)
  assume "latest_dir ds (length ds) cs \<noteq> None"
  then obtain j where j: "j < length ds" "path_components (fd_name (ds ! j)) = cs" using latest_dir_Some by blast
  then have "path_file_name (fd_name (ds ! j)) = Some (fn_name (tree ! (j + 1)))" using assms(1) by (simp add: tree_inv_def node_of_def)
  from path_file_name_proper [OF this] j(2) assms(2) show False by simp
qed

lemma parent_inode_of:
  assumes "tree_inv ds (tree, roots)"
  shows "parent_inode roots (fd_name d) = parent_of (ds @ [d]) (length ds)"
proof -
  have r: "roots = (\<lambda>cs. if cs = [] \<or> cs = [RootDir] then Some 1 else map_option (\<lambda>j. j + 2) (latest_dir ds (length ds) cs))"
    using assms by (simp add: tree_inv_def)
  show ?thesis
  proof (cases "path_parent (fd_name d)")
    case None
    then show ?thesis by (simp add: parent_inode_def parent_of_def FUSE_ROOT_ID_def)
  next
    case (Some cs)
    then show ?thesis using no_root_entry [OF assms, of cs]
      by (auto simp: parent_inode_def parent_of_def FUSE_ROOT_ID_def r latest_dir_prefix split: option.splits)
  qed
qed

lemma tree_step_inv:
  assumes inv: "tree_inv ds s" and s': "tree_step now rnd d s = Inr s'"
  shows "tree_inv (ds @ [d]) s'"
proof -
  obtain tree roots where s: "s = (tree, roots)" by fastforce
  note I = inv [unfolded s]
  define p where "p = parent_of (ds @ [d]) (length ds)"
  have len: "length tree = length ds + 1" using I by (simp add: tree_inv_def)
  have p: "1 \<le> p" "p \<le> length ds + 1" using parent_of_bounds [of "ds @ [d]" "length ds"] by (simp_all add: p_def)
  have pi: "parent_inode roots (fd_name d) = p" using parent_inode_of [OF I] by (simp add: p_def)
  obtain b where b: "path_file_name (fd_name d) = Some b" using s' by (auto simp: tree_step_def s Let_def split: option.splits)
  define tree1 where "tree1 = tree[p - 1 := add_child (length tree + 1) (tree ! (p - 1))]"
  define n where "n = (node_from_description now (rnd (length tree + 1)) (length tree + 1) (d\<lparr>fd_name := b\<rparr>))\<lparr>fn_parent := Some p\<rparr>"
  define roots1 where "roots1 = (if fd_kind d = FtDirectory then roots(path_components (fd_name d) \<mapsto> length tree + 1) else roots)"
  have eq: "s' = (tree1 @ [n], roots1)"
    using s' by (auto simp: tree_step_def s Let_def pi b FUSE_ROOT_ID_def tree1_def n_def roots1_def)
  have len1: "length tree1 = length ds + 1" by (simp add: tree1_def len)
  have nth1: "tree1 ! k = (if k = p - 1 then add_child (length tree + 1) (tree ! k) else tree ! k)" if "k < length tree" for k
    using that by (auto simp: tree1_def nth_list_update)
  have new: "node_of (ds @ [d]) (length ds) n"
    using b by (simp add: node_of_def n_def node_from_description_def attributes_from_description_def len p_def)
  have old: "node_of (ds @ [d]) i (tree1 ! (i + 1))" if "i < length ds" for i
  proof -
    have "node_of ds i (tree ! (i + 1))" using that I by (simp add: tree_inv_def)
    then have "node_of ds i (tree1 ! (i + 1))" using nth1 [of "i + 1"] that len by (auto simp del: add_Suc_right split: if_splits)
    then show ?thesis using that by (simp add: node_of_prefix)
  qed
  have nodes: "\<forall>i < length (ds @ [d]). node_of (ds @ [d]) i ((tree1 @ [n]) ! (i + 1))"
    using new old len1 by (auto simp: nth_append less_Suc_eq)
  have root: "fn_parent (tree1 ! 0) = None" "ia_kind (fn_attributes (tree1 ! 0)) = FtDirectory" "fn_handles (tree1 ! 0) = handles_new"
    using I nth1 [of 0] len by (simp_all add: tree_inv_def add_child_def)
  have kids: "\<forall>k < length (tree1 @ [n]). fn_children ((tree1 @ [n]) ! k) = children_of (ds @ [d]) (k + 1)"
  proof (intro allI impI)
    fix k assume "k < length (tree1 @ [n])"
    then consider "k < length tree" | "k = length ds + 1" using len len1 by fastforce
    then show "fn_children ((tree1 @ [n]) ! k) = children_of (ds @ [d]) (k + 1)"
    proof cases
      case 1
      then show ?thesis using I nth1 [OF 1] len len1 p
        by (auto simp: nth_append tree_inv_def children_of_snoc add_child_def p_def [symmetric])
    next
      case 2
      have "parent_of (ds @ [d]) (j - 2) \<noteq> k + 1" if "j < length (ds @ [d]) + 2" for j
        using parent_of_bounds [of "ds @ [d]" "j - 2"] that 2 by simp linarith
      then have "children_of (ds @ [d]) (k + 1) = []" unfolding children_of_def filter_empty_conv by (metis atLeastLessThan_iff set_upt)
      then show ?thesis using 2 len1 by (simp add: nth_append n_def node_from_description_def)
    qed
  qed
  have "path_components (fd_name d) \<noteq> [] \<and> path_components (fd_name d) \<noteq> [RootDir]" using path_file_name_proper [OF b] .
  then have "roots1 = (\<lambda>cs. if cs = [] \<or> cs = [RootDir] then Some 1 else map_option (\<lambda>j. j + 2) (latest_dir (ds @ [d]) (length (ds @ [d])) cs))"
    using I len by (auto simp: roots1_def tree_inv_def fun_eq_iff latest_dir_prefix)
  with nodes root kids len1 show ?thesis by (simp add: eq tree_inv_def nth_append)
qed

lemma tree_steps_inv: "tree_steps now rnd ds s = Inr s' \<Longrightarrow> tree_inv pre s \<Longrightarrow> tree_inv (pre @ ds) s'"
proof (induction ds arbitrary: s pre)
  case (Cons d ds)
  then obtain s1 where "tree_step now rnd d s = Inr s1" "tree_steps now rnd ds s1 = Inr s'" by (auto split: sum.splits)
  with Cons.IH [of s1 "pre @ [d]"] tree_step_inv Cons.prems(2) show ?case by fastforce
qed simp

lemma build_tree_inv:
  assumes "build_tree now rnd ds = Inr tree"
  shows "\<exists>roots. tree_inv ds (tree, roots)"
proof -
  have "path_components ''/'' = [RootDir]" "path_components [] = []" by code_simp+
  then have "tree_inv [] ([new_root now (rnd FUSE_ROOT_ID)], [path_components ''/'' \<mapsto> FUSE_ROOT_ID, path_components [] \<mapsto> FUSE_ROOT_ID])"
    by (auto simp: tree_inv_def new_root_def attributes_new_def FUSE_ROOT_ID_def children_of_def handles_new_def)
  moreover obtain roots where "tree_steps now rnd ds ([new_root now (rnd FUSE_ROOT_ID)],
      [path_components ''/'' \<mapsto> FUSE_ROOT_ID, path_components [] \<mapsto> FUSE_ROOT_ID]) = Inr (tree, roots)"
    using assms by (cases "tree_steps now rnd ds ([new_root now (rnd FUSE_ROOT_ID)],
      [path_components ''/'' \<mapsto> FUSE_ROOT_ID, path_components [] \<mapsto> FUSE_ROOT_ID])") (auto simp: build_tree_def)
  ultimately show ?thesis using tree_steps_inv [of now rnd ds _ _ "[]"] by fastforce
qed


text \<open>
  C16. The tree is the listing: one node per description after the root, in order, with the size,
  the kind and the index under which the peer knows the file. The parent of a node is the last
  directory before it whose path is the parent of its path, or else the root; the children of a
  node are those that have it for a parent. No name leads out of its directory.
\<close>

theorem tree_faithful:
  assumes "build_tree now rnd ds = Inr tree"
  shows "length tree = length ds + 1 \<and> fn_parent (tree ! 0) = None
    \<and> (\<forall>i < length ds. node_of ds i (tree ! (i + 1)) \<and> plain_name (fn_name (tree ! (i + 1))) \<and> parent_of ds i \<le> i + 1
         \<and> ia_kind (fn_attributes (tree ! (parent_of ds i - 1))) = FtDirectory)
    \<and> (\<forall>k < length tree. fn_children (tree ! k) = children_of ds (k + 1))"
proof -
  obtain roots where inv: "tree_inv ds (tree, roots)" using build_tree_inv [OF assms] by blast
  have dir: "ia_kind (fn_attributes (tree ! (parent_of ds i - 1))) = FtDirectory" if "i < length ds" for i
  proof (cases "parent_of ds i = 1")
    case True
    then show ?thesis using inv by (simp add: tree_inv_def)
  next
    case False
    then obtain j cs where j: "latest_dir ds i cs = Some j" "parent_of ds i = j + 2" by (auto simp: parent_of_def split: option.splits)
    then have "node_of ds j (tree ! (j + 1))" "fd_kind (ds ! j) = FtDirectory" using latest_dir_Some [OF j(1)] that inv by (auto simp: tree_inv_def)
    then show ?thesis using j(2) by (simp add: node_of_def)
  qed
  have "plain_name (fn_name (tree ! (i + 1)))" if "i < length ds" for i
    using inv that path_file_name_plain by (auto simp: tree_inv_def node_of_def)
  then show ?thesis using inv dir parent_of_bounds by (simp add: tree_inv_def)
qed

section \<open>Handles over a run\<close>

text \<open>
  A run of the file system: the set grows by each handle handed out, shrinks by each released one
  and is empty when files are loaded.
\<close>

inductive fuse_run :: "fuse_server \<Rightarrow> (nat \<times> u64) set \<Rightarrow> bool" where
  new: "fuse_run fuse_server_new {}"
| init: "fuse_run s H \<Longrightarrow> fuse_run (fuse_init now r s) H"
| load: "fuse_run s H \<Longrightarrow> load_file_list now rnd ds s = (None, s') \<Longrightarrow> fuse_run s' {}"
| opened: "fuse_run s H \<Longrightarrow> fs_handle_counter s \<noteq> - 1 \<Longrightarrow> fuse_open ino s = (Inr fh, s') \<or> fuse_opendir ino s = (Inr fh, s')
    \<Longrightarrow> fuse_run s' (insert (ino, fh) H)"
| released: "fuse_run s H \<Longrightarrow> fuse_release ino fh s = (None, s') \<or> fuse_releasedir ino fh s = (None, s') \<Longrightarrow> fuse_run s' (H - {(ino, fh)})"

lemma fresh_tree_ok:
  assumes "list_all (\<lambda>e. fn_handles e = handles_new) (fs_files s)"
  shows "server_ok s" "open_handles s = {}"
proof -
  show o: "open_handles s = {}" using assms by (auto simp: open_handles_def node_at_def list_all_length handles_new_def split: if_splits)
  show "server_ok s" using assms by (auto simp: server_ok_def o list_all_iff handles_new_def handles_ok_def)
qed

lemma load_fresh:
  assumes "load_file_list now rnd ds s = (None, s')"
  shows "list_all (\<lambda>e. fn_handles e = handles_new) (fs_files s')"
proof -
  obtain tree where t: "build_tree now rnd ds = Inr tree" "fs_files s' = tree"
    using assms by (auto simp: load_file_list_def split: sum.splits)
  obtain roots where inv: "tree_inv ds (tree, roots)" using build_tree_inv [OF t(1)] by blast
  have "fn_handles (tree ! k) = handles_new" if "k < length tree" for k
    using that inv by (cases k) (auto simp: tree_inv_def node_of_def)
  then show ?thesis by (simp add: t(2) list_all_length)
qed

lemma fuse_release_exact:
  assumes ok: "server_ok s" and r: "fuse_release ino fh s = (None, s') \<or> fuse_releasedir ino fh s = (None, s')"
  shows "(ino, fh) \<in> open_handles s \<and> server_ok s' \<and> open_handles s' = open_handles s - {(ino, fh)}"
proof -
  obtain e where e: "node_at s ino = Some e" "release_node ino fh e s = (None, s')"
    using r by (auto simp: fuse_release_def fuse_releasedir_def split: option.splits if_splits)
  from release_node_exact [OF ok e] show ?thesis by (simp split: if_splits)
qed

lemma fuse_run_ok: "fuse_run s H \<Longrightarrow> server_ok s \<and> H = open_handles s"
proof (induction rule: fuse_run.induct)
  case new
  show ?case using fresh_tree_ok [of fuse_server_new] by (simp add: fuse_server_new_def)
next
  case (init s H now r)
  show ?case
  proof (cases "fs_files s = []")
    case True
    then have "open_handles s = {}" by (simp add: open_handles_def node_at_def)
    with init True show ?thesis using fresh_tree_ok [of "fuse_init now r s"] by (simp add: fuse_init_def new_root_def)
  qed (use init in \<open>simp add: fuse_init_def\<close>)
next
  case (load s H now rnd ds s')
  show ?case using fresh_tree_ok [OF load_fresh [OF load.hyps(2)]] by simp
next
  case (opened s H ino fh s')
  then show ?case using open_node_exact [of s _ _ ino "Inr fh" s'] by (auto simp: fuse_open_def fuse_opendir_def)
next
  case (released s H ino fh s')
  then show ?case using fuse_release_exact [of s ino fh s'] by blast
qed

text \<open>
  C30. The handles of a run are exact: a handle that is handed out is in use on no node, it is
  accepted for reading and release on the node it was opened on and on no other, and no longer
  once it was released or new files were loaded.
\<close>

theorem handles_exact:
  assumes "fuse_run s H" "node_at s ino = Some e"
  shows "(have_handler fh (fn_handles e) \<longleftrightarrow> (ino, fh) \<in> H) \<and> (fst (fuse_release ino fh s) = None \<longleftrightarrow> (ino, fh) \<in> H)
    \<and> (fuse_readdir ino fh off room s = Inl EBADF \<longleftrightarrow> (ino, fh) \<notin> H)
    \<and> (fuse_open ino s = (Inr fh, s') \<longrightarrow> (\<forall>i. (i, fh) \<notin> H)) \<and> ((ino, fh) \<in> H \<longrightarrow> (i, fh) \<in> H \<longrightarrow> i = ino)"
proof -
  have ok: "server_ok s" and H: "H = open_handles s" using fuse_run_ok [OF assms(1)] by auto
  have h: "have_handler fh (fn_handles e) \<longleftrightarrow> (ino, fh) \<in> H"
    using fh.isin node_at_ok [OF ok assms(2)] open_handle_iff [OF assms(2)] H by blast
  obtain r s1 where r: "release_node ino fh e s = (r, s1)" by fastforce
  have "fst (fuse_release ino fh s) = None \<longleftrightarrow> (ino, fh) \<in> H"
    using release_node_exact [OF ok assms(2) r] H r assms(2) by (auto simp: fuse_release_def split: if_splits)
  moreover have "fuse_readdir ino fh off room s = Inl EBADF \<longleftrightarrow> (ino, fh) \<notin> H"
    using h assms(2) by (auto simp: fuse_readdir_def)
  moreover have "(i, fh) \<notin> H" if "fuse_open ino s = (Inr fh, s')" for i
    using open_node_Inr [of FtFile ENFILE ino s fh s'] that counter_fresh [OF ok] H by (auto simp: fuse_open_def)
  moreover have "(ino, fh) \<in> H \<longrightarrow> (i, fh) \<in> H \<longrightarrow> i = ino" using ok H by (auto simp: server_ok_def)
  ultimately show ?thesis using h by blast
qed

end
