(* ===== verification/Clip_Paste.thy ===== *)
theory Clip_Paste
  imports Clip_Fuse_Proofs
begin

text \<open>
  The messages that carry the file clipboard (\<open>src/clipboard_file.rs\<close>), the channels of the
  connections (\<open>libs/clipboard/src/lib.rs\<close>), and copying and pasting put together: what is read
  from the mounted tree is what the peer has on its disk.
\<close>

section \<open>Messages\<close>

text \<open>The messages of the protocol buffer that the clipboard uses.\<close>

datatype wire_message =
    WireMessageBox string string string string
  | WireReady
  | WireFormatList "(int \<times> string) list"
  | WireFormatListResponse int
  | WireFormatDataRequest int
  | WireFormatDataResponse int bytes
  | WireFileContentsRequest u32 u32 u32 u32 u32 u32 bool int
  | WireFileContentsResponse u32 u32 bytes
  | WireTryEmpty
  | WireFiles "(string \<times> u64) list"

text \<open>A file of unknown size is looked up; it is left out if it is gone.\<close>

definition audit_entry :: "disk \<Rightarrow> string \<times> u64 \<Rightarrow> (string \<times> u64) option" where
  "audit_entry D f =
     (case f of (name, s) \<Rightarrow>
        if s = 0 then (case dk_meta D name of Inr mt \<Rightarrow> Some (name, md_len mt) | Inl _ \<Rightarrow> None) else Some (name, s))"

fun clip_2_msg :: "disk \<Rightarrow> clipboard_file \<Rightarrow> wire_message" where
  "clip_2_msg D (NotifyCallback ty title txt) = WireMessageBox ty title txt []"
| "clip_2_msg D MonitorReady = WireReady"
| "clip_2_msg D (FormatList formats) = WireFormatList formats"
| "clip_2_msg D (FormatListResponse fl) = WireFormatListResponse fl"
| "clip_2_msg D (FormatDataRequest i) = WireFormatDataRequest i"
| "clip_2_msg D (FormatDataResponse fl data) = WireFormatDataResponse fl data"
| "clip_2_msg D (FileContentsRequest sid idx fl lo hi cb have_id clip_id) = WireFileContentsRequest sid idx fl lo hi cb have_id clip_id"
| "clip_2_msg D (FileContentsResponse fl sid data) = WireFileContentsResponse fl sid data"
| "clip_2_msg D TryEmpty = WireTryEmpty"
| "clip_2_msg D (Files fs) = WireFiles (List.map_filter (audit_entry D) fs)"

fun msg_2_clip :: "wire_message \<Rightarrow> clipboard_file option" where
  "msg_2_clip WireReady = Some MonitorReady"
| "msg_2_clip (WireFormatList formats) = Some (FormatList formats)"
| "msg_2_clip (WireFormatListResponse fl) = Some (FormatListResponse fl)"
| "msg_2_clip (WireFormatDataRequest i) = Some (FormatDataRequest i)"
| "msg_2_clip (WireFormatDataResponse fl data) = Some (FormatDataResponse fl data)"
| "msg_2_clip (WireFileContentsRequest sid idx fl lo hi cb have_id clip_id) = Some (FileContentsRequest sid idx fl lo hi cb have_id clip_id)"
| "msg_2_clip (WireFileContentsResponse fl sid data) = Some (FileContentsResponse fl sid data)"
| "msg_2_clip WireTryEmpty = Some TryEmpty"
| "msg_2_clip _ = None"

definition is_stopping_allowed :: "clipboard_file \<Rightarrow> bool" where
  "is_stopping_allowed c = (case c of MonitorReady \<Rightarrow> True | FormatList _ \<Rightarrow> True | FormatDataRequest _ \<Rightarrow> True | _ \<Rightarrow> False)"

definition is_beginning_message :: "clipboard_file \<Rightarrow> bool" where
  "is_beginning_message c = (case c of MonitorReady \<Rightarrow> True | FormatList _ \<Rightarrow> True | _ \<Rightarrow> False)"

section \<open>Channels of the connections\<close>

record msg_channel =
  mc_peer_id :: string
  mc_conn_id :: int
  mc_queue :: "clipboard_file list"

record channels =
  VEC_MSG_CHANNEL :: "msg_channel list"
  CLIENT_CONN_ID_COUNTER :: int

definition get_client_conn_id :: "string \<Rightarrow> channels \<Rightarrow> int option" where
  "get_client_conn_id peer_id c = map_option mc_conn_id (find (\<lambda>x. mc_peer_id x = peer_id) (VEC_MSG_CHANNEL c))"

definition get_conn_id :: "channels \<Rightarrow> int \<times> channels" where
  "get_conn_id c = (CLIENT_CONN_ID_COUNTER c + 1, c\<lparr>CLIENT_CONN_ID_COUNTER := CLIENT_CONN_ID_COUNTER c + 1\<rparr>)"

text \<open>The receiver is the connection's number; its queue is read through it.\<close>

definition get_rx_cliprdr_client :: "string \<Rightarrow> channels \<Rightarrow> int \<times> channels" where
  "get_rx_cliprdr_client peer_id c =
     (case find (\<lambda>x. mc_peer_id x = peer_id) (VEC_MSG_CHANNEL c) of
        Some x \<Rightarrow> (mc_conn_id x, c)
      | None \<Rightarrow>
          (case get_conn_id c of (i, c) \<Rightarrow>
             (i, c\<lparr>VEC_MSG_CHANNEL := VEC_MSG_CHANNEL c @ [\<lparr>mc_peer_id = peer_id, mc_conn_id = i, mc_queue = []\<rparr>]\<rparr>)))"

definition get_rx_cliprdr_server :: "int \<Rightarrow> channels \<Rightarrow> channels" where
  "get_rx_cliprdr_server conn_id c =
     (case find (\<lambda>x. mc_conn_id x = conn_id) (VEC_MSG_CHANNEL c) of
        Some _ \<Rightarrow> c
      | None \<Rightarrow> c\<lparr>VEC_MSG_CHANNEL := VEC_MSG_CHANNEL c @ [\<lparr>mc_peer_id = [], mc_conn_id = conn_id, mc_queue = []\<rparr>]\<rparr>)"

fun remove_first :: "int \<Rightarrow> msg_channel list \<Rightarrow> msg_channel list" where
  "remove_first i [] = []"
| "remove_first i (x # xs) = (if mc_conn_id x = i then xs else x # remove_first i xs)"

definition remove_channel_by_conn_id :: "int \<Rightarrow> channels \<Rightarrow> channels" where
  "remove_channel_by_conn_id i c = c\<lparr>VEC_MSG_CHANNEL := remove_first i (VEC_MSG_CHANNEL c)\<rparr>"

fun push_first :: "int \<Rightarrow> clipboard_file \<Rightarrow> msg_channel list \<Rightarrow> msg_channel list option" where
  "push_first i d [] = None"
| "push_first i d (x # xs) =
     (if mc_conn_id x = i then Some (x\<lparr>mc_queue := mc_queue x @ [d]\<rparr> # xs) else map_option (\<lambda>xs. x # xs) (push_first i d xs))"

definition send_data_to_channel :: "int \<Rightarrow> clipboard_file \<Rightarrow> channels \<Rightarrow> cliprdr_error option \<times> channels" where
  "send_data_to_channel i d c =
     (case push_first i d (VEC_MSG_CHANNEL c) of
        Some xs \<Rightarrow> (None, c\<lparr>VEC_MSG_CHANNEL := xs\<rparr>)
      | None \<Rightarrow> (Some (InvalidRequest ''conn_id not found''), c))"

definition send_data_to_all :: "clipboard_file \<Rightarrow> channels \<Rightarrow> channels" where
  "send_data_to_all d c = c\<lparr>VEC_MSG_CHANNEL := map (\<lambda>x. x\<lparr>mc_queue := mc_queue x @ [d]\<rparr>) (VEC_MSG_CHANNEL c)\<rparr>"

definition send_data :: "int \<Rightarrow> clipboard_file \<Rightarrow> channels \<Rightarrow> cliprdr_error option \<times> channels" where
  "send_data i d c = (if i = 0 then (None, send_data_to_all d c) else send_data_to_channel i d c)"

section \<open>The contexts of the two sides\<close>

record fuse_contexts =
  FUSE_CONTEXT_CLIENT :: "fuse_context option"
  FUSE_CONTEXT_SERVER :: "fuse_context option"

definition get_context :: "bool \<Rightarrow> fuse_contexts \<Rightarrow> fuse_context option" where
  "get_context is_client x = (if is_client then FUSE_CONTEXT_CLIENT x else FUSE_CONTEXT_SERVER x)"

definition set_context :: "bool \<Rightarrow> fuse_context option \<Rightarrow> fuse_contexts \<Rightarrow> fuse_contexts" where
  "set_context is_client c x = (if is_client then x\<lparr>FUSE_CONTEXT_CLIENT := c\<rparr> else x\<lparr>FUSE_CONTEXT_SERVER := c\<rparr>)"

definition fuse_mount_point :: "string \<Rightarrow> bool \<Rightarrow> string" where
  "fuse_mount_point app is_client = ''/tmp/'' @ app @ (if is_client then ''/cliprdr-client'' else ''/cliprdr-server'')"

text \<open>\<open>mount_ok\<close> tells whether the file system can be mounted.\<close>

definition init_fuse_context :: "string \<Rightarrow> bool \<Rightarrow> bool \<Rightarrow> fuse_contexts \<Rightarrow> cliprdr_error option \<times> fuse_contexts" where
  "init_fuse_context app mount_ok is_client x =
     (if get_context is_client x \<noteq> None then (None, x)
      else if \<not> mount_ok then (Some CliprdrInit, x)
      else (None, set_context is_client (Some \<lparr>fc_server = fuse_server_new, fc_channel = [], fc_mount_point = fuse_mount_point app is_client,
              fc_conn_id = 0\<rparr>) x))"

definition uninit_fuse_context :: "bool \<Rightarrow> fuse_contexts \<Rightarrow> fuse_contexts" where
  "uninit_fuse_context is_client x = set_context is_client None x"

definition is_fuse_context_inited :: "bool \<Rightarrow> fuse_contexts \<Rightarrow> bool" where
  "is_fuse_context_inited is_client x \<longleftrightarrow> get_context is_client x \<noteq> None"

definition context_format_data :: 
    "bool \<Rightarrow> utf16 \<Rightarrow> int \<Rightarrow> (nat \<Rightarrow> u32) \<Rightarrow> bool \<Rightarrow> bytes \<Rightarrow> int \<Rightarrow> fuse_contexts \<Rightarrow> ((cliprdr_error + string list) \<times> fuse_contexts) option" where
  "context_format_data checks U now rnd is_client data conn_id x =
     (case get_context is_client x of
        None \<Rightarrow> Some (Inl CliprdrInit, x)
      | Some c \<Rightarrow> map_option (\<lambda>(r, c). (r, set_context is_client (Some c) x)) (format_data_response_to_urls checks U now rnd data conn_id c))"

definition context_content_response :: "bool \<Rightarrow> clipboard_file \<Rightarrow> fuse_contexts \<Rightarrow> cliprdr_error option \<times> fuse_contexts" where
  "context_content_response is_client clip x =
     (case get_context is_client x of
        None \<Rightarrow> (Some CliprdrInit, x)
      | Some c \<Rightarrow> (None, set_context is_client (Some (handle_file_content_response clip c)) x))"

definition context_empty_files :: "int \<Rightarrow> (nat \<Rightarrow> u32) \<Rightarrow> bool \<Rightarrow> int \<Rightarrow> fuse_contexts \<Rightarrow> bool \<times> fuse_contexts" where
  "context_empty_files now rnd is_client conn_id x =
     (case get_context is_client x of
        None \<Rightarrow> (False, x)
      | Some c \<Rightarrow> (case empty_local_files now rnd conn_id c of (r, c) \<Rightarrow> (r, set_context is_client (Some c) x)))"

text \<open>
  The messages of \<open>serve_clip_messages\<close> for the pasting side: the names to put on the clipboard,
  and the contexts. The context that is initialised is always that of the client.
\<close>

definition paste_clip_messages ::
    "bool \<Rightarrow> utf16 \<Rightarrow> string \<Rightarrow> bool \<Rightarrow> int \<Rightarrow> (nat \<Rightarrow> u32) \<Rightarrow> bool \<Rightarrow> clipboard_file \<Rightarrow> int \<Rightarrow> fuse_contexts \<Rightarrow> (string list option \<times> fuse_contexts) option" where
  "paste_clip_messages checks U app mount_ok now rnd is_client clip conn_id x =
     (case clip of
        FormatDataResponse msg_flags data \<Rightarrow>
          (case init_fuse_context app mount_ok True x of
             (None, x) \<Rightarrow>
               map_option (\<lambda>(r, x). (case r of Inr urls \<Rightarrow> Some urls | Inl _ \<Rightarrow> None, x)) (context_format_data checks U now rnd is_client data conn_id x)
           | (Some _, x) \<Rightarrow> Some (None, x))
      | FileContentsResponse _ _ _ \<Rightarrow>
          (case init_fuse_context app mount_ok True x of
             (None, x) \<Rightarrow> Some (None, snd (context_content_response is_client clip x))
           | (Some _, x) \<Rightarrow> Some (None, x))
      | TryEmpty \<Rightarrow> Some (None, snd (context_empty_files now rnd is_client conn_id x))
      | _ \<Rightarrow> Some (None, x))"

section \<open>Copy and paste\<close>

text \<open>What arrives on the other side of a connection.\<close>

definition delivered :: "disk \<Rightarrow> clipboard_file list \<Rightarrow> clipboard_file list" where
  "delivered D cs = List.map_filter (\<lambda>c. msg_2_clip (clip_2_msg D c)) cs"

lemma delivered_simps [simp]: "delivered D [] = []" "delivered D (cs @ ds) = delivered D cs @ delivered D ds"
  "delivered D [Files fs] = []" "delivered D [FileContentsResponse fl sid data] = [FileContentsResponse fl sid data]"
  by (simp_all add: delivered_def map_filter_def)

lemma read_request_fields:
  "read_request n off sz = FileContentsRequest (fn_stream_id n) (word_of_nat (fn_index n)) 2 (offset_low off) (offset_high off) sz False 0"
proof -
  have m: "(0xFFFFFFFF :: u64) = mask 32" by (simp add: mask_eq_exp_minus_1)
  have "(ucast (off AND 0xFFFFFFFF) :: u32) = offset_low off" unfolding m offset_low_def by (rule bit_word_eqI) (auto simp: bit_simps)
  moreover have "(ucast (signed_drop_bit 32 off) :: u32) = offset_high off" unfolding offset_high_def by (rule bit_word_eqI) (auto simp: bit_simps)
  ultimately show ?thesis by (simp add: read_request_def)
qed

lemma index_word: "i < 2 ^ 31 \<Longrightarrow> unat (scast (word_of_nat i :: u32) :: usize) = i"
proof -
  assume i: "i < 2 ^ 31"
  then have u: "unat (word_of_nat i :: u32) = i" by (simp add: unsigned_of_nat take_bit_nat_eq_self)
  then have "\<not> bit (word_of_nat i :: u32) 31" using i bit_unat_less_false [of "word_of_nat i :: u32" 31 31] by simp
  then show ?thesis using u scast_small_offset [of "word_of_nat i"] by (simp add: unat_ucast_up)
qed

lemma read_node_answered:
  "read_node True n off sz (Reply (FileContentsResponse 1 (fn_stream_id n) data) # rs) = (Inr data, [read_request n off sz], rs)"
  by (simp add: read_node_def Let_def)

text \<open>
  C15. Copy and paste together: files listed on one side, described to the other and loaded into its
  tree can be read there. The node of a file has its size, and a read of it, served by the
  copying side after any earlier requests, gives the bytes of the file at that offset, as long
  as bit 31 of the offset is not set.
\<close>

theorem pasted_is_copied:
  assumes "utf16_ok U" "file_list_pdu U fl = Some pdu" "length fl < 2 ^ 31"
    and "parse_file_descriptors checks U pdu conn_id = Some (Inr ds)" "build_tree now rnd ds = Inr tree"
    and "cf_file_list cf0 = fl" "list_all (readable D) fl" "serve_reach checks D cf0 cf"
    and "i < length fl" "f = fl ! i" "\<not> lf_is_dir f" "dk_data D (lf_path f) = Inr bs"
    and "off \<le> lf_size f" "\<not> bit off 31" "\<not> bit n 31" "e = tree ! (i + 1)"
  shows "ia_size (fn_attributes e) = lf_size f \<and>
    (\<exists>out cf'. serve_clip_messages checks D (read_request e off n) cf = Some (out, cf')
      \<and> fst (read_node True e off n (map Reply (delivered D out))) = Inr (take (min (unat n) (unat (lf_size f) - unat off)) (drop (unat off) bs)))"
proof -
  have ds: "ds = map (describe conn_id) fl"
    using descriptors_parsed [OF assms(1,2)] assms(3,4) by simp
  obtain roots where "tree_inv ds (tree, roots)" using build_tree_inv [OF assms(5)] by blast
  then have e: "node_of ds i e" using assms(9,16) by (simp add: tree_inv_def ds)
  have idx: "fn_index e = i" and sz: "ia_size (fn_attributes e) = lf_size f"
    using e assms(9,10) by (simp_all add: node_of_def ds describe_def Let_def)
  have iw: "unat (scast (word_of_nat i :: u32) :: usize) = i" using assms(3,9) by (intro index_word) simp
  have "\<exists>audit cf'. serve_clip_messages checks D (read_request e off n) cf
      = Some (audit @ [FileContentsResponse 1 (fn_stream_id e) (take (min (unat n) (unat (lf_size f) - unat off)) (drop (unat off) bs))], cf')
    \<and> (audit = [] \<or> (\<exists>fs. audit = [Files fs]))"
    using range_served [OF _ assms(8) iw, of f bs off n "fn_stream_id e" False 0] assms(6,7,9-15)
    unfolding read_request_fields idx by blast
  then obtain audit cf' where s: "serve_clip_messages checks D (read_request e off n) cf
      = Some (audit @ [FileContentsResponse 1 (fn_stream_id e) (take (min (unat n) (unat (lf_size f) - unat off)) (drop (unat off) bs))], cf')"
      and a: "delivered D audit = []"
    by auto
  have "fst (read_node True e off n (map Reply (delivered D (audit @ [FileContentsResponse 1 (fn_stream_id e)
      (take (min (unat n) (unat (lf_size f) - unat off)) (drop (unat off) bs))]))))
      = Inr (take (min (unat n) (unat (lf_size f) - unat off)) (drop (unat off) bs))"
    using a by (simp add: read_node_answered)
  with s sz show ?thesis by blast
qed


text \<open>
  A reply that comes after the read for it has timed out is taken for the reply to the next
  read of the same file, wherever that one reads: the stream is that of the file and not of the
  request.
\<close>

theorem late_reply_misread:
  assumes "serve_clip_messages checks D (read_request e off1 n) cf = Some (out1, cf1)" "delivered D out1 = [FileContentsResponse 1 (fn_stream_id e) d1]"
    and "serve_clip_messages checks D (read_request e off2 n) cf1 = Some (out2, cf2)" "delivered D out2 = [FileContentsResponse 1 (fn_stream_id e) d2]"
  shows "fst (read_node True e off1 n [NoReply]) = Inl TimedOut
    \<and> fst (read_node True e off2 n (map Reply (delivered D out1) @ map Reply (delivered D out2))) = Inr d1"
  using assms(2) by (simp add: read_node_answered) (simp add: read_node_def Let_def)

text \<open>
  The context that a message initialises is that of the client, whatever side it came to: on a
  host whose own context is not there, a list of copied files is dropped, and a file system for
  the client is mounted instead.
\<close>

theorem host_list_dropped:
  assumes "FUSE_CONTEXT_SERVER x = None"
  shows "\<exists>x'. paste_clip_messages checks U app True now rnd False (FormatDataResponse fl data) conn_id x = Some (None, x')
    \<and> FUSE_CONTEXT_SERVER x' = None \<and> FUSE_CONTEXT_CLIENT x' \<noteq> None"
  using assms by (cases "FUSE_CONTEXT_CLIENT x") (auto simp: paste_clip_messages_def init_fuse_context_def context_format_data_def get_context_def set_context_def)

section \<open>Witnesses\<close>

theorem host_list_dropped_witness:
  "\<exists>x'. paste_clip_messages True demo_utf16 ''app'' True 0 (\<lambda>_. 5) False (FormatDataResponse 1 []) 7
      \<lparr>FUSE_CONTEXT_CLIENT = None, FUSE_CONTEXT_SERVER = None\<rparr> = Some (None, x') \<and> FUSE_CONTEXT_CLIENT x' \<noteq> None"
  using host_list_dropped [of "\<lparr>FUSE_CONTEXT_CLIENT = None, FUSE_CONTEXT_SERVER = None\<rparr>" True demo_utf16 "''app''" 0 "\<lambda>_. 5" 1 "[]" 7] by auto

definition demo_file :: local_file where
  "demo_file = demo_clip_file\<lparr>lf_path := ''/h/d/a'', lf_relative_root := ''/h/d'', lf_size := 3\<rparr>"

lemma demo_file_name: "relative_name demo_file = ''a''"
proof -
  have s: "strip_prefix_text (path_components (lf_relative_root demo_file)) (lf_path demo_file) = Some ''a''" by code_simp
  have "is_str ''a''" by code_simp
  then show ?thesis by (simp add: relative_name_def s to_string_lossy_def)
qed

lemma demo_description: "fd_name (describe 7 demo_file) = ''a''" "fd_kind (describe 7 demo_file) = FtFile" "fd_size (describe 7 demo_file) = 3"
  by (simp_all add: describe_def Let_def demo_file_name trim_end_nul_def replace_char_def) (simp_all add: demo_file_def demo_clip_file_def)

lemma demo_tree: "\<exists>tree. build_tree 0 (\<lambda>_. 5) [describe 7 demo_file] = Inr tree \<and> fn_stream_id (tree ! 1) = 5 \<and> fn_index (tree ! 1) = 0"
proof -
  have "path_file_name ''a'' = Some ''a''" "path_parent ''a'' = Some []" "path_components [] = []" by code_simp+
  then show ?thesis
    by (simp add: build_tree_def tree_step_def parent_inode_def demo_description Let_def FUSE_ROOT_ID_def node_from_description_def)
qed

lemma demo_pdu: "\<exists>pdu. file_list_pdu demo_utf16 [demo_file] = Some pdu"
proof -
  have "length (to_utf16le demo_utf16 (relative_name demo_file)) = 2" by (simp add: demo_file_name demo_utf16_def)
  then show ?thesis using descriptors_bin_total [of demo_utf16 "[demo_file]"] by (auto simp: file_list_pdu_def)
qed

definition demo_copied :: clip_files where
  "demo_copied = \<lparr>cf_files = [''/h/d/a''], cf_file_list = [demo_file], cf_first_file_index = 0, cf_files_pdu = []\<rparr>"

lemma demo_readable: "list_all (readable demo_disk) [demo_file]"
  by (simp add: readable_def demo_file_def demo_disk_def demo_clip_file_def)

theorem tree_faithful_witness:
  "\<exists>tree. build_tree 0 (\<lambda>_. 5) [describe 7 demo_file] = Inr tree \<and> length tree = 2 \<and> plain_name (fn_name (tree ! 1))"
proof -
  obtain tree where t: "build_tree 0 (\<lambda>_. 5) [describe 7 demo_file] = Inr tree" using demo_tree by blast
  from tree_faithful [OF this] t show ?thesis by auto
qed

theorem handles_exact_witness:
  "\<exists>s e. fuse_run s {(1, 0)} \<and> node_at s 1 = Some e \<and> have_handler 0 (fn_handles e) \<and> \<not> have_handler 1 (fn_handles e)"
proof -
  define s0 where "s0 = fuse_init 0 5 fuse_server_new"
  have r0: "fuse_run s0 {}" unfolding s0_def by (intro fuse_run.init fuse_run.new)
  define s1 where "s1 = snd (fuse_opendir 1 s0)"
  have o: "fuse_opendir 1 s0 = (Inr 0, s1)" and c: "fs_handle_counter s0 \<noteq> - 1" and n: "\<exists>e. node_at s1 1 = Some e"
    by (simp_all add: s1_def s0_def fuse_opendir_def open_node_def fuse_init_def fuse_server_new_def node_at_def new_root_def attributes_new_def
        add_handler_def handles_new_def)
  have r1: "fuse_run s1 {(1, 0)}" using fuse_run.opened [OF r0 c] o by fastforce
  obtain e where e: "node_at s1 1 = Some e" using n by blast
  have "have_handler 0 (fn_handles e)" "\<not> have_handler 1 (fn_handles e)"
    using handles_exact [OF r1 e, of 0] handles_exact [OF r1 e, of 1] by simp_all
  with r1 e show ?thesis by blast
qed

theorem pasted_is_copied_witness:
  "\<exists>tree out cf'. serve_clip_messages True demo_disk (read_request (tree ! 1) 1 5) demo_copied = Some (out, cf')
     \<and> fst (read_node True (tree ! 1) 1 5 (map Reply (delivered demo_disk out))) = Inr [2, 3]"
proof -
  obtain tree where t: "build_tree 0 (\<lambda>_. 5) [describe 7 demo_file] = Inr tree" using demo_tree by blast
  obtain pdu where pdu: "file_list_pdu demo_utf16 [demo_file] = Some pdu" using demo_pdu by blast
  have p: "parse_file_descriptors True demo_utf16 pdu 7 = Some (Inr [describe 7 demo_file])"
    using descriptors_parsed [OF demo_utf16_ok pdu] by simp
  have b: "\<not> bit (1 :: u64) 31" "\<not> bit (5 :: u32) 31" by code_simp+
  have d: "dk_data demo_disk (lf_path demo_file) = Inr [1, 2, 3]" "\<not> lf_is_dir demo_file" "lf_size demo_file = 3"
    by (simp_all add: demo_file_def demo_disk_def demo_clip_file_def)
  have cf: "cf_file_list demo_copied = [demo_file]" by (simp add: demo_copied_def)
  from pasted_is_copied [OF demo_utf16_ok pdu _ p t cf demo_readable serve_reach.start, of 0 demo_file "[1, 2, 3]" 1 5 "tree ! 1"]
  show ?thesis using b d by auto
qed

theorem late_reply_misread_witness:
  "\<exists>e out1 out2 cf1 cf2. serve_clip_messages True demo_disk (read_request e 1 1) demo_copied = Some (out1, cf1)
     \<and> serve_clip_messages True demo_disk (read_request e 2 1) cf1 = Some (out2, cf2) \<and> delivered demo_disk out2 = [FileContentsResponse 1 5 [3]]
     \<and> fst (read_node True e 2 1 (map Reply (delivered demo_disk out1) @ map Reply (delivered demo_disk out2))) = Inr [2]"
proof -
  obtain tree :: "fuse_node list" where t: "fn_stream_id (tree ! 1) = 5" "fn_index (tree ! 1) = 0" using demo_tree by blast
  define e where "e = tree ! 1"
  have e: "fn_stream_id e = 5" "fn_index e = 0" using t by (simp_all add: e_def)
  have b: "\<not> bit (1 :: u64) 31" "\<not> bit (2 :: u64) 31" "\<not> bit (1 :: u32) 31" by code_simp+
  have d: "dk_data demo_disk (lf_path demo_file) = Inr [1, 2, 3]" "\<not> lf_is_dir demo_file" "lf_size demo_file = 3"
    by (simp_all add: demo_file_def demo_disk_def demo_clip_file_def)
  have cf: "list_all (readable demo_disk) (cf_file_list demo_copied)" "cf_file_list demo_copied ! 0 = demo_file" "0 < length (cf_file_list demo_copied)"
    using demo_readable by (simp_all add: demo_copied_def)
  have r: "\<exists>out cf'. serve_clip_messages True demo_disk (read_request e off 1) cf = Some (out, cf')
      \<and> delivered demo_disk out = [FileContentsResponse 1 5 (take (min 1 (3 - unat off)) (drop (unat off) [1, 2, 3]))]"
    if s: "serve_reach True demo_disk demo_copied cf" and off: "off \<le> 3" "\<not> bit off 31" for cf off
  proof -
    have iw: "unat (scast (word_of_nat 0 :: u32) :: usize) = 0" by simp
    obtain audit cf' where "serve_clip_messages True demo_disk (read_request e off 1) cf
        = Some (audit @ [FileContentsResponse 1 5 (take (min 1 (3 - unat off)) (drop (unat off) [1, 2, 3]))], cf')" "audit = [] \<or> (\<exists>fs. audit = [Files fs])"
      using range_served [OF cf(1) s iw cf(3), of demo_file "[1, 2, 3]" off 1 5 False 0] off b d cf(2) unfolding read_request_fields e by auto
    then show ?thesis by (auto intro!: exI)
  qed
  obtain out1 cf1 where 1: "serve_clip_messages True demo_disk (read_request e 1 1) demo_copied = Some (out1, cf1)"
      "delivered demo_disk out1 = [FileContentsResponse 1 5 [2]]"
    using r [OF serve_reach.start, of 1] b by auto
  obtain out2 cf2 where 2: "serve_clip_messages True demo_disk (read_request e 2 1) cf1 = Some (out2, cf2)"
      "delivered demo_disk out2 = [FileContentsResponse 1 5 [3]]"
    using r [OF serve_reach.message [OF serve_reach.start 1(1)], of 2] b by auto
  from late_reply_misread [OF 1(1) _ 2(1), of "[2]" "[3]"] 1 2 e show ?thesis by metis
qed

end
