(* ===== verification/Privacy_Mode.thy ===== *)
theory Privacy_Mode
  imports Connection_Auth
begin

text \<open>
  Privacy mode: \<open>src/privacy_mode.rs\<close>, its two implementations
  (\<open>privacy_mode/win_topmost_window.rs\<close>, \<open>privacy_mode/win_virtual_display.rs\<close>), the input hook of
  \<open>privacy_mode/win_input.rs\<close>, and the requests of a connection (\<open>src/server/connection.rs\<close>). While
  it is on, the screen of the host is covered or switched off and local input is blocked, on
  behalf of one connection. What Windows answers is the record \<open>win_os\<close>, one for each request.
\<close>

section \<open>Data\<close>

definition INVALID_PRIVACY_MODE_CONN_ID :: int where
  "INVALID_PRIVACY_MODE_CONN_ID = 0"

definition OCCUPIED :: string where
  "OCCUPIED = ''Privacy occupied by another one.''"

definition TURN_OFF_OTHER_ID :: string where
  "TURN_OFF_OTHER_ID = ''Failed to turn off privacy mode that belongs to someone else.''"

definition NO_PHYSICAL_DISPLAYS :: string where
  "NO_PHYSICAL_DISPLAYS = ''no_need_privacy_mode_no_physical_displays_tip''"

definition IMPL_WIN_MAG :: string where
  "IMPL_WIN_MAG = ''privacy_mode_impl_mag''"

definition IMPL_WIN_EXCLUDE_FROM_CAPTURE :: string where
  "IMPL_WIN_EXCLUDE_FROM_CAPTURE = ''privacy_mode_impl_exclude_from_capture''"

definition IMPL_WIN_VIRTUAL_DISPLAY :: string where
  "IMPL_WIN_VIRTUAL_DISPLAY = ''privacy_mode_impl_virtual_display''"

datatype off_state = OffSucceeded | OffByPeer | OffUnknown

text \<open>
  The thread of the input hooks: none, installed, or told to leave. A thread told to leave removes its
  hooks and ends; that \<open>UnhookWindowsHookEx\<close> fails is only logged there and not represented.
\<close>

datatype hook_thread = NoHook | Hooked | Leaving

text \<open>Which call of \<open>wait_find_privacy_hwnd\<close> is meant.\<close>

datatype hwnd_call = BeforeStart | AfterStart | AtTurnOn | AtTurnOff

record win_os =
  exe_dir :: "(string, string option) rust_result"
  dll_exists :: bool
  find_hwnd :: "hwnd_call \<Rightarrow> (string, nat) rust_result"
  user_token :: bool
  create_process :: "(string, nat \<times> nat) rust_result"
  inject_dll :: "(string, unit) rust_result"
  resume_thread :: bool
  os_error :: string
  hook_thread_left :: bool
  set_hooks :: "(string, unit) rust_result"
  post_exit :: bool
  vd_supported :: bool
  is_amyuni :: bool
  enum_displays :: "nat \<Rightarrow> nat list \<times> nat list"
  poll_count :: nat
  plug_in :: "(string, nat list) rust_result"
  plug_out :: "(string, unit) rust_result"
  read_reg_1 :: "(string, unit) rust_result"
  set_primary :: "(string, unit) rust_result"
  disable_physical :: "(string, unit) rust_result"
  commit_reset :: "(string, unit) rust_result"
  read_reg_2 :: "(string, unit) rust_result"
  reg_diff :: "(string, string) rust_result option"
  restore_refused :: "nat list"
  commit_restore :: bool
  cm_reachable :: bool

text \<open>What privacy mode does to the machine, and what it reports to the connection manager.\<close>

record privacy_world =
  hook_st :: hook_thread
  window_shown :: bool
  physical_off :: bool
  reg_recovery :: string
  cm_states :: "(int \<times> off_state \<times> string) list"

section \<open>The checks of the trait\<close>

definition check_on_conn_id :: "int \<Rightarrow> int \<Rightarrow> (string, bool) rust_result" where
  "check_on_conn_id pre_conn_id conn =
     (if pre_conn_id = conn then Inr True
      else if pre_conn_id \<noteq> INVALID_PRIVACY_MODE_CONN_ID then Inl OCCUPIED
      else Inr False)"

definition check_off_conn_id :: "int \<Rightarrow> int \<Rightarrow> (string, unit) rust_result" where
  "check_off_conn_id pre_conn_id conn =
     (if pre_conn_id \<noteq> INVALID_PRIVACY_MODE_CONN_ID \<and> conn \<noteq> INVALID_PRIVACY_MODE_CONN_ID
         \<and> pre_conn_id \<noteq> conn
      then Inl TURN_OFF_OTHER_ID else Inr ())"

section \<open>Input hooks\<close>

definition hook :: "win_os \<Rightarrow> privacy_world \<Rightarrow> (string, unit) rust_result \<times> privacy_world" where
  "hook os w =
     (let st = (if hook_st w = Leaving \<and> hook_thread_left os then NoHook else hook_st w) in
      if st \<noteq> NoHook then (Inl ''Already hooked'', w)
      else (case set_hooks os of
              Inl e \<Rightarrow> (Inl e, w\<lparr>hook_st := NoHook\<rparr>)
            | Inr _ \<Rightarrow> (Inr (), w\<lparr>hook_st := Hooked\<rparr>)))"

definition unhook :: "win_os \<Rightarrow> privacy_world \<Rightarrow> (string, unit) rust_result \<times> privacy_world" where
  "unhook os w =
     (if hook_st w \<noteq> NoHook then
        (if \<not> post_exit os then (Inl (''Failed to post message to exit hook, error '' @ os_error os), w)
         else (Inr (), w\<lparr>hook_st := Leaving\<rparr>))
      else (Inr (), w))"

section \<open>The covering window\<close>

record topmost =
  tm_key :: string
  tm_conn_id :: int
  tm_hthread :: nat
  tm_hprocess :: nat
  tm_hwnd :: nat

definition topmost_new :: "string \<Rightarrow> topmost" where
  "topmost_new key = \<lparr>tm_key = key, tm_conn_id = INVALID_PRIVACY_MODE_CONN_ID, tm_hthread = 0, tm_hprocess = 0, tm_hwnd = 0\<rparr>"

text \<open>\<open>start\<close>: the broker process that owns the window. The handles are kept once it runs.\<close>

definition topmost_start :: "win_os \<Rightarrow> topmost \<Rightarrow> (string, unit) rust_result \<times> topmost" where
  "topmost_start os t =
     (if tm_hprocess t \<noteq> 0 then (Inr (), t)
      else (case exe_dir os of
              Inl e \<Rightarrow> (Inl e, t)
            | Inr None \<Rightarrow> (Inl ''Cannot get parent of current exe file'', t)
            | Inr (Some d) \<Rightarrow>
                if \<not> dll_exists os
                then (Inl (''Failed to find required file '' @ d @ [CHR 0x5C] @ ''WindowInjection.dll''), t)
                else (case find_hwnd os BeforeStart of
                        Inl e \<Rightarrow> (Inl e, t)
                      | Inr h \<Rightarrow>
                          if h \<noteq> 0 then (Inr (), t)
                          else if \<not> user_token os then (Inl ''Failed to get token of current user'', t)
                          else (case create_process os of
                                  Inl e \<Rightarrow> (Inl (''Failed to create privacy window process '' @ d @ [CHR 0x5C]
                                              @ ''RuntimeBroker_hibtdesk.exe'' @ '', error '' @ e), t)
                                | Inr (hp, ht) \<Rightarrow>
                                    (case inject_dll os of
                                       Inl e \<Rightarrow> (Inl e, t)
                                     | Inr _ \<Rightarrow>
                                         if \<not> resume_thread os
                                         then (Inl (''Failed to create privacy window process, error '' @ os_error os), t)
                                         else let t = t\<lparr>tm_hthread := ht, tm_hprocess := hp\<rparr> in
                                              (case find_hwnd os AfterStart of
                                                 Inl e \<Rightarrow> (Inl e, t)
                                               | Inr h \<Rightarrow> if h = 0 then (Inl ''Failed to get hwnd after started'', t)
                                                          else (Inr (), t)))))))"

definition topmost_turn_on :: "win_os \<Rightarrow> int \<Rightarrow> topmost \<times> privacy_world \<Rightarrow> (string, bool) rust_result \<times> topmost \<times> privacy_world" where
  "topmost_turn_on os conn tw =
     (case tw of (t, w) \<Rightarrow>
        case check_on_conn_id (tm_conn_id t) conn of
          Inl e \<Rightarrow> (Inl e, t, w)
        | Inr True \<Rightarrow> (Inr True, t, w)
        | Inr False \<Rightarrow>
            (case exe_dir os of
               Inl e \<Rightarrow> (Inl e, t, w)
             | Inr None \<Rightarrow> (Inl ''Invalid exe parent for '', t, w)
             | Inr (Some _) \<Rightarrow>
                 if \<not> dll_exists os then (Inr False, t, w)
                 else (case (if tm_hthread t = 0 \<and> tm_hprocess t = 0 then topmost_start os t else (Inr (), t)) of
                         (Inl e, t) \<Rightarrow> (Inl e, t, w)
                       | (Inr _, t) \<Rightarrow>
                           (case find_hwnd os AtTurnOn of
                              Inl e \<Rightarrow> (Inl e, t, w)
                            | Inr h \<Rightarrow>
                                if h = 0 then (Inl ''No privacy window created'', t, w)
                                else (case hook os w of
                                        (Inl e, w) \<Rightarrow> (Inl e, t, w)
                                      | (Inr _, w) \<Rightarrow>
                                          (Inr True, t\<lparr>tm_conn_id := conn, tm_hwnd := h\<rparr>, w\<lparr>window_shown := True\<rparr>))))))"

text \<open>The report to the connection manager: tried, and its failure only logged.\<close>

definition set_privacy_mode_state :: "win_os \<Rightarrow> int \<Rightarrow> off_state \<Rightarrow> string \<Rightarrow> privacy_world \<Rightarrow> privacy_world" where
  "set_privacy_mode_state os conn st key w =
     (if cm_reachable os then w\<lparr>cm_states := cm_states w @ [(conn, st, key)]\<rparr> else w)"

definition topmost_turn_off :: "win_os \<Rightarrow> int \<Rightarrow> off_state option \<Rightarrow> topmost \<times> privacy_world \<Rightarrow> (string, unit) rust_result \<times> topmost \<times> privacy_world" where
  "topmost_turn_off os conn st tw =
     (case tw of (t, w) \<Rightarrow>
        case check_off_conn_id (tm_conn_id t) conn of
          Inl e \<Rightarrow> (Inl e, t, w)
        | Inr _ \<Rightarrow>
            (case unhook os w of
               (Inl e, w) \<Rightarrow> (Inl e, t, w)
             | (Inr _, w) \<Rightarrow>
                 (case find_hwnd os AtTurnOff of
                    Inl e \<Rightarrow> (Inl e, t, w)
                  | Inr h \<Rightarrow>
                      let w = (if h \<noteq> 0 then w\<lparr>window_shown := False\<rparr> else w) in
                      if tm_conn_id t \<noteq> INVALID_PRIVACY_MODE_CONN_ID then
                        (Inr (), t\<lparr>tm_conn_id := INVALID_PRIVACY_MODE_CONN_ID\<rparr>,
                         case st of Some s \<Rightarrow> set_privacy_mode_state os conn s IMPL_WIN_MAG w | None \<Rightarrow> w)
                      else (Inr (), t, w))))"

section \<open>The virtual display\<close>

record virtual_impl =
  vd_key :: string
  vd_conn_id :: int
  vd_displays :: "nat list"
  vd_virtual :: "nat list"
  vd_added :: "nat list"

definition virtual_new :: "string \<Rightarrow> virtual_impl" where
  "virtual_new key = \<lparr>vd_key = key, vd_conn_id = INVALID_PRIVACY_MODE_CONN_ID, vd_displays = [], vd_virtual = [], vd_added = []\<rparr>"

text \<open>\<open>set_displays\<close>: the \<open>k\<close>-th enumeration of physical and virtual displays in this request.\<close>

definition set_displays :: "win_os \<Rightarrow> nat \<Rightarrow> virtual_impl \<Rightarrow> virtual_impl" where
  "set_displays os k v = v\<lparr>vd_displays := fst (enum_displays os k), vd_virtual := snd (enum_displays os k)\<rparr>"

text \<open>The wait for a virtual display to appear; the clock allows \<open>n\<close> more polls.\<close>

fun poll_virtual :: "win_os \<Rightarrow> nat \<Rightarrow> nat \<Rightarrow> virtual_impl \<Rightarrow> virtual_impl" where
  "poll_virtual os k 0 v = v"
| "poll_virtual os k (Suc n) v =
     (if vd_virtual v = [] then poll_virtual os (Suc k) n (set_displays os k v) else v)"

definition ensure_virtual_display :: "win_os \<Rightarrow> virtual_impl \<Rightarrow> (string, unit) rust_result \<times> virtual_impl" where
  "ensure_virtual_display os v =
     (if vd_virtual v = [] then
        (case plug_in os of
           Inl e \<Rightarrow> (Inl e, v)
         | Inr ds \<Rightarrow>
             let v = set_displays os 1 v in
             if vd_displays v = [] then
               (case plug_out os of Inl e \<Rightarrow> (Inl e, v) | Inr _ \<Rightarrow> (Inl NO_PHYSICAL_DISPLAYS, v))
             else
               let v = (if is_amyuni os then poll_virtual os 2 (poll_count os) v else v) in
               (Inr (), v\<lparr>vd_added := vd_added v @ ds\<rparr>))
      else (Inr (), v))"

text \<open>
  \<open>restore\<close>: the settings of all displays are written back and committed, then either the displays that
  were added are unplugged or all virtual displays are. The answers of Windows are ignored: the physical
  displays are on again if the settings of all of them were accepted (\<open>restore_refused\<close> are those that were
  not) and committed, and the list of displays is emptied in any case.
\<close>

definition restore_displays :: "win_os \<Rightarrow> virtual_impl \<times> privacy_world \<Rightarrow> virtual_impl \<times> privacy_world" where
  "restore_displays os vw =
     (case vw of (v, w) \<Rightarrow>
        (v\<lparr>vd_displays := [], vd_virtual := [], vd_added := []\<rparr>,
         if vd_displays v \<noteq> [] \<and> list_all (\<lambda>d. d \<notin> set (restore_refused os)) (vd_displays v) \<and> commit_restore os
         then w\<lparr>physical_off := False\<rparr> else w))"

definition virtual_turn_off :: "win_os \<Rightarrow> int \<Rightarrow> off_state option \<Rightarrow> virtual_impl \<times> privacy_world \<Rightarrow> (string, unit) rust_result \<times> virtual_impl \<times> privacy_world" where
  "virtual_turn_off os conn st vw =
     (case vw of (v, w) \<Rightarrow>
        case check_off_conn_id (vd_conn_id v) conn of
          Inl e \<Rightarrow> (Inl e, v, w)
        | Inr _ \<Rightarrow>
            (case unhook os w of
               (Inl e, w) \<Rightarrow> (Inl e, v, w)
             | (Inr _, w) \<Rightarrow>
                 (case restore_displays os (v, w) of (v, w) \<Rightarrow>
                    let w = w\<lparr>reg_recovery := []\<rparr> in
                    if vd_conn_id v \<noteq> INVALID_PRIVACY_MODE_CONN_ID then
                      (Inr (), v\<lparr>vd_conn_id := INVALID_PRIVACY_MODE_CONN_ID\<rparr>,
                       case st of Some s \<Rightarrow> set_privacy_mode_state os conn s IMPL_WIN_VIRTUAL_DISPLAY w | None \<Rightarrow> w)
                    else (Inr (), v, w))))"

text \<open>The part of \<open>turn_on_privacy\<close> under the guard, which turns privacy mode off again on a failure.\<close>

definition virtual_engage :: "win_os \<Rightarrow> int \<Rightarrow> virtual_impl \<times> privacy_world \<Rightarrow> (string, unit) rust_result \<times> virtual_impl \<times> privacy_world" where
  "virtual_engage os conn vw =
     (case vw of (v, w) \<Rightarrow>
        case ensure_virtual_display os v of
          (Inl e, v) \<Rightarrow> (Inl e, v, w)
        | (Inr _, v) \<Rightarrow>
            if vd_virtual v = [] then (Inl ''No virtual displays.'', v, w)
            else (case read_reg_1 os of Inl e \<Rightarrow> (Inl e, v, w) | Inr _ \<Rightarrow>
                  case set_primary os of Inl e \<Rightarrow> (Inl e, v, w) | Inr _ \<Rightarrow>
                  let w = w\<lparr>physical_off := physical_off w \<or> vd_displays v \<noteq> []\<rparr> in
                  case disable_physical os of Inl e \<Rightarrow> (Inl e, v, w) | Inr _ \<Rightarrow>
                  case commit_reset os of Inl e \<Rightarrow> (Inl e, v, w) | Inr _ \<Rightarrow>
                  case read_reg_2 os of Inl e \<Rightarrow> (Inl e, v, w) | Inr _ \<Rightarrow>
                  case reg_diff os of
                    Some (Inl e) \<Rightarrow> (Inl e, v, w)
                  | Some (Inr j) \<Rightarrow> (Inr (), v\<lparr>vd_conn_id := conn\<rparr>, w\<lparr>reg_recovery := j\<rparr>)
                  | None \<Rightarrow> (Inr (), v\<lparr>vd_conn_id := conn\<rparr>, w\<lparr>reg_recovery := []\<rparr>)))"

definition virtual_turn_on :: "win_os \<Rightarrow> int \<Rightarrow> virtual_impl \<times> privacy_world \<Rightarrow> (string, bool) rust_result \<times> virtual_impl \<times> privacy_world" where
  "virtual_turn_on os conn vw =
     (case vw of (v, w) \<Rightarrow>
        if \<not> vd_supported os then (Inl ''idd_not_support_under_win10_2004_tip'', v, w)
        else (case check_on_conn_id (vd_conn_id v) conn of
                Inl e \<Rightarrow> (Inl e, v, w)
              | Inr True \<Rightarrow> (Inr True, v, w)
              | Inr False \<Rightarrow>
                  let v = set_displays os 0 v in
                  if vd_displays v = [] then (Inl NO_PHYSICAL_DISPLAYS, v, w)
                  else (case virtual_engage os conn (v, w) of
                          (Inl e, v, w) \<Rightarrow> (Inl e, snd (virtual_turn_off os INVALID_PRIVACY_MODE_CONN_ID None (v, w)))
                        | (Inr _, v, w) \<Rightarrow> (Inr True, v, snd (hook os w)))))"

section \<open>The current implementation\<close>

datatype privacy_impl = Topmost topmost | Virtual virtual_impl

fun pre_conn_id :: "privacy_impl \<Rightarrow> int" where
  "pre_conn_id (Topmost t) = tm_conn_id t"
| "pre_conn_id (Virtual v) = vd_conn_id v"

fun get_impl_key :: "privacy_impl \<Rightarrow> string" where
  "get_impl_key (Topmost t) = tm_key t"
| "get_impl_key (Virtual v) = vd_key v"

fun impl_is_async :: "win_os \<Rightarrow> privacy_impl \<Rightarrow> bool" where
  "impl_is_async os (Topmost _) = False"
| "impl_is_async os (Virtual _) = is_amyuni os"

fun impl_turn_on :: "win_os \<Rightarrow> int \<Rightarrow> privacy_impl \<times> privacy_world \<Rightarrow> (string, bool) rust_result \<times> privacy_impl \<times> privacy_world" where
  "impl_turn_on os c (Topmost t, w) = (case topmost_turn_on os c (t, w) of (r, t, w) \<Rightarrow> (r, Topmost t, w))"
| "impl_turn_on os c (Virtual v, w) = (case virtual_turn_on os c (v, w) of (r, v, w) \<Rightarrow> (r, Virtual v, w))"

fun impl_turn_off :: "win_os \<Rightarrow> int \<Rightarrow> off_state option \<Rightarrow> privacy_impl \<times> privacy_world \<Rightarrow> (string, unit) rust_result \<times> privacy_impl \<times> privacy_world" where
  "impl_turn_off os c st (Topmost t, w) = (case topmost_turn_off os c st (t, w) of (r, t, w) \<Rightarrow> (r, Topmost t, w))"
| "impl_turn_off os c st (Virtual v, w) = (case virtual_turn_off os c st (v, w) of (r, v, w) \<Rightarrow> (r, Virtual v, w))"

definition impl_clear :: "win_os \<Rightarrow> privacy_impl \<times> privacy_world \<Rightarrow> privacy_impl \<times> privacy_world" where
  "impl_clear os mw = snd (impl_turn_off os (pre_conn_id (fst mw)) None mw)"

text \<open>
  \<open>Drop\<close>: privacy mode is turned off; the handles of the covering window terminate its process,
  and the window with it.
\<close>

definition impl_drop :: "win_os \<Rightarrow> privacy_impl \<times> privacy_world \<Rightarrow> privacy_world" where
  "impl_drop os mw =
     (case (if pre_conn_id (fst mw) \<noteq> INVALID_PRIVACY_MODE_CONN_ID then impl_clear os mw else mw) of
        (Topmost t, w) \<Rightarrow> if tm_hprocess t \<noteq> 0 then w\<lparr>window_shown := False\<rparr> else w
      | (Virtual _, w) \<Rightarrow> w)"

section \<open>The switchboard\<close>

record privacy_cfg =
  exclude_supported :: bool
  mag_supported :: bool
  installed :: bool
  service_running :: bool
  impl_option :: string

type_synonym privacy = "privacy_impl option \<times> privacy_world"

definition get_supported_privacy_mode_impl :: "privacy_cfg \<Rightarrow> string list" where
  "get_supported_privacy_mode_impl C =
     (if exclude_supported C then [IMPL_WIN_EXCLUDE_FROM_CAPTURE]
      else if mag_supported C then [IMPL_WIN_MAG] else [])
     @ (if installed C \<and> service_running C then [IMPL_WIN_VIRTUAL_DISPLAY] else [])"

definition DEFAULT_PRIVACY_MODE_IMPL :: "privacy_cfg \<Rightarrow> string" where
  "DEFAULT_PRIVACY_MODE_IMPL C =
     (if exclude_supported C then IMPL_WIN_EXCLUDE_FROM_CAPTURE
      else if mag_supported C then IMPL_WIN_MAG
      else if installed C then IMPL_WIN_VIRTUAL_DISPLAY
      else [])"

definition PRIVACY_MODE_CREATOR :: "privacy_cfg \<Rightarrow> string \<Rightarrow> privacy_impl option" where
  "PRIVACY_MODE_CREATOR C key =
     (if key = IMPL_WIN_VIRTUAL_DISPLAY then Some (Virtual (virtual_new key))
      else if key = (if exclude_supported C then IMPL_WIN_EXCLUDE_FROM_CAPTURE else IMPL_WIN_MAG)
      then Some (Topmost (topmost_new key))
      else None)"

definition configured_impl :: "privacy_cfg \<Rightarrow> string" where
  "configured_impl C =
     (if impl_option C \<in> set (get_supported_privacy_mode_impl C) then impl_option C
      else DEFAULT_PRIVACY_MODE_IMPL C)"

text \<open>The initial value of \<open>PRIVACY_MODE\<close>.\<close>

definition privacy_init :: "privacy_cfg \<Rightarrow> privacy" where
  "privacy_init C = (PRIVACY_MODE_CREATOR C (configured_impl C),
     \<lparr>hook_st = NoHook, window_shown = False, physical_off = False, reg_recovery = [], cm_states = []\<rparr>)"

definition get_supported_impl :: "privacy_cfg \<Rightarrow> string \<Rightarrow> string" where
  "get_supported_impl C key =
     (if key \<in> set (get_supported_privacy_mode_impl C) then key else configured_impl C)"

definition switch_impl :: "privacy_cfg \<Rightarrow> win_os \<Rightarrow> string \<Rightarrow> privacy \<Rightarrow> privacy" where
  "switch_impl C os key p =
     (case p of (m, w) \<Rightarrow>
        if map_option get_impl_key m = Some key then (m, w)
        else (case PRIVACY_MODE_CREATOR C key of
                Some m' \<Rightarrow> (Some m', case m of Some m \<Rightarrow> impl_drop os (m, w) | None \<Rightarrow> w)
              | None \<Rightarrow> (m, w)))"

definition turn_on_privacy_sync ::
    "privacy_cfg \<Rightarrow> win_os \<Rightarrow> string \<Rightarrow> int \<Rightarrow> privacy \<Rightarrow> (string, bool) rust_result option \<times> privacy" where
  "turn_on_privacy_sync C os key conn p =
     (case p of (m, w) \<Rightarrow>
        let key = get_supported_impl C key;
            cur_impl_key = (case m of Some m \<Rightarrow> get_impl_key m | None \<Rightarrow> []);
            check = (case m of Some m \<Rightarrow> check_on_conn_id (pre_conn_id m) conn | None \<Rightarrow> Inr False)
        in case check of
             Inl e \<Rightarrow> (Some (Inl e), m, w)
           | Inr same_peer \<Rightarrow>
               if same_peer \<and> cur_impl_key = key then (Some (Inr True), m, w)
               else if cur_impl_key \<noteq> key then
                 (case PRIVACY_MODE_CREATOR C key of
                    None \<Rightarrow> (Some (Inl (''Unsupported privacy mode: '' @ key)), m, w)
                  | Some m' \<Rightarrow>
                      let w = (case m of Some m \<Rightarrow> impl_drop os (impl_clear os (m, w)) | None \<Rightarrow> w) in
                      (case impl_turn_on os conn (m', w) of (r, m', w) \<Rightarrow> (Some r, Some m', w)))
               else (case m of
                       None \<Rightarrow> (None, m, w)
                     | Some m \<Rightarrow> (case impl_turn_on os conn (m, w) of (r, m, w) \<Rightarrow> (Some r, Some m, w))))"

text \<open>
  The asynchronous variant waits at most 7.5 seconds for the answer of a thread; the thread holds
  the lock of \<open>PRIVACY_MODE\<close> meanwhile, so every later access sees what it has done.
\<close>

definition turn_on_privacy ::
    "privacy_cfg \<Rightarrow> win_os \<Rightarrow> string option \<Rightarrow> string \<Rightarrow> int \<Rightarrow> privacy \<Rightarrow> (string, bool) rust_result option \<times> privacy" where
  "turn_on_privacy C os late key conn p =
     (case turn_on_privacy_sync C os key conn p of (r, p') \<Rightarrow>
        if (case fst p of Some m \<Rightarrow> impl_is_async os m | None \<Rightarrow> False)
        then (case late of Some e \<Rightarrow> (Some (Inl e), p') | None \<Rightarrow> (r, p'))
        else (r, p'))"

definition turn_off_privacy :: "win_os \<Rightarrow> int \<Rightarrow> off_state option \<Rightarrow> privacy \<Rightarrow> (string, unit) rust_result option \<times> privacy" where
  "turn_off_privacy os conn st p =
     (case p of
        (None, w) \<Rightarrow> (None, None, w)
      | (Some m, w) \<Rightarrow> (case impl_turn_off os conn st (m, w) of (r, m, w) \<Rightarrow> (Some r, Some m, w)))"

definition is_in_privacy_mode :: "privacy \<Rightarrow> bool" where
  "is_in_privacy_mode p \<longleftrightarrow> (case fst p of Some m \<Rightarrow> pre_conn_id m \<noteq> INVALID_PRIVACY_MODE_CONN_ID | None \<Rightarrow> False)"

definition get_privacy_mode_conn_id :: "privacy \<Rightarrow> int option" where
  "get_privacy_mode_conn_id p = map_option pre_conn_id (fst p)"

definition get_cur_impl_key :: "privacy \<Rightarrow> string option" where
  "get_cur_impl_key p = map_option get_impl_key (fst p)"

definition is_current_privacy_mode_impl :: "string \<Rightarrow> privacy \<Rightarrow> bool" where
  "is_current_privacy_mode_impl key p \<longleftrightarrow> (case fst p of Some m \<Rightarrow> get_impl_key m = key | None \<Rightarrow> False)"

definition is_privacy_mode_supported :: "privacy_cfg \<Rightarrow> bool" where
  "is_privacy_mode_supported C \<longleftrightarrow> DEFAULT_PRIVACY_MODE_IMPL C \<noteq> []"

text \<open>\<open>capturer\<close>: what the test of a magnifier capturer says.\<close>

definition check_privacy_mode_err :: "string \<Rightarrow> privacy \<Rightarrow> string" where
  "check_privacy_mode_err capturer p = (if is_current_privacy_mode_impl IMPL_WIN_MAG p then capturer else [])"

section \<open>Requests of a connection\<close>

datatype prv_state =
    PrvOnSucceeded | PrvOnFailed | PrvOnFailedPlugin | PrvOffSucceeded | PrvOffFailed | PrvNotSupported

text \<open>\<open>make_privacy_mode_msg_with_details\<close>: state, details, implementation.\<close>

datatype privacy_msg = PrivacyMsg prv_state string string

definition make_privacy_mode_msg :: "prv_state \<Rightarrow> string \<Rightarrow> privacy_msg" where
  "make_privacy_mode_msg st key = PrivacyMsg st [] key"

definition unsupported_text :: string where
  "unsupported_text = ''Unsupported. 1 Multi-screen is not supported. 2 Please confirm the license is activated.''"

definition turn_off_privacy_to_msg :: "win_os \<Rightarrow> int \<Rightarrow> privacy \<Rightarrow> privacy_msg \<times> privacy" where
  "turn_off_privacy_to_msg os conn p =
     (case turn_off_privacy os conn None p of
        (Some (Inr _), p) \<Rightarrow> (make_privacy_mode_msg PrvOffSucceeded [], p)
      | (Some (Inl e), p) \<Rightarrow> (PrivacyMsg PrvOffFailed e [], p)
      | (None, p) \<Rightarrow> (PrivacyMsg PrvOffFailed ''Not supported'' [], p))"

text \<open>\<open>turn_on_privacy\<close> of the connection \<open>conn\<close>: the messages sent to the peer, and the state.\<close>

definition conn_turn_on_privacy ::
    "privacy_cfg \<Rightarrow> win_os \<Rightarrow> string option \<Rightarrow> string \<Rightarrow> int \<Rightarrow> string \<Rightarrow> privacy \<Rightarrow> privacy_msg list \<times> privacy" where
  "conn_turn_on_privacy C os late capturer conn key p =
     (if \<not> is_privacy_mode_supported C then ([PrivacyMsg PrvNotSupported unsupported_text key], p)
      else
        let off = (if is_in_privacy_mode p then
                     (case get_cur_impl_key p of
                        Some pre \<Rightarrow> (if \<not> is_current_privacy_mode_impl pre p
                                     then [make_privacy_mode_msg PrvOffSucceeded pre] else [])
                      | None \<Rightarrow> [])
                   else [])
        in case turn_on_privacy C os late key conn p of
             (Some (Inr True), p) \<Rightarrow>
               let err = check_privacy_mode_err capturer p in
               if err = [] then (off @ [make_privacy_mode_msg PrvOnSucceeded key], p)
               else (off @ [PrivacyMsg PrvOnFailed err key], snd (turn_off_privacy_to_msg os conn p))
           | (Some (Inr False), p) \<Rightarrow> (off @ [make_privacy_mode_msg PrvOnFailedPlugin key], p)
           | (Some (Inl e), p) \<Rightarrow>
               (off @ [PrivacyMsg PrvOnFailed e key],
                if is_in_privacy_mode p then snd (turn_off_privacy_to_msg os INVALID_PRIVACY_MODE_CONN_ID p) else p)
           | (None, p) \<Rightarrow> (off @ [PrivacyMsg PrvOffFailed ''Not supported'' key], p))"

definition conn_turn_off_privacy :: "privacy_cfg \<Rightarrow> win_os \<Rightarrow> int \<Rightarrow> string \<Rightarrow> privacy \<Rightarrow> privacy_msg \<times> privacy" where
  "conn_turn_off_privacy C os conn key p =
     (if \<not> is_privacy_mode_supported C then (PrivacyMsg PrvNotSupported unsupported_text key, p)
      else turn_off_privacy_to_msg os conn p)"

text \<open>What the end of the loop of a connection does about privacy mode.\<close>

definition conn_end_privacy :: "win_os \<Rightarrow> int \<Rightarrow> privacy \<Rightarrow> privacy" where
  "conn_end_privacy os conn p =
     (if get_privacy_mode_conn_id p = Some conn then snd (turn_off_privacy_to_msg os conn p) else p)"

text \<open>The key combination Ctrl + P at the host.\<close>

definition hotkey_off :: "win_os \<Rightarrow> privacy \<Rightarrow> privacy" where
  "hotkey_off os p = snd (turn_off_privacy os INVALID_PRIVACY_MODE_CONN_ID (Some OffByPeer) p)"

section \<open>The contract of an implementation\<close>

text \<open>
  What the switchboard relies on: an implementation that serves one connection refuses the others
  without any effect, and the owner changes only as the result says.
\<close>

locale privacy_contract =
  fixes owner :: "'m \<Rightarrow> int"
    and on :: "win_os \<Rightarrow> int \<Rightarrow> 'm \<times> privacy_world \<Rightarrow> (string, bool) rust_result \<times> 'm \<times> privacy_world"
    and off :: "win_os \<Rightarrow> int \<Rightarrow> off_state option \<Rightarrow> 'm \<times> privacy_world \<Rightarrow> (string, unit) rust_result \<times> 'm \<times> privacy_world"
  assumes on_refused: "owner m \<noteq> 0 \<Longrightarrow> owner m \<noteq> c \<Longrightarrow> \<exists>e. on os c (m, w) = (Inl e, m, w)"
    and on_again: "owner m \<noteq> 0 \<Longrightarrow> snd (on os (owner m) (m, w)) = (m, w)"
    and on_owner: "on os c (m, w) = (r, m', w') \<Longrightarrow> owner m' = (if r = Inr True then c else owner m)"
    and off_refused: "owner m \<noteq> 0 \<Longrightarrow> c \<noteq> 0 \<Longrightarrow> owner m \<noteq> c \<Longrightarrow> off os c st (m, w) = (Inl TURN_OFF_OTHER_ID, m, w)"
    and off_owner: "off os c st (m, w) = (q, m', w') \<Longrightarrow> owner m' = (case q of Inr _ \<Rightarrow> 0 | Inl _ \<Rightarrow> owner m)"
begin

lemma stranger_powerless:
  assumes "owner m \<noteq> 0" and "c \<noteq> 0" and "owner m \<noteq> c"
  shows "snd (on os c (m, w)) = (m, w)" "snd (off os c st (m, w)) = (m, w)"
  using on_refused [OF assms(1,3)] off_refused [OF assms] by (metis snd_conv, simp)

lemma owner_after_off: "owner (fst (snd (off os c st (m, w)))) \<in> {0, owner m}"
  by (cases "off os c st (m, w)") (auto dest: off_owner split: sum.splits)

lemma owner_after_on: "owner (fst (snd (on os c (m, w)))) \<in> {c, owner m}"
  by (cases "on os c (m, w)") (auto dest: on_owner split: if_splits)

end

section \<open>The implementations keep the contract\<close>

lemmas inv_id [simp] = INVALID_PRIVACY_MODE_CONN_ID_def

lemma topmost_start_conn [simp]: "tm_conn_id (snd (topmost_start os t)) = tm_conn_id t"
  by (auto simp: topmost_start_def Let_def split: sum.splits option.splits)

lemma topmost_start_connD: "topmost_start os t = (r, t') \<Longrightarrow> tm_conn_id t' = tm_conn_id t"
  by (metis topmost_start_conn snd_conv)

lemma topmost_on_owner:
  "topmost_turn_on os c (t, w) = (r, t', w') \<Longrightarrow> tm_conn_id t' = (if r = Inr True then c else tm_conn_id t)"
  by (auto simp: topmost_turn_on_def check_on_conn_id_def dest: topmost_start_connD
      split: sum.splits option.splits bool.splits prod.splits if_splits)

lemma topmost_off_owner:
  "topmost_turn_off os c st (t, w) = (r, t', w') \<Longrightarrow> tm_conn_id t' = (case r of Inr _ \<Rightarrow> 0 | Inl _ \<Rightarrow> tm_conn_id t)"
  by (auto simp: topmost_turn_off_def Let_def split: sum.splits prod.splits if_splits)

interpretation tm: privacy_contract tm_conn_id topmost_turn_on topmost_turn_off
proof unfold_locales
  fix m c os w st
  show "tm_conn_id m \<noteq> 0 \<Longrightarrow> tm_conn_id m \<noteq> c \<Longrightarrow> \<exists>e. topmost_turn_on os c (m, w) = (Inl e, m, w)"
    and "tm_conn_id m \<noteq> 0 \<Longrightarrow> snd (topmost_turn_on os (tm_conn_id m) (m, w)) = (m, w)"
    by (simp_all add: topmost_turn_on_def check_on_conn_id_def)
  show "tm_conn_id m \<noteq> 0 \<Longrightarrow> c \<noteq> 0 \<Longrightarrow> tm_conn_id m \<noteq> c \<Longrightarrow>
      topmost_turn_off os c st (m, w) = (Inl TURN_OFF_OTHER_ID, m, w)"
    by (simp add: topmost_turn_off_def check_off_conn_id_def)
qed (fact topmost_on_owner topmost_off_owner)+

lemma poll_virtual_conn [simp]: "vd_conn_id (poll_virtual os k n v) = vd_conn_id v"
  by (induction os k n v rule: poll_virtual.induct) (simp_all add: set_displays_def)

lemma ensure_virtual_conn: "ensure_virtual_display os v = (r, v') \<Longrightarrow> vd_conn_id v' = vd_conn_id v"
  by (auto simp: ensure_virtual_display_def Let_def set_displays_def split: sum.splits if_splits)

lemma virtual_engage_conn:
  "virtual_engage os c (v, w) = (r, v', w') \<Longrightarrow> vd_conn_id v' = (case r of Inr _ \<Rightarrow> c | Inl _ \<Rightarrow> vd_conn_id v)"
  by (auto simp: virtual_engage_def Let_def dest: ensure_virtual_conn
      split: sum.splits option.splits prod.splits if_splits)

lemma virtual_off_owner:
  "virtual_turn_off os c st (v, w) = (r, v', w') \<Longrightarrow> vd_conn_id v' = (case r of Inr _ \<Rightarrow> 0 | Inl _ \<Rightarrow> vd_conn_id v)"
  by (auto simp: virtual_turn_off_def check_off_conn_id_def restore_displays_def Let_def
      split: sum.splits option.splits prod.splits if_splits)

lemma virtual_on_owner:
  assumes "virtual_turn_on os c (v, w) = (r, v', w')"
  shows "vd_conn_id v' = (if r = Inr True then c else vd_conn_id v)"
proof (cases "check_on_conn_id (vd_conn_id v) c = Inr False \<and> vd_supported os \<and> fst (enum_displays os 0) \<noteq> []")
  case True
  then have z: "vd_conn_id v = 0" by (auto simp: check_on_conn_id_def split: if_splits)
  obtain q v1 w1 where e: "virtual_engage os c (set_displays os 0 v, w) = (q, v1, w1)" by (metis prod_cases3)
  have "vd_conn_id v1 = (case q of Inr _ \<Rightarrow> c | Inl _ \<Rightarrow> 0)"
    using virtual_engage_conn [OF e] z by (simp add: set_displays_def split: sum.split)
  with True assms e z virtual_off_owner [of os 0 None v1 w1] show ?thesis
    by (cases "virtual_turn_off os 0 None (v1, w1)")
       (auto simp: virtual_turn_on_def set_displays_def split: sum.splits)
next
  case False
  with assms show ?thesis
    by (auto simp: virtual_turn_on_def check_on_conn_id_def set_displays_def Let_def split: if_splits)
qed

interpretation vd: privacy_contract vd_conn_id virtual_turn_on virtual_turn_off
proof unfold_locales
  fix m c os w st
  show "vd_conn_id m \<noteq> 0 \<Longrightarrow> vd_conn_id m \<noteq> c \<Longrightarrow> \<exists>e. virtual_turn_on os c (m, w) = (Inl e, m, w)"
    and "vd_conn_id m \<noteq> 0 \<Longrightarrow> snd (virtual_turn_on os (vd_conn_id m) (m, w)) = (m, w)"
    by (simp_all add: virtual_turn_on_def check_on_conn_id_def)
  show "vd_conn_id m \<noteq> 0 \<Longrightarrow> c \<noteq> 0 \<Longrightarrow> vd_conn_id m \<noteq> c \<Longrightarrow>
      virtual_turn_off os c st (m, w) = (Inl TURN_OFF_OTHER_ID, m, w)"
    by (simp add: virtual_turn_off_def check_off_conn_id_def)
qed (fact virtual_on_owner virtual_off_owner)+

interpretation pm: privacy_contract pre_conn_id impl_turn_on impl_turn_off
proof unfold_locales
  fix m c os w st
  show "pre_conn_id m \<noteq> 0 \<Longrightarrow> pre_conn_id m \<noteq> c \<Longrightarrow> \<exists>e. impl_turn_on os c (m, w) = (Inl e, m, w)"
    by (cases m) (auto dest: tm.on_refused [of _ c os w] vd.on_refused [of _ c os w])
  show "pre_conn_id m \<noteq> 0 \<Longrightarrow> snd (impl_turn_on os (pre_conn_id m) (m, w)) = (m, w)"
    by (cases m) (auto split: prod.splits dest: tm.on_again [of _ os w] vd.on_again [of _ os w])
  show "impl_turn_on os c (m, w) = (r, m', w') \<Longrightarrow> pre_conn_id m' = (if r = Inr True then c else pre_conn_id m)" for r m' w'
    by (cases m) (auto split: prod.splits dest: tm.on_owner vd.on_owner)
  show "pre_conn_id m \<noteq> 0 \<Longrightarrow> c \<noteq> 0 \<Longrightarrow> pre_conn_id m \<noteq> c \<Longrightarrow>
      impl_turn_off os c st (m, w) = (Inl TURN_OFF_OTHER_ID, m, w)"
    by (cases m) (simp_all add: tm.off_refused vd.off_refused)
  show "impl_turn_off os c st (m, w) = (q, m', w') \<Longrightarrow> pre_conn_id m' = (case q of Inr _ \<Rightarrow> 0 | Inl _ \<Rightarrow> pre_conn_id m)" for q m' w'
    by (cases m) (auto split: prod.splits sum.splits dest: tm.off_owner vd.off_owner)
qed

section \<open>Properties\<close>

text \<open>The owner of privacy mode, \<open>0\<close> when it is off.\<close>

definition privacy_owner :: "privacy \<Rightarrow> int" where
  "privacy_owner p = (case fst p of Some m \<Rightarrow> pre_conn_id m | None \<Rightarrow> 0)"

lemma in_privacy_owner: "is_in_privacy_mode p \<longleftrightarrow> privacy_owner p \<noteq> 0"
  by (simp add: is_in_privacy_mode_def privacy_owner_def split: option.split)

lemma on_sync_refused:
  "privacy_owner p \<notin> {0, c} \<Longrightarrow> turn_on_privacy_sync C os key c p = (Some (Inl OCCUPIED), p)"
  by (cases p) (auto simp: turn_on_privacy_sync_def privacy_owner_def check_on_conn_id_def Let_def split: option.splits)

lemma off_refused:
  "privacy_owner p \<notin> {0, c} \<Longrightarrow> c \<noteq> 0 \<Longrightarrow> turn_off_privacy os c st p = (Some (Inl TURN_OFF_OTHER_ID), p)"
  by (cases p) (auto simp: turn_off_privacy_def privacy_owner_def pm.off_refused split: option.splits)

lemma new_impl_free: "PRIVACY_MODE_CREATOR C key = Some m \<Longrightarrow> pre_conn_id m = 0"
  by (auto simp: PRIVACY_MODE_CREATOR_def virtual_new_def topmost_new_def split: if_splits)

lemma on_sync_owner:
  assumes "turn_on_privacy_sync C os key c p = (r, p')"
  shows "privacy_owner p' \<in> {0, c, privacy_owner p}"
proof -
  have fresh: "pre_conn_id (fst (snd (impl_turn_on os c (m, w)))) \<in> {0, c}"
    if "PRIVACY_MODE_CREATOR C k = Some m" for m k w
    using pm.owner_after_on [of os c m w] new_impl_free [OF that] by auto
  have kept: "pre_conn_id (fst (snd (impl_turn_on os c (m, w)))) \<in> {c, pre_conn_id m}" for m w
    by (rule pm.owner_after_on)
  obtain m w where p: "p = (m, w)" by (cases p)
  show ?thesis
  proof (cases m)
    case None
    then show ?thesis
      using assms fresh unfolding p
      by (auto simp: turn_on_privacy_sync_def privacy_owner_def Let_def
          split: if_splits option.splits prod.splits sum.splits)
         (metis insert_iff singletonD fst_conv snd_conv)+
  next
    case (Some n)
    then show ?thesis
      using assms fresh kept [of n w] unfolding p
      by (auto simp: turn_on_privacy_sync_def privacy_owner_def Let_def
          split: if_splits option.splits prod.splits sum.splits)
         (metis insert_iff singletonD fst_conv snd_conv)+
  qed
qed

text \<open>An operating system on which everything succeeds, and the privacy mode of connection 7 on it.\<close>

definition demo_windows :: win_os where
  "demo_windows = \<lparr>exe_dir = Inr (Some ''d''), dll_exists = True, find_hwnd = (\<lambda>_. Inr 5), user_token = True,
     create_process = Inr (1, 2), inject_dll = Inr (), resume_thread = True, os_error = [],
     hook_thread_left = True, set_hooks = Inr (), post_exit = True, vd_supported = True, is_amyuni = False,
     enum_displays = (\<lambda>_. ([1], [2])), poll_count = 10, plug_in = Inr [2], plug_out = Inr (),
     read_reg_1 = Inr (), set_primary = Inr (), disable_physical = Inr (), commit_reset = Inr (),
     read_reg_2 = Inr (), reg_diff = None, restore_refused = [], commit_restore = True, cm_reachable = True\<rparr>"

definition demo_cfg :: privacy_cfg where
  "demo_cfg = \<lparr>exclude_supported = True, mag_supported = True, installed = True, service_running = True, impl_option = []\<rparr>"

definition demo_private :: privacy where
  "demo_private = snd (turn_on_privacy demo_cfg demo_windows None [] 7 (privacy_init demo_cfg))"

lemma demo_private_owner: "privacy_owner demo_private = 7"
  by code_simp

text \<open>An operating system that can end the hooks and finds the covering window.\<close>

definition cooperative :: "win_os \<Rightarrow> bool" where
  "cooperative os \<longleftrightarrow> post_exit os \<and> (case find_hwnd os AtTurnOff of Inr h \<Rightarrow> h \<noteq> 0 | Inl _ \<Rightarrow> False)"

lemma cooperativeD: "cooperative os \<Longrightarrow> post_exit os \<and> (\<exists>h. find_hwnd os AtTurnOff = Inr h \<and> h \<noteq> 0)"
  by (auto simp: cooperative_def split: sum.splits)

lemma impl_off_cooperative:
  assumes "cooperative os" and "c = 0 \<or> c = pre_conn_id m \<or> pre_conn_id m = 0"
  shows "fst (impl_turn_off os c st (m, w)) = Inr ()"
proof -
  obtain h where h: "post_exit os" "find_hwnd os AtTurnOff = Inr h" using cooperativeD [OF assms(1)] by blast
  show ?thesis
    using assms(2) h by (cases m) (auto simp: topmost_turn_off_def virtual_turn_off_def check_off_conn_id_def
        unhook_def restore_displays_def Let_def split: prod.split)
qed

lemma off_cooperative:
  assumes "cooperative os" and "c = 0 \<or> c = privacy_owner p"
  shows "privacy_owner (snd (turn_off_privacy os c st p)) = 0"
proof (cases p)
  case (Pair m w)
  show ?thesis
  proof (cases m)
    case (Some n)
    obtain r n' w' where e: "impl_turn_off os c st (n, w) = (r, n', w')" by (metis prod_cases3)
    have "r = Inr ()"
      using impl_off_cooperative [OF assms(1), of c n st w] assms(2) e Pair Some by (auto simp: privacy_owner_def)
    with pm.off_owner [OF e] e show ?thesis by (simp add: turn_off_privacy_def privacy_owner_def Pair Some)
  qed (simp add: turn_off_privacy_def privacy_owner_def Pair)
qed

lemma off_to_msg_state: "snd (turn_off_privacy_to_msg os c p) = snd (turn_off_privacy os c None p)"
  by (simp add: turn_off_privacy_to_msg_def split: prod.split option.split sum.split)

lemma occupied_request:
  assumes "privacy_owner p \<notin> {0, c}"
  shows "\<exists>e. turn_on_privacy C os late key c p = (Some (Inl e), p)" and "is_in_privacy_mode p"
    and "get_cur_impl_key p = Some pre \<Longrightarrow> is_current_privacy_mode_impl pre p"
proof -
  show "\<exists>e. turn_on_privacy C os late key c p = (Some (Inl e), p)"
    by (simp add: turn_on_privacy_def on_sync_refused [OF assms] split: option.split)
  show "is_in_privacy_mode p" using assms by (simp add: in_privacy_owner)
  show "get_cur_impl_key p = Some pre \<Longrightarrow> is_current_privacy_mode_impl pre p"
    by (auto simp: get_cur_impl_key_def is_current_privacy_mode_impl_def)
qed

lemma off_owner_any: "privacy_owner (snd (turn_off_privacy os c st p)) \<in> {0, privacy_owner p}"
proof (cases p)
  case (Pair m w)
  show ?thesis
  proof (cases m)
    case (Some n)
    then show ?thesis
      using pm.owner_after_off [of os c st n w]
      by (cases "impl_turn_off os c st (n, w)") (auto simp: Pair turn_off_privacy_def privacy_owner_def)
  qed (simp add: Pair turn_off_privacy_def privacy_owner_def)
qed

text \<open>
  C32. Privacy mode is not taken over: while it is on for one connection, a request of another connection to
  turn it on is never answered with success and leaves the mode with its owner or turns it off, whatever the
  operating system answers; and that the other connection turns privacy mode off or ends changes nothing,
  neither the mode, nor its owner, nor the hooks and the covered screen.
\<close>

theorem privacy_exclusive:
  assumes "privacy_owner p \<notin> {0, c}" and "c \<noteq> 0"
  shows "privacy_owner (snd (conn_turn_on_privacy C os late capturer c key p)) \<in> {0, privacy_owner p}
    \<and> (\<forall>d k. PrivacyMsg PrvOnSucceeded d k \<notin> set (fst (conn_turn_on_privacy C os late capturer c key p)))
    \<and> snd (conn_turn_off_privacy C os c key p) = p
    \<and> conn_end_privacy os c p = p"
proof -
  obtain e where on: "turn_on_privacy C os late key c p = (Some (Inl e), p)"
    using occupied_request(1) [OF assms(1)] by blast
  have cur: "get_cur_impl_key p = Some k \<longrightarrow> is_current_privacy_mode_impl k p" for k
    using occupied_request(3) [OF assms(1), of k] by blast
  have res: "conn_turn_on_privacy C os late capturer c key p
      \<in> {([PrivacyMsg PrvNotSupported unsupported_text key], p),
         ([PrivacyMsg PrvOnFailed e key], snd (turn_off_privacy_to_msg os 0 p))}"
    using occupied_request(2) [OF assms(1)] cur
    by (cases "get_cur_impl_key p") (simp_all add: conn_turn_on_privacy_def Let_def on)
  then have "privacy_owner (snd (conn_turn_on_privacy C os late capturer c key p)) \<in> {0, privacy_owner p}"
    using off_owner_any [of os 0 None p] by (elim insertE) (simp_all add: off_to_msg_state)
  moreover have "PrivacyMsg PrvOnSucceeded d k \<notin> set (fst (conn_turn_on_privacy C os late capturer c key p))" for d k
    using res by (elim insertE) simp_all
  moreover have "get_privacy_mode_conn_id p \<noteq> Some c"
    using assms(1) by (auto simp: get_privacy_mode_conn_id_def privacy_owner_def)
  ultimately show ?thesis
    using off_refused [OF assms, of os None]
    by (simp add: conn_turn_off_privacy_def off_to_msg_state conn_end_privacy_def)
qed

theorem privacy_exclusive_witness:
  "snd (conn_turn_off_privacy demo_cfg demo_windows 8 [] demo_private) = demo_private
    \<and> conn_end_privacy demo_windows 8 demo_private = demo_private"
  using privacy_exclusive [of demo_private 8 demo_cfg demo_windows None "[]" "[]"] by (simp add: demo_private_owner)

text \<open>
  C34. A refused request ends privacy mode: when it is on for one connection
  and another one asks for it, the request fails as occupied, and the error path of
  \<open>turn_on_privacy\<close> then turns the mode off under the id that stands for everybody. The host's
  screen is shown and the first peer is not told; the second gets one failure message.
\<close>

theorem occupied_request_ends_privacy:
  assumes "is_privacy_mode_supported C" and "privacy_owner p \<notin> {0, c}" and "cooperative os"
    and "conn_turn_on_privacy C os late capturer c key p = (msgs, p')"
  shows "privacy_owner p' = 0 \<and> (\<exists>e. msgs = [PrivacyMsg PrvOnFailed e key])"
proof -
  have "\<exists>e. turn_on_privacy C os late key c p = (Some (Inl e), p)"
    by (simp add: turn_on_privacy_def on_sync_refused [OF assms(2)] split: option.split)
  then obtain e where on: "turn_on_privacy C os late key c p = (Some (Inl e), p)" by blast
  have cur: "get_cur_impl_key p = Some pre \<Longrightarrow> is_current_privacy_mode_impl pre p" for pre
    by (auto simp: get_cur_impl_key_def is_current_privacy_mode_impl_def)
  have "is_in_privacy_mode p" using assms(2) by (simp add: in_privacy_owner)
  with assms(1,4) on cur
  have "msgs = [PrivacyMsg PrvOnFailed e key]" "p' = snd (turn_off_privacy os 0 None p)"
    by (auto simp: conn_turn_on_privacy_def Let_def off_to_msg_state split: option.splits)
  with off_cooperative [OF assms(3), of 0 p None] show ?thesis by simp
qed

theorem occupied_request_ends_privacy_witness:
  "privacy_owner demo_private = 7
   \<and> privacy_owner (snd (conn_turn_on_privacy demo_cfg demo_windows None [] 8 [] demo_private)) = 0"
proof -
  have c: "is_privacy_mode_supported demo_cfg" "cooperative demo_windows" by code_simp+
  obtain m p' where e: "conn_turn_on_privacy demo_cfg demo_windows None [] 8 [] demo_private = (m, p')"
    by (metis prod.exhaust)
  with occupied_request_ends_privacy [OF c(1) _ c(2) e] show ?thesis by (simp add: demo_private_owner)
qed

section \<open>The screen comes back\<close>

text \<open>Windows also accepts and commits the settings of the displays that are written back.\<close>

definition restoring :: "win_os \<Rightarrow> bool" where
  "restoring os \<longleftrightarrow> cooperative os \<and> restore_refused os = [] \<and> commit_restore os"

lemma restoringD: "restoring os \<Longrightarrow> cooperative os"
  by (simp add: restoring_def)

lemma restore_displays_off:
  assumes "restoring os" and "physical_off w \<longrightarrow> vd_displays v \<noteq> []" and "restore_displays os (v, w) = (v', w')"
  shows "\<not> physical_off w'"
  using assms by (auto simp: restore_displays_def restoring_def list_all_iff split: if_splits)

definition clean_world :: "privacy_world \<Rightarrow> bool" where
  "clean_world w \<longleftrightarrow> hook_st w \<noteq> Hooked \<and> \<not> window_shown w \<and> \<not> physical_off w"

fun impl_inv :: "privacy_impl \<times> privacy_world \<Rightarrow> bool" where
  "impl_inv (Topmost t, w) \<longleftrightarrow> \<not> physical_off w \<and> (tm_conn_id t = 0 \<longrightarrow> clean_world w)"
| "impl_inv (Virtual v, w) \<longleftrightarrow> \<not> window_shown w \<and> (vd_conn_id v = 0 \<longrightarrow> clean_world w)
     \<and> (physical_off w \<longrightarrow> vd_displays v \<noteq> [])"

definition privacy_inv :: "privacy \<Rightarrow> bool" where
  "privacy_inv p \<longleftrightarrow> (case p of (Some m, w) \<Rightarrow> impl_inv (m, w) | (None, w) \<Rightarrow> clean_world w)"

lemma clean_inv: "clean_world w \<Longrightarrow> impl_inv (m, w)"
  by (cases m) (simp_all add: clean_world_def)

lemma inv_clean: "impl_inv (m, w) \<Longrightarrow> pre_conn_id m = 0 \<Longrightarrow> clean_world w"
  by (cases m) simp_all

lemma hook_frame [simp]:
  "window_shown (snd (hook os w)) = window_shown w" "physical_off (snd (hook os w)) = physical_off w"
  by (simp_all add: hook_def Let_def split: sum.split)

lemma hook_fails: "hook os w = (Inl e, w') \<Longrightarrow> clean_world w \<Longrightarrow> clean_world w'"
  by (auto simp: hook_def Let_def clean_world_def split: sum.splits if_splits)

lemma topmost_on_inv:
  assumes "impl_inv (Topmost t, w)" and "topmost_turn_on os c (t, w) = (r, t', w')"
  shows "impl_inv (Topmost t', w')"
proof (cases "tm_conn_id t = 0 \<and> c \<noteq> 0")
  case True
  then have w: "clean_world w" using assms(1) by simp
  show ?thesis
    using assms(2) w True
    by (auto simp: topmost_turn_on_def check_on_conn_id_def clean_world_def hook_def Let_def
        dest: topmost_start_connD split: sum.splits option.splits prod.splits if_splits)
next
  case False
  then have "t' = t \<and> w' = w" using assms(2)
    by (auto simp: topmost_turn_on_def check_on_conn_id_def split: if_splits)
  with assms(1) show ?thesis by simp
qed

lemma virtual_engage_frame:
  "virtual_engage os c (v, w) = (r, v', w') \<Longrightarrow> window_shown w' = window_shown w \<and> hook_st w' = hook_st w
     \<and> (\<not> physical_off w \<longrightarrow> physical_off w' \<longrightarrow> vd_displays v' \<noteq> [])"
  by (auto simp: virtual_engage_def Let_def split: sum.splits option.splits prod.splits if_splits)

lemma unhook_restoring: "restoring os \<Longrightarrow> \<exists>w'. unhook os w = (Inr (), w') \<and> hook_st w' \<noteq> Hooked
    \<and> window_shown w' = window_shown w \<and> physical_off w' = physical_off w"
  by (auto simp: unhook_def restoring_def dest: cooperativeD)

text \<open>Turning off either is refused without effect or leaves everything restored.\<close>

lemma virtual_off_result:
  assumes "restoring os" and "physical_off w \<longrightarrow> vd_displays v \<noteq> []" and "\<not> window_shown w"
    and "virtual_turn_off os c st (v, w) = (r, v', w')"
  shows "(check_off_conn_id (vd_conn_id v) c \<noteq> Inr () \<and> v' = v \<and> w' = w) \<or> (vd_conn_id v' = 0 \<and> clean_world w')"
proof (cases "check_off_conn_id (vd_conn_id v) c")
  case (Inr u)
  obtain w1 where u: "unhook os w = (Inr (), w1)" "hook_st w1 \<noteq> Hooked" "window_shown w1 = window_shown w"
    "physical_off w1 = physical_off w" using unhook_restoring [OF assms(1)] by blast
  obtain v2 w2 where q: "restore_displays os (v, w1) = (v2, w2)" by fastforce
  have "\<not> physical_off w2" using restore_displays_off [OF assms(1) _ q] assms(2) u(4) by simp
  moreover have "hook_st w2 \<noteq> Hooked" "\<not> window_shown w2" "vd_conn_id v2 = vd_conn_id v"
    using q u(2,3) assms(3) by (auto simp: restore_displays_def split: if_splits)
  ultimately show ?thesis
    using assms(4) Inr u(1) q
    by (auto simp: virtual_turn_off_def clean_world_def set_privacy_mode_state_def Let_def split: option.splits if_splits)
next
  case (Inl e)
  with assms(4) show ?thesis by (auto simp: virtual_turn_off_def)
qed

lemma virtual_off_inv:
  assumes "impl_inv (Virtual v, w)" and "restoring os" and "virtual_turn_off os c st (v, w) = (r, v', w')"
  shows "impl_inv (Virtual v', w')"
proof -
  have "physical_off w \<longrightarrow> vd_displays v \<noteq> []" "\<not> window_shown w" using assms(1) by simp_all
  from virtual_off_result [OF assms(2) this assms(3)] assms(1) show ?thesis by (auto simp: clean_world_def)
qed

lemma virtual_off_cleans:
  assumes "restoring os" and "vd_conn_id v = 0" and "\<not> window_shown w" and "physical_off w \<longrightarrow> vd_displays v \<noteq> []"
    and "virtual_turn_off os 0 None (v, w) = (r, v', w')"
  shows "vd_conn_id v' = 0 \<and> clean_world w'"
  using virtual_off_result [OF assms(1,4,3,5)] assms(2) by (auto simp: check_off_conn_id_def)

lemma virtual_on_inv:
  assumes "impl_inv (Virtual v, w)" and "restoring os" and "virtual_turn_on os c (v, w) = (r, v', w')"
  shows "impl_inv (Virtual v', w')"
proof (cases "check_on_conn_id (vd_conn_id v) c = Inr False \<and> vd_supported os \<and> fst (enum_displays os 0) \<noteq> []")
  case True
  then have z: "vd_conn_id v = 0" "c \<noteq> 0" by (auto simp: check_on_conn_id_def split: if_splits)
  with assms(1) have w: "clean_world w" by simp
  obtain q v1 w1 where e: "virtual_engage os c (set_displays os 0 v, w) = (q, v1, w1)" by (metis prod_cases3)
  have sh: "\<not> window_shown w1" and off: "physical_off w1 \<longrightarrow> vd_displays v1 \<noteq> []"
    using virtual_engage_frame [OF e] w by (simp_all add: clean_world_def)
  show ?thesis
  proof (cases q)
    case (Inl x)
    then have z1: "vd_conn_id v1 = 0" using virtual_engage_conn [OF e] z by (simp add: set_displays_def)
    have "snd (virtual_turn_off os 0 None (v1, w1)) = (v', w')"
      using True assms(3) e Inl by (auto simp: virtual_turn_on_def set_displays_def)
    then obtain q' where "virtual_turn_off os 0 None (v1, w1) = (q', v', w')" by (metis prod.collapse)
    from virtual_off_cleans [OF assms(2) z1 sh off this] show ?thesis by (simp add: clean_world_def)
  next
    case (Inr x)
    then have "vd_conn_id v1 = c" using virtual_engage_conn [OF e] by simp
    moreover have "v' = v1 \<and> w' = snd (hook os w1)"
      using True assms(3) e Inr by (auto simp: virtual_turn_on_def set_displays_def)
    ultimately show ?thesis using z sh off by simp
  qed
next
  case False
  then have "vd_conn_id v' = vd_conn_id v \<and> w' = w \<and> (vd_displays v' = vd_displays v \<or> vd_conn_id v = 0)"
    using assms(3) by (auto simp: virtual_turn_on_def check_on_conn_id_def set_displays_def Let_def split: if_splits)
  with assms(1) show ?thesis by (auto simp: clean_world_def)
qed

lemma topmost_off_inv:
  assumes "impl_inv (Topmost t, w)" and "restoring os" and "topmost_turn_off os c st (t, w) = (r, t', w')"
  shows "impl_inv (Topmost t', w')"
  using assms(1,3) cooperativeD [OF restoringD [OF assms(2)]]
  by (auto simp: topmost_turn_off_def unhook_def clean_world_def Let_def
      set_privacy_mode_state_def split: sum.splits option.splits if_splits)

lemma impl_on_inv:
  "impl_inv (m, w) \<Longrightarrow> restoring os \<Longrightarrow> impl_turn_on os c (m, w) = (r, m', w') \<Longrightarrow> impl_inv (m', w')"
  by (cases m) (auto simp del: impl_inv.simps split: prod.splits intro: topmost_on_inv virtual_on_inv)

lemma impl_off_inv:
  "impl_inv (m, w) \<Longrightarrow> restoring os \<Longrightarrow> impl_turn_off os c st (m, w) = (r, m', w') \<Longrightarrow> impl_inv (m', w')"
  by (cases m) (auto simp del: impl_inv.simps split: prod.splits intro: topmost_off_inv virtual_off_inv)

lemma impl_clear_clean:
  assumes "impl_inv (m, w)" and "restoring os" and "impl_clear os (m, w) = (m', w')"
  shows "pre_conn_id m' = 0" "clean_world w'"
proof -
  obtain r where e: "impl_turn_off os (pre_conn_id m) None (m, w) = (r, m', w')"
    using assms(3) unfolding impl_clear_def by (metis fst_conv prod.collapse)
  have "r = Inr ()" using impl_off_cooperative [OF restoringD [OF assms(2)], of "pre_conn_id m" m None w] e by simp
  then show *: "pre_conn_id m' = 0" using pm.off_owner [OF e] by simp
  show "clean_world w'" using impl_off_inv [OF assms(1,2) e] * by (rule inv_clean)
qed

lemma impl_drop_clean:
  assumes "impl_inv (m, w)" and "restoring os"
  shows "clean_world (impl_drop os (m, w))"
proof -
  obtain m' w' where e: "(if pre_conn_id m \<noteq> 0 then impl_clear os (m, w) else (m, w)) = (m', w')" by fastforce
  have "clean_world w'"
    using impl_clear_clean [OF assms, of m' w'] inv_clean [OF assms(1)] e by (auto split: if_splits)
  then show ?thesis using e by (auto simp: impl_drop_def clean_world_def split: privacy_impl.split)
qed

lemma replaced_clean:
  assumes "impl_inv (m, w)" and "restoring os"
  shows "clean_world (impl_drop os (impl_clear os (m, w)))"
proof (cases "impl_clear os (m, w)")
  case (Pair m' w')
  from impl_clear_clean [OF assms this] show ?thesis by (simp add: Pair impl_drop_clean clean_inv assms(2))
qed

lemma on_sync_inv:
  assumes "privacy_inv p" and "restoring os" and "turn_on_privacy_sync C os key c p = (r, p')"
  shows "privacy_inv p'"
proof -
  obtain m w where p: "p = (m, w)" by (cases p)
  let ?k = "get_supported_impl C key"
  let ?w = "case m of Some m \<Rightarrow> impl_drop os (impl_clear os (m, w)) | None \<Rightarrow> w"
  have w: "clean_world ?w"
    using assms(1,2) by (cases m) (simp_all add: p privacy_inv_def replaced_clean)
  have new: "privacy_inv (Some m1, w1)" if "impl_turn_on os c (m', ?w) = (q, m1, w1)" for m' q m1 w1
    using impl_on_inv [OF clean_inv [OF w] assms(2) that] by (simp add: privacy_inv_def)
  have old: "privacy_inv (Some m1, w1)" if "m = Some n" "impl_turn_on os c (n, w) = (q, m1, w1)" for n q m1 w1
    using impl_on_inv [OF _ assms(2) that(2)] assms(1) that(1) by (simp add: privacy_inv_def p)
  show ?thesis
    using assms(1,3) new old unfolding p turn_on_privacy_sync_def Let_def
    by (auto split: if_splits option.splits sum.splits prod.splits)
qed

lemma off_inv:
  assumes "privacy_inv p" and "restoring os"
  shows "privacy_inv (snd (turn_off_privacy os c st p))"
  using assms by (cases p) (auto simp: turn_off_privacy_def privacy_inv_def
      split: option.splits prod.splits dest: impl_off_inv)

lemma turn_on_privacy_state: "snd (turn_on_privacy C os late key c p) = snd (turn_on_privacy_sync C os key c p)"
  by (simp add: turn_on_privacy_def split: prod.split option.split)

lemma conn_on_inv:
  assumes "privacy_inv p" and "restoring os"
  shows "privacy_inv (snd (conn_turn_on_privacy C os late capturer c key p))"
proof -
  obtain r q where e: "turn_on_privacy C os late key c p = (r, q)" by (metis prod.exhaust)
  have q: "privacy_inv q"
    using on_sync_inv [OF assms(1,2), of C key c] turn_on_privacy_state [of C os late key c p] e
    by (cases "turn_on_privacy_sync C os key c p") simp
  then have "privacy_inv (snd (turn_off_privacy_to_msg os d q))" for d
    by (simp add: off_to_msg_state off_inv assms(2))
  with q assms(1) show ?thesis
    by (auto simp: conn_turn_on_privacy_def e Let_def split: option.split sum.split bool.split)
qed

text \<open>
  The states privacy mode can be in: requests of connections, the end of a connection, the key
  combination at the host and a change of the configured implementation, each on a Windows that posts the
  message to the thread of the hooks, finds the covering window, and accepts and commits the settings of the
  displays that are written back.
\<close>

inductive privacy_reach :: "privacy_cfg \<Rightarrow> privacy \<Rightarrow> bool" for C where
  Init: "privacy_reach C (privacy_init C)"
| TurnOn: "privacy_reach C p \<Longrightarrow> restoring os \<Longrightarrow> privacy_reach C (snd (conn_turn_on_privacy C os late capturer c key p))"
| TurnOff: "privacy_reach C p \<Longrightarrow> restoring os \<Longrightarrow> privacy_reach C (snd (conn_turn_off_privacy C os c key p))"
| EndConn: "privacy_reach C p \<Longrightarrow> restoring os \<Longrightarrow> privacy_reach C (conn_end_privacy os c p)"
| Hotkey: "privacy_reach C p \<Longrightarrow> restoring os \<Longrightarrow> privacy_reach C (hotkey_off os p)"
| Switch: "privacy_reach C p \<Longrightarrow> restoring os \<Longrightarrow> privacy_reach C (switch_impl C os key p)"

lemma switch_inv: "privacy_inv p \<Longrightarrow> restoring os \<Longrightarrow> privacy_inv (switch_impl C os key p)"
  by (cases p) (auto simp: switch_impl_def privacy_inv_def intro!: clean_inv impl_drop_clean
      split: option.splits)

lemma reach_inv: "privacy_reach C p \<Longrightarrow> privacy_inv p"
proof (induction rule: privacy_reach.induct)
  case Init
  show ?case by (auto simp: privacy_init_def privacy_inv_def clean_world_def intro!: clean_inv split: option.split)
qed (simp_all add: conn_on_inv conn_turn_off_privacy_def conn_end_privacy_def hotkey_off_def off_to_msg_state off_inv switch_inv)

text \<open>
  C33. The host gets its screen and its input back, if Windows cooperates in this and all earlier steps (it
  posts the message to the thread of the hooks, finds the covering window, and accepts and commits the
  settings written back): when the connection that owns privacy mode ends, in any state privacy mode can
  reach, the mode is off, the thread of the keyboard and mouse hooks is not running or has been told to leave,
  the covering window is hidden and the physical displays are on.
\<close>

theorem connection_end_restores:
  assumes "privacy_reach C p" and "restoring os" and "privacy_owner p = c" and "p' = conn_end_privacy os c p"
  shows "\<not> is_in_privacy_mode p' \<and> hook_st (snd p') \<noteq> Hooked \<and> \<not> window_shown (snd p') \<and> \<not> physical_off (snd p')"
proof -
  have "privacy_owner p' = 0"
    using assms(3,4) off_cooperative [OF restoringD [OF assms(2)], of c p None]
    by (auto simp: conn_end_privacy_def off_to_msg_state get_privacy_mode_conn_id_def privacy_owner_def split: option.splits)
  moreover have "privacy_inv p'" using assms reach_inv privacy_reach.EndConn by blast
  ultimately have "clean_world (snd p')"
    by (cases p') (auto simp: privacy_inv_def privacy_owner_def dest: inv_clean split: option.splits)
  with \<open>privacy_owner p' = 0\<close> show ?thesis by (simp add: in_privacy_owner clean_world_def)
qed

theorem connection_end_restores_witness:
  "\<exists>p. privacy_owner p = 7 \<and> window_shown (snd p) \<and> \<not> window_shown (snd (conn_end_privacy demo_windows 7 p))"
proof -
  let ?p = "snd (conn_turn_on_privacy demo_cfg demo_windows None [] 7 [] (privacy_init demo_cfg))"
  have c: "restoring demo_windows" by code_simp
  have p: "privacy_owner ?p = 7" "window_shown (snd ?p)" by code_simp+
  from connection_end_restores [OF privacy_reach.TurnOn [OF privacy_reach.Init c] c p(1) refl]
  have "\<not> window_shown (snd (conn_end_privacy demo_windows 7 ?p))" by blast
  with p show ?thesis by blast
qed

end
