(* ===== verification/Conn_Services.thy ===== *)
theory Conn_Services
  imports Privacy_Mode Video_Qos Codec_Negotiation
begin

text \<open>
  The services of an authorized connection (\<open>src/server/connection.rs\<close>): which services it is
  subscribed to and which input it may inject, as the permissions granted at the host
  (\<open>SwitchPermission\<close>) and the options chosen by the viewer (\<open>update_options\<close>) change. The build
  is the Linux desktop one with file copy and paste.
\<close>

section \<open>Data\<close>

definition NAME_CURSOR :: string where "NAME_CURSOR = ''mouse_cursor''"
definition NAME_POS :: string where "NAME_POS = ''mouse_pos''"
definition NAME_WINDOW_FOCUS :: string where "NAME_WINDOW_FOCUS = ''window_focus''"
definition CLIPBOARD_NAME :: string where "CLIPBOARD_NAME = ''clipboard''"
definition FILE_CLIPBOARD_NAME :: string where "FILE_CLIPBOARD_NAME = ''file-clipboard''"
definition AUDIO_NAME :: string where "AUDIO_NAME = ''audio''"

lemmas service_names = NAME_CURSOR_def NAME_POS_def NAME_WINDOW_FOCUS_def CLIPBOARD_NAME_def
  FILE_CLIPBOARD_NAME_def AUDIO_NAME_def

text \<open>\<open>EnumOrUnknown<BoolOption>\<close>.\<close>

datatype bool_option = NotSet | No | Yes | UnknownOption

fun enum_value :: "bool_option \<Rightarrow> bool option" where
  "enum_value No = Some False"
| "enum_value Yes = Some True"
| "enum_value _ = None"

record option_message =
  om_image_quality :: int
  om_custom_image_quality :: int
  om_custom_fps :: int
  om_supported_decoding :: "supported_decoding option"
  om_lock_after_session_end :: bool_option
  om_show_remote_cursor :: bool_option
  om_privacy_mode :: bool_option
  om_block_input :: bool_option
  om_disable_audio :: bool_option
  om_disable_clipboard :: bool_option
  om_enable_file_transfer :: bool_option
  om_disable_keyboard :: bool_option
  om_follow_remote_cursor :: bool_option
  om_follow_remote_window :: bool_option
  om_terminal_persistent :: bool_option
  om_show_my_cursor :: bool_option

definition option_message_default :: option_message where
  "option_message_default = \<lparr>om_image_quality = 0, om_custom_image_quality = 0, om_custom_fps = 0,
     om_supported_decoding = None, om_lock_after_session_end = NotSet, om_show_remote_cursor = NotSet,
     om_privacy_mode = NotSet, om_block_input = NotSet, om_disable_audio = NotSet,
     om_disable_clipboard = NotSet, om_enable_file_transfer = NotSet, om_disable_keyboard = NotSet,
     om_follow_remote_cursor = NotSet, om_follow_remote_window = NotSet, om_terminal_persistent = NotSet,
     om_show_my_cursor = NotSet\<rparr>"

datatype perm_kind = PKeyboard | PClipboard | PAudio | PFile | PRestart | PRecording | PBlockInput

text \<open>What the connection sends: to the peer, to the connection manager, to its input thread.\<close>

datatype peer_msg =
    PermissionInfo perm_kind bool
  | BlockInputFailed bool string
  | PrivacyNote privacy_msg
  | MessageBox string string string
  | VoiceCallResponseMsg int bool
  | DisplayChanged nat

datatype cm_notice = CmVoiceCallIncoming | CmStartVoiceCall | CmCloseVoiceCall string | CmChat string

record key_event =
  ke_mode :: nat
  ke_control :: "nat option"
  ke_chr :: "nat option"
  ke_text :: bool
  ke_down :: bool
  ke_press :: bool

record mouse_event =
  me_mask :: int
  me_x :: int
  me_y :: int

datatype input_msg =
    InMouse mouse_event bool bool
  | InPointer nat
  | InKey key_event bool
  | BlockOn
  | BlockOff

record conn_state =
  conn :: connection
  inner :: conn_inner
  srv :: "server option"
  follow_remote_cursor :: bool
  lock_after_session_end :: bool
  show_my_cursor :: bool
  voice_calling :: bool
  voice_call_request_timestamp :: "int option"
  display_idx :: nat
  multi_ui_session :: bool
  login_options :: "option_message option"
  auto_disconnect_timer :: "(int \<times> nat) option"
  pressed_modifiers :: "string set"
  audio_sender :: bool
  host_clipboard :: "nat list"
  file_clip_emptied :: nat
  whiteboard :: bool
  rebooted :: bool
  persistent_set :: "bool option"
  to_peer :: "peer_msg list"
  to_cm :: "cm_notice list"
  to_input :: "input_msg list"

text \<open>
  What the handlers read of the host: built-in options, the clock in milliseconds, the configured
  time-out, the displays, the support of the drawing board and the key map of the \<open>rdev\<close> library.
\<close>

record host_env =
  builtin :: "string \<Rightarrow> string"
  now :: int
  host_option :: "string \<Rightarrow> string"
  parse_u64 :: "string \<Rightarrow> nat option"
  primary_display_idx :: nat
  primary_camera_exists :: bool
  whiteboard_supported :: bool
  rdev_key :: "nat \<Rightarrow> string"
  display_known :: "nat \<Rightarrow> bool"

abbreviation on_server :: "(server \<Rightarrow> server) \<Rightarrow> conn_state \<Rightarrow> conn_state" where
  "on_server f s \<equiv> s\<lparr>srv := map_option f (srv s)\<rparr>"

definition send_peer :: "peer_msg \<Rightarrow> conn_state \<Rightarrow> conn_state" where
  "send_peer m s = s\<lparr>to_peer := to_peer s @ [m]\<rparr>"

definition send_to_cm :: "cm_notice \<Rightarrow> conn_state \<Rightarrow> conn_state" where
  "send_to_cm m s = s\<lparr>to_cm := to_cm s @ [m]\<rparr>"

definition input_send :: "input_msg \<Rightarrow> conn_state \<Rightarrow> conn_state" where
  "input_send m s = s\<lparr>to_input := to_input s @ [m]\<rparr>"

definition subscribe :: "string \<Rightarrow> bool \<Rightarrow> conn_state \<Rightarrow> conn_state" where
  "subscribe name b s = on_server (server_subscribe name (inner s) b) s"

section \<open>What is enabled\<close>

definition peer_keyboard_enabled :: "conn_state \<Rightarrow> bool" where
  "peer_keyboard_enabled s \<longleftrightarrow> keyboard (conn s) \<and> \<not> disable_keyboard (conn s)"

definition clipboard_enabled :: "conn_state \<Rightarrow> bool" where
  "clipboard_enabled s \<longleftrightarrow> clipboard (conn s) \<and> \<not> disable_clipboard (conn s)"

definition can_sub_clipboard_service :: "host_env \<Rightarrow> conn_state \<Rightarrow> bool" where
  "can_sub_clipboard_service E s \<longleftrightarrow> clipboard_enabled s \<and> peer_keyboard_enabled s
     \<and> builtin E ''one-way-clipboard-redirection'' \<noteq> ''Y''"

definition audio_enabled :: "conn_state \<Rightarrow> bool" where
  "audio_enabled s \<longleftrightarrow> audio (conn s) \<and> \<not> disable_audio (conn s)"

definition file_transfer_enabled :: "conn_state \<Rightarrow> bool" where
  "file_transfer_enabled s \<longleftrightarrow> file_perm (conn s) \<and> enable_file_transfer (conn s)"

definition can_sub_file_clipboard_service :: "host_env \<Rightarrow> conn_state \<Rightarrow> bool" where
  "can_sub_file_clipboard_service E s \<longleftrightarrow> clipboard_enabled s \<and> file_transfer_enabled s
     \<and> builtin E ''one-way-file-transfer'' \<noteq> ''Y''"

definition is_remote :: "conn_state \<Rightarrow> bool" where
  "is_remote s \<longleftrightarrow> file_transfer (conn s) = None \<and> \<not> port_forward_socket (conn s)
     \<and> \<not> view_camera (conn s) \<and> \<not> is_terminal (conn s)"

definition is_authed_remote_conn :: "conn_state \<Rightarrow> bool" where
  "is_authed_remote_conn s \<longleftrightarrow> (case authed_conn_id (conn s) of Some (_, ty) \<Rightarrow> ty = ConnRemote | None \<Rightarrow> False)"

definition is_authed_view_camera_conn :: "conn_state \<Rightarrow> bool" where
  "is_authed_view_camera_conn s \<longleftrightarrow> (case authed_conn_id (conn s) of Some (_, ty) \<Rightarrow> ty = ConnViewCamera | None \<Rightarrow> False)"

definition video_source_of :: "conn_state \<Rightarrow> video_source" where
  "video_source_of s = (if view_camera (conn s) then Camera else Monitor)"

definition send_permission :: "perm_kind \<Rightarrow> bool \<Rightarrow> conn_state \<Rightarrow> conn_state" where
  "send_permission p enabled = send_peer (PermissionInfo p enabled)"

definition try_empty_file_clipboard :: "conn_state \<Rightarrow> conn_state" where
  "try_empty_file_clipboard s = s\<lparr>file_clip_emptied := file_clip_emptied s + 1\<rparr>"

text \<open>The subscriptions that several handlers bring up to date.\<close>

definition sync_clipboard :: "host_env \<Rightarrow> conn_state \<Rightarrow> conn_state" where
  "sync_clipboard E s = subscribe CLIPBOARD_NAME (can_sub_clipboard_service E s) s"

definition sync_file_clipboard :: "host_env \<Rightarrow> conn_state \<Rightarrow> conn_state" where
  "sync_file_clipboard E s = subscribe FILE_CLIPBOARD_NAME (can_sub_file_clipboard_service E s) s"

definition sync_cursor :: "conn_state \<Rightarrow> conn_state" where
  "sync_cursor s = subscribe NAME_CURSOR (peer_keyboard_enabled s \<or> show_remote_cursor (conn s)) s"

text \<open>The audio of a camera connection is only heard during a voice call.\<close>

definition sync_audio :: "conn_state \<Rightarrow> conn_state" where
  "sync_audio s =
     (if is_authed_view_camera_conn s
      then (if voice_calling s \<or> \<not> audio_enabled s then subscribe AUDIO_NAME (audio_enabled s) s else s)
      else subscribe AUDIO_NAME (audio_enabled s) s)"

section \<open>Permissions switched at the host\<close>

definition switch_permission :: "host_env \<Rightarrow> string \<Rightarrow> bool \<Rightarrow> conn_state \<Rightarrow> conn_state" where
  "switch_permission E name enabled s =
     (if name = ''keyboard'' then
        let s = send_permission PKeyboard enabled (s\<lparr>conn := (conn s)\<lparr>keyboard := enabled\<rparr>\<rparr>);
            s = sync_file_clipboard E (sync_clipboard E s)
        in subscribe NAME_CURSOR (enabled \<or> show_remote_cursor (conn s)) s
      else if name = ''clipboard'' then
        sync_clipboard E (send_permission PClipboard enabled (s\<lparr>conn := (conn s)\<lparr>clipboard := enabled\<rparr>\<rparr>))
      else if name = ''audio'' then
        let s = send_permission PAudio enabled (s\<lparr>conn := (conn s)\<lparr>audio := enabled\<rparr>\<rparr>) in
        if authorized (conn s) then sync_audio s else s
      else if name = ''file'' then
        let s = send_permission PFile enabled (s\<lparr>conn := (conn s)\<lparr>file_perm := enabled\<rparr>\<rparr>);
            s = (if \<not> enabled then try_empty_file_clipboard s else s)
        in sync_file_clipboard E s
      else if name = ''restart'' then
        send_permission PRestart enabled (s\<lparr>conn := (conn s)\<lparr>restart := enabled\<rparr>\<rparr>)
      else if name = ''recording'' then
        send_permission PRecording enabled (s\<lparr>conn := (conn s)\<lparr>recording := enabled\<rparr>\<rparr>)
      else if name = ''block_input'' then
        send_permission PBlockInput enabled (s\<lparr>conn := (conn s)\<lparr>block_input := enabled\<rparr>\<rparr>)
      else s)"

section \<open>Options of the viewer\<close>

text \<open>The options up to the keyboard: flags of the connection and the subscriptions that follow.\<close>

definition opt_lock :: "option_message \<Rightarrow> conn_state \<Rightarrow> conn_state" where
  "opt_lock o' s = (case enum_value (om_lock_after_session_end o') of
     Some b \<Rightarrow> s\<lparr>lock_after_session_end := b\<rparr> | None \<Rightarrow> s)"

definition opt_show_cursor :: "option_message \<Rightarrow> conn_state \<Rightarrow> conn_state" where
  "opt_show_cursor o' s = (case enum_value (om_show_remote_cursor o') of
     Some b \<Rightarrow> subscribe NAME_POS b (sync_cursor (s\<lparr>conn := (conn s)\<lparr>show_remote_cursor := b\<rparr>\<rparr>)) | None \<Rightarrow> s)"

definition opt_follow_cursor :: "option_message \<Rightarrow> conn_state \<Rightarrow> conn_state" where
  "opt_follow_cursor o' s = (case enum_value (om_follow_remote_cursor o') of
     Some b \<Rightarrow> s\<lparr>follow_remote_cursor := b\<rparr> | None \<Rightarrow> s)"

definition opt_follow_window :: "option_message \<Rightarrow> conn_state \<Rightarrow> conn_state" where
  "opt_follow_window o' s = (case enum_value (om_follow_remote_window o') of
     Some b \<Rightarrow> subscribe NAME_WINDOW_FOCUS b (s\<lparr>conn := (conn s)\<lparr>follow_remote_window := b\<rparr>\<rparr>) | None \<Rightarrow> s)"

definition opt_audio :: "option_message \<Rightarrow> conn_state \<Rightarrow> conn_state" where
  "opt_audio o' s = (case enum_value (om_disable_audio o') of
     Some b \<Rightarrow> sync_audio (s\<lparr>conn := (conn s)\<lparr>disable_audio := b\<rparr>\<rparr>) | None \<Rightarrow> s)"

definition opt_file :: "host_env \<Rightarrow> option_message \<Rightarrow> conn_state \<Rightarrow> conn_state" where
  "opt_file E o' s = (case enum_value (om_enable_file_transfer o') of
     Some b \<Rightarrow>
       let s = s\<lparr>conn := (conn s)\<lparr>enable_file_transfer := b\<rparr>\<rparr>;
           s = (if \<not> b then try_empty_file_clipboard s else s)
       in sync_file_clipboard E s
   | None \<Rightarrow> s)"

definition opt_clipboard :: "host_env \<Rightarrow> option_message \<Rightarrow> conn_state \<Rightarrow> conn_state" where
  "opt_clipboard E o' s = (case enum_value (om_disable_clipboard o') of
     Some b \<Rightarrow> sync_clipboard E (s\<lparr>conn := (conn s)\<lparr>disable_clipboard := b\<rparr>\<rparr>) | None \<Rightarrow> s)"

definition opt_keyboard :: "host_env \<Rightarrow> option_message \<Rightarrow> conn_state \<Rightarrow> conn_state" where
  "opt_keyboard E o' s = (case enum_value (om_disable_keyboard o') of
     Some b \<Rightarrow> sync_cursor (sync_file_clipboard E (sync_clipboard E (s\<lparr>conn := (conn s)\<lparr>disable_keyboard := b\<rparr>\<rparr>)))
   | None \<Rightarrow> s)"

definition service_options :: "host_env \<Rightarrow> option_message \<Rightarrow> conn_state \<Rightarrow> conn_state" where
  "service_options E o' s =
     opt_keyboard E o' (opt_clipboard E o' (opt_file E o' (opt_audio o' (opt_follow_window o'
       (opt_follow_cursor o' (opt_show_cursor o' (opt_lock o' s)))))))"

text \<open>Privacy mode by option, for viewers before 1.2.4.\<close>

definition opt_privacy ::
    "privacy_cfg \<Rightarrow> win_os \<Rightarrow> string option \<Rightarrow> string \<Rightarrow> option_message \<Rightarrow> conn_state \<times> privacy \<Rightarrow> conn_state \<times> privacy" where
  "opt_privacy C os late capturer o' sp =
     (case sp of (s, p) \<Rightarrow>
        if get_version_number (lr_version (lr (conn s))) < get_version_number ''1.2.4'' \<and> keyboard (conn s)
        then (case enum_value (om_privacy_mode o') of
                Some True \<Rightarrow> (case conn_turn_on_privacy C os late capturer (conn_id (inner s)) [] p of
                                (ms, p) \<Rightarrow> (fold (\<lambda>m. send_peer (PrivacyNote m)) ms s, p))
              | Some False \<Rightarrow> (case conn_turn_off_privacy C os (conn_id (inner s)) [] p of
                                (m, p) \<Rightarrow> (send_peer (PrivacyNote m) s, p))
              | None \<Rightarrow> (s, p))
        else (s, p))"

definition opt_block_input :: "option_message \<Rightarrow> conn_state \<Rightarrow> conn_state" where
  "opt_block_input o' s = (case enum_value (om_block_input o') of
     Some b \<Rightarrow>
       if keyboard (conn s) \<and> block_input (conn s) then input_send (if b then BlockOn else BlockOff) s
       else send_peer (BlockInputFailed b ''No permission'') s
   | None \<Rightarrow> s)"

definition opt_terminal :: "option_message \<Rightarrow> conn_state \<Rightarrow> conn_state" where
  "opt_terminal o' s = (case enum_value (om_terminal_persistent o') of
     Some b \<Rightarrow> s\<lparr>conn := (conn s)\<lparr>terminal_persistent := b\<rparr>, persistent_set := Some b\<rparr> | None \<Rightarrow> s)"

definition opt_my_cursor :: "host_env \<Rightarrow> option_message \<Rightarrow> conn_state \<Rightarrow> conn_state" where
  "opt_my_cursor E o' s = (case enum_value (om_show_my_cursor o') of
     Some b \<Rightarrow>
       let s = s\<lparr>show_my_cursor := b\<rparr> in
       if whiteboard_supported E then s\<lparr>whiteboard := b\<rparr>
       else if b then send_peer (MessageBox ''nook-nocancel-hasclose'' ''Show my cursor''
         ''This feature is not supported on native Wayland, please install XWayland or switch to X11.'') s
       else s
   | None \<Rightarrow> s)"

definition session_options :: "host_env \<Rightarrow> option_message \<Rightarrow> conn_state \<Rightarrow> conn_state" where
  "session_options E o' s = opt_my_cursor E o' (opt_terminal o' (opt_block_input o' (service_options E o' s)))"

text \<open>
  \<open>update_options\<close> as a whole, over the connection, the quality controller, the codec tables and
  privacy mode; \<open>None\<close> when the quality controller panics.
\<close>

definition update_options ::
    "host_env \<Rightarrow> codec_env \<Rightarrow> privacy_cfg \<Rightarrow> win_os \<Rightarrow> string option \<Rightarrow> string \<Rightarrow> option_message \<Rightarrow>
     conn_state \<times> video_qos \<times> codec_tables \<times> privacy \<Rightarrow> (conn_state \<times> video_qos \<times> codec_tables \<times> privacy) option" where
  "update_options E CE C os late capturer o' st =
     (case st of (s, q, t, p) \<Rightarrow>
        let i = conn_id (inner s) in
        (case update_options_qos (now E) i (om_image_quality o') (om_custom_image_quality o') (om_custom_fps o') q of
           None \<Rightarrow> None
         | Some q \<Rightarrow>
             let t = (case om_supported_decoding o' of Some d \<Rightarrow> encoder_update CE (Update i d) t | None \<Rightarrow> t);
                 (s, p) = opt_privacy C os late capturer o' (service_options E o' s, p);
                 s = opt_my_cursor E o' (opt_terminal o' (opt_block_input o' s))
             in Some (s, q, t, p)))"

section \<open>After the login\<close>

definition get_auto_disconenct_timer :: "host_env \<Rightarrow> (int \<times> nat) option" where
  "get_auto_disconenct_timer E =
     (if host_option E ''allow-auto-disconnect'' = ''Y'' then
        let minute = (case parse_u64 E (host_option E ''auto-disconnect-timeout'') of Some m \<Rightarrow> m | None \<Rightarrow> 10)
        in Some (now E, if minute = 0 then 10 else minute)
      else None)"

definition update_auto_disconnect_timer :: "host_env \<Rightarrow> conn_state \<Rightarrow> conn_state" where
  "update_auto_disconnect_timer E s =
     s\<lparr>auto_disconnect_timer := map_option (\<lambda>t. (now E, snd t)) (auto_disconnect_timer s)\<rparr>"

definition noperms :: "host_env \<Rightarrow> conn_state \<Rightarrow> string list" where
  "noperms E s =
     (if \<not> peer_keyboard_enabled s \<and> \<not> show_remote_cursor (conn s) then [NAME_CURSOR] else [])
     @ (if \<not> show_remote_cursor (conn s) then [NAME_POS] else [])
     @ (if \<not> follow_remote_window (conn s) then [NAME_WINDOW_FOCUS] else [])
     @ (if \<not> can_sub_clipboard_service E s then [CLIPBOARD_NAME] else [])
     @ (if \<not> can_sub_file_clipboard_service E s then [FILE_CLIPBOARD_NAME] else [])
     @ (if \<not> audio_enabled s then [AUDIO_NAME] else [])"

definition try_sub_monitor_services :: "host_env \<Rightarrow> conn_state \<Rightarrow> conn_state" where
  "try_sub_monitor_services E s =
     (if is_remote s \<and> \<not> services_subed (conn s) then
        let s = s\<lparr>conn := (conn s)\<lparr>services_subed := True\<rparr>\<rparr> in
        if srv s = None then s
        else on_server (\<lambda>v. add_connection (primary_display_idx E) (inner s) (noperms E s)
                              (try_add_primay_video_service (primary_display_idx E) v))
               (s\<lparr>auto_disconnect_timer := get_auto_disconenct_timer E\<rparr>)
      else s)"

definition try_sub_camera_displays :: "host_env \<Rightarrow> conn_state \<Rightarrow> conn_state" where
  "try_sub_camera_displays E s =
     on_server (\<lambda>v. add_camera_connection (primary_camera_exists E) (inner s)
                      (try_add_primary_camera_service (primary_camera_exists E) v)) s"

text \<open>
  The end of \<open>send_logon_response\<close>, after the login response is sent: the options of the login,
  then the services of the kind of session. \<open>sub_service\<close>: whether the displays could be read.
\<close>

definition after_logon :: "host_env \<Rightarrow> bool \<Rightarrow> bool \<Rightarrow> conn_state \<Rightarrow> conn_state" where
  "after_logon E sub_service wait_session_id_confirm s =
     (let s = (case login_options s of Some o' \<Rightarrow> session_options E o' (s\<lparr>login_options := None\<rparr>) | None \<Rightarrow> s) in
      if file_transfer (conn s) \<noteq> None then s
      else if is_terminal (conn s) then s\<lparr>conn := (conn s)\<lparr>keyboard := False\<rparr>\<rparr>
      else if view_camera (conn s) then
        let s = (if \<not> wait_session_id_confirm then try_sub_camera_displays E s else s)
        in send_permission PKeyboard False (s\<lparr>conn := (conn s)\<lparr>keyboard := False\<rparr>\<rparr>)
      else if sub_service \<and> \<not> wait_session_id_confirm then try_sub_monitor_services E s
      else s)"

section \<open>Voice calls\<close>

definition on_voice_call_request :: "host_env \<Rightarrow> bool \<Rightarrow> int \<Rightarrow> conn_state \<Rightarrow> conn_state" where
  "on_voice_call_request E is_connect ts s =
     (if is_connect then
        send_to_cm CmVoiceCallIncoming (s\<lparr>voice_call_request_timestamp := Some (if ts \<noteq> 0 then ts else now E)\<rparr>)
      else
        let s = send_to_cm (CmCloseVoiceCall []) s;
            s = s\<lparr>voice_calling := False\<rparr>
        in if is_authed_view_camera_conn s then subscribe AUDIO_NAME False s else s)"

definition handle_voice_call :: "bool \<Rightarrow> conn_state \<Rightarrow> conn_state" where
  "handle_voice_call accepted s =
     (case voice_call_request_timestamp s of
        Some ts \<Rightarrow>
          let s = s\<lparr>voice_call_request_timestamp := None\<rparr>;
              s = send_to_cm (if accepted then CmStartVoiceCall else CmCloseVoiceCall []) s;
              s = send_peer (VoiceCallResponseMsg ts accepted) s;
              s = s\<lparr>voice_calling := accepted\<rparr>
          in if is_authed_view_camera_conn s then subscribe AUDIO_NAME (audio_enabled s \<and> accepted) s else s
      | None \<Rightarrow> s)"

definition close_voice_call :: "conn_state \<Rightarrow> conn_state" where
  "close_voice_call s =
     (let s = (send_to_cm (CmCloseVoiceCall []) s)\<lparr>voice_calling := False\<rparr>
      in if is_authed_view_camera_conn s then subscribe AUDIO_NAME False s else s)"

section \<open>Displays\<close>

definition add_video_service :: "video_source \<Rightarrow> nat \<Rightarrow> server \<Rightarrow> server" where
  "add_video_service source d v =
     (if contains_service (get_service_name source d) v then v else add_service (video_service_new source d) v)"

definition is_support_multi_ui_session :: "string \<Rightarrow> bool" where
  "is_support_multi_ui_session ver \<longleftrightarrow> get_version_number ver \<ge> get_version_number ''1.2.4''"

definition switch_display_to :: "host_env \<Rightarrow> nat \<Rightarrow> conn_state \<Rightarrow> conn_state" where
  "switch_display_to E d s =
     (let src = video_source_of s;
          old = get_service_name src (display_idx s);
          s = on_server (\<lambda>v.
            let v = (if d \<noteq> primary_display_idx E then add_video_service src d v else v);
                v = (if \<not> is_support_multi_ui_session (lr_version (lr (conn s)))
                     then server_subscribe old (inner s) False v else v)
            in server_subscribe (get_service_name src d) (inner s) True v) s
      in s\<lparr>display_idx := d\<rparr>)"

text \<open>The change of resolution that may come with it is not modelled.\<close>

definition handle_switch_display :: "host_env \<Rightarrow> nat \<Rightarrow> conn_state \<Rightarrow> conn_state" where
  "handle_switch_display E d s =
     (if display_idx s \<noteq> d then
        let s = (if srv s = None then s else switch_display_to E d s)
        in if display_known E (display_idx s) then send_peer (DisplayChanged (display_idx s)) s else s
      else s)"

definition conn_capture_displays :: "nat list \<Rightarrow> nat list \<Rightarrow> nat list \<Rightarrow> conn_state \<Rightarrow> conn_state" where
  "conn_capture_displays add sub set' s =
     (case srv s of
        None \<Rightarrow> s
      | Some v \<Rightarrow>
          let src = video_source_of s;
              c = inner s;
              v = fold (add_video_service src) set' (fold (add_video_service src) add v);
              v = (if add \<noteq> [] then capture_displays c src add True False v
                   else if sub \<noteq> [] then capture_displays c src sub False True v
                   else capture_displays c src set' True True v);
              multi = get_subbed_displays_count (conn_id c) v > 1;
              v = (if follow_remote_window (conn s) then server_subscribe NAME_WINDOW_FOCUS c (\<not> multi) v else v)
          in s\<lparr>srv := Some v, multi_ui_session := multi\<rparr>)"

section \<open>Input\<close>

definition control_modifiers :: "nat set" where
  "control_modifiers = {1, 4, 23, 29, 64, 73, 74, 75}"

text \<open>\<open>crate::is_modifier\<close>: a control key that is a modifier.\<close>

definition is_modifier :: "key_event \<Rightarrow> bool" where
  "is_modifier k \<longleftrightarrow> (case ke_control k of Some v \<Rightarrow> v \<in> control_modifiers | None \<Rightarrow> False)"

definition rdev_is_modifier :: "string \<Rightarrow> bool" where
  "rdev_is_modifier key \<longleftrightarrow> key \<in> {''ShiftLeft'', ''ShiftRight'', ''ControlLeft'', ''ControlRight'',
     ''MetaLeft'', ''MetaRight'', ''Alt'', ''AltGr''}"

text \<open>The key of a code: modes 1 (map) and 2 (translate).\<close>

definition event_modifier :: "host_env \<Rightarrow> key_event \<Rightarrow> string option" where
  "event_modifier E k =
     (let key = (if ke_mode k = 1 then Some (rdev_key E (case ke_chr k of Some c \<Rightarrow> c | None \<Rightarrow> 0))
                 else if ke_mode k = 2 then map_option (\<lambda>c. rdev_key E (c mod 65536)) (ke_chr k)
                 else None)
      in case key of Some r \<Rightarrow> if rdev_is_modifier r then Some r else None | None \<Rightarrow> None)"

definition on_key_event :: "host_env \<Rightarrow> key_event \<Rightarrow> conn_state \<Rightarrow> conn_state" where
  "on_key_event E k s =
     (if is_authed_view_camera_conn s then s
      else
        let s = (if peer_keyboard_enabled s then
                   let key = event_modifier E k;
                       is_press = (ke_press k \<or> ke_down k) \<and> \<not> (is_modifier k \<or> key \<noteq> None);
                       s = (case key of
                              Some r \<Rightarrow> s\<lparr>pressed_modifiers := (if is_press then insert r (pressed_modifiers s)
                                                                     else pressed_modifiers s - {r})\<rparr>
                            | None \<Rightarrow> s)
                   in input_send (InKey k (is_press \<and> \<not> ke_text k)) s
                 else s)
        in update_auto_disconnect_timer E s)"

definition on_mouse_event :: "host_env \<Rightarrow> mouse_event \<Rightarrow> conn_state \<Rightarrow> conn_state" where
  "on_mouse_event E m s =
     (if is_authed_view_camera_conn s then s
      else
        let s = (if peer_keyboard_enabled s then input_send (InMouse m True (show_my_cursor s)) s
                 else if show_my_cursor s then input_send (InMouse m False True) s
                 else s)
        in update_auto_disconnect_timer E s)"

definition on_pointer_event :: "host_env \<Rightarrow> nat \<Rightarrow> conn_state \<Rightarrow> conn_state" where
  "on_pointer_event E p s =
     (if is_authed_view_camera_conn s then s
      else update_auto_disconnect_timer E (if peer_keyboard_enabled s then input_send (InPointer p) s else s))"

definition release_pressed_modifiers :: "conn_state \<Rightarrow> string set \<times> conn_state" where
  "release_pressed_modifiers s = (pressed_modifiers s, s\<lparr>pressed_modifiers := {}\<rparr>)"

section \<open>Messages of the peer\<close>

text \<open>
  The messages of an authorized peer that concern its services and its input. Later login requests, requests
  for privacy mode and changes of the resolution change neither the subscriptions to the six services nor what
  decides about input, and are left out here.
\<close>

datatype session_msg =
    MouseMsg mouse_event
  | PointerMsg nat
  | KeyMsg key_event
  | ClipboardMsg nat
  | MultiClipboardsMsg "nat list"
  | OptionMsg option_message
  | SwitchDisplayMsg nat
  | CaptureDisplaysMsg "nat list" "nat list" "nat list"
  | ChatMsg string
  | AudioFormatMsg
  | RestartMsg
  | VoiceCallMsg bool int

fun on_session_msg :: "host_env \<Rightarrow> session_msg \<Rightarrow> conn_state \<Rightarrow> conn_state" where
  "on_session_msg E (MouseMsg m) s = on_mouse_event E m s"
| "on_session_msg E (PointerMsg p) s = on_pointer_event E p s"
| "on_session_msg E (KeyMsg k) s = on_key_event E k s"
| "on_session_msg E (ClipboardMsg cb) s =
     (if clipboard (conn s) then s\<lparr>host_clipboard := [cb]\<rparr> else s)"
| "on_session_msg E (MultiClipboardsMsg cbs) s =
     (if clipboard (conn s) then s\<lparr>host_clipboard := cbs\<rparr> else s)"
| "on_session_msg E (OptionMsg o') s = session_options E o' s"
| "on_session_msg E (SwitchDisplayMsg d) s = handle_switch_display E d s"
| "on_session_msg E (CaptureDisplaysMsg a b c) s = conn_capture_displays a b c s"
| "on_session_msg E (ChatMsg t) s = update_auto_disconnect_timer E (send_to_cm (CmChat t) s)"
| "on_session_msg E AudioFormatMsg s = (if \<not> disable_audio (conn s) then s\<lparr>audio_sender := True\<rparr> else s)"
| "on_session_msg E RestartMsg s = (if restart (conn s) then s\<lparr>rebooted := True\<rparr> else s)"
| "on_session_msg E (VoiceCallMsg b t) s = on_voice_call_request E b t s"

definition on_authorized_msg :: "host_env \<Rightarrow> session_msg \<Rightarrow> conn_state \<Rightarrow> conn_state" where
  "on_authorized_msg E m s =
     (if authorized (conn s) \<and> \<not> port_forward_socket (conn s) then on_session_msg E m s else s)"

text \<open>What the connection manager may say about the services, and the end of the connection.\<close>

datatype session_event =
    PeerSays session_msg
  | CmSwitch string bool
  | CmVoiceAnswer bool
  | CmCloseCall

fun session_step :: "host_env \<Rightarrow> session_event \<Rightarrow> conn_state \<Rightarrow> conn_state" where
  "session_step E (PeerSays m) s = on_authorized_msg E m s"
| "session_step E (CmSwitch name b) s = switch_permission E name b s"
| "session_step E (CmVoiceAnswer b) s = handle_voice_call b s"
| "session_step E CmCloseCall s = close_voice_call s"

definition end_session :: "conn_state \<Rightarrow> conn_state" where
  "end_session s = on_server (remove_connection (inner s)) s"

end
