(* ===== verification/Conn_Services_Proofs.thy ===== *)
theory Conn_Services_Proofs
  imports Conn_Services
begin

text \<open>
  What the handlers of theory \<open>Conn_Services\<close> guarantee: the subscriptions of a remote desktop
  session follow its permissions and options, input is injected only while it is permitted; and
  where the code falls short of that.
\<close>

section \<open>Subscriptions of the session\<close>

definition service_set :: "string set" where
  "service_set = {NAME_CURSOR, NAME_POS, NAME_WINDOW_FOCUS, CLIPBOARD_NAME, FILE_CLIPBOARD_NAME, AUDIO_NAME}"

definition wf_session :: "conn_state \<Rightarrow> bool" where
  "wf_session s \<longleftrightarrow> (case srv s of
     Some v \<Rightarrow> server_inv v \<and> (\<forall>n \<in> service_set. contains_service n v) | None \<Rightarrow> False)"

definition subed :: "string \<Rightarrow> conn_state \<Rightarrow> bool" where
  "subed n s \<longleftrightarrow> (case srv s of Some v \<Rightarrow> subed_at (conn_id (inner s)) n v | None \<Rightarrow> False)"

named_theorems session_simps

lemma subscribe_frame [simp]:
  "conn (subscribe n b s) = conn s" "inner (subscribe n b s) = inner s"
  "voice_calling (subscribe n b s) = voice_calling s" "to_input (subscribe n b s) = to_input s"
  "pressed_modifiers (subscribe n b s) = pressed_modifiers s"
  by (simp_all add: subscribe_def)

lemma wf_subscribe [simp]: "wf_session s \<Longrightarrow> wf_session (subscribe n b s)"
  by (auto simp: wf_session_def subscribe_def server_subscribe_inv split: option.splits)

lemma subed_subscribe:
  "wf_session s \<Longrightarrow> m \<in> service_set \<Longrightarrow> subed n (subscribe m b s) \<longleftrightarrow> (if n = m then b else subed n s)"
  by (auto simp: subed_def wf_session_def subscribe_def subed_at_subscribe split: option.splits)

lemma names_in [simp]:
  "NAME_CURSOR \<in> service_set" "NAME_POS \<in> service_set" "NAME_WINDOW_FOCUS \<in> service_set"
  "CLIPBOARD_NAME \<in> service_set" "FILE_CLIPBOARD_NAME \<in> service_set" "AUDIO_NAME \<in> service_set"
  by (simp_all add: service_set_def)

lemma not_video: "n \<in> service_set \<Longrightarrow> \<not> is_video_service_name n"
  by (auto simp: service_set_def service_names is_video_service_name_def starts_with_def)

lemma not_video_name: "n \<in> service_set \<Longrightarrow> n \<noteq> get_service_name src d"
  using not_video is_video_get_service_name by metis

lemma names_distinct [simp]:
  "NAME_CURSOR \<noteq> NAME_POS" "NAME_CURSOR \<noteq> NAME_WINDOW_FOCUS" "NAME_CURSOR \<noteq> CLIPBOARD_NAME"
  "NAME_CURSOR \<noteq> FILE_CLIPBOARD_NAME" "NAME_CURSOR \<noteq> AUDIO_NAME" "NAME_POS \<noteq> NAME_WINDOW_FOCUS"
  "NAME_POS \<noteq> CLIPBOARD_NAME" "NAME_POS \<noteq> FILE_CLIPBOARD_NAME" "NAME_POS \<noteq> AUDIO_NAME"
  "NAME_WINDOW_FOCUS \<noteq> CLIPBOARD_NAME" "NAME_WINDOW_FOCUS \<noteq> FILE_CLIPBOARD_NAME"
  "NAME_WINDOW_FOCUS \<noteq> AUDIO_NAME" "CLIPBOARD_NAME \<noteq> FILE_CLIPBOARD_NAME" "CLIPBOARD_NAME \<noteq> AUDIO_NAME"
  "FILE_CLIPBOARD_NAME \<noteq> AUDIO_NAME"
  by (simp_all add: service_names)

lemmas names_distinct' [simp] = names_distinct [symmetric]

text \<open>What is enabled depends on the connection alone.\<close>

lemmas enabled_defs = peer_keyboard_enabled_def clipboard_enabled_def can_sub_clipboard_service_def
  audio_enabled_def file_transfer_enabled_def can_sub_file_clipboard_service_def
  is_authed_view_camera_conn_def is_remote_def

text \<open>
  A subscription \<open>x\<close> between what it must and what it may be; \<open>full\<close> once the services have been
  subscribed, before that only the direction that nothing is subscribed without permission.
\<close>

definition between :: "bool \<Rightarrow> bool \<Rightarrow> bool \<Rightarrow> bool \<Rightarrow> bool" where
  "between full must x may \<longleftrightarrow> (x \<longrightarrow> may) \<and> (full \<longrightarrow> must \<longrightarrow> x)"

lemma between_simps [simp]:
  "between f b b b" "between f False x y \<longleftrightarrow> (x \<longrightarrow> y)"
  "between f (k \<and> d \<or> c) (k \<and> d \<or> c) (k \<or> c)" "between f (k \<and> d \<or> c) (k \<or> c) (k \<or> c)"
  "between f (k \<and> d) (k \<and> d) k" "between f (k \<and> d) k k" "between f k k (k \<or> c)" "between f m True True"
  "between True m x y \<longleftrightarrow> (x \<longrightarrow> y) \<and> (m \<longrightarrow> x)"
  by (auto simp: between_def)

definition in_step :: "bool \<Rightarrow> host_env \<Rightarrow> conn_state \<Rightarrow> bool" where
  "in_step full E s \<longleftrightarrow> wf_session s \<and> is_remote s \<and> \<not> is_authed_view_camera_conn s
     \<and> between full (audio_enabled s) (subed AUDIO_NAME s) (audio_enabled s)
     \<and> between full (can_sub_clipboard_service E s) (subed CLIPBOARD_NAME s) (can_sub_clipboard_service E s)
     \<and> between full (show_remote_cursor (conn s)) (subed NAME_POS s) (show_remote_cursor (conn s))
     \<and> between full (peer_keyboard_enabled s \<or> show_remote_cursor (conn s)) (subed NAME_CURSOR s)
         (keyboard (conn s) \<or> show_remote_cursor (conn s))
     \<and> between full False (subed NAME_WINDOW_FOCUS s) (follow_remote_window (conn s))
     \<and> between full False (subed FILE_CLIPBOARD_NAME s) (file_transfer_enabled s)"

lemma wf_frame: "srv s' = srv s \<Longrightarrow> wf_session s' = wf_session s"
  by (simp add: wf_session_def)

lemma subed_frame: "srv s' = srv s \<Longrightarrow> inner s' = inner s \<Longrightarrow> subed n s' = subed n s"
  by (cases "srv s") (simp_all add: subed_def)

text \<open>The relation reads the connection, the registry and the own id; nothing else.\<close>

lemma in_step_cong:
  assumes "conn s' = conn s" and "inner s' = inner s" and "srv s' = srv s"
  shows "in_step full E s' = in_step full E s"
  by (simp add: in_step_def wf_frame [OF assms(3)] subed_frame [OF assms(3,2)] enabled_defs assms(1))

lemma send_frame [simp]:
  "conn (send_peer m s) = conn s" "inner (send_peer m s) = inner s" "srv (send_peer m s) = srv s"
  "conn (send_to_cm c s) = conn s" "inner (send_to_cm c s) = inner s" "srv (send_to_cm c s) = srv s"
  "conn (input_send i s) = conn s" "inner (input_send i s) = inner s" "srv (input_send i s) = srv s"
  "conn (try_empty_file_clipboard s) = conn s" "inner (try_empty_file_clipboard s) = inner s"
  "srv (try_empty_file_clipboard s) = srv s"
  "conn (update_auto_disconnect_timer E s) = conn s" "inner (update_auto_disconnect_timer E s) = inner s"
  "srv (update_auto_disconnect_timer E s) = srv s"
  by (simp_all add: send_peer_def send_to_cm_def input_send_def try_empty_file_clipboard_def
      update_auto_disconnect_timer_def)

lemma conn_update_frame [simp]:
  "wf_session (s\<lparr>conn := c\<rparr>) = wf_session s" "subed n (s\<lparr>conn := c\<rparr>) = subed n s"
  "wf_session (send_peer m s) = wf_session s" "subed n (send_peer m s) = subed n s"
  "wf_session (try_empty_file_clipboard s) = wf_session s" "subed n (try_empty_file_clipboard s) = subed n s"
  by (simp_all add: wf_session_def) (cases "srv s"; simp add: subed_def)+

section \<open>The options and permissions keep step\<close>

lemmas sync_defs = sync_clipboard_def sync_file_clipboard_def sync_cursor_def sync_audio_def send_permission_def

lemma opt_lock_step: "in_step f E s \<Longrightarrow> in_step f E (opt_lock o' s)"
  by (auto simp: opt_lock_def split: option.split elim: in_step_cong [THEN iffD2, rotated -1])

lemma opt_follow_cursor_step: "in_step f E s \<Longrightarrow> in_step f E (opt_follow_cursor o' s)"
  by (auto simp: opt_follow_cursor_def split: option.split elim: in_step_cong [THEN iffD2, rotated -1])

lemma opt_show_cursor_step: "in_step f E s \<Longrightarrow> in_step f E (opt_show_cursor o' s)"
  by (cases "enum_value (om_show_remote_cursor o')")
     (simp_all add: opt_show_cursor_def in_step_def sync_defs enabled_defs subed_subscribe Let_def)

lemma opt_follow_window_step: "in_step f E s \<Longrightarrow> in_step f E (opt_follow_window o' s)"
  by (cases "enum_value (om_follow_remote_window o')")
     (simp_all add: opt_follow_window_def in_step_def sync_defs enabled_defs subed_subscribe Let_def)

lemma opt_audio_step: "in_step f E s \<Longrightarrow> in_step f E (opt_audio o' s)"
  by (cases "enum_value (om_disable_audio o')")
     (simp_all add: opt_audio_def in_step_def sync_defs enabled_defs subed_subscribe Let_def)

lemma opt_file_step: "in_step f E s \<Longrightarrow> in_step f E (opt_file E o' s)"
  by (cases "enum_value (om_enable_file_transfer o')")
     (simp_all add: opt_file_def in_step_def sync_defs enabled_defs subed_subscribe Let_def)

lemma opt_clipboard_step: "in_step f E s \<Longrightarrow> in_step f E (opt_clipboard E o' s)"
  by (cases "enum_value (om_disable_clipboard o')")
     (simp_all add: opt_clipboard_def in_step_def sync_defs enabled_defs subed_subscribe Let_def)

lemma opt_keyboard_step: "in_step f E s \<Longrightarrow> in_step f E (opt_keyboard E o' s)"
  by (cases "enum_value (om_disable_keyboard o')")
     (simp_all add: opt_keyboard_def in_step_def sync_defs enabled_defs subed_subscribe Let_def)

lemma service_options_step: "in_step f E s \<Longrightarrow> in_step f E (service_options E o' s)"
  unfolding service_options_def
  by (intro opt_keyboard_step opt_clipboard_step opt_file_step opt_audio_step opt_follow_window_step
      opt_follow_cursor_step opt_show_cursor_step opt_lock_step)

lemma terminal_frame:
  "in_step f E (s\<lparr>conn := (conn s)\<lparr>terminal_persistent := b\<rparr>\<rparr>) = in_step f E s"
  "in_step f E (s\<lparr>conn := (conn s)\<lparr>restart := b\<rparr>\<rparr>) = in_step f E s"
  "in_step f E (s\<lparr>conn := (conn s)\<lparr>recording := b\<rparr>\<rparr>) = in_step f E s"
  "in_step f E (s\<lparr>conn := (conn s)\<lparr>block_input := b\<rparr>\<rparr>) = in_step f E s"
  "in_step f E (s\<lparr>conn := (conn s)\<lparr>services_subed := b\<rparr>\<rparr>) = in_step f E s"
  by (simp_all add: in_step_def enabled_defs)

lemma session_options_step: "in_step f E s \<Longrightarrow> in_step f E (session_options E o' s)"
proof -
  have t: "in_step f E (opt_terminal o' s) = in_step f E s" for s
  proof (cases "enum_value (om_terminal_persistent o')")
    case (Some x)
    have "in_step f E (opt_terminal o' s) = in_step f E (s\<lparr>conn := (conn s)\<lparr>terminal_persistent := x\<rparr>\<rparr>)"
      by (rule in_step_cong) (simp_all add: opt_terminal_def Some)
    then show ?thesis by (simp add: terminal_frame)
  qed (simp add: opt_terminal_def)
  have b: "in_step f E (opt_block_input o' s) = in_step f E s" for s
    by (rule in_step_cong) (auto simp: opt_block_input_def split: option.splits)
  have m: "in_step f E (opt_my_cursor E o' s) = in_step f E s" for s
    by (rule in_step_cong) (auto simp: opt_my_cursor_def Let_def split: option.splits)
  show "in_step f E s \<Longrightarrow> ?thesis"
    unfolding session_options_def by (simp add: m b t service_options_step)
qed

lemma switch_keyboard_step: "in_step f E s \<Longrightarrow> in_step f E (switch_permission E ''keyboard'' b s)"
  by (simp add: switch_permission_def in_step_def sync_defs enabled_defs subed_subscribe Let_def)

lemma switch_clipboard_step: "in_step f E s \<Longrightarrow> in_step f E (switch_permission E ''clipboard'' b s)"
  by (simp add: switch_permission_def in_step_def sync_defs enabled_defs subed_subscribe Let_def)

lemma switch_audio_step:
  "in_step f E s \<Longrightarrow> authorized (conn s) \<Longrightarrow> in_step f E (switch_permission E ''audio'' b s)"
  by (simp add: switch_permission_def in_step_def sync_defs enabled_defs subed_subscribe Let_def)

lemma switch_file_step: "in_step f E s \<Longrightarrow> in_step f E (switch_permission E ''file'' b s)"
  by (simp add: switch_permission_def in_step_def sync_defs enabled_defs subed_subscribe Let_def)

lemma switch_step:
  assumes "in_step f E s" and "authorized (conn s)"
  shows "in_step f E (switch_permission E name b s)"
proof -
  have p: "in_step f E (send_permission k b s) = in_step f E s" for k s
    by (rule in_step_cong) (simp_all add: send_permission_def)
  consider "name \<in> {''keyboard'', ''clipboard'', ''audio'', ''file''}"
    | "name \<notin> {''keyboard'', ''clipboard'', ''audio'', ''file''}" by blast
  then show ?thesis
  proof cases
    case 1
    then show ?thesis
      using assms switch_keyboard_step switch_clipboard_step switch_audio_step switch_file_step by auto
  next
    case 2
    then show ?thesis using assms(1) by (simp add: switch_permission_def p terminal_frame)
  qed
qed

section \<open>Displays\<close>

text \<open>A change of the registry that leaves the six services alone.\<close>

definition neutral :: "(server \<Rightarrow> server) \<Rightarrow> bool" where
  "neutral g \<longleftrightarrow> (\<forall>v. server_inv v \<longrightarrow> server_inv (g v)
     \<and> (\<forall>n \<in> service_set. contains_service n (g v) = contains_service n v
          \<and> (\<forall>i. subed_at i n (g v) = subed_at i n v)))"

lemma neutralI:
  assumes "\<And>v. server_inv v \<Longrightarrow> server_inv (g v)"
    and "\<And>v n. server_inv v \<Longrightarrow> n \<in> service_set \<Longrightarrow> contains_service n (g v) = contains_service n v"
    and "\<And>v n i. server_inv v \<Longrightarrow> n \<in> service_set \<Longrightarrow> subed_at i n (g v) = subed_at i n v"
  shows "neutral g"
  using assms by (simp add: neutral_def)

lemma neutral_id: "neutral (\<lambda>v. v)"
  by (simp add: neutral_def)

lemma neutral_comp: "neutral g \<Longrightarrow> neutral h \<Longrightarrow> neutral (\<lambda>v. g (h v))"
  by (simp add: neutral_def)

lemma neutral_fold: "(\<And>x. neutral (g x)) \<Longrightarrow> neutral (fold g xs)"
  by (induction xs) (simp_all add: neutral_id [unfolded id_def [symmetric]] neutral_comp [unfolded comp_def [symmetric]])

lemma neutral_add: "neutral (add_video_service src d)"
proof (rule neutralI)
  fix v n i
  assume v: "server_inv v"
  show "server_inv (add_video_service src d v)"
    using v by (simp add: add_video_service_def add_service_inv video_service_new_ok)
  assume n: "n \<in> service_set"
  from not_video_name [OF this, of src d] show "contains_service n (add_video_service src d v) = contains_service n v"
    and "subed_at i n (add_video_service src d v) = subed_at i n v"
    by (simp_all add: add_video_service_def add_service_def contains_service_def subed_at_def update_conv'
        video_service_new_def service_new_def)
qed

lemma neutral_subscribe: "neutral (server_subscribe (get_service_name src d) c b)"
  using not_video_name by (intro neutralI) (auto simp: server_subscribe_inv subed_at_subscribe)

lemma neutral_capture: "neutral (capture_displays c src ds inc exc)"
proof (rule neutralI)
  fix v n i
  assume v: "server_inv v"
  show "server_inv (capture_displays c src ds inc exc v)" using v by (rule capture_displays_inv)
  have c: "contains_service n (fold (\<lambda>name srv. case w name of None \<Rightarrow> srv | Some b \<Rightarrow> server_subscribe name c b srv) ks u)
      = contains_service n u" for w ks u
    by (induction ks arbitrary: u) (simp_all split: option.split)
  show "contains_service n (capture_displays c src ds inc exc v) = contains_service n v"
    unfolding capture_displays_captured by (rule c)
  assume n: "n \<in> service_set"
  then show "subed_at i n (capture_displays c src ds inc exc v) = subed_at i n v"
    unfolding capture_displays_captured
    by (subst capture_fold [OF v]) (simp_all add: contains_service_keys captured_def not_video)
qed

lemma neutral_step:
  assumes "in_step f E s" and "neutral g" and "conn s' = conn s" and "inner s' = inner s" and "srv s' = map_option g (srv s)"
  shows "in_step f E s'"
proof -
  obtain v where v: "srv s = Some v" and inv: "server_inv v"
    using assms(1) by (auto simp: in_step_def wf_session_def split: option.splits)
  have "subed n s' = subed n s" if "n \<in> service_set" for n
    using assms(2,4,5) v inv that by (simp add: subed_def neutral_def)
  moreover have "wf_session s'"
    using assms(1,2,5) v inv by (simp add: in_step_def wf_session_def neutral_def)
  ultimately show ?thesis using assms(1,3) by (simp add: in_step_def enabled_defs)
qed

lemma switch_display_step: "in_step f E s \<Longrightarrow> in_step f E (handle_switch_display E d s)"
proof -
  have d: "in_step f E (s\<lparr>display_idx := k\<rparr>) = in_step f E s" for s k by (rule in_step_cong) simp_all
  have p: "in_step f E (send_peer m s) = in_step f E s" for s m by (rule in_step_cong) simp_all
  assume s: "in_step f E s"
  let ?g = "\<lambda>v. server_subscribe (get_service_name (video_source_of s) d) (inner s) True
     ((if \<not> is_support_multi_ui_session (lr_version (lr (conn s)))
       then server_subscribe (get_service_name (video_source_of s) (display_idx s)) (inner s) False else (\<lambda>v. v))
      ((if d \<noteq> primary_display_idx E then add_video_service (video_source_of s) d else (\<lambda>v. v)) v))"
  have n: "neutral (if k then server_subscribe (get_service_name src i) c b else (\<lambda>v. v))"
    "neutral (if k then add_video_service src i else (\<lambda>v. v))" for k src i c b
    by (simp_all add: neutral_subscribe neutral_id neutral_add)
  have g: "neutral ?g" by (rule neutral_comp [OF neutral_subscribe neutral_comp [OF n]])
  have "in_step f E (switch_display_to E d s)"
    by (rule neutral_step [OF s g]) (cases "srv s"; simp add: switch_display_to_def Let_def)+
  with s show ?thesis by (simp add: handle_switch_display_def Let_def d p)
qed

lemma capture_step: "in_step f E s \<Longrightarrow> in_step f E (conn_capture_displays a b c s)"
proof -
  assume s: "in_step f E s"
  then obtain v where v: "srv s = Some v" by (auto simp: in_step_def wf_session_def split: option.splits)
  let ?src = "video_source_of s"
  let ?g = "\<lambda>v. (if a \<noteq> [] then capture_displays (inner s) ?src a True False
                 else if b \<noteq> [] then capture_displays (inner s) ?src b False True
                 else capture_displays (inner s) ?src c True True)
                (fold (add_video_service ?src) c (fold (add_video_service ?src) a v))"
  have n: "neutral (if k then capture_displays (inner s) ?src a True False
      else if l then capture_displays (inner s) ?src b False True
      else capture_displays (inner s) ?src c True True)" for k l by (simp add: neutral_capture)
  have fa: "neutral (fold (add_video_service ?src) xs)" for xs by (rule neutral_fold) (rule neutral_add)
  have g: "neutral ?g" by (rule neutral_comp [OF n neutral_comp [OF fa fa]])
  let ?s = "s\<lparr>srv := Some (?g v)\<rparr>"
  have t: "in_step f E ?s" by (rule neutral_step [OF s g]) (simp_all add: v)
  let ?multi = "get_subbed_displays_count (conn_id (inner s)) (?g v) > 1"
  have e: "conn_capture_displays a b c s =
      (if follow_remote_window (conn s) then subscribe NAME_WINDOW_FOCUS (\<not> ?multi) ?s else ?s)\<lparr>multi_ui_session := ?multi\<rparr>"
    by (simp add: conn_capture_displays_def v Let_def subscribe_def)
  have m: "in_step f E (u\<lparr>multi_ui_session := k\<rparr>) = in_step f E u" for u k by (rule in_step_cong) simp_all
  have "in_step f E (subscribe NAME_WINDOW_FOCUS k u)" if "in_step f E u" "follow_remote_window (conn u)" for k u
    using that by (simp add: in_step_def enabled_defs subed_subscribe)
  from this [OF t] t show ?thesis unfolding e m by (simp split: if_split)
qed

section \<open>All steps\<close>

definition same_services :: "conn_state \<Rightarrow> conn_state \<Rightarrow> bool" where
  "same_services s' s \<longleftrightarrow> conn s' = conn s \<and> inner s' = inner s \<and> srv s' = srv s"

lemma same_services_step: "same_services s' s \<Longrightarrow> in_step f E s \<Longrightarrow> in_step f E s'"
  unfolding same_services_def using in_step_cong [of s' s] by simp

lemma voice_same:
  assumes "\<not> is_authed_view_camera_conn s"
  shows "same_services (handle_voice_call b s) s" "same_services (close_voice_call s) s"
    "same_services (on_voice_call_request E b t s) s"
  using assms by (simp_all add: same_services_def handle_voice_call_def close_voice_call_def on_voice_call_request_def
      Let_def is_authed_view_camera_conn_def split: option.split)

lemma input_same:
  "same_services (on_mouse_event E me s) s" "same_services (on_pointer_event E n s) s" "same_services (on_key_event E k s) s"
  by (simp_all add: same_services_def on_mouse_event_def on_pointer_event_def on_key_event_def Let_def split: option.split)

lemma session_msg_step: "in_step f E s \<Longrightarrow> in_step f E (on_session_msg E m s)"
proof -
  assume s: "in_step f E s"
  then have cam: "\<not> is_authed_view_camera_conn s" by (simp add: in_step_def)
  have other: "same_services (s\<lparr>host_clipboard := cs\<rparr>) s" "same_services (s\<lparr>audio_sender := b\<rparr>) s"
    "same_services (s\<lparr>rebooted := b\<rparr>) s" "same_services (update_auto_disconnect_timer E (send_to_cm c s)) s" for cs b c
    by (simp_all add: same_services_def)
  show ?thesis
    using s input_same voice_same(3) [OF cam] other
    by (cases m) (auto simp: session_options_step switch_display_step capture_step intro: same_services_step [OF _ s])
qed

lemma session_step_in_step:
  assumes "in_step f E s" and "authorized (conn s)"
  shows "in_step f E (session_step E e s)"
proof -
  have cam: "\<not> is_authed_view_camera_conn s" using assms(1) by (simp add: in_step_def)
  show ?thesis
    using assms same_services_step [OF voice_same(1) [OF cam] assms(1)] same_services_step [OF voice_same(2) [OF cam] assms(1)]
    by (cases e) (simp_all add: on_authorized_msg_def switch_step session_msg_step)
qed

section \<open>After the login\<close>

definition same_login :: "conn_state \<Rightarrow> conn_state \<Rightarrow> bool" where
  "same_login s' s \<longleftrightarrow> authorized (conn s') = authorized (conn s) \<and> services_subed (conn s') = services_subed (conn s)"

lemma opt_same_login:
  "same_login (opt_lock o' s) s" "same_login (opt_show_cursor o' s) s" "same_login (opt_follow_cursor o' s) s"
  "same_login (opt_follow_window o' s) s" "same_login (opt_audio o' s) s" "same_login (opt_file E o' s) s"
  "same_login (opt_clipboard E o' s) s" "same_login (opt_keyboard E o' s) s" "same_login (opt_block_input o' s) s"
  "same_login (opt_terminal o' s) s" "same_login (opt_my_cursor E o' s) s"
  by (simp_all add: same_login_def opt_lock_def opt_show_cursor_def opt_follow_cursor_def opt_follow_window_def
      opt_audio_def opt_file_def opt_clipboard_def opt_keyboard_def opt_block_input_def opt_terminal_def
      opt_my_cursor_def sync_defs Let_def split: option.split)

lemma session_options_same_login: "same_login (session_options E o' s) s"
  by (simp add: same_login_def session_options_def service_options_def opt_same_login [unfolded same_login_def])

lemma switch_same_login: "same_login (switch_permission E name b s) s"
  by (simp add: switch_permission_def same_login_def sync_defs Let_def)

lemma msg_same_login: "same_login (on_session_msg E m s) s"
proof (cases m)
  case (SwitchDisplayMsg d)
  then show ?thesis by (simp add: same_login_def handle_switch_display_def switch_display_to_def Let_def)
next
  case (CaptureDisplaysMsg a b c)
  then show ?thesis by (simp add: same_login_def conn_capture_displays_def Let_def split: option.split)
next
  case (VoiceCallMsg b t)
  then show ?thesis by (simp add: same_login_def on_voice_call_request_def Let_def)
next
  case (OptionMsg o')
  then show ?thesis by (simp add: session_options_same_login)
qed (use input_same in \<open>auto simp: same_login_def same_services_def\<close>)

lemma session_step_authorized [simp]: "authorized (conn (session_step E e s)) = authorized (conn s)"
proof -
  have "same_login (session_step E e s) s"
    by (cases e) (simp_all add: msg_same_login switch_same_login same_login_def [of s s] on_authorized_msg_def,
        simp_all add: same_login_def handle_voice_call_def close_voice_call_def Let_def split: option.split)
  then show ?thesis by (simp add: same_login_def)
qed

text \<open>
  A connection for a remote desktop before its login; its id is new, so the registry has no subscription of
  it. What \<open>send_logon_response\<close> sets when the login \<open>l\<close> with the options \<open>o'\<close> is granted, before the options are
  applied: \<open>on_granted\<close>.
\<close>

definition new_remote :: "conn_state \<Rightarrow> bool" where
  "new_remote s \<longleftrightarrow> wf_session s \<and> is_remote s \<and> \<not> is_authed_view_camera_conn s \<and> \<not> authorized (conn s)
     \<and> \<not> services_subed (conn s) \<and> (\<forall>n \<in> service_set. \<not> subed n s)"

definition on_granted :: "int \<Rightarrow> login_request \<Rightarrow> option_message option \<Rightarrow> conn_state \<Rightarrow> conn_state" where
  "on_granted i l o' s =
     s\<lparr>conn := (conn s)\<lparr>authorized := True, authed_conn_id := Some (i, ConnRemote), lr := l\<rparr>, login_options := o'\<rparr>"

text \<open>
  Before the login: nothing is subscribed without permission, and the audio not at all.
\<close>

definition pending :: "host_env \<Rightarrow> conn_state \<Rightarrow> bool" where
  "pending E s \<longleftrightarrow> in_step False E s \<and> \<not> subed AUDIO_NAME s \<and> \<not> authorized (conn s) \<and> \<not> services_subed (conn s)"

lemma pending_cong:
  "conn s' = conn s \<Longrightarrow> inner s' = inner s \<Longrightarrow> srv s' = srv s \<Longrightarrow> pending E s' = pending E s"
  using in_step_cong [of s' s False E] subed_frame [of s' s AUDIO_NAME] by (simp add: pending_def)

lemma pending_switch:
  assumes "pending E s"
  shows "pending E (switch_permission E name b s)"
proof -
  have l: "\<not> authorized (conn (switch_permission E name b s))" "\<not> services_subed (conn (switch_permission E name b s))"
    using switch_same_login [of E name b s] assms by (simp_all add: same_login_def pending_def)
  have i: "in_step False E s" "\<not> authorized (conn s)" "\<not> subed AUDIO_NAME s"
    using assms by (simp_all add: pending_def)
  have w: "wf_session s" using i(1) by (simp add: in_step_def)
  consider "name = ''audio''" | "name \<in> {''keyboard'', ''clipboard'', ''file''}"
    | "name \<notin> {''keyboard'', ''clipboard'', ''audio'', ''file''}" by blast
  then have "in_step False E (switch_permission E name b s) \<and> \<not> subed AUDIO_NAME (switch_permission E name b s)"
  proof cases
    case 1
    then show ?thesis using i
      by (simp add: switch_permission_def in_step_def send_permission_def enabled_defs between_def Let_def)
  next
    case 2
    have "\<not> subed AUDIO_NAME (switch_permission E name b s)"
      using 2 i(3) w by (auto simp: switch_permission_def sync_defs subed_subscribe Let_def)
    with 2 i(1) switch_keyboard_step switch_clipboard_step switch_file_step show ?thesis by auto
  next
    case 3
    have p: "in_step False E (send_permission k b u) = in_step False E u" "subed n (send_permission k b u) = subed n u" for k u n
      using in_step_cong [of "send_permission k b u" u] by (simp_all add: send_permission_def)
    show ?thesis using 3 i(1,3) by (simp add: switch_permission_def p terminal_frame)
  qed
  with l show ?thesis by (simp add: pending_def)
qed

lemma pending_not_camera: "pending E s \<Longrightarrow> \<not> is_authed_view_camera_conn s"
  by (simp add: pending_def in_step_def)

lemma pending_step: "pending E s \<Longrightarrow> pending E (session_step E e s)"
proof (cases e)
  case (PeerSays m)
  then show "pending E s \<Longrightarrow> ?thesis" by (simp add: on_authorized_msg_def pending_def)
next
  case (CmSwitch name b)
  then show "pending E s \<Longrightarrow> ?thesis" by (simp add: pending_switch)
next
  case (CmVoiceAnswer b)
  show ?thesis if "pending E s"
    using that pending_not_camera [OF that] voice_same(1) [of s b] pending_cong [of "handle_voice_call b s" s E]
    by (simp add: CmVoiceAnswer same_services_def)
next
  case CmCloseCall
  show ?thesis if "pending E s"
    using that pending_not_camera [OF that] voice_same(2) [of s] pending_cong [of "close_voice_call s" s E]
    by (simp add: CmCloseCall same_services_def)
qed

lemma granted_in_step:
  assumes "pending E s" and "u = on_granted i l o' s"
  shows "in_step False E u \<and> authorized (conn u) \<and> \<not> services_subed (conn u)"
proof -
  have w: "wf_session u = wf_session s" by (rule wf_frame) (simp add: assms(2) on_granted_def)
  have n: "subed n u = subed n s" for n by (rule subed_frame) (simp_all add: assms(2) on_granted_def)
  have c: "conn u = (conn s)\<lparr>authorized := True, authed_conn_id := Some (i, ConnRemote), lr := l\<rparr>"
    by (simp add: assms(2) on_granted_def)
  show ?thesis
    using assms(1) unfolding pending_def in_step_def by (simp add: w n c enabled_defs between_def)
qed

lemma sub_monitor_step:
  assumes "in_step False E s" and "\<not> services_subed (conn s)"
  shows "in_step True E (try_sub_monitor_services E s)"
proof -
  obtain v where v: "srv s = Some v" "server_inv v" and c: "\<And>n. n \<in> service_set \<Longrightarrow> contains_service n v"
    using assms(1) by (auto simp: in_step_def wf_session_def split: option.splits)
  let ?d = "primary_display_idx E" and ?np = "noperms E (s\<lparr>conn := (conn s)\<lparr>services_subed := True\<rparr>\<rparr>)"
  let ?v = "add_video_service Monitor ?d v"
  let ?t = "try_sub_monitor_services E s"
  have u: "server_inv ?v" "\<And>n. n \<in> service_set \<Longrightarrow> contains_service n ?v \<and> subed_at (conn_id (inner s)) n ?v = subed n s"
    using neutral_add [of Monitor ?d] v c by (auto simp: neutral_def subed_def)
  have t: "srv ?t = Some (add_connection ?d (inner s) ?np ?v)" "inner ?t = inner s"
    "conn ?t = (conn s)\<lparr>services_subed := True\<rparr>"
    using assms v by (simp_all add: try_sub_monitor_services_def in_step_def Let_def add_video_service_def
        try_add_primay_video_service_def)
  have w: "wf_session ?t" using t u by (simp add: wf_session_def subed_at_add_connection add_connection_inv)
  have sub: "subed n ?t \<longleftrightarrow> subed n s \<or> n \<notin> set ?np" if "n \<in> service_set" for n
    using that t u not_video [OF that] by (simp add: subed_def subed_at_add_connection)
  show ?thesis
    using assms(1) w unfolding in_step_def
    by (auto simp: sub t enabled_defs noperms_def between_def)
qed

lemma after_logon_in_step:
  assumes "in_step False E s \<and> authorized (conn s) \<and> \<not> services_subed (conn s)"
  shows "in_step True E (after_logon E True False s) \<and> authorized (conn (after_logon E True False s))"
proof -
  let ?s = "case login_options s of Some o' \<Rightarrow> session_options E o' (s\<lparr>login_options := None\<rparr>) | None \<Rightarrow> s"
  have z: "in_step False E s" using assms by simp
  have "in_step False E (s\<lparr>login_options := None\<rparr>)" using z in_step_cong [of "s\<lparr>login_options := None\<rparr>" s] by simp
  then have i: "in_step False E ?s" using z by (simp add: session_options_step split: option.split)
  have l: "same_login ?s s"
    using session_options_same_login [of E _ "s\<lparr>login_options := None\<rparr>"] by (simp add: same_login_def split: option.split)
  then have n: "\<not> services_subed (conn ?s)" "authorized (conn ?s)" using assms by (simp_all add: same_login_def)
  have e: "after_logon E True False s = try_sub_monitor_services E ?s"
    using i by (simp add: after_logon_def in_step_def is_remote_def Let_def)
  have "authorized (conn (try_sub_monitor_services E ?s)) = authorized (conn ?s)"
    by (simp add: try_sub_monitor_services_def Let_def)
  with sub_monitor_step [OF i n(1)] n(2) show ?thesis unfolding e by simp
qed

lemma session_in_step:
  assumes "new_remote s" and "t = fold (session_step E) es' (after_logon E True False
      (on_granted i l o' (fold (session_step E) es s)))"
  shows "in_step True E t"
proof -
  have "pending E s" using assms(1) by (simp add: new_remote_def pending_def in_step_def between_def)
  then have "pending E (fold (session_step E) es s)" by (induction es arbitrary: s) (simp_all add: pending_step)
  from after_logon_in_step [OF granted_in_step [OF this refl]]
  have u: "in_step True E u \<and> authorized (conn u)"
    if "u = after_logon E True False (on_granted i l o' (fold (session_step E) es s))" for u using that by simp
  have "in_step True E u \<and> authorized (conn u) \<Longrightarrow>
      in_step True E (fold (session_step E) es' u) \<and> authorized (conn (fold (session_step E) es' u))" for u
    by (induction es' arbitrary: u) (simp_all add: session_step_in_step)
  from this [OF u [OF refl]] show ?thesis unfolding assms(2) by simp
qed

text \<open>
  C13. The subscriptions of a remote desktop session follow its permissions and options. A connection with a
  new id goes through any switches of permissions at the host before its login, through a login with any
  options (granted on a host whose displays can be read, and that need not confirm a session), and through any
  sequence of messages of the peer (option changes, display switches, input, voice calls) and of permission
  switches after it. Then the peer gets the host's audio exactly while audio is permitted and not disabled,
  the clipboard exactly while clipboard and keyboard are permitted, not disabled and not one-way, and the
  cursor position exactly while it asks for it. It gets the cursor image whenever it may use the keyboard or
  asks to see it, and then only while the host permits the keyboard (view only or not) or it asks to see it;
  the window focus only while it asks to follow windows; and the file clipboard only while file transfer is
  permitted and enabled, whatever the permission for the clipboard.
\<close>

theorem subscriptions_follow_permissions:
  assumes "new_remote s" and "t = fold (session_step E) es' (after_logon E True False
      (on_granted i l o' (fold (session_step E) es s)))"
  shows "(subed AUDIO_NAME t \<longleftrightarrow> audio_enabled t)
    \<and> (subed CLIPBOARD_NAME t \<longleftrightarrow> can_sub_clipboard_service E t)
    \<and> (subed NAME_POS t \<longleftrightarrow> show_remote_cursor (conn t))
    \<and> (peer_keyboard_enabled t \<or> show_remote_cursor (conn t) \<longrightarrow> subed NAME_CURSOR t)
    \<and> (subed NAME_CURSOR t \<longrightarrow> keyboard (conn t) \<or> show_remote_cursor (conn t))
    \<and> (subed NAME_WINDOW_FOCUS t \<longrightarrow> follow_remote_window (conn t))
    \<and> (subed FILE_CLIPBOARD_NAME t \<longrightarrow> file_transfer_enabled t)"
  using session_in_step [OF assms] by (auto simp: in_step_def)

text \<open>A host with the six services and one display, and a session on it.\<close>

definition demo_host :: host_env where
  "demo_host = \<lparr>builtin = (\<lambda>_. []), now = 0, host_option = (\<lambda>_. []), parse_u64 = (\<lambda>_. None), primary_display_idx = 0,
     primary_camera_exists = True, whiteboard_supported = True, rdev_key = (\<lambda>n. if n = 42 then ''ShiftLeft'' else ''KeyA''),
     display_known = (\<lambda>_. True)\<rparr>"

definition demo_server :: server where
  "demo_server = server_new 5 (map (\<lambda>n. service_new n False)
     [NAME_CURSOR, NAME_POS, NAME_WINDOW_FOCUS, CLIPBOARD_NAME, FILE_CLIPBOARD_NAME, AUDIO_NAME])"

definition demo_conn :: connection where
  "demo_conn = (connection_start 1 (IpV4 7) ''s'' ''c'' None None demo_globals)
     \<lparr>authorized := True, authed_conn_id := Some (1, ConnRemote), keyboard := True, clipboard := True, audio := True,
      file_perm := True, lr := login_request_default\<lparr>lr_version := ''1.4.0''\<rparr>\<rparr>"

definition demo_live :: "connection \<Rightarrow> option_message option \<Rightarrow> conn_state" where
  "demo_live c o' = \<lparr>conn = c, inner = conn_new 1 None None, srv = Some demo_server, follow_remote_cursor = False,
     lock_after_session_end = False, show_my_cursor = False, voice_calling = False, voice_call_request_timestamp = None,
     display_idx = 0, multi_ui_session = False, login_options = o', auto_disconnect_timer = None, pressed_modifiers = {},
     audio_sender = False, host_clipboard = [], file_clip_emptied = 0, whiteboard = False, rebooted = False,
     persistent_set = None, to_peer = [], to_cm = [], to_input = []\<rparr>"

lemma demo_server_ok:
  "server_inv demo_server" "n \<in> service_set \<Longrightarrow> contains_service n demo_server" "\<not> subed_at 1 n demo_server"
proof -
  show "server_inv demo_server" unfolding demo_server_def by (rule server_new_inv) (simp add: service_inv_new)
  have "services demo_server = map (\<lambda>n. (n, service_new n False))
     [NAME_CURSOR, NAME_POS, NAME_WINDOW_FOCUS, CLIPBOARD_NAME, FILE_CLIPBOARD_NAME, AUDIO_NAME]"
    by code_simp
  then show "n \<in> service_set \<Longrightarrow> contains_service n demo_server" "\<not> subed_at 1 n demo_server"
    by (auto simp: contains_service_def service_set_def subed_at_def is_subed_def service_new_def)
qed

lemma demo_wf: "wf_session (demo_live c o')" "\<not> subed n (demo_live c o')"
  using demo_server_ok by (auto simp: wf_session_def subed_def demo_live_def conn_new_def)

lemma demo_new: "new_remote (demo_live (demo_conn\<lparr>authorized := False, authed_conn_id := None\<rparr>) o')"
  by (simp add: new_remote_def demo_wf)
     (simp add: demo_live_def demo_conn_def connection_start_def is_remote_def is_authed_view_camera_conn_def Let_def)

lemma demo_granted:
  "in_step False E (demo_live demo_conn o') \<and> authorized (conn (demo_live demo_conn o'))
     \<and> \<not> services_subed (conn (demo_live demo_conn o'))"
  by (simp add: in_step_def between_def demo_wf)
     (simp add: demo_live_def demo_conn_def connection_start_def is_remote_def is_authed_view_camera_conn_def Let_def)

theorem subscriptions_follow_permissions_witness:
  "\<exists>s t. t = fold (session_step demo_host) [CmSwitch ''audio'' False] (after_logon demo_host True False
       (on_granted 1 login_request_default None (fold (session_step demo_host) [CmSwitch ''clipboard'' True] s)))
     \<and> \<not> subed AUDIO_NAME t"
proof -
  let ?s = "demo_live (demo_conn\<lparr>authorized := False, authed_conn_id := None\<rparr>) None"
  let ?t = "fold (session_step demo_host) [CmSwitch ''audio'' False] (after_logon demo_host True False
       (on_granted 1 login_request_default None (fold (session_step demo_host) [CmSwitch ''clipboard'' True] ?s)))"
  have "\<not> audio_enabled ?t" by (simp add: switch_permission_def sync_defs audio_enabled_def Let_def)
  with subscriptions_follow_permissions [OF demo_new refl, of demo_host "[CmSwitch ''audio'' False]" 1
      login_request_default None "[CmSwitch ''clipboard'' True]" None]
  show ?thesis by blast
qed

section \<open>Input\<close>








lemma input_frame [simp]:
  "to_input (send_peer p s) = to_input s" "to_input (send_to_cm c s) = to_input s"
  "to_input (try_empty_file_clipboard s) = to_input s" "to_input (update_auto_disconnect_timer E s) = to_input s"
  "to_input (input_send i s) = to_input s @ [i]"
  by (simp_all add: send_peer_def send_to_cm_def try_empty_file_clipboard_def update_auto_disconnect_timer_def input_send_def)

















section \<open>Where the code falls short\<close>

text \<open>
  C37. The file clipboard survives the clipboard. Whether a connection may be subscribed to the file
  clipboard depends on the clipboard permission, but switching that permission off brings only the
  text clipboard up to date: a connection that was subscribed to the file clipboard stays
  subscribed, in a state in which the code itself says it may not be.
\<close>

theorem file_clipboard_outlives_clipboard:
  assumes "wf_session s" and "subed FILE_CLIPBOARD_NAME s" and "t = switch_permission E ''clipboard'' False s"
  shows "subed FILE_CLIPBOARD_NAME t \<and> \<not> can_sub_file_clipboard_service E t \<and> \<not> subed CLIPBOARD_NAME t"
  using assms by (simp add: switch_permission_def sync_defs enabled_defs subed_subscribe)

definition demo_files_session :: conn_state where
  "demo_files_session = after_logon demo_host True False
     (demo_live demo_conn (Some (option_message_default\<lparr>om_enable_file_transfer := Yes\<rparr>)))"

lemma demo_files_subed: "wf_session demo_files_session" "subed FILE_CLIPBOARD_NAME demo_files_session"
proof -
  show "wf_session demo_files_session"
    using after_logon_in_step [OF demo_granted] by (simp add: demo_files_session_def in_step_def)
  show "subed FILE_CLIPBOARD_NAME demo_files_session" by code_simp
qed

theorem file_clipboard_outlives_clipboard_witness:
  "subed FILE_CLIPBOARD_NAME (switch_permission demo_host ''clipboard'' False demo_files_session)"
  using file_clipboard_outlives_clipboard [OF demo_files_subed refl] by blast

text \<open>
  C36. A permission switched before the authorization subscribes the peer. The handler of the audio
  permission asks whether the connection is authorized, that of the clipboard does not: when the
  user at the host switches the clipboard permission on while the login is still pending, the peer
  gets the contents of the host's clipboard from then on.
\<close>

theorem clipboard_before_authorization:
  assumes "wf_session s" and "\<not> authorized (conn s)" and "peer_keyboard_enabled s" and "\<not> disable_clipboard (conn s)"
    and "builtin E ''one-way-clipboard-redirection'' \<noteq> ''Y''"
  shows "subed CLIPBOARD_NAME (switch_permission E ''clipboard'' True s)
    \<and> \<not> authorized (conn (switch_permission E ''clipboard'' True s))
    \<and> subed AUDIO_NAME (switch_permission E ''audio'' True s) = subed AUDIO_NAME s"
  using assms by (simp add: switch_permission_def sync_defs enabled_defs subed_subscribe)

theorem clipboard_before_authorization_witness:
  "subed CLIPBOARD_NAME (switch_permission demo_host ''clipboard'' True (demo_live (demo_conn\<lparr>authorized := False\<rparr>) None))"
proof -
  have "peer_keyboard_enabled (demo_live (demo_conn\<lparr>authorized := False\<rparr>) None)"
    by (simp add: peer_keyboard_enabled_def demo_live_def demo_conn_def connection_start_def Let_def)
  with clipboard_before_authorization [OF demo_wf(1), of "demo_conn\<lparr>authorized := False\<rparr>" None demo_host]
  show ?thesis by (simp add: demo_live_def demo_conn_def connection_start_def demo_host_def Let_def)
qed

lemma contains_add_video: "contains_service (get_service_name src d) (add_video_service src d v)"
  by (simp add: add_video_service_def contains_service_def add_service_def update_conv' video_service_new_def service_new_def)

lemma capture_includes:
  assumes "server_inv v" and "contains_service (get_service_name src d) v" and "d \<in> set ds"
  shows "subed_at (conn_id c) (get_service_name src d) (capture_displays c src ds True exc v)"
  using assms unfolding capture_displays_captured
  by (subst capture_fold) (auto simp: contains_service_keys captured_def)

text \<open>
  C35. The kind of a session is not enforced. A peer that was accepted for a file transfer (and whose
  login asked for nothing else) may send the messages of a remote desktop session: a request to
  capture a display subscribes it to the screen, and with the keyboard permission, which a new
  connection has by default, its pointer events are injected. Only port forwarding and, for
  input, camera sessions are kept apart.
\<close>

theorem file_session_sees_the_screen:
  assumes "srv s = Some v" and "server_inv v" and "authorized (conn s)" and "file_transfer (conn s) \<noteq> None"
    and "\<not> port_forward_socket (conn s)" and "\<not> view_camera (conn s)"
    and "authed_conn_id (conn s) = Some (i, ConnFileTransfer)" and "peer_keyboard_enabled s"
  shows "subed (get_service_name Monitor d) (on_authorized_msg E (CaptureDisplaysMsg [d] [] []) s)
    \<and> to_input (on_authorized_msg E (PointerMsg p) s) = to_input s @ [InPointer p]"
proof -
  have v: "server_inv (add_video_service Monitor d v)" using neutral_add assms(2) by (simp add: neutral_def)
  let ?v = "capture_displays (inner s) Monitor [d] True False (add_video_service Monitor d v)"
  have "subed_at (conn_id (inner s)) (get_service_name Monitor d) ?v"
    by (rule capture_includes [OF v contains_add_video]) simp
  moreover have "server_inv ?v" by (rule capture_displays_inv [OF v])
  ultimately have "subed (get_service_name Monitor d) (on_authorized_msg E (CaptureDisplaysMsg [d] [] []) s)"
    using assms not_video_name [OF names_in(3), of Monitor d]
    by (simp add: on_authorized_msg_def conn_capture_displays_def video_source_of_def subed_def Let_def subed_at_subscribe)
  moreover have "to_input (on_authorized_msg E (PointerMsg p) s) = to_input s @ [InPointer p]"
    using assms by (simp add: on_authorized_msg_def on_pointer_event_def is_authed_view_camera_conn_def
        update_auto_disconnect_timer_def)
  ultimately show ?thesis ..
qed

theorem file_session_sees_the_screen_witness:
  "\<exists>s. file_transfer (conn s) = Some (''/home'', False)
     \<and> subed (get_service_name Monitor 0) (on_authorized_msg demo_host (CaptureDisplaysMsg [0] [] []) s)"
proof -
  let ?c = "demo_conn\<lparr>file_transfer := Some (''/home'', False), authed_conn_id := Some (1, ConnFileTransfer)\<rparr>"
  let ?s = "demo_live ?c None"
  have c: "srv ?s = Some demo_server" "authorized (conn ?s)" "file_transfer (conn ?s) \<noteq> None"
    "\<not> port_forward_socket (conn ?s)" "\<not> view_camera (conn ?s)" "authed_conn_id (conn ?s) = Some (1, ConnFileTransfer)"
    "peer_keyboard_enabled ?s" "file_transfer (conn ?s) = Some (''/home'', False)"
    by (simp_all add: demo_live_def demo_conn_def connection_start_def peer_keyboard_enabled_def Let_def)
  from file_session_sees_the_screen [OF c(1) demo_server_ok(1) c(2-7), of 0 demo_host] c(8) show ?thesis by blast
qed

lemma modifiers_frame [simp]:
  "pressed_modifiers (send_peer p s) = pressed_modifiers s" "pressed_modifiers (send_to_cm c s) = pressed_modifiers s"
  "pressed_modifiers (input_send i s) = pressed_modifiers s"
  "pressed_modifiers (try_empty_file_clipboard s) = pressed_modifiers s"
  "pressed_modifiers (update_auto_disconnect_timer E s) = pressed_modifiers s"
  by (simp_all add: send_peer_def send_to_cm_def input_send_def try_empty_file_clipboard_def update_auto_disconnect_timer_def)

lemma modifiers_opts:
  "pressed_modifiers (opt_lock o' s) = pressed_modifiers s" "pressed_modifiers (opt_show_cursor o' s) = pressed_modifiers s"
  "pressed_modifiers (opt_follow_cursor o' s) = pressed_modifiers s" "pressed_modifiers (opt_follow_window o' s) = pressed_modifiers s"
  "pressed_modifiers (opt_audio o' s) = pressed_modifiers s" "pressed_modifiers (opt_file E o' s) = pressed_modifiers s"
  "pressed_modifiers (opt_clipboard E o' s) = pressed_modifiers s" "pressed_modifiers (opt_keyboard E o' s) = pressed_modifiers s"
  "pressed_modifiers (opt_block_input o' s) = pressed_modifiers s" "pressed_modifiers (opt_terminal o' s) = pressed_modifiers s"
  "pressed_modifiers (opt_my_cursor E o' s) = pressed_modifiers s"
  by (simp_all add: opt_lock_def opt_show_cursor_def opt_follow_cursor_def opt_follow_window_def opt_audio_def opt_file_def
      opt_clipboard_def opt_keyboard_def opt_block_input_def opt_terminal_def opt_my_cursor_def sync_defs Let_def
      split: option.split)

lemma modifiers_key: "pressed_modifiers s = {} \<Longrightarrow> pressed_modifiers (on_key_event E k s) = {}"
  by (simp add: on_key_event_def Let_def split: option.split)

lemma modifiers_msg: "pressed_modifiers s = {} \<Longrightarrow> pressed_modifiers (on_session_msg E m s) = {}"
  by (cases m) (simp_all add: modifiers_key modifiers_opts on_mouse_event_def on_pointer_event_def session_options_def
      service_options_def handle_switch_display_def switch_display_to_def conn_capture_displays_def
      on_voice_call_request_def Let_def split: option.split)

lemma modifiers_step: "pressed_modifiers s = {} \<Longrightarrow> pressed_modifiers (session_step E e s) = {}"
  by (cases e) (simp_all add: on_authorized_msg_def modifiers_msg switch_permission_def handle_voice_call_def
      close_voice_call_def sync_defs Let_def split: option.split)

text \<open>
  C38. On Linux a connection never remembers a pressed modifier: an event that is a modifier does not
  count as a press, and only a press is remembered. From a new connection, through any messages,
  the set that \<open>release_pressed_modifiers\<close> releases when the connection is dropped is empty, so a
  modifier the peer holds down stays down.
\<close>

theorem linux_modifiers_never_recorded:
  assumes "pressed_modifiers s = {}"
  shows "fst (release_pressed_modifiers (fold (session_step E) es s)) = {}"
proof -
  have "pressed_modifiers (fold (session_step E) es s) = {}"
    using assms by (induction es arbitrary: s) (simp_all add: modifiers_step)
  then show ?thesis by (simp add: release_pressed_modifiers_def)
qed

definition shift_down :: key_event where
  "shift_down = \<lparr>ke_mode = 1, ke_control = None, ke_chr = Some 42, ke_text = False, ke_down = True, ke_press = False\<rparr>"

theorem linux_modifiers_never_recorded_witness:
  "fst (release_pressed_modifiers (fold (session_step demo_host) [PeerSays (KeyMsg shift_down)] (demo_live demo_conn None))) = {}
   \<and> event_modifier demo_host shift_down = Some ''ShiftLeft''"
proof -
  have "pressed_modifiers (demo_live demo_conn None) = {}" by (simp add: demo_live_def)
  from linux_modifiers_never_recorded [OF this, of demo_host "[PeerSays (KeyMsg shift_down)]"]
  show ?thesis by (simp add: event_modifier_def shift_down_def demo_host_def rdev_is_modifier_def)
qed

end
