(* ===== verification/Spec2Isabelle.thy ===== *)
theory Spec2Isabelle
  imports Bytes_Codec Addr_Mangle Secure_Stream Connection_Auth Cm_Files Video_Qos_Proofs Dir_Tree_Proofs Codec_Negotiation Terminal_Proofs Rendezvous_Proofs Clip_Paste Conn_Services_Proofs
begin

text \<open>
  A verification development for hbtdesk, a remote desktop program (RustDesk with changes): the
  host side that admits and serves peers, and the libraries it shares with the peers. This theory
  is the root; it imports every component.

  \<^bold>\<open>The program.\<close> A host registers with a rendezvous server and accepts connections, direct or
  relayed. Bytes on a connection are framed (\<open>bytes_codec.rs\<close>) and, after a handshake, encrypted
  with a sequence number as nonce (\<open>tcp.rs\<close>). A \<open>Connection\<close> (\<open>src/server/connection.rs\<close>) first
  runs the login protocol: password, recent session, one-time code, acceptance by the user in the
  connection manager; with limits on failures per address. An authorized connection is added to
  the \<open>Server\<close> (\<open>src/server.rs\<close>), which subscribes it to services (\<open>src/server/service.rs\<close>) such as
  video, audio and cursor; a service runs in a thread and sends messages to its subscribers. The
  video services ask one quality of service controller for frame rate and bit rate
  (\<open>src/server/video_qos.rs\<close>). File requests go to the connection manager process
  (\<open>src/ui_cm_interface.rs\<close>), which runs transfer jobs (\<open>libs/hbb_common/src/fs.rs\<close>). Options,
  passwords and trusted devices are kept in configuration files (\<open>config.rs\<close>,
  \<open>password_security.rs\<close>).

  \<^bold>\<open>Conventions.\<close> Structures are records with the fields of the source, enumerations datatypes
  with its constructors; an operation returns the new state. A fallible operation returns a sum
  with the error on the left; where the source can panic the result is an option or an explicit
  panic value. Integers are words of their width, or \<open>int\<close>/\<open>nat\<close> with the wrap-around written out.
  Code outside the repository (libsodium, zstd, JSON, the encoder, the operating system, the
  clock) is a parameter; what is assumed of it is a named predicate and the witnesses instantiate
  it. Threads, channels and sockets appear as sequences of steps and lists of messages. Locks are
  not modelled: an operation that holds a lock is one step.

  \<^bold>\<open>Theories, in the order of the layers.\<close>

  \<^item> \<open>Hbb_Prelude\<close>: machine types, results, little-endian byte strings, shared lemmas and the
    \<open>named_theorems\<close> collections. \<open>Rust_Strings\<close>: bytes of strings, UTF-8, splitting, printing and
    parsing of numbers. \<open>Regexp\<close>: regular expressions by derivatives with their language. \<open>F32\<close>:
    single precision arithmetic as rounded rationals, with monotonicity of rounding.

  \<^item> \<open>Framing\<close>, \<open>Bytes_Codec\<close>: the locale of an incremental decoder and the codec that is one
    (\<open>BytesCodec\<close>). Any sequence of messages comes back however the transport cuts the bytes; the
    buffer stays within the packet limit; what is rejected.

  \<^item> \<open>Addr_Mangle\<close>: \<open>AddrMangle\<close> of \<open>hbb_common/src/lib.rs\<close>. Decoding inverts
    encoding, up to flow label and scope, and up to IPv4 addresses written as IPv6 addresses.

  \<^item> \<open>Secure_Stream\<close>: \<open>Encrypt\<close> and \<open>FramedStream\<close> of \<open>tcp.rs\<close>. Messages pass in order through an
    honest channel; no nonce is used twice before the counter wraps; of frames longer than one byte a
    secured stream delivers only what opens (shorter ones it delivers as they are).

  \<^item> \<open>Service\<close>, \<open>Server_Registry\<close>: \<open>ServiceTmpl\<close> with both thread loops, and \<open>Server\<close>. The locale
    of a subscription service is interpreted on the template; connections are subscribed and
    unsubscribed everywhere as they come and go; displays captured are exactly those asked for;
    connection ids do not repeat before the counter wraps.

  \<^item> \<open>Password_Security\<close>, \<open>Config\<close>: password policy, encrypted storage, \<open>Config\<close>/\<open>Config2\<close>, options
    in their layers, provisioning, trusted devices, rendezvous servers. Files load what was stored;
    setting
    a new permanent password revokes the trusted devices, the other ways to change it do not; a
    password too long to encrypt is lost. The TOML files are written by other packages: a stored
    structure reads back as itself.

  \<^item> \<open>Host_Version\<close>: host, port, id and version strings of \<open>hbb_common/src/lib.rs\<close> and
    \<open>socket_client.rs\<close>.

  \<^item> \<open>Login_Guard\<close>, \<open>Sessions\<close>, \<open>Connection_Auth\<close>: failure limits, session and permission tables,
    and the login protocol as a step relation on connection and global tables. A connection is
    authorized only on one of the stated grounds; in any interleaving of checks and outcomes the
    limits bound the passwords tried per address, if its attempts do not overlap, and per IPv6 prefix,
    up to the number of attempts that overlap.

  \<^item> \<open>File_Transfer\<close>, \<open>File_Transfer_Proofs\<close>, \<open>Cm_Files\<close>: the file system as names and nodes (the
    locale \<open>path_store\<close>, interpreted as \<open>unix\<close>), transfer jobs of both sides, and the requests of
    the connection manager. What is sent is what is read; a complete transfer puts every file in
    place with its time; whatever file requests a peer sends, a file
    changes only inside the directory of an upload, or at a path the peer may name (single files,
    removals, renamings); and the error paths that lose or mix data. Writes through a buffer are
    taken as done at once, and there are no links among the names.

  \<^item> \<open>Dir_Tree\<close>, \<open>Dir_Tree_Proofs\<close>: directory listings, recursive listings and removal
    on trees. The recursion of the listings terminates because it never follows links; the
    listing is exact and a removal keeps all files.

  \<^item> \<open>Video_Qos\<close>, \<open>Video_Qos_Proofs\<close>: the quality of service controller with its round trip
    estimator and the check a video service makes. In every run all rates stay in range and nothing
    panics.

  \<^item> \<open>Codec_Negotiation\<close>: the codec all viewers of a host share (\<open>Encoder::update\<close>), the fallback
    and the choice of an encoder by a video service, and the abilities a viewer announces. The
    negotiated codec is one every viewer decodes, the majority's preference wins; a fallback
    with a stale configuration can break it.

  \<^item> \<open>Terminal_Buffer\<close>, \<open>Terminal_Service\<close>, \<open>Terminal_Proofs\<close>: the output buffer of a terminal, the
    registry of terminal services with their sessions and actions, the pass that reads output,
    the reaper and the clean-up. Output is delivered in order and every shell is accounted for;
    the buffer loop ends when lines are not split, and can hang when they are.

  \<^item> \<open>Rendezvous\<close>, \<open>Rendezvous_Proofs\<close>: the mediator of \<open>src/rendezvous_mediator.rs\<close>, its UDP and TCP loops as
    steps, the answers of the server, incoming connections, the handshake of \<open>src/server.rs\<close> and the
    direct server. Attempts are paced and kept up and send a message unless another server's mismatch
    is being solved; one mediator at a time changes the id; a configured proxy is never bypassed, and
    a connection asked to be encrypted is in clear only as stated.

  \<^item> \<open>Clip_Descriptor\<close>, \<open>Clip_Serve\<close>, \<open>Clip_Listing\<close>, \<open>Clip_Serve_Proofs\<close>, \<open>Clip_Fuse\<close>, \<open>Clip_Fuse_Proofs\<close>, \<open>Clip_Paste\<close>: the
    file clipboard of \<open>libs/clipboard/src/platform/unix\<close> and \<open>src/clipboard_file.rs\<close>. The copying
    side lists files, describes them and serves ranges; the pasting side builds a tree and reads
    through it. The listing ends and is complete, the descriptors survive the way, the tree is the
    listing, the handles are exact, and what is pasted is what was copied; offsets with bit 31 set
    are refused and a negative length panics. The conversions to UTF-16 are arguments, with their
    round trip as a hypothesis.

  \<^item> \<open>Privacy_Mode\<close>: privacy mode of \<open>src/privacy_mode.rs\<close> with its two Windows implementations, the input
    hooks and the requests of a connection. The locale \<open>privacy_contract\<close> is what the switchboard
    relies on, interpreted on both implementations and their sum. Another connection
    cannot take the mode over, though its refused request turns it off; the end of its owner gives
    screen and input back as far as Windows does what it is told.

  \<^item> \<open>Conn_Services\<close>, \<open>Conn_Services_Proofs\<close>: the services and the input of an authorized connection:
    options of the viewer, permissions switched at the host, displays, voice calls, the gate of
    input. Subscriptions follow permissions and options, and without permission nothing is simulated;
    the file clipboard, the time before authorization, the kind of the session and held modifiers
    are where the code falls short.

  \<^bold>\<open>Fuel and bounds.\<close> Functions are total, by structural recursion or a measure. The thread loops
  of a service take the list of what happens in each iteration, so a run is as long as that list.
  The transfer loop \<open>pump\<close> takes the number of timer ticks; the property on it gives a number of
  ticks after which the job has ended. The retry loops of the configuration files make the five
  attempts of the source.

  \<^bold>\<open>Not modelled.\<close> The user interfaces (\<open>src/ui*\<close>, \<open>src/flutter*.rs\<close>), the viewer side
  (\<open>src/client.rs\<close>, \<open>src/client/\<close>), input injection, audio, the desktop clipboard, screen capture and the
  codecs themselves are glue around the operating system and libraries; the platform modules,
  the virtual displays and the plugins likewise. LAN discovery, proxy,
  web socket and HTTP modules are sequences of network calls. Protocol buffer messages are
  generated code: their fields appear as arguments and records.
\<close>

end
